(* ===== verification/Prelude.thy ===== *)
theory Prelude
  imports Main
begin

text \<open>
  Shared vocabulary of the development: bytes and C strings, the character classes of
  \<^verbatim>\<open>ctype.h\<close> in the C locale, size limits, and the generic facts on searching,
  trimming and cutting byte strings that the component theories share.

  A C string is modelled by the bytes that follow the pointer; \<open>cstr\<close> cuts them at the first
  NUL. A pointer that may be NULL is a \<^typ>\<open>string option\<close>. A \<^verbatim>\<open>size_t\<close> is a \<^typ>\<open>nat\<close> with
  \<open>SIZE_MAX\<close> written out where the code checks it; \<^verbatim>\<open>SIZE_MAX\<close> as the "not found" result of the
  search functions is \<^const>\<open>None\<close>.
\<close>

named_theorems ctype_simps "definitions of the character classes"
named_theorems cut_simps "facts about cutting and trimming byte strings"

section \<open>Bytes and C strings\<close>

type_synonym cptr = "string option"

abbreviation NUL :: char where "NUL \<equiv> CHR 0x00"
abbreviation TAB :: char where "TAB \<equiv> CHR 0x09"
abbreviation LF :: char where "LF \<equiv> CHR 0x0A"
abbreviation CR :: char where "CR \<equiv> CHR 0x0D"
abbreviation DQ :: char where "DQ \<equiv> CHR 0x22"
abbreviation SQ :: char where "SQ \<equiv> CHR 0x27"
abbreviation BSL :: char where "BSL \<equiv> CHR 0x5C"

abbreviation crlf :: string where "crlf \<equiv> [CR, LF]"
abbreviation crlf2 :: string where "crlf2 \<equiv> [CR, LF, CR, LF]"

definition byte :: "char \<Rightarrow> nat" where
  [ctype_simps]: "byte c = of_char c"

definition cstr :: "string \<Rightarrow> string" where
  "cstr s = takeWhile (\<lambda>c. c \<noteq> NUL) s"

definition SIZE_MAX :: nat where
  "SIZE_MAX = 18446744073709551615"

definition INT_MAX :: nat where
  "INT_MAX = 2147483647"

text \<open>The conversion of a \<^verbatim>\<open>size_t\<close> to \<^verbatim>\<open>i32\<close>, with its wrap-around.\<close>

definition i32_of_sz :: "nat \<Rightarrow> int" where
  "i32_of_sz n = (int n + 2147483648) mod 4294967296 - 2147483648"

lemma i32_of_sz_small: "n \<le> INT_MAX \<Longrightarrow> i32_of_sz n = int n"
  by (simp add: i32_of_sz_def INT_MAX_def)

text \<open>Subtraction of two \<^verbatim>\<open>size_t\<close> values, which wraps below zero.\<close>

definition sz_sub :: "nat \<Rightarrow> nat \<Rightarrow> nat" where
  "sz_sub a b = (if b \<le> a then a - b else a + (SIZE_MAX + 1) - b)"

lemma sz_sub_le [simp]: "b \<le> a \<Longrightarrow> sz_sub a b = a - b"
  by (simp add: sz_sub_def)

text \<open>The decimal digits of a number, as \<^verbatim>\<open>%zu\<close> prints them.\<close>

fun dec_of :: "nat \<Rightarrow> string" where
  "dec_of n = (if n < 10 then [char_of (48 + n)] else dec_of (n div 10) @ [char_of (48 + n mod 10)])"

declare dec_of.simps [simp del]

section \<open>Character classes\<close>

definition isspace :: "char \<Rightarrow> bool" where
  [ctype_simps]: "isspace c \<longleftrightarrow> byte c = 32 \<or> (9 \<le> byte c \<and> byte c \<le> 13)"

definition isupper :: "char \<Rightarrow> bool" where
  [ctype_simps]: "isupper c \<longleftrightarrow> 65 \<le> byte c \<and> byte c \<le> 90"

definition islower :: "char \<Rightarrow> bool" where
  [ctype_simps]: "islower c \<longleftrightarrow> 97 \<le> byte c \<and> byte c \<le> 122"

definition isdigit :: "char \<Rightarrow> bool" where
  [ctype_simps]: "isdigit c \<longleftrightarrow> 48 \<le> byte c \<and> byte c \<le> 57"

definition isalnum :: "char \<Rightarrow> bool" where
  [ctype_simps]: "isalnum c \<longleftrightarrow> isupper c \<or> islower c \<or> isdigit c"

definition isxdigit :: "char \<Rightarrow> bool" where
  [ctype_simps]: "isxdigit c \<longleftrightarrow> isdigit c \<or> (65 \<le> byte c \<and> byte c \<le> 70) \<or> (97 \<le> byte c \<and> byte c \<le> 102)"

definition tolower :: "char \<Rightarrow> char" where
  [ctype_simps]: "tolower c = (if isupper c then char_of (byte c + 32) else c)"

lemma byte_less [simp]: "byte c < 256"
  by (simp add: byte_def)

lemma byte_inject [simp]: "byte c = byte d \<longleftrightarrow> c = d"
  by (simp add: byte_def)

lemma char_of_byte [simp]: "char_of (byte c) = c"
  by (simp add: byte_def)

lemma byte_char_of: "n < 256 \<Longrightarrow> byte (char_of n) = n"
  by (simp add: byte_def)

lemma byte_eq_0_iff [simp]: "byte c = 0 \<longleftrightarrow> c = NUL"
proof -
  have "byte NUL = 0" by (simp add: byte_def)
  then show ?thesis using byte_inject[of c NUL] by simp
qed

lemma byte_tolower: "byte (tolower c) = (if isupper c then byte c + 32 else byte c)"
  by (simp add: tolower_def isupper_def byte_char_of)

lemma tolower_eq_NUL_iff [simp]: "tolower c = NUL \<longleftrightarrow> c = NUL"
proof -
  have "byte (tolower c) = 0 \<longleftrightarrow> byte c = 0"
    by (simp add: byte_tolower isupper_def del: byte_eq_0_iff)
  then show ?thesis by simp
qed

lemma tolower_idem [simp]: "tolower (tolower c) = tolower c"
proof -
  have "\<not> isupper (tolower c)" by (auto simp: isupper_def[of "tolower c"] byte_tolower isupper_def)
  then show ?thesis by (simp add: tolower_def[of "tolower c"])
qed

lemma isdigit_char_of: "(n::nat) < 10 \<Longrightarrow> isdigit (char_of (48 + n))"
  by (simp add: isdigit_def byte_char_of)

lemma dec_of_isdigit: "c \<in> set (dec_of n) \<Longrightarrow> isdigit c"
  by (induction n rule: dec_of.induct)
    (subst (asm) (2) dec_of.simps, auto split: if_splits intro: isdigit_char_of)

lemma dec_of_not_Nil [simp]: "dec_of n \<noteq> []"
  by (subst dec_of.simps) simp

lemma length_dec_of: "n < 10 ^ k \<Longrightarrow> 0 < k \<Longrightarrow> length (dec_of n) \<le> k"
proof (induction k arbitrary: n)
  case (Suc k)
  show ?case
  proof (cases "n < 10")
    case False
    then have "0 < k" using Suc.prems by (cases k) auto
    moreover have "n div 10 < 10 ^ k" using Suc.prems(1) by (simp add: less_mult_imp_div_less)
    ultimately have "length (dec_of (n div 10)) \<le> k" using Suc.IH by simp
    with False show ?thesis by (subst dec_of.simps) simp
  qed (subst dec_of.simps, simp)
qed simp

lemma length_dec_of_size_max: "n \<le> SIZE_MAX \<Longrightarrow> length (dec_of n) \<le> 20"
  by (rule length_dec_of) (simp_all add: SIZE_MAX_def)

lemma isdigit_not_space: "isdigit c \<Longrightarrow> \<not> isspace c"
  by (auto simp: isdigit_def isspace_def)

section \<open>C strings\<close>

lemma cstr_NUL_free [simp]: "NUL \<notin> set (cstr s)"
  by (auto simp: cstr_def dest: set_takeWhileD)

lemma cstr_ident: "NUL \<notin> set s \<Longrightarrow> cstr s = s"
  unfolding cstr_def by (rule takeWhile_eq_all_conv[THEN iffD2]) auto

lemma cstr_Nil [simp]: "cstr [] = []"
  by (simp add: cstr_def)

lemma cstr_Cons [simp]: "cstr (c # s) = (if c = NUL then [] else c # cstr s)"
  by (simp add: cstr_def)

lemma cstr_append: "NUL \<notin> set a \<Longrightarrow> cstr (a @ b) = a @ cstr b"
  by (induction a) auto

lemma cstr_cstr [simp]: "cstr (cstr s) = cstr s"
  by (rule cstr_ident) simp

lemma length_cstr_le: "length (cstr s) \<le> length s"
  by (simp add: cstr_def length_takeWhile_le)

lemma set_cstr_subset: "set (cstr s) \<subseteq> set s"
  by (auto simp: cstr_def dest: set_takeWhileD)

section \<open>Cutting and trimming\<close>

definition rtrim :: "string \<Rightarrow> string" where
  "rtrim s = rev (dropWhile isspace (rev s))"

definition ltrim :: "string \<Rightarrow> string" where
  "ltrim s = dropWhile isspace s"

definition trim :: "string \<Rightarrow> string" where
  "trim s = rtrim (ltrim s)"

lemma set_rtrim: "set (rtrim s) \<subseteq> set s"
  by (auto simp: rtrim_def dest: set_dropWhileD)

lemma set_ltrim: "set (ltrim s) \<subseteq> set s"
  by (auto simp: ltrim_def dest: set_dropWhileD)

lemma set_trim: "set (trim s) \<subseteq> set s"
  unfolding trim_def using set_rtrim set_ltrim by blast

lemma length_rtrim_le: "length (rtrim s) \<le> length s"
  by (simp add: rtrim_def length_dropWhile_le[of _ "rev s", simplified])

lemma length_ltrim_le: "length (ltrim s) \<le> length s"
  by (simp add: ltrim_def length_dropWhile_le)

lemma dropWhile_ident: "(\<And>x. xs = x # tl xs \<Longrightarrow> \<not> P x) \<Longrightarrow> dropWhile P xs = xs"
  by (cases xs) auto

lemma rtrim_ident: "s \<noteq> [] \<longrightarrow> \<not> isspace (last s) \<Longrightarrow> rtrim s = s"
  by (cases s rule: rev_cases) (auto simp: rtrim_def)

lemma ltrim_ident: "s \<noteq> [] \<longrightarrow> \<not> isspace (hd s) \<Longrightarrow> ltrim s = s"
  by (cases s) (auto simp: ltrim_def)

lemma rtrim_last: "rtrim s \<noteq> [] \<Longrightarrow> \<not> isspace (last (rtrim s))"
  by (simp add: rtrim_def last_rev hd_dropWhile)

lemma takeWhile_append_stop: "\<forall>x\<in>set xs. P x \<Longrightarrow> \<not> P y \<Longrightarrow> takeWhile P (xs @ y # ys) = xs"
  by (induction xs) auto

lemma dropWhile_append_stop: "\<forall>x\<in>set xs. P x \<Longrightarrow> \<not> P y \<Longrightarrow> dropWhile P (xs @ y # ys) = y # ys"
  by (induction xs) auto

lemma takeWhile_all: "\<forall>x\<in>set xs. P x \<Longrightarrow> takeWhile P xs = xs"
  by (induction xs) auto

lemma dropWhile_all: "\<forall>x\<in>set xs. P x \<Longrightarrow> dropWhile P xs = []"
  by (induction xs) auto

section \<open>Searching\<close>

text \<open>
  \<open>match_at eq n h\<close>: the bytes of \<open>n\<close> agree, under \<open>eq\<close>, with the first bytes of \<open>h\<close> (the inner
  loop of every search of the code). \<open>search_by\<close> tries one offset after another (the outer
  loop) and gives the first one that matches.
\<close>

fun match_at :: "('a \<Rightarrow> 'b \<Rightarrow> bool) \<Rightarrow> 'b list \<Rightarrow> 'a list \<Rightarrow> bool" where
  "match_at eq [] h = True"
| "match_at eq (n # ns) [] = False"
| "match_at eq (n # ns) (h # hs) = (eq h n \<and> match_at eq ns hs)"

fun search_by :: "('a \<Rightarrow> 'b \<Rightarrow> bool) \<Rightarrow> 'b list \<Rightarrow> 'a list \<Rightarrow> nat option" where
  "search_by eq n [] = (if n = [] then Some 0 else None)"
| "search_by eq n (h # hs) = (if match_at eq n (h # hs) then Some 0 else map_option Suc (search_by eq n hs))"

lemma match_at_iff: "match_at eq n h \<longleftrightarrow> length n \<le> length h \<and> list_all2 eq (take (length n) h) n"
  by (induction eq n h rule: match_at.induct) auto

lemma match_at_eq_iff: "match_at (=) n h \<longleftrightarrow> (\<exists>t. h = n @ t)"
  by (induction "(=) :: 'a \<Rightarrow> 'a \<Rightarrow> bool" n h rule: match_at.induct) auto

lemma match_at_Nil [simp]: "match_at eq n [] \<longleftrightarrow> n = []"
  by (cases n) auto

lemma search_by_Some_iff:
  "search_by eq n h = Some i \<longleftrightarrow>
     i \<le> length h \<and> match_at eq n (drop i h) \<and> (\<forall>j<i. \<not> match_at eq n (drop j h))"
proof (induction h arbitrary: i)
  case Nil
  then show ?case by (cases n) auto
next
  case (Cons x h)
  show ?case
  proof (cases i)
    case 0
    then show ?thesis by (auto split: option.splits)
  next
    case (Suc k)
    have "(\<forall>j<Suc k. \<not> match_at eq n (drop j (x # h))) \<longleftrightarrow>
        \<not> match_at eq n (x # h) \<and> (\<forall>j<k. \<not> match_at eq n (drop j h))"
      by (auto simp: less_Suc_eq_0_disj)
    with Suc show ?thesis using Cons.IH[of k] by auto
  qed
qed

lemma search_by_None_iff:
  "search_by eq n h = None \<longleftrightarrow> (\<forall>j\<le>length h. \<not> match_at eq n (drop j h))"
proof (induction h)
  case Nil
  then show ?case by auto
next
  case (Cons x h)
  have "(\<forall>j\<le>length (x # h). \<not> match_at eq n (drop j (x # h))) \<longleftrightarrow>
      \<not> match_at eq n (x # h) \<and> (\<forall>j\<le>length h. \<not> match_at eq n (drop j h))" (is "?L = ?R")
  proof
    assume l: ?L
    then have "\<not> match_at eq n (drop (Suc j) (x # h))" if "j \<le> length h" for j
      using that by (metis Suc_le_mono length_Cons)
    moreover from l have "\<not> match_at eq n (drop 0 (x # h))" by blast
    ultimately show ?R by simp
  next
    assume r: ?R
    show ?L
    proof (intro allI impI)
      fix j assume "j \<le> length (x # h)"
      with r show "\<not> match_at eq n (drop j (x # h))" by (cases j) auto
    qed
  qed
  with Cons.IH show ?case by simp
qed

end
