(* ===== verification/Utility.thy ===== *)
theory Utility
  imports Prelude
begin

text \<open>
  The string helpers of \<^verbatim>\<open>src/sw_utility.c\<close>: copies, the ASCII case-insensitive comparison and
  search, and the text search \<^verbatim>\<open>sw_matches_query\<close>. Allocation is taken to succeed.
\<close>

section \<open>Copies\<close>

definition sw_strdup_range :: "string \<Rightarrow> nat \<Rightarrow> string" where
  "sw_strdup_range str len = take len str"

definition sw_strdup_cstr :: "cptr \<Rightarrow> cptr" where
  "sw_strdup_cstr str = (case str of None \<Rightarrow> None
     | Some s \<Rightarrow> Some (sw_strdup_range s (length (cstr s))))"

lemma sw_strdup_cstr_eq: "sw_strdup_cstr str = map_option cstr str"
  by (cases str) (simp_all add: sw_strdup_cstr_def sw_strdup_range_def cstr_def
      takeWhile_eq_take[symmetric])

section \<open>Case-insensitive comparison\<close>

text \<open>
  The loop of \<^verbatim>\<open>sw_stricmp_ascii\<close>: it compares folded bytes while both strings last; the
  difference after the loop is between the raw (unfolded) bytes.
\<close>

fun stricmp_loop :: "string \<Rightarrow> string \<Rightarrow> int" where
  "stricmp_loop (l # ls) (r # rs) =
     (if tolower l \<noteq> tolower r then int (byte (tolower l)) - int (byte (tolower r))
      else stricmp_loop ls rs)"
| "stricmp_loop [] [] = 0"
| "stricmp_loop [] (r # rs) = 0 - int (byte r)"
| "stricmp_loop (l # ls) [] = int (byte l) - 0"

definition sw_stricmp_ascii :: "cptr \<Rightarrow> cptr \<Rightarrow> int" where
  "sw_stricmp_ascii lhs rhs =
     (case (lhs, rhs) of
        (None, None) \<Rightarrow> 0
      | (None, Some _) \<Rightarrow> -1
      | (Some _, None) \<Rightarrow> 1
      | (Some l, Some r) \<Rightarrow> stricmp_loop (cstr l) (cstr r))"

lemma stricmp_loop_eq_0:
  "NUL \<notin> set l \<Longrightarrow> NUL \<notin> set r \<Longrightarrow> stricmp_loop l r = 0 \<longleftrightarrow> map tolower l = map tolower r"
  by (induction l r rule: stricmp_loop.induct) auto

lemma stricmp_loop_swap: "stricmp_loop r l = - stricmp_loop l r"
  by (induction l r rule: stricmp_loop.induct) auto

text \<open>The equivalence that \<^verbatim>\<open>sw_stricmp_ascii(a, b) == 0\<close> decides.\<close>

definition ieq :: "string \<Rightarrow> string \<Rightarrow> bool" where
  "ieq a b \<longleftrightarrow> map tolower (cstr a) = map tolower (cstr b)"

lemma ieq_refl [simp]: "ieq a a"
  and ieq_sym: "ieq a b \<Longrightarrow> ieq b a"
  and ieq_trans: "ieq a b \<Longrightarrow> ieq b c \<Longrightarrow> ieq a c"
  by (auto simp: ieq_def)

lemma stricmp_ieq [simp]: "sw_stricmp_ascii (Some a) (Some b) = 0 \<longleftrightarrow> ieq a b"
  by (simp add: sw_stricmp_ascii_def ieq_def stricmp_loop_eq_0)

section \<open>Searching\<close>

text \<open>\<^verbatim>\<open>sw_strcasestr_ascii\<close>: the offset of the pointer it returns, None for NULL.\<close>

definition sw_strcasestr_ascii :: "cptr \<Rightarrow> cptr \<Rightarrow> nat option" where
  "sw_strcasestr_ascii haystack needle =
     (case (haystack, needle) of
        (Some h, Some n) \<Rightarrow>
          (let hs = cstr h; ns = cstr n in
           if length ns = 0 then Some 0
           else if length ns > length hs then None
           else search_by (\<lambda>a b. tolower a = tolower b) ns hs)
      | _ \<Rightarrow> None)"

definition query_char_eq :: "bool \<Rightarrow> char \<Rightarrow> char \<Rightarrow> bool" where
  "query_char_eq case_sensitive text_ch query_ch =
     (if \<not> case_sensitive then tolower text_ch = tolower query_ch else text_ch = query_ch)"

definition sw_matches_query :: "cptr \<Rightarrow> cptr \<Rightarrow> bool \<Rightarrow> bool" where
  "sw_matches_query text query case_sensitive =
     (case (text, query) of
        (Some t, Some q) \<Rightarrow>
          (let ts = cstr t; qs = cstr q in
           if length qs = 0 then True
           else if length qs > length ts then False
           else search_by (query_char_eq case_sensitive) qs ts \<noteq> None)
      | _ \<Rightarrow> False)"

lemma search_by_short: "length n > length h \<Longrightarrow> search_by eq n h = None"
  by (auto simp: search_by_None_iff match_at_iff)

lemma match_at_map_eq: "match_at (\<lambda>a b. f a = f b) n h \<longleftrightarrow> (\<exists>m t. h = m @ t \<and> map f m = map f n)"
proof (induction "\<lambda>a b. f a = f b" n h rule: match_at.induct)
  case (3 n ns h hs)
  have "(\<exists>m t. h # hs = m @ t \<and> map f m = map f (n # ns)) \<longleftrightarrow>
      f h = f n \<and> (\<exists>m t. hs = m @ t \<and> map f m = map f ns)" (is "?L = ?R")
  proof
    assume ?L
    then obtain m t where "h # hs = m @ t" "map f m = map f (n # ns)" by blast
    then show ?R by (cases m) auto
  next
    assume ?R
    then obtain m t where "hs = m @ t" "map f m = map f ns" "f h = f n" by blast
    then have "h # hs = (h # m) @ t \<and> map f (h # m) = map f (n # ns)" by simp
    then show ?L by blast
  qed
  with 3 show ?case by simp
qed auto

lemma search_by_found_iff:
  "search_by (\<lambda>a b. f a = f b) n h \<noteq> None \<longleftrightarrow> (\<exists>p m t. h = p @ m @ t \<and> map f m = map f n)"
proof
  assume "search_by (\<lambda>a b. f a = f b) n h \<noteq> None"
  then obtain i where "i \<le> length h" "match_at (\<lambda>a b. f a = f b) n (drop i h)"
    by (auto simp: search_by_Some_iff)
  then obtain m t where "drop i h = m @ t" "map f m = map f n"
    by (auto simp: match_at_map_eq)
  then show "\<exists>p m t. h = p @ m @ t \<and> map f m = map f n"
    by (metis append_take_drop_id)
next
  assume "\<exists>p m t. h = p @ m @ t \<and> map f m = map f n"
  then obtain p m t where h: "h = p @ m @ t" "map f m = map f n" by blast
  then have "match_at (\<lambda>a b. f a = f b) n (drop (length p) h)"
    by (auto simp: match_at_map_eq)
  with h show "search_by (\<lambda>a b. f a = f b) n h \<noteq> None"
    by (auto simp: search_by_None_iff intro!: exI[of _ "length p"])
qed

text \<open>What a search of the text for the query means: a factor of the text that folds to it.\<close>

definition occurs_in :: "bool \<Rightarrow> string \<Rightarrow> string \<Rightarrow> bool" where
  "occurs_in case_sensitive q t \<longleftrightarrow>
     (\<exists>p m s. t = p @ m @ s \<and> (if case_sensitive then m = q else map tolower m = map tolower q))"

lemma query_char_eq_fold:
  "query_char_eq cs = (\<lambda>a b. (if cs then (\<lambda>c. c) else tolower) a = (if cs then (\<lambda>c. c) else tolower) b)"
  by (auto simp: query_char_eq_def fun_eq_iff)

lemma strcasestr_found:
  "sw_strcasestr_ascii (Some h) (Some n) \<noteq> None \<longleftrightarrow> occurs_in False (cstr n) (cstr h)"
proof -
  have found: "search_by (\<lambda>a b. tolower a = tolower b) (cstr n) (cstr h) \<noteq> None \<longleftrightarrow>
      occurs_in False (cstr n) (cstr h)"
    unfolding search_by_found_iff occurs_in_def by simp
  have "occurs_in False [] (cstr h)"
    unfolding occurs_in_def by (rule exI[of _ "[]"], rule exI[of _ "[]"]) simp
  with found search_by_short[of "cstr h" "cstr n" "\<lambda>a b. tolower a = tolower b"] show ?thesis
    unfolding sw_strcasestr_ascii_def Let_def by (auto split: if_splits)
qed

text \<open>
  \<^verbatim>\<open>sw_matches_query\<close> decides exactly whether the query occurs in the text (up to ASCII case
  when \<^verbatim>\<open>case_sensitive\<close> is 0): the two nested loops neither miss nor invent an occurrence, the
  empty query matches, and a NULL argument never matches.
\<close>

theorem sw_matches_query_correct:
  "sw_matches_query text query cs =
     (case (text, query) of (Some t, Some q) \<Rightarrow> occurs_in cs (cstr q) (cstr t) | _ \<Rightarrow> False)"
proof (cases "text = None \<or> query = None")
  case True
  then show ?thesis by (auto simp: sw_matches_query_def split: option.splits)
next
  case False
  then obtain t q where tq: "text = Some t" "query = Some q" by auto
  have found: "search_by (query_char_eq cs) (cstr q) (cstr t) \<noteq> None \<longleftrightarrow> occurs_in cs (cstr q) (cstr t)"
    unfolding query_char_eq_fold search_by_found_iff occurs_in_def by (cases cs) auto
  have empty: "occurs_in cs [] (cstr t)"
    unfolding occurs_in_def by (rule exI[of _ "[]"], rule exI[of _ "[]"]) simp
  show ?thesis
  proof (cases "cstr q = []")
    case True
    then show ?thesis using empty by (simp add: tq sw_matches_query_def)
  next
    case False
    moreover have "search_by (query_char_eq cs) (cstr q) (cstr t) = None"
      if "length (cstr q) > length (cstr t)" using that by (rule search_by_short)
    ultimately show ?thesis using found by (auto simp: tq sw_matches_query_def Let_def)
  qed
qed

end
