(* ===== verification/CharArray.thy ===== *)
theory CharArray
  imports Utility
begin

text \<open>
  The growable byte buffer \<^verbatim>\<open>sw_char_array\<close> of \<^verbatim>\<open>src/sw_utility.c\<close>: a Syphax \<^verbatim>\<open>s_array\<close> of bytes
  that keeps a NUL behind its content. The \<^verbatim>\<open>s_array\<close> library is not part of the repository: its
  operations are a parameter (a record of functions), and the locale \<open>s_array\<close> states what the
  code relies on. The refinement theorems show that under these laws every buffer operation
  is the corresponding operation on the byte string it holds, which is how the other theories
  model a buffer. The locale \<open>byte_sink\<close> is the contract the builders of output use.
\<close>

section \<open>The array library as a parameter\<close>

record ('a, 'e) s_array_ops =
  sa_init :: "'a"
  sa_elems :: "'a \<Rightarrow> 'e list"
  sa_capacity :: "'a \<Rightarrow> nat"
  sa_add :: "'a \<Rightarrow> 'e \<Rightarrow> 'a"
  sa_put :: "'a \<Rightarrow> nat \<Rightarrow> 'e \<Rightarrow> 'a"
  sa_clear :: "'a \<Rightarrow> 'a"
  sa_reserve :: "'a \<Rightarrow> nat \<Rightarrow> 'a"
  sa_copy :: "'a \<Rightarrow> 'a \<Rightarrow> 'a"

text \<open>
  \<open>sa_elems\<close> stands for \<^verbatim>\<open>s_array_get_data\<close> with \<^verbatim>\<open>s_array_get_size\<close>; \<open>sa_put a i e\<close> for a store
  through the pointer \<^verbatim>\<open>s_array_get(a, s_array_handle(a, i))\<close>; \<open>sa_copy dst src\<close> for \<^verbatim>\<open>s_array_copy\<close>.
\<close>

locale s_array =
  fixes ops :: "('a, 'e) s_array_ops"
  assumes elems_init: "sa_elems ops (sa_init ops) = []"
    and elems_add: "sa_elems ops (sa_add ops a e) = sa_elems ops a @ [e]"
    and elems_put: "i < length (sa_elems ops a) \<Longrightarrow> sa_elems ops (sa_put ops a i e) = (sa_elems ops a)[i := e]"
    and elems_clear: "sa_elems ops (sa_clear ops a) = []"
    and elems_reserve: "sa_elems ops (sa_reserve ops a n) = sa_elems ops a"
    and elems_copy: "sa_elems ops (sa_copy ops d a) = sa_elems ops a"
begin

lemmas elems_simps = elems_init elems_add elems_put elems_clear elems_reserve elems_copy

lemma elems_foldl_add: "sa_elems ops (foldl (sa_add ops) a es) = sa_elems ops a @ es"
  by (induction es arbitrary: a) (simp_all add: elems_add)

end

section \<open>The buffer operations\<close>

definition sw_char_array_content_size :: "('a, char) s_array_ops \<Rightarrow> 'a \<Rightarrow> nat" where
  "sw_char_array_content_size ops array =
     (let size = length (sa_elems ops array) in if size > 0 then size - 1 else 0)"

text \<open>The position the terminator pointer refers to (the index is cast to \<^verbatim>\<open>u32\<close>), None for NULL.\<close>

definition sw_char_array_terminator :: "('a, char) s_array_ops \<Rightarrow> 'a \<Rightarrow> nat option" where
  "sw_char_array_terminator ops array =
     (let size = length (sa_elems ops array) in
      if size = 0 then None else Some ((size - 1) mod 4294967296))"

definition sw_char_array_init :: "('a, char) s_array_ops \<Rightarrow> 'a" where
  "sw_char_array_init ops = sa_init ops"

definition sw_char_array_free :: "('a, char) s_array_ops \<Rightarrow> 'a \<Rightarrow> 'a" where
  "sw_char_array_free ops array = sa_clear ops array"

definition sw_char_array_reset :: "('a, char) s_array_ops \<Rightarrow> 'a \<Rightarrow> 'a" where
  "sw_char_array_reset ops array =
     (let capacity = sa_capacity ops array; cleared = sa_clear ops array in
      if capacity > 0 then sa_reserve ops cleared capacity else cleared)"

definition sw_char_array_reserve_extra :: "('a, char) s_array_ops \<Rightarrow> 'a \<Rightarrow> nat \<Rightarrow> bool \<times> 'a" where
  "sw_char_array_reserve_extra ops array extra =
     (True, sa_reserve ops array (sw_char_array_content_size ops array + extra + 1))"

definition sw_char_array_append_byte :: "('a, char) s_array_ops \<Rightarrow> 'a \<Rightarrow> char \<Rightarrow> bool \<times> 'a" where
  "sw_char_array_append_byte ops array value =
     (let (ok, a1) = sw_char_array_reserve_extra ops array 1 in
      if \<not> ok then (False, a1)
      else
        let a2 = (case sw_char_array_terminator ops a1 of
                    Some i \<Rightarrow> sa_put ops a1 i value
                  | None \<Rightarrow> sa_add ops a1 value)
        in (True, sa_add ops a2 NUL))"

definition sw_char_array_append_bytes ::
  "('a, char) s_array_ops \<Rightarrow> 'a \<Rightarrow> cptr \<Rightarrow> nat \<Rightarrow> bool \<times> 'a" where
  "sw_char_array_append_bytes ops array data len =
     (if len = 0 then (True, array)
      else case data of
        None \<Rightarrow> (False, array)
      | Some d \<Rightarrow>
          let bytes = take len d;
              a1 = snd (sw_char_array_reserve_extra ops array len);
              a2 = (case sw_char_array_terminator ops a1 of
                      Some i \<Rightarrow> foldl (sa_add ops) (sa_put ops a1 i (bytes ! 0)) (drop 1 bytes)
                    | None \<Rightarrow> foldl (sa_add ops) a1 bytes)
          in (True, sa_add ops a2 NUL))"

definition sw_char_array_append_cstr :: "('a, char) s_array_ops \<Rightarrow> 'a \<Rightarrow> cptr \<Rightarrow> bool \<times> 'a" where
  "sw_char_array_append_cstr ops array str =
     (case str of None \<Rightarrow> (True, array)
      | Some s \<Rightarrow> sw_char_array_append_bytes ops array (Some s) (length (cstr s)))"

text \<open>\<open>formatted\<close> is what \<^verbatim>\<open>vsnprintf\<close> writes for the arguments, None for its negative result.\<close>

definition sw_char_array_append_vformat :: "('a, char) s_array_ops \<Rightarrow> 'a \<Rightarrow> string option \<Rightarrow> bool \<times> 'a" where
  "sw_char_array_append_vformat ops array formatted =
     (case formatted of None \<Rightarrow> (False, array)
      | Some buffer \<Rightarrow> sw_char_array_append_bytes ops array (Some buffer) (length buffer))"

definition sw_char_array_data :: "('a, char) s_array_ops \<Rightarrow> 'a \<Rightarrow> string" where
  "sw_char_array_data ops array =
     (if length (sa_elems ops array) = 0 then '''' else sa_elems ops array)"

definition sw_char_array_size :: "('a, char) s_array_ops \<Rightarrow> 'a \<Rightarrow> nat" where
  "sw_char_array_size ops array = sw_char_array_content_size ops array"

definition sw_char_array_consume_prefix :: "('a, char) s_array_ops \<Rightarrow> 'a \<Rightarrow> nat \<Rightarrow> 'a" where
  "sw_char_array_consume_prefix ops array count =
     (let size = sw_char_array_content_size ops array in
      if count = 0 then array
      else if count \<ge> size then sw_char_array_reset ops array
      else
        let data = sw_char_array_data ops array;
            (ok, tail) = sw_char_array_append_bytes ops (sa_init ops) (Some (drop count data)) (size - count)
        in if \<not> ok then array else sa_copy ops array tail)"

section \<open>Refinement to byte strings\<close>

text \<open>The content is what lies before the terminator; a well-formed buffer is empty or NUL-terminated.\<close>

definition ca_content :: "('a, char) s_array_ops \<Rightarrow> 'a \<Rightarrow> string" where
  "ca_content ops array = butlast (sa_elems ops array)"

definition ca_wf :: "('a, char) s_array_ops \<Rightarrow> 'a \<Rightarrow> bool" where
  "ca_wf ops array \<longleftrightarrow> sa_elems ops array = [] \<or> last (sa_elems ops array) = NUL"

lemma content_size: "sw_char_array_content_size ops a = length (ca_content ops a)"
  by (simp add: sw_char_array_content_size_def ca_content_def)

text \<open>The buffer is an array of bytes: the same contract at the byte type.\<close>

locale char_array = s_array ops for ops :: "('a, char) s_array_ops"
begin

lemmas ca_defs = sw_char_array_reserve_extra_def sw_char_array_terminator_def ca_content_def ca_wf_def

lemma append_byte_content:
  assumes "length (ca_content ops a) < 4294967296"
  shows "ca_content ops (snd (sw_char_array_append_byte ops a v)) = ca_content ops a @ [v]"
    and "ca_wf ops (snd (sw_char_array_append_byte ops a v))"
    and "fst (sw_char_array_append_byte ops a v)"
  using assms
  by (cases "sa_elems ops a" rule: rev_cases;
      simp add: sw_char_array_append_byte_def ca_defs elems_simps butlast_append)+

lemma append_bytes_content:
  assumes "length (ca_content ops a) < 4294967296" and "len \<le> length d"
  shows "ca_content ops (snd (sw_char_array_append_bytes ops a (Some d) len)) = ca_content ops a @ take len d"
    and "ca_wf ops a \<Longrightarrow> ca_wf ops (snd (sw_char_array_append_bytes ops a (Some d) len))"
    and "fst (sw_char_array_append_bytes ops a (Some d) len)"
proof -
  show "ca_content ops (snd (sw_char_array_append_bytes ops a (Some d) len)) = ca_content ops a @ take len d"
  proof (cases "take len d")
    case Nil
    with assms have "len = 0" by auto
    then show ?thesis by (simp add: sw_char_array_append_bytes_def)
  next
    case (Cons x xs)
    then have "0 < len" by (cases len) auto
    with Cons assms show ?thesis
      by (cases "sa_elems ops a" rule: rev_cases)
        (auto simp: sw_char_array_append_bytes_def ca_defs elems_simps elems_foldl_add butlast_append)
  qed
  show "ca_wf ops a \<Longrightarrow> ca_wf ops (snd (sw_char_array_append_bytes ops a (Some d) len))"
    by (auto simp: sw_char_array_append_bytes_def ca_wf_def elems_add Let_def)
  show "fst (sw_char_array_append_bytes ops a (Some d) len)"
    by (simp add: sw_char_array_append_bytes_def Let_def)
qed

lemma append_cstr_content:
  assumes "length (ca_content ops a) < 4294967296"
  shows "ca_content ops (snd (sw_char_array_append_cstr ops a (Some s))) = ca_content ops a @ cstr s"
    and "ca_wf ops a \<Longrightarrow> ca_wf ops (snd (sw_char_array_append_cstr ops a (Some s)))"
proof -
  have t: "take (length (cstr s)) s = cstr s"
    by (simp add: cstr_def takeWhile_eq_take[symmetric])
  show "ca_content ops (snd (sw_char_array_append_cstr ops a (Some s))) = ca_content ops a @ cstr s"
    using append_bytes_content(1)[OF assms length_cstr_le[of s]]
    by (simp add: sw_char_array_append_cstr_def t)
  show "ca_wf ops a \<Longrightarrow> ca_wf ops (snd (sw_char_array_append_cstr ops a (Some s)))"
    using append_bytes_content(2)[OF assms length_cstr_le[of s]]
    by (simp add: sw_char_array_append_cstr_def)
qed

lemma reset_content: "ca_content ops (sw_char_array_reset ops a) = []"
    "ca_wf ops (sw_char_array_reset ops a)"
  by (simp_all add: sw_char_array_reset_def ca_defs elems_simps Let_def)

lemma consume_prefix_content:
  assumes "ca_wf ops a"
  shows "ca_content ops (sw_char_array_consume_prefix ops a n) = drop n (ca_content ops a)"
    and "ca_wf ops (sw_char_array_consume_prefix ops a n)"
proof -
  let ?size = "length (ca_content ops a)"
  let ?tail = "sw_char_array_append_bytes ops (sa_init ops) (Some (drop n (sw_char_array_data ops a))) (?size - n)"
  have init: "ca_content ops (sa_init ops) = []" "ca_wf ops (sa_init ops)"
    by (simp_all add: ca_defs elems_init)
  have len: "?size - n \<le> length (drop n (sw_char_array_data ops a))"
    by (auto simp: sw_char_array_data_def ca_content_def)
  have tk: "take (?size - n) (drop n (sw_char_array_data ops a)) = drop n (ca_content ops a)"
    by (auto simp: sw_char_array_data_def ca_content_def butlast_conv_take drop_take)
  note tail = append_bytes_content[of "sa_init ops", OF _ len]
  have unfold: "sw_char_array_consume_prefix ops a n =
      (if n = 0 then a else if n \<ge> ?size then sw_char_array_reset ops a
       else sa_copy ops a (snd ?tail))"
    using tail(3) init by (simp add: sw_char_array_consume_prefix_def content_size Let_def split_beta)
  show "ca_content ops (sw_char_array_consume_prefix ops a n) = drop n (ca_content ops a)"
    using tail(1) init tk by (simp add: unfold reset_content) (simp add: ca_content_def elems_copy)
  show "ca_wf ops (sw_char_array_consume_prefix ops a n)"
    using tail(2) init assms by (simp add: unfold reset_content) (simp add: ca_wf_def elems_copy)
qed

end

section \<open>The contract of an output sink\<close>

text \<open>
  What the builders of output rely on: appending extends the content as long as it fits.
\<close>

locale byte_sink =
  fixes content :: "'b \<Rightarrow> string"
    and append :: "'b \<Rightarrow> string \<Rightarrow> 'b"
    and fits :: "'b \<Rightarrow> nat \<Rightarrow> bool"
  assumes content_append: "fits b (length s) \<Longrightarrow> content (append b s) = content b @ s"
    and fits_append: "fits b (length s + n) \<Longrightarrow> fits (append b s) n"
    and fits_less: "fits b (m + n) \<Longrightarrow> fits b m"
begin

lemma content_foldl:
  "fits b (length (concat ss)) \<Longrightarrow> content (foldl append b ss) = content b @ concat ss"
proof (induction ss arbitrary: b)
  case Nil
  then show ?case by simp
next
  case (Cons s ss)
  from Cons.prems have fit: "fits b (length s + length (concat ss))" by simp
  then have "content (foldl append (append b s) ss) = content (append b s) @ concat ss"
    by (intro Cons.IH fits_append)
  with content_append[OF fits_less[OF fit]] show ?case by simp
qed

end

section \<open>A list instance of the array library\<close>

text \<open>
  The elements of a list are the obvious array with these laws; with it the buffer operations
  can be run, and the buffer is a byte sink up to the 32-bit limit of its terminator index.
\<close>

definition list_array :: "('e list, 'e) s_array_ops" where
  "list_array = \<lparr>sa_init = [], sa_elems = (\<lambda>xs. xs), sa_capacity = length,
     sa_add = (\<lambda>xs x. xs @ [x]), sa_put = (\<lambda>xs i x. xs[i := x]), sa_clear = (\<lambda>_. []),
     sa_reserve = (\<lambda>xs n. xs), sa_copy = (\<lambda>d xs. xs)\<rparr>"

interpretation list_char_array: char_array list_array
  by unfold_locales (simp_all add: list_array_def)

definition ca_append :: "string \<Rightarrow> string \<Rightarrow> string" where
  "ca_append a s = snd (sw_char_array_append_bytes list_array a (Some s) (length s))"

definition ca_fits :: "string \<Rightarrow> nat \<Rightarrow> bool" where
  "ca_fits a n \<longleftrightarrow> length (ca_content list_array a) + n < 4294967296"

interpretation char_array_sink: byte_sink "ca_content list_array" ca_append ca_fits
proof
  fix b s m n
  show "ca_fits b (length s) \<Longrightarrow> ca_content list_array (ca_append b s) = ca_content list_array b @ s"
    by (simp add: ca_append_def ca_fits_def list_char_array.append_bytes_content)
  show "ca_fits b (length s + n) \<Longrightarrow> ca_fits (ca_append b s) n"
    by (simp add: ca_append_def ca_fits_def list_char_array.append_bytes_content)
  show "ca_fits b (m + n) \<Longrightarrow> ca_fits b m"
    by (simp add: ca_fits_def)
qed

section \<open>Properties\<close>

text \<open>
  Under the laws of the array library, \<^verbatim>\<open>sw_char_array_append_bytes\<close> reports success, adds
  exactly the given bytes to the content and keeps the buffer NUL-terminated: the byte that
  overwrites the old terminator, the copy of the rest and the new terminator together are one
  append. The bound is the 32-bit index of the terminator.
\<close>

theorem append_bytes_refines:
  assumes "char_array ops" and "ca_wf ops a"
    and "length (ca_content ops a) < 4294967296" and "len \<le> length d"
  shows "fst (sw_char_array_append_bytes ops a (Some d) len) \<and>
    ca_content ops (snd (sw_char_array_append_bytes ops a (Some d) len)) = ca_content ops a @ take len d \<and>
    ca_wf ops (snd (sw_char_array_append_bytes ops a (Some d) len))"
  using char_array.append_bytes_content[OF assms(1,3,4)] assms(2) by blast

theorem append_bytes_refines_witness:
  "ca_content list_array (snd (sw_char_array_append_bytes list_array (''ab'' @ [NUL]) (Some ''cde'') 2)) = ''abcd''"
  using append_bytes_refines[of list_array "''ab'' @ [NUL]" 2 "''cde''"]
    list_char_array.char_array_axioms
  by (simp add: ca_wf_def ca_content_def list_array_def)

text \<open>
  Consuming a prefix is \<open>drop\<close> on the content for every count, also one beyond its end, and
  keeps the terminator: the rebuilt tail that replaces the buffer is the unread rest.
\<close>

theorem consume_prefix_refines:
  assumes "char_array ops" and "ca_wf ops a"
  shows "ca_content ops (sw_char_array_consume_prefix ops a n) = drop n (ca_content ops a) \<and>
    ca_wf ops (sw_char_array_consume_prefix ops a n)"
  using char_array.consume_prefix_content[OF assms] by blast

theorem consume_prefix_refines_witness:
  "ca_content list_array (sw_char_array_consume_prefix list_array (''abcd'' @ [NUL]) 3) = ''d''"
  using consume_prefix_refines[of list_array "''abcd'' @ [NUL]" 3]
    list_char_array.char_array_axioms
  by (simp add: ca_wf_def ca_content_def list_array_def)

end
