(* ===== verification/HttpText.thy ===== *)
theory HttpText
  imports Utility
begin

text \<open>
  The lexical layer of the HTTP parser in \<^verbatim>\<open>src/sw_server.c\<close>: searching a byte range, the numbers
  of \<^verbatim>\<open>Content-Length\<close> and of a chunk header (with the overflow checks on \<^verbatim>\<open>size_t\<close>), hex digits,
  and the token test on list-valued headers. A pair (pointer, length) is the list of those bytes.
\<close>

section \<open>Searching a byte range\<close>

definition sw_find_bytes :: "string \<Rightarrow> string \<Rightarrow> nat option" where
  "sw_find_bytes data needle =
     (if length needle = 0 \<or> length data < length needle then None else search_by (=) needle data)"

definition sw_find_bytes_from :: "string \<Rightarrow> nat \<Rightarrow> string \<Rightarrow> nat option" where
  "sw_find_bytes_from data offset needle =
     (case (if offset \<le> length data then sw_find_bytes (drop offset data) needle else None) of
        None \<Rightarrow> None
      | Some rel \<Rightarrow> Some (offset + rel))"

definition sw_find_crlf_from :: "string \<Rightarrow> nat \<Rightarrow> nat option" where
  "sw_find_crlf_from data offset = sw_find_bytes_from data offset crlf"

definition occurs_at :: "string \<Rightarrow> string \<Rightarrow> nat \<Rightarrow> bool" where
  "occurs_at n d i \<longleftrightarrow> i \<le> length d \<and> (\<exists>t. drop i d = n @ t)"

lemma find_bytes_Some_iff:
  "n \<noteq> [] \<Longrightarrow> sw_find_bytes d n = Some i \<longleftrightarrow> occurs_at n d i \<and> (\<forall>j<i. \<not> occurs_at n d j)"
  by (auto simp: sw_find_bytes_def search_by_Some_iff match_at_eq_iff occurs_at_def)
    (metis length_append length_drop diff_le_self le_add1 le_trans leD)

lemma find_bytes_None_iff: "n \<noteq> [] \<Longrightarrow> sw_find_bytes d n = None \<longleftrightarrow> (\<forall>j. \<not> occurs_at n d j)"
  by (auto simp: sw_find_bytes_def search_by_None_iff match_at_eq_iff occurs_at_def)
    (metis length_append length_drop diff_le_self le_add1 le_trans leD)

lemma occurs_at_drop: "k \<le> length d \<Longrightarrow> occurs_at n (drop k d) j \<longleftrightarrow> occurs_at n d (k + j)"
  by (auto simp: occurs_at_def add.commute)

lemma find_bytes_from_Some_iff:
  assumes "n \<noteq> []"
  shows "sw_find_bytes_from d k n = Some e \<longleftrightarrow>
    k \<le> length d \<and> k \<le> e \<and> occurs_at n d e \<and> (\<forall>j. k \<le> j \<and> j < e \<longrightarrow> \<not> occurs_at n d j)"
proof (cases "k \<le> length d")
  case True
  show ?thesis
  proof
    assume "sw_find_bytes_from d k n = Some e"
    then obtain r where r: "sw_find_bytes (drop k d) n = Some r" "e = k + r"
      using True by (auto simp: sw_find_bytes_from_def split: option.splits)
    then have "occurs_at n d e" "\<forall>j<r. \<not> occurs_at n d (k + j)"
      using True assms by (auto simp: find_bytes_Some_iff occurs_at_drop)
    moreover have "\<not> occurs_at n d j" if "k \<le> j" "j < e" for j
      using calculation(2)[rule_format, of "j - k"] that r(2) by auto
    ultimately show "k \<le> length d \<and> k \<le> e \<and> occurs_at n d e \<and> (\<forall>j. k \<le> j \<and> j < e \<longrightarrow> \<not> occurs_at n d j)"
      using True r(2) by auto
  next
    assume a: "k \<le> length d \<and> k \<le> e \<and> occurs_at n d e \<and> (\<forall>j. k \<le> j \<and> j < e \<longrightarrow> \<not> occurs_at n d j)"
    then have "sw_find_bytes (drop k d) n = Some (e - k)"
      using assms True by (auto simp: find_bytes_Some_iff occurs_at_drop)
    with a True show "sw_find_bytes_from d k n = Some e"
      by (simp add: sw_find_bytes_from_def)
  qed
qed (simp add: sw_find_bytes_from_def)

lemma find_bytes_from_None_iff:
  assumes "n \<noteq> []" and "k \<le> length d"
  shows "sw_find_bytes_from d k n = None \<longleftrightarrow> (\<forall>j\<ge>k. \<not> occurs_at n d j)"
proof -
  have "sw_find_bytes_from d k n = None \<longleftrightarrow> (\<forall>j. \<not> occurs_at n d (k + j))"
    using assms find_bytes_None_iff[OF assms(1), of "drop k d"]
    by (cases "sw_find_bytes (drop k d) n") (auto simp: sw_find_bytes_from_def occurs_at_drop)
  also have "\<dots> \<longleftrightarrow> (\<forall>j\<ge>k. \<not> occurs_at n d j)"
    by (metis le_add1 le_Suc_ex)
  finally show ?thesis .
qed

lemma occurs_at_take: "occurs_at n d i \<longleftrightarrow> i + length n \<le> length d \<and> take (length n) (drop i d) = n"
proof
  assume "occurs_at n d i"
  then obtain t where t: "i \<le> length d" "drop i d = n @ t" by (auto simp: occurs_at_def)
  then have "length d - i = length n + length t" by (metis length_append length_drop)
  with t show "i + length n \<le> length d \<and> take (length n) (drop i d) = n" by simp
next
  assume a: "i + length n \<le> length d \<and> take (length n) (drop i d) = n"
  then have "drop i d = n @ drop (length n) (drop i d)" by (metis append_take_drop_id)
  with a show "occurs_at n d i" by (auto simp: occurs_at_def)
qed

lemma occurs_at_length: "occurs_at n d i \<Longrightarrow> i + length n \<le> length d"
  by (simp add: occurs_at_take)

lemma occurs_at_append: "i + length n \<le> length d \<Longrightarrow> occurs_at n (d @ more) i \<longleftrightarrow> occurs_at n d i"
  by (simp add: occurs_at_take)

lemma occurs_at_mono: "occurs_at n d i \<Longrightarrow> occurs_at n (d @ more) i"
  using occurs_at_append occurs_at_length by blast

lemma find_bytes_from_bounds:
  "n \<noteq> [] \<Longrightarrow> sw_find_bytes_from d k n = Some e \<Longrightarrow> k \<le> e \<and> e + length n \<le> length d"
  by (auto simp: find_bytes_from_Some_iff dest: occurs_at_length)

lemma find_crlf_bounds: "sw_find_crlf_from d k = Some e \<Longrightarrow> k \<le> e \<and> e + 2 \<le> length d"
  using find_bytes_from_bounds[of crlf d k e] by (simp add: sw_find_crlf_from_def)

text \<open>A first occurrence stays the first when more bytes arrive.\<close>

lemma find_bytes_from_stable:
  assumes "n \<noteq> []" and "sw_find_bytes_from d k n = Some e"
  shows "sw_find_bytes_from (d @ more) k n = Some e"
proof -
  have e: "e + length n \<le> length d" using find_bytes_from_bounds[OF assms] by simp
  have "\<not> occurs_at n (d @ more) j" if "k \<le> j" "j < e" for j
    using that e assms by (auto simp: find_bytes_from_Some_iff occurs_at_append)
  with assms show ?thesis by (auto simp: find_bytes_from_Some_iff occurs_at_mono)
qed

lemma find_crlf_stable: "sw_find_crlf_from d k = Some e \<Longrightarrow> sw_find_crlf_from (d @ more) k = Some e"
  unfolding sw_find_crlf_from_def by (rule find_bytes_from_stable) simp_all

section \<open>Content-Length\<close>

fun content_length_digits :: "nat \<Rightarrow> string \<Rightarrow> nat option" where
  "content_length_digits len [] = Some len"
| "content_length_digits len (c # cs) =
     (if byte c < 48 \<or> byte c > 57 then None
      else if len > (SIZE_MAX - (byte c - 48)) div 10 then None
      else content_length_digits (len * 10 + (byte c - 48)) cs)"

definition sw_parse_content_length_value :: "cptr \<Rightarrow> nat option" where
  "sw_parse_content_length_value value =
     (case value of None \<Rightarrow> None
      | Some v \<Rightarrow> (let t = trim v in if t = [] then None else content_length_digits 0 t))"

definition dec_value :: "nat \<Rightarrow> string \<Rightarrow> nat" where
  "dec_value a cs = foldl (\<lambda>n c. n * 10 + (byte c - 48)) a cs"

lemma dec_value_Cons [simp]: "dec_value a (c # cs) = dec_value (a * 10 + (byte c - 48)) cs"
  and dec_value_Nil [simp]: "dec_value a [] = a"
  by (simp_all add: dec_value_def)

lemma dec_value_ge: "a \<le> dec_value a cs"
proof (induction cs arbitrary: a)
  case (Cons c cs)
  have "a \<le> a * 10 + (byte c - 48)" by simp
  also have "\<dots> \<le> dec_value (a * 10 + (byte c - 48)) cs" by (rule Cons.IH)
  finally show ?case by simp
qed simp

lemma dec_value_append: "dec_value a (xs @ ys) = dec_value (dec_value a xs) ys"
  by (simp add: dec_value_def)

lemma dec_value_dec_of: "dec_value 0 (dec_of n) = n"
proof (induction n rule: dec_of.induct)
  case (1 n)
  then show ?case by (subst dec_of.simps) (simp add: dec_value_append byte_char_of)
qed

lemma trim_no_space: "\<forall>c\<in>set s. \<not> isspace c \<Longrightarrow> trim s = s"
  by (cases "s = []") (simp_all add: trim_def ltrim_ident rtrim_ident)

lemma mult_add_le_iff: "0 < b \<Longrightarrow> d \<le> (m::nat) \<Longrightarrow> n > (m - d) div b \<longleftrightarrow> n * b + d > m"
  by (auto simp: div_less_iff_less_mult)

lemma content_length_digits_iff:
  "len \<le> SIZE_MAX \<Longrightarrow> content_length_digits len cs = Some n \<longleftrightarrow>
     (\<forall>c\<in>set cs. isdigit c) \<and> n = dec_value len cs \<and> n \<le> SIZE_MAX"
proof (induction cs arbitrary: len)
  case Nil
  then show ?case by auto
next
  case (Cons c cs)
  let ?m = "len * 10 + (byte c - 48)"
  have guard: "len > (SIZE_MAX - (byte c - 48)) div 10 \<longleftrightarrow> ?m > SIZE_MAX" if "byte c \<le> 57"
    using that by (intro mult_add_le_iff) (simp_all add: SIZE_MAX_def)
  show ?case
  proof (cases "isdigit c \<and> ?m \<le> SIZE_MAX")
    case True
    with guard Cons.IH[of ?m] show ?thesis by (auto simp: isdigit_def)
  next
    case False
    have "n \<noteq> dec_value ?m cs \<or> \<not> n \<le> SIZE_MAX" if "\<not> ?m \<le> SIZE_MAX"
      using that dec_value_ge[of ?m cs] by linarith
    with False guard show ?thesis by (auto simp: isdigit_def not_less)
  qed
qed

lemma parse_dec_of:
  assumes "n \<le> SIZE_MAX"
  shows "sw_parse_content_length_value (Some (dec_of n)) = Some n"
proof -
  have "trim (dec_of n) = dec_of n" by (rule trim_no_space) (use dec_of_isdigit isdigit_not_space in blast)
  then show ?thesis
    using assms content_length_digits_iff[of 0 "dec_of n" n] dec_of_isdigit[of _ n]
    by (simp add: sw_parse_content_length_value_def dec_value_dec_of)
qed

section \<open>Hex digits and chunk sizes\<close>

definition sw_hex_digit_value :: "char \<Rightarrow> int" where
  "sw_hex_digit_value ch =
     (if 48 \<le> byte ch \<and> byte ch \<le> 57 then int (byte ch) - 48
      else if 97 \<le> byte ch \<and> byte ch \<le> 102 then 10 + (int (byte ch) - 97)
      else if 65 \<le> byte ch \<and> byte ch \<le> 70 then 10 + (int (byte ch) - 65)
      else -1)"

definition sw_hex_value :: "char \<Rightarrow> int" where
  "sw_hex_value ch =
     (if 48 \<le> byte ch \<and> byte ch \<le> 57 then int (byte ch) - 48
      else if 97 \<le> byte ch \<and> byte ch \<le> 102 then int (byte ch) - 97 + 10
      else if 65 \<le> byte ch \<and> byte ch \<le> 70 then int (byte ch) - 65 + 10
      else -1)"

lemma hex_value_agree: "sw_hex_value = sw_hex_digit_value"
  by (auto simp: fun_eq_iff sw_hex_value_def sw_hex_digit_value_def)

lemma hex_value_bounds: "-1 \<le> sw_hex_digit_value c \<and> sw_hex_digit_value c \<le> 15"
  by (auto simp: sw_hex_digit_value_def)

lemma hex_value_isxdigit: "sw_hex_digit_value c \<ge> 0 \<longleftrightarrow> isxdigit c"
  by (auto simp: sw_hex_digit_value_def isxdigit_def isdigit_def)

text \<open>The digit loop: the size so far, whether a digit was seen, and the unread rest.\<close>

fun chunk_digits :: "nat \<Rightarrow> bool \<Rightarrow> string \<Rightarrow> (nat \<times> bool \<times> string) option" where
  "chunk_digits sz saw [] = Some (sz, saw, [])"
| "chunk_digits sz saw (c # cs) =
     (let digit = sw_hex_digit_value c in
      if digit < 0 then Some (sz, saw, c # cs)
      else if sz > (SIZE_MAX - nat digit) div 16 then None
      else chunk_digits (sz * 16 + nat digit) True cs)"

definition sw_parse_chunk_size_value :: "string \<Rightarrow> nat option" where
  "sw_parse_chunk_size_value value =
     (case chunk_digits 0 False value of
        None \<Rightarrow> None
      | Some (sz, saw_digit, rest) \<Rightarrow>
          if \<not> saw_digit then None
          else
            let rest' = dropWhile (\<lambda>c. c = CHR '' '' \<or> c = TAB) rest
            in if rest' \<noteq> [] \<and> hd rest' \<noteq> CHR '';'' then None else Some sz)"

definition hex_number :: "nat \<Rightarrow> string \<Rightarrow> nat" where
  "hex_number a cs = foldl (\<lambda>n c. n * 16 + nat (sw_hex_digit_value c)) a cs"

lemma hex_number_Cons [simp]: "hex_number a (c # cs) = hex_number (a * 16 + nat (sw_hex_digit_value c)) cs"
  and hex_number_Nil [simp]: "hex_number a [] = a"
  by (simp_all add: hex_number_def)

lemma hex_number_ge: "a \<le> hex_number a cs"
proof (induction cs arbitrary: a)
  case (Cons c cs)
  have "a \<le> a * 16 + nat (sw_hex_digit_value c)" by simp
  also have "\<dots> \<le> hex_number (a * 16 + nat (sw_hex_digit_value c)) cs" by (rule Cons.IH)
  finally show ?case by simp
qed simp

lemma chunk_digits_eq:
  "sz \<le> SIZE_MAX \<Longrightarrow> chunk_digits sz saw v =
     (let ds = takeWhile isxdigit v in
      if hex_number sz ds \<le> SIZE_MAX
      then Some (hex_number sz ds, saw \<or> ds \<noteq> [], dropWhile isxdigit v) else None)"
proof (induction v arbitrary: sz saw)
  case Nil
  then show ?case by simp
next
  case (Cons c cs)
  let ?m = "sz * 16 + nat (sw_hex_digit_value c)"
  have guard: "sz > (SIZE_MAX - nat (sw_hex_digit_value c)) div 16 \<longleftrightarrow> ?m > SIZE_MAX"
    using hex_value_bounds[of c] by (intro mult_add_le_iff) (auto simp: SIZE_MAX_def)
  show ?case
  proof (cases "isxdigit c")
    case False
    then show ?thesis using Cons.prems hex_value_isxdigit[of c] by simp
  next
    case True
    show ?thesis
    proof (cases "?m \<le> SIZE_MAX")
      case m: True
      then show ?thesis
        using True guard Cons.IH[OF m] hex_value_isxdigit[of c] by (simp add: Let_def)
    next
      case False
      then have "\<not> hex_number ?m (takeWhile isxdigit cs) \<le> SIZE_MAX"
        using hex_number_ge[of ?m "takeWhile isxdigit cs"] by linarith
      then show ?thesis
        using True False guard hex_value_isxdigit[of c] by (simp add: Let_def)
    qed
  qed
qed

section \<open>Tokens of a list-valued header\<close>

definition sw_ascii_case_equal_range :: "cptr \<Rightarrow> cptr \<Rightarrow> nat \<Rightarrow> bool" where
  "sw_ascii_case_equal_range lhs rhs len =
     (case (lhs, rhs) of
        (Some l, Some r) \<Rightarrow> map tolower (take len l) = map tolower (take len r)
      | _ \<Rightarrow> False)"

lemma has_token_progress:
  assumes "v \<noteq> []"
  shows "length (dropWhile (\<lambda>c. c \<noteq> CHR '','') (dropWhile (\<lambda>c. c = CHR '','' \<or> isspace c) v)) < length v"
proof -
  from assms obtain c cs where v: "v = c # cs" by (cases v) auto
  let ?sep = "\<lambda>c. c = CHR '','' \<or> isspace c" and ?nc = "\<lambda>c. c \<noteq> CHR '',''"
  have le: "length (dropWhile ?nc (dropWhile ?sep xs)) \<le> length xs" for xs
    by (meson length_dropWhile_le order_trans)
  show ?thesis
  proof (cases "?sep c")
    case True
    then show ?thesis using le[of cs] v by auto
  next
    case False
    then have "dropWhile ?nc (dropWhile ?sep v) = dropWhile ?nc cs" using v by auto
    then show ?thesis using length_dropWhile_le[of ?nc cs] v by simp
  qed
qed

function has_token_loop :: "string \<Rightarrow> string \<Rightarrow> bool" where
  "has_token_loop token value =
     (if value = [] then False
      else
        let start = dropWhile (\<lambda>c. c = CHR '','' \<or> isspace c) value;
            seg = rtrim (takeWhile (\<lambda>c. c \<noteq> CHR '','') start);
            rest = dropWhile (\<lambda>c. c \<noteq> CHR '','') start
        in if seg \<noteq> [] \<and> length seg = length token
              \<and> sw_ascii_case_equal_range (Some seg) (Some token) (length token)
           then True
           else has_token_loop token rest)"
  by pat_completeness auto
termination
  by (relation "measure (\<lambda>(token, v). length v)") (simp_all add: has_token_progress)

declare has_token_loop.simps [simp del]

definition sw_http_header_value_has_token :: "cptr \<Rightarrow> cptr \<Rightarrow> bool" where
  "sw_http_header_value_has_token value token =
     (case (value, token) of
        (Some v, Some t) \<Rightarrow> length (cstr t) \<noteq> 0 \<and> has_token_loop (cstr t) (cstr v)
      | _ \<Rightarrow> False)"

text \<open>The specification: the elements of the comma-separated list, trimmed, folded and compared.\<close>

fun split_comma :: "string \<Rightarrow> string list" where
  "split_comma [] = [[]]"
| "split_comma (c # cs) =
     (if c = CHR '','' then [] # split_comma cs
      else (case split_comma cs of [] \<Rightarrow> [[c]] | x # xs \<Rightarrow> (c # x) # xs))"

definition element_matches :: "string \<Rightarrow> string \<Rightarrow> bool" where
  "element_matches token e \<longleftrightarrow> map tolower (trim e) = map tolower token"

lemma split_comma_eq:
  "split_comma s = takeWhile (\<lambda>c. c \<noteq> CHR '','') s #
     (case dropWhile (\<lambda>c. c \<noteq> CHR '','') s of [] \<Rightarrow> [] | _ # r \<Rightarrow> split_comma r)"
  by (induction s) auto

lemma trim_space: "isspace c \<Longrightarrow> trim (c # e) = trim e"
  by (simp add: trim_def ltrim_def)

lemma element_matches_Nil [simp]: "token \<noteq> [] \<Longrightarrow> \<not> element_matches token []"
  by (simp add: element_matches_def trim_def ltrim_def rtrim_def)

lemma element_matches_space: "isspace c \<Longrightarrow> element_matches token (c # e) = element_matches token e"
  by (simp add: element_matches_def trim_space)

lemma list_ex_skip_separators:
  assumes "token \<noteq> []"
  shows "list_ex (element_matches token) (split_comma (dropWhile (\<lambda>c. c = CHR '','' \<or> isspace c) v)) =
    list_ex (element_matches token) (split_comma v)"
  by (induction v) (auto simp: assms element_matches_space split: list.splits)

lemma has_token_loop_step:
  fixes v :: string
  defines "start \<equiv> dropWhile (\<lambda>c. c = CHR '','' \<or> isspace c) v"
  assumes "token \<noteq> []"
  shows "has_token_loop token v \<longleftrightarrow> v \<noteq> [] \<and>
    (element_matches token (takeWhile (\<lambda>c. c \<noteq> CHR '','') start) \<or>
     has_token_loop token (dropWhile (\<lambda>c. c \<noteq> CHR '','') start))"
proof -
  let ?seg = "rtrim (takeWhile (\<lambda>c. c \<noteq> CHR '','') start)"
  have "\<not> isspace (hd start)" if "start \<noteq> []"
    using hd_dropWhile[of "\<lambda>c. c = CHR '','' \<or> isspace c" v] that by (simp add: start_def)
  then have "ltrim (takeWhile (\<lambda>c. c \<noteq> CHR '','') start) = takeWhile (\<lambda>c. c \<noteq> CHR '','') start"
    by (intro ltrim_ident) (cases start; auto)
  then have "element_matches token (takeWhile (\<lambda>c. c \<noteq> CHR '','') start) \<longleftrightarrow> map tolower ?seg = map tolower token"
    by (simp add: element_matches_def trim_def)
  also have "\<dots> \<longleftrightarrow> ?seg \<noteq> [] \<and> length ?seg = length token \<and>
      sw_ascii_case_equal_range (Some ?seg) (Some token) (length token)"
    using assms(2) map_eq_imp_length_eq[of tolower ?seg tolower token]
    by (cases "length ?seg = length token") (auto simp: sw_ascii_case_equal_range_def)
  finally show ?thesis
    unfolding start_def by (subst has_token_loop.simps) (simp only: Let_def if_bool_eq_disj, blast)
qed

lemma has_token_loop_eq:
  assumes "token \<noteq> []"
  shows "has_token_loop token v = list_ex (element_matches token) (split_comma v)"
proof (induction v rule: length_induct)
  case (1 v)
  let ?nc = "\<lambda>c. c \<noteq> CHR '',''" and ?sep = "\<lambda>c. c = CHR '','' \<or> isspace c"
  define start where "start = dropWhile ?sep v"
  define rest where "rest = dropWhile ?nc start"
  show ?case
  proof (cases "v = []")
    case True
    with assms show ?thesis by (simp add: has_token_loop.simps)
  next
    case False
    have "has_token_loop token rest = list_ex (element_matches token) (split_comma rest)"
      using 1 has_token_progress[OF False] by (simp add: rest_def start_def)
    moreover have "rest = [] \<or> hd rest = CHR '',''"
      using hd_dropWhile[of ?nc start] by (auto simp: rest_def)
    ultimately have "has_token_loop token rest =
        list_ex (element_matches token) (case rest of [] \<Rightarrow> [] | _ # r \<Rightarrow> split_comma r)"
      using assms by (cases rest) auto
    then have "has_token_loop token v = list_ex (element_matches token) (split_comma start)"
      using False by (subst has_token_loop_step[OF assms], subst split_comma_eq)
        (simp add: rest_def start_def)
    then show ?thesis using list_ex_skip_separators[OF assms, of v] by (simp add: start_def)
  qed
qed

section \<open>Properties\<close>

text \<open>
  \<^verbatim>\<open>Content-Length\<close>: a value is accepted exactly when, after trimming, it is a non-empty run of
  decimal digits whose value fits in \<^verbatim>\<open>size_t\<close>, and the result is that value. The check before
  each multiplication is exact: it refuses every overflow and nothing else.
\<close>

theorem content_length_correct:
  "sw_parse_content_length_value (Some v) = Some n \<longleftrightarrow>
     trim v \<noteq> [] \<and> list_all isdigit (trim v) \<and> n = dec_value 0 (trim v) \<and> n \<le> SIZE_MAX"
  using content_length_digits_iff[of 0 "trim v" n]
  by (auto simp: sw_parse_content_length_value_def Let_def list_all_iff)

text \<open>
  Chunk sizes: the result is the value of the leading hex digits; a chunk header is refused exactly
  when it has no digit, when the value does not fit in \<^verbatim>\<open>size_t\<close>, or when what follows (after
  blanks) is neither the end of the line nor a chunk extension.
\<close>

theorem chunk_size_correct:
  "sw_parse_chunk_size_value v =
     (let digits = takeWhile isxdigit v;
          rest = dropWhile (\<lambda>c. c = CHR '' '' \<or> c = TAB) (dropWhile isxdigit v)
      in if digits \<noteq> [] \<and> hex_number 0 digits \<le> SIZE_MAX \<and> (rest = [] \<or> hd rest = CHR '';'')
         then Some (hex_number 0 digits) else None)"
  by (simp add: sw_parse_chunk_size_value_def chunk_digits_eq Let_def)

text \<open>
  \<^verbatim>\<open>Transfer-Encoding: chunked\<close> is recognised exactly when one element of the comma-separated
  value, trimmed, is the token up to ASCII case; the cursor loop neither joins nor skips
  elements.
\<close>

theorem has_token_correct:
  "sw_http_header_value_has_token (Some v) (Some t) \<longleftrightarrow>
     cstr t \<noteq> [] \<and> list_ex (element_matches (cstr t)) (split_comma (cstr v))"
  by (auto simp: sw_http_header_value_has_token_def has_token_loop_eq)

end
