(* ===== verification/Chunked.thy ===== *)
theory Chunked
  imports HttpText
begin

text \<open>
  The decoder of chunked request bodies, \<^verbatim>\<open>sw_decode_chunked_body\<close> of \<^verbatim>\<open>src/sw_server.c\<close>, run on the
  whole read buffer each time bytes arrive. Its out parameters are the result triple: the
  verdict, the decoded body (None while it is not set) and the length of the request.
\<close>

datatype sw_parse_result =
    SW_PARSE_PENDING
  | SW_PARSE_READY
  | SW_PARSE_BAD_REQUEST
  | SW_PARSE_HEADERS_TOO_LARGE
  | SW_PARSE_PAYLOAD_TOO_LARGE
  | SW_PARSE_TOO_MANY_HEADERS

type_synonym chunked_result = "sw_parse_result \<times> cptr \<times> nat"

section \<open>The decoder\<close>

text \<open>The branch taken at the chunk of size zero: the trailer section, then the result.\<close>

definition chunked_trailer :: "string \<Rightarrow> nat \<Rightarrow> nat \<Rightarrow> string \<Rightarrow> chunked_result" where
  "chunked_trailer data max_trailer_bytes cursor decoded =
     (if cursor + 2 \<le> length data \<and> data ! cursor = CR \<and> data ! (cursor + 1) = LF
      then (SW_PARSE_READY, Some decoded, cursor + 2)
      else case sw_find_bytes_from data cursor crlf2 of
        None \<Rightarrow>
          (if sz_sub (length data) cursor > max_trailer_bytes
           then (SW_PARSE_HEADERS_TOO_LARGE, None, 0) else (SW_PARSE_PENDING, None, 0))
      | Some trailer_end \<Rightarrow>
          (if sz_sub trailer_end cursor > max_trailer_bytes
           then (SW_PARSE_HEADERS_TOO_LARGE, None, 0)
           else (SW_PARSE_READY, Some decoded, trailer_end + 4)))"

function chunked_loop :: "string \<Rightarrow> nat \<Rightarrow> nat \<Rightarrow> nat \<Rightarrow> string \<Rightarrow> chunked_result" where
  "chunked_loop data max_body_bytes max_trailer_bytes cursor decoded =
     (case sw_find_crlf_from data cursor of
        None \<Rightarrow> (SW_PARSE_PENDING, None, 0)
      | Some line_end \<Rightarrow>
          (case sw_parse_chunk_size_value (take (line_end - cursor) (drop cursor data)) of
             None \<Rightarrow> (SW_PARSE_BAD_REQUEST, None, 0)
           | Some chunk_size \<Rightarrow>
               let cursor = line_end + 2 in
               if chunk_size = 0 then chunked_trailer data max_trailer_bytes cursor decoded
               else if chunk_size > sz_sub max_body_bytes (length decoded)
                 then (SW_PARSE_PAYLOAD_TOO_LARGE, None, 0)
               else if chunk_size > sz_sub (length data) cursor then (SW_PARSE_PENDING, None, 0)
               else if sz_sub (sz_sub (length data) cursor) chunk_size < 2
                 then (SW_PARSE_PENDING, None, 0)
               else if data ! (cursor + chunk_size) \<noteq> CR \<or> data ! (cursor + chunk_size + 1) \<noteq> LF
                 then (SW_PARSE_BAD_REQUEST, None, 0)
               else chunked_loop data max_body_bytes max_trailer_bytes (cursor + (chunk_size + 2))
                      (decoded @ take chunk_size (drop cursor data))))"
  by pat_completeness auto
termination
  by (relation "measure (\<lambda>(data, mb, mt, cursor, decoded). length data - cursor)")
    (auto dest!: find_crlf_bounds)

declare chunked_loop.simps [simp del]

definition sw_decode_chunked_body :: "cptr \<Rightarrow> nat \<Rightarrow> nat \<Rightarrow> nat \<Rightarrow> chunked_result" where
  "sw_decode_chunked_body data body_offset max_body_bytes max_trailer_bytes =
     (case data of None \<Rightarrow> (SW_PARSE_BAD_REQUEST, None, 0)
      | Some d \<Rightarrow>
          if body_offset > length d then (SW_PARSE_BAD_REQUEST, None, 0)
          else chunked_loop d max_body_bytes max_trailer_bytes body_offset [])"

section \<open>Bounds\<close>

lemma crlf2_bounds: "sw_find_bytes_from d k crlf2 = Some e \<Longrightarrow> k \<le> e \<and> e + 4 \<le> length d"
  using find_bytes_from_bounds[of crlf2 d k e] by simp

lemma chunked_trailer_ready:
  "chunked_trailer data mt c decoded = (SW_PARSE_READY, body, n) \<Longrightarrow>
     body = Some decoded \<and> c < n \<and> n \<le> length data"
  by (auto simp: chunked_trailer_def split: if_splits option.splits dest!: crlf2_bounds)

text \<open>
  One step of the loop on a non-zero chunk that is wholly there, the case every induction
  over the decoder has to treat.
\<close>

lemma chunked_loop_bounds:
  assumes "chunked_loop data mb mt c decoded = (SW_PARSE_READY, Some body, n)"
    and "length decoded \<le> mb"
  shows "length body \<le> mb \<and> c < n \<and> n \<le> length data \<and> (\<exists>more. body = decoded @ more)"
  using assms
proof (induction data mb mt c decoded rule: chunked_loop.induct)
  case (1 data mb mt c decoded)
  from 1(2) obtain e where e: "sw_find_crlf_from data c = Some e"
    by (subst (asm) chunked_loop.simps) (auto split: option.splits)
  from 1(2) e obtain k where k: "sw_parse_chunk_size_value (take (e - c) (drop c data)) = Some k"
    by (subst (asm) chunked_loop.simps) (auto split: option.splits)
  note eb = find_crlf_bounds[OF e]
  show ?case
  proof (cases "k = 0")
    case True
    with 1(2) e k have "chunked_trailer data mt (e + 2) decoded = (SW_PARSE_READY, Some body, n)"
      by (subst (asm) chunked_loop.simps) (simp add: Let_def)
    from chunked_trailer_ready[OF this] eb 1(3) show ?thesis by auto
  next
    case False
    have step: "k \<le> mb - length decoded" "k + 2 \<le> length data - (e + 2)"
      "chunked_loop data mb mt (e + 2 + (k + 2)) (decoded @ take k (drop (e + 2) data))
         = (SW_PARSE_READY, Some body, n)"
      "data ! (e + 2 + k) = CR" "data ! (e + 2 + k + 1) = LF"
      using 1(2,3) e k False eb
      by (subst (asm) chunked_loop.simps; auto simp: Let_def split: if_splits)+
    have "length (decoded @ take k (drop (e + 2) data)) \<le> mb" using step(1) 1(3) by auto
    with 1(1)[OF e k refl False] step 1(3) eb show ?thesis by fastforce
  qed
qed

section \<open>More input never changes a finished body\<close>

lemma chunked_trailer_stable:
  assumes "chunked_trailer data mt c decoded = (SW_PARSE_READY, body, n)" and "c \<le> length data"
  shows "chunked_trailer (data @ more) mt c decoded = (SW_PARSE_READY, body, n)"
proof (cases "c + 2 \<le> length data \<and> data ! c = CR \<and> data ! (c + 1) = LF")
  case True
  with assms show ?thesis by (auto simp: chunked_trailer_def nth_append)
next
  case False
  with assms(1) obtain e where e: "sw_find_bytes_from data c crlf2 = Some e"
    "\<not> sz_sub e c > mt" "body = Some decoded" "n = e + 4"
    by (auto simp: chunked_trailer_def split: if_splits option.splits)
  have st: "sw_find_bytes_from (data @ more) c crlf2 = Some e"
    using find_bytes_from_stable[OF _ e(1), of more] by simp
  have "c + 2 \<le> length data" using crlf2_bounds[OF e(1)] by simp
  with False have "\<not> (c + 2 \<le> length (data @ more) \<and> (data @ more) ! c = CR \<and> (data @ more) ! (c + 1) = LF)"
    by (auto simp: nth_append)
  then show ?thesis unfolding chunked_trailer_def by (simp only: if_False st) (simp add: e)
qed

lemma chunked_loop_stable:
  assumes "chunked_loop data mb mt c decoded = (SW_PARSE_READY, body, n)" and "length decoded \<le> mb"
  shows "chunked_loop (data @ more) mb mt c decoded = (SW_PARSE_READY, body, n)"
  using assms
proof (induction data mb mt c decoded rule: chunked_loop.induct)
  case (1 data mb mt c decoded)
  from 1(2) obtain e where e: "sw_find_crlf_from data c = Some e"
    by (subst (asm) chunked_loop.simps) (auto split: option.splits)
  from 1(2) e obtain k where k: "sw_parse_chunk_size_value (take (e - c) (drop c data)) = Some k"
    by (subst (asm) chunked_loop.simps) (auto split: option.splits)
  note eb = find_crlf_bounds[OF e]
  have e': "sw_find_crlf_from (data @ more) c = Some e" by (rule find_crlf_stable[OF e])
  have k': "sw_parse_chunk_size_value (take (e - c) (drop c (data @ more))) = Some k"
    using k eb by simp
  show ?case
  proof (cases "k = 0")
    case True
    with 1(2) e k have "chunked_trailer data mt (e + 2) decoded = (SW_PARSE_READY, body, n)"
      by (subst (asm) chunked_loop.simps) (simp add: Let_def)
    from chunked_trailer_stable[OF this] eb
    have "chunked_trailer (data @ more) mt (e + 2) decoded = (SW_PARSE_READY, body, n)" by simp
    with True e' k' show ?thesis by (subst chunked_loop.simps) (simp add: Let_def)
  next
    case False
    have step: "k \<le> mb - length decoded" "k + 2 \<le> length data - (e + 2)"
      "chunked_loop data mb mt (e + 2 + (k + 2)) (decoded @ take k (drop (e + 2) data))
         = (SW_PARSE_READY, body, n)"
      "data ! (e + 2 + k) = CR" "data ! (e + 2 + k + 1) = LF"
      using 1(2,3) e k False eb
      by (subst (asm) chunked_loop.simps; auto simp: Let_def split: if_splits)+
    have len: "length (decoded @ take k (drop (e + 2) data)) \<le> mb" using step(1) 1(3) by auto
    have "chunked_loop (data @ more) mb mt (e + 2 + (k + 2)) (decoded @ take k (drop (e + 2) data))
        = (SW_PARSE_READY, body, n)"
      using 1(1)[OF e k refl False] step 1(3) eb len by fastforce
    moreover have "take k (drop (e + 2) (data @ more)) = take k (drop (e + 2) data)"
      using step(2) by simp
    moreover have "e + 2 + k + 1 < length data" using step(2) eb by linarith
    ultimately show ?thesis
      using e' k' False step eb 1(3)
      by (subst chunked_loop.simps) (auto simp: Let_def nth_append)
  qed
qed

section \<open>A reference encoder, and the round trip\<close>

definition hex_digit :: "nat \<Rightarrow> char" where
  "hex_digit n = ''0123456789abcdef'' ! n"

fun hex_of :: "nat \<Rightarrow> string" where
  "hex_of n = (if n < 16 then [hex_digit n] else hex_of (n div 16) @ [hex_digit (n mod 16)])"

declare hex_of.simps [simp del]

definition encode_chunk :: "string \<Rightarrow> string" where
  "encode_chunk c = hex_of (length c) @ crlf @ c @ crlf"

definition encode_chunks :: "string list \<Rightarrow> string" where
  "encode_chunks cs = concat (map encode_chunk cs) @ ''0'' @ crlf2"

lemma less_16_cases:
  "(n::nat) < 16 \<Longrightarrow> n \<in> {0,1,2,3,4,5,6,7,8,9,10,11,12,13,14,15}"
  by simp presburger

lemma hex_digit_value: "n < 16 \<Longrightarrow> sw_hex_digit_value (hex_digit n) = int n"
  by (drule less_16_cases) (auto simp: hex_digit_def sw_hex_digit_value_def byte_def)

lemma hex_digit_isxdigit: "n < 16 \<Longrightarrow> isxdigit (hex_digit n)"
  using hex_digit_value[of n] hex_value_isxdigit[of "hex_digit n"] by simp

lemma hex_number_append: "hex_number a (xs @ ys) = hex_number (hex_number a xs) ys"
  by (simp add: hex_number_def)

lemma hex_of_xdigits: "\<forall>c\<in>set (hex_of n). isxdigit c"
proof (induction n rule: hex_of.induct)
  case (1 n)
  then show ?case by (subst hex_of.simps) (auto simp: hex_digit_isxdigit)
qed

lemma hex_number_hex_of: "hex_number 0 (hex_of n) = n"
proof (induction n rule: hex_of.induct)
  case (1 n)
  then show ?case by (subst hex_of.simps) (simp add: hex_number_append hex_digit_value)
qed

lemma hex_of_not_Nil: "hex_of n \<noteq> []"
  by (subst hex_of.simps) simp

lemma isxdigit_CR: "isxdigit c \<Longrightarrow> c \<noteq> CR"
  by (auto simp: isxdigit_def isdigit_def byte_def)

lemma parse_hex_of: "n \<le> SIZE_MAX \<Longrightarrow> sw_parse_chunk_size_value (hex_of n) = Some n"
  using hex_of_xdigits[of n] hex_of_not_Nil[of n]
  by (simp add: sw_parse_chunk_size_value_def chunk_digits_eq takeWhile_all dropWhile_all hex_number_hex_of)

lemma find_crlf_line:
  assumes "CR \<notin> set line"
  shows "sw_find_crlf_from (pre @ line @ crlf @ rest) (length pre) = Some (length pre + length line)"
  unfolding sw_find_crlf_from_def
proof (subst find_bytes_from_Some_iff, simp, intro conjI allI impI)
  let ?d = "pre @ line @ crlf @ rest"
  show "occurs_at crlf ?d (length pre + length line)" by (simp add: occurs_at_def)
  fix j assume j: "length pre \<le> j \<and> j < length pre + length line"
  show "\<not> occurs_at crlf ?d j"
  proof
    assume "occurs_at crlf ?d j"
    then obtain t where "drop j ?d = CR # LF # t" by (auto simp: occurs_at_def)
    then have "?d ! j = CR" using j by (metis hd_drop_conv_nth length_append list.sel(1) list.size(3)
          add_strict_increasing2 le0 length_greater_0_conv list.distinct(1) nless_le trans_less_add1
          add.assoc)
    moreover have "?d ! j = line ! (j - length pre)" using j by (auto simp: nth_append)
    moreover have "line ! (j - length pre) \<in> set line" using j by (intro nth_mem) auto
    ultimately show False using assms by simp
  qed
qed simp_all

lemma chunk_size_line:
  assumes "n \<le> SIZE_MAX"
  shows "sw_find_crlf_from (pre @ hex_of n @ crlf @ rest) (length pre) = Some (length pre + length (hex_of n))"
  by (rule find_crlf_line) (use hex_of_xdigits[of n] isxdigit_CR in blast)

lemma chunked_loop_encode:
  assumes "\<forall>c\<in>set cs. c \<noteq> []" and "length acc + length (concat cs) \<le> mb"
    and "length (concat cs) \<le> SIZE_MAX"
  shows "chunked_loop (pre @ encode_chunks cs @ tail) mb mt (length pre) acc =
    (SW_PARSE_READY, Some (acc @ concat cs), length pre + length (encode_chunks cs))"
  using assms
proof (induction cs arbitrary: pre acc)
  case Nil
  have "hex_of 0 = ''0''" by (subst hex_of.simps) (simp add: hex_digit_def)
  then have e: "sw_find_crlf_from (pre @ ''0'' @ crlf @ (crlf @ tail)) (length pre) = Some (length pre + 1)"
    and k: "sw_parse_chunk_size_value ''0'' = Some 0"
    using chunk_size_line[of 0 pre "crlf @ tail"] parse_hex_of[of 0] by simp_all
  then show ?case
    by (subst chunked_loop.simps) (simp add: encode_chunks_def chunked_trailer_def nth_append)
next
  case (Cons c cs)
  let ?n = "length c" and ?pre' = "pre @ encode_chunk c"
  let ?e = "length pre + length (hex_of (length c))"
  define D where "D = pre @ encode_chunks (c # cs) @ tail"
  have D1: "D = pre @ hex_of ?n @ crlf @ (c @ crlf @ encode_chunks cs @ tail)"
    and D2: "D = ?pre' @ encode_chunks cs @ tail"
    by (simp_all add: D_def encode_chunks_def encode_chunk_def)
  have n: "?n \<le> SIZE_MAX" "0 < ?n" "?n \<le> mb - length acc" using Cons.prems by auto
  have e: "sw_find_crlf_from D (length pre) = Some ?e"
    unfolding D1 by (rule chunk_size_line[OF n(1)])
  have k: "sw_parse_chunk_size_value (take (?e - length pre) (drop (length pre) D)) = Some ?n"
    using parse_hex_of[OF n(1)] by (simp add: D1)
  have "chunked_loop D mb mt (length ?pre') (acc @ c) =
      (SW_PARSE_READY, Some ((acc @ c) @ concat cs), length ?pre' + length (encode_chunks cs))"
    unfolding D2 using Cons.prems by (intro Cons.IH) auto
  then have rec: "chunked_loop D mb mt (?e + 2 + (?n + 2)) (acc @ c) =
      (SW_PARSE_READY, Some (acc @ c @ concat cs), length pre + length (encode_chunks (c # cs)))"
    by (simp add: encode_chunk_def encode_chunks_def add_ac)
  have c: "take ?n (drop (?e + 2) D) = c" unfolding D1 by simp
  have trm: "D ! (?e + 2 + ?n) = CR" "D ! (?e + 2 + ?n + 1) = LF"
    unfolding D1 by (simp_all add: nth_append)
  have len: "?e + 2 + ?n + 2 \<le> length D" unfolding D1 by simp
  have "chunked_loop D mb mt (length pre) acc =
      (SW_PARSE_READY, Some (acc @ concat (c # cs)), length pre + length (encode_chunks (c # cs)))"
    using n len Cons.prems
    by (subst chunked_loop.simps) (simp only: e k option.case Let_def, auto simp: rec[simplified] c[simplified] trm[simplified])
  then show ?case by (simp only: D_def)
qed

section \<open>Properties\<close>

text \<open>
  C5. Round trip: any list of non-empty chunks, encoded as an HTTP/1.1 chunked body and followed
  by anything at all, decodes to the concatenation of the chunks, and the reported request
  length ends exactly behind the encoded body. The limits are the configured body limit and
  the largest \<^verbatim>\<open>size_t\<close>.
\<close>

theorem chunked_roundtrip:
  assumes "\<forall>c\<in>set cs. c \<noteq> []" and "length (concat cs) \<le> max_body" and "max_body \<le> SIZE_MAX"
  shows "sw_decode_chunked_body (Some (pre @ encode_chunks cs @ tail)) (length pre) max_body max_trailer =
    (SW_PARSE_READY, Some (concat cs), length pre + length (encode_chunks cs))"
  using chunked_loop_encode[of cs "[]" max_body pre tail max_trailer] assms
  by (simp add: sw_decode_chunked_body_def)

theorem chunked_roundtrip_witness:
  "sw_decode_chunked_body (Some (''X'' @ encode_chunks [''abc'', ''de''] @ ''Y'')) 1 100 100 =
    (SW_PARSE_READY, Some ''abcde'', 1 + length (encode_chunks [''abc'', ''de'']))"
  using chunked_roundtrip[of "[''abc'', ''de'']" 100 "''X''" "''Y''" 100]
  by (simp add: SIZE_MAX_def)

text \<open>
  Safety of the decoder: a finished body never exceeds the configured limit, and the request
  it reports lies inside the buffer and strictly behind the start of the body. In particular
  the subtraction \<^verbatim>\<open>max_body_bytes - size(decoded)\<close> never wraps.
\<close>

theorem chunked_bounds:
  assumes "sw_decode_chunked_body (Some data) off max_body max_trailer = (SW_PARSE_READY, Some body, n)"
  shows "length body \<le> max_body \<and> off < n \<and> n \<le> length data"
  using assms chunked_loop_bounds[of data max_body max_trailer off "[]" body n]
  by (simp add: sw_decode_chunked_body_def split: if_splits)

theorem chunked_bounds_witness: "length ''abcde'' \<le> 100 \<and> 1 < 1 + length (encode_chunks [''abc'', ''de''])"
  using chunked_bounds[of "''X'' @ encode_chunks [''abc'', ''de''] @ ''Y''" 1 100 100 "''abcde''"
      "1 + length (encode_chunks [''abc'', ''de''])"]
    chunked_loop_encode[of "[''abc'', ''de'']" "[]" 100 "''X''" "''Y''" 100]
  by (simp add: sw_decode_chunked_body_def SIZE_MAX_def)

text \<open>
  Pipelining: once a body is finished, bytes that arrive behind it change neither the body
  nor the length of the request, so the next request on the connection starts where this one
  said it ends, however the input was cut into reads.
\<close>

theorem chunked_stable:
  assumes "sw_decode_chunked_body (Some data) off max_body max_trailer = (SW_PARSE_READY, body, n)"
  shows "sw_decode_chunked_body (Some (data @ more)) off max_body max_trailer = (SW_PARSE_READY, body, n)"
  using assms chunked_loop_stable[of data max_body max_trailer off "[]" body n more]
  by (simp add: sw_decode_chunked_body_def split: if_splits)

theorem chunked_stable_witness:
  "sw_decode_chunked_body (Some ((''X'' @ encode_chunks [''abc''] @ ''Y'') @ ''GET'')) 1 100 100 =
    (SW_PARSE_READY, Some ''abc'', 1 + length (encode_chunks [''abc'']))"
  using chunked_stable[of "''X'' @ encode_chunks [''abc''] @ ''Y''" 1 100 100 "Some ''abc''"
      "1 + length (encode_chunks [''abc''])" "''GET''"]
    chunked_loop_encode[of "[''abc'']" "[]" 100 "''X''" "''Y''" 100]
  by (simp add: sw_decode_chunked_body_def SIZE_MAX_def)

text \<open>
  C35. The limit on the trailer section, in contrast, depends on how the input was cut: with a limit
  of 4 bytes, the trailer \<^verbatim>\<open>A:b\<close> is accepted when it arrives as a whole, but the same request is
  refused with 431 when its last byte arrives separately, because the check on unfinished
  trailers counts the part of the final blank line that the check on finished ones leaves out.
\<close>

theorem chunked_trailer_limit_depends_on_reads:
  "sw_decode_chunked_body (Some (''0'' @ crlf @ ''A:b'' @ crlf2)) 0 10 4 = (SW_PARSE_READY, Some [], 10) \<and>
   sw_decode_chunked_body (Some (''0'' @ crlf @ ''A:b'' @ [CR, LF, CR])) 0 10 4 = (SW_PARSE_HEADERS_TOO_LARGE, None, 0)"
proof -
  have "hex_of 0 = ''0''" by (subst hex_of.simps) (simp add: hex_digit_def)
  then have "sw_parse_chunk_size_value ''0'' = Some 0" using parse_hex_of[of 0] by simp
  then show ?thesis
    by (simp add: sw_decode_chunked_body_def chunked_loop.simps sw_find_crlf_from_def
        sw_find_bytes_from_def sw_find_bytes_def chunked_trailer_def)
qed

end
