(* ===== verification/Message.thy ===== *)
theory Message
  imports HttpText
begin

text \<open>
  The request message of \<^verbatim>\<open>include/sw_server.h\<close> and the accessors of \<^verbatim>\<open>src/sw_server.c\<close> that read
  it: header lookup, content type and boundary, path tests, and the parameters of header lines
  (\<^verbatim>\<open>Content-Disposition\<close>). A cursor into a string is the rest of the string from there.
\<close>

section \<open>The message\<close>

record sw_http_header =
  hd_name :: cptr
  hd_value :: cptr

record sw_http_message =
  hm_method :: cptr
  hm_uri :: cptr
  hm_proto :: cptr
  hm_headers :: "sw_http_header list"
  hm_body :: cptr
  hm_body_len :: nat
  hm_content_length :: nat
  hm_body_pending :: bool
  hm_is_chunked :: bool

definition empty_message :: sw_http_message where
  "empty_message = \<lparr>hm_method = None, hm_uri = None, hm_proto = None, hm_headers = [], hm_body = None,
     hm_body_len = 0, hm_content_length = 0, hm_body_pending = False, hm_is_chunked = False\<rparr>"

fun header_lookup :: "sw_http_header list \<Rightarrow> string \<Rightarrow> cptr" where
  "header_lookup [] name = None"
| "header_lookup (h # hs) name =
     (if sw_stricmp_ascii (hd_name h) (Some name) = 0 then hd_value h else header_lookup hs name)"

definition sw_http_header_get :: "sw_http_message option \<Rightarrow> cptr \<Rightarrow> cptr" where
  "sw_http_header_get hm name =
     (case (hm, name) of (Some m, Some n) \<Rightarrow> header_lookup (hm_headers m) n | _ \<Rightarrow> None)"

section \<open>Content type\<close>

definition sw_http_content_type_matches :: "cptr \<Rightarrow> cptr \<Rightarrow> bool" where
  "sw_http_content_type_matches content_type expected =
     (case (content_type, expected) of
        (Some ct, Some ex) \<Rightarrow>
          (let e = cstr ex;
               seg = rtrim (takeWhile (\<lambda>c. c \<noteq> CHR '';'') (dropWhile isspace (cstr ct)))
           in length e \<noteq> 0 \<and> length seg = length e
              \<and> sw_ascii_case_equal_range (Some seg) (Some e) (length e))
      | _ \<Rightarrow> False)"

text \<open>The parts of a \<^verbatim>\<open>key=value\<close> parameter that three loops of the code cut in the same way.\<close>

definition skip_seps :: "string \<Rightarrow> string" where
  "skip_seps s = dropWhile (\<lambda>c. isspace c \<or> c = CHR '';'') s"

definition key_part :: "string \<Rightarrow> string" where
  "key_part s = takeWhile (\<lambda>c. c \<noteq> CHR ''='' \<and> c \<noteq> CHR '';'') s"

definition after_key :: "string \<Rightarrow> string" where
  "after_key s = dropWhile (\<lambda>c. c \<noteq> CHR ''='' \<and> c \<noteq> CHR '';'') s"

definition to_semicolon :: "string \<Rightarrow> string" where
  "to_semicolon s = dropWhile (\<lambda>c. c \<noteq> CHR '';'') s"

lemma length_skip_seps: "length (skip_seps s) \<le> length s"
  and length_after_key: "length (after_key s) \<le> length s"
  and length_to_semicolon: "length (to_semicolon s) \<le> length s"
  by (simp_all add: skip_seps_def after_key_def to_semicolon_def length_dropWhile_le)

lemma param_progress:
  assumes "s \<noteq> []" and "after_key (skip_seps s) = [] \<or> hd (after_key (skip_seps s)) \<noteq> CHR ''=''"
  shows "length (to_semicolon (after_key (skip_seps s))) < length s"
proof (cases "skip_seps s")
  case Nil
  then show ?thesis using assms(1) by (simp add: after_key_def to_semicolon_def)
next
  case (Cons c cs)
  then have c: "c \<noteq> CHR '';''"
    using hd_dropWhile[of "\<lambda>c. isspace c \<or> c = CHR '';''" s] by (auto simp: skip_seps_def)
  have "c \<noteq> CHR ''=''"
    using assms(2) Cons by (auto simp: after_key_def)
  with c Cons have "after_key (skip_seps s) = after_key cs" by (simp add: after_key_def)
  then have "length (to_semicolon (after_key (skip_seps s))) \<le> length cs"
    using length_to_semicolon length_after_key le_trans by metis
  also have "\<dots> < length s" using length_skip_seps[of s] Cons by simp
  finally show ?thesis .
qed

lemma param_progress_value:
  assumes "after_key (skip_seps s) \<noteq> []"
  shows "length (tl (after_key (skip_seps s))) < length s"
proof -
  have "length (after_key (skip_seps s)) \<le> length s"
    using length_skip_seps length_after_key le_trans by metis
  with assms show ?thesis by (cases "after_key (skip_seps s)") auto
qed

text \<open>Skipping a parameter that is not the boundary: a quote takes the byte behind it along.\<close>

fun skip_param :: "string \<Rightarrow> string" where
  "skip_param [] = []"
| "skip_param [c] = (if c = CHR '';'' then [c] else [])"
| "skip_param (c # d # cs) =
     (if c = CHR '';'' then c # d # cs else if c = DQ then skip_param cs else skip_param (d # cs))"

lemma length_skip_param: "length (skip_param s) \<le> length s"
  by (induction s rule: skip_param.induct) auto

function boundary_loop :: "nat \<Rightarrow> string \<Rightarrow> cptr" where
  "boundary_loop cap s =
     (if s = [] then None
      else
        let s1 = skip_seps s; key = rtrim (key_part s1); s2 = after_key s1 in
        if s2 = [] \<or> hd s2 \<noteq> CHR ''='' then boundary_loop cap (to_semicolon s2)
        else
          let s3 = dropWhile isspace (tl s2) in
          if length key \<noteq> 8 \<or> \<not> sw_ascii_case_equal_range (Some key) (Some ''boundary'') 8
          then boundary_loop cap (skip_param s3)
          else
            let val = (if s3 \<noteq> [] \<and> hd s3 = DQ then takeWhile (\<lambda>c. c \<noteq> DQ) (tl s3)
                       else takeWhile (\<lambda>c. c \<noteq> CHR '';'') s3)
            in if val = [] \<or> length val \<ge> cap then None else Some val)"
  by pat_completeness auto
termination
proof (relation "measure (\<lambda>(cap, s). length s)", goal_cases)
  case 1
  show ?case by simp
next
  case (2 cap s s1 key s2)
  then show ?case using param_progress[of s] by auto
next
  case (3 cap s s1 key s2 s3)
  have "length (skip_param s3) \<le> length (tl s2)"
    using 3 length_skip_param[of s3] length_dropWhile_le[of isspace "tl s2"] by simp
  moreover have "length (tl s2) < length s" using 3 param_progress_value[of s] by auto
  ultimately show ?case by simp
qed

declare boundary_loop.simps [simp del]

definition sw_http_content_type_boundary :: "cptr \<Rightarrow> nat \<Rightarrow> cptr" where
  "sw_http_content_type_boundary content_type boundary_cap =
     (case content_type of None \<Rightarrow> None
      | Some ct \<Rightarrow> if boundary_cap = 0 then None else boundary_loop boundary_cap (cstr ct))"

lemma boundary_loop_bounds: "boundary_loop cap s = Some b \<Longrightarrow> b \<noteq> [] \<and> length b < cap"
proof (induction cap s rule: boundary_loop.induct)
  case (1 cap s)
  then show ?case
    by (subst (asm) boundary_loop.simps) (auto simp: Let_def split: if_splits)
qed

lemma boundary_bounds: "sw_http_content_type_boundary ct cap = Some b \<Longrightarrow> b \<noteq> [] \<and> length b < cap"
  by (auto simp: sw_http_content_type_boundary_def dest: boundary_loop_bounds split: option.splits if_splits)

section \<open>Parameters of a header line\<close>

definition sw_strdup_trimmed_range :: "cptr \<Rightarrow> cptr" where
  "sw_strdup_trimmed_range text = map_option trim text"

definition sw_header_value_matches_name :: "cptr \<Rightarrow> cptr \<Rightarrow> bool" where
  "sw_header_value_matches_name line name =
     (case (line, name) of
        (Some l, Some n) \<Rightarrow>
          (let nm = cstr n in
           length l > length nm
           \<and> match_at (\<lambda>a b. tolower a = tolower b) nm l
           \<and> l ! length nm = CHR '':'')
      | _ \<Rightarrow> False)"

text \<open>The inside of a quoted value up to its closing quote, and what is left from there.\<close>

fun quoted_span :: "string \<Rightarrow> string \<times> string" where
  "quoted_span [] = ([], [])"
| "quoted_span [c] = (if c = DQ then ([], [c]) else ([c], []))"
| "quoted_span (c # d # cs) =
     (if c = DQ then ([], c # d # cs)
      else if c = BSL then (let (v, r) = quoted_span cs in (c # d # v, r))
      else (let (v, r) = quoted_span (d # cs) in (c # v, r)))"

lemma quoted_span_append: "fst (quoted_span s) @ snd (quoted_span s) = s"
  by (induction s rule: quoted_span.induct) (auto simp: Let_def split_beta)

lemma length_quoted_span: "length (snd (quoted_span s)) \<le> length s"
  using arg_cong[OF quoted_span_append[of s], of length] by simp

function disposition_loop :: "string \<Rightarrow> string \<Rightarrow> cptr" where
  "disposition_loop key s =
     (if s = [] then None
      else
        let s1 = skip_seps s; k = rtrim (key_part s1); s2 = after_key s1 in
        if s2 = [] \<or> hd s2 \<noteq> CHR ''='' then disposition_loop key (to_semicolon s2)
        else
          let key_matches = (length k = length key
                \<and> sw_ascii_case_equal_range (Some k) (Some key) (length key));
              s3 = dropWhile isspace (tl s2);
              (val, rest) = (if s3 \<noteq> [] \<and> hd s3 = DQ then quoted_span (tl s3)
                             else (takeWhile (\<lambda>c. c \<noteq> CHR '';'') s3, to_semicolon s3))
          in if key_matches then sw_strdup_trimmed_range (Some val)
             else disposition_loop key (to_semicolon rest))"
  by pat_completeness auto
termination
proof (relation "measure (\<lambda>(key, s). length s)", goal_cases)
  case 1
  show ?case by simp
next
  case (2 key s s1 k s2)
  then show ?case using param_progress[of s] by auto
next
  case (3 key s s1 k s2 km s3 x val rest)
  have "length rest \<le> length s3"
    using 3 length_to_semicolon[of s3] length_quoted_span[of "tl s3"]
    by (auto split: if_splits simp: prod_eq_iff)
  also have "length s3 \<le> length (tl s2)" using 3 length_dropWhile_le[of isspace "tl s2"] by simp
  finally have "length (to_semicolon rest) \<le> length (tl s2)"
    using length_to_semicolon[of rest] by linarith
  moreover have "length (tl s2) < length s" using 3 param_progress_value[of s] by auto
  ultimately show ?case by simp
qed

declare disposition_loop.simps [simp del]

definition sw_parse_disposition_param :: "cptr \<Rightarrow> cptr \<Rightarrow> cptr" where
  "sw_parse_disposition_param line key =
     (case (line, key) of
        (Some l, Some k) \<Rightarrow>
          (if length (cstr k) = 0 then None
           else case dropWhile (\<lambda>c. c \<noteq> CHR '':'') l of
             [] \<Rightarrow> None
           | _ # rest \<Rightarrow> disposition_loop (cstr k) rest)
      | _ \<Rightarrow> None)"

section \<open>Paths and methods\<close>

definition sw_http_path_length :: "cptr \<Rightarrow> nat" where
  "sw_http_path_length uri =
     (case uri of None \<Rightarrow> 0
      | Some u \<Rightarrow> length (takeWhile (\<lambda>c. c \<noteq> NUL \<and> c \<noteq> CHR ''?'') u))"

definition sw_http_is :: "sw_http_message option \<Rightarrow> cptr \<Rightarrow> cptr \<Rightarrow> bool" where
  "sw_http_is hm method path =
     (case hm of None \<Rightarrow> False
      | Some m \<Rightarrow>
          (case (hm_method m, hm_uri m, method, path) of
             (Some mm, Some u, Some me, Some p) \<Rightarrow>
               cstr mm = cstr me
               \<and> sw_http_path_length (Some u) = length (cstr p)
               \<and> take (length (cstr p)) (cstr u) = cstr p
           | _ \<Rightarrow> False))"

definition sw_http_path_is :: "sw_http_message option \<Rightarrow> cptr \<Rightarrow> bool" where
  "sw_http_path_is hm path =
     (case hm of None \<Rightarrow> False
      | Some m \<Rightarrow>
          (case (hm_uri m, path) of
             (Some u, Some p) \<Rightarrow>
               sw_http_path_length (Some u) = length (cstr p) \<and> take (length (cstr p)) (cstr u) = cstr p
           | _ \<Rightarrow> False))"

definition sw_http_path_starts :: "sw_http_message option \<Rightarrow> cptr \<Rightarrow> bool" where
  "sw_http_path_starts hm prefix =
     (case hm of None \<Rightarrow> False
      | Some m \<Rightarrow>
          (case (hm_uri m, prefix) of
             (Some u, Some p) \<Rightarrow>
               length (cstr p) \<noteq> 0 \<and> sw_http_path_length (Some u) \<ge> length (cstr p)
               \<and> take (length (cstr p)) (cstr u) = cstr p
           | _ \<Rightarrow> False))"

text \<open>The path of a URI: what lies before the query.\<close>

definition uri_path :: "string \<Rightarrow> string" where
  "uri_path u = takeWhile (\<lambda>c. c \<noteq> CHR ''?'') (cstr u)"

lemma path_length_uri_path: "sw_http_path_length (Some u) = length (uri_path u)"
proof -
  have "takeWhile (\<lambda>c. c \<noteq> NUL \<and> c \<noteq> CHR ''?'') u = uri_path u"
    unfolding uri_path_def cstr_def by (induction u) auto
  then show ?thesis by (simp add: sw_http_path_length_def)
qed

lemma uri_path_take: "uri_path u = take (length (uri_path u)) (cstr u)"
  by (simp add: uri_path_def takeWhile_eq_take[symmetric])

section \<open>Properties\<close>

text \<open>
  \<^verbatim>\<open>sw_http_is\<close> holds exactly when the method is equal and the given path is the whole path of
  the URI, the query left out: a longer path, a prefix, or a path that only differs in its query
  is told apart correctly.
\<close>

theorem http_is_correct:
  "sw_http_is (Some m) (Some me) (Some p) \<longleftrightarrow>
     (\<exists>mm u. hm_method m = Some mm \<and> hm_uri m = Some u \<and> cstr mm = cstr me \<and> uri_path u = cstr p)"
proof -
  have "length (uri_path u) = length q \<and> take (length q) (cstr u) = q \<longleftrightarrow> uri_path u = q" for u q
    using uri_path_take[of u] by auto
  then show ?thesis
    by (auto simp: sw_http_is_def path_length_uri_path split: option.splits)
qed

end
