(* ===== verification/Request.thy ===== *)
theory Request
  imports Chunked Message
begin

text \<open>
  The request parser \<^verbatim>\<open>sw_connection_try_parse_request\<close> of \<^verbatim>\<open>src/sw_server.c\<close> as a function of the
  configuration and of the whole read buffer: the limits, the request line, the header loop,
  and the choice between a chunked, a streamed and a buffered body. What it stores in the
  connection is its result (\<open>Parsed\<close>, \<open>Streamed\<close>); a \<open>goto\<close> to one of the error labels is
  \<open>Stop\<close> with the verdict that label returns.
\<close>

section \<open>Configuration\<close>

record sw_server_config =
  listen_backlog :: int
  event_batch_size :: nat
  worker_count :: nat
  max_connections :: nat
  max_header_bytes :: nat
  max_body_bytes :: nat
  max_header_count :: nat
  max_read_buffer_bytes :: nat
  max_write_buffer_bytes :: nat
  initial_read_buffer_bytes :: nat
  initial_write_buffer_bytes :: nat
  keep_alive_max_requests :: nat
  idle_timeout_ms :: int
  header_timeout_ms :: int
  body_timeout_ms :: int
  write_timeout_ms :: int

definition sw_server_config_default :: sw_server_config where
  "sw_server_config_default = \<lparr>
     listen_backlog = 1024,
     event_batch_size = 256,
     worker_count = 1,
     max_connections = 16384,
     max_header_bytes = 16 * 1024,
     max_body_bytes = 1024 * 1024,
     max_header_count = 64,
     max_read_buffer_bytes = 2 * 1024 * 1024,
     max_write_buffer_bytes = 2 * 1024 * 1024,
     initial_read_buffer_bytes = 4096,
     initial_write_buffer_bytes = 4096,
     keep_alive_max_requests = 1000,
     idle_timeout_ms = 15 * 1000,
     header_timeout_ms = 5 * 1000,
     body_timeout_ms = 15 * 1000,
     write_timeout_ms = 30 * 1000\<rparr>"

text \<open>
  The merge of a caller's configuration over the defaults in \<^verbatim>\<open>sw_mgr_create_internal\<close>: only
  positive fields override.
\<close>

definition merge_config :: "sw_server_config option \<Rightarrow> sw_server_config" where
  "merge_config config =
     (let d = sw_server_config_default in
      case config of None \<Rightarrow> d
      | Some c \<Rightarrow> \<lparr>
          listen_backlog = (if listen_backlog c > 0 then listen_backlog c else listen_backlog d),
          event_batch_size = (if event_batch_size c > 0 then event_batch_size c else event_batch_size d),
          worker_count = (if worker_count c > 0 then worker_count c else worker_count d),
          max_connections = (if max_connections c > 0 then max_connections c else max_connections d),
          max_header_bytes = (if max_header_bytes c > 0 then max_header_bytes c else max_header_bytes d),
          max_body_bytes = (if max_body_bytes c > 0 then max_body_bytes c else max_body_bytes d),
          max_header_count = (if max_header_count c > 0 then max_header_count c else max_header_count d),
          max_read_buffer_bytes =
            (if max_read_buffer_bytes c > 0 then max_read_buffer_bytes c else max_read_buffer_bytes d),
          max_write_buffer_bytes =
            (if max_write_buffer_bytes c > 0 then max_write_buffer_bytes c else max_write_buffer_bytes d),
          initial_read_buffer_bytes =
            (if initial_read_buffer_bytes c > 0 then initial_read_buffer_bytes c
             else initial_read_buffer_bytes d),
          initial_write_buffer_bytes =
            (if initial_write_buffer_bytes c > 0 then initial_write_buffer_bytes c
             else initial_write_buffer_bytes d),
          keep_alive_max_requests =
            (if keep_alive_max_requests c > 0 then keep_alive_max_requests c
             else keep_alive_max_requests d),
          idle_timeout_ms = (if idle_timeout_ms c > 0 then idle_timeout_ms c else idle_timeout_ms d),
          header_timeout_ms =
            (if header_timeout_ms c > 0 then header_timeout_ms c else header_timeout_ms d),
          body_timeout_ms = (if body_timeout_ms c > 0 then body_timeout_ms c else body_timeout_ms d),
          write_timeout_ms =
            (if write_timeout_ms c > 0 then write_timeout_ms c else write_timeout_ms d)\<rparr>)"

section \<open>The request line and the headers\<close>

text \<open>\<open>split_at_char\<close> is \<^verbatim>\<open>memchr\<close>: the bytes before the first occurrence and those behind it.\<close>

definition split_at_char :: "char \<Rightarrow> string \<Rightarrow> (string \<times> string) option" where
  "split_at_char ch s =
     (case dropWhile (\<lambda>c. c \<noteq> ch) s of
        [] \<Rightarrow> None
      | _ # rest \<Rightarrow> Some (takeWhile (\<lambda>c. c \<noteq> ch) s, rest))"

definition parse_request_line :: "string \<Rightarrow> (string \<times> string \<times> string) option" where
  "parse_request_line line =
     (case split_at_char (CHR '' '') line of
        None \<Rightarrow> None
      | Some (method, rest) \<Rightarrow>
          (case split_at_char (CHR '' '') rest of
             None \<Rightarrow> None
           | Some (uri, proto) \<Rightarrow> Some (method, uri, proto)))"

record header_state =
  hs_headers :: "sw_http_header list"
  hs_saw_content_length :: bool
  hs_content_length :: nat
  hs_is_chunked :: bool

definition header_state_init :: header_state where
  "header_state_init = \<lparr>hs_headers = [], hs_saw_content_length = False, hs_content_length = 0,
     hs_is_chunked = False\<rparr>"

text \<open>One line of the header section: the body of the loop between its two cursor updates.\<close>

definition parse_header_line ::
  "sw_server_config \<Rightarrow> string \<Rightarrow> header_state \<Rightarrow> sw_parse_result + header_state" where
  "parse_header_line cfg line st =
     (if length (hs_headers st) + 1 > max_header_count cfg then Inl SW_PARSE_TOO_MANY_HEADERS
      else case split_at_char (CHR '':'') line of
        None \<Rightarrow> Inl SW_PARSE_BAD_REQUEST
      | Some (before, after) \<Rightarrow>
          let name = rtrim before; val = trim after in
          if name = [] then Inl SW_PARSE_BAD_REQUEST
          else
            let st1 = st\<lparr>hs_headers := hs_headers st @ [\<lparr>hd_name = Some name, hd_value = Some val\<rparr>]\<rparr> in
            if sw_stricmp_ascii (Some name) (Some ''Content-Length'') = 0 then
              (case sw_parse_content_length_value (Some (cstr val)) of
                 None \<Rightarrow> Inl SW_PARSE_BAD_REQUEST
               | Some n \<Rightarrow>
                   if hs_saw_content_length st \<and> hs_content_length st \<noteq> n then Inl SW_PARSE_BAD_REQUEST
                   else if n > max_body_bytes cfg then Inl SW_PARSE_PAYLOAD_TOO_LARGE
                   else Inr (st1\<lparr>hs_content_length := n, hs_saw_content_length := True\<rparr>))
            else if sw_stricmp_ascii (Some name) (Some ''Transfer-Encoding'') = 0 then
              (if sw_http_header_value_has_token (Some val) (Some ''chunked'')
               then Inr (st1\<lparr>hs_is_chunked := True\<rparr>) else Inr st1)
            else Inr st1)"

function parse_headers ::
  "sw_server_config \<Rightarrow> string \<Rightarrow> nat \<Rightarrow> nat \<Rightarrow> header_state \<Rightarrow> sw_parse_result + header_state" where
  "parse_headers cfg data header_end cursor st =
     (if \<not> cursor < header_end then Inr st
      else case sw_find_crlf_from (take (header_end + 2) data) cursor of
        None \<Rightarrow> Inr st
      | Some line_end \<Rightarrow>
          if line_end > header_end then Inr st
          else if cursor = line_end then Inr st
          else
            (case parse_header_line cfg (take (line_end - cursor) (drop cursor data)) st of
               Inl r \<Rightarrow> Inl r
             | Inr st' \<Rightarrow> parse_headers cfg data header_end (line_end + 2) st'))"
  by pat_completeness auto
termination
  by (relation "measure (\<lambda>(cfg, data, header_end, cursor, st). header_end - cursor)")
    (auto dest!: find_crlf_bounds)

declare parse_headers.simps [simp del]

section \<open>The body\<close>

definition sw_request_body_should_stream :: "sw_http_message option \<Rightarrow> sw_server_config \<Rightarrow> nat \<Rightarrow> bool" where
  "sw_request_body_should_stream request config header_bytes =
     (let default_stream_threshold = 1024 * 1024 in
      case request of None \<Rightarrow> False
      | Some m \<Rightarrow>
          if hm_content_length m = 0 then False
          else
            let content_type = sw_http_header_get (Some m) (Some ''Content-Type'') in
            if \<not> sw_http_content_type_matches content_type (Some ''multipart/form-data'')
               \<or> sw_http_content_type_boundary content_type 256 = None
            then False
            else
              (max_read_buffer_bytes config > 0
               \<and> hm_content_length m > (if max_read_buffer_bytes config > header_bytes
                    then max_read_buffer_bytes config - header_bytes else 0))
              \<or> hm_content_length m > default_stream_threshold)"

datatype parse_outcome =
    Stop sw_parse_result
  | Parsed sw_http_message nat
  | Streamed sw_http_message nat

text \<open>
  What follows the header loop: \<open>Parsed m n\<close> is a complete request of \<open>n\<close> bytes, \<open>Streamed m n\<close> a
  request whose body is left to the handler, with \<open>n\<close> header bytes to consume
  (\<^verbatim>\<open>sw_connection_begin_streamed_body\<close>).
\<close>

definition parse_body :: "sw_server_config \<Rightarrow> string \<Rightarrow> nat \<Rightarrow> sw_http_message \<Rightarrow> header_state \<Rightarrow> parse_outcome" where
  "parse_body cfg data header_end base st =
     (let msg = base\<lparr>hm_headers := hs_headers st, hm_content_length := hs_content_length st,
                     hm_is_chunked := hs_is_chunked st\<rparr> in
      if hs_is_chunked st then
        (if hs_saw_content_length st then Stop SW_PARSE_BAD_REQUEST
         else case sw_decode_chunked_body (Some data) (header_end + 4) (max_body_bytes cfg) (max_header_bytes cfg) of
           (SW_PARSE_READY, Some body, request_len) \<Rightarrow>
             Parsed (msg\<lparr>hm_body := Some body, hm_body_len := length body,
                         hm_content_length := length body\<rparr>) request_len
         | (r, _, _) \<Rightarrow> Stop r)
      else if hs_content_length st > max_body_bytes cfg then Stop SW_PARSE_PAYLOAD_TOO_LARGE
      else if hs_content_length st > SIZE_MAX - (header_end + 4) then Stop SW_PARSE_BAD_REQUEST
      else if sw_request_body_should_stream (Some msg) cfg (header_end + 4) then
        Streamed (msg\<lparr>hm_body := None, hm_body_len := 0, hm_body_pending := True\<rparr>) (header_end + 4)
      else if length data < header_end + 4 + hs_content_length st then Stop SW_PARSE_PENDING
      else
        Parsed (msg\<lparr>hm_body := Some (sw_strdup_range (drop (header_end + 4) data) (hs_content_length st)),
                    hm_body_len := hs_content_length st\<rparr>)
          (header_end + 4 + hs_content_length st))"

definition parse_request :: "sw_server_config \<Rightarrow> string \<Rightarrow> parse_outcome" where
  "parse_request cfg data =
     (case sw_find_bytes data crlf2 of
        None \<Rightarrow>
          if length data > max_header_bytes cfg then Stop SW_PARSE_HEADERS_TOO_LARGE
          else Stop SW_PARSE_PENDING
      | Some header_end \<Rightarrow>
          if header_end + 4 > max_header_bytes cfg then Stop SW_PARSE_HEADERS_TOO_LARGE
          else case sw_find_crlf_from (take header_end data) 0 of
            None \<Rightarrow> Stop SW_PARSE_BAD_REQUEST
          | Some first_line_end \<Rightarrow>
              if first_line_end > header_end then Stop SW_PARSE_BAD_REQUEST
              else case parse_request_line (take first_line_end data) of
                None \<Rightarrow> Stop SW_PARSE_BAD_REQUEST
              | Some (method, uri, proto) \<Rightarrow>
                  let base = empty_message\<lparr>hm_method := Some method, hm_uri := Some uri, hm_proto := Some proto\<rparr> in
                  case parse_headers cfg data header_end (first_line_end + 2) header_state_init of
                    Inl r \<Rightarrow> Stop r
                  | Inr st \<Rightarrow> parse_body cfg data header_end base st)"

section \<open>Invariant of the header loop\<close>

text \<open>
  What the loop knows of the headers it has stored: their number is bounded, every name is
  non-empty and free of colons, and the framing headers agree with the flags.
\<close>

definition header_ok :: "header_state \<Rightarrow> sw_http_header \<Rightarrow> bool" where
  "header_ok st h \<longleftrightarrow> (\<exists>n v. hd_name h = Some n \<and> hd_value h = Some v \<and> n \<noteq> [] \<and> CHR '':'' \<notin> set n \<and>
     (ieq n ''Content-Length'' \<longrightarrow> hs_saw_content_length st \<and>
        sw_parse_content_length_value (Some (cstr v)) = Some (hs_content_length st)) \<and>
     (ieq n ''Transfer-Encoding'' \<and> sw_http_header_value_has_token (Some v) (Some ''chunked'') \<longrightarrow>
        hs_is_chunked st))"

definition headers_inv :: "sw_server_config \<Rightarrow> header_state \<Rightarrow> bool" where
  "headers_inv cfg st \<longleftrightarrow> length (hs_headers st) \<le> max_header_count cfg \<and>
     list_all (header_ok st) (hs_headers st) \<and> hs_content_length st \<le> max_body_bytes cfg"

lemma header_ok_mono:
  "header_ok s1 h \<Longrightarrow>
   hs_saw_content_length s1 \<longrightarrow> hs_saw_content_length s2 \<and> hs_content_length s2 = hs_content_length s1 \<Longrightarrow>
   hs_is_chunked s1 \<longrightarrow> hs_is_chunked s2 \<Longrightarrow> header_ok s2 h"
  unfolding header_ok_def by metis

lemma headers_inv_init: "headers_inv cfg header_state_init"
  by (simp add: headers_inv_def header_state_init_def)

lemma split_at_char_Some:
  "split_at_char ch s = Some (a, b) \<longleftrightarrow> s = a @ ch # b \<and> ch \<notin> set a"
proof
  assume "split_at_char ch s = Some (a, b)"
  then obtain d where d: "dropWhile (\<lambda>c. c \<noteq> ch) s = d # b" "a = takeWhile (\<lambda>c. c \<noteq> ch) s"
    by (auto simp: split_at_char_def split: list.splits)
  moreover have "d = ch" using hd_dropWhile[of "\<lambda>c. c \<noteq> ch" s] d by simp
  ultimately show "s = a @ ch # b \<and> ch \<notin> set a"
    by (metis takeWhile_dropWhile_id set_takeWhileD)
next
  assume a: "s = a @ ch # b \<and> ch \<notin> set a"
  then have "\<forall>x\<in>set a. x \<noteq> ch" by auto
  with a show "split_at_char ch s = Some (a, b)"
    by (simp add: split_at_char_def takeWhile_append_stop dropWhile_append_stop)
qed

lemma TE_not_CL: "ieq n ''Transfer-Encoding'' \<Longrightarrow> \<not> ieq n ''Content-Length''"
  using ieq_trans[OF ieq_sym, of n "''Transfer-Encoding''" "''Content-Length''"]
  by (auto simp: ieq_def dest: map_eq_imp_length_eq)

lemma parse_header_line_inv:
  assumes "headers_inv cfg st" and "parse_header_line cfg line st = Inr st'"
  shows "headers_inv cfg st'"
proof -
  from assms(2) obtain before after where ba: "split_at_char (CHR '':'') line = Some (before, after)"
    "length (hs_headers st) + 1 \<le> max_header_count cfg" "rtrim before \<noteq> []"
    by (auto simp: parse_header_line_def Let_def split: if_splits option.splits)
  let ?n = "rtrim before" and ?v = "trim after"
  have colon: "CHR '':'' \<notin> set ?n" using ba(1) set_rtrim[of before] by (auto simp: split_at_char_Some)
  define ext where "ext = hs_headers st @ [\<lparr>hd_name = Some ?n, hd_value = Some ?v\<rparr>]"
  consider
    (cl) n where "ieq ?n ''Content-Length''" "sw_parse_content_length_value (Some (cstr ?v)) = Some n"
      "hs_saw_content_length st \<longrightarrow> hs_content_length st = n" "n \<le> max_body_bytes cfg"
      "st' = st\<lparr>hs_headers := ext, hs_content_length := n, hs_saw_content_length := True\<rparr>"
  | (te) "\<not> ieq ?n ''Content-Length''" "st' = st\<lparr>hs_headers := ext, hs_is_chunked := True\<rparr>"
  | (other) "\<not> ieq ?n ''Content-Length''"
      "\<not> (ieq ?n ''Transfer-Encoding'' \<and> sw_http_header_value_has_token (Some ?v) (Some ''chunked''))"
      "st' = st\<lparr>hs_headers := ext\<rparr>"
    using assms(2) ba
    by (auto simp: parse_header_line_def Let_def ext_def split: if_splits option.splits)
  moreover have old: "list_all (header_ok s2) (hs_headers st)"
    if "hs_saw_content_length st \<longrightarrow> hs_saw_content_length s2 \<and> hs_content_length s2 = hs_content_length st"
      and "hs_is_chunked st \<longrightarrow> hs_is_chunked s2" for s2
    using assms(1) header_ok_mono[OF _ that] by (auto simp: headers_inv_def list_all_iff)
  have le: "hs_content_length st \<le> max_body_bytes cfg" using assms(1) by (simp add: headers_inv_def)
  ultimately show ?thesis
  proof cases
    case (cl n)
    have "list_all (header_ok st') (hs_headers st)" by (rule old) (use cl in auto)
    moreover have "header_ok st' \<lparr>hd_name = Some ?n, hd_value = Some ?v\<rparr>"
      using cl ba(3) colon by (auto simp: header_ok_def dest: TE_not_CL)
    ultimately show ?thesis using cl ba(2) by (simp add: headers_inv_def ext_def)
  next
    case te
    have "list_all (header_ok st') (hs_headers st)" by (rule old) (use te in auto)
    moreover have "header_ok st' \<lparr>hd_name = Some ?n, hd_value = Some ?v\<rparr>"
      using te ba(3) colon by (auto simp: header_ok_def)
    ultimately show ?thesis using te ba(2) le by (simp add: headers_inv_def ext_def)
  next
    case other
    have "list_all (header_ok st') (hs_headers st)" by (rule old) (use other in auto)
    moreover have "header_ok st' \<lparr>hd_name = Some ?n, hd_value = Some ?v\<rparr>"
      using other ba(3) colon by (auto simp: header_ok_def)
    ultimately show ?thesis using other ba(2) le by (simp add: headers_inv_def ext_def)
  qed
qed

lemma parse_headers_inv:
  "headers_inv cfg st \<Longrightarrow> parse_headers cfg data he c st = Inr st' \<Longrightarrow> headers_inv cfg st'"
proof (induction cfg data he c st rule: parse_headers.induct)
  case (1 cfg data he c st)
  show ?case
  proof (cases "sw_find_crlf_from (take (he + 2) data) c")
    case None
    with 1 show ?thesis by (simp add: parse_headers.simps[of cfg data he c st] split: if_splits)
  next
    case (Some e)
    show ?thesis
    proof (cases "\<not> c < he \<or> e > he \<or> c = e")
      case True
      with 1(2,3) Some show ?thesis
        by (auto simp: parse_headers.simps[of cfg data he c st] split: if_splits)
    next
      case False
      with 1(3) Some obtain st2 where
        l: "parse_header_line cfg (take (e - c) (drop c data)) st = Inr st2"
        and r: "parse_headers cfg data he (e + 2) st2 = Inr st'"
        by (auto simp: parse_headers.simps[of cfg data he c st] split: if_splits sum.splits)
      from False have "\<not> \<not> c < he" "\<not> e > he" "c \<noteq> e" by auto
      from 1(1)[OF this(1) Some this(2,3) l parse_header_line_inv[OF 1(2) l] r] show ?thesis .
    qed
  qed
qed

lemma parse_headers_stable:
  "he + 2 \<le> length data \<Longrightarrow> parse_headers cfg (data @ extra) he c st = parse_headers cfg data he c st"
proof (induction cfg data he c st rule: parse_headers.induct)
  case (1 cfg data he c st)
  have tk: "take (he + 2) (data @ extra) = take (he + 2) data" using 1(2) by simp
  note un = parse_headers.simps[of cfg _ he c st] tk
  show ?case
  proof (cases "c < he \<and> (\<exists>e. sw_find_crlf_from (take (he + 2) data) c = Some e \<and> e \<le> he \<and> c \<noteq> e)")
    case False
    then show ?thesis unfolding un by (auto simp del: take_append split: option.splits)
  next
    case True
    then obtain e where e: "sw_find_crlf_from (take (he + 2) data) c = Some e" "\<not> e > he" "c \<noteq> e"
      and c: "\<not> \<not> c < he" by auto
    have ln: "take (e - c) (drop c (data @ extra)) = take (e - c) (drop c data)"
      using 1(2) e(2) c by simp
    show ?thesis
    proof (cases "parse_header_line cfg (take (e - c) (drop c data)) st")
      case (Inl r)
      then show ?thesis unfolding un e(1) option.case ln by simp
    next
      case (Inr st2)
      from 1(1)[OF c e Inr 1(2)] show ?thesis
        unfolding un e(1) option.case ln using c e Inr by simp
    qed
  qed
qed

section \<open>Accepted requests\<close>

lemma find_bytes_stable:
  "n \<noteq> [] \<Longrightarrow> sw_find_bytes d n = Some e \<Longrightarrow> sw_find_bytes (d @ extra) n = Some e"
  using find_bytes_from_stable[of n d 0 e extra] by (simp add: sw_find_bytes_from_def split: option.splits)

text \<open>The stages an outcome other than \<open>Stop\<close> has passed.\<close>

lemma parse_request_stages:
  assumes "parse_request cfg data = r" and "\<forall>v. r \<noteq> Stop v"
  obtains he fe mt u pr st where
    "sw_find_bytes data crlf2 = Some he" "he + 4 \<le> max_header_bytes cfg" "he + 4 \<le> length data"
    "sw_find_crlf_from (take he data) 0 = Some fe" "fe \<le> he"
    "parse_request_line (take fe data) = Some (mt, u, pr)"
    "parse_headers cfg data he (fe + 2) header_state_init = Inr st" "headers_inv cfg st"
    "parse_body cfg data he (empty_message\<lparr>hm_method := Some mt, hm_uri := Some u, hm_proto := Some pr\<rparr>) st = r"
proof -
  from assms obtain he where he: "sw_find_bytes data crlf2 = Some he" "he + 4 \<le> max_header_bytes cfg"
    by (auto simp: parse_request_def split: option.splits if_splits)
  from he assms obtain fe where fe: "sw_find_crlf_from (take he data) 0 = Some fe" "fe \<le> he"
    by (auto simp: parse_request_def split: option.splits if_splits)
  from he fe assms obtain mt u pr where l: "parse_request_line (take fe data) = Some (mt, u, pr)"
    by (auto simp: parse_request_def split: option.splits if_splits)
  from he fe l assms obtain st where st: "parse_headers cfg data he (fe + 2) header_state_init = Inr st"
    "parse_body cfg data he (empty_message\<lparr>hm_method := Some mt, hm_uri := Some u, hm_proto := Some pr\<rparr>) st = r"
    by (auto simp: parse_request_def split: sum.splits)
  have "he + 4 \<le> length data"
    using find_bytes_from_bounds[of crlf2 data 0 he] he(1) by (simp add: sw_find_bytes_from_def)
  with he fe l st parse_headers_inv[OF headers_inv_init st(1)] show thesis by (intro that)
qed

lemma parse_body_Parsed:
  assumes "parse_body cfg data he base st = Parsed m n" and "he + 4 \<le> length data" and "headers_inv cfg st"
  shows "n \<le> length data \<and> he + 4 \<le> n \<and> hm_headers m = hs_headers st \<and> hm_is_chunked m = hs_is_chunked st \<and>
    \<not> (hs_is_chunked st \<and> hs_saw_content_length st) \<and>
    (\<exists>b. hm_body m = Some b \<and> hm_body_len m = length b \<and> hm_content_length m = length b \<and>
      length b \<le> max_body_bytes cfg \<and> (\<not> hs_is_chunked st \<longrightarrow> hs_content_length st = length b \<and>
        n = he + 4 + length b \<and> b = take (n - (he + 4)) (drop (he + 4) data)))"
proof (cases "hs_is_chunked st")
  case True
  with assms(1) obtain b where b:
    "sw_decode_chunked_body (Some data) (he + 4) (max_body_bytes cfg) (max_header_bytes cfg)
       = (SW_PARSE_READY, Some b, n)" "\<not> hs_saw_content_length st"
    "hm_body m = Some b" "hm_body_len m = length b" "hm_content_length m = length b"
    "hm_headers m = hs_headers st" "hm_is_chunked m"
    by (auto simp: parse_body_def Let_def split: if_splits prod.splits sw_parse_result.splits option.splits)
  from b(1) have "length b \<le> max_body_bytes cfg \<and> he + 4 < n \<and> n \<le> length data"
    using chunked_loop_bounds[of data "max_body_bytes cfg" "max_header_bytes cfg" "he + 4" "[]" b n]
    by (simp add: sw_decode_chunked_body_def split: if_splits)
  with b True show ?thesis by simp
next
  case False
  with assms show ?thesis
    by (auto simp: parse_body_def Let_def sw_strdup_range_def split: if_splits)
qed

lemma parse_body_stable:
  assumes "parse_body cfg data he base st = r" and "\<forall>v. r \<noteq> Stop v" and "he + 4 \<le> length data"
  shows "parse_body cfg (data @ extra) he base st = r"
proof (cases "hs_is_chunked st")
  case True
  with assms(1,2) obtain b n where
    "sw_decode_chunked_body (Some data) (he + 4) (max_body_bytes cfg) (max_header_bytes cfg)
       = (SW_PARSE_READY, Some b, n)"
    by (auto simp: parse_body_def Let_def split: if_splits prod.splits sw_parse_result.splits option.splits)
  moreover from this have
    "sw_decode_chunked_body (Some (data @ extra)) (he + 4) (max_body_bytes cfg) (max_header_bytes cfg)
       = (SW_PARSE_READY, Some b, n)"
    using chunked_loop_stable[of data "max_body_bytes cfg" "max_header_bytes cfg" "he + 4" "[]" "Some b" n extra]
    by (simp add: sw_decode_chunked_body_def split: if_splits)
  ultimately show ?thesis using assms(1,2) True by (auto simp: parse_body_def Let_def split: if_splits)
next
  case False
  with assms show ?thesis
    by (auto simp: parse_body_def Let_def sw_strdup_range_def split: if_splits)
qed

lemma parse_request_stable:
  assumes "parse_request cfg data = r" and "\<forall>v. r \<noteq> Stop v"
  shows "parse_request cfg (data @ extra) = r"
proof -
  from parse_request_stages[OF assms] obtain he fe mt u pr st where *:
    "sw_find_bytes data crlf2 = Some he" "he + 4 \<le> max_header_bytes cfg" "he + 4 \<le> length data"
    "sw_find_crlf_from (take he data) 0 = Some fe" "fe \<le> he"
    "parse_request_line (take fe data) = Some (mt, u, pr)"
    "parse_headers cfg data he (fe + 2) header_state_init = Inr st"
    "parse_body cfg data he (empty_message\<lparr>hm_method := Some mt, hm_uri := Some u, hm_proto := Some pr\<rparr>) st = r"
    by metis
  have "take he (data @ extra) = take he data" "take fe (data @ extra) = take fe data"
    using *(3,5) by simp_all
  moreover have "parse_headers cfg (data @ extra) he (fe + 2) header_state_init = Inr st"
    using parse_headers_stable[of he data cfg extra "fe + 2" header_state_init] *(3,7) by simp
  ultimately show ?thesis
    unfolding parse_request_def find_bytes_stable[OF _ *(1), of extra, simplified]
    using * parse_body_stable[OF *(8) assms(2) *(3), of extra] by (simp del: take_append)
qed

end
