(* ===== verification/RequestSpec.thy ===== *)
theory RequestSpec
  imports Request
begin

text \<open>
  The specification of the request parser and its properties: a reference that reads the header
  section line by line, the rendering of a request, and the safety of the framing.
\<close>

section \<open>The line-by-line reference\<close>

fun fold_lines :: "sw_server_config \<Rightarrow> string list \<Rightarrow> header_state \<Rightarrow> sw_parse_result + header_state" where
  "fold_lines cfg [] st = Inr st"
| "fold_lines cfg (l # ls) st =
     (case parse_header_line cfg l st of Inl r \<Rightarrow> Inl r | Inr st' \<Rightarrow> fold_lines cfg ls st')"

definition join_lines :: "string list \<Rightarrow> string" where
  "join_lines ls = concat (map (\<lambda>l. l @ crlf) ls)"

definition line_ok :: "string \<Rightarrow> bool" where
  "line_ok l \<longleftrightarrow> l \<noteq> [] \<and> CR \<notin> set l"

lemma join_lines_simps [simp]:
  "join_lines [] = []" "join_lines (l # ls) = l @ crlf @ join_lines ls"
  by (simp_all add: join_lines_def)

lemma parse_headers_lines:
  assumes "\<forall>l\<in>set ls. line_ok l" and "he + 2 = length pre + length (join_lines ls)"
  shows "parse_headers cfg (pre @ join_lines ls @ crlf @ rest) he (length pre) st = fold_lines cfg ls st"
  using assms
proof (induction ls arbitrary: pre st)
  case Nil
  then show ?case by (simp add: parse_headers.simps)
next
  case (Cons l ls)
  let ?d = "pre @ join_lines (l # ls) @ crlf @ rest" and ?e = "length pre + length l"
  from Cons.prems have l: "l \<noteq> []" "CR \<notin> set l" by (auto simp: line_ok_def)
  have he: "he = ?e + length (join_lines ls)" using Cons.prems(2) by simp
  have "take (he + 2) ?d = pre @ l @ crlf @ join_lines ls" by (simp add: he)
  then have "sw_find_crlf_from (take (he + 2) ?d) (length pre) = Some ?e"
    using find_crlf_line[OF l(2), of pre "join_lines ls"] by simp
  moreover have "take (?e - length pre) (drop (length pre) ?d) = l" by simp
  moreover have "parse_headers cfg ?d he (?e + 2) s = fold_lines cfg ls s" for s
    using Cons.IH[of "pre @ l @ crlf" s] Cons.prems by (simp add: add.assoc)
  ultimately show ?case
    using l(1) by (subst parse_headers.simps) (simp add: he del: join_lines_simps split: sum.split)
qed

text \<open>The blank line that ends the header section is the first one.\<close>

lemma crlf2_behind_lines:
  assumes "\<forall>l\<in>set ls. line_ok l" and "occurs_at crlf2 (join_lines ls @ crlf @ rest) j" and "ls \<noteq> []"
  shows "length (join_lines ls) \<le> j + 2"
  using assms
proof (induction ls arbitrary: j)
  case (Cons l ls)
  let ?r = "join_lines ls @ crlf @ rest"
  from Cons.prems have l: "l \<noteq> []" "CR \<notin> set l" and ls: "\<forall>l\<in>set ls. line_ok l"
    by (auto simp: line_ok_def)
  from Cons.prems(2) obtain t where t: "drop j (l @ CR # LF # ?r) = CR # LF # CR # LF # t"
    by (auto simp: occurs_at_def)
  have "\<not> j < length l"
  proof
    assume j: "j < length l"
    then have "CR = l ! j" using t by (cases "drop j l") (auto simp: nth_via_drop)
    with j l(2) show False by simp
  qed
  then have "j = length l \<or> j = length l + 1 \<or> (\<exists>k. j = length l + 2 + k)" by presburger
  then consider "j = length l" | "j = length l + 1" | k where "j = length l + 2 + k" by blast
  then show ?case
  proof cases
    case 1
    show ?thesis
    proof (cases ls)
      case (Cons l2 ls2)
      then obtain c cs where "l2 = c # cs" "c \<noteq> CR" using ls by (cases l2) (auto simp: line_ok_def)
      with t 1 Cons show ?thesis by simp
    qed (use 1 in simp)
  next
    case 2
    with t show ?thesis by simp
  next
    case (3 k)
    then have "drop k ?r = CR # LF # CR # LF # t" "k \<le> length ?r"
      using t Cons.prems(2) by (auto simp: occurs_at_def)
    then have "occurs_at crlf2 ?r k" by (simp add: occurs_at_def)
    with Cons.IH[OF ls this] 3 show ?thesis by (cases "ls = []") auto
  qed
qed simp

lemma find_blank_line:
  assumes "\<forall>l\<in>set ls. line_ok l" and "ls \<noteq> []"
  shows "sw_find_bytes (join_lines ls @ crlf @ rest) crlf2 = Some (length (join_lines ls) - 2)"
proof -
  obtain ls' l where ls: "ls = ls' @ [l]" using assms(2) by (cases ls rule: rev_cases) auto
  then have j: "join_lines ls = (join_lines ls' @ l) @ crlf" by (simp add: join_lines_def)
  have "occurs_at crlf2 (join_lines ls @ crlf @ rest) (length (join_lines ls) - 2)"
    unfolding occurs_at_def j by simp
  moreover have "\<not> occurs_at crlf2 (join_lines ls @ crlf @ rest) i" if "i < length (join_lines ls) - 2" for i
    using crlf2_behind_lines[OF assms(1) _ assms(2), of rest i] that by linarith
  ultimately show ?thesis by (simp add: find_bytes_Some_iff)
qed

section \<open>Rendering a request\<close>

definition header_line :: "string \<times> string \<Rightarrow> string" where
  "header_line h = fst h @ '': '' @ snd h"

definition render_request ::
  "string \<Rightarrow> string \<Rightarrow> string \<Rightarrow> (string \<times> string) list \<Rightarrow> string \<Rightarrow> string" where
  "render_request mt u pr hs b =
     join_lines ((mt @ '' '' @ u @ '' '' @ pr) #
       map header_line (hs @ [(''Content-Length'', dec_of (length b))])) @ crlf @ b"

definition plain_header :: "string \<times> string \<Rightarrow> bool" where
  "plain_header h \<longleftrightarrow> fst h \<noteq> [] \<and> CHR '':'' \<notin> set (fst h) \<and> CR \<notin> set (fst h) \<and> CR \<notin> set (snd h) \<and>
     \<not> isspace (last (fst h)) \<and> trim (snd h) = snd h \<and>
     \<not> ieq (fst h) ''Content-Length'' \<and> \<not> ieq (fst h) ''Transfer-Encoding''"

definition mk_header :: "string \<times> string \<Rightarrow> sw_http_header" where
  "mk_header h = \<lparr>hd_name = Some (fst h), hd_value = Some (snd h)\<rparr>"

lemma split_at_char_append: "ch \<notin> set a \<Longrightarrow> split_at_char ch (a @ ch # b) = Some (a, b)"
  by (simp add: split_at_char_Some)

lemma trim_space_prefix: "trim (CHR '' '' # v) = trim v"
  by (simp add: trim_def ltrim_def isspace_def byte_def)

lemma parse_header_line_split:
  assumes "CHR '':'' \<notin> set n" "n \<noteq> []" "\<not> isspace (last n)" "trim v = v"
  shows "split_at_char (CHR '':'') (header_line (n, v)) = Some (n, '' '' @ v)" "rtrim n = n" "trim ('' '' @ v) = v"
  using assms by (auto simp: header_line_def split_at_char_append trim_space_prefix rtrim_ident)

lemma parse_header_line_plain:
  assumes "plain_header h" and "length (hs_headers st) < max_header_count cfg"
  shows "parse_header_line cfg (header_line h) st = Inr (st\<lparr>hs_headers := hs_headers st @ [mk_header h]\<rparr>)"
proof -
  obtain n v where h: "h = (n, v)" by (cases h)
  have s: "split_at_char (CHR '':'') (header_line (n, v)) = Some (n, '' '' @ v)" "rtrim n = n" "trim ('' '' @ v) = v"
    using parse_header_line_split[of n v] assms(1) by (auto simp: plain_header_def h)
  show ?thesis using assms unfolding h parse_header_line_def s
    by (simp add: s[simplified] plain_header_def mk_header_def Let_def)
qed

lemma parse_header_line_length:
  assumes "k \<le> SIZE_MAX" and "k \<le> max_body_bytes cfg" and "length (hs_headers st) < max_header_count cfg"
    and "\<not> hs_saw_content_length st"
  shows "parse_header_line cfg (header_line (''Content-Length'', dec_of k)) st =
    Inr (st\<lparr>hs_headers := hs_headers st @ [mk_header (''Content-Length'', dec_of k)],
            hs_content_length := k, hs_saw_content_length := True\<rparr>)"
proof -
  have d: "trim (dec_of k) = dec_of k" "cstr (dec_of k) = dec_of k"
    using dec_of_isdigit[of _ k] isdigit_not_space
    by (blast intro: trim_no_space, intro cstr_ident, auto simp: isdigit_def byte_def dest: dec_of_isdigit)
  have s: "split_at_char (CHR '':'') (header_line (''Content-Length'', dec_of k)) = Some (''Content-Length'', '' '' @ dec_of k)"
    "rtrim ''Content-Length'' = ''Content-Length''" "trim ('' '' @ dec_of k) = dec_of k"
    using parse_header_line_split[of "''Content-Length''" "dec_of k"] d(1)
    by (auto simp: isspace_def byte_def)
  show ?thesis using assms unfolding parse_header_line_def s
    by (simp add: s[simplified] d parse_dec_of mk_header_def Let_def)
qed

lemma fold_lines_plain:
  assumes "\<forall>h\<in>set hs. plain_header h" and "length (hs_headers st) + length hs \<le> max_header_count cfg"
  shows "fold_lines cfg (map header_line hs @ ls) st =
    fold_lines cfg ls (st\<lparr>hs_headers := hs_headers st @ map mk_header hs\<rparr>)"
  using assms by (induction hs arbitrary: st) (simp_all add: parse_header_line_plain)

lemma header_line_ok: "plain_header h \<Longrightarrow> line_ok (header_line h)"
  by (auto simp: plain_header_def header_line_def line_ok_def)

lemma length_line_ok: "line_ok (header_line (''Content-Length'', dec_of k))"
  using dec_of_isdigit[of CR k] by (auto simp: header_line_def line_ok_def isdigit_def byte_def)

section \<open>The parser against the reference\<close>

definition parse_lines :: "sw_server_config \<Rightarrow> string \<Rightarrow> nat \<Rightarrow> string \<Rightarrow> string list \<Rightarrow> parse_outcome" where
  "parse_lines cfg data he line ls =
     (case parse_request_line line of None \<Rightarrow> Stop SW_PARSE_BAD_REQUEST
      | Some (mt, u, pr) \<Rightarrow>
          (case fold_lines cfg ls header_state_init of Inl r \<Rightarrow> Stop r
           | Inr st \<Rightarrow> parse_body cfg data he
               (empty_message\<lparr>hm_method := Some mt, hm_uri := Some u, hm_proto := Some pr\<rparr>) st))"

lemma parse_request_lines:
  fixes rest :: string
  assumes "line_ok line" and "\<forall>l\<in>set ls. line_ok l" and "ls \<noteq> []"
  defines "data \<equiv> join_lines (line # ls) @ crlf @ rest" and "he \<equiv> length (join_lines (line # ls)) - 2"
  shows "parse_request cfg data =
    (if he + 4 > max_header_bytes cfg then Stop SW_PARSE_HEADERS_TOO_LARGE
     else parse_lines cfg data he line ls)"
proof -
  have he: "sw_find_bytes data crlf2 = Some he"
    using find_blank_line[of "line # ls" rest] assms by simp
  obtain l ls' where ls: "ls = l # ls'" using assms(3) by (cases ls) auto
  then have two: "2 \<le> length (join_lines ls)" by simp
  then obtain k where k: "length (join_lines ls) = k + 2" using le_Suc_ex by (metis add.commute)
  then have "take he data = line @ crlf @ take (length (join_lines ls) - 2) (join_lines ls)"
    by (simp add: data_def he_def k)
  moreover have "CR \<notin> set line" using assms(1) by (simp add: line_ok_def)
  ultimately have fe: "sw_find_crlf_from (take he data) 0 = Some (length line)"
    using find_crlf_line[of line "[]"] by simp
  have "parse_headers cfg data he (length line + 2) st = fold_lines cfg ls st" for st
    using parse_headers_lines[OF assms(2), of he "line @ crlf" cfg rest st] two
    by (simp add: data_def he_def)
  moreover have "take (length line) data = line" "length line \<le> he" using two by (simp_all add: data_def he_def)
  ultimately show ?thesis
    unfolding parse_request_def he option.case fe parse_lines_def
    by (simp split: option.split)
qed

lemma parse_body_plain:
  assumes "\<not> hs_is_chunked st" and "hs_content_length st = length b" and "data = pre @ b @ rest"
    and "length pre = he + 4" and "length b \<le> max_body_bytes cfg" and "length b + (he + 4) \<le> SIZE_MAX"
    and "length b \<le> 1024 * 1024" and "length b + (he + 4) \<le> max_read_buffer_bytes cfg"
  shows "parse_body cfg data he base st =
    Parsed (base\<lparr>hm_headers := hs_headers st, hm_content_length := length b, hm_is_chunked := False,
                 hm_body := Some b, hm_body_len := length b\<rparr>) (he + 4 + length b)"
proof -
  have nz: "he + 4 < max_read_buffer_bytes cfg" if "b \<noteq> []" using assms(8) that by (cases b) auto
  have "\<not> sw_request_body_should_stream (Some m) cfg (he + 4)" if "hm_content_length m = length b" for m
    using assms(7,8) that nz by (cases "b = []") (auto simp: sw_request_body_should_stream_def Let_def)
  moreover have "take (length b) (drop (he + 4) data) = b" using assms(3,4) by simp
  moreover have "he + 4 + length b \<le> length data" using assms(3,4) by simp
  ultimately show ?thesis
    using assms(1,2,5,6) unfolding parse_body_def Let_def sw_strdup_range_def by simp
qed

section \<open>Properties\<close>

text \<open>
  C3. The request parser reads the header section exactly line by line: on a buffer that starts
  with a request line and at least one header line, all non-empty and free of carriage returns,
  then the blank line and anything behind it, the search for the blank line, the cursor loop
  and its early exits give the same outcome as folding the one-line parser over the lines and
  then treating the body. The header limit is decided on the exact size of the section.
\<close>

theorem request_reads_lines:
  assumes "\<forall>l\<in>set (line # ls). line_ok l" and "ls \<noteq> []"
    and "data = join_lines (line # ls) @ crlf @ rest" and "he = length (join_lines (line # ls)) - 2"
  shows "parse_request cfg data =
    (if he + 4 > max_header_bytes cfg then Stop SW_PARSE_HEADERS_TOO_LARGE
     else parse_lines cfg data he line ls)"
  using parse_request_lines[of line ls cfg rest] assms by simp

theorem request_reads_lines_witness:
  "parse_request sw_server_config_default (join_lines [''GET /'', ''A:b''] @ crlf @ ''X'') = Stop SW_PARSE_BAD_REQUEST"
proof -
  have "parse_lines cfg d he ''GET /'' ls = Stop SW_PARSE_BAD_REQUEST" for cfg d he ls
    by (simp add: parse_lines_def parse_request_line_def split_at_char_def)
  moreover have "max_header_bytes sw_server_config_default = 16384"
    by (simp add: sw_server_config_default_def)
  ultimately show ?thesis
    using request_reads_lines[OF _ _ refl refl, of "''GET /''" "[''A:b'']" sw_server_config_default "''X''"]
    by (simp add: line_ok_def)
qed

text \<open>
  C1. Round trip: a rendered request - any method and target without blanks, any headers that
  can be written on a line, any body, with its \<^verbatim>\<open>Content-Length\<close> - is parsed back to exactly that
  method, target, protocol, those headers in order and that body, whatever bytes follow it, and
  the reported length is the length of the rendering, so the next request starts right behind it.
\<close>

theorem request_roundtrip:
  assumes "CHR '' '' \<notin> set mt" and "CHR '' '' \<notin> set u" and "CR \<notin> set (mt @ u @ pr)"
    and "\<forall>h\<in>set hs. plain_header h" and "length hs < max_header_count cfg"
    and "length (render_request mt u pr hs b) - length b \<le> max_header_bytes cfg"
    and "length b \<le> max_body_bytes cfg" and "length b \<le> 1024 * 1024"
    and "length (render_request mt u pr hs b) \<le> max_read_buffer_bytes cfg"
    and "length (render_request mt u pr hs b) \<le> SIZE_MAX"
  shows "parse_request cfg (render_request mt u pr hs b @ rest) =
    Parsed (empty_message\<lparr>hm_method := Some mt, hm_uri := Some u, hm_proto := Some pr,
        hm_headers := map mk_header (hs @ [(''Content-Length'', dec_of (length b))]),
        hm_body := Some b, hm_body_len := length b, hm_content_length := length b\<rparr>)
      (length (render_request mt u pr hs b))"
proof -
  define line where "line = mt @ '' '' @ u @ '' '' @ pr"
  define cl where "cl = (''Content-Length'', dec_of (length b))"
  define ls where "ls = map header_line (hs @ [cl])"
  define he where "he = length (join_lines (line # ls)) - 2"
  have r: "render_request mt u pr hs b = join_lines (line # ls) @ crlf @ b"
    by (simp add: render_request_def line_def ls_def cl_def)
  have ok: "line_ok line" "\<forall>l\<in>set ls. line_ok l" "ls \<noteq> []"
    using assms(3,4) header_line_ok length_line_ok by (auto simp: line_ok_def line_def ls_def cl_def)
  have len: "length (render_request mt u pr hs b) = he + 4 + length b" by (simp add: r he_def)
  have rl: "parse_request_line line = Some (mt, u, pr)"
    using assms(1,2) split_at_char_append[of "CHR '' ''" mt "u @ '' '' @ pr"] split_at_char_append[of "CHR '' ''" u pr]
    by (simp add: parse_request_line_def line_def)
  let ?st = "header_state_init\<lparr>hs_headers := map mk_header (hs @ [cl]), hs_content_length := length b,
    hs_saw_content_length := True\<rparr>"
  have "fold_lines cfg ls header_state_init = Inr ?st"
    unfolding ls_def map_append using fold_lines_plain[OF assms(4), of header_state_init] assms(5,7,10) len
    by (simp add: cl_def parse_header_line_length header_state_init_def)
  moreover have "parse_body cfg (render_request mt u pr hs b @ rest) he base ?st =
      Parsed (base\<lparr>hm_headers := hs_headers ?st, hm_content_length := length b, hm_is_chunked := False,
                 hm_body := Some b, hm_body_len := length b\<rparr>) (he + 4 + length b)" for base
    by (rule parse_body_plain[where pre = "join_lines (line # ls) @ crlf" and rest = rest])
      (use assms(7-10) len in \<open>simp_all add: r he_def header_state_init_def\<close>)
  ultimately show ?thesis
    using parse_request_lines[OF ok, of cfg "b @ rest"] assms(6) len
    by (simp add: r he_def[symmetric] parse_lines_def rl header_state_init_def empty_message_def cl_def)
qed

theorem request_roundtrip_witness:
  "parse_request sw_server_config_default (render_request ''GET'' ''/'' ''HTTP/1.1'' [(''Host'', ''a'')] ''hi'' @ ''GET'') =
    Parsed (empty_message\<lparr>hm_method := Some ''GET'', hm_uri := Some ''/'', hm_proto := Some ''HTTP/1.1'',
        hm_headers := map mk_header [(''Host'', ''a''), (''Content-Length'', dec_of 2)],
        hm_body := Some ''hi'', hm_body_len := 2, hm_content_length := 2\<rparr>)
      (length (render_request ''GET'' ''/'' ''HTTP/1.1'' [(''Host'', ''a'')] ''hi''))"
proof -
  have "length (dec_of (length ''hi'')) = 1" by (simp add: dec_of.simps)
  then have "length (render_request ''GET'' ''/'' ''HTTP/1.1'' [(''Host'', ''a'')] ''hi'') = 48"
    by (simp add: render_request_def header_line_def)
  moreover have "plain_header (''Host'', ''a'')"
    by (simp add: plain_header_def ieq_def trim_def ltrim_def rtrim_def isspace_def byte_def)
  ultimately show ?thesis
    using request_roundtrip[of "''GET''" "''/''" "''HTTP/1.1''" "[(''Host'', ''a'')]" sw_server_config_default "''hi''" "''GET''"]
    by (simp add: sw_server_config_default_def SIZE_MAX_def numeral_2_eq_2)
qed

text \<open>
  C4. What an accepted request guarantees its handler: it lies inside the read buffer, its headers
  respect the configured count, and the body is there, is exactly as long as \<^verbatim>\<open>body_len\<close> and
  \<^verbatim>\<open>content_length\<close> say, and respects the configured limit.
\<close>

theorem request_bounds:
  assumes "parse_request cfg data = Parsed m n"
  shows "n \<le> length data \<and> 4 \<le> n \<and> length (hm_headers m) \<le> max_header_count cfg \<and>
    (\<exists>b. hm_body m = Some b \<and> hm_body_len m = length b \<and> hm_content_length m = length b \<and>
      length b \<le> max_body_bytes cfg)"
proof -
  from parse_request_stages[OF assms] obtain he base st where
    "he + 4 \<le> length data" "headers_inv cfg st" "parse_body cfg data he base st = Parsed m n" by blast
  with parse_body_Parsed[OF this(3,1,2)] show ?thesis by (auto simp: headers_inv_def)
qed

lemma small_request:
  "parse_request sw_server_config_default (join_lines [''GET / H'', ''A:b''] @ crlf) =
    Parsed (empty_message\<lparr>hm_method := Some ''GET'', hm_uri := Some ''/'', hm_proto := Some ''H'',
        hm_headers := [mk_header (''A'', ''b'')], hm_body := Some []\<rparr>) 16"
proof -
  let ?cfg = sw_server_config_default and ?d = "join_lines [''GET / H'', ''A:b''] @ crlf"
  let ?st = "header_state_init\<lparr>hs_headers := [mk_header (''A'', ''b'')]\<rparr>"
  have cfg: "max_header_bytes ?cfg = 16384" "max_header_count ?cfg = 64"
    "max_body_bytes ?cfg = 1048576" "max_read_buffer_bytes ?cfg = 2097152"
    by (simp_all add: sw_server_config_default_def)
  have he: "length (join_lines [''GET / H'', ''A:b'']) - 2 = 12" by simp
  have "fold_lines ?cfg [''A:b''] header_state_init = Inr ?st"
    by (simp add: cfg parse_header_line_def split_at_char_def header_state_init_def ieq_def
        rtrim_def trim_def ltrim_def isspace_def byte_def mk_header_def)
  moreover have "parse_request_line ''GET / H'' = Some (''GET'', ''/'', ''H'')"
    by (simp add: parse_request_line_def split_at_char_def)
  moreover have "parse_body ?cfg ?d 12 base ?st = Parsed (base\<lparr>hm_headers := hs_headers ?st,
      hm_content_length := length ([] :: string), hm_is_chunked := False, hm_body := Some [], hm_body_len := length ([] :: string)\<rparr>)
      (12 + 4 + length ([] :: string))" for base
    by (rule parse_body_plain[where pre = ?d and rest = "[]"]) (simp_all add: cfg header_state_init_def SIZE_MAX_def)
  moreover have "parse_request ?cfg (join_lines [''GET / H'', ''A:b''] @ crlf @ []) =
      parse_lines ?cfg (join_lines [''GET / H'', ''A:b''] @ crlf @ []) 12 ''GET / H'' [''A:b'']"
    by (subst parse_request_lines) (simp_all only: he cfg, simp_all add: line_ok_def)
  ultimately show ?thesis
    by (simp add: parse_lines_def header_state_init_def empty_message_def del: join_lines_simps)
qed

theorem request_bounds_witness: "(16::nat) \<le> length (join_lines [''GET / H'', ''A:b''] @ crlf)"
  using request_bounds[OF small_request] by blast

text \<open>A request with a body of two bytes.\<close>

lemma sized_request:
  defines "cl \<equiv> (''Content-Length'', dec_of 2)"
  shows "parse_request sw_server_config_default (join_lines [''PUT / H'', header_line cl] @ crlf @ ''hi'') =
    Parsed (empty_message\<lparr>hm_method := Some ''PUT'', hm_uri := Some ''/'', hm_proto := Some ''H'',
        hm_headers := [mk_header cl], hm_content_length := 2, hm_body := Some ''hi'', hm_body_len := 2\<rparr>) 32"
proof -
  let ?cfg = sw_server_config_default and ?d = "join_lines [''PUT / H'', header_line cl] @ crlf @ ''hi''"
  let ?st = "header_state_init\<lparr>hs_headers := [mk_header cl], hs_content_length := 2, hs_saw_content_length := True\<rparr>"
  have cfg: "max_header_bytes ?cfg = 16384" "max_header_count ?cfg = 64"
    "max_body_bytes ?cfg = 1048576" "max_read_buffer_bytes ?cfg = 2097152"
    by (simp_all add: sw_server_config_default_def)
  have he: "length (join_lines [''PUT / H'', header_line cl]) - 2 = 26"
    by (simp add: cl_def header_line_def dec_of.simps)
  have "fold_lines ?cfg [header_line cl] header_state_init = Inr ?st"
    unfolding cl_def using parse_header_line_length[of 2 ?cfg header_state_init]
    by (simp add: cfg header_state_init_def SIZE_MAX_def)
  moreover have "parse_request_line ''PUT / H'' = Some (''PUT'', ''/'', ''H'')"
    by (simp add: parse_request_line_def split_at_char_def)
  moreover have "parse_body ?cfg ?d 26 base ?st = Parsed (base\<lparr>hm_headers := hs_headers ?st,
      hm_content_length := length ''hi'', hm_is_chunked := False, hm_body := Some ''hi'', hm_body_len := length ''hi''\<rparr>)
      (26 + 4 + length ''hi'')" for base
    by (rule parse_body_plain[where pre = "join_lines [''PUT / H'', header_line cl] @ crlf" and rest = "[]"])
      (use he in \<open>simp_all add: cfg header_state_init_def SIZE_MAX_def\<close>)
  moreover have "parse_request ?cfg ?d = parse_lines ?cfg ?d 26 ''PUT / H'' [header_line cl]"
    by (subst parse_request_lines) (simp_all only: he cfg, simp_all add: line_ok_def length_line_ok[unfolded line_ok_def] cl_def)
  ultimately show ?thesis
    by (simp add: parse_lines_def header_state_init_def empty_message_def del: join_lines_simps)
qed

text \<open>
  C2. No request smuggling through disagreeing lengths: in an accepted request every
  \<^verbatim>\<open>Content-Length\<close> header - whatever the case of its name and however often it occurs - has
  exactly the length of the body as its value and excludes chunked framing, and a
  \<^verbatim>\<open>Transfer-Encoding\<close> header that lists \<^verbatim>\<open>chunked\<close> always makes the framing chunked.
\<close>

theorem request_framing_safe:
  assumes "parse_request cfg data = Parsed m n" and "h \<in> set (hm_headers m)"
    and "hd_name h = Some name" and "hd_value h = Some v"
  shows "(ieq name ''Content-Length'' \<longrightarrow> \<not> hm_is_chunked m \<and>
       sw_parse_content_length_value (Some (cstr v)) = Some (hm_body_len m)) \<and>
    (ieq name ''Transfer-Encoding'' \<and> sw_http_header_value_has_token (Some v) (Some ''chunked'') \<longrightarrow>
       hm_is_chunked m)"
proof -
  from parse_request_stages[OF assms(1)] obtain he base st where
    "he + 4 \<le> length data" "headers_inv cfg st" "parse_body cfg data he base st = Parsed m n" by blast
  moreover from parse_body_Parsed[OF this(3,1,2)] assms(2) this(2) have "header_ok st h"
    by (auto simp: headers_inv_def list_all_iff)
  ultimately show ?thesis
    using parse_body_Parsed[of cfg data he base st m n] assms(3,4) by (auto simp: header_ok_def)
qed

theorem request_framing_safe_witness:
  "sw_parse_content_length_value (Some (cstr (dec_of 2))) = Some 2"
  using request_framing_safe[OF sized_request, of "mk_header (''Content-Length'', dec_of 2)" "''Content-Length''" "dec_of 2"]
  by (simp add: mk_header_def empty_message_def)

text \<open>
  Pipelining: once a request has been accepted, or its body handed over to the handler, bytes
  that arrive behind it do not change the outcome. The verdict on a request does not depend on
  how much of the next one is already in the buffer.
\<close>

theorem request_stable:
  assumes "parse_request cfg data = r" and "\<forall>v. r \<noteq> Stop v"
  shows "parse_request cfg (data @ extra) = r"
  using assms by (rule parse_request_stable)

theorem request_stable_witness:
  "parse_request sw_server_config_default ((join_lines [''GET / H'', ''A:b''] @ crlf) @ ''GET /2'') =
    Parsed (empty_message\<lparr>hm_method := Some ''GET'', hm_uri := Some ''/'', hm_proto := Some ''H'',
        hm_headers := [mk_header (''A'', ''b'')], hm_body := Some []\<rparr>) 16"
  by (rule request_stable[OF small_request]) simp

text \<open>
  A request without any header line is refused with 400 even when it is well formed: the end
  of the request line is searched in front of the blank line only, so the line break that both
  share is never found. \<^verbatim>\<open>GET / HTTP/1.0\<close> followed by a blank line is a valid HTTP/1.0 request.
\<close>

theorem request_without_headers_refused:
  assumes "line_ok line" and "length line + 4 \<le> max_header_bytes cfg"
  shows "parse_request cfg (line @ crlf2 @ rest) = Stop SW_PARSE_BAD_REQUEST"
proof -
  have "sw_find_bytes (line @ crlf2 @ rest) crlf2 = Some (length line)"
    using find_blank_line[of "[line]" rest] assms(1) by simp
  moreover have "sw_find_crlf_from line 0 = None"
  proof -
    have "\<not> occurs_at crlf line j" for j
      using assms(1) by (auto simp: occurs_at_def line_ok_def) (metis in_set_dropD list.set_intros(1))
    then show ?thesis unfolding sw_find_crlf_from_def by (subst find_bytes_from_None_iff) auto
  qed
  ultimately show ?thesis using assms(2) by (simp add: parse_request_def)
qed

theorem request_without_headers_refused_witness:
  "parse_request sw_server_config_default (''GET / HTTP/1.0'' @ crlf2 @ []) = Stop SW_PARSE_BAD_REQUEST"
  by (rule request_without_headers_refused) (simp_all add: line_ok_def sw_server_config_default_def)

end
