(* ===== verification/Timers.thy ===== *)
theory Timers
  imports Prelude Complex_Main "HOL-Library.Multiset"
begin

text \<open>
  The timer queue of \<^verbatim>\<open>src/sw_server.c\<close> (\<^verbatim>\<open>sw_timer_heap_push\<close>, \<^verbatim>\<open>sw_timer_heap_pop\<close>): a binary heap in
  an array, ordered by the due time. The locale \<open>priority_queue\<close> states the contract its clients
  rely on; the heap is its interpretation. A time (\<^verbatim>\<open>f64\<close> milliseconds) is a \<^typ>\<open>real\<close>.
\<close>

section \<open>The heap\<close>

record sw_timer_entry =
  due_ms :: real
  connection_handle :: nat
  generation :: nat

definition sw_timer_heap_swap :: "sw_timer_entry list \<Rightarrow> nat \<Rightarrow> nat \<Rightarrow> sw_timer_entry list" where
  "sw_timer_heap_swap entries lhs rhs = (entries[lhs := entries ! rhs])[rhs := entries ! lhs]"

function sift_up :: "sw_timer_entry list \<Rightarrow> nat \<Rightarrow> sw_timer_entry list" where
  "sift_up entries index =
     (if \<not> index > 0 then entries
      else
        let parent = (index - 1) div 2 in
        if due_ms (entries ! parent) \<le> due_ms (entries ! index) then entries
        else sift_up (sw_timer_heap_swap entries parent index) parent)"
  by pat_completeness auto
termination by (relation "measure snd") auto

declare sift_up.simps [simp del]

definition sw_timer_heap_push :: "sw_timer_entry list \<Rightarrow> sw_timer_entry \<Rightarrow> sw_timer_entry list" where
  "sw_timer_heap_push timers entry =
     (let entries = timers @ [entry] in sift_up entries (length entries - 1))"

definition smallest_child :: "sw_timer_entry list \<Rightarrow> nat \<Rightarrow> nat" where
  "smallest_child entries index =
     (let left = index * 2 + 1; right = left + 1;
          s1 = (if left < length entries \<and> due_ms (entries ! left) < due_ms (entries ! index) then left else index)
      in if right < length entries \<and> due_ms (entries ! right) < due_ms (entries ! s1) then right else s1)"

lemma smallest_child_cases:
  "smallest_child es i = i \<or>
   (smallest_child es i \<in> {2 * i + 1, 2 * i + 2} \<and> smallest_child es i < length es)"
  by (auto simp: smallest_child_def Let_def)

function sift_down :: "sw_timer_entry list \<Rightarrow> nat \<Rightarrow> sw_timer_entry list" where
  "sift_down entries index =
     (let smallest = smallest_child entries index in
      if smallest = index then entries
      else sift_down (sw_timer_heap_swap entries index smallest) smallest)"
  by pat_completeness auto
termination
proof (relation "measure (\<lambda>(es, i). length es - i)", simp, goal_cases)
  case (1 es i s)
  then show ?case using smallest_child_cases[of es i] by (auto simp: sw_timer_heap_swap_def)
qed

declare sift_down.simps [simp del]

definition sw_timer_heap_pop :: "sw_timer_entry list \<Rightarrow> (sw_timer_entry \<times> sw_timer_entry list) option" where
  "sw_timer_heap_pop timers =
     (let n = length timers in
      if n = 0 then None
      else if n = 1 then Some (timers ! 0, [])
      else Some (timers ! 0, sift_down (butlast (timers[0 := timers ! (n - 1)])) 0))"

section \<open>Multiset and order\<close>

lemma length_swap [simp]: "length (sw_timer_heap_swap es i j) = length es"
  by (simp add: sw_timer_heap_swap_def)

lemma mset_heap_swap [simp]:
  "i < length es \<Longrightarrow> j < length es \<Longrightarrow> mset (sw_timer_heap_swap es i j) = mset es"
  using mset_swap[of j es i] by (simp add: sw_timer_heap_swap_def)

lemma nth_heap_swap:
  "i < length es \<Longrightarrow> j < length es \<Longrightarrow> k < length es \<Longrightarrow>
   sw_timer_heap_swap es i j ! k = (if k = j then es ! i else if k = i then es ! j else es ! k)"
  by (simp add: sw_timer_heap_swap_def nth_list_update)

lemma mset_sift_up: "i < length es \<Longrightarrow> mset (sift_up es i) = mset es"
proof (induction es i rule: sift_up.induct)
  case (1 es i)
  show ?case
  proof (cases "0 < i \<and> \<not> due_ms (es ! ((i - 1) div 2)) \<le> due_ms (es ! i)")
    case True
    have p: "(i - 1) div 2 < length es" using 1(2) by simp
    with True 1(1)[OF _ refl] 1(2) show ?thesis by (subst sift_up.simps) (simp add: Let_def)
  next
    case False
    then show ?thesis by (subst sift_up.simps) (auto simp: Let_def)
  qed
qed

lemma mset_sift_down: "i < length es \<Longrightarrow> mset (sift_down es i) = mset es"
proof (induction es i rule: sift_down.induct)
  case (1 es i)
  show ?case
  proof (cases "smallest_child es i = i")
    case False
    then have "smallest_child es i < length es" using smallest_child_cases[of es i] by auto
    with False 1(1)[OF refl False] 1(2) show ?thesis by (subst sift_down.simps) (simp add: Let_def)
  qed (subst sift_down.simps, simp)
qed

definition parent :: "nat \<Rightarrow> nat" where
  "parent j = (j - 1) div 2"

text \<open>\<open>heap_except P\<close>: the heap order between every entry and its parent, the ones in \<open>P\<close> apart.\<close>

definition heap_except :: "(nat \<Rightarrow> bool) \<Rightarrow> sw_timer_entry list \<Rightarrow> bool" where
  "heap_except P es \<longleftrightarrow> (\<forall>j. 0 < j \<and> j < length es \<and> \<not> P j \<longrightarrow> due_ms (es ! parent j) \<le> due_ms (es ! j))"

definition heap_inv :: "sw_timer_entry list \<Rightarrow> bool" where
  "heap_inv es \<longleftrightarrow> heap_except (\<lambda>_. False) es"

definition bypass :: "sw_timer_entry list \<Rightarrow> nat \<Rightarrow> bool" where
  "bypass es i \<longleftrightarrow>
     (\<forall>j. 0 < j \<and> j < length es \<and> parent j = i \<and> 0 < i \<longrightarrow> due_ms (es ! parent i) \<le> due_ms (es ! j))"

lemma parent_less: "0 < j \<Longrightarrow> parent j < j"
  by (simp add: parent_def)

lemma parent_le: "parent j \<le> j"
  by (simp add: parent_def)

lemma parent_eq_iff: "0 < j \<Longrightarrow> parent j = i \<longleftrightarrow> j = 2 * i + 1 \<or> j = 2 * i + 2"
  unfolding parent_def by presburger

lemma heap_sift_up:
  "i < length es \<Longrightarrow> heap_except (\<lambda>j. j = i) es \<Longrightarrow> bypass es i \<Longrightarrow> heap_inv (sift_up es i)"
proof (induction es i rule: sift_up.induct)
  case (1 es i)
  show ?case
  proof (cases "0 < i \<and> \<not> due_ms (es ! parent i) \<le> due_ms (es ! i)")
    case False
    with 1(3) have "heap_inv es" by (auto simp: heap_inv_def heap_except_def)
    with False show ?thesis by (subst sift_up.simps) (auto simp: Let_def parent_def)
  next
    case True
    let ?p = "parent i" and ?es = "sw_timer_heap_swap es (parent i) i"
    have p: "?p < i" "?p < length es" using parent_less[of i] True 1(2) by simp_all
    have nth: "?es ! k = (if k = i then es ! ?p else if k = ?p then es ! i else es ! k)" if "k < length es" for k
      using that p 1(2) by (simp add: nth_heap_swap)
    have le: "due_ms (es ! parent j) \<le> due_ms (es ! j)" if "0 < j" "j < length es" "j \<noteq> i" for j
      using 1(3) that by (simp add: heap_except_def)
    have bp: "due_ms (es ! ?p) \<le> due_ms (es ! j)" if "0 < j" "j < length es" "parent j = i" for j
      using 1(4) that True by (simp add: bypass_def)
    have "heap_except (\<lambda>j. j = ?p) ?es" unfolding heap_except_def
    proof (intro allI impI)
      fix j assume j: "0 < j \<and> j < length ?es \<and> j \<noteq> ?p"
      then have "parent j < j" "parent j < length es" using parent_less[of j] by auto
      with j show "due_ms (?es ! parent j) \<le> due_ms (?es ! j)"
        using True le[of j] bp[of j] p by (auto simp: nth)
    qed
    moreover have "bypass ?es ?p" unfolding bypass_def
    proof (intro allI impI)
      fix j assume j: "0 < j \<and> j < length ?es \<and> parent j = ?p \<and> 0 < ?p"
      then have "parent ?p < ?p" using parent_less by simp
      with j show "due_ms (?es ! parent ?p) \<le> due_ms (?es ! j)"
        using le[of j] le[of ?p] p True by (auto simp: nth)
    qed
    moreover have "sift_up es i = sift_up ?es ?p"
      using True by (subst sift_up.simps) (simp add: Let_def parent_def)
    ultimately show ?thesis
      using 1(1)[OF _ refl] True p by (simp add: parent_def)
  qed
qed

lemma smallest_child_le:
  "due_ms (es ! smallest_child es i) \<le> due_ms (es ! i)"
  "0 < j \<Longrightarrow> parent j = i \<Longrightarrow> j < length es \<Longrightarrow> due_ms (es ! smallest_child es i) \<le> due_ms (es ! j)"
proof -
  show "due_ms (es ! smallest_child es i) \<le> due_ms (es ! i)"
    by (auto simp: smallest_child_def Let_def)
  assume "0 < j" "parent j = i" "j < length es"
  moreover from this have "j = i * 2 + 1 \<or> j = i * 2 + 1 + 1" by (auto simp: parent_eq_iff)
  ultimately show "due_ms (es ! smallest_child es i) \<le> due_ms (es ! j)"
    unfolding smallest_child_def Let_def by (elim disjE; simp; linarith)
qed

lemma heap_sift_down:
  "i < length es \<Longrightarrow> heap_except (\<lambda>j. parent j = i) es \<Longrightarrow> bypass es i \<Longrightarrow> heap_inv (sift_down es i)"
proof (induction es i rule: sift_down.induct)
  case (1 es i)
  let ?s = "smallest_child es i" and ?es = "sw_timer_heap_swap es i (smallest_child es i)"
  have le: "due_ms (es ! parent j) \<le> due_ms (es ! j)" if "0 < j" "j < length es" "parent j \<noteq> i" for j
    using 1(3) that by (simp add: heap_except_def)
  show ?case
  proof (cases "?s = i")
    case True
    have "heap_inv es" unfolding heap_inv_def heap_except_def
    proof (intro allI impI)
      fix j assume "0 < j \<and> j < length es \<and> \<not> False"
      then show "due_ms (es ! parent j) \<le> due_ms (es ! j)"
        using le[of j] smallest_child_le(2)[of j i es] True by (cases "parent j = i") auto
    qed
    with True show ?thesis by (subst sift_down.simps) simp
  next
    case False
    then have s: "?s < length es" "0 < ?s" "parent ?s = i" "i < ?s"
      using smallest_child_cases[of es i] parent_eq_iff[of ?s i] by auto
    have nth: "?es ! k = (if k = ?s then es ! i else if k = i then es ! ?s else es ! k)" if "k < length es" for k
      using that s 1(2) by (simp add: nth_heap_swap)
    have "heap_except (\<lambda>j. parent j = ?s) ?es" unfolding heap_except_def
    proof (intro allI impI)
      fix j assume j: "0 < j \<and> j < length ?es \<and> parent j \<noteq> ?s"
      then have pj: "parent j < j" "parent j < length es" using parent_less[of j] by auto
      consider "j = ?s" | "j \<noteq> ?s" "parent j = i" | "j = i" | "j \<noteq> ?s" "j \<noteq> i" "parent j \<noteq> i" by blast
      then show "due_ms (?es ! parent j) \<le> due_ms (?es ! j)"
      proof cases
        case 1
        with s j pj show ?thesis using smallest_child_le(1)[of es i] by (simp add: nth)
      next
        case 2
        with s j pj show ?thesis using smallest_child_le(2)[of j i es] by (auto simp: nth)
      next
        case 3
        with s j pj 1(4) show ?thesis by (simp add: nth bypass_def)
      next
        case 4
        with j pj show ?thesis using le[of j] by (simp add: nth)
      qed
    qed
    moreover have "bypass ?es ?s" unfolding bypass_def
    proof (intro allI impI)
      fix j assume j: "0 < j \<and> j < length ?es \<and> parent j = ?s \<and> 0 < ?s"
      then have "?s < j" using parent_less[of j] by simp
      with j s show "due_ms (?es ! parent ?s) \<le> due_ms (?es ! j)"
        using le[of j] by (simp add: nth)
    qed
    moreover have "sift_down es i = sift_down ?es ?s" using False by (subst sift_down.simps) (simp add: Let_def)
    ultimately show ?thesis using 1(1)[OF refl False] s by simp
  qed
qed

section \<open>Push and pop\<close>

lemma heap_root_min:
  assumes "heap_inv es" and "j < length es"
  shows "due_ms (es ! 0) \<le> due_ms (es ! j)"
  using assms(2)
proof (induction j rule: less_induct)
  case (less j)
  show ?case
  proof (cases "j = 0")
    case False
    then have "due_ms (es ! 0) \<le> due_ms (es ! parent j)" using less parent_less[of j] by simp
    also have "\<dots> \<le> due_ms (es ! j)" using assms(1) less.prems False by (simp add: heap_inv_def heap_except_def)
    finally show ?thesis .
  qed simp
qed

lemma heap_push_inv: "heap_inv es \<Longrightarrow> heap_inv (sw_timer_heap_push es e)"
proof -
  assume a: "heap_inv es"
  let ?es = "es @ [e]" and ?n = "length es"
  have "heap_except (\<lambda>j. j = ?n) ?es" unfolding heap_except_def
  proof (intro allI impI)
    fix j assume j: "0 < j \<and> j < length ?es \<and> j \<noteq> ?n"
    then have "parent j < length es" "j < length es" using parent_less[of j] by auto
    with a j show "due_ms (?es ! parent j) \<le> due_ms (?es ! j)"
      by (simp add: heap_inv_def heap_except_def nth_append)
  qed
  moreover have "bypass ?es ?n" unfolding bypass_def
  proof (intro allI impI)
    fix j assume "0 < j \<and> j < length ?es \<and> parent j = ?n \<and> 0 < ?n"
    then show "due_ms (?es ! parent ?n) \<le> due_ms (?es ! j)" using parent_less[of j] by simp
  qed
  ultimately show ?thesis using heap_sift_up[of ?n ?es] by (simp add: sw_timer_heap_push_def)
qed

lemma heap_push_mset: "mset (sw_timer_heap_push es e) = add_mset e (mset es)"
  by (simp add: sw_timer_heap_push_def mset_sift_up)

lemma heap_pop_None: "sw_timer_heap_pop es = None \<longleftrightarrow> es = []"
  by (simp add: sw_timer_heap_pop_def Let_def)

lemma heap_pop_step:
  assumes "heap_inv es" and "2 \<le> length es"
  defines "rest \<equiv> butlast (es[0 := last es])"
  shows "sw_timer_heap_pop es = Some (es ! 0, sift_down rest 0)"
    "mset es = add_mset (es ! 0) (mset rest)" "heap_inv (sift_down rest 0)" "0 < length rest"
proof -
  obtain x ys l where es: "es = x # ys @ [l]"
    using assms(2) by (cases es; cases "tl es" rule: rev_cases) auto
  then have r: "rest = l # ys" by (simp add: rest_def butlast_append)
  show "0 < length rest" by (simp add: r)
  show "sw_timer_heap_pop es = Some (es ! 0, sift_down rest 0)"
    unfolding sw_timer_heap_pop_def Let_def rest_def using assms(2) last_conv_nth[of es] by auto
  show "mset es = add_mset (es ! 0) (mset rest)" by (simp add: es r)
  have "due_ms (rest ! parent j) \<le> due_ms (rest ! j)" if j: "0 < j" "j < length rest" "parent j \<noteq> 0" for j
  proof -
    have pj: "parent j < j" using parent_less[of j] j by simp
    have "rest ! k = es ! k" if "0 < k" "k < length rest" for k
      using that by (cases k) (auto simp: es r nth_append)
    moreover have "length es = Suc (length rest)" by (simp add: es r)
    ultimately show ?thesis
      using assms(1) j pj by (simp add: heap_inv_def heap_except_def)
  qed
  then have "heap_except (\<lambda>j. parent j = 0) rest" by (simp add: heap_except_def)
  then show "heap_inv (sift_down rest 0)"
    using r by (intro heap_sift_down) (auto simp: bypass_def)
qed

lemma heap_pop_Some:
  assumes "heap_inv es" and "sw_timer_heap_pop es = Some (e, es')"
  shows "heap_inv es' \<and> mset es = add_mset e (mset es') \<and> (\<forall>x\<in>set es. due_ms e \<le> due_ms x)"
proof (cases "2 \<le> length es")
  case True
  then show ?thesis
    using heap_pop_step[OF assms(1) True] assms(2) heap_root_min[OF assms(1)]
    by (auto simp: mset_sift_down in_set_conv_nth)
next
  case False
  with assms(2) obtain x where "es = [x]"
    by (cases es; cases "tl es") (auto simp: sw_timer_heap_pop_def Let_def)
  with assms(2) show ?thesis by (auto simp: sw_timer_heap_pop_def Let_def heap_inv_def heap_except_def)
qed

text \<open>Popping removes the root, in whatever order the entries are.\<close>

lemma heap_pop_entries:
  assumes "sw_timer_heap_pop es = Some (e, es')"
  shows "e = es ! 0 \<and> mset es = add_mset e (mset es')"
proof (cases "2 \<le> length es")
  case True
  then obtain x ys l where es: "es = x # ys @ [l]" by (cases es; cases "tl es" rule: rev_cases) auto
  then have "es' = sift_down (l # ys) 0" "e = x"
    using assms by (auto simp: sw_timer_heap_pop_def Let_def nth_append butlast_append)
  then show ?thesis by (simp add: es mset_sift_down)
next
  case False
  with assms obtain x where "es = [x]"
    by (cases es; cases "tl es") (auto simp: sw_timer_heap_pop_def Let_def)
  with assms show ?thesis by (auto simp: sw_timer_heap_pop_def Let_def)
qed

lemma heap_pop_length: "sw_timer_heap_pop es = Some (e, es') \<Longrightarrow> length es = Suc (length es')"
  by (metis heap_pop_entries size_mset size_add_mset)

lemma heap_Nil: "heap_inv []"
  by (simp add: heap_inv_def heap_except_def)

section \<open>The contract of a priority queue\<close>

locale priority_queue =
  fixes empty_q :: "'q"
    and push :: "'q \<Rightarrow> 'e \<Rightarrow> 'q"
    and pop :: "'q \<Rightarrow> ('e \<times> 'q) option"
    and inv_q :: "'q \<Rightarrow> bool"
    and bag :: "'q \<Rightarrow> 'e multiset"
    and key :: "'e \<Rightarrow> 'k::linorder"
  assumes empty_inv: "inv_q empty_q"
    and empty_bag: "bag empty_q = {#}"
    and push_inv: "inv_q q \<Longrightarrow> inv_q (push q e)"
    and push_bag: "bag (push q e) = add_mset e (bag q)"
    and pop_None: "inv_q q \<Longrightarrow> pop q = None \<longleftrightarrow> bag q = {#}"
    and pop_Some: "inv_q q \<Longrightarrow> pop q = Some (e, q') \<Longrightarrow>
      inv_q q' \<and> bag q = add_mset e (bag q') \<and> (\<forall>x\<in>#bag q. key e \<le> key x)"
begin

text \<open>Popping \<open>n\<close> times, and filling the queue from a list.\<close>

primrec drain :: "nat \<Rightarrow> 'q \<Rightarrow> 'e list" where
  "drain 0 q = []"
| "drain (Suc n) q = (case pop q of None \<Rightarrow> [] | Some (e, q') \<Rightarrow> e # drain n q')"

lemma fill_inv_bag: "inv_q q \<Longrightarrow> inv_q (foldl push q es) \<and> bag (foldl push q es) = bag q + mset es"
  by (induction es arbitrary: q) (simp_all add: push_inv push_bag)

lemma drain_bag: "inv_q q \<Longrightarrow> size (bag q) \<le> n \<Longrightarrow> mset (drain n q) = bag q"
proof (induction n arbitrary: q)
  case (Suc n)
  show ?case
  proof (cases "pop q")
    case None
    with pop_None[OF Suc.prems(1)] show ?thesis by simp
  next
    case (Some r)
    obtain e q' where r: "r = (e, q')" by (cases r)
    from pop_Some[OF Suc.prems(1), of e q'] Some r have
      q': "inv_q q'" "bag q = add_mset e (bag q')" by simp_all
    have "size (bag q') \<le> n" using Suc.prems(2) q'(2) by simp
    from Suc.IH[OF q'(1) this] show ?thesis by (simp add: Some r q'(2))
  qed
qed simp

lemma drain_subset: "inv_q p \<Longrightarrow> set (drain m p) \<subseteq> set_mset (bag p)"
proof (induction m arbitrary: p)
  case (Suc m)
  show ?case
  proof (cases "pop p")
    case (Some r)
    obtain e q' where r: "r = (e, q')" by (cases r)
    from pop_Some[OF Suc.prems, of e q'] Some r have
      q': "inv_q q'" "bag p = add_mset e (bag q')" by simp_all
    from Suc.IH[OF q'(1)] show ?thesis by (auto simp: Some r q'(2))
  qed simp
qed simp

lemma drain_sorted: "inv_q q \<Longrightarrow> sorted (map key (drain n q))"
proof (induction n arbitrary: q)
  case (Suc n)
  show ?case
  proof (cases "pop q")
    case (Some r)
    obtain e q' where r: "r = (e, q')" by (cases r)
    from pop_Some[OF Suc.prems, of e q'] Some r have
      q': "inv_q q'" "bag q = add_mset e (bag q')" "\<forall>x\<in>#bag q. key e \<le> key x" by simp_all
    have "\<forall>x\<in>set (drain n q'). key e \<le> key x" using drain_subset[OF q'(1), of n] q'(2,3) by auto
    with Suc.IH[OF q'(1)] show ?thesis by (simp add: Some r)
  qed simp
qed simp

lemma fill_drain_sorted:
  "mset (drain (length es) (foldl push empty_q es)) = mset es \<and>
   sorted (map key (drain (length es) (foldl push empty_q es)))"
  using fill_inv_bag[OF empty_inv, of es] drain_bag drain_sorted by (simp add: empty_bag)

end

interpretation timer_heap: priority_queue "[]" sw_timer_heap_push sw_timer_heap_pop heap_inv mset due_ms
  by unfold_locales (auto simp: heap_Nil heap_push_inv heap_push_mset heap_pop_None dest: heap_pop_Some)

section \<open>Properties\<close>

primrec pop_all :: "nat \<Rightarrow> sw_timer_entry list \<Rightarrow> sw_timer_entry list" where
  "pop_all 0 es = []"
| "pop_all (Suc n) es = (case sw_timer_heap_pop es of None \<Rightarrow> [] | Some (e, es') \<Rightarrow> e # pop_all n es')"

lemma pop_all_drain: "pop_all n es = timer_heap.drain n es"
  by (induction n arbitrary: es) (auto split: option.splits)

text \<open>
  C34. The timer heap is a priority queue: whatever entries are pushed, in whatever order, popping
  as often gives back exactly these entries, none lost and none duplicated, in the order of
  their due times.
\<close>

theorem timer_heap_sorts:
  "mset (pop_all (length es) (foldl sw_timer_heap_push [] es)) = mset es \<and>
   sorted (map due_ms (pop_all (length es) (foldl sw_timer_heap_push [] es)))"
  unfolding pop_all_drain by (rule timer_heap.fill_drain_sorted)

text \<open>
  Interleaved use: in a heap - the empty array, and the array after every push and pop - a pop
  removes exactly one entry, one whose due time is the earliest, and leaves a heap; it fails
  only on the empty array.
\<close>

theorem timer_heap_pop_min:
  assumes "heap_inv es"
  shows "heap_inv (sw_timer_heap_push es e) \<and>
    (case sw_timer_heap_pop es of None \<Rightarrow> es = []
     | Some (m, es') \<Rightarrow> heap_inv es' \<and> mset es = add_mset m (mset es') \<and> (\<forall>x\<in>set es. due_ms m \<le> due_ms x))"
  using timer_heap.push_inv[OF assms, of e] timer_heap.pop_None[OF assms] timer_heap.pop_Some[OF assms]
  by (auto split: option.splits)

theorem timer_heap_pop_min_witness:
  "heap_inv (sw_timer_heap_push (sw_timer_heap_push [] \<lparr>due_ms = 2, connection_handle = 1, generation = 1\<rparr>)
     \<lparr>due_ms = 1, connection_handle = 2, generation = 1\<rparr>)"
  using timer_heap_pop_min[of "sw_timer_heap_push [] \<lparr>due_ms = 2, connection_handle = 1, generation = 1\<rparr>"
      "\<lparr>due_ms = 1, connection_handle = 2, generation = 1\<rparr>"]
    heap_push_inv[OF heap_Nil] by blast

end
