(* ===== verification/Connection.thy ===== *)
theory Connection
  imports Request Complex_Main
begin

text \<open>
  The connection object of \<^verbatim>\<open>src/sw_internal.h\<close> and the operations of \<^verbatim>\<open>src/sw_server.c\<close> that only read
  it or change its own fields. The byte buffers are their contents (\<open>CharArray\<close> refines them).
  The manager's configuration is an argument where the code follows \<^verbatim>\<open>connection->mgr\<close>. Pointers
  the code only passes on (listener, user data) are numbers. Times are real milliseconds. The
  build without TLS is modelled, in which \<^verbatim>\<open>secure\<close> is the listener's flag.
\<close>

text \<open>A socket on its way from the thread that accepts to the worker that serves it.\<close>

record sw_pending_connection =
  pc_fd :: int
  pc_listener :: nat
  pc_remote_ip :: string
  pc_remote_port :: nat
  pc_counted :: bool

record sw_connection =
  c_fd :: int
  c_listener :: nat
  c_user_data :: nat
  c_has_handler :: bool
  c_read_buffer :: string
  c_write_buffer :: string
  c_response_headers :: "sw_http_header list"
  c_request :: sw_http_message
  c_request_ready :: bool
  c_request_dispatched :: bool
  c_request_started :: bool
  c_headers_complete :: bool
  c_response_started :: bool
  c_close_after_write :: bool
  c_must_close :: bool
  c_write_shutdown :: bool
  c_counted :: bool
  c_file_stream :: "nat option"
  c_file_remaining :: nat
  c_parsed_request_bytes :: nat
  c_handled_requests :: nat
  c_timer_generation :: nat
  c_opened_at_ms :: real
  c_phase_started_at_ms :: real
  c_last_activity_at_ms :: real
  c_remote_ip :: string
  c_remote_port :: nat
  c_secure :: bool
  c_alpn :: string

text \<open>The object \<^verbatim>\<open>sw_connection_create\<close> fills before it registers it.\<close>

definition new_connection ::
  "int \<Rightarrow> nat \<Rightarrow> bool \<Rightarrow> bool \<Rightarrow> cptr \<Rightarrow> nat \<Rightarrow> bool \<Rightarrow> real \<Rightarrow> sw_connection" where
  "new_connection fd listener has_handler tls_enabled remote_ip remote_port counted now = \<lparr>
     c_fd = fd, c_listener = listener, c_user_data = 0, c_has_handler = has_handler,
     c_read_buffer = [], c_write_buffer = [], c_response_headers = [], c_request = empty_message,
     c_request_ready = False, c_request_dispatched = False, c_request_started = False,
     c_headers_complete = False, c_response_started = False, c_close_after_write = False,
     c_must_close = False, c_write_shutdown = False, c_counted = counted,
     c_file_stream = None, c_file_remaining = 0, c_parsed_request_bytes = 0,
     c_handled_requests = 0, c_timer_generation = 0,
     c_opened_at_ms = now, c_phase_started_at_ms = now, c_last_activity_at_ms = now,
     c_remote_ip = (case remote_ip of None \<Rightarrow> [] | Some ip \<Rightarrow> take 63 (cstr ip)),
     c_remote_port = remote_port, c_secure = tls_enabled, c_alpn = []\<rparr>"

section \<open>Accessors\<close>

definition sw_connection_remote_ip :: "sw_connection option \<Rightarrow> string" where
  "sw_connection_remote_ip connection =
     (case connection of None \<Rightarrow> [] | Some c \<Rightarrow> (if c_remote_ip c = [] then [] else c_remote_ip c))"

definition sw_connection_remote_port :: "sw_connection option \<Rightarrow> nat" where
  "sw_connection_remote_port connection = (case connection of None \<Rightarrow> 0 | Some c \<Rightarrow> c_remote_port c)"

definition sw_connection_is_secure :: "sw_connection option \<Rightarrow> bool" where
  "sw_connection_is_secure connection = (case connection of None \<Rightarrow> False | Some c \<Rightarrow> c_secure c)"

definition sw_connection_alpn :: "sw_connection option \<Rightarrow> string" where
  "sw_connection_alpn connection = (case connection of None \<Rightarrow> [] | Some c \<Rightarrow> c_alpn c)"

definition sw_connection_user_data :: "sw_connection option \<Rightarrow> nat" where
  "sw_connection_user_data connection = (case connection of None \<Rightarrow> 0 | Some c \<Rightarrow> c_user_data c)"

definition sw_connection_set_user_data :: "sw_connection option \<Rightarrow> nat \<Rightarrow> sw_connection option" where
  "sw_connection_set_user_data connection user_data =
     map_option (\<lambda>c. c\<lparr>c_user_data := user_data\<rparr>) connection"

definition sw_connection_clear_response_headers :: "sw_connection \<Rightarrow> sw_connection" where
  "sw_connection_clear_response_headers c = c\<lparr>c_response_headers := []\<rparr>"

definition sw_connection_has_pending_output :: "sw_connection \<Rightarrow> bool" where
  "sw_connection_has_pending_output c \<longleftrightarrow> length (c_write_buffer c) > 0 \<or> c_file_stream c \<noteq> None"

definition sw_connection_wants_read :: "sw_connection \<Rightarrow> bool" where
  "sw_connection_wants_read c = True"

definition sw_connection_wants_write :: "sw_connection \<Rightarrow> bool" where
  "sw_connection_wants_write c = sw_connection_has_pending_output c"

section \<open>Keep-alive\<close>

definition sw_request_allows_keep_alive :: "sw_server_config \<Rightarrow> sw_connection \<Rightarrow> bool" where
  "sw_request_allows_keep_alive cfg c =
     (if c_must_close c \<or> c_write_shutdown c then False
      else if keep_alive_max_requests cfg > 0 \<and> c_handled_requests c + 1 \<ge> keep_alive_max_requests cfg
        then False
      else
        let request = c_request c;
            connection_header = sw_http_header_get (Some request) (Some ''Connection'') in
        if hm_proto request \<noteq> None \<and> sw_stricmp_ascii (hm_proto request) (Some ''HTTP/1.0'') = 0
        then connection_header \<noteq> None \<and> sw_strcasestr_ascii connection_header (Some ''keep-alive'') \<noteq> None
        else if connection_header \<noteq> None \<and> sw_strcasestr_ascii connection_header (Some ''close'') \<noteq> None
        then False
        else True)"

definition sw_connection_prepare_response :: "sw_server_config \<Rightarrow> sw_connection \<Rightarrow> sw_connection" where
  "sw_connection_prepare_response cfg c =
     c\<lparr>c_response_started := True, c_close_after_write := \<not> sw_request_allows_keep_alive cfg c\<rparr>"

section \<open>Timeouts\<close>

text \<open>
  When the connection is due: while the write side is shut down only the idle timeout counts;
  otherwise the earliest of the write, the phase and the idle timeout.
\<close>

definition sooner :: "real option \<Rightarrow> real \<Rightarrow> real option" where
  "sooner due t = (case due of None \<Rightarrow> Some t | Some d \<Rightarrow> Some (if t < d then t else d))"

definition sw_connection_timeout_due_ms :: "sw_server_config \<Rightarrow> sw_connection \<Rightarrow> real option" where
  "sw_connection_timeout_due_ms cfg c =
     (if c_write_shutdown c then
        (if idle_timeout_ms cfg > 0 then Some (c_last_activity_at_ms c + of_int (idle_timeout_ms cfg)) else None)
      else
        let due = None;
            due = (if sw_connection_has_pending_output c \<and> write_timeout_ms cfg > 0
              then sooner due (c_last_activity_at_ms c + of_int (write_timeout_ms cfg)) else due);
            phase_timeout_ms = (if c_headers_complete c then body_timeout_ms cfg else header_timeout_ms cfg);
            due = (if c_request_started c \<and> \<not> c_request_ready c \<and> phase_timeout_ms > 0
              then sooner due (c_phase_started_at_ms c + of_int phase_timeout_ms) else due)
        in if idle_timeout_ms cfg > 0
           then sooner due (c_last_activity_at_ms c + of_int (idle_timeout_ms cfg)) else due)"

text \<open>The reset of the request state after a response (its timer part is the manager's).\<close>

definition reset_request_fields :: "real \<Rightarrow> sw_connection \<Rightarrow> sw_connection" where
  "reset_request_fields now c = c\<lparr>
     c_request := empty_message, c_request_ready := False, c_request_dispatched := False,
     c_request_started := False, c_headers_complete := False, c_response_started := False,
     c_must_close := False, c_parsed_request_bytes := 0, c_phase_started_at_ms := now\<rparr>"

section \<open>Properties\<close>

text \<open>
  Keep-alive is decided as HTTP asks: a connection marked for closing, half closed, or at its
  configured number of requests is never kept; otherwise HTTP/1.0 needs an explicit
  \<^verbatim>\<open>keep-alive\<close>, and every other protocol needs the absence of \<^verbatim>\<open>close\<close>.
\<close>

theorem keep_alive_correct:
  "sw_request_allows_keep_alive cfg c \<longleftrightarrow>
     \<not> c_must_close c \<and> \<not> c_write_shutdown c \<and>
     (keep_alive_max_requests cfg = 0 \<or> c_handled_requests c + 1 < keep_alive_max_requests cfg) \<and>
     (let h = header_lookup (hm_headers (c_request c)) ''Connection'' in
      if \<exists>p. hm_proto (c_request c) = Some p \<and> ieq p ''HTTP/1.0''
      then \<exists>v. h = Some v \<and> occurs_in False ''keep-alive'' (cstr v)
      else \<not> (\<exists>v. h = Some v \<and> occurs_in False ''close'' (cstr v)))"
proof -
  have found: "sw_strcasestr_ascii h (Some n) \<noteq> None \<longleftrightarrow> (\<exists>v. h = Some v \<and> occurs_in False (cstr n) (cstr v))"
    for h n
    by (cases h) (use strcasestr_found in \<open>auto simp: sw_strcasestr_ascii_def\<close>)
  have proto: "(hm_proto m \<noteq> None \<and> sw_stricmp_ascii (hm_proto m) (Some n) = 0) \<longleftrightarrow>
      (\<exists>p. hm_proto m = Some p \<and> ieq p n)" for m :: sw_http_message and n
    by (cases "hm_proto m") auto
  show ?thesis
    unfolding sw_request_allows_keep_alive_def Let_def found proto
    by (auto simp: sw_http_header_get_def not_le)
qed

definition earliest :: "real set \<Rightarrow> real option" where
  "earliest S = (if S = {} then None else Some (Min S))"

lemma earliest_sooner: "finite S \<Longrightarrow> sooner (earliest S) t = earliest (S \<union> {t})"
  by (cases "S = {}") (simp add: earliest_def sooner_def,
      simp add: earliest_def sooner_def Min_insert min_def order_le_less)

definition deadlines :: "sw_server_config \<Rightarrow> sw_connection \<Rightarrow> real set" where
  "deadlines cfg c =
     (if idle_timeout_ms cfg > 0 then {c_last_activity_at_ms c + of_int (idle_timeout_ms cfg)} else {}) \<union>
     (if c_write_shutdown c then {} else
       (if sw_connection_has_pending_output c \<and> write_timeout_ms cfg > 0
        then {c_last_activity_at_ms c + of_int (write_timeout_ms cfg)} else {}) \<union>
       (let t = (if c_headers_complete c then body_timeout_ms cfg else header_timeout_ms cfg) in
        if c_request_started c \<and> \<not> c_request_ready c \<and> t > 0
        then {c_phase_started_at_ms c + of_int t} else {}))"

text \<open>
  A connection is due at the earliest of the deadlines that apply to it - idle always, write
  while output is pending, header or body while a request is being read - and has no timeout
  exactly when none applies; once its write side is shut down only the idle deadline counts.
\<close>

theorem timeout_is_earliest_deadline:
  "sw_connection_timeout_due_ms cfg c = earliest (deadlines cfg c)"
proof -
  have none: "None = earliest {}" by (simp add: earliest_def)
  have step: "(if P then sooner (earliest S) t else earliest S) = earliest (S \<union> (if P then {t} else {}))"
    if "finite S" for P S t
    using earliest_sooner[OF that] by simp
  show ?thesis
    unfolding sw_connection_timeout_due_ms_def Let_def none
    by (subst step, simp)+ (auto simp: deadlines_def Let_def earliest_def Un_ac)
qed

end
