(* ===== verification/Response.thy ===== *)
theory Response
  imports Connection RequestSpec
begin

text \<open>
  The response writer of \<^verbatim>\<open>src/sw_server.c\<close>: the validity checks on cookies and headers, the queue of
  response headers, the bounded write buffer, and the head of a response. The operations act on
  one connection and the manager's configuration; what they schedule is in \<open>Manager\<close>.
\<close>

section \<open>Cookies and header names\<close>

datatype sw_cookie_same_site =
    SW_COOKIE_SAMESITE_UNSET
  | SW_COOKIE_SAMESITE_LAX
  | SW_COOKIE_SAMESITE_STRICT
  | SW_COOKIE_SAMESITE_NONE

record sw_http_cookie =
  ck_path :: cptr
  ck_domain :: cptr
  ck_expires :: cptr
  ck_max_age :: int
  ck_http_only :: bool
  ck_secure :: bool
  ck_secure_auto :: bool
  ck_same_site :: sw_cookie_same_site

definition sw_http_cookie_default :: sw_http_cookie where
  "sw_http_cookie_default = \<lparr>
     ck_path = Some ''/'', ck_domain = None, ck_expires = None, ck_max_age = -1,
     ck_http_only = True, ck_secure = False, ck_secure_auto = True,
     ck_same_site = SW_COOKIE_SAMESITE_LAX\<rparr>"

definition cookie_name_char :: "char \<Rightarrow> bool" where
  "cookie_name_char ch \<longleftrightarrow> isalnum ch \<or>
     ch \<in> set [CHR ''!'', CHR ''#'', CHR ''$'', CHR ''%'', CHR ''&'', SQ, CHR ''*'', CHR ''+'',
       CHR ''-'', CHR ''.'', CHR ''^'', CHR ''_'', CHR 0x60, CHR ''|'', CHR ''~'']"

definition sw_cookie_name_is_valid :: "cptr \<Rightarrow> bool" where
  "sw_cookie_name_is_valid name =
     (case name of None \<Rightarrow> False | Some n \<Rightarrow> cstr n \<noteq> [] \<and> list_all cookie_name_char (cstr n))"

definition cookie_value_char :: "char \<Rightarrow> bool" where
  "cookie_value_char ch \<longleftrightarrow> \<not> (byte ch < 0x21 \<or> byte ch > 0x7e \<or> ch = DQ \<or> ch = CHR '','' \<or>
     ch = CHR '';'' \<or> ch = BSL)"

definition sw_cookie_value_is_valid :: "cptr \<Rightarrow> bool" where
  "sw_cookie_value_is_valid value =
     (case value of None \<Rightarrow> False
      | Some v \<Rightarrow> list_all cookie_value_char (cstr v))"

definition sw_cookie_attr_is_valid :: "cptr \<Rightarrow> bool" where
  "sw_cookie_attr_is_valid value =
     (case value of None \<Rightarrow> True
      | Some v \<Rightarrow> list_all (\<lambda>ch. \<not> (byte ch < 0x20 \<or> byte ch = 0x7f \<or> ch = CHR '';'' \<or>
          ch = CR \<or> ch = LF)) (cstr v))"

definition sw_cookie_same_site_name :: "sw_cookie_same_site \<Rightarrow> cptr" where
  "sw_cookie_same_site_name same_site =
     (case same_site of
        SW_COOKIE_SAMESITE_LAX \<Rightarrow> Some ''Lax''
      | SW_COOKIE_SAMESITE_STRICT \<Rightarrow> Some ''Strict''
      | SW_COOKIE_SAMESITE_NONE \<Rightarrow> Some ''None''
      | SW_COOKIE_SAMESITE_UNSET \<Rightarrow> None)"

text \<open>The digits \<^verbatim>\<open>%d\<close> and \<^verbatim>\<open>%lld\<close> print.\<close>

definition int_dec :: "int \<Rightarrow> string" where
  "int_dec i = (if i < 0 then ''-'' @ dec_of (nat (- i)) else dec_of (nat i))"

text \<open>
  The options a cookie ends with, appended one after another; None is the return of 0 at an
  invalid attribute or at a \<^verbatim>\<open>Max-Age\<close> that does not fit its line of 64 bytes.
\<close>

definition append_attr :: "string \<Rightarrow> cptr \<Rightarrow> string \<Rightarrow> string option" where
  "append_attr prefix attr out =
     (case attr of None \<Rightarrow> Some out
      | Some a \<Rightarrow> if \<not> sw_cookie_attr_is_valid attr then None else Some (out @ prefix @ cstr a))"

definition sw_cookie_append_options :: "string \<Rightarrow> sw_connection \<Rightarrow> sw_http_cookie \<Rightarrow> string option" where
  "sw_cookie_append_options out connection opts =
     (let secure = (ck_secure opts \<or> (ck_secure_auto opts \<and> sw_connection_is_secure (Some connection)));
          line = ''; Max-Age='' @ int_dec (ck_max_age opts)
      in if ck_max_age opts \<ge> 0 \<and> length line \<ge> 64 then None
      else let out = (if ck_max_age opts \<ge> 0 then out @ line else out) in
      case append_attr ''; Expires='' (ck_expires opts) out of None \<Rightarrow> None
      | Some out \<Rightarrow> (case append_attr ''; Domain='' (ck_domain opts) out of None \<Rightarrow> None
      | Some out \<Rightarrow> (case append_attr ''; Path='' (ck_path opts) out of None \<Rightarrow> None
      | Some out \<Rightarrow>
          let out = (if secure then out @ ''; Secure'' else out);
              out = (if ck_http_only opts then out @ ''; HttpOnly'' else out)
          in (case sw_cookie_same_site_name (ck_same_site opts) of
                None \<Rightarrow> Some out
              | Some name \<Rightarrow> Some (out @ ''; SameSite='' @ name)))))"

definition header_name_char :: "char \<Rightarrow> bool" where
  "header_name_char ch \<longleftrightarrow> \<not> (byte ch \<le> 32 \<or> byte ch \<ge> 127 \<or>
     ch \<in> set (''()<>@,;:'' @ [BSL, DQ] @ ''/[]?={}''))"

definition sw_http_header_name_is_valid :: "cptr \<Rightarrow> bool" where
  "sw_http_header_name_is_valid name =
     (case name of None \<Rightarrow> False
      | Some n \<Rightarrow> cstr n \<noteq> [] \<and> list_all header_name_char (cstr n))"

definition sw_http_header_value_is_valid :: "cptr \<Rightarrow> bool" where
  "sw_http_header_value_is_valid value =
     (case value of None \<Rightarrow> False
      | Some v \<Rightarrow> list_all (\<lambda>ch. \<not> (ch = CR \<or> ch = LF \<or> (byte ch < 32 \<and> ch \<noteq> TAB) \<or> byte ch = 127)) (cstr v))"

section \<open>Queueing headers and cookies\<close>

definition sw_http_queue_header :: "sw_connection option \<Rightarrow> cptr \<Rightarrow> cptr \<Rightarrow> int \<times> sw_connection option" where
  "sw_http_queue_header connection name value =
     (case connection of None \<Rightarrow> (-1, None)
      | Some c \<Rightarrow>
          if \<not> sw_http_header_name_is_valid name \<or> \<not> sw_http_header_value_is_valid value then (-1, Some c)
          else if length (c_write_buffer c) > 0 \<or> c_file_stream c \<noteq> None then (-1, Some c)
          else (0, Some (c\<lparr>c_response_headers := c_response_headers c @
            [\<lparr>hd_name = sw_strdup_cstr name, hd_value = sw_strdup_cstr value\<rparr>]\<rparr>)))"

definition sw_http_set_header :: "sw_connection option \<Rightarrow> cptr \<Rightarrow> cptr \<Rightarrow> int \<times> sw_connection option" where
  "sw_http_set_header connection name value = sw_http_queue_header connection name value"

definition sw_http_set_cookie_with_options ::
  "sw_connection option \<Rightarrow> cptr \<Rightarrow> cptr \<Rightarrow> sw_http_cookie option \<Rightarrow> int \<times> sw_connection option" where
  "sw_http_set_cookie_with_options connection name value options =
     (case connection of None \<Rightarrow> (-1, None)
      | Some c \<Rightarrow>
          if \<not> sw_cookie_name_is_valid name \<or> \<not> sw_cookie_value_is_valid value then (-1, Some c)
          else
            let effective = (case options of Some o' \<Rightarrow> o' | None \<Rightarrow> sw_http_cookie_default) in
            case sw_cookie_append_options (cstr (the name) @ ''='' @ cstr (the value)) c effective of
              None \<Rightarrow> (-1, Some c)
            | Some cookie \<Rightarrow> sw_http_queue_header (Some c) (Some ''Set-Cookie'') (sw_strdup_cstr (Some cookie)))"

definition sw_http_set_cookie ::
  "sw_connection option \<Rightarrow> cptr \<Rightarrow> cptr \<Rightarrow> sw_http_cookie option \<Rightarrow> int \<times> sw_connection option" where
  "sw_http_set_cookie connection name value options =
     sw_http_set_cookie_with_options connection name (if value \<noteq> None then value else Some '''') options"

definition sw_http_clear_cookie ::
  "sw_connection option \<Rightarrow> cptr \<Rightarrow> sw_http_cookie option \<Rightarrow> int \<times> sw_connection option" where
  "sw_http_clear_cookie connection name options =
     (let effective = (case options of Some o' \<Rightarrow> o' | None \<Rightarrow> sw_http_cookie_default);
          effective = effective\<lparr>ck_max_age := 0\<rparr>;
          effective = (if ck_expires effective = None
            then effective\<lparr>ck_expires := Some ''Thu, 01 Jan 1970 00:00:00 GMT''\<rparr> else effective)
      in sw_http_set_cookie_with_options connection name (Some '''') (Some effective))"

section \<open>The write buffer\<close>

definition sw_connection_can_append_output :: "sw_server_config \<Rightarrow> sw_connection \<Rightarrow> nat \<Rightarrow> bool" where
  "sw_connection_can_append_output cfg c add_len =
     (let current = length (c_write_buffer c); max_size = max_write_buffer_bytes cfg in
      if max_size = 0 then True
      else if add_len > SIZE_MAX - current then False
      else current + add_len \<le> max_size)"

definition sw_connection_append_output :: "sw_server_config \<Rightarrow> sw_connection \<Rightarrow> string \<Rightarrow> bool \<times> sw_connection" where
  "sw_connection_append_output cfg c data =
     (if length data = 0 then (True, c)
      else if \<not> sw_connection_can_append_output cfg c (length data) then (False, c)
      else (True, c\<lparr>c_write_buffer := c_write_buffer c @ data\<rparr>))"

definition sw_connection_append_output_cstr :: "sw_server_config \<Rightarrow> sw_connection \<Rightarrow> cptr \<Rightarrow> bool \<times> sw_connection" where
  "sw_connection_append_output_cstr cfg c txt =
     (case txt of None \<Rightarrow> (True, c) | Some t \<Rightarrow> sw_connection_append_output cfg c (cstr t))"

text \<open>A chain of appends that stops at the first failure (the \<^verbatim>\<open>||\<close> chains of the code).\<close>

fun append_parts :: "sw_server_config \<Rightarrow> sw_connection \<Rightarrow> string list \<Rightarrow> bool \<times> sw_connection" where
  "append_parts cfg c [] = (True, c)"
| "append_parts cfg c (p # ps) =
     (case sw_connection_append_output cfg c p of
        (False, c') \<Rightarrow> (False, c')
      | (True, c') \<Rightarrow> append_parts cfg c' ps)"

section \<open>The head of a response\<close>

definition sw_http_status_text :: "int \<Rightarrow> string" where
  "sw_http_status_text status_code =
     (if status_code = 200 then ''OK''
      else if status_code = 201 then ''Created''
      else if status_code = 204 then ''No Content''
      else if status_code = 301 then ''Moved Permanently''
      else if status_code = 302 then ''Found''
      else if status_code = 303 then ''See Other''
      else if status_code = 307 then ''Temporary Redirect''
      else if status_code = 308 then ''Permanent Redirect''
      else if status_code = 400 then ''Bad Request''
      else if status_code = 408 then ''Request Timeout''
      else if status_code = 401 then ''Unauthorized''
      else if status_code = 403 then ''Forbidden''
      else if status_code = 404 then ''Not Found''
      else if status_code = 405 then ''Method Not Allowed''
      else if status_code = 411 then ''Length Required''
      else if status_code = 413 then ''Payload Too Large''
      else if status_code = 431 then ''Request Header Fields Too Large''
      else if status_code = 500 then ''Internal Server Error''
      else if status_code = 501 then ''Not Implemented''
      else if status_code = 503 then ''Service Unavailable''
      else ''Unknown'')"

definition status_line :: "int \<Rightarrow> string" where
  "status_line status_code = ''HTTP/1.1 '' @ int_dec status_code @ '' '' @ sw_http_status_text status_code @ crlf"

definition cstr_of :: "cptr \<Rightarrow> string" where
  "cstr_of p = (case p of None \<Rightarrow> [] | Some s \<Rightarrow> cstr s)"

definition header_parts :: "sw_http_header list \<Rightarrow> string list" where
  "header_parts hs = concat (map (\<lambda>h. [cstr_of (hd_name h), '': '', cstr_of (hd_value h), crlf]) hs)"

definition keep_alive_lines :: "sw_server_config \<Rightarrow> string" where
  "keep_alive_lines cfg =
     ''Connection: keep-alive'' @ crlf @ ''Keep-Alive: timeout='' @ int_dec (idle_timeout_ms cfg div 1000) @
     '', max='' @ dec_of (keep_alive_max_requests cfg) @ crlf2"

definition sw_connection_begin_response ::
  "sw_server_config \<Rightarrow> sw_connection \<Rightarrow> int \<Rightarrow> cptr \<Rightarrow> nat \<Rightarrow> int \<times> sw_connection" where
  "sw_connection_begin_response cfg c status_code content_type content_length =
     (let c = sw_connection_prepare_response cfg (c\<lparr>c_write_buffer := []\<rparr>);
          fail = (\<lambda>c. (-1, sw_connection_clear_response_headers c))
      in if length (status_line status_code) \<ge> 128 then fail c
      else case append_parts cfg c [status_line status_code, ''Content-Type: '',
          (case content_type of Some ct \<Rightarrow> cstr ct | None \<Rightarrow> ''text/plain; charset=utf-8''), crlf] of
        (False, c) \<Rightarrow> fail c
      | (True, c) \<Rightarrow>
          let line = ''Content-Length: '' @ dec_of content_length @ crlf in
          if length line \<ge> 128 then fail c
          else (case sw_connection_append_output cfg c line of
            (False, c) \<Rightarrow> fail c
          | (True, c) \<Rightarrow>
              (case append_parts cfg c (header_parts (c_response_headers c)) of
                 (False, c) \<Rightarrow> fail c
               | (True, c) \<Rightarrow>
                   let c = sw_connection_clear_response_headers c in
                   if c_close_after_write c then
                     (let (ok, c) = sw_connection_append_output_cstr cfg c (Some (''Connection: close'' @ crlf2))
                      in (if ok then 0 else -1, c))
                   else if idle_timeout_ms cfg > 0 then
                     (if length (keep_alive_lines cfg) \<ge> 128 then (-1, c)
                      else let (ok, c) = sw_connection_append_output cfg c (keep_alive_lines cfg)
                           in (if ok then 0 else -1, c))
                   else
                     (let (ok, c) = sw_connection_append_output_cstr cfg c (Some (''Connection: keep-alive'' @ crlf2))
                      in (if ok then 0 else -1, c)))))"

section \<open>What a chain of appends writes\<close>

lemma append_output_True:
  "sw_connection_append_output cfg c d = (True, c') \<Longrightarrow> c' = c\<lparr>c_write_buffer := c_write_buffer c @ d\<rparr>"
  by (auto simp: sw_connection_append_output_def split: if_splits)

lemma append_output_cases:
  "snd (sw_connection_append_output cfg c d) = c \<or>
   snd (sw_connection_append_output cfg c d) = c\<lparr>c_write_buffer := c_write_buffer c @ d\<rparr>"
  by (simp add: sw_connection_append_output_def)

lemma append_parts_True:
  "append_parts cfg c ps = (True, c') \<Longrightarrow> c' = c\<lparr>c_write_buffer := c_write_buffer c @ concat ps\<rparr>"
proof (induction ps arbitrary: c)
  case (Cons p ps)
  then obtain c1 where c1: "sw_connection_append_output cfg c p = (True, c1)" "append_parts cfg c1 ps = (True, c')"
    by (auto split: prod.splits bool.splits)
  from Cons.IH[OF c1(2)] append_output_True[OF c1(1)] show ?case by simp
qed simp

definition fits :: "sw_server_config \<Rightarrow> nat \<Rightarrow> bool" where
  "fits cfg n \<longleftrightarrow> max_write_buffer_bytes cfg = 0 \<or> (n \<le> max_write_buffer_bytes cfg \<and> n \<le> SIZE_MAX)"

lemma append_output_fits:
  "fits cfg (length (c_write_buffer c) + length d) \<Longrightarrow>
   sw_connection_append_output cfg c d = (True, c\<lparr>c_write_buffer := c_write_buffer c @ d\<rparr>)"
  by (auto simp: sw_connection_append_output_def sw_connection_can_append_output_def fits_def Let_def)

lemma fits_mono: "fits cfg n \<Longrightarrow> m \<le> n \<Longrightarrow> fits cfg m"
  by (auto simp: fits_def)

lemma append_parts_fits:
  "fits cfg (length (c_write_buffer c) + length (concat ps)) \<Longrightarrow>
   append_parts cfg c ps = (True, c\<lparr>c_write_buffer := c_write_buffer c @ concat ps\<rparr>)"
proof (induction ps arbitrary: c)
  case (Cons p ps)
  have "fits cfg (length (c_write_buffer c) + length p)" using Cons.prems by (rule fits_mono) simp
  then show ?case using Cons.IH[of "c\<lparr>c_write_buffer := c_write_buffer c @ p\<rparr>"] Cons.prems
    by (simp add: append_output_fits add.assoc)
qed simp

text \<open>The write buffer never grows beyond its limit by an append.\<close>

definition output_bounded :: "sw_server_config \<Rightarrow> sw_connection \<Rightarrow> bool" where
  "output_bounded cfg c \<longleftrightarrow> max_write_buffer_bytes cfg = 0 \<or> length (c_write_buffer c) \<le> max_write_buffer_bytes cfg"

lemma append_output_bounded:
  "output_bounded cfg c \<Longrightarrow> output_bounded cfg (snd (sw_connection_append_output cfg c d))"
  by (auto simp: sw_connection_append_output_def sw_connection_can_append_output_def output_bounded_def Let_def)

lemma append_parts_bounded: "output_bounded cfg c \<Longrightarrow> output_bounded cfg (snd (append_parts cfg c ps))"
proof (induction ps arbitrary: c)
  case (Cons p ps)
  from append_output_bounded[OF Cons.prems, of p] Cons.IH show ?case
    by (cases "sw_connection_append_output cfg c p") (auto split: bool.splits)
qed simp

section \<open>The lines of a response\<close>

definition connection_lines :: "sw_server_config \<Rightarrow> sw_connection \<Rightarrow> string list" where
  "connection_lines cfg c =
     (if \<not> sw_request_allows_keep_alive cfg c then [''Connection: close'']
      else if idle_timeout_ms cfg > 0 then
        [''Connection: keep-alive'', ''Keep-Alive: timeout='' @ int_dec (idle_timeout_ms cfg div 1000) @
          '', max='' @ dec_of (keep_alive_max_requests cfg)]
      else [''Connection: keep-alive''])"

definition response_lines :: "sw_server_config \<Rightarrow> sw_connection \<Rightarrow> int \<Rightarrow> cptr \<Rightarrow> nat \<Rightarrow> string list" where
  "response_lines cfg c status_code content_type content_length =
     [''HTTP/1.1 '' @ int_dec status_code @ '' '' @ sw_http_status_text status_code,
      ''Content-Type: '' @ (case content_type of Some ct \<Rightarrow> cstr ct | None \<Rightarrow> ''text/plain; charset=utf-8''),
      ''Content-Length: '' @ dec_of content_length] @
     map (\<lambda>h. cstr_of (hd_name h) @ '': '' @ cstr_of (hd_value h)) (c_response_headers c) @
     connection_lines cfg c"

lemma concat_header_parts:
  "concat (header_parts hs) = join_lines (map (\<lambda>h. cstr_of (hd_name h) @ '': '' @ cstr_of (hd_value h)) hs)"
  by (induction hs) (simp_all add: header_parts_def)

lemma join_lines_append: "join_lines (xs @ ys) = join_lines xs @ join_lines ys"
  by (simp add: join_lines_def)

lemma allows_keep_alive_upd [simp]:
  "sw_request_allows_keep_alive cfg (c\<lparr>c_write_buffer := b\<rparr>) = sw_request_allows_keep_alive cfg c"
  "sw_request_allows_keep_alive cfg (c\<lparr>c_response_headers := hs\<rparr>) = sw_request_allows_keep_alive cfg c"
  "sw_request_allows_keep_alive cfg (c\<lparr>c_response_started := r\<rparr>) = sw_request_allows_keep_alive cfg c"
  "sw_request_allows_keep_alive cfg (c\<lparr>c_close_after_write := r\<rparr>) = sw_request_allows_keep_alive cfg c"
  by (simp_all add: sw_request_allows_keep_alive_def)

definition response_done :: "sw_server_config \<Rightarrow> sw_connection \<Rightarrow> string \<Rightarrow> sw_connection" where
  "response_done cfg c out = c\<lparr>c_response_started := True,
     c_close_after_write := \<not> sw_request_allows_keep_alive cfg c,
     c_write_buffer := out, c_response_headers := []\<rparr>"

lemma begin_response_ok:
  assumes "sw_connection_begin_response cfg c st ct n = (0, c')"
  shows "c' = response_done cfg c (join_lines (response_lines cfg c st ct n) @ crlf)"
proof -
  let ?ct = "case ct of Some ct \<Rightarrow> cstr ct | None \<Rightarrow> ''text/plain; charset=utf-8''"
  let ?c0 = "sw_connection_prepare_response cfg (c\<lparr>c_write_buffer := []\<rparr>)"
  let ?line = "''Content-Length: '' @ dec_of n @ crlf"
  note bd = sw_connection_begin_response_def Let_def
  obtain c1 where c1: "append_parts cfg ?c0 [status_line st, ''Content-Type: '', ?ct, crlf] = (True, c1)"
    using assms unfolding bd by (auto split: if_splits prod.splits bool.splits)
  obtain c2 where c2: "sw_connection_append_output cfg c1 ?line = (True, c2)"
    using assms unfolding bd c1 by (auto split: if_splits prod.splits bool.splits)
  obtain c3 where c3: "append_parts cfg c2 (header_parts (c_response_headers c2)) = (True, c3)"
    using assms unfolding bd c1 c2 prod.case bool.case by (auto split: if_splits prod.splits bool.splits)
  have e3: "c3 = c\<lparr>c_response_started := True, c_close_after_write := \<not> sw_request_allows_keep_alive cfg c,
      c_write_buffer := status_line st @ ''Content-Type: '' @ ?ct @ crlf @ ?line @
        join_lines (map (\<lambda>h. cstr_of (hd_name h) @ '': '' @ cstr_of (hd_value h)) (c_response_headers c))\<rparr>"
    using append_parts_True[OF c1] append_output_True[OF c2] append_parts_True[OF c3]
    by (simp add: concat_header_parts sw_connection_prepare_response_def)
  show ?thesis
    using assms unfolding bd c1 c2 c3 prod.case bool.case
    by (auto simp: e3 response_done_def response_lines_def connection_lines_def join_lines_append
        sw_connection_clear_response_headers_def sw_connection_append_output_cstr_def status_line_def
        keep_alive_lines_def split: if_splits prod.splits dest!: append_output_True)
qed

text \<open>The three formatted lines fit their buffers of 128 bytes, so no head is lost to them.\<close>

lemma length_int_dec:
  assumes "- 2147483648 \<le> i" and "i \<le> 2147483647"
  shows "length (int_dec i) \<le> 11"
proof -
  have "length (dec_of k) \<le> 10" if "k \<le> 2147483648" for k
    by (rule length_dec_of) (use that in simp_all)
  then have "length (dec_of (nat i)) \<le> 10" "length (dec_of (nat (- i))) \<le> 10" using assms by simp_all
  then show ?thesis by (simp add: int_dec_def)
qed

lemma length_status_line:
  assumes "- 2147483648 \<le> st" and "st \<le> 2147483647"
  shows "length (status_line st) < 128"
proof -
  have "length (sw_http_status_text st) \<le> 31" unfolding sw_http_status_text_def by simp
  with length_int_dec[OF assms] show ?thesis by (simp add: status_line_def)
qed

lemma length_keep_alive_lines:
  assumes "idle_timeout_ms cfg \<le> 2147483647" and "0 < idle_timeout_ms cfg" and "keep_alive_max_requests cfg \<le> SIZE_MAX"
  shows "length (keep_alive_lines cfg) < 128"
proof -
  have "idle_timeout_ms cfg div 1000 \<le> 2147483647" "0 \<le> idle_timeout_ms cfg div 1000"
    using assms(1,2) by (simp_all add: pos_imp_zdiv_nonneg_iff)
  then have "length (int_dec (idle_timeout_ms cfg div 1000)) \<le> 11" by (intro length_int_dec) simp_all
  with length_dec_of_size_max[OF assms(3)] show ?thesis by (simp add: keep_alive_lines_def)
qed

definition config_ranges :: "sw_server_config \<Rightarrow> bool" where
  "config_ranges cfg \<longleftrightarrow> idle_timeout_ms cfg \<le> 2147483647 \<and> keep_alive_max_requests cfg \<le> SIZE_MAX"

lemma begin_response_fits:
  assumes "fits cfg (length (join_lines (response_lines cfg c st ct n) @ crlf))"
    and "- 2147483648 \<le> st" and "st \<le> 2147483647" and "n \<le> SIZE_MAX" and "config_ranges cfg"
  shows "sw_connection_begin_response cfg c st ct n =
    (0, response_done cfg c (join_lines (response_lines cfg c st ct n) @ crlf))"
proof -
  let ?ct = "case ct of Some ct \<Rightarrow> cstr ct | None \<Rightarrow> ''text/plain; charset=utf-8''"
  let ?c0 = "sw_connection_prepare_response cfg (c\<lparr>c_write_buffer := []\<rparr>)"
  let ?line = "''Content-Length: '' @ dec_of n @ crlf"
  let ?p1 = "[status_line st, ''Content-Type: '', ?ct, crlf]"
  let ?hl = "join_lines (map (\<lambda>h. cstr_of (hd_name h) @ '': '' @ cstr_of (hd_value h)) (c_response_headers c))"
  let ?cl = "join_lines (connection_lines cfg c) @ crlf"
  have all: "join_lines (response_lines cfg c st ct n) @ crlf = concat ?p1 @ ?line @ ?hl @ ?cl"
    by (simp add: response_lines_def join_lines_append status_line_def)
  have small: "length (status_line st) < 128" "length ?line < 128"
    "0 < idle_timeout_ms cfg \<longrightarrow> length (keep_alive_lines cfg) < 128"
    using length_status_line assms(2,3) length_dec_of_size_max[OF assms(4)] assms(5) length_keep_alive_lines
    by (auto simp: config_ranges_def)
  have f: "fits cfg k" if "k \<le> length (concat ?p1 @ ?line @ ?hl @ ?cl)" for k
    using fits_mono[OF assms(1)] that by (simp only: all)
  have c1: "append_parts cfg ?c0 ?p1 = (True, ?c0\<lparr>c_write_buffer := concat ?p1\<rparr>)"
    by (subst append_parts_fits) (auto intro!: f simp: sw_connection_prepare_response_def)
  have c2: "sw_connection_append_output cfg (?c0\<lparr>c_write_buffer := concat ?p1\<rparr>) ?line =
      (True, ?c0\<lparr>c_write_buffer := concat ?p1 @ ?line\<rparr>)"
    by (subst append_output_fits) (auto intro!: f)
  have c3: "append_parts cfg (?c0\<lparr>c_write_buffer := concat ?p1 @ ?line\<rparr>)
        (header_parts (c_response_headers (?c0\<lparr>c_write_buffer := concat ?p1 @ ?line\<rparr>))) =
      (True, ?c0\<lparr>c_write_buffer := concat ?p1 @ ?line @ ?hl\<rparr>)"
    by (subst append_parts_fits) (auto intro!: f simp: sw_connection_prepare_response_def concat_header_parts)
  have app: "sw_connection_append_output cfg (d\<lparr>c_write_buffer := b\<rparr>) (join_lines (connection_lines cfg c) @ crlf) =
      (True, d\<lparr>c_write_buffer := b @ join_lines (connection_lines cfg c) @ crlf\<rparr>)"
    if "length b \<le> length (concat ?p1 @ ?line @ ?hl)" for d b
    by (subst append_output_fits) (use that in \<open>auto intro!: f\<close>)
  have e3: "sw_connection_clear_response_headers (?c0\<lparr>c_write_buffer := concat ?p1 @ ?line @ ?hl\<rparr>) =
      (?c0\<lparr>c_response_headers := []\<rparr>)\<lparr>c_write_buffer := concat ?p1 @ ?line @ ?hl\<rparr>"
    by (simp add: sw_connection_clear_response_headers_def)
  have close: "c_close_after_write (d\<lparr>c_response_headers := [], c_write_buffer := b\<rparr>) = c_close_after_write d" for d b
    by simp
  have ka: "c_close_after_write ?c0 = (\<not> sw_request_allows_keep_alive cfg c)"
    by (simp add: sw_connection_prepare_response_def)
  have lines: "connection_lines cfg c = (if c_close_after_write ?c0 then [''Connection: close'']
      else if idle_timeout_ms cfg > 0 then
        [''Connection: keep-alive'', ''Keep-Alive: timeout='' @ int_dec (idle_timeout_ms cfg div 1000) @
          '', max='' @ dec_of (keep_alive_max_requests cfg)] else [''Connection: keep-alive''])"
    by (simp add: ka connection_lines_def)
  have done_eq: "(?c0\<lparr>c_response_headers := []\<rparr>)\<lparr>c_write_buffer := b\<rparr> = response_done cfg c b" for b
    by (simp add: response_done_def sw_connection_prepare_response_def)
  note app' = app[of "concat ?p1 @ ?line @ ?hl" "?c0\<lparr>c_response_headers := []\<rparr>", OF order_refl]
  show ?thesis
    unfolding sw_connection_begin_response_def Let_def c1 c2 c3 prod.case bool.case e3 all
      sw_connection_append_output_cstr_def option.case close
    using small app' unfolding done_eq lines
    by (auto simp: keep_alive_lines_def)
qed

section \<open>Queued headers cannot break a line\<close>

datatype header_op =
    Set_header cptr cptr
  | Set_cookie cptr cptr "sw_http_cookie option"
  | Clear_cookie cptr "sw_http_cookie option"

definition run_header_op :: "sw_connection \<Rightarrow> header_op \<Rightarrow> sw_connection" where
  "run_header_op c op' =
     the (snd (case op' of
        Set_header n v \<Rightarrow> sw_http_set_header (Some c) n v
      | Set_cookie n v opts \<Rightarrow> sw_http_set_cookie (Some c) n v opts
      | Clear_cookie n opts \<Rightarrow> sw_http_clear_cookie (Some c) n opts))"

definition line_clean :: "string \<Rightarrow> bool" where
  "line_clean l \<longleftrightarrow> l \<noteq> [] \<and> CR \<notin> set l \<and> LF \<notin> set l"

definition header_clean :: "sw_http_header \<Rightarrow> bool" where
  "header_clean h \<longleftrightarrow> CR \<notin> set (cstr_of (hd_name h)) \<and> LF \<notin> set (cstr_of (hd_name h)) \<and>
     CR \<notin> set (cstr_of (hd_value h)) \<and> LF \<notin> set (cstr_of (hd_value h))"

lemma cstr_of_strdup: "cstr_of (sw_strdup_cstr p) = cstr_of p"
  by (cases p) (simp_all add: cstr_of_def sw_strdup_cstr_eq)

lemma queue_header_some: "\<exists>c'. snd (sw_http_queue_header (Some c) n v) = Some c'"
  by (simp add: sw_http_queue_header_def)

lemma queue_header_clean:
  assumes "list_all header_clean (c_response_headers c)" and "snd (sw_http_queue_header (Some c) n v) = Some c'"
  shows "list_all header_clean (c_response_headers c')"
proof -
  have crlf: "\<not> header_name_char CR" "\<not> header_name_char LF" by (simp_all add: header_name_char_def byte_def)
  have n: "CR \<notin> set (cstr_of n) \<and> LF \<notin> set (cstr_of n)" if "sw_http_header_name_is_valid n"
    using that crlf by (cases n) (auto simp: sw_http_header_name_is_valid_def cstr_of_def list_all_iff)
  have v: "CR \<notin> set (cstr_of v) \<and> LF \<notin> set (cstr_of v)" if "sw_http_header_value_is_valid v"
    using that by (cases v) (auto simp: sw_http_header_value_is_valid_def cstr_of_def list_all_iff)
  show ?thesis
    using assms n v by (auto simp: sw_http_queue_header_def header_clean_def cstr_of_strdup split: if_splits)
qed

lemma set_cookie_with_options_cases:
  "snd (sw_http_set_cookie_with_options (Some c) n v opts) = Some c \<or>
   (\<exists>n' v'. sw_http_set_cookie_with_options (Some c) n v opts = sw_http_queue_header (Some c) n' v')"
  by (simp add: sw_http_set_cookie_with_options_def Let_def split: option.splits) blast

lemma run_header_op_clean:
  assumes "list_all header_clean (c_response_headers c)"
  shows "list_all header_clean (c_response_headers (run_header_op c op'))"
proof -
  have q: "list_all header_clean (c_response_headers (the (snd (sw_http_queue_header (Some c) n v))))" for n v
    using queue_header_some[of c n v] queue_header_clean[OF assms, of n v] by auto
  have "list_all header_clean (c_response_headers (the (snd (sw_http_set_cookie_with_options (Some c) n v opts))))"
    for n v opts
    using set_cookie_with_options_cases[of c n v opts] assms q by auto
  then show ?thesis
    using q by (cases op') (simp_all add: run_header_op_def sw_http_set_header_def sw_http_set_cookie_def
        sw_http_clear_cookie_def Let_def)
qed

lemma run_header_ops_clean:
  "list_all header_clean (c_response_headers c) \<Longrightarrow>
   list_all header_clean (c_response_headers (foldl run_header_op c ops))"
  by (induction ops arbitrary: c) (simp_all add: run_header_op_clean)

lemma digit_clean: "c \<in> set (int_dec i) \<or> c \<in> set (dec_of n) \<Longrightarrow> c \<noteq> CR \<and> c \<noteq> LF"
  using dec_of_isdigit[of CR] dec_of_isdigit[of LF]
  by (auto simp: int_dec_def isdigit_def byte_def split: if_splits)

lemma status_text_clean: "CR \<notin> set (sw_http_status_text st) \<and> LF \<notin> set (sw_http_status_text st)"
  unfolding sw_http_status_text_def by simp

lemma response_lines_clean:
  assumes "list_all header_clean (c_response_headers c)"
    and "CR \<notin> set (cstr_of ct) \<and> LF \<notin> set (cstr_of ct)"
  shows "list_all line_clean (response_lines cfg c st ct n)"
proof -
  have ct: "CR \<notin> set x \<and> LF \<notin> set x" if "x = (case ct of Some ct \<Rightarrow> cstr ct | None \<Rightarrow> ''text/plain; charset=utf-8'')" for x
    using assms(2) that by (cases ct) (auto simp: cstr_of_def)
  have hs: "list_all line_clean (map (\<lambda>h. cstr_of (hd_name h) @ '': '' @ cstr_of (hd_value h)) (c_response_headers c))"
    using assms(1) by (auto simp: list_all_iff line_clean_def header_clean_def)
  have cl: "list_all line_clean (connection_lines cfg c)"
    using digit_clean by (auto simp: connection_lines_def line_clean_def)
  show ?thesis
    using hs cl ct[OF refl] digit_clean status_text_clean[of st]
    by (auto simp: response_lines_def line_clean_def)
qed

section \<open>The attributes of a cookie\<close>

definition cookie_attrs :: "sw_connection \<Rightarrow> sw_http_cookie \<Rightarrow> string list" where
  "cookie_attrs c opts =
     (if ck_max_age opts \<ge> 0 then [''Max-Age='' @ int_dec (ck_max_age opts)] else []) @
     (case ck_expires opts of None \<Rightarrow> [] | Some e \<Rightarrow> [''Expires='' @ cstr e]) @
     (case ck_domain opts of None \<Rightarrow> [] | Some d \<Rightarrow> [''Domain='' @ cstr d]) @
     (case ck_path opts of None \<Rightarrow> [] | Some p \<Rightarrow> [''Path='' @ cstr p]) @
     (if ck_secure opts \<or> (ck_secure_auto opts \<and> c_secure c) then [''Secure''] else []) @
     (if ck_http_only opts then [''HttpOnly''] else []) @
     (case sw_cookie_same_site_name (ck_same_site opts) of None \<Rightarrow> [] | Some s \<Rightarrow> [''SameSite='' @ s])"

fun split_on :: "char \<Rightarrow> string \<Rightarrow> string list" where
  "split_on ch [] = [[]]"
| "split_on ch (c # cs) =
     (if c = ch then [] # split_on ch cs
      else (case split_on ch cs of [] \<Rightarrow> [[c]] | x # xs \<Rightarrow> (c # x) # xs))"

lemma split_on_none: "ch \<notin> set a \<Longrightarrow> split_on ch a = [a]"
  by (induction a) auto

lemma split_on_cons: "ch \<notin> set a \<Longrightarrow> split_on ch (a @ ch # b) = a # split_on ch b"
  by (induction a) auto

lemma split_on_parts:
  "ch \<notin> set a \<Longrightarrow> \<forall>x\<in>set xs. ch \<notin> set x \<Longrightarrow>
   split_on ch (a @ concat (map (\<lambda>x. ch # x) xs)) = a # xs"
  by (induction xs arbitrary: a) (simp_all add: split_on_none split_on_cons)

lemma append_attr_Some:
  "append_attr prefix attr out = Some r \<Longrightarrow> sw_cookie_attr_is_valid attr \<and>
     r = out @ (case attr of None \<Rightarrow> [] | Some a \<Rightarrow> prefix @ cstr a)"
  by (cases attr) (auto simp: append_attr_def sw_cookie_attr_is_valid_def split: if_splits)

lemma append_options_eq:
  assumes "sw_cookie_append_options out c opts = Some r"
  shows "r = out @ concat (map (\<lambda>a. ''; '' @ a) (cookie_attrs c opts)) \<and>
     sw_cookie_attr_is_valid (ck_expires opts) \<and> sw_cookie_attr_is_valid (ck_domain opts) \<and>
     sw_cookie_attr_is_valid (ck_path opts)"
proof -
  define o0 where "o0 = (if ck_max_age opts \<ge> 0 then out @ ''; Max-Age='' @ int_dec (ck_max_age opts) else out)"
  note d = sw_cookie_append_options_def Let_def
  obtain o1 where o1: "append_attr ''; Expires='' (ck_expires opts) o0 = Some o1"
    using assms unfolding d o0_def[symmetric] by (auto split: if_splits option.splits)
  obtain o2 where o2: "append_attr ''; Domain='' (ck_domain opts) o1 = Some o2"
    using assms unfolding d o0_def[symmetric] o1 option.case by (auto split: if_splits option.splits)
  obtain o3 where o3: "append_attr ''; Path='' (ck_path opts) o2 = Some o3"
    using assms unfolding d o0_def[symmetric] o1 o2 option.case by (auto split: if_splits option.splits)
  have "r = o3 @ (if ck_secure opts \<or> (ck_secure_auto opts \<and> c_secure c) then ''; Secure'' else []) @
      (if ck_http_only opts then ''; HttpOnly'' else []) @
      (case sw_cookie_same_site_name (ck_same_site opts) of None \<Rightarrow> [] | Some s \<Rightarrow> ''; SameSite='' @ s)"
    using assms unfolding d o0_def[symmetric] o1 o2 o3 option.case sw_connection_is_secure_def
    by (cases "sw_cookie_same_site_name (ck_same_site opts)"; cases "ck_secure opts"; cases "ck_secure_auto opts";
        cases "c_secure c"; simp split: if_splits)
  then show ?thesis
    using append_attr_Some[OF o1] append_attr_Some[OF o2] append_attr_Some[OF o3]
    by (simp add: cookie_attrs_def o0_def split: option.splits)
qed

lemma attr_valid_no_semicolon: "sw_cookie_attr_is_valid (Some v) \<Longrightarrow> CHR '';'' \<notin> set (cstr v)"
  by (auto simp: sw_cookie_attr_is_valid_def list_all_iff)

lemma cookie_attrs_no_semicolon:
  assumes "sw_cookie_attr_is_valid (ck_expires opts)" "sw_cookie_attr_is_valid (ck_domain opts)"
    "sw_cookie_attr_is_valid (ck_path opts)" and "a \<in> set (cookie_attrs c opts)"
  shows "CHR '';'' \<notin> set a"
proof -
  have d: "CHR '';'' \<notin> set (int_dec i)" for i
    using dec_of_isdigit[of "CHR '';''"] by (auto simp: int_dec_def isdigit_def byte_def split: if_splits)
  have s: "CHR '';'' \<notin> set x" if "sw_cookie_same_site_name ss = Some x" for ss x
    using that by (cases ss) (auto simp: sw_cookie_same_site_name_def)
  show ?thesis using assms d s attr_valid_no_semicolon
    by (auto simp: cookie_attrs_def split: option.splits if_splits)
qed

section \<open>A cookie with the default options is accepted\<close>

abbreviation hour_cookie :: sw_http_cookie where
  "hour_cookie \<equiv> sw_http_cookie_default\<lparr>ck_max_age := 3600\<rparr>"

lemma hour_cookie_fields:
  "ck_path hour_cookie = Some ''/''" "ck_domain hour_cookie = None" "ck_expires hour_cookie = None"
  "ck_max_age hour_cookie = 3600" "ck_http_only hour_cookie = True" "ck_secure hour_cookie = False"
  "ck_secure_auto hour_cookie = True" "ck_same_site hour_cookie = SW_COOKIE_SAMESITE_LAX"
  by (simp_all add: sw_http_cookie_default_def)

lemma hour_cookie_options:
  "sw_cookie_append_options y c hour_cookie = Some (y @ ''; Max-Age=3600; Path=/'' @
     (if c_secure c then ''; Secure'' else []) @ ''; HttpOnly; SameSite=Lax'')"
proof -
  have p: "append_attr q None x = Some x" "append_attr ''; Path='' (Some ''/'') x = Some (x @ ''; Path=/'')" for q x
    by (simp_all add: append_attr_def sw_cookie_attr_is_valid_def cstr_def byte_def)
  have d: "int_dec 3600 = ''3600''" by (simp add: int_dec_def dec_of.simps char_of_eq_iff)
  have l: "''; Max-Age='' @ ''3600'' = ''; Max-Age=3600''" by simp
  have n: "sw_cookie_same_site_name SW_COOKIE_SAMESITE_LAX = Some ''Lax''" by (simp add: sw_cookie_same_site_name_def)
  show ?thesis unfolding sw_cookie_append_options_def Let_def hour_cookie_fields n d option.case l p
    by (cases "c_secure c") (simp_all add: sw_connection_is_secure_def)
qed

definition header_value_char :: "char \<Rightarrow> bool" where
  "header_value_char ch \<longleftrightarrow> \<not> (ch = CR \<or> ch = LF \<or> (byte ch < 32 \<and> ch \<noteq> TAB) \<or> byte ch = 127)"

lemma header_value_chars: "list_all header_value_char v \<Longrightarrow> sw_http_header_value_is_valid (Some v)"
  using set_cstr_subset[of v]
  unfolding sw_http_header_value_is_valid_def header_value_char_def list_all_iff option.case by blast

lemma cookie_chars_header_value: "cookie_name_char ch \<or> cookie_value_char ch \<Longrightarrow> header_value_char ch"
  by (auto simp: header_value_char_def cookie_name_char_def cookie_value_char_def isalnum_def islower_def
      isupper_def isdigit_def byte_def)

lemma set_cookie_default_ok:
  assumes "sw_cookie_name_is_valid (Some n)" and "sw_cookie_value_is_valid (Some v)"
    and "c_write_buffer c = []" and "c_file_stream c = None"
  shows "\<exists>c'. sw_http_set_cookie (Some c) (Some n) (Some v) (Some hour_cookie) = (0, Some c')"
proof -
  let ?r = "(if c_secure c then ''; Secure'' else []) @ ''; HttpOnly; SameSite=Lax''"
  let ?out = "cstr n @ ''='' @ cstr v @ ''; Max-Age=3600; Path=/'' @ ?r"
  have "list_all header_value_char ''; Max-Age=3600; Path=/''" "list_all header_value_char ''=''"
    "list_all header_value_char ''; Secure''" "list_all header_value_char ''; HttpOnly; SameSite=Lax''"
    by (simp_all add: header_value_char_def byte_def)
  moreover have "list_all header_value_char (cstr n)" "list_all header_value_char (cstr v)"
    using assms(1,2) cookie_chars_header_value
    by (auto simp: sw_cookie_name_is_valid_def sw_cookie_value_is_valid_def list_all_iff)
  ultimately have "list_all header_value_char ?out" by simp
  then have "list_all header_value_char (cstr ?out)" using set_cstr_subset[of ?out] unfolding list_all_iff by blast
  then have "sw_http_header_value_is_valid (Some (cstr ?out))" by (rule header_value_chars)
  moreover have "sw_http_header_name_is_valid (Some ''Set-Cookie'')"
    by (simp add: sw_http_header_name_is_valid_def cstr_def header_name_char_def byte_def)
  moreover have "sw_cookie_append_options (cstr n @ ''='' @ cstr v) c hour_cookie = Some ?out"
    by (simp add: hour_cookie_options)
  ultimately show ?thesis using assms
    by (simp only: sw_http_set_cookie_def sw_http_set_cookie_with_options_def sw_http_queue_header_def sw_strdup_cstr_eq
        option.case option.map option.sel Let_def) simp
qed

section \<open>Properties\<close>

text \<open>
  C6. The head of a response is written completely or reported as failed: when it fits the write
  buffer the buffer holds exactly the status line, the content type and length, the queued
  headers in order and the connection lines, each ended by a line break, then the blank line;
  the queue is emptied and the connection is marked to close exactly when keep-alive is refused.
\<close>

theorem response_head_written:
  assumes "- 2147483648 \<le> status" and "status \<le> 2147483647" and "n \<le> SIZE_MAX" and "config_ranges cfg"
    and "fits cfg (length (join_lines (response_lines cfg c status ct n) @ crlf))"
  shows "sw_connection_begin_response cfg c status ct n =
    (0, response_done cfg c (join_lines (response_lines cfg c status ct n) @ crlf))"
  using begin_response_fits assms by blast

lemma default_ranges: "config_ranges sw_server_config_default"
  and default_fits: "m \<le> 2097152 \<Longrightarrow> fits sw_server_config_default m"
  by (simp_all add: config_ranges_def fits_def sw_server_config_default_def SIZE_MAX_def)

theorem response_head_written_witness:
  "fst (sw_connection_begin_response sw_server_config_default (new_connection 3 0 True False None 0 True 0) 200 None 0) = 0"
proof -
  let ?c = "new_connection 3 0 True False None 0 True 0"
  have "length (dec_of 0) = 1" "length (int_dec 200) = 3" "length (int_dec 15) = 2" "length (dec_of 1000) = 4"
    by (simp_all add: dec_of.simps int_dec_def)
  then have "length (join_lines (response_lines sw_server_config_default ?c 200 None 0) @ crlf) \<le> 200"
    by (simp add: response_lines_def connection_lines_def new_connection_def sw_http_status_text_def
        sw_server_config_default_def)
  then have "fits sw_server_config_default (length (join_lines (response_lines sw_server_config_default ?c 200 None 0) @ crlf))"
    by (intro default_fits) simp
  then show ?thesis using response_head_written[OF _ _ _ default_ranges, of 200 0 ?c None] by simp
qed

text \<open>A connection whose handler has set a header and tried to smuggle in another.\<close>

definition tagged_connection :: sw_connection where
  "tagged_connection = foldl run_header_op (new_connection 3 0 True False None 0 True 0)
     [Set_header (Some ''X-A'') (Some ''1''), Set_header (Some ''X-B'') (Some (''2'' @ crlf @ ''X-C: 3''))]"

lemma tagged_headers:
  "tagged_connection = (new_connection 3 0 True False None 0 True 0)\<lparr>c_response_headers := [\<lparr>hd_name = Some ''X-A'', hd_value = Some ''1''\<rparr>]\<rparr>"
  by (simp add: tagged_connection_def run_header_op_def sw_http_set_header_def sw_http_queue_header_def new_connection_def
      sw_http_header_name_is_valid_def sw_http_header_value_is_valid_def cstr_def header_name_char_def byte_def sw_strdup_cstr_eq)

lemma small_response:
  assumes "c \<in> {new_connection 3 0 True False None 0 True 0, tagged_connection}" and "length (cstr_of ct) \<le> 100"
  shows "sw_connection_begin_response sw_server_config_default c 200 ct 0 =
   (0, response_done sw_server_config_default c (join_lines (response_lines sw_server_config_default c 200 ct 0) @ crlf))"
proof (rule begin_response_fits)
  have "length (dec_of 0) = 1" "length (int_dec 200) = 3" "length (int_dec 15) = 2" "length (dec_of 1000) = 4"
    by (simp_all add: dec_of.simps int_dec_def)
  moreover have "length (connection_lines sw_server_config_default c) \<le> 2 \<and> length (join_lines (connection_lines sw_server_config_default c)) \<le> 100"
    using assms(1) calculation by (auto simp: connection_lines_def tagged_headers new_connection_def sw_server_config_default_def)
  ultimately have "length (join_lines (response_lines sw_server_config_default c 200 ct 0) @ crlf) \<le> 2097152"
    using assms by (auto simp: response_lines_def tagged_headers new_connection_def sw_http_status_text_def cstr_of_def
        join_lines_append cstr_def split: option.splits)
  then show "fits sw_server_config_default (length (join_lines (response_lines sw_server_config_default c 200 ct 0) @ crlf))"
    by (rule default_fits)
qed (simp_all add: SIZE_MAX_def default_ranges)

text \<open>
  C7. No response splitting through headers and cookies: after any sequence of calls that set
  headers, set cookies and clear cookies with arbitrary arguments, whatever response head is
  produced consists of non-empty lines free of CR and LF - three fixed ones, one per queued
  header and the connection lines - provided the caller's content type is free of them.
\<close>

theorem no_response_splitting:
  assumes "c_response_headers c0 = []" and "c = foldl run_header_op c0 ops"
    and "CR \<notin> set (cstr_of ct) \<and> LF \<notin> set (cstr_of ct)"
    and "sw_connection_begin_response cfg c status ct n = (0, c')"
  shows "\<exists>ls. c_write_buffer c' = join_lines ls @ crlf \<and> list_all line_clean ls \<and>
    length ls = 3 + length (c_response_headers c) + length (connection_lines cfg c)"
proof -
  have "list_all header_clean (c_response_headers c)"
    using run_header_ops_clean[of c0 ops] assms(1,2) by simp
  from response_lines_clean[OF this assms(3), of cfg status n] begin_response_ok[OF assms(4)] show ?thesis
    by (intro exI[of _ "response_lines cfg c status ct n"]) (simp add: response_lines_def response_done_def)
qed

theorem no_response_splitting_witness:
  "\<exists>ls. c_write_buffer (snd (sw_connection_begin_response sw_server_config_default tagged_connection 200 None 0)) = join_lines ls @ crlf
     \<and> list_all line_clean ls \<and> length ls = 4 + length (connection_lines sw_server_config_default tagged_connection)"
proof -
  have "c_response_headers (new_connection 3 0 True False None 0 True 0) = []" by (simp add: new_connection_def)
  moreover have "sw_connection_begin_response sw_server_config_default tagged_connection 200 None 0 =
     (0, response_done sw_server_config_default tagged_connection
       (join_lines (response_lines sw_server_config_default tagged_connection 200 None 0) @ crlf))"
    by (rule small_response) (simp_all add: cstr_of_def)
  ultimately show ?thesis
    using no_response_splitting[OF _ tagged_connection_def, of None sw_server_config_default 200 0] 
    by (auto simp: cstr_of_def tagged_headers)
qed

text \<open>
  The content type, in contrast, is not checked: a line break in it becomes a line break of the
  response, so a caller that passes on a type it received (as that of an uploaded part) lets its
  sender add headers. \<^verbatim>\<open>sw_http_set_header\<close> refuses such values.
\<close>

theorem content_type_not_checked:
  "sw_http_header_value_is_valid (Some (''a/b'' @ crlf @ ''X: y'')) = False \<and>
   (\<exists>pre post. c_write_buffer (snd (sw_connection_begin_response sw_server_config_default
      (new_connection 3 0 True False None 0 True 0) 200 (Some (''a/b'' @ crlf @ ''X: y'')) 0)) =
      join_lines [pre, ''Content-Type: a/b'', ''X: y''] @ post)"
proof (rule conjI)
  have "length (cstr_of (Some (''a/b'' @ crlf @ ''X: y''))) \<le> 100" by (simp add: cstr_of_def cstr_def)
  note r = small_response[OF insertI1 this]
  show "\<exists>pre post. c_write_buffer (snd (sw_connection_begin_response sw_server_config_default
      (new_connection 3 0 True False None 0 True 0) 200 (Some (''a/b'' @ crlf @ ''X: y'')) 0)) =
      join_lines [pre, ''Content-Type: a/b'', ''X: y''] @ post"
    unfolding r by (rule exI[of _ "''HTTP/1.1 '' @ int_dec 200 @ '' '' @ sw_http_status_text 200"])
      (simp add: response_done_def response_lines_def)
qed (simp add: sw_http_header_value_is_valid_def)

text \<open>
  No attribute injection: a cookie that is accepted is queued as \<^verbatim>\<open>Set-Cookie\<close> with a value that,
  cut at its semicolons, is the name, the equals sign and the value, followed by exactly the
  attributes the options ask for.
\<close>

theorem cookie_attributes_exact:
  assumes "sw_http_set_cookie (Some c) (Some name) (Some v) (Some opts) = (0, Some c')"
  shows "\<exists>cookie. c_response_headers c' = c_response_headers c @ [\<lparr>hd_name = Some ''Set-Cookie'', hd_value = Some cookie\<rparr>] \<and>
    split_on (CHR '';'') cookie =
      (cstr name @ ''='' @ cstr v) # map (\<lambda>a. CHR '' '' # a) (cookie_attrs c opts)"
proof -
  have valid: "sw_cookie_name_is_valid (Some name)" "sw_cookie_value_is_valid (Some v)"
    using assms by (auto simp: sw_http_set_cookie_def sw_http_set_cookie_with_options_def split: if_splits)
  obtain r where r: "sw_cookie_append_options (cstr name @ ''='' @ cstr v) c opts = Some r"
    "sw_http_queue_header (Some c) (Some ''Set-Cookie'') (sw_strdup_cstr (Some r)) = (0, Some c')"
    using assms valid by (auto simp: sw_http_set_cookie_def sw_http_set_cookie_with_options_def Let_def
        split: option.splits)
  note eq = append_options_eq[OF r(1)]
  have nul: "NUL \<notin> set r"
  proof -
    have "NUL \<notin> set (int_dec i)" for i
      using dec_of_isdigit[of NUL] by (auto simp: int_dec_def isdigit_def byte_def split: if_splits)
    moreover have "NUL \<notin> set x" if "sw_cookie_same_site_name ss = Some x" for ss x
      using that by (cases ss) (auto simp: sw_cookie_same_site_name_def)
    ultimately have "NUL \<notin> set a" if "a \<in> set (cookie_attrs c opts)" for a
      using that by (auto simp: cookie_attrs_def split: option.splits if_splits)
    then show ?thesis using eq by auto
  qed
  have n: "CHR '';'' \<notin> set (cstr name @ ''='' @ cstr v)"
  proof -
    have "\<not> cookie_name_char (CHR '';'')"
      by (simp add: cookie_name_char_def isalnum_def isupper_def islower_def isdigit_def byte_def)
    moreover have "\<not> cookie_value_char (CHR '';'')" by (simp add: cookie_value_char_def)
    ultimately show ?thesis using valid
      by (auto simp: sw_cookie_name_is_valid_def sw_cookie_value_is_valid_def list_all_iff)
  qed
  have "concat (map (\<lambda>a. ''; '' @ a) as) = concat (map (\<lambda>x. CHR '';'' # x) (map (\<lambda>a. CHR '' '' # a) as))" for as :: "string list"
    by (induction as) simp_all
  then have "r = (cstr name @ ''='' @ cstr v) @ concat (map (\<lambda>x. CHR '';'' # x) (map (\<lambda>a. CHR '' '' # a) (cookie_attrs c opts)))"
    using eq by simp
  then have "split_on (CHR '';'') r = (cstr name @ ''='' @ cstr v) # map (\<lambda>a. CHR '' '' # a) (cookie_attrs c opts)"
    using split_on_parts[OF n, of "map (\<lambda>a. CHR '' '' # a) (cookie_attrs c opts)"] eq
      cookie_attrs_no_semicolon[of opts _ c] by auto
  moreover have "c_response_headers c' = c_response_headers c @ [\<lparr>hd_name = Some ''Set-Cookie'', hd_value = Some r\<rparr>]"
    using r(2) nul by (auto simp: sw_http_queue_header_def sw_strdup_cstr_eq cstr_ident split: if_splits)
  ultimately show ?thesis by blast
qed

theorem cookie_attributes_exact_witness:
  "\<exists>cookie. split_on (CHR '';'') cookie = ''k=v'' # map (\<lambda>a. CHR '' '' # a)
      (cookie_attrs (new_connection 3 0 True False None 0 True 0) sw_http_cookie_default)"
proof -
  have "\<exists>c'. sw_http_set_cookie (Some (new_connection 3 0 True False None 0 True 0)) (Some ''k'') (Some ''v'')
      (Some sw_http_cookie_default) = (0, Some c')"
    by (simp add: sw_http_set_cookie_def sw_http_set_cookie_with_options_def sw_http_cookie_default_def
        new_connection_def sw_cookie_name_is_valid_def sw_cookie_value_is_valid_def cookie_value_char_def cookie_name_char_def
        isalnum_def islower_def isupper_def byte_def sw_cookie_append_options_def append_attr_def
        sw_cookie_attr_is_valid_def sw_connection_is_secure_def sw_cookie_same_site_name_def Let_def
        sw_http_queue_header_def sw_http_header_name_is_valid_def header_name_char_def
        sw_http_header_value_is_valid_def sw_strdup_cstr_eq)
  then show ?thesis using cookie_attributes_exact by fastforce
qed

end
