(* ===== verification/Query.thy ===== *)
theory Query
  imports Response
begin

text \<open>
  Reading query variables, form variables and cookies, \<^verbatim>\<open>src/sw_server.c\<close>. The functions fill a
  caller's buffer of \<open>buf_len\<close> bytes; their result is the returned \<^verbatim>\<open>i32\<close> with the bytes in the
  buffer in front of the terminating NUL. Buffers are not NULL; one of length zero is refused.
\<close>

section \<open>Cookies\<close>

text \<open>The copy loop; \<open>room\<close> is what is left of \<open>buf_len - 1\<close>.\<close>

fun copy_cookie_loop :: "bool \<Rightarrow> nat \<Rightarrow> string \<Rightarrow> string" where
  "copy_cookie_loop quoted room [] = []"
| "copy_cookie_loop quoted room [c] = (if room > 0 then [c] else [])"
| "copy_cookie_loop quoted room (c # d # cs) =
     (if quoted \<and> c = BSL
      then (if room > 0 then d # copy_cookie_loop quoted (room - 1) cs else copy_cookie_loop quoted room cs)
      else (if room > 0 then c # copy_cookie_loop quoted (room - 1) (d # cs)
            else copy_cookie_loop quoted room (d # cs)))"

definition sw_http_copy_cookie_value :: "string \<Rightarrow> nat \<Rightarrow> int \<times> string" where
  "sw_http_copy_cookie_value value' buf_len =
     (let quoted = (length value' \<ge> 2 \<and> hd value' = DQ \<and> last value' = DQ) in
      if buf_len = 0 then (-1, [])
      else
        let out = copy_cookie_loop quoted (buf_len - 1) (if quoted then butlast (tl value') else value')
        in (i32_of_sz (length out), out))"

text \<open>The value that starts at the cursor, quotes included, and the rest behind it.\<close>

definition cookie_value :: "string \<Rightarrow> string \<times> string" where
  "cookie_value s =
     (if s \<noteq> [] \<and> hd s = DQ then
        (let (v, rest) = quoted_span (tl s) in
         if rest \<noteq> [] then (DQ # v @ [DQ], tl rest) else (DQ # v, []))
      else (rtrim (takeWhile (\<lambda>c. c \<noteq> CHR '';'') s), to_semicolon s))"

lemma quoted_span_rest: "snd (quoted_span s) = [] \<or> hd (snd (quoted_span s)) = DQ"
  by (induction s rule: quoted_span.induct) (auto simp: Let_def split_beta)

lemma length_cookie_value: "length (snd (cookie_value s)) \<le> length s"
  using length_quoted_span[of "tl s"] length_to_semicolon[of s]
  by (auto simp: cookie_value_def split_beta Let_def)

function cookie_loop :: "string \<Rightarrow> string \<Rightarrow> cptr" where
  "cookie_loop name s =
     (if s = [] then None
      else
        let s1 = skip_seps s; key = rtrim (key_part s1); s2 = after_key s1 in
        if s2 = [] \<or> hd s2 \<noteq> CHR ''='' then cookie_loop name (to_semicolon s2)
        else
          let r = cookie_value (dropWhile isspace (tl s2)) in
          if key = name then Some (fst r) else cookie_loop name (to_semicolon (snd r)))"
  by pat_completeness auto
termination
proof (relation "measure (\<lambda>(name, s). length s)", goal_cases)
  case 1
  show ?case by simp
next
  case (2 name s s1 key s2)
  then show ?case using param_progress[of s] by auto
next
  case (3 name s s1 key s2 r)
  have "length (to_semicolon (snd r)) \<le> length (dropWhile isspace (tl s2))"
    using 3 length_to_semicolon length_cookie_value le_trans by metis
  also have "\<dots> \<le> length (tl s2)" by (rule length_dropWhile_le)
  also have "\<dots> < length s" using 3 param_progress_value[of s] by auto
  finally show ?case by simp
qed

declare cookie_loop.simps [simp del]

fun get_cookie_headers :: "sw_http_header list \<Rightarrow> string \<Rightarrow> nat \<Rightarrow> int \<times> string" where
  "get_cookie_headers [] name buf_len = (0, [])"
| "get_cookie_headers (h # hs) name buf_len =
     (if hd_name h = None \<or> hd_value h = None \<or> sw_stricmp_ascii (hd_name h) (Some ''Cookie'') \<noteq> 0
      then get_cookie_headers hs name buf_len
      else case cookie_loop name (cstr (the (hd_value h))) of
        Some v \<Rightarrow> sw_http_copy_cookie_value v buf_len
      | None \<Rightarrow> get_cookie_headers hs name buf_len)"

definition sw_http_get_cookie :: "sw_http_message option \<Rightarrow> cptr \<Rightarrow> nat \<Rightarrow> int \<times> string" where
  "sw_http_get_cookie hm name buf_len =
     (case (hm, name) of
        (Some m, Some n) \<Rightarrow>
          (if length (cstr n) = 0 \<or> buf_len = 0 then (-1, [])
           else get_cookie_headers (hm_headers m) (cstr n) buf_len)
      | _ \<Rightarrow> (-1, []))"

section \<open>Query and form variables\<close>

definition sw_http_query_string :: "sw_http_message option \<Rightarrow> cptr" where
  "sw_http_query_string hm =
     (case hm of None \<Rightarrow> None
      | Some m \<Rightarrow>
          (case hm_uri m of None \<Rightarrow> None
           | Some u \<Rightarrow>
               (case dropWhile (\<lambda>c. c \<noteq> CHR ''?'') (cstr u) of [] \<Rightarrow> None
                | _ # q \<Rightarrow> Some (takeWhile (\<lambda>c. c \<noteq> CHR ''#'') q))))"

fun decode_loop :: "nat \<Rightarrow> string \<Rightarrow> string" where
  "decode_loop room [] = []"
| "decode_loop room (c # cs) =
     (if room = 0 then []
      else if c = CHR ''+'' then CHR '' '' # decode_loop (room - 1) cs
      else if c = CHR ''%'' \<and> length cs \<ge> 2 \<and> sw_hex_value (cs ! 0) \<ge> 0 \<and> sw_hex_value (cs ! 1) \<ge> 0
      then char_of (nat (sw_hex_value (cs ! 0) * 16 + sw_hex_value (cs ! 1))) # decode_loop (room - 1) (drop 2 cs)
      else c # decode_loop (room - 1) cs)"

function decode_pairs :: "string \<Rightarrow> nat \<Rightarrow> int \<Rightarrow> string \<Rightarrow> int \<times> string" where
  "decode_pairs name buf_len missing_value s =
     (if s = [] then (missing_value, [])
      else
        let pair = takeWhile (\<lambda>c. c \<noteq> CHR ''&'') s;
            rest = dropWhile (\<lambda>c. c \<noteq> CHR ''&'') s;
            key = takeWhile (\<lambda>c. c \<noteq> CHR ''='') pair;
            tail = dropWhile (\<lambda>c. c \<noteq> CHR ''='') pair
        in if tail \<noteq> [] \<and> key = name
           then (let out = decode_loop (buf_len - 1) (tl tail) in (i32_of_sz (length out), out))
           else if rest = [] then (missing_value, [])
           else decode_pairs name buf_len missing_value (tl rest))"
  by pat_completeness auto
termination
proof (relation "measure (\<lambda>(name, buf_len, m, s). length s)", simp, goal_cases)
  case (1 name buf_len m s pair rest key tail)
  then have "length (tl rest) < length rest" "length rest \<le> length s"
    using length_dropWhile_le[of "\<lambda>c. c \<noteq> CHR ''&''" s] by auto
  then show ?case by simp
qed

declare decode_pairs.simps [simp del]

definition sw_http_decode_var :: "cptr \<Rightarrow> cptr \<Rightarrow> nat \<Rightarrow> int \<Rightarrow> int \<times> string" where
  "sw_http_decode_var source name buf_len missing_value =
     (case (source, name) of
        (Some s, Some n) \<Rightarrow>
          (if buf_len = 0 then (-1, []) else decode_pairs (cstr n) buf_len missing_value s)
      | _ \<Rightarrow> (-1, []))"

definition sw_http_get_query :: "sw_http_message option \<Rightarrow> cptr \<Rightarrow> nat \<Rightarrow> int \<times> string" where
  "sw_http_get_query hm name buf_len =
     (if hm = None \<or> name = None \<or> buf_len = 0 then (-1, [])
      else case sw_http_query_string hm of
        None \<Rightarrow> (0, [])
      | Some q \<Rightarrow> if length q = 0 then (0, []) else sw_http_decode_var (Some q) name buf_len 0)"

section \<open>Bounds\<close>

lemma length_copy_cookie_loop: "length (copy_cookie_loop q room s) \<le> room"
  by (induction q room s rule: copy_cookie_loop.induct) auto

lemma length_decode_loop: "length (decode_loop room s) \<le> room"
proof (induction room arbitrary: s)
  case 0
  then show ?case by (cases s) auto
next
  case (Suc room)
  then show ?case by (cases s) auto
qed

lemma copy_cookie_bounds:
  assumes "0 < buf_len" and "sw_http_copy_cookie_value v buf_len = (r, out)"
  shows "length out < buf_len \<and> r = i32_of_sz (length out)"
proof -
  obtain q w where "out = copy_cookie_loop q (buf_len - 1) w" "r = i32_of_sz (length out)"
    using assms unfolding sw_http_copy_cookie_value_def Let_def by auto
  with length_copy_cookie_loop[of q "buf_len - 1" w] assms(1) show ?thesis by simp
qed

lemma get_cookie_bounds:
  assumes "0 < buf_len"
  shows "get_cookie_headers hs name buf_len = (r, out) \<Longrightarrow> length out < buf_len \<and> r = i32_of_sz (length out)"
proof (induction hs)
  case Nil
  with assms show ?case by (simp add: i32_of_sz_def)
next
  case (Cons h hs)
  then show ?case using copy_cookie_bounds[OF assms] by (auto split: if_splits option.splits)
qed

lemma decode_pairs_bounds:
  assumes "0 < buf_len"
  shows "decode_pairs name buf_len 0 s = (r, out) \<Longrightarrow> length out < buf_len \<and> r = i32_of_sz (length out)"
proof (induction s rule: length_induct)
  case (1 s)
  let ?pair = "takeWhile (\<lambda>c. c \<noteq> CHR ''&'') s" and ?rest = "dropWhile (\<lambda>c. c \<noteq> CHR ''&'') s"
  let ?key = "takeWhile (\<lambda>c. c \<noteq> CHR ''='') ?pair" and ?tail = "dropWhile (\<lambda>c. c \<noteq> CHR ''='') ?pair"
  have z: "i32_of_sz 0 = 0" by (simp add: i32_of_sz_def)
  have d: "length (decode_loop (buf_len - 1) w) < buf_len" for w
    using length_decode_loop[of "buf_len - 1" w] assms by simp
  have ih: "length out < buf_len \<and> r = i32_of_sz (length out)"
    if "decode_pairs name buf_len 0 (tl ?rest) = (r, out)" "?rest \<noteq> []"
  proof -
    have "length (tl ?rest) < length s"
      using that(2) length_dropWhile_le[of "\<lambda>c. c \<noteq> CHR ''&''" s] by (cases ?rest) auto
    with 1(1) that(1) show ?thesis by blast
  qed
  have "decode_pairs name buf_len 0 s = (if s = [] then (0, []) else if ?tail \<noteq> [] \<and> ?key = name
      then (i32_of_sz (length (decode_loop (buf_len - 1) (tl ?tail))), decode_loop (buf_len - 1) (tl ?tail))
      else if ?rest = [] then (0, []) else decode_pairs name buf_len 0 (tl ?rest))"
    by (simp only: decode_pairs.simps[of name buf_len 0 s] Let_def)
  with 1(2) show ?case
    using ih d z assms by (simp split: if_splits) (blast+)
qed

section \<open>Encoding variables\<close>

definition url_encode_char :: "char \<Rightarrow> string" where
  "url_encode_char c =
     (if c = CHR '' '' then ''+'' else if isalnum c then [c]
      else [CHR ''%'', hex_digit (byte c div 16), hex_digit (byte c mod 16)])"

definition url_encode :: "string \<Rightarrow> string" where
  "url_encode s = concat (map url_encode_char s)"

fun render_query :: "(string \<times> string) list \<Rightarrow> string" where
  "render_query [] = []"
| "render_query [(k, v)] = k @ ''='' @ url_encode v"
| "render_query ((k, v) # ps) = k @ ''='' @ url_encode v @ ''&'' @ render_query ps"

definition plain_key :: "string \<Rightarrow> bool" where
  "plain_key k \<longleftrightarrow> set k \<inter> {CHR ''&'', CHR ''='', CHR ''#'', NUL} = {}"

lemma hex_digit_upper:
  assumes "n < 16"
  shows "isdigit (hex_digit n) \<or> (97 \<le> byte (hex_digit n) \<and> byte (hex_digit n) \<le> 102) \<or>
    (65 \<le> byte (hex_digit n) \<and> byte (hex_digit n) \<le> 70)"
  using hex_digit_isxdigit[OF assms] by (auto simp: isxdigit_def)

lemma url_encode_chars:
  assumes "c \<in> set (url_encode_char x)"
  shows "isalnum c \<or> c = CHR ''+'' \<or> c = CHR ''%''"
  using assms hex_digit_upper[of "byte x div 16"] hex_digit_upper[of "byte x mod 16"]
  by (auto simp: url_encode_char_def isalnum_def isupper_def islower_def less_mult_imp_div_less
      split: if_splits)

lemma url_encode_special:
  assumes "c \<in> {CHR ''&'', CHR ''='', CHR ''#'', NUL, CHR ''?''}"
  shows "c \<notin> set (url_encode v)"
proof
  assume "c \<in> set (url_encode v)"
  then have "isalnum c \<or> c = CHR ''+'' \<or> c = CHR ''%''"
    by (auto simp: url_encode_def dest: url_encode_chars)
  with assms show False by (auto simp: isalnum_def isupper_def islower_def isdigit_def byte_def)
qed

lemma isalnum_not_special: "isalnum c \<Longrightarrow> c \<noteq> CHR ''+'' \<and> c \<noteq> CHR ''%''"
  by (auto simp: isalnum_def isupper_def islower_def isdigit_def byte_def)

lemma decode_url_encode: "decode_loop room (url_encode v) = take room v"
proof (induction v arbitrary: room)
  case Nil
  then show ?case by (simp add: url_encode_def)
next
  case (Cons c v)
  have ih: "decode_loop r (concat (map url_encode_char v)) = take r v" for r
    using Cons.IH by (simp add: url_encode_def)
  have hex: "sw_hex_value (hex_digit (byte c div 16)) = int (byte c div 16)"
    "sw_hex_value (hex_digit (byte c mod 16)) = int (byte c mod 16)"
    using hex_digit_value by (simp_all add: hex_value_agree less_mult_imp_div_less)
  have "int (byte c div 16) * 16 + int (byte c mod 16) = int (byte c)"
    by (metis div_mult_mod_eq of_nat_add of_nat_mult of_nat_numeral)
  then have chr: "char_of (nat (int (byte c div 16) * 16 + int (byte c mod 16))) = c" by simp
  show ?case
  proof (cases room)
    case 0
    then show ?thesis by (cases "url_encode (c # v)") auto
  next
    case (Suc r)
    consider "c = CHR '' ''" | "c \<noteq> CHR '' ''" "isalnum c" | "c \<noteq> CHR '' ''" "\<not> isalnum c" by blast
    then show ?thesis
    proof cases
      case 1
      with Suc show ?thesis by (simp add: url_encode_def url_encode_char_def ih)
    next
      case 2
      with Suc isalnum_not_special[of c] show ?thesis by (simp add: url_encode_def url_encode_char_def ih)
    next
      case 3
      then have "url_encode (c # v) = CHR ''%'' # hex_digit (byte c div 16) # hex_digit (byte c mod 16) #
          concat (map url_encode_char v)"
        by (simp add: url_encode_def url_encode_char_def)
      with Suc show ?thesis by (simp add: hex chr ih del: of_nat_div of_nat_mod zdiv_int zmod_int)
    qed
  qed
qed

definition lookup_result :: "(string \<times> string) list \<Rightarrow> string \<Rightarrow> nat \<Rightarrow> int \<times> string" where
  "lookup_result ps name buf_len =
     (case map_of ps name of None \<Rightarrow> (0, [])
      | Some v \<Rightarrow> (i32_of_sz (length (take (buf_len - 1) v)), take (buf_len - 1) v))"

lemma decode_pair_step:
  assumes "plain_key k" and "s = k @ ''='' @ url_encode v @ t" and "t = [] \<or> (\<exists>r. t = CHR ''&'' # r)"
  shows "decode_pairs name buf_len m s =
    (if k = name then (i32_of_sz (length (take (buf_len - 1) v)), take (buf_len - 1) v)
     else if t = [] then (m, []) else decode_pairs name buf_len m (tl t))"
proof -
  have k: "CHR ''&'' \<notin> set k" "CHR ''='' \<notin> set k" using assms(1) by (auto simp: plain_key_def)
  have e: "CHR ''&'' \<notin> set (url_encode v)" "CHR ''='' \<notin> set (url_encode v)"
    using url_encode_special by auto
  define kv where "kv = k @ ''='' @ url_encode v"
  have kv: "\<forall>x\<in>set kv. x \<noteq> CHR ''&''" using k e by (auto simp: kv_def)
  have "s = kv @ t" using assms(2) by (simp add: kv_def)
  then have pair: "takeWhile (\<lambda>c. c \<noteq> CHR ''&'') s = k @ ''='' @ url_encode v"
    "dropWhile (\<lambda>c. c \<noteq> CHR ''&'') s = t"
    using assms(3) takeWhile_all[OF kv] dropWhile_all[OF kv]
      takeWhile_append_stop[OF kv, of "CHR ''&''"] dropWhile_append_stop[OF kv, of "CHR ''&''"]
    unfolding kv_def[symmetric] by (elim disjE exE; simp)+
  have "\<forall>x\<in>set k. x \<noteq> CHR ''=''" using k by auto
  then have key: "takeWhile (\<lambda>c. c \<noteq> CHR ''='') (k @ ''='' @ url_encode v) = k"
    "dropWhile (\<lambda>c. c \<noteq> CHR ''='') (k @ ''='' @ url_encode v) = CHR ''='' # url_encode v"
    using takeWhile_append_stop[of k "\<lambda>c. c \<noteq> CHR ''=''"] dropWhile_append_stop[of k "\<lambda>c. c \<noteq> CHR ''=''"]
    by auto
  have "s \<noteq> []" using assms(2) by simp
  then have "decode_pairs name buf_len m s =
      (if CHR ''='' # url_encode v \<noteq> [] \<and> k = name
       then (let out = decode_loop (buf_len - 1) (tl (CHR ''='' # url_encode v)) in (i32_of_sz (length out), out))
       else if t = [] then (m, []) else decode_pairs name buf_len m (tl t))"
    by (subst decode_pairs.simps) (simp only: Let_def pair key if_False)
  then show ?thesis by (simp add: decode_url_encode)
qed

lemma decode_render_query:
  assumes "\<forall>(k, v)\<in>set ps. plain_key k" and "ps \<noteq> []"
  shows "decode_pairs name buf_len 0 (render_query ps) = lookup_result ps name buf_len"
  using assms
proof (induction ps rule: render_query.induct)
  case (2 k v)
  then show ?case
    by (subst decode_pair_step[of k _ v "[]"]) (auto simp: lookup_result_def)
next
  case (3 k v p ps)
  then have "decode_pairs name buf_len 0 (render_query (p # ps)) = lookup_result (p # ps) name buf_len" by auto
  with 3 show ?case
    by (subst decode_pair_step[of k _ v "CHR ''&'' # render_query (p # ps)"]) (auto simp: lookup_result_def)
qed simp

section \<open>Rendering a cookie header\<close>

fun render_cookies :: "(string \<times> string) list \<Rightarrow> string" where
  "render_cookies [] = []"
| "render_cookies [(k, v)] = k @ ''='' @ v"
| "render_cookies ((k, v) # ps) = k @ ''='' @ v @ ''; '' @ render_cookies ps"

definition cookie_pair_ok :: "string \<times> string \<Rightarrow> bool" where
  "cookie_pair_ok p \<longleftrightarrow> NUL \<notin> set (fst p) \<and> NUL \<notin> set (snd p) \<and>
     sw_cookie_name_is_valid (Some (fst p)) \<and> sw_cookie_value_is_valid (Some (snd p))"

lemma cookie_name_char_facts:
  "cookie_name_char c \<Longrightarrow> c \<noteq> CHR ''='' \<and> c \<noteq> CHR '';'' \<and> \<not> isspace c"
  by (auto simp: cookie_name_char_def isalnum_def isupper_def islower_def isdigit_def isspace_def byte_def)

lemma cookie_value_char_facts: "cookie_value_char c \<Longrightarrow> c \<noteq> CHR '';'' \<and> c \<noteq> DQ \<and> \<not> isspace c"
  by (auto simp: cookie_value_char_def isspace_def)

lemma cookie_pair_facts:
  assumes "cookie_pair_ok (k, v)"
  shows "k \<noteq> []" "\<forall>c\<in>set k. c \<noteq> CHR ''='' \<and> c \<noteq> CHR '';'' \<and> \<not> isspace c"
    "\<forall>c\<in>set v. c \<noteq> CHR '';'' \<and> c \<noteq> DQ \<and> \<not> isspace c" "NUL \<notin> set (k @ ''='' @ v)"
proof -
  have c: "cstr k = k" "cstr v = v" "NUL \<notin> set k" "NUL \<notin> set v"
    using assms by (simp_all add: cookie_pair_ok_def cstr_ident)
  with assms have "k \<noteq> []" "list_all cookie_name_char k" "list_all cookie_value_char v"
    by (simp_all add: cookie_pair_ok_def sw_cookie_name_is_valid_def sw_cookie_value_is_valid_def)
  then show "k \<noteq> []" "\<forall>c\<in>set k. c \<noteq> CHR ''='' \<and> c \<noteq> CHR '';'' \<and> \<not> isspace c"
    "\<forall>c\<in>set v. c \<noteq> CHR '';'' \<and> c \<noteq> DQ \<and> \<not> isspace c"
    using cookie_name_char_facts cookie_value_char_facts by (simp_all add: list_all_iff)
  from c show "NUL \<notin> set (k @ ''='' @ v)" by simp
qed

lemma copy_cookie_unquoted: "copy_cookie_loop False room s = take room s"
  by (induction "False" room s rule: copy_cookie_loop.induct) (auto simp: take_Cons')

lemma rtrim_no_space: "\<forall>c\<in>set s. \<not> isspace c \<Longrightarrow> rtrim s = s"
  by (rule rtrim_ident) (use last_in_set in blast)

text \<open>One pair, at the start of the rest \<open>k=v\<close> \<open>t\<close> where \<open>t\<close> is empty or starts with a semicolon.\<close>

lemma cookie_loop_pair:
  assumes ok: "cookie_pair_ok (k, v)" and s: "s = k @ ''='' @ v @ t"
    and t: "t = [] \<or> hd t = CHR '';''"
  shows "cookie_loop name s = (if k = name then Some v else cookie_loop name t)"
proof -
  note f = cookie_pair_facts[OF ok]
  obtain c k' where k: "k = c # k'" using f(1) by (cases k) auto
  have s1: "skip_seps s = s" using f(2) by (simp add: skip_seps_def s k)
  have kk: "\<forall>x\<in>set k. x \<noteq> CHR ''='' \<and> x \<noteq> CHR '';''" using f(2) by simp
  have key: "key_part s = k" "after_key s = CHR ''='' # v @ t"
    using takeWhile_append_stop[OF kk, of "CHR ''=''" "v @ t"] dropWhile_append_stop[OF kk, of "CHR ''=''" "v @ t"]
    by (simp_all add: s key_part_def after_key_def)
  have rt: "rtrim k = k" "rtrim v = v" using f(2,3) by (simp_all add: rtrim_no_space)
  have semi: "isspace (CHR '';'') = False" by (simp add: isspace_def byte_def)
  have lt: "dropWhile isspace (v @ t) = v @ t"
    using f(3) t semi by (cases v; cases t) auto
  have vv: "\<forall>x\<in>set v. x \<noteq> CHR '';''" using f(3) by simp
  have cut: "takeWhile (\<lambda>c. c \<noteq> CHR '';'') (v @ t) = v" "to_semicolon (v @ t) = t"
    using t takeWhile_all[OF vv] dropWhile_all[OF vv] takeWhile_append_stop[OF vv, of "CHR '';''" "tl t"]
      dropWhile_append_stop[OF vv, of "CHR '';''" "tl t"]
    by (cases t; auto simp: to_semicolon_def)+
  have "\<not> (v @ t \<noteq> [] \<and> hd (v @ t) = DQ)" using f(3) t by (cases v; cases t) auto
  then have "cookie_value (v @ t) = (rtrim (takeWhile (\<lambda>c. c \<noteq> CHR '';'') (v @ t)), to_semicolon (v @ t))"
    unfolding cookie_value_def by (rule if_not_P)
  then have cv: "cookie_value (v @ t) = (v, t)" by (simp only: cut rt)
  have tt: "to_semicolon t = t" using t by (cases t) (auto simp: to_semicolon_def)
  have ne: "s \<noteq> []" by (simp add: s)
  have "cookie_loop name s = (if s = [] then None
      else if CHR ''='' # v @ t = [] \<or> hd (CHR ''='' # v @ t) \<noteq> CHR ''='' then cookie_loop name (to_semicolon (CHR ''='' # v @ t))
      else if k = name then Some (fst (cookie_value (dropWhile isspace (tl (CHR ''='' # v @ t)))))
      else cookie_loop name (to_semicolon (snd (cookie_value (dropWhile isspace (tl (CHR ''='' # v @ t)))))))"
    by (subst cookie_loop.simps) (simp only: Let_def s1 key rt)
  with ne show ?thesis by (simp add: lt cv tt)
qed

lemma cookie_loop_sep: "cookie_loop name (CHR '';'' # CHR '' '' # s) = cookie_loop name s"
proof -
  have sk: "skip_seps (CHR '';'' # CHR '' '' # s) = skip_seps s"
    by (simp add: skip_seps_def isspace_def byte_def)
  show ?thesis
  proof (cases "s = []")
    case True
    then show ?thesis
      by (subst (1 2) cookie_loop.simps)
        (simp add: skip_seps_def after_key_def to_semicolon_def Let_def isspace_def byte_def cookie_loop.simps)
  next
    case False
    then show ?thesis by (subst (1 2) cookie_loop.simps) (simp only: Let_def sk list.simps if_False)
  qed
qed

lemma cookie_loop_render:
  assumes "\<forall>p\<in>set ps. cookie_pair_ok p" and "ps \<noteq> []"
  shows "cookie_loop name (render_cookies ps) = map_of ps name"
  using assms
proof (induction ps rule: render_cookies.induct)
  case (2 k v)
  then show ?case
    using cookie_loop_pair[of k v _ "[]" name] by (auto simp: cookie_loop.simps[of _ "[]"])
next
  case (3 k v p ps)
  then have "cookie_loop name (render_cookies (p # ps)) = map_of (p # ps) name" by auto
  with 3 show ?case
    using cookie_loop_pair[of k v _ "''; '' @ render_cookies (p # ps)" name] by (auto simp: cookie_loop_sep)
qed simp

lemma render_cookies_NUL:
  "\<forall>p\<in>set ps. cookie_pair_ok p \<Longrightarrow> NUL \<notin> set (render_cookies ps)"
  by (induction ps rule: render_cookies.induct) (use cookie_pair_facts(4) in auto)

lemma get_cookie_render:
  assumes "\<forall>p\<in>set ps. cookie_pair_ok p" and "ps \<noteq> []" and "0 < buf_len" and "cstr name \<noteq> []"
    and "hm_headers m = [\<lparr>hd_name = Some ''Cookie'', hd_value = Some (render_cookies ps)\<rparr>]"
  shows "sw_http_get_cookie (Some m) (Some name) buf_len = lookup_result ps (cstr name) buf_len"
proof -
  have c: "cstr (render_cookies ps) = render_cookies ps"
    by (rule cstr_ident) (rule render_cookies_NUL[OF assms(1)])
  have copy: "sw_http_copy_cookie_value v buf_len = (i32_of_sz (length (take (buf_len - 1) v)), take (buf_len - 1) v)"
    if "map_of ps (cstr name) = Some v" for v
  proof -
    have "cookie_pair_ok (cstr name, v)" using that assms(1) map_of_SomeD by metis
    then have "(length v \<ge> 2 \<and> hd v = DQ \<and> last v = DQ) = False"
      using cookie_pair_facts(3) by (cases v) auto
    then show ?thesis using assms(3)
      unfolding sw_http_copy_cookie_value_def Let_def
      by (simp only: if_False copy_cookie_unquoted) simp
  qed
  show ?thesis
    using assms(3,4) copy
    by (auto simp: sw_http_get_cookie_def assms(5) c cookie_loop_render[OF assms(1,2)] lookup_result_def
        simp del: length_take split: option.split)
qed

section \<open>Properties\<close>

text \<open>
  Query variables round trip: from a target whose query was built by percent-encoding any
  list of variables (their names free of the delimiters), behind any path and in front of any
  fragment, a variable is read back as its first value, byte for byte, cut to the buffer; a
  name that does not occur gives 0 and the empty string.
\<close>

theorem query_roundtrip:
  assumes "\<forall>(k, v)\<in>set ps. plain_key k \<and> CHR ''?'' \<notin> set k" and "ps \<noteq> []" and "0 < buf_len"
    and "CHR ''?'' \<notin> set path" and "NUL \<notin> set path" and "frag = [] \<or> hd frag = CHR ''#''"
    and "hm_uri m = Some (path @ ''?'' @ render_query ps @ frag)"
  shows "sw_http_get_query (Some m) (Some name) buf_len = lookup_result ps (cstr name) buf_len"
proof -
  have q: "set (render_query ps) \<inter> {CHR ''#'', NUL} = {}"
    using assms(1)
  proof (induction ps rule: render_query.induct)
    case (2 k v)
    then show ?case using url_encode_special by (auto simp: plain_key_def)
  next
    case (3 k v p ps)
    then show ?case using url_encode_special by (auto simp: plain_key_def)
  qed simp
  have h: "\<forall>c\<in>set (render_query ps). c \<noteq> CHR ''#''" and z: "NUL \<notin> set (render_query ps)" using q by auto
  have cut: "cstr (path @ ''?'' @ render_query ps @ frag) = path @ ''?'' @ render_query ps @ cstr frag"
    using assms(5) z by (simp add: cstr_append)
  have "\<forall>c\<in>set path. c \<noteq> CHR ''?''" using assms(4) by auto
  then have "dropWhile (\<lambda>c. c \<noteq> CHR ''?'') (path @ ''?'' @ render_query ps @ cstr frag) =
      CHR ''?'' # render_query ps @ cstr frag"
    using dropWhile_append_stop[of path "\<lambda>c. c \<noteq> CHR ''?''"] by simp
  moreover have "takeWhile (\<lambda>c. c \<noteq> CHR ''#'') (render_query ps @ cstr frag) = render_query ps"
    using assms(6) takeWhile_all[OF h] takeWhile_append_stop[OF h, of "CHR ''#''"] by (cases frag) auto
  ultimately have "sw_http_query_string (Some m) = Some (render_query ps)"
    by (simp add: sw_http_query_string_def assms(7) cut[simplified])
  moreover have "render_query ps \<noteq> []" using assms(2) by (cases ps rule: render_query.cases) auto
  moreover have "\<forall>(k, v)\<in>set ps. plain_key k" using assms(1) by auto
  ultimately show ?thesis
    using assms(2,3) decode_render_query[of ps "cstr name" buf_len]
    by (simp add: sw_http_get_query_def sw_http_decode_var_def)
qed

theorem query_roundtrip_witness:
  "sw_http_get_query (Some (empty_message\<lparr>hm_uri := Some (''/p'' @ ''?'' @ render_query [(''a'', ''x y''), (''b'', ''&'')] @ ''#f'')\<rparr>))
     (Some ''b'') 10 = lookup_result [(''a'', ''x y''), (''b'', ''&'')] (cstr ''b'') 10"
  by (rule query_roundtrip[where path = "''/p''" and frag = "''#f''"]) (simp_all add: plain_key_def)

text \<open>
  Cookies round trip: from a \<^verbatim>\<open>Cookie\<close> header that lists any pairs the library itself would let a
  response set, a cookie is read back as its first value, byte for byte, cut to the buffer; no
  name is found inside another name or inside a value.
\<close>

theorem cookie_roundtrip:
  assumes "\<forall>p\<in>set ps. cookie_pair_ok p" and "ps \<noteq> []" and "0 < buf_len" and "cstr name \<noteq> []"
    and "hm_headers m = [\<lparr>hd_name = Some ''Cookie'', hd_value = Some (render_cookies ps)\<rparr>]"
  shows "sw_http_get_cookie (Some m) (Some name) buf_len = lookup_result ps (cstr name) buf_len"
  by (rule get_cookie_render[OF assms])

lemma cookie_pair_ok_ab: "cookie_pair_ok (''a'', ''1'')" "cookie_pair_ok (''b'', ''2'')"
  by (simp_all add: cookie_pair_ok_def sw_cookie_name_is_valid_def sw_cookie_value_is_valid_def
      cookie_name_char_def cookie_value_char_def isalnum_def islower_def isupper_def isdigit_def byte_def)

theorem cookie_roundtrip_witness:
  "sw_http_get_cookie (Some (empty_message\<lparr>hm_headers :=
      [\<lparr>hd_name = Some ''Cookie'', hd_value = Some (render_cookies [(''a'', ''1''), (''b'', ''2'')])\<rparr>]\<rparr>)) (Some ''b'') 8 =
   lookup_result [(''a'', ''1''), (''b'', ''2'')] (cstr ''b'') 8"
  by (rule cookie_roundtrip) (use cookie_pair_ok_ab in auto)

text \<open>
  Buffer safety: whatever the request holds, reading a query variable or a cookie writes fewer
  bytes than the buffer has, the terminating NUL included, and returns exactly the number of
  bytes written (0 when there is none).
\<close>

theorem variables_fit_buffer:
  assumes "0 < buf_len" and "cstr name \<noteq> []"
    and "f = sw_http_get_query \<or> f = sw_http_get_cookie" and "f (Some m) (Some name) buf_len = (r, out)"
  shows "length out + 1 \<le> buf_len \<and> r = i32_of_sz (length out)"
proof -
  have z: "i32_of_sz 0 = 0" by (simp add: i32_of_sz_def)
  from assms have "f = sw_http_get_cookie \<Longrightarrow> length out < buf_len \<and> r = i32_of_sz (length out)"
    using get_cookie_bounds[of buf_len] by (auto simp: sw_http_get_cookie_def)
  moreover from assms z have "f = sw_http_get_query \<Longrightarrow> length out < buf_len \<and> r = i32_of_sz (length out)"
    using decode_pairs_bounds[of buf_len "cstr name"]
    by (auto simp: sw_http_get_query_def sw_http_decode_var_def split: option.splits if_splits)
  ultimately show ?thesis using assms(3) by auto
qed

theorem variables_fit_buffer_witness:
  "length (take 7 ''2'') + 1 \<le> (8::nat)"
proof -
  have "sw_http_get_cookie (Some (empty_message\<lparr>hm_headers :=
      [\<lparr>hd_name = Some ''Cookie'', hd_value = Some (render_cookies [(''a'', ''1''), (''b'', ''2'')])\<rparr>]\<rparr>)) (Some ''b'') 8 =
    (i32_of_sz (length (take 7 ''2'')), take 7 ''2'')"
    using cookie_loop_render[of "[(''a'', ''1''), (''b'', ''2'')]" "''b''"] cookie_pair_ok_ab
    by (simp add: sw_http_get_cookie_def sw_http_copy_cookie_value_def Let_def)
  from variables_fit_buffer[where f = sw_http_get_cookie, OF _ _ _ this] show ?thesis by simp
qed

end
