(* ===== verification/Paths.thy ===== *)
theory Paths
  imports Message
begin

text \<open>
  Request paths and static files, \<^verbatim>\<open>src/sw_server.c\<close>: decoding and normalising the path of a
  request, the containment test on resolved paths, the content type of a file, and the decision
  of \<^verbatim>\<open>sw_http_serve_path\<close> which file to send. The file system is a parameter: \<open>realpath\<close> and \<open>stat\<close>
  are arbitrary functions, so symbolic links of any kind are covered. POSIX build.
\<close>

section \<open>Separators, joining, resolving\<close>

definition sw_path_is_separator :: "char \<Rightarrow> bool" where
  "sw_path_is_separator ch \<longleftrightarrow> ch = CHR ''/'' \<or> ch = BSL"

definition sw_path_join :: "nat \<Rightarrow> cptr \<Rightarrow> cptr \<Rightarrow> string \<times> bool" where
  "sw_path_join out_cap lhs rhs =
     (let l = (case lhs of None \<Rightarrow> [] | Some s \<Rightarrow> cstr s);
          r = (case rhs of None \<Rightarrow> [] | Some s \<Rightarrow> cstr s);
          need_sep = (length l > 0 \<and> \<not> sw_path_is_separator (last l));
          full = l @ (if need_sep then ''/'' else '''') @ r
      in (take (out_cap - 1) full, length full < out_cap))"

definition sw_path_real :: "(string \<Rightarrow> cptr) \<Rightarrow> cptr \<Rightarrow> nat \<Rightarrow> cptr" where
  "sw_path_real realpath path out_cap =
     (case path of None \<Rightarrow> None
      | Some p \<Rightarrow>
          if out_cap = 0 then None
          else (case realpath (cstr p) of None \<Rightarrow> None
            | Some resolved \<Rightarrow> if length (cstr resolved) \<ge> out_cap then None else Some (cstr resolved)))"

definition sw_path_has_prefix :: "cptr \<Rightarrow> cptr \<Rightarrow> bool" where
  "sw_path_has_prefix path prefix =
     (case (path, prefix) of
        (Some pa, Some pr) \<Rightarrow>
          (let p = cstr pa; q = cstr pr in
           if \<not> match_at (=) q p then False
           else if length p = length q then True
           else if length q > 0 \<and> sw_path_is_separator (last q) then True
           else sw_path_is_separator (p ! length q))
      | _ \<Rightarrow> False)"

section \<open>Decoding the path of a request\<close>

fun decode_path_loop :: "string \<Rightarrow> string option" where
  "decode_path_loop [] = Some []"
| "decode_path_loop (c # cs) =
     (if c = CHR ''%'' then
        (case cs of
           a # b # rest \<Rightarrow>
             (if sw_hex_value a < 0 \<or> sw_hex_value b < 0 then None
              else let ch = char_of (nat (sw_hex_value a * 16 + sw_hex_value b)) in
                if ch = NUL then None else map_option (\<lambda>r. ch # r) (decode_path_loop rest))
         | _ \<Rightarrow> None)
      else if c = NUL then None
      else map_option (\<lambda>r. c # r) (decode_path_loop cs))"

function normalize_loop :: "nat \<Rightarrow> string \<Rightarrow> string \<Rightarrow> string option" where
  "normalize_loop out_cap out data =
     (if data = [] then Some out
      else
        let seg_data = dropWhile sw_path_is_separator data;
            segment = takeWhile (\<lambda>c. \<not> sw_path_is_separator c) seg_data;
            rest = dropWhile (\<lambda>c. \<not> sw_path_is_separator c) seg_data
        in if segment = [] then normalize_loop out_cap out rest
           else if segment = ''.'' then normalize_loop out_cap out rest
           else if segment = ''..'' then None
           else if out \<noteq> [] \<and> length out + 1 \<ge> out_cap then None
           else
             let out = (if out \<noteq> [] then out @ ''/'' else out) in
             if length out + length segment \<ge> out_cap then None
             else normalize_loop out_cap (out @ segment) rest)"
  by pat_completeness auto

lemma segment_progress:
  assumes "data \<noteq> []"
  shows "length (dropWhile (\<lambda>c. \<not> sw_path_is_separator c) (dropWhile sw_path_is_separator data)) < length data"
proof (cases "dropWhile sw_path_is_separator data")
  case Nil
  show ?thesis unfolding Nil using assms by simp
next
  case (Cons c cs)
  then have "\<not> sw_path_is_separator c"
    using hd_dropWhile[of sw_path_is_separator data] by simp
  then have "length (dropWhile (\<lambda>c. \<not> sw_path_is_separator c) (c # cs)) \<le> length cs"
    by (simp add: length_dropWhile_le)
  moreover have "length (c # cs) \<le> length data" using length_dropWhile_le[of sw_path_is_separator data] Cons by simp
  ultimately show ?thesis using Cons by simp
qed

termination normalize_loop
  by (relation "measure (\<lambda>(cap, out, data). length data)") (simp_all add: segment_progress)

declare normalize_loop.simps [simp del]

definition sw_decode_request_path :: "cptr \<Rightarrow> nat \<Rightarrow> cptr" where
  "sw_decode_request_path request_path out_cap =
     (case request_path of None \<Rightarrow> None
      | Some rp \<Rightarrow>
          if out_cap = 0 then None
          else case decode_path_loop (take (sw_http_path_length (Some rp)) rp) of
            None \<Rightarrow> None
          | Some decoded \<Rightarrow>
              (case normalize_loop out_cap [] decoded of
                 None \<Rightarrow> None
               | Some out \<Rightarrow> if length out > 0 then Some out else None))"

section \<open>Content types\<close>

definition file_ext :: "string \<Rightarrow> cptr" where
  "file_ext path =
     (case dropWhile (\<lambda>c. c \<noteq> CHR ''.'') (rev (cstr path)) of [] \<Rightarrow> None
      | _ # _ \<Rightarrow> Some (''.'' @ rev (takeWhile (\<lambda>c. c \<noteq> CHR ''.'') (rev (cstr path)))))"

definition sw_guess_content_type :: "string \<Rightarrow> string" where
  "sw_guess_content_type path =
     (let ext = file_ext path; is = (\<lambda>e. sw_stricmp_ascii ext (Some e) = 0) in
      if ext = None then ''application/octet-stream''
      else if is ''.html'' \<or> is ''.htm'' then ''text/html; charset=utf-8''
      else if is ''.css'' then ''text/css; charset=utf-8''
      else if is ''.js'' then ''application/javascript; charset=utf-8''
      else if is ''.json'' then ''application/json; charset=utf-8''
      else if is ''.png'' then ''image/png''
      else if is ''.jpg'' \<or> is ''.jpeg'' then ''image/jpeg''
      else if is ''.gif'' then ''image/gif''
      else if is ''.svg'' then ''image/svg+xml''
      else if is ''.txt'' then ''text/plain; charset=utf-8''
      else ''application/octet-stream'')"

section \<open>Which file to serve\<close>

text \<open>
  \<open>Reply_status\<close> is a call of \<^verbatim>\<open>sw_http_reply_status_text\<close>, \<open>Send_file\<close> one of \<^verbatim>\<open>sw_http_send_file\<close>.
\<close>

datatype serve_decision = Reply_status int string | Send_file string | Refused

definition sw_http_serve_path ::
  "(string \<Rightarrow> cptr) \<Rightarrow> (string \<Rightarrow> bool) \<Rightarrow> cptr \<Rightarrow> cptr \<Rightarrow> serve_decision" where
  "sw_http_serve_path realpath stat_ok docroot request_path =
     (if docroot = None \<or> request_path = None then Refused
      else case sw_path_real realpath docroot 4096 of
        None \<Rightarrow> Reply_status 500 ''Static asset root is not available''
      | Some docroot_real \<Rightarrow>
          (case sw_decode_request_path request_path 4096 of
             None \<Rightarrow> Reply_status 403 ''Forbidden''
           | Some relative_path \<Rightarrow>
               let (joined_path, ok) = sw_path_join 4096 (Some docroot_real) (Some relative_path) in
               if \<not> ok then Reply_status 404 ''File not found''
               else if \<not> stat_ok joined_path then Reply_status 404 ''File not found''
               else case sw_path_real realpath (Some joined_path) 4096 of
                 None \<Rightarrow> Reply_status 404 ''File not found''
               | Some target_real \<Rightarrow>
                   if \<not> sw_path_has_prefix (Some target_real) (Some docroot_real)
                   then Reply_status 403 ''Forbidden''
                   else Send_file target_real))"

section \<open>The reference normalisation\<close>

fun split_seps :: "string \<Rightarrow> string list" where
  "split_seps [] = [[]]"
| "split_seps (c # cs) =
     (if sw_path_is_separator c then [] # split_seps cs
      else (case split_seps cs of [] \<Rightarrow> [[c]] | x # xs \<Rightarrow> (c # x) # xs))"

definition path_segments :: "string \<Rightarrow> string list" where
  "path_segments s = filter (\<lambda>x. x \<noteq> [] \<and> x \<noteq> ''.'') (split_seps s)"

fun join_segments :: "string list \<Rightarrow> string" where
  "join_segments [] = []"
| "join_segments [x] = x"
| "join_segments (x # xs) = x @ ''/'' @ join_segments xs"

lemma split_seps_eq:
  "split_seps s = takeWhile (\<lambda>c. \<not> sw_path_is_separator c) s #
     (case dropWhile (\<lambda>c. \<not> sw_path_is_separator c) s of [] \<Rightarrow> [] | _ # r \<Rightarrow> split_seps r)"
  by (induction s) auto

lemma path_segments_sep: "sw_path_is_separator c \<Longrightarrow> path_segments (c # s) = path_segments s"
  by (simp add: path_segments_def)

lemma path_segments_drop: "path_segments (dropWhile sw_path_is_separator s) = path_segments s"
  by (induction s) (simp_all add: path_segments_sep)

lemma path_segments_step:
  fixes s :: string
  defines "d \<equiv> dropWhile sw_path_is_separator s"
  defines "x \<equiv> takeWhile (\<lambda>c. \<not> sw_path_is_separator c) d"
  shows "path_segments s = (if x = [] \<or> x = ''.'' then [] else [x]) @
    path_segments (dropWhile (\<lambda>c. \<not> sw_path_is_separator c) d)"
proof -
  let ?r = "dropWhile (\<lambda>c. \<not> sw_path_is_separator c) d"
  have "path_segments s = path_segments d" by (simp add: d_def path_segments_drop)
  also have "\<dots> = (if x = [] \<or> x = ''.'' then [] else [x]) @
      filter (\<lambda>x. x \<noteq> [] \<and> x \<noteq> ''.'') (case ?r of [] \<Rightarrow> [] | _ # r \<Rightarrow> split_seps r)"
    unfolding path_segments_def by (subst split_seps_eq) (simp add: x_def)
  also have "filter (\<lambda>x. x \<noteq> [] \<and> x \<noteq> ''.'') (case ?r of [] \<Rightarrow> [] | _ # r \<Rightarrow> split_seps r) = path_segments ?r"
  proof (cases ?r)
    case (Cons c r)
    then have "sw_path_is_separator c" using hd_dropWhile[of "\<lambda>c. \<not> sw_path_is_separator c" d] by auto
    with Cons show ?thesis by (simp add: path_segments_def)
  next
    case Nil
    show ?thesis unfolding Nil by (simp add: path_segments_def)
  qed
  finally show ?thesis .
qed

lemma join_segments_append:
  "xs \<noteq> [] \<Longrightarrow> ys \<noteq> [] \<Longrightarrow> join_segments (xs @ ys) = join_segments xs @ ''/'' @ join_segments ys"
proof (induction xs rule: join_segments.induct)
  case (2 x)
  then show ?case by (cases ys) auto
qed auto

lemma length_join_mono: "length (join_segments xs) \<le> length (join_segments (xs @ ys))"
  by (cases "xs = []"; cases "ys = []") (simp_all add: join_segments_append)

lemma join_segments_eq_Nil: "\<forall>x\<in>set xs. x \<noteq> [] \<Longrightarrow> join_segments xs = [] \<longleftrightarrow> xs = []"
  by (cases xs rule: join_segments.cases) auto

lemma normalize_loop_eq:
  assumes "\<forall>x\<in>set done. x \<noteq> []" and "length (join_segments done) < cap"
  shows "normalize_loop cap (join_segments done) data =
    (let segs = path_segments data in
     if ''..'' \<in> set segs \<or> cap \<le> length (join_segments (done @ segs)) then None
     else Some (join_segments (done @ segs)))"
  using assms
proof (induction data arbitrary: "done" rule: length_induct)
  case (1 data)
  let ?d = "dropWhile sw_path_is_separator data"
  let ?x = "takeWhile (\<lambda>c. \<not> sw_path_is_separator c) ?d" and ?r = "dropWhile (\<lambda>c. \<not> sw_path_is_separator c) ?d"
  show ?case
  proof (cases "data = []")
    case True
    with 1(3) show ?thesis by (simp add: normalize_loop.simps path_segments_def)
  next
    case ne: False
    have ih: "normalize_loop cap (join_segments dn) ?r =
        (let segs = path_segments ?r in
         if ''..'' \<in> set segs \<or> cap \<le> length (join_segments (dn @ segs)) then None
         else Some (join_segments (dn @ segs)))"
      if "\<forall>x\<in>set dn. x \<noteq> []" "length (join_segments dn) < cap" for dn
      using 1(1) segment_progress[OF ne] that by blast
    note un = normalize_loop.simps[of cap "join_segments done" data]
    show ?thesis
    proof (cases "?x = [] \<or> ?x = ''.''")
      case True
      then have "normalize_loop cap (join_segments done) data = normalize_loop cap (join_segments done) ?r"
        using ne by (subst un) (auto simp: Let_def)
      moreover have "path_segments data = path_segments ?r" using path_segments_step[of data] True by simp
      ultimately show ?thesis using ih[OF 1(2,3)] by simp
    next
      case x: False
      have seg: "path_segments data = ?x # path_segments ?r" using path_segments_step[of data] x by simp
      let ?out = "if join_segments done \<noteq> [] then join_segments done @ ''/'' else join_segments done"
      have j: "?out @ ?x = join_segments (done @ [?x])"
        using join_segments_eq_Nil[OF 1(2)] join_segments_append[of "done" "[?x]"] by auto
      have step: "normalize_loop cap (join_segments done) data =
          (if ?x = ''..'' then None
           else if length (join_segments (done @ [?x])) \<ge> cap then None
           else normalize_loop cap (join_segments (done @ [?x])) ?r)"
        using ne x unfolding j[symmetric] by (subst un) (auto simp: Let_def)
      show ?thesis
      proof (cases "?x = ''..'' \<or> length (join_segments (done @ [?x])) \<ge> cap")
        case True
        then show ?thesis
          using step seg length_join_mono[of "done @ [?x]" "path_segments ?r"] by (auto simp: Let_def)
      next
        case False
        then have "normalize_loop cap (join_segments done) data = normalize_loop cap (join_segments (done @ [?x])) ?r"
          using step by auto
        also have "\<dots> = (let segs = path_segments ?r in
           if ''..'' \<in> set segs \<or> cap \<le> length (join_segments ((done @ [?x]) @ segs)) then None
           else Some (join_segments ((done @ [?x]) @ segs)))"
          using 1(2) x False by (intro ih) auto
        finally show ?thesis using seg False by (auto simp: Let_def)
      qed
    qed
  qed
qed

lemma decode_request_path_eq:
  assumes "0 < cap"
  shows "sw_decode_request_path (Some rp) cap =
    (case decode_path_loop (uri_path rp) of None \<Rightarrow> None
     | Some decoded \<Rightarrow>
         (let segs = path_segments decoded in
          if ''..'' \<in> set segs \<or> segs = [] \<or> length (join_segments segs) \<ge> cap then None
          else Some (join_segments segs)))"
proof -
  have t: "take (sw_http_path_length (Some rp)) rp = uri_path rp"
    unfolding path_length_uri_path using uri_path_take[of rp] length_cstr_le[of rp]
    by (metis cstr_def takeWhile_eq_take take_take min.absorb1 length_take uri_path_def length_takeWhile_le)
  have ne: "\<forall>x\<in>set (path_segments s). x \<noteq> []" for s by (auto simp: path_segments_def)
  have norm: "normalize_loop cap [] decoded = (let segs = path_segments decoded in
      if ''..'' \<in> set segs \<or> cap \<le> length (join_segments segs) then None else Some (join_segments segs))" for decoded
    using normalize_loop_eq[of "[]" cap decoded] assms by (simp add: Let_def)
  show ?thesis
    using assms join_segments_eq_Nil[OF ne]
    by (auto simp: sw_decode_request_path_def t norm Let_def split: option.splits)
qed

definition no_sep :: "string \<Rightarrow> bool" where
  "no_sep x \<longleftrightarrow> (\<forall>c\<in>set x. \<not> sw_path_is_separator c)"

lemma split_seps_no_sep: "\<forall>x\<in>set (split_seps s). no_sep x"
  by (induction s) (auto simp: no_sep_def split: list.splits if_splits)

lemma split_seps_join:
  assumes "xs \<noteq> []" and "\<forall>x\<in>set xs. no_sep x"
  shows "split_seps (join_segments xs) = xs"
proof -
  have none: "split_seps x = [x]" if "no_sep x" for x
    using that by (induction x) (auto simp: no_sep_def)
  have cons: "split_seps (x @ CHR ''/'' # t) = x # split_seps t" if "no_sep x" for x t
    using that by (induction x) (auto simp: no_sep_def sw_path_is_separator_def)
  show ?thesis using assms
    by (induction xs rule: join_segments.induct) (simp_all add: none cons)
qed

lemma decode_path_no_NUL: "decode_path_loop s = Some d \<Longrightarrow> NUL \<notin> set d"
  by (induction s arbitrary: d rule: decode_path_loop.induct)
    (auto simp: Let_def split: if_splits list.splits)

lemma set_split_seps: "\<forall>x\<in>set (split_seps s). set x \<subseteq> set s"
  by (induction s) (auto split: list.splits if_splits)

lemma set_join_segments: "set (join_segments xs) \<subseteq> \<Union>(set ` set xs) \<union> {CHR ''/''}"
  by (induction xs rule: join_segments.induct) auto

lemma decoded_path_safe:
  assumes "sw_decode_request_path (Some rp) cap = Some p"
  shows "p \<noteq> [] \<and> length p < cap \<and> NUL \<notin> set p \<and> BSL \<notin> set p \<and>
    (\<forall>x\<in>set (split_seps p). x \<noteq> [] \<and> x \<noteq> ''.'' \<and> x \<noteq> ''..'')"
proof -
  have "0 < cap" using assms by (auto simp: sw_decode_request_path_def split: if_splits)
  note eq = decode_request_path_eq[OF this, of rp]
  from assms obtain d where dd: "decode_path_loop (uri_path rp) = Some d"
    unfolding eq by (cases "decode_path_loop (uri_path rp)") simp_all
  have "''..'' \<notin> set (path_segments d) \<and> path_segments d \<noteq> [] \<and> length p < cap \<and>
      p = join_segments (path_segments d)"
    using assms unfolding eq dd option.case Let_def by (simp split: if_splits)
  then have d: "decode_path_loop (uri_path rp) = Some d" "''..'' \<notin> set (path_segments d)"
    "path_segments d \<noteq> []" "length p < cap" "p = join_segments (path_segments d)"
    using dd by blast+
  let ?segs = "path_segments d"
  have ne: "\<forall>x\<in>set ?segs. x \<noteq> [] \<and> x \<noteq> ''.''" by (auto simp: path_segments_def)
  have ns: "\<forall>x\<in>set ?segs. no_sep x" using split_seps_no_sep[of d] by (auto simp: path_segments_def)
  have sub: "\<forall>x\<in>set ?segs. set x \<subseteq> set d" using set_split_seps[of d] by (auto simp: path_segments_def)
  have "BSL \<notin> set p" using set_join_segments[of ?segs] ns d(5)
    by (auto simp: no_sep_def sw_path_is_separator_def)
  moreover have "NUL \<notin> set p"
    using set_join_segments[of ?segs] sub d(5) decode_path_no_NUL[OF d(1)] by auto
  moreover have "split_seps p = ?segs" using split_seps_join[OF d(3) ns] d(5) by simp
  moreover have "p \<noteq> []" using d(3,5) ne join_segments_eq_Nil[of ?segs] by simp
  ultimately show ?thesis using ne d(2,4) by auto
qed

section \<open>Containment of directories\<close>

text \<open>
  What POSIX means by one path lying inside another, stated without the code's test: a path names the
  nonempty strings between its slashes, a backslash being an ordinary character of a name, and a
  canonical absolute path lies inside a directory when the names of the directory are the first names
  of the path.
\<close>

fun split_slash :: "string \<Rightarrow> string list" where
  "split_slash [] = [[]]"
| "split_slash (c # cs) =
     (if c = CHR ''/'' then [] # split_slash cs
      else (case split_slash cs of [] \<Rightarrow> [[c]] | x # xs \<Rightarrow> (c # x) # xs))"

definition path_names :: "string \<Rightarrow> string list" where
  "path_names p = filter (\<lambda>x. x \<noteq> []) (split_slash p)"

definition inside :: "string \<Rightarrow> string \<Rightarrow> bool" where
  "inside root t \<longleftrightarrow> (\<exists>rest. path_names t = path_names root @ rest)"

lemma split_slash_not_Nil [simp]: "split_slash s \<noteq> []"
  by (cases s) (auto split: list.splits)

lemma split_slash_append: "split_slash (a @ CHR ''/'' # b) = split_slash a @ split_slash b"
  by (induction a) (auto split: list.splits)

lemma path_names_slash: "path_names (a @ CHR ''/'' # b) = path_names a @ path_names b"
  by (simp add: path_names_def split_slash_append)

lemma path_names_end: "path_names (a @ ''/'') = path_names a"
  using path_names_slash[of a "[]"] by (simp add: path_names_def)

lemma has_prefix_split:
  "sw_path_has_prefix (Some t) (Some root) \<longleftrightarrow>
     (\<exists>r. cstr t = cstr root @ r \<and> (r = [] \<or> (cstr root \<noteq> [] \<and> sw_path_is_separator (last (cstr root))) \<or>
        sw_path_is_separator (hd r)))"
  by (auto simp: sw_path_has_prefix_def Let_def match_at_eq_iff nth_append hd_conv_nth)

lemma append_inside: "r = [] \<or> (root \<noteq> [] \<and> last root = CHR ''/'') \<or> hd r = CHR ''/'' \<Longrightarrow> inside root (root @ r)"
proof (elim disjE)
  assume "root \<noteq> [] \<and> last root = CHR ''/''"
  then obtain q where "root = q @ ''/''" by (metis append_butlast_last_id)
  then show ?thesis using path_names_slash[of q r] path_names_end[of q] by (simp add: inside_def)
next
  assume "hd r = CHR ''/''"
  then show ?thesis using path_names_slash[of root "tl r"] by (cases r) (auto simp: inside_def)
qed (simp add: inside_def)

lemma split_slash_join:
  "split_slash (a @ b) =
     butlast (split_slash a) @ (last (split_slash a) @ hd (split_slash b)) # tl (split_slash b)"
proof (induction a)
  case (Cons c cs)
  obtain x xs where x: "split_slash cs = x # xs" by (cases "split_slash cs") auto
  then have "split_slash (cs @ b) = butlast (x # xs) @ (last (x # xs) @ hd (split_slash b)) # tl (split_slash b)"
    using Cons.IH by (simp only:)
  then show ?case using x by (cases xs) simp_all
qed simp

lemma last_split_slash: "a \<noteq> [] \<Longrightarrow> last a \<noteq> CHR ''/'' \<Longrightarrow> last (split_slash a) \<noteq> []"
proof (induction a)
  case (Cons c cs)
  show ?case
  proof (cases "cs = []")
    case False
    obtain x xs where "split_slash cs = x # xs" by (cases "split_slash cs") auto
    then show ?thesis using Cons.IH Cons.prems False by (auto split: if_splits)
  qed (use Cons.prems in simp)
qed simp

lemma longer_name_outside:
  assumes "root \<noteq> []" and "last root \<noteq> CHR ''/''" and "c \<noteq> CHR ''/''"
  shows "\<not> inside root (root @ c # rest)"
proof -
  let ?xs = "filter (\<lambda>x. x \<noteq> []) (butlast (split_slash root))" and ?n = "last (split_slash root)"
  have n: "?n \<noteq> []" using assms by (simp add: last_split_slash)
  have "filter (\<lambda>x. x \<noteq> []) (butlast (split_slash root) @ [?n]) = ?xs @ [?n]" using n by (simp del: append_butlast_last_id)
  then have root: "path_names root = ?xs @ [?n]"
    unfolding path_names_def append_butlast_last_id[OF split_slash_not_Nil] .
  obtain y where y: "hd (split_slash (c # rest)) = c # y"
    using assms(3) by (cases "split_slash rest") auto
  have "path_names (root @ c # rest) = ?xs @ (?n @ c # y) # filter (\<lambda>x. x \<noteq> []) (tl (split_slash (c # rest)))"
    unfolding path_names_def split_slash_join y by simp
  then show ?thesis unfolding inside_def root by auto
qed

lemma has_prefix_inside:
  assumes "sw_path_has_prefix (Some t) (Some root)"
  shows "inside (cstr root) (cstr t) \<or>
    (\<exists>r. r \<noteq> [] \<and> cstr t = cstr root @ r \<and> (hd r = BSL \<or> (cstr root \<noteq> [] \<and> last (cstr root) = BSL)))"
proof -
  obtain r where r: "cstr t = cstr root @ r" "r = [] \<or> (cstr root \<noteq> [] \<and> sw_path_is_separator (last (cstr root))) \<or>
        sw_path_is_separator (hd r)"
    using assms has_prefix_split by blast
  show ?thesis
  proof (cases "r = [] \<or> (cstr root \<noteq> [] \<and> last (cstr root) = CHR ''/'') \<or> hd r = CHR ''/''")
    case True
    then show ?thesis using append_inside r(1) by simp
  next
    case False
    then have "r \<noteq> []" "hd r = BSL \<or> (cstr root \<noteq> [] \<and> last (cstr root) = BSL)"
      using r(2) by (auto simp: sw_path_is_separator_def)
    with r(1) show ?thesis by blast
  qed
qed

lemma serve_path_file:
  assumes "sw_http_serve_path realpath stat_ok (Some docroot) (Some rp) = Send_file t"
  obtains root rel joined r where "realpath (cstr docroot) = Some root"
    "sw_decode_request_path (Some rp) 4096 = Some rel" "sw_path_join 4096 (Some (cstr root)) (Some rel) = (joined, True)"
    "stat_ok joined" "realpath joined = Some r" "t = cstr r" "sw_path_has_prefix (Some t) (Some (cstr root))"
proof -
  obtain dr where dr: "sw_path_real realpath (Some docroot) 4096 = Some dr"
    using assms by (auto simp: sw_http_serve_path_def split: option.splits)
  obtain rel where rel: "sw_decode_request_path (Some rp) 4096 = Some rel"
    using assms dr by (auto simp: sw_http_serve_path_def split: option.splits)
  obtain joined where st: "sw_path_join 4096 (Some dr) (Some rel) = (joined, True)" "stat_ok joined"
    "sw_path_real realpath (Some joined) 4096 = Some t" "sw_path_has_prefix (Some t) (Some dr)"
    using assms dr rel by (auto simp: sw_http_serve_path_def split: option.splits if_splits prod.splits)
  obtain root where root: "realpath (cstr docroot) = Some root" "dr = cstr root"
    using dr by (auto simp: sw_path_real_def split: option.splits if_splits)
  obtain r where r: "realpath (cstr joined) = Some r" "t = cstr r"
    using st(3) by (auto simp: sw_path_real_def split: option.splits if_splits)
  have "NUL \<notin> set rel" using decoded_path_safe[OF rel] by blast
  then have "NUL \<notin> set joined"
    using st(1) root(2) by (auto simp: sw_path_join_def Let_def cstr_ident dest: in_set_takeD split: if_splits)
  then have "cstr joined = joined" by (rule cstr_ident)
  then show ?thesis using that[OF root(1) rel] root(2) st r by simp
qed

section \<open>Properties\<close>

text \<open>
  C9. Path normalisation is exact: the decoded path is accepted when none of its segments (between
  slashes and backslashes) is \<^verbatim>\<open>..\<close>, at least one is neither empty nor \<^verbatim>\<open>.\<close>, and the result fits; the
  result is those segments, in order, joined by single slashes.
\<close>

theorem request_path_normalised:
  assumes "0 < cap"
  shows "sw_decode_request_path (Some rp) cap =
    (case decode_path_loop (uri_path rp) of None \<Rightarrow> None
     | Some decoded \<Rightarrow>
         (let segs = path_segments decoded in
          if ''..'' \<in> set segs \<or> segs = [] \<or> length (join_segments segs) \<ge> cap then None
          else Some (join_segments segs)))"
  using decode_request_path_eq[OF assms] .

theorem request_path_normalised_witness:
  "sw_decode_request_path (Some ''/a/./b%2Ec?x'') 4096 = Some ''a/b.c''"
proof -
  have "char_of (46 :: nat) = CHR ''.''" using char_of_byte[of "CHR ''.''"] by (simp add: byte_def)
  then show ?thesis
    by (subst request_path_normalised)
      (simp_all add: uri_path_def path_segments_def sw_path_is_separator_def sw_hex_value_def byte_def)
qed

text \<open>
  Path traversal: whatever the request asks for, percent-encoded or not, an accepted path is
  relative, has no NUL and no backslash, fits its buffer, and every segment of it is a name:
  neither empty nor \<^verbatim>\<open>.\<close> nor \<^verbatim>\<open>..\<close>.
\<close>

theorem request_path_safe:
  assumes "sw_decode_request_path (Some rp) cap = Some p"
  shows "p \<noteq> [] \<and> length p < cap \<and> NUL \<notin> set p \<and> BSL \<notin> set p \<and>
    (\<forall>x\<in>set (split_seps p). x \<noteq> [] \<and> x \<noteq> ''.'' \<and> x \<noteq> ''..'')"
  by (rule decoded_path_safe[OF assms])

theorem request_path_safe_witness: "length ''index.html'' < 4096 \<and> NUL \<notin> set ''index.html''"
proof -
  have "sw_decode_request_path (Some ''/index.html'') 4096 = Some ''index.html''"
    by (simp add: sw_decode_request_path_def sw_http_path_length_def normalize_loop.simps sw_path_is_separator_def Let_def)
  from request_path_safe[OF this] show ?thesis by blast
qed

text \<open>
  C8. Containment: whatever the file system holds, symbolic links included, a file that is sent is
  the resolved path of an existing file, reached by a request path that normalisation accepted, and
  that resolved path lies inside the resolved document root, name by name, with one exception: it
  may be the root's own path continued by a backslash, which POSIX reads as the name of another
  directory (see the next property). So when the resolved path holds no backslash, the file is
  inside the root.
\<close>

theorem served_file_contained:
  assumes "sw_http_serve_path realpath stat_ok (Some docroot) (Some rp) = Send_file t"
  shows "\<exists>root rel joined r. realpath (cstr docroot) = Some root \<and>
      sw_decode_request_path (Some rp) 4096 = Some rel \<and>
      sw_path_join 4096 (Some (cstr root)) (Some rel) = (joined, True) \<and>
      stat_ok joined \<and> realpath joined = Some r \<and> t = cstr r \<and>
      (inside (cstr root) t \<or>
       (\<exists>x. x \<noteq> [] \<and> t = cstr root @ x \<and> (hd x = BSL \<or> (cstr root \<noteq> [] \<and> last (cstr root) = BSL))))"
proof -
  obtain root rel joined r where f: "realpath (cstr docroot) = Some root"
    "sw_decode_request_path (Some rp) 4096 = Some rel" "sw_path_join 4096 (Some (cstr root)) (Some rel) = (joined, True)"
    "stat_ok joined" "realpath joined = Some r" "t = cstr r" "sw_path_has_prefix (Some t) (Some (cstr root))"
    by (rule serve_path_file[OF assms])
  have "cstr t = t" "cstr (cstr root) = cstr root" using f(6) by simp_all
  then show ?thesis using f has_prefix_inside[OF f(7)] by auto
qed

text \<open>A document root with a link inside it: \<^verbatim>\<open>/srv/www/a\<close> is a link to \<^verbatim>\<open>/srv/www/b\<close>.\<close>

definition linked_files :: "string \<Rightarrow> cptr" where
  "linked_files p = (if p = ''www'' then Some ''/srv/www'' else if p = ''/srv/www/a'' then Some ''/srv/www/b'' else None)"

theorem served_file_contained_witness:
  "sw_http_serve_path linked_files (\<lambda>p. p = ''/srv/www/a'') (Some ''www'') (Some ''/a'') = Send_file ''/srv/www/b'' \<and>
   inside ''/srv/www'' ''/srv/www/b''"
proof -
  have serve: "sw_http_serve_path linked_files (\<lambda>p. p = ''/srv/www/a'') (Some ''www'') (Some ''/a'') = Send_file ''/srv/www/b''"
    by (simp add: sw_http_serve_path_def sw_path_real_def linked_files_def sw_decode_request_path_def sw_path_join_def
        sw_http_path_length_def normalize_loop.simps sw_path_is_separator_def sw_path_has_prefix_def Let_def cstr_def)
  from served_file_contained[OF this] have "inside ''/srv/www'' ''/srv/www/b''"
    by (auto simp: linked_files_def cstr_def)
  with serve show ?thesis by blast
qed

text \<open>
  C38. The test for containment takes a backslash for a separator on POSIX as well. A link inside the
  document root that leads to a file of a sibling directory whose name continues the root's name with
  a backslash is followed and the file is sent, although it is outside the root.
\<close>

theorem backslash_sibling_served:
  assumes "realpath (cstr docroot) = Some root" "sw_decode_request_path (Some rp) 4096 = Some rel"
    and "sw_path_join 4096 (Some root) (Some rel) = (joined, True)" "stat_ok joined" "cstr joined = joined"
    and "realpath joined = Some t" "t = root @ BSL # rest" "NUL \<notin> set t" "length t < 4096"
    and "root \<noteq> []" "last root \<noteq> CHR ''/''"
  shows "sw_http_serve_path realpath stat_ok (Some docroot) (Some rp) = Send_file t \<and> \<not> inside root t"
proof
  have c: "cstr t = t" "cstr root = root" using assms(7,8) by (auto intro: cstr_ident)
  then have "sw_path_has_prefix (Some t) (Some root)"
    unfolding has_prefix_split using assms(7) by (auto simp: sw_path_is_separator_def)
  then show "sw_http_serve_path realpath stat_ok (Some docroot) (Some rp) = Send_file t"
    using assms c by (simp add: sw_http_serve_path_def sw_path_real_def)
  show "\<not> inside root t" using longer_name_outside[OF assms(10,11), of BSL rest] assms(7) by simp
qed

definition sibling_files :: "string \<Rightarrow> cptr" where
  "sibling_files p = (if p = ''www'' then Some ''/srv/www''
     else if p = ''/srv/www/a'' then Some (''/srv/www'' @ BSL # ''/key'') else None)"

theorem backslash_sibling_served_witness:
  "sw_http_serve_path sibling_files (\<lambda>p. p = ''/srv/www/a'') (Some ''www'') (Some ''/a'') =
     Send_file (''/srv/www'' @ BSL # ''/key'') \<and> \<not> inside ''/srv/www'' (''/srv/www'' @ BSL # ''/key'')"
  by (rule backslash_sibling_served[where rel = "''a''" and joined = "''/srv/www/a''" and rest = "''/key''"])
    (simp_all add: sibling_files_def sw_decode_request_path_def sw_path_join_def
      sw_http_path_length_def normalize_loop.simps sw_path_is_separator_def Let_def cstr_def)

end
