(* ===== verification/Multipart.thy ===== *)
theory Multipart
  imports Query
begin

text \<open>
  Multipart form bodies, \<^verbatim>\<open>src/sw_server.c\<close>: the boundary search, the iterator
  \<^verbatim>\<open>sw_http_next_multipart\<close>, and the form variables read through it. A part's data pointer is the
  bytes it points at; the iterator's in-out offset is an argument and part of the result.
\<close>

record sw_http_multipart =
  mp_boundary :: cptr
  mp_data :: cptr
  mp_data_len :: nat
  mp_name :: cptr
  mp_filename :: cptr
  mp_content_type :: cptr

definition sw_http_multipart_clear :: "sw_http_multipart \<Rightarrow> sw_http_multipart" where
  "sw_http_multipart_clear mp = \<lparr>mp_boundary = None, mp_data = None, mp_data_len = 0,
     mp_name = None, mp_filename = None, mp_content_type = None\<rparr>"

section \<open>The boundary search\<close>

lemma find_bytes_from_ge: "sw_find_bytes_from d k n = Some e \<Longrightarrow> k \<le> e"
  by (auto simp: sw_find_bytes_from_def split: option.splits if_splits)

function find_boundary_loop :: "string \<Rightarrow> nat \<Rightarrow> string \<Rightarrow> bool \<Rightarrow> nat \<Rightarrow> nat option" where
  "find_boundary_loop data offset marker require_crlf_prefix pos =
     (if \<not> pos < length data then None
      else case sw_find_bytes_from data pos marker of
        None \<Rightarrow> None
      | Some p \<Rightarrow>
          if \<not> require_crlf_prefix \<and> p = offset then Some p
          else if require_crlf_prefix \<and> p \<ge> 2 \<and> data ! (p - 2) = CR \<and> data ! (p - 1) = LF then Some p
          else find_boundary_loop data offset marker require_crlf_prefix (p + 1))"
  by pat_completeness auto

termination
  by (relation "measure (\<lambda>(data, offset, marker, r, pos). length data - pos)") (auto dest: find_bytes_from_ge)

declare find_boundary_loop.simps [simp del]

definition sw_find_multipart_boundary :: "string \<Rightarrow> nat \<Rightarrow> string \<Rightarrow> bool \<Rightarrow> nat option" where
  "sw_find_multipart_boundary data offset boundary_marker require_crlf_prefix =
     find_boundary_loop data offset boundary_marker require_crlf_prefix offset"

section \<open>The headers of a part\<close>

definition part_header_line :: "string \<Rightarrow> sw_http_multipart \<Rightarrow> sw_http_multipart option" where
  "part_header_line line mp =
     (if sw_header_value_matches_name (Some line) (Some ''Content-Disposition'') then
        (case sw_parse_disposition_param (Some line) (Some ''name'') of
           None \<Rightarrow> None
         | Some n \<Rightarrow> Some (mp\<lparr>mp_name := Some n,
             mp_filename := sw_parse_disposition_param (Some line) (Some ''filename'')\<rparr>))
      else if sw_header_value_matches_name (Some line) (Some ''Content-Type'') then
        (case split_at_char (CHR '':'') line of
           None \<Rightarrow> Some mp
         | Some (_, after) \<Rightarrow> Some (mp\<lparr>mp_content_type := sw_strdup_trimmed_range (Some after)\<rparr>))
      else Some mp)"

function part_headers :: "string \<Rightarrow> nat \<Rightarrow> nat \<Rightarrow> sw_http_multipart \<Rightarrow> sw_http_multipart option" where
  "part_headers body headers_end line_offset mp =
     (if \<not> line_offset < headers_end then Some mp
      else case sw_find_crlf_from (take (headers_end + 2) body) line_offset of
        None \<Rightarrow> Some mp
      | Some line_end \<Rightarrow>
          let line_len = line_end - line_offset in
          if line_len = 0 then Some mp
          else case part_header_line (take line_len (drop line_offset body)) mp of
            None \<Rightarrow> None
          | Some mp' \<Rightarrow> part_headers body headers_end (line_end + 2) mp')"
  by pat_completeness auto
termination
  by (relation "measure (\<lambda>(body, headers_end, line_offset, mp). headers_end - line_offset)")
    (auto dest!: find_crlf_bounds)

declare part_headers.simps [simp del]

section \<open>The iterator\<close>

definition sw_http_next_multipart ::
  "sw_http_message option \<Rightarrow> nat \<Rightarrow> (sw_http_multipart \<times> nat) option" where
  "sw_http_next_multipart hm offset =
     (case hm of None \<Rightarrow> None
      | Some m \<Rightarrow>
          let content_type = sw_http_header_get (Some m) (Some ''Content-Type'') in
          if offset > hm_body_len m \<or> content_type = None
             \<or> \<not> sw_http_content_type_matches content_type (Some ''multipart/form-data'') then None
          else case (sw_http_content_type_boundary content_type 256, hm_body m) of
            (Some boundary, Some body_mem) \<Rightarrow>
              (let body = take (hm_body_len m) body_mem;
                   boundary_marker = ''--'' @ boundary in
               if length boundary_marker \<ge> 260 \<or> length (crlf @ boundary_marker) \<ge> 262 then None
               else case sw_find_multipart_boundary body offset boundary_marker False of
                 None \<Rightarrow> None
               | Some part_boundary \<Rightarrow>
                   let part_offset = part_boundary + length boundary_marker in
                   if part_offset + 2 \<le> length body \<and> body ! part_offset = CHR ''-'' \<and> body ! (part_offset + 1) = CHR ''-''
                   then None
                   else if part_offset + 2 > length body \<or> body ! part_offset \<noteq> CR \<or> body ! (part_offset + 1) \<noteq> LF
                   then None
                   else case sw_find_bytes_from body (part_offset + 2) crlf2 of
                     None \<Rightarrow> None
                   | Some headers_end \<Rightarrow>
                       (case sw_find_multipart_boundary body (headers_end + 4) boundary_marker True of
                          None \<Rightarrow> None
                        | Some next_boundary \<Rightarrow>
                            let len0 = next_boundary - (headers_end + 4);
                                data_len = (if len0 \<ge> 2 \<and> body ! (next_boundary - 2) = CR \<and> body ! (next_boundary - 1) = LF
                                            then len0 - 2 else len0) in
                            (case part_headers body headers_end (part_offset + 2)
                                \<lparr>mp_boundary = Some boundary, mp_data = Some (take data_len (drop (headers_end + 4) body)),
                                 mp_data_len = data_len, mp_name = None, mp_filename = None, mp_content_type = None\<rparr> of
                               None \<Rightarrow> None
                             | Some mp \<Rightarrow> Some (mp, next_boundary))))
          | _ \<Rightarrow> None)"

lemma find_boundary_loop_ge:
  "marker \<noteq> [] \<Longrightarrow> find_boundary_loop data offset marker r pos = Some p \<Longrightarrow> pos \<le> p \<and> p + length marker \<le> length data"
proof (induction data offset marker r pos rule: find_boundary_loop.induct)
  case (1 data offset marker r pos)
  from 1(3) obtain q where q: "pos < length data" "sw_find_bytes_from data pos marker = Some q"
    by (subst (asm) find_boundary_loop.simps) (auto split: if_splits option.splits)
  note b = find_bytes_from_bounds[OF 1(2) q(2)]
  show ?case
  proof (cases "p = q")
    case False
    with 1(3) q have "find_boundary_loop data offset marker r (q + 1) = Some p"
      and c: "\<not> (\<not> r \<and> q = offset)" "\<not> (r \<and> q \<ge> 2 \<and> data ! (q - 2) = CR \<and> data ! (q - 1) = LF)"
      by (subst (asm) find_boundary_loop.simps; auto split: if_splits)+
    from 1(1)[OF _ q(2) c 1(2) this(1)] q(1) b show ?thesis by simp
  qed (use b in simp)
qed

lemma next_multipart_progress:
  assumes "sw_http_next_multipart hm offset = Some (mp, next)"
  shows "offset < next \<and> (\<exists>m. hm = Some m \<and> next \<le> hm_body_len m)"
proof -
  obtain m where m: "hm = Some m" using assms by (auto simp: sw_http_next_multipart_def split: option.splits)
  obtain b bm where b: "sw_http_content_type_boundary (sw_http_header_get (Some m) (Some ''Content-Type'')) 256 = Some b"
    "hm_body m = Some bm"
    using assms m by (auto simp: sw_http_next_multipart_def Let_def split: option.splits if_splits)
  let ?body = "take (hm_body_len m) bm"
  obtain pb he nb where r: "sw_find_multipart_boundary ?body offset (''--'' @ b) False = Some pb"
    "sw_find_bytes_from ?body (pb + length (''--'' @ b) + 2) crlf2 = Some he"
    "sw_find_multipart_boundary ?body (he + 4) (''--'' @ b) True = Some nb" "next = nb"
    using assms m b unfolding sw_http_next_multipart_def Let_def
    by (auto split: option.splits if_splits)
  have "offset \<le> pb" "he + 4 \<le> nb" "nb + length (''--'' @ b) \<le> length ?body"
    using find_boundary_loop_ge[OF _ r(1)[unfolded sw_find_multipart_boundary_def]]
      find_boundary_loop_ge[OF _ r(3)[unfolded sw_find_multipart_boundary_def]] by simp_all
  moreover have "pb + length (''--'' @ b) + 2 \<le> he" using find_bytes_from_ge[OF r(2)] .
  ultimately show ?thesis using m r(4) by auto
qed

section \<open>Form variables\<close>

definition sw_http_copy_multipart_data :: "sw_http_multipart \<Rightarrow> nat \<Rightarrow> int \<times> string" where
  "sw_http_copy_multipart_data mp buf_len =
     (if buf_len = 0 then (-1, [])
      else
        let copy_len = (if mp_data_len mp < buf_len - 1 then mp_data_len mp else buf_len - 1) in
        case mp_data mp of
          Some d \<Rightarrow> (i32_of_sz copy_len, take copy_len d)
        | None \<Rightarrow> if copy_len > 0 then (-1, []) else (i32_of_sz copy_len, []))"

function multipart_form_loop :: "sw_http_message \<Rightarrow> string \<Rightarrow> nat \<Rightarrow> nat \<Rightarrow> int \<times> string" where
  "multipart_form_loop m name buf_len offset =
     (case sw_http_next_multipart (Some m) offset of
        None \<Rightarrow> (0, [])
      | Some (part, offset') \<Rightarrow>
          if mp_filename part = None \<and> mp_name part \<noteq> None \<and> cstr (the (mp_name part)) = cstr name
          then sw_http_copy_multipart_data part buf_len
          else multipart_form_loop m name buf_len offset')"
  by pat_completeness auto
termination
  by (relation "measure (\<lambda>(m, name, buf_len, offset). Suc (hm_body_len m) - offset)")
    (auto dest!: next_multipart_progress)

declare multipart_form_loop.simps [simp del]

definition sw_http_get_multipart_form :: "sw_http_message \<Rightarrow> string \<Rightarrow> nat \<Rightarrow> int \<times> string" where
  "sw_http_get_multipart_form m name buf_len = multipart_form_loop m name buf_len 0"

definition sw_http_get_form :: "sw_http_message option \<Rightarrow> cptr \<Rightarrow> nat \<Rightarrow> int \<times> string" where
  "sw_http_get_form hm name buf_len =
     (case (hm, name) of
        (Some m, Some n) \<Rightarrow>
          (if buf_len = 0 then (-1, [])
           else
             let content_type = sw_http_header_get (Some m) (Some ''Content-Type'') in
             if sw_http_content_type_matches content_type (Some ''multipart/form-data'')
                \<and> sw_http_content_type_boundary content_type 256 \<noteq> None
             then sw_http_get_multipart_form m n buf_len
             else if hm_body m = None \<or> hm_body_len m = 0 then (0, [])
             else sw_http_decode_var (map_option (take (hm_body_len m)) (hm_body m)) (Some n) buf_len 0)
      | _ \<Rightarrow> (-1, []))"

section \<open>Rendering a multipart body\<close>

record part =
  pt_name :: string
  pt_filename :: cptr
  pt_type :: cptr
  pt_data :: string

definition part_lines :: "part \<Rightarrow> string list" where
  "part_lines p =
     (''Content-Disposition: form-data; name='' @ [DQ] @ pt_name p @ [DQ] @
        (case pt_filename p of None \<Rightarrow> [] | Some f \<Rightarrow> ''; filename='' @ [DQ] @ f @ [DQ])) #
     (case pt_type p of None \<Rightarrow> [] | Some t \<Rightarrow> [''Content-Type:'' @ t])"

definition render_part :: "string \<Rightarrow> part \<Rightarrow> string" where
  "render_part b p = ''--'' @ b @ crlf @ join_lines (part_lines p) @ crlf @ pt_data p @ crlf"

definition render_multipart :: "string \<Rightarrow> part list \<Rightarrow> string" where
  "render_multipart b ps = concat (map (render_part b) ps) @ ''--'' @ b @ ''--'' @ crlf"

definition param_ok :: "string \<Rightarrow> bool" where
  "param_ok v \<longleftrightarrow> set v \<inter> {DQ, BSL, CR} = {} \<and> trim v = v"

definition boundary_free :: "string \<Rightarrow> string \<Rightarrow> bool" where
  "boundary_free b d \<longleftrightarrow>
     list_all (\<lambda>j. \<not> match_at (=) (crlf @ ''--'' @ b) (drop j (crlf @ d @ crlf @ ''--'' @ b))) [0..<length d + 2]"

definition part_ok :: "string \<Rightarrow> part \<Rightarrow> bool" where
  "part_ok b p \<longleftrightarrow> param_ok (pt_name p) \<and> (\<forall>f. pt_filename p = Some f \<longrightarrow> param_ok f) \<and>
     (\<forall>t. pt_type p = Some t \<longrightarrow> CR \<notin> set t \<and> trim t = t) \<and> boundary_free b (pt_data p)"

definition mk_part :: "string \<Rightarrow> part \<Rightarrow> sw_http_multipart" where
  "mk_part b p = \<lparr>mp_boundary = Some b, mp_data = Some (pt_data p), mp_data_len = length (pt_data p),
     mp_name = Some (pt_name p), mp_filename = pt_filename p, mp_content_type = pt_type p\<rparr>"

section \<open>Header parameters of a rendered part\<close>

lemma quoted_span_plain:
  "set v \<inter> {DQ, BSL} = {} \<Longrightarrow> quoted_span (v @ DQ # t) = (v, DQ # t)"
proof (induction v)
  case Nil
  then show ?case by (cases t) auto
next
  case (Cons c v)
  then show ?case by (cases "v @ DQ # t") auto
qed

lemma isspace_eval:
  "isspace (CHR '' '')" "\<not> isspace (CHR ''n'')" "\<not> isspace (CHR ''f'')" "\<not> isspace (CHR '';'')" "\<not> isspace DQ"
  "\<not> isspace (CHR ''e'')" "\<not> isspace (CHR ''a'')"
  by (simp_all add: isspace_def byte_def)

lemma disposition_skip: "disposition_loop key ('' form-data'' @ CHR '';'' # t) = disposition_loop key (CHR '';'' # t)"
  by (subst disposition_loop.simps)
    (simp add: skip_seps_def key_part_def after_key_def to_semicolon_def isspace_eval Let_def)

lemma disposition_param:
  assumes "param_ok v" and "p = ''name'' \<or> p = ''filename''"
  shows "disposition_loop key (''; '' @ p @ ''='' @ DQ # v @ DQ # t) =
    (if length p = length key \<and> sw_ascii_case_equal_range (Some p) (Some key) (length key) then Some v
     else disposition_loop key (to_semicolon t))"
proof -
  define s where "s = ''; '' @ p @ ''='' @ DQ # v @ DQ # t"
  have a: "after_key (skip_seps s) = CHR ''='' # DQ # v @ DQ # t" "key_part (skip_seps s) = p" "s \<noteq> []"
    using assms(2) by (auto simp: s_def skip_seps_def key_part_def after_key_def isspace_eval)
  have p: "rtrim p = p" using assms(2) by (intro rtrim_ident) (auto simp: isspace_eval)
  have q: "quoted_span (v @ DQ # t) = (v, DQ # t)"
    using assms(1) by (intro quoted_span_plain) (auto simp: param_ok_def)
  have "disposition_loop key s =
      (if length p = length key \<and> sw_ascii_case_equal_range (Some p) (Some key) (length key)
       then sw_strdup_trimmed_range (Some v) else disposition_loop key (to_semicolon (DQ # t)))"
    by (subst disposition_loop.simps) (simp add: a p q Let_def isspace_eval)
  then show ?thesis using assms(1) unfolding s_def[symmetric]
    by (simp add: sw_strdup_trimmed_range_def param_ok_def to_semicolon_def)
qed

lemma tolower_eval:
  "tolower (CHR ''n'') = CHR ''n''" "tolower (CHR ''a'') = CHR ''a''" "tolower (CHR ''m'') = CHR ''m''"
  "tolower (CHR ''e'') = CHR ''e''" "tolower (CHR ''f'') = CHR ''f''"
  by (simp_all add: tolower_def isupper_def byte_def)

lemma disposition_params:
  fixes n :: string and f :: cptr
  assumes "param_ok n" and "\<forall>x. f = Some x \<longrightarrow> param_ok x"
  defines "line \<equiv> ''Content-Disposition: form-data; name='' @ [DQ] @ n @ [DQ] @
    (case f of None \<Rightarrow> [] | Some f \<Rightarrow> ''; filename='' @ [DQ] @ f @ [DQ])"
  shows "sw_parse_disposition_param (Some line) (Some ''name'') = Some n"
    "sw_parse_disposition_param (Some line) (Some ''filename'') = f"
proof -
  let ?t = "case f of None \<Rightarrow> [] | Some f \<Rightarrow> ''; filename='' @ [DQ] @ f @ [DQ]"
  have l: "sw_parse_disposition_param (Some line) (Some k) = disposition_loop k (''; '' @ ''name'' @ ''='' @ DQ # n @ DQ # ?t)"
    if "cstr k = k" "k \<noteq> []" for k
    using that disposition_skip[of k "'' name='' @ DQ # n @ DQ # ?t"]
    by (simp add: sw_parse_disposition_param_def line_def)
  have "disposition_loop ''name'' (''; '' @ ''name'' @ ''='' @ DQ # n @ DQ # ?t) = Some n"
    by (subst disposition_param[OF assms(1)]) (simp_all add: sw_ascii_case_equal_range_def)
  then show "sw_parse_disposition_param (Some line) (Some ''name'') = Some n"
    using l[of "''name''"] by simp
  have "disposition_loop ''filename'' (to_semicolon ?t) = f"
  proof (cases f)
    case (Some x)
    have "to_semicolon ?t = ''; '' @ ''filename'' @ ''='' @ DQ # x @ DQ # []" using Some by (simp add: to_semicolon_def)
    then show ?thesis using disposition_param[of x "''filename''" "''filename''" "[]"] assms(2) Some
      by (simp add: sw_ascii_case_equal_range_def)
  qed (simp add: to_semicolon_def disposition_loop.simps)
  then show "sw_parse_disposition_param (Some line) (Some ''filename'') = f"
    using l[of "''filename''"] disposition_param[OF assms(1), of "''name''" "''filename''" ?t]
    by (simp add: sw_ascii_case_equal_range_def)
qed

section \<open>One rendered part\<close>

definition good_boundary :: "string \<Rightarrow> string \<Rightarrow> nat \<Rightarrow> bool" where
  "good_boundary m data p \<longleftrightarrow> occurs_at m data p \<and> p \<ge> 2 \<and> data ! (p - 2) = CR \<and> data ! (p - 1) = LF"

lemma find_boundary_first:
  assumes "m \<noteq> []" and "good_boundary m data e"
  shows "pos \<le> e \<Longrightarrow> \<forall>p. pos \<le> p \<and> p < e \<longrightarrow> \<not> good_boundary m data p \<Longrightarrow>
    find_boundary_loop data off m True pos = Some e"
proof (induction "e - pos" arbitrary: pos rule: less_induct)
  case less
  have oc: "occurs_at m data e" using assms(2) by (simp add: good_boundary_def)
  have len: "e < length data" using occurs_at_length[OF oc] assms(1) by (cases m) auto
  have "sw_find_bytes_from data pos m \<noteq> None"
    using find_bytes_from_None_iff[OF assms(1), of pos data] less.prems(1) oc len by auto
  then obtain q where q: "sw_find_bytes_from data pos m = Some q" by blast
  then have fq: "pos \<le> q" "occurs_at m data q" "\<forall>j. pos \<le> j \<and> j < q \<longrightarrow> \<not> occurs_at m data j"
    by (auto simp: find_bytes_from_Some_iff[OF assms(1)])
  have "q \<le> e" using fq(3) oc less.prems(1) by (meson not_le)
  have un: "find_boundary_loop data off m True pos =
      (if good_boundary m data q then Some q else find_boundary_loop data off m True (q + 1))"
    using less.prems(1) len q fq(2) by (subst find_boundary_loop.simps) (simp add: good_boundary_def)
  show ?case
  proof (cases "q = e")
    case True
    with un assms(2) show ?thesis by simp
  next
    case False
    with \<open>q \<le> e\<close> have "q < e" by simp
    then have "\<not> good_boundary m data q" using less.prems(2) fq(1) by blast
    moreover have "find_boundary_loop data off m True (q + 1) = Some e"
      using less.hyps[of "q + 1"] \<open>q < e\<close> fq(1) less.prems by auto
    ultimately show ?thesis using un by simp
  qed
qed

text \<open>The boundary behind the data: the first one preceded by a line break.\<close>

lemma find_data_boundary:
  assumes "boundary_free b d" and "data = pre @ crlf @ d @ crlf @ ''--'' @ b @ rest"
  shows "sw_find_multipart_boundary data (length pre + 2) (''--'' @ b) True = Some (length pre + 2 + length d + 2)"
proof -
  let ?m = "''--'' @ b" and ?e = "length pre + 2 + length d + 2"
  let ?t = "crlf @ d @ crlf @ ?m"
  have dt: "data = pre @ ?t @ rest" by (simp add: assms(2))
  have d2: "data = (pre @ crlf @ d @ crlf) @ ?m @ rest" by (simp add: assms(2))
  have "?e = length (pre @ crlf @ d @ crlf)" by simp
  then have "drop ?e data = ?m @ rest" by (metis append_eq_conv_conj d2)
  moreover have "data ! (?e - 2) = CR" "data ! (?e - 1) = LF"
    by (simp_all add: assms(2) nth_append)
  ultimately have e: "good_boundary ?m data ?e" by (simp add: good_boundary_def occurs_at_def d2)
  have "\<not> good_boundary ?m data p" if p: "length pre + 2 \<le> p" "p < ?e" for p
  proof
    assume g: "good_boundary ?m data p"
    define j where "j = p - (length pre + 2)"
    have pj: "p = length pre + 2 + j" "j < length d + 2" using p by (auto simp: j_def)
    have occ: "occurs_at (crlf @ ?m) data (length pre + j)"
    proof -
      obtain u where u: "p \<le> length data" "drop p data = ?m @ u"
        using g by (auto simp: good_boundary_def occurs_at_def)
      have l: "length pre + j + 1 < length data" using pj u(1) by simp
      have "data ! (length pre + j) = CR" "data ! Suc (length pre + j) = LF"
        using g pj(1) by (auto simp: good_boundary_def)
      then have "drop (length pre + j) data = CR # LF # drop p data"
        using l pj(1) by (metis Cons_nth_drop_Suc Suc_eq_plus1 Suc_lessD add_2_eq_Suc' add.commute add.left_commute)
      with u l show ?thesis by (simp add: occurs_at_def)
    qed
    then have "occurs_at (crlf @ ?m) (?t @ rest) j"
      unfolding dt by (auto simp: occurs_at_def)
    then have "occurs_at (crlf @ ?m) ?t j"
      using occurs_at_append[of j "crlf @ ?m" ?t rest] pj(2) by simp
    then have "match_at (=) (crlf @ ?m) (drop j ?t)" by (auto simp: occurs_at_def match_at_eq_iff)
    moreover have "j \<in> set [0..<length d + 2]" using pj(2) by (simp only: set_upt atLeastLessThan_iff) simp
    ultimately show False using assms(1) unfolding boundary_free_def list_all_iff by blast
  qed
  then show ?thesis
    unfolding sw_find_multipart_boundary_def by (intro find_boundary_first[OF _ e]) auto
qed

fun fold_part_lines :: "string list \<Rightarrow> sw_http_multipart \<Rightarrow> sw_http_multipart option" where
  "fold_part_lines [] mp = Some mp"
| "fold_part_lines (l # ls) mp =
     (case part_header_line l mp of None \<Rightarrow> None | Some mp' \<Rightarrow> fold_part_lines ls mp')"

lemma part_headers_lines:
  assumes "\<forall>l\<in>set ls. line_ok l" and "he + 2 = length pre + length (join_lines ls)"
  shows "part_headers (pre @ join_lines ls @ crlf @ rest) he (length pre) mp = fold_part_lines ls mp"
  using assms
proof (induction ls arbitrary: pre mp)
  case Nil
  then show ?case by (simp add: part_headers.simps)
next
  case (Cons l ls)
  let ?d = "pre @ join_lines (l # ls) @ crlf @ rest" and ?e = "length pre + length l"
  from Cons.prems have l: "l \<noteq> []" "CR \<notin> set l" by (auto simp: line_ok_def)
  have he: "he = ?e + length (join_lines ls)" using Cons.prems(2) by simp
  have "take (he + 2) ?d = pre @ l @ crlf @ join_lines ls" by (simp add: he)
  then have "sw_find_crlf_from (take (he + 2) ?d) (length pre) = Some ?e"
    using find_crlf_line[OF l(2), of pre "join_lines ls"] by simp
  moreover have "take (?e - length pre) (drop (length pre) ?d) = l" by simp
  moreover have "part_headers ?d he (?e + 2) s = fold_part_lines ls s" for s
    using Cons.IH[of "pre @ l @ crlf" s] Cons.prems by (simp add: add.assoc)
  ultimately show ?case
    using l(1) by (subst part_headers.simps) (simp add: he Let_def del: join_lines_simps split: option.split)
qed

lemma isalpha_tolower: "isupper c \<Longrightarrow> byte (tolower c) = byte c + 32"
  by (simp add: byte_tolower)

lemma matches_content_names:
  "sw_header_value_matches_name (Some (''Content-Disposition:'' @ t)) (Some ''Content-Disposition'')"
  "sw_header_value_matches_name (Some (''Content-Type:'' @ t)) (Some ''Content-Type'')"
  "\<not> sw_header_value_matches_name (Some (''Content-Type:'' @ t)) (Some ''Content-Disposition'')"
  by (simp_all add: sw_header_value_matches_name_def Let_def tolower_def isupper_def byte_def)

lemma fold_part_lines_rendered:
  assumes "part_ok b p"
  shows "fold_part_lines (part_lines p) mp =
    Some (mp\<lparr>mp_name := Some (pt_name p), mp_filename := pt_filename p,
      mp_content_type := (case pt_type p of None \<Rightarrow> mp_content_type mp | Some t \<Rightarrow> Some t)\<rparr>)"
proof -
  have d: "sw_header_value_matches_name (Some (''Content-Disposition: form-data; name='' @ t)) (Some ''Content-Disposition'')" for t
    using matches_content_names(1)[of "'' form-data; name='' @ t"] by simp
  have ct: "part_header_line (''Content-Type:'' @ t) mp' = Some (mp'\<lparr>mp_content_type := Some t\<rparr>)"
    if "trim t = t" for t mp'
    using matches_content_names(2,3)[of t] that split_at_char_append[of "CHR '':''" "''Content-Type''" t]
    by (simp add: part_header_line_def sw_strdup_trimmed_range_def)
  have ok: "param_ok (pt_name p)" "\<forall>f. pt_filename p = Some f \<longrightarrow> param_ok f" using assms by (simp_all add: part_ok_def)
  have l1: "part_header_line (''Content-Disposition: form-data; name='' @ [DQ] @ pt_name p @ [DQ] @
      (case pt_filename p of None \<Rightarrow> [] | Some f \<Rightarrow> ''; filename='' @ [DQ] @ f @ [DQ])) mp =
    Some (mp\<lparr>mp_name := Some (pt_name p), mp_filename := pt_filename p\<rparr>)"
    unfolding part_header_line_def using d disposition_params[OF ok] by simp
  show ?thesis
    using l1 ct assms by (auto simp: part_lines_def part_ok_def simp del: append.simps split: option.splits)
qed

section \<open>The whole body\<close>

lemma part_lines_ok: "part_ok b p \<Longrightarrow> (\<forall>l\<in>set (part_lines p). line_ok l) \<and> part_lines p \<noteq> []"
  by (auto simp: part_ok_def part_lines_def line_ok_def param_ok_def split: option.splits)

definition is_multipart :: "sw_http_message \<Rightarrow> string \<Rightarrow> string \<Rightarrow> bool" where
  "is_multipart m b body \<longleftrightarrow>
     (\<exists>ct. sw_http_header_get (Some m) (Some ''Content-Type'') = Some ct \<and>
        sw_http_content_type_matches (Some ct) (Some ''multipart/form-data'') \<and>
        sw_http_content_type_boundary (Some ct) 256 = Some b) \<and>
     hm_body m = Some body \<and> hm_body_len m = length body"

lemma find_boundary_at:
  assumes "occurs_at (''--'' @ b) data k"
  shows "sw_find_multipart_boundary data k (''--'' @ b) False = Some k"
proof -
  have "sw_find_bytes_from data k (''--'' @ b) = Some k"
    using assms by (subst find_bytes_from_Some_iff) (auto simp: occurs_at_def)
  moreover have "k < length data" using occurs_at_length[OF assms] by simp
  ultimately show ?thesis
    unfolding sw_find_multipart_boundary_def by (subst find_boundary_loop.simps) simp
qed

lemma find_bytes_from_prefix:
  "sw_find_bytes_from (pre @ x) (length pre) n = map_option (\<lambda>k. length pre + k) (sw_find_bytes x n)"
  by (auto simp: sw_find_bytes_from_def split: option.splits)

lemma next_rendered_part:
  assumes "is_multipart m b body" and "body = pre @ render_part b p @ ''--'' @ b @ rest" and "part_ok b p"
  shows "sw_http_next_multipart (Some m) (length pre) = Some (mk_part b p, length pre + length (render_part b p))"
proof -
  let ?m = "''--'' @ b" and ?ls = "part_lines p" and ?d = "pt_data p"
  define po where "po = length pre + length ?m"
  define he where "he = po + 2 + (length (join_lines ?ls) - 2)"
  obtain ct where ct: "sw_http_header_get (Some m) (Some ''Content-Type'') = Some ct"
    "sw_http_content_type_matches (Some ct) (Some ''multipart/form-data'')"
    "sw_http_content_type_boundary (Some ct) 256 = Some b" and bd: "hm_body m = Some body" "hm_body_len m = length body"
    using assms(1) by (auto simp: is_multipart_def)
  have bl: "length b < 256" using boundary_bounds[OF ct(3)] by simp
  have lo: "\<forall>l\<in>set ?ls. line_ok l" "?ls \<noteq> []" using part_lines_ok[OF assms(3)] by auto
  have two: "2 \<le> length (join_lines ?ls)" using lo(2) by (cases ?ls) auto
  have b1: "body = (pre @ ?m) @ crlf @ join_lines ?ls @ crlf @ ?d @ crlf @ ?m @ rest"
    by (simp add: assms(2) render_part_def)
  have b2: "body = (pre @ ?m @ crlf) @ (join_lines ?ls @ crlf @ (?d @ crlf @ ?m @ rest))" by (simp add: b1)
  have b3: "body = (pre @ ?m @ crlf @ join_lines ?ls) @ crlf @ ?d @ crlf @ ''--'' @ b @ rest" by (simp add: b1)
  have "drop (length pre) body = ?m @ crlf @ join_lines ?ls @ crlf @ ?d @ crlf @ ?m @ rest" by (simp add: b1)
  then have "occurs_at ?m body (length pre)" by (auto simp: occurs_at_def b1)
  then have f1: "sw_find_multipart_boundary body (length pre) ?m False = Some (length pre)"
    by (rule find_boundary_at)
  have po2: "po + 2 \<le> length body" "body ! po = CR" "body ! (po + 1) = LF"
    by (simp_all add: b1 po_def nth_append)
  have f2: "sw_find_bytes_from body (po + 2) crlf2 = Some he"
    using find_bytes_from_prefix[of "pre @ ?m @ crlf" "join_lines ?ls @ crlf @ (?d @ crlf @ ?m @ rest)" crlf2]
      find_blank_line[OF lo, of "?d @ crlf @ ?m @ rest"]
    by (simp add: b2[symmetric] po_def he_def del: append.simps append_assoc)
  have he4: "he + 4 = length (pre @ ?m @ crlf @ join_lines ?ls) + 2" using two by (simp add: he_def po_def)
  define nb where "nb = length (pre @ ?m @ crlf @ join_lines ?ls) + 2 + length ?d + 2"
  have bf: "boundary_free b ?d" using assms(3) by (simp add: part_ok_def)
  have f3: "sw_find_multipart_boundary body (he + 4) ?m True = Some nb"
    unfolding he4 nb_def by (rule find_data_boundary[OF bf b3])
  have b4: "body = (pre @ ?m @ crlf @ join_lines ?ls @ crlf @ ?d) @ crlf @ ?m @ rest" by (simp add: b1)
  have nb: "nb - 2 = length (pre @ ?m @ crlf @ join_lines ?ls @ crlf @ ?d)" "nb - 1 = Suc (nb - 2)" "2 \<le> nb - (he + 4)"
    "nb - (he + 4) - 2 = length ?d"
    using he4 by (simp_all add: nb_def)
  have cr: "body ! (nb - 2) = CR" "body ! (nb - 1) = LF"
    unfolding nb(2) unfolding nb(1) by (subst b4, simp only: nth_append_length nth_append, simp)+
  have dd: "take (length ?d) (drop (he + 4) body) = ?d"
  proof -
    have "body = (pre @ ?m @ crlf @ join_lines ?ls @ crlf) @ ?d @ crlf @ ?m @ rest" by (simp add: b1)
    moreover have "he + 4 = length (pre @ ?m @ crlf @ join_lines ?ls @ crlf)" using he4 by simp
    ultimately show ?thesis by (metis append_eq_conv_conj)
  qed
  have hd: "part_headers body he (po + 2) mp = fold_part_lines ?ls mp" for mp
  proof -
    have "he + 2 = length (pre @ ?m @ crlf) + length (join_lines ?ls)" using two by (simp add: he_def po_def)
    from part_headers_lines[OF lo(1) this, of "?d @ crlf @ ?m @ rest" mp] show ?thesis
      by (simp add: b2[symmetric] po_def del: append.simps append_assoc)
  qed
  have res: "nb = length pre + length (render_part b p)" by (simp add: nb_def render_part_def)
  have c1: "\<not> (po + 2 \<le> length body \<and> body ! po = CHR ''-'' \<and> body ! (po + 1) = CHR ''-'')"
    "\<not> (po + 2 > length body \<or> body ! po \<noteq> CR \<or> body ! (po + 1) \<noteq> LF)" using po2 by auto
  have c2: "\<not> (length pre > hm_body_len m \<or> Some ct = None \<or>
      \<not> sw_http_content_type_matches (Some ct) (Some ''multipart/form-data''))" using ct bd b1 by simp
  have c3: "\<not> (260 \<le> length ?m \<or> 262 \<le> length (crlf @ ?m))" using bl by simp
  have dl: "(if 2 \<le> nb - (he + 4) \<and> body ! (nb - 2) = CR \<and> body ! (nb - 1) = LF then nb - (he + 4) - 2
      else nb - (he + 4)) = length ?d" using nb cr by simp
  have tk: "take (hm_body_len m) body = body" using bd by simp
  show ?thesis
    unfolding sw_http_next_multipart_def option.case Let_def ct(1) if_not_P[OF c2] ct(3) bd(1) prod.case tk
      if_not_P[OF c3] f1 po_def[symmetric] if_not_P[OF c1(1)] if_not_P[OF c1(2)] f2 f3 dl dd hd
      fold_part_lines_rendered[OF assms(3)]
    by (cases "pt_type p") (simp_all add: mk_part_def res)
qed

text \<open>Reading up to \<open>n\<close> parts from an offset on.\<close>

primrec take_parts :: "nat \<Rightarrow> sw_http_message \<Rightarrow> nat \<Rightarrow> sw_http_multipart list" where
  "take_parts 0 m offset = []"
| "take_parts (Suc n) m offset =
     (case sw_http_next_multipart (Some m) offset of None \<Rightarrow> []
      | Some (mp, next) \<Rightarrow> mp # take_parts n m next)"

lemma next_after_last:
  assumes "is_multipart m b body" and "body = pre @ ''--'' @ b @ ''--'' @ rest"
  shows "sw_http_next_multipart (Some m) (length pre) = None"
proof -
  let ?m = "''--'' @ b"
  have "drop (length pre) body = ?m @ ''--'' @ rest" by (simp add: assms(2))
  then have "occurs_at ?m body (length pre)" by (auto simp: occurs_at_def assms(2))
  then have f1: "sw_find_multipart_boundary body (length pre) ?m False = Some (length pre)"
    by (rule find_boundary_at)
  have "length pre + length ?m + 2 \<le> length body" "body ! (length pre + length ?m) = CHR ''-''"
    "body ! (length pre + length ?m + 1) = CHR ''-''"
    by (simp_all add: assms(2) nth_append)
  then show ?thesis
    using assms(1) f1 by (auto simp: sw_http_next_multipart_def is_multipart_def Let_def simp del: append.simps)
qed

lemma take_rendered_parts:
  assumes "is_multipart m b body" and "\<forall>p\<in>set ps. part_ok b p"
  shows "body = pre @ concat (map (render_part b) ps) @ ''--'' @ b @ ''--'' @ crlf \<Longrightarrow>
    take_parts (Suc (length ps)) m (length pre) = map (mk_part b) ps"
  using assms(2)
proof (induction ps arbitrary: pre)
  case Nil
  then show ?case using next_after_last[OF assms(1)] by simp
next
  case (Cons p ps)
  obtain r where r: "concat (map (render_part b) ps) @ ''--'' @ b @ ''--'' @ crlf = ''--'' @ b @ r"
    by (cases ps) (auto simp: render_part_def)
  have "sw_http_next_multipart (Some m) (length pre) = Some (mk_part b p, length pre + length (render_part b p))"
    by (rule next_rendered_part[OF assms(1)]) (use Cons.prems r in auto)
  moreover have "take_parts (Suc (length ps)) m (length (pre @ render_part b p)) = map (mk_part b) ps"
    by (rule Cons.IH) (use Cons.prems in auto)
  ultimately show ?case by simp
qed

text \<open>The form loop over rendered parts: the first part that is not a file and has the name.\<close>

definition is_field :: "string \<Rightarrow> part \<Rightarrow> bool" where
  "is_field name p \<longleftrightarrow> pt_filename p = None \<and> cstr (pt_name p) = cstr name"

lemma form_loop_rendered:
  assumes "is_multipart m b body" and "\<forall>p\<in>set ps. part_ok b p" and "0 < buf_len"
  shows "body = pre @ concat (map (render_part b) ps) @ ''--'' @ b @ ''--'' @ crlf \<Longrightarrow>
    multipart_form_loop m name buf_len (length pre) =
    (case find (is_field name) ps of None \<Rightarrow> (0, [])
     | Some p \<Rightarrow> (i32_of_sz (length (take (buf_len - 1) (pt_data p))), take (buf_len - 1) (pt_data p)))"
  using assms(2)
proof (induction ps arbitrary: pre)
  case Nil
  then show ?case using next_after_last[OF assms(1)] by (subst multipart_form_loop.simps) simp
next
  case (Cons p ps)
  obtain r where r: "concat (map (render_part b) ps) @ ''--'' @ b @ ''--'' @ crlf = ''--'' @ b @ r"
    by (cases ps) (auto simp: render_part_def)
  have nx: "sw_http_next_multipart (Some m) (length pre) = Some (mk_part b p, length pre + length (render_part b p))"
    by (rule next_rendered_part[OF assms(1)]) (use Cons.prems r in auto)
  have ih: "multipart_form_loop m name buf_len (length (pre @ render_part b p)) =
    (case find (is_field name) ps of None \<Rightarrow> (0, [])
     | Some p \<Rightarrow> (i32_of_sz (length (take (buf_len - 1) (pt_data p))), take (buf_len - 1) (pt_data p)))"
    by (rule Cons.IH) (use Cons.prems in auto)
  have "(mp_filename (mk_part b p) = None \<and> mp_name (mk_part b p) \<noteq> None \<and>
      cstr (the (mp_name (mk_part b p))) = cstr name) = is_field name p"
    by (simp add: mk_part_def is_field_def)
  moreover have "sw_http_copy_multipart_data (mk_part b p) buf_len =
      (i32_of_sz (length (take (buf_len - 1) (pt_data p))), take (buf_len - 1) (pt_data p))"
    using assms(3) by (auto simp: sw_http_copy_multipart_data_def mk_part_def Let_def min_def)
  ultimately show ?case using ih nx by (subst multipart_form_loop.simps) simp
qed

section \<open>Properties\<close>

text \<open>
  C10. Multipart bodies round trip: any list of parts - names, file names and types that can be
  quoted, data of any bytes in which the boundary does not occur - rendered as a form body is
  read back by the iterator part by part with the same names, file names, types and data, and
  the iterator stops at the closing boundary.
\<close>

theorem multipart_roundtrip:
  assumes "is_multipart m b (render_multipart b ps)" and "\<forall>p\<in>set ps. part_ok b p"
  shows "take_parts (Suc (length ps)) m 0 = map (mk_part b) ps"
  using take_rendered_parts[OF assms, of "[]"] by (simp add: render_multipart_def)

definition example_parts :: "part list" where
  "example_parts = [\<lparr>pt_name = ''a'', pt_filename = None, pt_type = None, pt_data = ''1''\<rparr>,
     \<lparr>pt_name = ''f'', pt_filename = Some ''x.t'', pt_type = Some ''t/p'', pt_data = [CR, LF]\<rparr>]"

definition example_message :: sw_http_message where
  "example_message = empty_message\<lparr>
     hm_headers := [\<lparr>hd_name = Some ''Content-Type'', hd_value = Some ''multipart/form-data; boundary=Q''\<rparr>],
     hm_body := Some (render_multipart ''Q'' example_parts),
     hm_body_len := length (render_multipart ''Q'' example_parts)\<rparr>"

lemma example_boundary: "sw_http_content_type_boundary (Some ''multipart/form-data; boundary=Q'') 256 = Some ''Q''"
proof -
  have "boundary_loop 256 ''; boundary=Q'' = Some ''Q''"
    by (subst boundary_loop.simps)
      (simp add: skip_seps_def key_part_def after_key_def rtrim_def isspace_def byte_def Let_def
        sw_ascii_case_equal_range_def)
  then have "boundary_loop 256 ''multipart/form-data; boundary=Q'' = Some ''Q''"
    by (subst boundary_loop.simps)
      (simp add: skip_seps_def key_part_def after_key_def to_semicolon_def isspace_def byte_def Let_def)
  then show ?thesis by (simp add: sw_http_content_type_boundary_def)
qed

lemma example_multipart: "is_multipart example_message ''Q'' (render_multipart ''Q'' example_parts)"
proof -
  have "sw_http_content_type_matches (Some ''multipart/form-data; boundary=Q'') (Some ''multipart/form-data'')"
    by (simp add: sw_http_content_type_matches_def sw_ascii_case_equal_range_def rtrim_def isspace_def byte_def Let_def)
  then show ?thesis
    using example_boundary by (simp add: is_multipart_def example_message_def sw_http_header_get_def)
qed

lemma example_parts_ok: "\<forall>p\<in>set example_parts. part_ok ''Q'' p"
  by (simp add: example_parts_def part_ok_def param_ok_def boundary_free_def trim_def ltrim_def rtrim_def
      isspace_def byte_def upt_rec)

theorem multipart_roundtrip_witness:
  "take_parts 3 example_message 0 = map (mk_part ''Q'') example_parts"
  using multipart_roundtrip[OF example_multipart example_parts_ok]
  by (simp add: example_parts_def numeral_3_eq_3)

text \<open>
  Form variables of a multipart body: the value read is the data of the first part of that name
  that is not a file, cut to the buffer, and nothing when there is none; an uploaded file never
  passes for a variable.
\<close>

theorem form_field_roundtrip:
  assumes "is_multipart m b (render_multipart b ps)" and "\<forall>p\<in>set ps. part_ok b p" and "0 < buf_len"
  shows "sw_http_get_form (Some m) (Some name) buf_len =
    (case find (is_field name) ps of None \<Rightarrow> (0, [])
     | Some p \<Rightarrow> (i32_of_sz (length (take (buf_len - 1) (pt_data p))), take (buf_len - 1) (pt_data p)))"
  using form_loop_rendered[OF assms, of "[]" name] assms(1,3)
  by (auto simp: sw_http_get_form_def sw_http_get_multipart_form_def render_multipart_def is_multipart_def)

theorem form_field_roundtrip_witness:
  "sw_http_get_form (Some example_message) (Some ''a'') 8 = (i32_of_sz 1, ''1'')"
  using form_field_roundtrip[OF example_multipart example_parts_ok, of 8 "''a''"]
  by (simp add: example_parts_def is_field_def)

end
