(* ===== verification/Upload.thy ===== *)
theory Upload
  imports Multipart Connection
begin

text \<open>
  Saving uploads, \<^verbatim>\<open>src/sw_server.c\<close>: the reader that takes the body of a streamed request first
  from the connection's read buffer and then from the socket, its lines, the data of a part up to
  the boundary marker, and \<^verbatim>\<open>sw_http_upload_save_fields\<close> on streamed and on buffered bodies.

  What \<^verbatim>\<open>recv\<close> and the clock give from now on is a list of events: bytes that have arrived (with
  the time of the activity mark), nothing yet (with the time compared with the deadline), the end
  of the stream, an error; the empty list stands for a peer that stays silent until the deadline.
  A \<^verbatim>\<open>recv\<close> takes at most the bytes it asks for, the rest stays in the list. Files are a map from
  paths to contents; opening, writing at an offset and closing may fail, as the parameter
  \<open>disk\<close> says. \<open>path_fn\<close> is the callback that names the file. The new timer entry of
  \<^verbatim>\<open>sw_connection_mark_activity\<close> belongs to the manager and is left out here.
\<close>

section \<open>The reader\<close>

datatype net_event = Net_data real string | Net_again real | Net_closed | Net_error

record sw_upload_reader =
  ur_connection :: sw_connection
  ur_remaining :: nat
  ur_buffered_used :: nat
  ur_socket_buffer :: string
  ur_socket_pos :: nat
  ur_socket_len :: nat
  ur_deadline_ms :: real
  ur_net :: "net_event list"

definition SW_UPLOAD_READ_CHUNK_BYTES :: nat where
  "SW_UPLOAD_READ_CHUNK_BYTES = 16 * 1024"

abbreviation ur_buffer :: "sw_upload_reader \<Rightarrow> string" where
  "ur_buffer r \<equiv> c_read_buffer (ur_connection r)"

definition sw_upload_reader_consume_buffered :: "sw_upload_reader \<Rightarrow> sw_upload_reader" where
  "sw_upload_reader_consume_buffered r =
     (if ur_buffered_used r > 0
      then r\<lparr>ur_connection := (ur_connection r)\<lparr>c_read_buffer := drop (ur_buffered_used r) (ur_buffer r)\<rparr>,
             ur_buffered_used := 0\<rparr>
      else r)"

text \<open>
  The loop on the socket; \<open>net\<close> are the events still to come. A \<^verbatim>\<open>recv\<close> of no bytes is the end of
  the stream.
\<close>

fun upload_socket_loop :: "net_event list \<Rightarrow> sw_upload_reader \<Rightarrow> char option \<times> sw_upload_reader" where
  "upload_socket_loop net r =
     (if ur_socket_pos r < ur_socket_len r
      then (Some (ur_socket_buffer r ! ur_socket_pos r),
            r\<lparr>ur_socket_pos := ur_socket_pos r + 1, ur_remaining := ur_remaining r - 1, ur_net := net\<rparr>)
      else case net of
        [] \<Rightarrow> (None, r\<lparr>ur_net := []\<rparr>)
      | Net_data now bytes # rest \<Rightarrow>
          let to_read = min (ur_remaining r) SW_UPLOAD_READ_CHUNK_BYTES;
              got = take to_read bytes;
              left = drop to_read bytes;
              net' = (if left = [] then rest else Net_data now left # rest)
          in if got = [] then (None, r\<lparr>ur_net := rest\<rparr>)
             else (Some (got ! 0),
               r\<lparr>ur_socket_buffer := got, ur_socket_pos := 1, ur_socket_len := length got,
                 ur_connection := (ur_connection r)\<lparr>c_last_activity_at_ms := now\<rparr>,
                 ur_remaining := ur_remaining r - 1, ur_net := net'\<rparr>)
      | Net_again now # rest \<Rightarrow>
          if now \<ge> ur_deadline_ms r then (None, r\<lparr>ur_net := rest\<rparr>) else upload_socket_loop rest r
      | Net_closed # rest \<Rightarrow> (None, r\<lparr>ur_net := rest\<rparr>)
      | Net_error # rest \<Rightarrow> (None, r\<lparr>ur_net := rest\<rparr>))"

declare upload_socket_loop.simps [simp del]

text \<open>\<^verbatim>\<open>sw_upload_reader_read\<close>: the byte, or None where the code returns 0 or a negative value.\<close>

definition sw_upload_reader_read :: "sw_upload_reader \<Rightarrow> char option \<times> sw_upload_reader" where
  "sw_upload_reader_read r =
     (if ur_remaining r = 0 then (None, r)
      else if ur_buffered_used r < length (ur_buffer r) then
        let ch = ur_buffer r ! ur_buffered_used r;
            r1 = r\<lparr>ur_buffered_used := ur_buffered_used r + 1, ur_remaining := ur_remaining r - 1\<rparr>;
            r2 = (if ur_buffered_used r1 \<ge> SW_UPLOAD_READ_CHUNK_BYTES
                  then sw_upload_reader_consume_buffered r1 else r1)
        in (Some ch, r2)
      else
        let r1 = sw_upload_reader_consume_buffered r in upload_socket_loop (ur_net r1) r1)"

lemma consume_buffered_simps [simp]:
  "ur_remaining (sw_upload_reader_consume_buffered r) = ur_remaining r"
  "ur_socket_buffer (sw_upload_reader_consume_buffered r) = ur_socket_buffer r"
  "ur_socket_pos (sw_upload_reader_consume_buffered r) = ur_socket_pos r"
  "ur_socket_len (sw_upload_reader_consume_buffered r) = ur_socket_len r"
  "ur_deadline_ms (sw_upload_reader_consume_buffered r) = ur_deadline_ms r"
  "ur_net (sw_upload_reader_consume_buffered r) = ur_net r"
  by (simp_all add: sw_upload_reader_consume_buffered_def)

lemma socket_loop_remaining:
  "0 < ur_remaining r \<Longrightarrow> upload_socket_loop net r = (c, r') \<Longrightarrow>
   if c = None then ur_remaining r' = ur_remaining r else ur_remaining r' = ur_remaining r - 1"
proof (induction net arbitrary: r)
  case Nil
  then show ?case by (auto simp: upload_socket_loop.simps[of "[]"] split: if_splits)
next
  case (Cons e net)
  then show ?case
    by (subst (asm) (2) upload_socket_loop.simps)
      (auto split: if_splits net_event.splits simp: Let_def)
qed

lemma read_remaining:
  "sw_upload_reader_read r = (c, r') \<Longrightarrow>
   if c = None then ur_remaining r' = ur_remaining r else ur_remaining r' < ur_remaining r"
  using socket_loop_remaining[of "sw_upload_reader_consume_buffered r" "ur_net r" c r']
  by (auto simp: sw_upload_reader_read_def Let_def split: if_splits)

text \<open>\<^verbatim>\<open>sw_upload_reader_line\<close>: the line without its CR LF, or None for -1.\<close>

function upload_line_loop :: "nat \<Rightarrow> string \<Rightarrow> sw_upload_reader \<Rightarrow> string option \<times> sw_upload_reader" where
  "upload_line_loop max_len line r =
     (case sw_upload_reader_read r of
        (None, r1) \<Rightarrow> (None, r1)
      | (Some ch, r1) \<Rightarrow>
          if ch = CR then
            (case sw_upload_reader_read r1 of
               (None, r2) \<Rightarrow> (None, r2)
             | (Some lf, r2) \<Rightarrow> if lf \<noteq> LF then (None, r2) else (Some line, r2))
          else if length (line @ [ch]) > max_len then (None, r1)
          else upload_line_loop max_len (line @ [ch]) r1)"
  by pat_completeness auto
termination
  by (relation "measure (\<lambda>(max_len, line, r). ur_remaining r)") (auto dest: read_remaining[OF sym])

declare upload_line_loop.simps [simp del]

definition sw_upload_reader_line :: "nat \<Rightarrow> sw_upload_reader \<Rightarrow> string option \<times> sw_upload_reader" where
  "sw_upload_reader_line max_len r = upload_line_loop max_len [] r"

section \<open>The data of a part\<close>

record disk =
  dk_open :: "string \<Rightarrow> bool"
  dk_write :: "string \<Rightarrow> nat \<Rightarrow> bool"
  dk_close :: "string \<Rightarrow> bool"

record sw_http_upload_field =
  uf_name :: cptr
  uf_value :: cptr
  uf_value_len :: nat

text \<open>
  What a part is written to: the open file (its path), the field (its index), and the counters
  \<open>field_used\<close> and \<open>out_size\<close>. The value of a field is the content before its terminator, None
  for a NULL buffer.
\<close>

record upload_out =
  uo_files :: "string \<rightharpoonup> string"
  uo_fields :: "sw_http_upload_field list"
  uo_field_used :: nat
  uo_size :: nat

definition sw_upload_marker_prefix :: "string \<Rightarrow> string \<Rightarrow> bool" where
  "sw_upload_marker_prefix marker pending \<longleftrightarrow>
     length pending \<le> length marker \<and> take (length pending) marker = pending"

definition sw_upload_emit_part_bytes ::
  "disk \<Rightarrow> cptr \<Rightarrow> nat option \<Rightarrow> string \<Rightarrow> upload_out \<Rightarrow> bool \<times> upload_out" where
  "sw_upload_emit_part_bytes dk out field data u =
     (if data = [] then (True, u)
      else if (case out of None \<Rightarrow> False | Some path \<Rightarrow> \<not> dk_write dk path (length (the (uo_files u path)))) then (False, u)
      else
        let u1 = (case out of None \<Rightarrow> u
                  | Some path \<Rightarrow> u\<lparr>uo_files := (uo_files u)(path \<mapsto> the (uo_files u path) @ data)\<rparr>);
            counted = (\<lambda>u. if out = None then u else u\<lparr>uo_size := uo_size u + length data\<rparr>)
        in case field of
             None \<Rightarrow> (True, counted u1)
           | Some i \<Rightarrow>
               let f = uo_fields u1 ! i in
               (case uf_value f of None \<Rightarrow> (False, u1)
                | Some val \<Rightarrow>
                    if uf_value_len f = 0 \<or> uo_field_used u1 > uf_value_len f
                       \<or> length data \<ge> uf_value_len f - uo_field_used u1 then (False, u1)
                    else (True, counted (u1\<lparr>
                      uo_fields := (uo_fields u1)[i := f\<lparr>uf_value := Some (take (uo_field_used u1) val @ data)\<rparr>],
                      uo_field_used := uo_field_used u1 + length data\<rparr>))))"

text \<open>The inner loop: bytes that cannot start the marker are emitted one by one.\<close>

fun upload_shift :: "disk \<Rightarrow> string \<Rightarrow> cptr \<Rightarrow> nat option \<Rightarrow> string \<Rightarrow> upload_out \<Rightarrow> string option \<times> upload_out" where
  "upload_shift dk marker out field [] u = (Some [], u)"
| "upload_shift dk marker out field (p # ps) u =
     (if sw_upload_marker_prefix marker (p # ps) then (Some (p # ps), u)
      else
        let (ok, u1) = sw_upload_emit_part_bytes dk out field [p] u in
        if \<not> ok then (None, u1) else upload_shift dk marker out field ps u1)"

function upload_part_loop :: "disk \<Rightarrow> string \<Rightarrow> cptr \<Rightarrow> nat option \<Rightarrow> string \<Rightarrow> sw_upload_reader \<Rightarrow> upload_out
    \<Rightarrow> bool \<times> sw_upload_reader \<times> upload_out" where
  "upload_part_loop dk marker out field pending r u =
     (if \<not> ur_remaining r > 0 then (False, r, u)
      else case sw_upload_reader_read r of
        (None, r1) \<Rightarrow> (False, r1, u)
      | (Some ch, r1) \<Rightarrow>
          (case upload_shift dk marker out field (pending @ [ch]) u of
             (None, u1) \<Rightarrow> (False, r1, u1)
           | (Some pending', u1) \<Rightarrow>
               if length pending' = length marker then (True, r1, u1)
               else upload_part_loop dk marker out field pending' r1 u1))"
  by pat_completeness auto
termination
  by (relation "measure (\<lambda>(dk, marker, out, field, pending, r, u). ur_remaining r)") (auto dest: read_remaining[OF sym])

declare upload_part_loop.simps [simp del]

definition sw_upload_read_part_data :: "disk \<Rightarrow> string \<Rightarrow> cptr \<Rightarrow> nat option \<Rightarrow> sw_upload_reader \<Rightarrow> upload_out
    \<Rightarrow> bool \<times> sw_upload_reader \<times> upload_out" where
  "sw_upload_read_part_data dk marker out field r u =
     (if length marker = 0 \<or> length marker > 512 then (False, r, u)
      else case field of
        None \<Rightarrow> upload_part_loop dk marker out field [] r u
      | Some i \<Rightarrow>
          let f = uo_fields u ! i in
          if uf_value f = None \<or> uf_value_len f = 0 then (False, r, u)
          else upload_part_loop dk marker out field [] r
                 (u\<lparr>uo_fields := (uo_fields u)[i := f\<lparr>uf_value := Some []\<rparr>], uo_field_used := 0\<rparr>))"

lemma line_remaining:
  "upload_line_loop m line r = (Some l, r') \<Longrightarrow> ur_remaining r' < ur_remaining r"
proof (induction m line r rule: upload_line_loop.induct)
  case (1 m line r)
  show ?case
    using 1 read_remaining[of r] 
    by (subst (asm) (2) upload_line_loop.simps)
      (fastforce split: prod.splits option.splits if_splits dest: read_remaining)
qed

lemma part_loop_remaining:
  "upload_part_loop dk m out f p r u = (True, r', u') \<Longrightarrow> ur_remaining r' < ur_remaining r"
proof (induction dk m out f p r u rule: upload_part_loop.induct)
  case (1 dk m out f p r u)
  show ?case
    using 1
    by (subst (asm) (2) upload_part_loop.simps)
      (fastforce split: prod.splits option.splits if_splits dest: read_remaining)
qed

lemma part_data_remaining:
  "sw_upload_read_part_data dk m out f r u = (True, r', u') \<Longrightarrow> ur_remaining r' < ur_remaining r"
  by (auto simp: sw_upload_read_part_data_def Let_def split: if_splits option.splits dest: part_loop_remaining)

section \<open>Form fields and files of a buffered body\<close>

definition sw_http_upload_field_find :: "sw_http_upload_field list \<Rightarrow> cptr \<Rightarrow> nat option" where
  "sw_http_upload_field_find flds name =
     (case name of None \<Rightarrow> None
      | Some n \<Rightarrow> find (\<lambda>i. case uf_name (flds ! i) of None \<Rightarrow> False | Some m \<Rightarrow> cstr m = cstr n) [0..<length flds])"

definition sw_http_upload_field_store :: "sw_http_upload_field option \<Rightarrow> cptr \<Rightarrow> nat \<Rightarrow> int \<times> sw_http_upload_field option" where
  "sw_http_upload_field_store field data data_len =
     (case field of None \<Rightarrow> (-1, None)
      | Some f \<Rightarrow>
          if uf_value f = None \<or> uf_value_len f = 0 then (-1, Some f)
          else if data_len \<ge> uf_value_len f then (-1, Some (f\<lparr>uf_value := Some []\<rparr>))
          else (case data of
              None \<Rightarrow> if data_len > 0 then (-1, Some (f\<lparr>uf_value := Some []\<rparr>))
                      else (i32_of_sz data_len, Some (f\<lparr>uf_value := Some []\<rparr>))
            | Some d \<Rightarrow> (i32_of_sz data_len, Some (f\<lparr>uf_value := Some (take data_len d)\<rparr>))))"

definition sw_http_multipart_save ::
  "disk \<Rightarrow> sw_http_multipart option \<Rightarrow> cptr \<Rightarrow> (string \<rightharpoonup> string) \<Rightarrow> int \<times> (string \<rightharpoonup> string)" where
  "sw_http_multipart_save dk mp path files =
     (case (mp, path) of
        (Some m, Some p) \<Rightarrow>
          if \<not> dk_open dk p then (-1, files)
          else
            let written = (case mp_data m of None \<Rightarrow> None | Some d \<Rightarrow> if mp_data_len m = 0 \<or> dk_write dk p 0 then Some (take (mp_data_len m) d) else None);
                ok = (written \<noteq> None \<and> dk_close dk p)
            in (if ok then 0 else -1, files(p \<mapsto> (case written of None \<Rightarrow> [] | Some d \<Rightarrow> d)))
      | _ \<Rightarrow> (-1, files))"

definition SW_UPLOAD_PATH_BYTES :: nat where
  "SW_UPLOAD_PATH_BYTES = 4096"

definition sw_http_fixed_upload_path :: "cptr \<Rightarrow> nat \<Rightarrow> sw_http_multipart \<Rightarrow> int \<times> string" where
  "sw_http_fixed_upload_path fixed_path path_len mp =
     (case fixed_path of None \<Rightarrow> (-1, [])
      | Some p \<Rightarrow>
          if path_len = 0 then (-1, [])
          else (if length (cstr p) < path_len then 0 else -1, take (path_len - 1) (cstr p)))"

section \<open>\<^verbatim>\<open>sw_http_upload_save_fields\<close>\<close>

text \<open>
  The parameters of a call: the field that names the file (NULL: any), the callback, the disk. The
  configuration is None for a connection without a manager.
\<close>

record upload_env =
  en_disk :: disk
  en_file_field :: cptr
  en_path_fn :: "sw_http_multipart \<Rightarrow> int \<times> string"
  en_config :: "sw_server_config option"

definition is_target :: "upload_env \<Rightarrow> bool \<Rightarrow> sw_http_multipart \<Rightarrow> bool" where
  "is_target en saved part \<longleftrightarrow>
     \<not> saved \<and> mp_filename part \<noteq> None
     \<and> (en_file_field en = None \<or> (mp_name part \<noteq> None \<and> cstr (the (mp_name part)) = cstr (the (en_file_field en))))"

definition no_part :: sw_http_multipart where
  "no_part = \<lparr>mp_boundary = None, mp_data = None, mp_data_len = 0, mp_name = None, mp_filename = None, mp_content_type = None\<rparr>"

text \<open>The loop of the buffered body: the fields, the files, and whether and how much was saved.\<close>

function upload_buffered_loop :: "upload_env \<Rightarrow> sw_http_message \<Rightarrow> nat \<Rightarrow> bool \<Rightarrow> nat \<Rightarrow> upload_out \<Rightarrow> int \<times> nat \<times> upload_out" where
  "upload_buffered_loop en hm offset saved saved_size u =
     (case sw_http_next_multipart (Some hm) offset of
        None \<Rightarrow> (if saved then 0 else -1, saved_size, u)
      | Some (part, offset') \<Rightarrow>
          if mp_filename part = None then
            (case sw_http_upload_field_find (uo_fields u) (mp_name part) of
               None \<Rightarrow> upload_buffered_loop en hm offset' saved saved_size u
             | Some i \<Rightarrow>
                 let (rc, f) = sw_http_upload_field_store (Some (uo_fields u ! i)) (mp_data part) (mp_data_len part);
                     u1 = u\<lparr>uo_fields := (uo_fields u)[i := the f]\<rparr>
                 in if rc < 0 then (-1, saved_size, u1)
                    else upload_buffered_loop en hm offset' saved saved_size u1)
          else if is_target en saved part then
            (let (path_rc, upload_path) = en_path_fn en part in
             if path_rc \<noteq> 0 \<or> upload_path = [] then (-1, saved_size, u)
             else
               let (rc, files) = sw_http_multipart_save (en_disk en) (Some part) (Some upload_path) (uo_files u);
                   u1 = u\<lparr>uo_files := files\<rparr>
               in if rc \<noteq> 0 then (-1, saved_size, u1)
                  else upload_buffered_loop en hm offset' True (mp_data_len part) u1)
          else upload_buffered_loop en hm offset' saved saved_size u)"
  by pat_completeness auto
termination
  by (relation "measure (\<lambda>(en, hm, offset, saved, saved_size, u). Suc (hm_body_len hm) - offset)")
    (auto dest!: next_multipart_progress)

declare upload_buffered_loop.simps [simp del]

text \<open>A header line of a streamed part; a part without a name is not an error here.\<close>

definition upload_header_line :: "string \<Rightarrow> sw_http_multipart \<Rightarrow> sw_http_multipart" where
  "upload_header_line line part =
     (if sw_header_value_matches_name (Some line) (Some ''Content-Disposition'') then
        part\<lparr>mp_name := sw_parse_disposition_param (Some line) (Some ''name''),
             mp_filename := sw_parse_disposition_param (Some line) (Some ''filename'')\<rparr>
      else if sw_header_value_matches_name (Some line) (Some ''Content-Type'') then
        (case split_at_char (CHR '':'') line of
           None \<Rightarrow> part
         | Some (_, after) \<Rightarrow> part\<lparr>mp_content_type := sw_strdup_trimmed_range (Some after)\<rparr>)
      else part)"

function upload_headers :: "nat \<Rightarrow> sw_http_multipart \<Rightarrow> sw_upload_reader \<Rightarrow> sw_http_multipart option \<times> sw_upload_reader" where
  "upload_headers header_len_limit part r =
     (case sw_upload_reader_line header_len_limit r of
        (None, r1) \<Rightarrow> (None, r1)
      | (Some line, r1) \<Rightarrow>
          if line = [] then (Some part, r1)
          else upload_headers header_len_limit (upload_header_line line part) r1)"
  by pat_completeness auto
termination
  by (relation "measure (\<lambda>(limit, part, r). ur_remaining r)")
    (auto simp: sw_upload_reader_line_def dest!: line_remaining[OF sym])

declare upload_headers.simps [simp del]

lemma headers_remaining:
  "upload_headers m p r = (Some q, r') \<Longrightarrow> ur_remaining r' < ur_remaining r"
proof (induction m p r rule: upload_headers.induct)
  case (1 m p r)
  show ?case
    using 1
    by (subst (asm) (2) upload_headers.simps)
      (fastforce split: prod.splits option.splits if_splits simp: sw_upload_reader_line_def dest: line_remaining)
qed

function upload_drain :: "sw_upload_reader \<Rightarrow> bool \<times> sw_upload_reader" where
  "upload_drain r =
     (if \<not> ur_remaining r > 0 then (True, r)
      else case sw_upload_reader_read r of (None, r1) \<Rightarrow> (False, r1) | (Some _, r1) \<Rightarrow> upload_drain r1)"
  by pat_completeness auto
termination
  by (relation "measure ur_remaining") (auto dest: read_remaining[OF sym])

declare upload_drain.simps [simp del]

definition header_len_limit :: "upload_env \<Rightarrow> nat" where
  "header_len_limit en = (case en_config en of None \<Rightarrow> 16 * 1024 | Some cfg \<Rightarrow> max_header_bytes cfg)"

text \<open>The loop over the streamed parts: return code, saved size, reader and outputs.\<close>

function upload_parts :: "upload_env \<Rightarrow> string \<Rightarrow> bool \<Rightarrow> nat \<Rightarrow> sw_upload_reader \<Rightarrow> upload_out
    \<Rightarrow> int \<times> nat \<times> sw_upload_reader \<times> upload_out" where
  "upload_parts en data_marker saved saved_size r u =
     (case upload_headers (header_len_limit en) no_part r of
        (None, r1) \<Rightarrow> (-1, saved_size, r1, u)
      | (Some part, r1) \<Rightarrow>
          let target_part = is_target en saved part;
              target_field = (if mp_filename part = None then sw_http_upload_field_find (uo_fields u) (mp_name part) else None);
              (path_rc, upload_path) = en_path_fn en part
          in if target_part \<and> (path_rc \<noteq> 0 \<or> upload_path = []) then (-1, saved_size, r1, u)
             else if target_part \<and> \<not> dk_open (en_disk en) upload_path then (-1, saved_size, r1, u)
             else
               let out = (if target_part then Some upload_path else None);
                   u1 = u\<lparr>uo_files := (if target_part then (uo_files u)(upload_path \<mapsto> []) else uo_files u),
                          uo_field_used := 0, uo_size := 0\<rparr>
               in case sw_upload_read_part_data (en_disk en) data_marker out target_field r1 u1 of
                    (False, r2, u2) \<Rightarrow> (-1, saved_size, r2, u2)
                  | (True, r2, u2) \<Rightarrow>
                      if target_part \<and> \<not> dk_close (en_disk en) upload_path then (-1, saved_size, r2, u2)
                      else
                        let saved' = (saved \<or> target_part);
                            saved_size' = (if target_part then uo_size u2 else saved_size)
                        in case sw_upload_reader_line 512 r2 of
                             (None, r3) \<Rightarrow> (-1, saved_size', r3, u2)
                           | (Some line, r3) \<Rightarrow>
                               if cstr line = ''--'' then
                                 (case upload_drain r3 of
                                    (False, r4) \<Rightarrow> (-1, saved_size', r4, u2)
                                  | (True, r4) \<Rightarrow> (if saved' then 0 else -1, saved_size', r4, u2))
                               else if length line \<noteq> 0 then (-1, saved_size', r3, u2)
                               else upload_parts en data_marker saved' saved_size' r3 u2)"
  by pat_completeness auto
termination
  by (relation "measure (\<lambda>(en, m, saved, size, r, u). ur_remaining r)")
    (auto simp: sw_upload_reader_line_def
      dest!: headers_remaining[OF sym] part_data_remaining[OF sym] line_remaining[OF sym])

declare upload_parts.simps [simp del]

text \<open>
  The message argument is NULL, the connection's own request, or another object. The result holds
  the return code, \<^verbatim>\<open>*out_size\<close>, the connection, the socket events left, the files and the fields.
\<close>

datatype upload_message = No_message | Own_request | Other_message sw_http_message

record upload_result =
  up_rc :: int
  up_size :: nat
  up_connection :: sw_connection
  up_net :: "net_event list"
  up_files :: "string \<rightharpoonup> string"
  up_fields :: "sw_http_upload_field list"

definition clear_upload_field :: "sw_http_upload_field \<Rightarrow> sw_http_upload_field" where
  "clear_upload_field f = (if uf_value f \<noteq> None \<and> uf_value_len f > 0 then f\<lparr>uf_value := Some []\<rparr> else f)"

definition upload_deadline :: "sw_server_config option \<Rightarrow> real \<Rightarrow> real" where
  "upload_deadline cfg now = now + (case cfg of
       Some cf \<Rightarrow> if body_timeout_ms cf > 0 then of_int (body_timeout_ms cf) else 120000
     | None \<Rightarrow> 120000)"

definition upload_reader :: "sw_server_config option \<Rightarrow> sw_connection \<Rightarrow> nat \<Rightarrow> real \<Rightarrow> net_event list \<Rightarrow> sw_upload_reader" where
  "upload_reader cfg c content_length now net = \<lparr>
     ur_connection = c, ur_remaining = content_length, ur_buffered_used = 0, ur_socket_buffer = [],
     ur_socket_pos = 0, ur_socket_len = 0,
     ur_deadline_ms = upload_deadline cfg now,
     ur_net = net\<rparr>"

text \<open>The streamed body: from the first line to \<^verbatim>\<open>done\<close>.\<close>

definition upload_streamed ::
  "upload_env \<Rightarrow> string \<Rightarrow> sw_upload_reader \<Rightarrow> upload_out \<Rightarrow> int \<times> nat \<times> sw_upload_reader \<times> upload_out" where
  "upload_streamed en boundary r u =
     (let boundary_line = take 259 (''--'' @ boundary);
          data_marker = take 261 (crlf @ ''--'' @ boundary)
      in case sw_upload_reader_line 512 r of
           (None, r1) \<Rightarrow> (-1, 0, r1, u)
         | (Some line, r1) \<Rightarrow>
             if cstr line \<noteq> boundary_line then (-1, 0, r1, u)
             else upload_parts en data_marker False 0 r1 u)"

definition sw_http_upload_save_fields ::
  "disk \<Rightarrow> sw_server_config option \<Rightarrow> sw_connection \<Rightarrow> upload_message \<Rightarrow> cptr
   \<Rightarrow> (sw_http_multipart \<Rightarrow> int \<times> string) option \<Rightarrow> sw_http_upload_field list option \<Rightarrow> nat
   \<Rightarrow> real \<Rightarrow> net_event list \<Rightarrow> (string \<rightharpoonup> string) \<Rightarrow> upload_result" where
  "sw_http_upload_save_fields dk cfg c hm file_field path_fn flds field_count now net files =
     (let given = (case flds of None \<Rightarrow> [] | Some fs \<Rightarrow> take field_count fs);
          failed = \<lparr>up_rc = -1, up_size = 0, up_connection = c, up_net = net, up_files = files, up_fields = given\<rparr>;
          m = (case hm of No_message \<Rightarrow> empty_message | Own_request \<Rightarrow> c_request c | Other_message m \<Rightarrow> m)
      in if hm = No_message \<or> path_fn = None \<or> (flds = None \<and> field_count > 0) then failed
      else
        let en = \<lparr>en_disk = dk, en_file_field = file_field, en_path_fn = the path_fn, en_config = cfg\<rparr>;
            cleared = map clear_upload_field given;
            u = \<lparr>uo_files = files, uo_fields = cleared, uo_field_used = 0, uo_size = 0\<rparr>
        in if \<not> hm_body_pending m then
             (let (rc, saved_size, u1) = upload_buffered_loop en m 0 False 0 u
              in failed\<lparr>up_rc := rc, up_size := (if rc = 0 then saved_size else 0),
                   up_files := uo_files u1, up_fields := uo_fields u1\<rparr>)
           else if hm \<noteq> Own_request then failed\<lparr>up_fields := cleared\<rparr>
           else (case sw_http_content_type_boundary (sw_http_header_get (Some m) (Some ''Content-Type'')) 256 of
               None \<Rightarrow> failed\<lparr>up_fields := cleared\<rparr>
             | Some boundary \<Rightarrow>
                 let (rc, saved_size, r1, u1) =
                       upload_streamed en boundary (upload_reader cfg c (hm_content_length m) now net) u;
                     r2 = sw_upload_reader_consume_buffered r1;
                     c2 = ur_connection r2;
                     c3 = (if rc = 0
                           then c2\<lparr>c_request := (c_request c2)\<lparr>hm_body_pending := False\<rparr>, c_must_close := False\<rparr>
                           else c2)
                 in \<lparr>up_rc = rc, up_size = (if rc = 0 then saved_size else 0), up_connection = c3,
                      up_net = ur_net r2, up_files = uo_files u1, up_fields = uo_fields u1\<rparr>))"

definition sw_http_upload_save ::
  "disk \<Rightarrow> sw_server_config option \<Rightarrow> sw_connection \<Rightarrow> upload_message \<Rightarrow> cptr \<Rightarrow> cptr
   \<Rightarrow> real \<Rightarrow> net_event list \<Rightarrow> (string \<rightharpoonup> string) \<Rightarrow> upload_result" where
  "sw_http_upload_save dk cfg c hm name path now net files =
     (if path = None
      then \<lparr>up_rc = -1, up_size = 0, up_connection = c, up_net = net, up_files = files, up_fields = []\<rparr>
      else sw_http_upload_save_fields dk cfg c hm name
             (Some (sw_http_fixed_upload_path path SW_UPLOAD_PATH_BYTES)) None 0 now net files)"

end
