(* ===== verification/UploadSpec.thy ===== *)
theory UploadSpec
  imports Upload
begin

text \<open>
  What streamed uploads do: the reader of \<open>Upload\<close> refines a plain list of bytes, so the result of
  a call depends only on the bytes of the body and never on how they were cut into buffers and
  packets; a rendered multipart body is saved part by part, streamed or buffered.
\<close>

section \<open>The bytes a reader stands for\<close>

fun net_bytes :: "real \<Rightarrow> net_event list \<Rightarrow> string" where
  "net_bytes dl [] = []"
| "net_bytes dl (Net_data now bytes # rest) = (if bytes = [] then [] else bytes @ net_bytes dl rest)"
| "net_bytes dl (Net_again now # rest) = (if now \<ge> dl then [] else net_bytes dl rest)"
| "net_bytes dl (Net_closed # rest) = []"
| "net_bytes dl (Net_error # rest) = []"

definition ur_ok :: "sw_upload_reader \<Rightarrow> bool" where
  "ur_ok r \<longleftrightarrow> ur_buffered_used r \<le> length (ur_buffer r) \<and> ur_socket_pos r \<le> ur_socket_len r
     \<and> ur_socket_len r = length (ur_socket_buffer r) \<and> ur_socket_len r - ur_socket_pos r \<le> ur_remaining r
     \<and> (ur_socket_pos r < ur_socket_len r \<longrightarrow> ur_buffered_used r = length (ur_buffer r))"

definition ur_all :: "sw_upload_reader \<Rightarrow> string" where
  "ur_all r = drop (ur_buffered_used r) (ur_buffer r) @ drop (ur_socket_pos r) (ur_socket_buffer r)
     @ net_bytes (ur_deadline_ms r) (ur_net r)"

definition at_bytes :: "real \<Rightarrow> sw_upload_reader \<Rightarrow> nat \<Rightarrow> string \<Rightarrow> bool" where
  "at_bytes dl r n bs \<longleftrightarrow> ur_ok r \<and> ur_remaining r = n \<and> ur_all r = bs \<and> ur_deadline_ms r = dl"

lemma at_bytesI: "ur_ok r \<Longrightarrow> at_bytes (ur_deadline_ms r) r (ur_remaining r) (ur_all r)"
  by (simp add: at_bytes_def)

lemma socket_loop_bytes:
  assumes "ur_ok r" "0 < ur_remaining r" "ur_buffer r = []" "ur_buffered_used r = 0"
    "bs = drop (ur_socket_pos r) (ur_socket_buffer r) @ net_bytes (ur_deadline_ms r) net"
  shows "case upload_socket_loop net r of
      (None, r') \<Rightarrow> bs = []
    | (Some c, r') \<Rightarrow> \<exists>cs. bs = c # cs \<and> at_bytes (ur_deadline_ms r) r' (ur_remaining r - 1) cs"
  using assms
proof (induction net)
  case Nil
  then show ?case
    by (auto simp: upload_socket_loop.simps[of "[]"] at_bytes_def ur_ok_def ur_all_def Cons_nth_drop_Suc[symmetric])
next
  case (Cons e net)
  show ?case
  proof (cases "ur_socket_pos r < ur_socket_len r")
    case True
    with Cons.prems show ?thesis
      by (auto simp: upload_socket_loop.simps[of "e # net"] at_bytes_def ur_ok_def ur_all_def
          Cons_nth_drop_Suc[symmetric])
  next
    case False
    then have nil: "drop (ur_socket_pos r) (ur_socket_buffer r) = []" using Cons.prems by (auto simp: ur_ok_def)
    show ?thesis
    proof (cases e)
      case (Net_data now bytes)
      define k where "k = min (ur_remaining r) SW_UPLOAD_READ_CHUNK_BYTES"
      have k: "0 < k" "k \<le> ur_remaining r" using Cons.prems by (simp_all add: k_def SW_UPLOAD_READ_CHUNK_BYTES_def)
      show ?thesis
      proof (cases bytes)
        case Nil
        with Net_data False Cons.prems nil show ?thesis
          unfolding upload_socket_loop.simps[of "e # net"] by simp
      next
        case (Cons b bytes')
        let ?net = "if drop k bytes = [] then net else Net_data now (drop k bytes) # net"
        have sp: "bytes = take k bytes @ drop k bytes" by simp
        have t: "take k bytes = b # take (k - 1) bytes'" using k(1) Cons by (cases k) auto
        have nb: "net_bytes (ur_deadline_ms r) ?net = drop k bytes @ net_bytes (ur_deadline_ms r) net"
          by simp
        have st: "upload_socket_loop (e # net) r =
            (Some b, r\<lparr>ur_socket_buffer := take k bytes, ur_socket_pos := 1, ur_socket_len := length (take k bytes),
                 ur_connection := (ur_connection r)\<lparr>c_last_activity_at_ms := now\<rparr>,
                 ur_remaining := ur_remaining r - 1, ur_net := ?net\<rparr>)"
          unfolding Net_data upload_socket_loop.simps[of "Net_data now bytes # net" r] if_not_P[OF False]
            list.case net_event.case Let_def k_def[symmetric] t by (simp only: list.distinct if_False nth_Cons_0)
        have bs: "bs = b # take (k - 1) bytes' @ drop k bytes @ net_bytes (ur_deadline_ms r) net"
        proof -
          have "bs = bytes @ net_bytes (ur_deadline_ms r) net" using Cons.prems(5) nil Net_data Cons by simp
          then show ?thesis by (metis append_Cons append_assoc sp t)
        qed
        have l: "length (take (k - 1) bytes') \<le> ur_remaining r - 1" using k by auto
        show ?thesis
          unfolding st option.case prod.case
          using bs l Cons.prems(3,4)
          by (simp only: at_bytes_def ur_ok_def ur_all_def sw_upload_reader.simps sw_connection.simps t nb) auto
      qed
    next
      case (Net_again now)
      with False Cons nil show ?thesis unfolding upload_socket_loop.simps[of "e # net"] by simp
    next
      case Net_closed
      with False Cons nil show ?thesis unfolding upload_socket_loop.simps[of "e # net"] by simp
    next
      case Net_error
      with False Cons nil show ?thesis unfolding upload_socket_loop.simps[of "e # net"] by simp
    qed
  qed
qed

lemma consume_bytes:
  "at_bytes dl r n bs \<Longrightarrow> at_bytes dl (sw_upload_reader_consume_buffered r) n bs"
  by (auto simp: at_bytes_def ur_ok_def ur_all_def sw_upload_reader_consume_buffered_def)

lemma read_bytes:
  assumes "at_bytes dl r n bs"
  shows "case sw_upload_reader_read r of
      (None, r') \<Rightarrow> n = 0 \<or> bs = []
    | (Some c, r') \<Rightarrow> \<exists>cs. 0 < n \<and> bs = c # cs \<and> at_bytes dl r' (n - 1) cs"
proof (cases "ur_remaining r = 0 \<or> ur_buffered_used r < length (ur_buffer r)")
  case True
  show ?thesis
  proof (cases "ur_remaining r = 0")
    case False
    let ?r = "r\<lparr>ur_buffered_used := ur_buffered_used r + 1, ur_remaining := ur_remaining r - 1\<rparr>"
    from False True have u: "ur_buffered_used r < length (ur_buffer r)" by simp
    then have "bs = (ur_buffer r ! ur_buffered_used r) # ur_all ?r" "at_bytes dl ?r (n - 1) (ur_all ?r)" "0 < n"
      using assms False by (auto simp: at_bytes_def ur_ok_def ur_all_def Cons_nth_drop_Suc[symmetric])
    with False u consume_bytes[of dl ?r "n - 1" "ur_all ?r"] show ?thesis
      by (auto simp: sw_upload_reader_read_def Let_def)
  qed (use assms in \<open>simp add: sw_upload_reader_read_def at_bytes_def\<close>)
next
  case False
  let ?r = "sw_upload_reader_consume_buffered r"
  have a: "at_bytes dl ?r n bs" using consume_bytes[OF assms] .
  have e: "ur_buffer ?r = []" "ur_buffered_used ?r = 0"
    using False assms by (auto simp: sw_upload_reader_consume_buffered_def at_bytes_def ur_ok_def)
  have n: "n = ur_remaining r" using assms by (simp add: at_bytes_def)
  have "bs = drop (ur_socket_pos ?r) (ur_socket_buffer ?r) @ net_bytes (ur_deadline_ms ?r) (ur_net ?r)"
    using a e by (auto simp: at_bytes_def ur_all_def)
  from socket_loop_bytes[OF _ _ e this] False a n show ?thesis
    by (auto simp: sw_upload_reader_read_def at_bytes_def Let_def split: prod.splits option.splits)
qed

lemma read_Cons:
  "at_bytes dl r n (c # cs) \<Longrightarrow> 0 < n \<Longrightarrow> \<exists>r'. sw_upload_reader_read r = (Some c, r') \<and> at_bytes dl r' (n - 1) cs"
  using read_bytes[of dl r n "c # cs"] by (auto split: prod.splits option.splits)

lemma read_stop: "at_bytes dl r n bs \<Longrightarrow> n = 0 \<or> bs = [] \<Longrightarrow> \<exists>r'. sw_upload_reader_read r = (None, r')"
  using read_bytes[of dl r n bs] by (auto split: prod.splits option.splits)

section \<open>Only the bytes count\<close>

text \<open>
  Two readers that stand for the same bytes, with \<open>t\<close> behind the body. Every operation gives the same on both, and while it
  succeeds leaves readers that stand for the same bytes.
\<close>

definition same_bytes :: "real \<times> string \<Rightarrow> sw_upload_reader \<Rightarrow> sw_upload_reader \<Rightarrow> bool" where
  "same_bytes t r s \<longleftrightarrow> (\<exists>n bs. at_bytes (fst t) r n bs \<and> at_bytes (fst t) s n bs \<and> drop n bs = snd t)"

lemma same_bytes_remaining: "same_bytes t r s \<Longrightarrow> ur_remaining r = ur_remaining s"
  by (auto simp: same_bytes_def at_bytes_def)

lemma read_same:
  "same_bytes t r s \<Longrightarrow>
   (\<exists>r' s'. sw_upload_reader_read r = (None, r') \<and> sw_upload_reader_read s = (None, s')) \<or>
   (\<exists>c r' s'. sw_upload_reader_read r = (Some c, r') \<and> sw_upload_reader_read s = (Some c, s') \<and> same_bytes t r' s')"
proof -
  assume "same_bytes t r s"
  then obtain n bs where a: "at_bytes (fst t) r n bs" "at_bytes (fst t) s n bs" "drop n bs = snd t" by (auto simp: same_bytes_def)
  show ?thesis
  proof (cases "n = 0 \<or> bs = []")
    case True
    with read_stop[OF a(1)] read_stop[OF a(2)] show ?thesis by blast
  next
    case False
    then obtain c cs where bs: "bs = c # cs" by (cases bs) auto
    have "drop (n - 1) cs = snd t" using a(3) False bs by (cases n) auto
    then show ?thesis using read_Cons[of "fst t" r n c cs] read_Cons[of "fst t" s n c cs] a False bs unfolding same_bytes_def by blast
  qed
qed

lemma line_same:
  "same_bytes t r s \<Longrightarrow>
   (\<exists>r' s'. upload_line_loop m line r = (None, r') \<and> upload_line_loop m line s = (None, s')) \<or>
   (\<exists>l r' s'. upload_line_loop m line r = (Some l, r') \<and> upload_line_loop m line s = (Some l, s') \<and> same_bytes t r' s')"
proof (induction m line r arbitrary: s rule: upload_line_loop.induct)
  case (1 m line r)
  show ?case
  proof (cases "fst (sw_upload_reader_read r)")
    case None
    with read_same[OF 1(2)] show ?thesis
      by (auto simp: upload_line_loop.simps[of m line r] upload_line_loop.simps[of m line s])
  next
    case (Some c)
    then obtain r1 s1 where rd: "sw_upload_reader_read r = (Some c, r1)" "sw_upload_reader_read s = (Some c, s1)"
      "same_bytes t r1 s1" using read_same[OF 1(2)] by auto
    show ?thesis
    proof (cases "c = CR")
      case True
      with read_same[OF rd(3)] rd(1,2) show ?thesis
        by (auto simp: upload_line_loop.simps[of m line r] upload_line_loop.simps[of m line s])
    next
      case False
      with 1(1)[OF rd(1)[symmetric] refl False _ rd(3)] rd(1,2) show ?thesis
        by (auto simp: upload_line_loop.simps[of m line r] upload_line_loop.simps[of m line s])
    qed
  qed
qed

lemma part_loop_same:
  "same_bytes t r s \<Longrightarrow>
   (\<exists>r' s' u'. upload_part_loop dk m out f p r u = (False, r', u') \<and> upload_part_loop dk m out f p s u = (False, s', u')) \<or>
   (\<exists>r' s' u'. upload_part_loop dk m out f p r u = (True, r', u') \<and> upload_part_loop dk m out f p s u = (True, s', u')
      \<and> same_bytes t r' s')"
proof (induction dk m out f p r u arbitrary: s rule: upload_part_loop.induct)
  case (1 dk m out f p r u)
  note un = upload_part_loop.simps[of dk m out f p r u] upload_part_loop.simps[of dk m out f p s u]
  have n: "ur_remaining s = ur_remaining r" using same_bytes_remaining[OF 1(2)] by simp
  show ?case
  proof (cases "ur_remaining r > 0")
    case False
    with n show ?thesis by (simp add: un)
  next
    case pos: True
    show ?thesis
    proof (cases "fst (sw_upload_reader_read r)")
      case None
      with read_same[OF 1(2)] pos n show ?thesis by (auto simp: un)
    next
      case (Some c)
      then obtain r1 s1 where rd: "sw_upload_reader_read r = (Some c, r1)" "sw_upload_reader_read s = (Some c, s1)"
        "same_bytes t r1 s1" using read_same[OF 1(2)] by auto
      obtain q u1 where sh: "upload_shift dk m out f (p @ [c]) u = (q, u1)" by (cases "upload_shift dk m out f (p @ [c]) u")
      have ih: "?thesis" if "q = Some p'" "length p' \<noteq> length m" for p'
        using 1(1)[OF _ rd(1)[symmetric] refl sh[symmetric] that rd(3)] pos n rd(1,2) sh that
        by (simp add: un)
      show ?thesis
      proof (cases q)
        case None
        with rd sh pos n show ?thesis by (simp add: un)
      next
        case (Some p')
        with ih rd sh pos n show ?thesis by (cases "length p' = length m") (simp_all add: un)
      qed
    qed
  qed
qed

lemma part_data_same:
  "same_bytes t r s \<Longrightarrow>
   (\<exists>r' s' u'. sw_upload_read_part_data dk m out f r u = (False, r', u') \<and> sw_upload_read_part_data dk m out f s u = (False, s', u')) \<or>
   (\<exists>r' s' u'. sw_upload_read_part_data dk m out f r u = (True, r', u') \<and> sw_upload_read_part_data dk m out f s u = (True, s', u')
      \<and> same_bytes t r' s')"
  using part_loop_same[of t r s] by (simp add: sw_upload_read_part_data_def Let_def split: option.split)

lemma headers_same:
  "same_bytes t r s \<Longrightarrow>
   (\<exists>r' s'. upload_headers m p r = (None, r') \<and> upload_headers m p s = (None, s')) \<or>
   (\<exists>q r' s'. upload_headers m p r = (Some q, r') \<and> upload_headers m p s = (Some q, s') \<and> same_bytes t r' s')"
proof (induction m p r arbitrary: s rule: upload_headers.induct)
  case (1 m p r)
  note un = upload_headers.simps[of m p r] upload_headers.simps[of m p s]
  note ls = line_same[OF 1(2), of m "[]", folded sw_upload_reader_line_def]
  show ?case
  proof (cases "fst (sw_upload_reader_line m r)")
    case None
    with ls show ?thesis by (auto simp: un)
  next
    case (Some l)
    then obtain r1 s1 where rd: "sw_upload_reader_line m r = (Some l, r1)" "sw_upload_reader_line m s = (Some l, s1)"
      "same_bytes t r1 s1" using ls by auto
    show ?thesis using 1(1)[OF rd(1)[symmetric] refl _ rd(3)] rd by (cases "l = []") (simp_all add: un)
  qed
qed

lemma drain_same:
  "same_bytes t r s \<Longrightarrow>
   (\<exists>r' s'. upload_drain r = (False, r') \<and> upload_drain s = (False, s')) \<or>
   (\<exists>r' s'. upload_drain r = (True, r') \<and> upload_drain s = (True, s') \<and> same_bytes t r' s' \<and> ur_remaining r' = 0)"
proof (induction r arbitrary: s rule: upload_drain.induct)
  case (1 r)
  note un = upload_drain.simps[of r] upload_drain.simps[of s]
  have n: "ur_remaining s = ur_remaining r" using same_bytes_remaining[OF 1(2)] by simp
  show ?case
  proof (cases "ur_remaining r > 0")
    case False
    with n 1(2) show ?thesis by (simp add: un)
  next
    case pos: True
    show ?thesis
    proof (cases "fst (sw_upload_reader_read r)")
      case None
      with read_same[OF 1(2)] pos n show ?thesis by (auto simp: un)
    next
      case (Some c)
      then obtain r1 s1 where rd: "sw_upload_reader_read r = (Some c, r1)" "sw_upload_reader_read s = (Some c, s1)"
        "same_bytes t r1 s1" using read_same[OF 1(2)] by auto
      with 1(1)[OF _ rd(1)[symmetric] refl rd(3)] pos n show ?thesis by (simp add: un)
    qed
  qed
qed

lemma parts_same:
  "same_bytes t r s \<Longrightarrow>
   \<exists>rc size r' s' u'. upload_parts en m saved saved_size r u = (rc, size, r', u')
     \<and> upload_parts en m saved saved_size s u = (rc, size, s', u')
     \<and> (rc = 0 \<longrightarrow> same_bytes t r' s' \<and> ur_remaining r' = 0)"
proof (induction en m saved saved_size r u arbitrary: s rule: upload_parts.induct)
  case (1 en m saved saved_size r u)
  note un = upload_parts.simps[of en m saved saved_size r u] upload_parts.simps[of en m saved saved_size s u]
  note hs = headers_same[OF 1(2), of "header_len_limit en" no_part]
  show ?case
  proof (cases "fst (upload_headers (header_len_limit en) no_part r)")
    case None
    with hs show ?thesis by (auto simp: un)
  next
    case (Some part)
    then obtain r1 s1 where hd: "upload_headers (header_len_limit en) no_part r = (Some part, r1)"
      "upload_headers (header_len_limit en) no_part s = (Some part, s1)" "same_bytes t r1 s1" using hs by auto
    obtain path_rc path where pa: "en_path_fn en part = (path_rc, path)" by fastforce
    let ?t = "is_target en saved part"
    let ?tf = "if mp_filename part = None then sw_http_upload_field_find (uo_fields u) (mp_name part) else None"
    let ?out = "if ?t then Some path else None"
    let ?u1 = "u\<lparr>uo_files := (if ?t then (uo_files u)(path \<mapsto> []) else uo_files u), uo_field_used := 0, uo_size := 0\<rparr>"
    let ?bad = "?t \<and> (path_rc \<noteq> 0 \<or> path = [])" and ?noopen = "?t \<and> \<not> dk_open (en_disk en) path"
    note ps = part_data_same[OF hd(3), of "en_disk en" m ?out ?tf ?u1]
    show ?thesis
    proof (cases "?bad \<or> ?noopen")
      case True
      then show ?thesis by (auto simp: un hd pa)
    next
      case False
      then have nb: "\<not> ?bad" "\<not> ?noopen" by blast+
      show ?thesis
      proof (cases "fst (sw_upload_read_part_data (en_disk en) m ?out ?tf r1 ?u1)")
        case F: False
        with ps obtain r2 s2 u2 where "sw_upload_read_part_data (en_disk en) m ?out ?tf r1 ?u1 = (False, r2, u2)"
          "sw_upload_read_part_data (en_disk en) m ?out ?tf s1 ?u1 = (False, s2, u2)" by auto
        then show ?thesis unfolding un hd option.case prod.case Let_def pa if_not_P[OF nb(1)] if_not_P[OF nb(2)] by simp
      next
        case True
        with ps obtain r2 s2 u2 where pd: "sw_upload_read_part_data (en_disk en) m ?out ?tf r1 ?u1 = (True, r2, u2)"
          "sw_upload_read_part_data (en_disk en) m ?out ?tf s1 ?u1 = (True, s2, u2)" "same_bytes t r2 s2" by auto
        note un2 = un[unfolded hd option.case prod.case Let_def pa if_not_P[OF nb(1)] if_not_P[OF nb(2)] pd bool.case]
        show ?thesis
        proof (cases "?t \<and> \<not> dk_close (en_disk en) path")
          case True
          then show ?thesis by (simp add: un2)
        next
          case cl: False
          note un3 = un2[unfolded if_not_P[OF cl]]
          note ls = line_same[OF pd(3), of 512 "[]", folded sw_upload_reader_line_def]
          show ?thesis
          proof (cases "fst (sw_upload_reader_line 512 r2)")
            case None
            with ls show ?thesis by (auto simp: un3)
          next
            case (Some line)
            then obtain r3 s3 where ln: "sw_upload_reader_line 512 r2 = (Some line, r3)"
              "sw_upload_reader_line 512 s2 = (Some line, s3)" "same_bytes t r3 s3" using ls by auto
            note un4 = un3[unfolded ln option.case prod.case]
            consider "cstr line = ''--''" | "cstr line \<noteq> ''--''" "length line \<noteq> 0" | "cstr line \<noteq> ''--''" "length line = 0"
              by blast
            then show ?thesis
            proof cases
              case 1
              then show ?thesis using drain_same[OF ln(3)] by (auto simp: un4)
            next
              case 2
              then show ?thesis by (simp add: un4)
            next
              case 3
              have "\<exists>rc size r' s' u'.
                 upload_parts en m (saved \<or> ?t) (if ?t then uo_size u2 else saved_size) r3 u2 = (rc, size, r', u')
                 \<and> upload_parts en m (saved \<or> ?t) (if ?t then uo_size u2 else saved_size) s3 u2 = (rc, size, s', u')
                 \<and> (rc = 0 \<longrightarrow> same_bytes t r' s' \<and> ur_remaining r' = 0)"
                by (rule 1(1)[OF hd(1)[symmetric] refl refl refl refl pa[symmetric] nb refl refl pd(1)[symmetric] refl refl])
                  (use cl ln 3 in simp_all)
              then show ?thesis using 3 by (simp add: un4)
            qed
          qed
        qed
      qed
    qed
  qed
qed

lemma streamed_same:
  "same_bytes t r s \<Longrightarrow>
   \<exists>rc size r' s' u'. upload_streamed en b r u = (rc, size, r', u') \<and> upload_streamed en b s u = (rc, size, s', u')
     \<and> (rc = 0 \<longrightarrow> same_bytes t r' s' \<and> ur_remaining r' = 0)"
  using line_same[of t r s 512 "[]", folded sw_upload_reader_line_def] parts_same
  by (fastforce simp: upload_streamed_def Let_def)

lemma reader_at_bytes:
  "at_bytes (upload_deadline cfg now) (upload_reader cfg c n now net) n (c_read_buffer c @ net_bytes (upload_deadline cfg now) net)"
  by (simp add: at_bytes_def ur_ok_def ur_all_def upload_reader_def)

text \<open>At the end of the body the bytes left are those of the read buffer and of the socket.\<close>

lemma left_bytes:
  assumes "at_bytes dl r 0 bs"
  shows "ur_buffer (sw_upload_reader_consume_buffered r) @ net_bytes dl (ur_net r) = bs"
proof -
  have "drop (ur_socket_pos r) (ur_socket_buffer r) = []" using assms by (auto simp: at_bytes_def ur_ok_def)
  moreover have "ur_buffer (sw_upload_reader_consume_buffered r) = drop (ur_buffered_used r) (ur_buffer r)"
    by (auto simp: sw_upload_reader_consume_buffered_def)
  ultimately show ?thesis using assms by (auto simp: at_bytes_def ur_all_def)
qed

text \<open>
  C12. A streamed upload depends on the bytes of the body only. Take two calls for the same request
  in which the bytes already buffered followed by the bytes the socket delivers before the deadline
  are the same, however they are split between buffer and packets and whatever the timing. Both
  return the same code and the same size, write the same files and the same fields. After a
  success the bytes behind the body are all still there, in order, for the next request of the
  connection, which is no longer bound to close.
\<close>

theorem upload_depends_on_bytes:
  assumes "hm_body_pending (c_request c)" and "c_request c' = c_request c"
    and "c_read_buffer c @ net_bytes (upload_deadline cfg now) net = bytes"
    and "c_read_buffer c' @ net_bytes (upload_deadline cfg now) net' = bytes"
    and "r = sw_http_upload_save_fields dk cfg c Own_request file_field path_fn flds field_count now net files"
    and "r' = sw_http_upload_save_fields dk cfg c' Own_request file_field path_fn flds field_count now net' files"
  shows "up_rc r = up_rc r' \<and> up_size r = up_size r' \<and> up_files r = up_files r' \<and> up_fields r = up_fields r'
    \<and> (up_rc r = 0 \<longrightarrow>
      c_read_buffer (up_connection r) @ net_bytes (upload_deadline cfg now) (up_net r)
        = drop (hm_content_length (c_request c)) bytes
      \<and> \<not> hm_body_pending (c_request (up_connection r)) \<and> \<not> c_must_close (up_connection r))"
proof -
  let ?m = "c_request c" and ?dl = "upload_deadline cfg now"
  let ?bd = "sw_http_content_type_boundary (sw_http_header_get (Some ?m) (Some ''Content-Type'')) 256"
  let ?bad = "path_fn = None \<or> (flds = None \<and> field_count > 0)"
  have "(up_rc r = up_rc r' \<and> up_size r = up_size r' \<and> up_files r = up_files r' \<and> up_fields r = up_fields r') \<and>
    (up_rc r = 0 \<longrightarrow>
      c_read_buffer (up_connection r) @ net_bytes ?dl (up_net r) = drop (hm_content_length ?m) bytes
      \<and> \<not> hm_body_pending (c_request (up_connection r)) \<and> \<not> c_must_close (up_connection r))"
  proof (cases "?bad \<or> ?bd = None")
    case True
    then show ?thesis unfolding assms(5,6) sw_http_upload_save_fields_def
      by (auto simp: Let_def assms(1,2))
  next
    case False
    then obtain b where b: "?bd = Some b" and nb: "\<not> (Own_request = No_message \<or> ?bad)" by auto
    let ?t = "(?dl, drop (hm_content_length ?m) bytes)"
    have "same_bytes ?t (upload_reader cfg c (hm_content_length ?m) now net)
        (upload_reader cfg c' (hm_content_length ?m) now net')"
      using reader_at_bytes[of cfg now c _ net] reader_at_bytes[of cfg now c' _ net'] assms(3,4)
      by (auto simp: same_bytes_def)
    from streamed_same[OF this, of "\<lparr>en_disk = dk, en_file_field = file_field, en_path_fn = the path_fn, en_config = cfg\<rparr>" b]
    obtain rc size r1 s1 u1 where st:
      "upload_streamed \<lparr>en_disk = dk, en_file_field = file_field, en_path_fn = the path_fn, en_config = cfg\<rparr> b
         (upload_reader cfg c (hm_content_length ?m) now net)
         \<lparr>uo_files = files, uo_fields = map clear_upload_field (case flds of None \<Rightarrow> [] | Some fs \<Rightarrow> take field_count fs),
          uo_field_used = 0, uo_size = 0\<rparr> = (rc, size, r1, u1)"
      "upload_streamed \<lparr>en_disk = dk, en_file_field = file_field, en_path_fn = the path_fn, en_config = cfg\<rparr> b
         (upload_reader cfg c' (hm_content_length ?m) now net')
         \<lparr>uo_files = files, uo_fields = map clear_upload_field (case flds of None \<Rightarrow> [] | Some fs \<Rightarrow> take field_count fs),
          uo_field_used = 0, uo_size = 0\<rparr> = (rc, size, s1, u1)"
      "rc = 0 \<longrightarrow> same_bytes ?t r1 s1 \<and> ur_remaining r1 = 0" by blast
    have l: "ur_buffer (sw_upload_reader_consume_buffered r1) @ net_bytes ?dl (ur_net r1) = drop (hm_content_length ?m) bytes"
      if "rc = 0" using st(3) that left_bytes[of ?dl r1] by (auto simp: same_bytes_def at_bytes_def)
    show ?thesis unfolding assms(5,6) sw_http_upload_save_fields_def
      using nb b st(1,2) l by (auto simp: Let_def assms(1,2))
  qed
  then show ?thesis by blast
qed

section \<open>Lines and data of a stream\<close>

lemma line_bytes:
  "at_bytes dl r n (l @ CR # LF # rest) \<Longrightarrow> CR \<notin> set l \<Longrightarrow> length acc + length l \<le> m \<Longrightarrow> length l + 2 \<le> n \<Longrightarrow>
   \<exists>r'. upload_line_loop m acc r = (Some (acc @ l), r') \<and> at_bytes dl r' (n - length l - 2) rest"
proof (induction l arbitrary: acc r n)
  case Nil
  then obtain r1 where r1: "sw_upload_reader_read r = (Some CR, r1)" "at_bytes dl r1 (n - 1) (LF # rest)"
    using read_Cons[of dl r n CR "LF # rest"] by auto
  then obtain r2 where "sw_upload_reader_read r1 = (Some LF, r2)" "at_bytes dl r2 (n - 1 - 1) rest"
    using read_Cons[of dl r1 "n - 1" LF rest] Nil by auto
  with r1 show ?case by (subst upload_line_loop.simps) (simp add: numeral_2_eq_2)
next
  case (Cons c l)
  from Cons.prems obtain r1 where r1: "sw_upload_reader_read r = (Some c, r1)" "at_bytes dl r1 (n - 1) (l @ CR # LF # rest)"
    using read_Cons[of dl r n c "l @ CR # LF # rest"] by auto
  moreover have "\<exists>r'. upload_line_loop m (acc @ [c]) r1 = (Some ((acc @ [c]) @ l), r') \<and> at_bytes dl r' (n - 1 - length l - 2) rest"
    using Cons.prems by (intro Cons.IH[OF r1(2)]) auto
  ultimately show ?case using Cons.prems by (subst upload_line_loop.simps) auto
qed

lemma reader_line_bytes:
  assumes "at_bytes dl r n (l @ crlf @ rest)" "CR \<notin> set l" "length l \<le> m" "length l + 2 \<le> n"
  shows "\<exists>r'. sw_upload_reader_line m r = (Some l, r') \<and> at_bytes dl r' (n - length l - 2) rest"
  using line_bytes[of dl r n l rest "[]" m] assms by (simp add: sw_upload_reader_line_def)

text \<open>The bytes of a part given out one at a time.\<close>

primrec emits :: "disk \<Rightarrow> cptr \<Rightarrow> nat option \<Rightarrow> string \<Rightarrow> upload_out \<Rightarrow> upload_out option" where
  "emits dk out f [] u = Some u"
| "emits dk out f (c # cs) u =
     (if fst (sw_upload_emit_part_bytes dk out f [c] u)
      then emits dk out f cs (snd (sw_upload_emit_part_bytes dk out f [c] u)) else None)"

lemma emits_append:
  "emits dk out f (xs @ ys) u = (case emits dk out f xs u of None \<Rightarrow> None | Some u1 \<Rightarrow> emits dk out f ys u1)"
  by (induction xs arbitrary: u) auto

lemma shift_bytes:
  assumes "length p \<le> length m" "p @ bs = d @ m @ rest" "\<forall>i<length d. \<not> occurs_at m (p @ bs) i"
  shows "\<exists>pre suf d'. p = pre @ suf \<and> d = pre @ d' \<and> sw_upload_marker_prefix m suf \<and>
    (case emits dk out f pre u of
       None \<Rightarrow> fst (upload_shift dk m out f p u) = None
     | Some u1 \<Rightarrow> upload_shift dk m out f p u = (Some suf, u1))"
  using assms
proof (induction p arbitrary: d u)
  case Nil
  then show ?case by (auto simp: sw_upload_marker_prefix_def)
next
  case (Cons c p)
  show ?case
  proof (cases "sw_upload_marker_prefix m (c # p)")
    case True
    then show ?thesis by (intro exI[of _ "[]"] exI[of _ "c # p"] exI[of _ d]) simp
  next
    case False
    have "d \<noteq> []"
    proof
      assume "d = []"
      then have "(c # p) @ bs = m @ rest" using Cons.prems(2) by simp
      then have "take (length (c # p)) m = c # p" using Cons.prems(1)
        by (metis append_eq_append_conv_if append_eq_conv_conj)
      with False Cons.prems(1) show False by (simp add: sw_upload_marker_prefix_def)
    qed
    then obtain d1 where d: "d = c # d1" using Cons.prems(2) by (cases d) auto
    have no: "\<forall>i<length d1. \<not> occurs_at m (p @ bs) i"
    proof (intro allI impI)
      fix i assume "i < length d1"
      with Cons.prems(3) d have "\<not> occurs_at m ((c # p) @ bs) (Suc i)" by simp
      then show "\<not> occurs_at m (p @ bs) i" by (auto simp: occurs_at_def)
    qed
    let ?e = "sw_upload_emit_part_bytes dk out f [c] u"
    obtain pre suf d' where ih: "p = pre @ suf" "d1 = pre @ d'" "sw_upload_marker_prefix m suf"
      "case emits dk out f pre (snd ?e) of None \<Rightarrow> fst (upload_shift dk m out f p (snd ?e)) = None
       | Some u1 \<Rightarrow> upload_shift dk m out f p (snd ?e) = (Some suf, u1)"
      using Cons.IH[of d1 "snd ?e"] Cons.prems(1,2) d no by auto
    have "case emits dk out f (c # pre) u of None \<Rightarrow> fst (upload_shift dk m out f (c # p) u) = None
       | Some u1 \<Rightarrow> upload_shift dk m out f (c # p) u = (Some suf, u1)"
    proof -
      obtain ok u2 where e: "?e = (ok, u2)" by fastforce
      show ?thesis using ih(4)[unfolded e snd_conv] False
        by (simp add: e split: option.splits)
    qed
    with ih(1-3) d show ?thesis by (intro exI[of _ "c # pre"] exI[of _ suf] exI[of _ d']) simp
  qed
qed

lemma part_loop_bytes:
  assumes "at_bytes dl r n bs" "length p < length m" "p @ bs = d @ m @ rest"
    "\<forall>i<length d. \<not> occurs_at m (d @ m @ rest) i" "length d + length m \<le> length p + n"
  shows "case emits dk out f d u of
      None \<Rightarrow> \<not> fst (upload_part_loop dk m out f p r u)
    | Some u' \<Rightarrow> \<exists>r'. upload_part_loop dk m out f p r u = (True, r', u')
        \<and> at_bytes dl r' (length p + n - (length d + length m)) rest"
  using assms
proof (induction n arbitrary: r bs p d u)
  case 0
  then show ?case by simp
next
  case (Suc n)
  have ne: "bs \<noteq> []" using Suc.prems(2,3) by (metis add_lessD1 append.right_neutral length_append less_imp_neq add.commute not_add_less1)
  then obtain c cs where bs: "bs = c # cs" by (cases bs) auto
  obtain r1 where r1: "sw_upload_reader_read r = (Some c, r1)" "at_bytes dl r1 n cs"
    using read_Cons[of dl r "Suc n" c cs] Suc.prems(1) bs by auto
  have pos: "ur_remaining r > 0" using Suc.prems(1) by (simp add: at_bytes_def)
  have pc: "(p @ [c]) @ cs = d @ m @ rest" using Suc.prems(3) bs by simp
  obtain pre suf d' where sh: "p @ [c] = pre @ suf" "d = pre @ d'" "sw_upload_marker_prefix m suf"
    "case emits dk out f pre u of None \<Rightarrow> fst (upload_shift dk m out f (p @ [c]) u) = None
     | Some u1 \<Rightarrow> upload_shift dk m out f (p @ [c]) u = (Some suf, u1)"
  proof -
    have "length (p @ [c]) \<le> length m" "\<forall>i<length d. \<not> occurs_at m ((p @ [c]) @ cs) i"
      using Suc.prems(2,4) unfolding pc by auto
    from shift_bytes[OF this(1) pc this(2), of dk out f u] that show ?thesis by blast
  qed
  have suf: "suf @ cs = d' @ m @ rest" using pc sh(1,2) by simp
  have no: "\<forall>i<length d'. \<not> occurs_at m (d' @ m @ rest) i"
  proof (intro allI impI)
    fix i assume "i < length d'"
    then have "\<not> occurs_at m (d @ m @ rest) (length pre + i)" using Suc.prems(4) sh(2) by simp
    then show "\<not> occurs_at m (d' @ m @ rest) i"
      unfolding sh(2) append_assoc using occurs_at_drop[of "length pre" "pre @ d' @ m @ rest" m i] by simp
  qed
  have ls: "length suf + n + length pre = length p + Suc n"
    using arg_cong[OF sh(1), of length] by simp
  note un = upload_part_loop.simps[of dk m out f p r u]
  show ?case
  proof (cases "emits dk out f pre u")
    case None
    with sh(4) obtain u1 where "upload_shift dk m out f (p @ [c]) u = (None, u1)"
      by (cases "upload_shift dk m out f (p @ [c]) u") simp
    with None pos r1 show ?thesis by (simp add: un sh(2) emits_append)
  next
    case (Some u1)
    with sh(4) have s: "upload_shift dk m out f (p @ [c]) u = (Some suf, u1)" by simp
    show ?thesis
    proof (cases "length suf = length m")
      case True
      then have "suf = m" using sh(3) by (simp add: sw_upload_marker_prefix_def)
      then have d': "d' = []"
      proof (cases d')
        case (Cons x xs)
        have "occurs_at m (d' @ m @ rest) 0" unfolding suf[symmetric] \<open>suf = m\<close> by (auto simp: occurs_at_def)
        with no Cons show ?thesis by auto
      qed
      have "rest = cs" using suf d' \<open>suf = m\<close> by simp
      moreover have "n = length p + Suc n - (length d + length m)" using ls sh(2) d' True by simp
      ultimately show ?thesis using s r1 pos Some d' sh(2) True by (simp add: un)
    next
      case False
      then have "length suf < length m" using sh(3) by (auto simp: sw_upload_marker_prefix_def)
      moreover have "length d' + length m \<le> length suf + n" using Suc.prems(5) ls sh(2) by simp
      ultimately have ih: "case emits dk out f d' u1 of
          None \<Rightarrow> \<not> fst (upload_part_loop dk m out f suf r1 u1)
        | Some u' \<Rightarrow> \<exists>r'. upload_part_loop dk m out f suf r1 u1 = (True, r', u')
            \<and> at_bytes dl r' (length suf + n - (length d' + length m)) rest"
        using Suc.IH[OF r1(2) _ suf no] by blast
      have "length suf + n - (length d' + length m) = length p + Suc n - (length d + length m)"
        using ls sh(2) by simp
      with ih s r1 pos Some False sh(2) show ?thesis
        by (simp add: un emits_append split: option.splits)
    qed
  qed
qed

lemma emits_none: "emits dk None None d u = Some u"
  by (induction d arbitrary: u) (auto simp: sw_upload_emit_part_bytes_def Let_def)

lemma emits_file:
  "\<forall>n. dk_write dk path n \<Longrightarrow> uo_files u path = Some x \<Longrightarrow>
   emits dk (Some path) None d u =
     Some (u\<lparr>uo_files := (uo_files u)(path \<mapsto> x @ d), uo_size := uo_size u + length d\<rparr>)"
proof (induction d arbitrary: u x)
  case Nil
  then show ?case by (simp add: fun_upd_idem)
next
  case (Cons c d)
  let ?u = "u\<lparr>uo_files := (uo_files u)(path \<mapsto> x @ [c]), uo_size := uo_size u + 1\<rparr>"
  have "sw_upload_emit_part_bytes dk (Some path) None [c] u = (True, ?u)"
    using Cons.prems by (simp add: sw_upload_emit_part_bytes_def Let_def)
  moreover have "emits dk (Some path) None d ?u =
      Some (?u\<lparr>uo_files := (uo_files ?u)(path \<mapsto> (x @ [c]) @ d), uo_size := uo_size ?u + length d\<rparr>)"
    by (rule Cons.IH) (use Cons.prems in simp_all)
  ultimately show ?case by (simp add: fun_upd_def cong: if_cong)
qed

lemma emits_field:
  assumes "i < length (uo_fields u)" "uo_fields u ! i = f" "uf_value f = Some val" "length val = uo_field_used u"
    "uo_field_used u < uf_value_len f"
  shows "emits dk None (Some i) d u =
    (if uo_field_used u + length d < uf_value_len f
     then Some (u\<lparr>uo_fields := (uo_fields u)[i := f\<lparr>uf_value := Some (val @ d)\<rparr>], uo_field_used := uo_field_used u + length d\<rparr>)
     else None)"
  using assms
proof (induction d arbitrary: u f val)
  case Nil
  then have "f\<lparr>uf_value := Some val\<rparr> = f" by (cases f) simp
  then have "(uo_fields u)[i := f\<lparr>uf_value := Some val\<rparr>] = uo_fields u" using Nil.prems(2) by auto
  with Nil.prems show ?case by simp
next
  case (Cons c d)
  show ?case
  proof (cases "Suc (uo_field_used u) < uf_value_len f")
    case True
    let ?u = "u\<lparr>uo_fields := (uo_fields u)[i := f\<lparr>uf_value := Some (val @ [c])\<rparr>], uo_field_used := uo_field_used u + 1\<rparr>"
    have "sw_upload_emit_part_bytes dk None (Some i) [c] u = (True, ?u)"
      using Cons.prems True by (simp add: sw_upload_emit_part_bytes_def Let_def)
    moreover have "emits dk None (Some i) d ?u = (if uo_field_used ?u + length d < uf_value_len f
      then Some (?u\<lparr>uo_fields := (uo_fields ?u)[i := (f\<lparr>uf_value := Some (val @ [c])\<rparr>)\<lparr>uf_value := Some ((val @ [c]) @ d)\<rparr>],
        uo_field_used := uo_field_used ?u + length d\<rparr>) else None)"
      using Cons.IH[of ?u "f\<lparr>uf_value := Some (val @ [c])\<rparr>" "val @ [c]"] Cons.prems True by simp
    ultimately show ?thesis by simp
  next
    case False
    then have "uf_value_len f - uo_field_used u \<le> Suc 0" by simp
    with False Cons.prems show ?thesis by (simp add: sw_upload_emit_part_bytes_def Let_def)
  qed
qed

lemma header_line_part: "part_header_line l mp = Some mp' \<Longrightarrow> upload_header_line l mp = mp'"
  by (auto simp: part_header_line_def upload_header_line_def split: if_splits option.splits)

lemma headers_bytes:
  assumes "\<forall>l\<in>set ls. line_ok l \<and> length l \<le> m" "at_bytes dl r n (join_lines ls @ crlf @ rest)"
    "length (join_lines ls) + 2 \<le> n" "fold_part_lines ls mp = Some mp'"
  shows "\<exists>r'. upload_headers m mp r = (Some mp', r') \<and> at_bytes dl r' (n - length (join_lines ls) - 2) rest"
  using assms
proof (induction ls arbitrary: r n mp)
  case Nil
  then have "at_bytes dl r n ([] @ crlf @ rest)" by simp
  from reader_line_bytes[OF this, of m] Nil show ?case by (subst upload_headers.simps) auto
next
  case (Cons l ls)
  from Cons.prems(1) have l: "l \<noteq> []" "CR \<notin> set l" "length l \<le> m" by (auto simp: line_ok_def)
  have "at_bytes dl r n (l @ crlf @ join_lines ls @ crlf @ rest)" using Cons.prems(2) by simp
  from reader_line_bytes[OF this l(2,3)] Cons.prems(3) obtain r1 where
    r1: "sw_upload_reader_line m r = (Some l, r1)" "at_bytes dl r1 (n - length l - 2) (join_lines ls @ crlf @ rest)"
    by auto
  obtain mp1 where mp1: "part_header_line l mp = Some mp1" "fold_part_lines ls mp1 = Some mp'"
    using Cons.prems(4) by (auto split: option.splits)
  have "\<exists>r'. upload_headers m mp1 r1 = (Some mp', r') \<and> at_bytes dl r' (n - length l - 2 - length (join_lines ls) - 2) rest"
    using Cons.prems(1,3) by (intro Cons.IH[OF _ r1(2) _ mp1(2)]) auto
  moreover have "n - length l - 2 - length (join_lines ls) - 2 = n - length (join_lines (l # ls)) - 2" by simp
  ultimately show ?case using r1(1) l(1) header_line_part[OF mp1(1)]
    by (subst upload_headers.simps) (simp del: join_lines_simps)
qed

lemma drain_bytes: "at_bytes dl r n bs \<Longrightarrow> n \<le> length bs \<Longrightarrow> \<exists>r'. upload_drain r = (True, r') \<and> at_bytes dl r' 0 (drop n bs)"
proof (induction n arbitrary: r bs)
  case 0
  then show ?case by (subst upload_drain.simps) (simp add: at_bytes_def)
next
  case (Suc n)
  then obtain c cs where bs: "bs = c # cs" by (cases bs) auto
  obtain r1 where r1: "sw_upload_reader_read r = (Some c, r1)" "at_bytes dl r1 n cs"
    using read_Cons[of dl r "Suc n" c cs] Suc.prems bs by auto
  then show ?case using Suc.IH[OF r1(2)] Suc.prems bs by (subst upload_drain.simps) (auto simp: at_bytes_def)
qed

section \<open>What saving a list of parts means\<close>

text \<open>
  The reference: the first part with a file name (and the wanted name) is the file; other files are
  skipped; a part without a file name goes to the field of its name, if there is one, and must fit.
  The result is None for a refused upload, otherwise the size of the saved file if there was one,
  the files and the fields.
\<close>

fun save_parts :: "cptr \<Rightarrow> (part \<Rightarrow> string) \<Rightarrow> part list \<Rightarrow> nat option \<Rightarrow> (string \<rightharpoonup> string) \<Rightarrow> sw_http_upload_field list
    \<Rightarrow> (nat option \<times> (string \<rightharpoonup> string) \<times> sw_http_upload_field list) option" where
  "save_parts ff path [] saved files flds = Some (saved, files, flds)"
| "save_parts ff path (p # ps) saved files flds =
     (if pt_filename p = None then
        (case sw_http_upload_field_find flds (Some (pt_name p)) of
           None \<Rightarrow> save_parts ff path ps saved files flds
         | Some i \<Rightarrow>
             if uf_value (flds ! i) = None \<or> length (pt_data p) \<ge> uf_value_len (flds ! i) then None
             else save_parts ff path ps saved files (flds[i := (flds ! i)\<lparr>uf_value := Some (pt_data p)\<rparr>]))
      else if saved = None \<and> (ff = None \<or> cstr (pt_name p) = cstr (the ff))
      then save_parts ff path ps (Some (length (pt_data p))) (files(path p \<mapsto> pt_data p)) flds
      else save_parts ff path ps saved files flds)"

text \<open>The result of a call agrees with the reference.\<close>

definition upload_agrees :: "(nat option \<times> (string \<rightharpoonup> string) \<times> sw_http_upload_field list) option
    \<Rightarrow> int \<Rightarrow> nat \<Rightarrow> (string \<rightharpoonup> string) \<Rightarrow> sw_http_upload_field list \<Rightarrow> bool" where
  "upload_agrees ref rc sz files flds \<longleftrightarrow>
     (case ref of
        None \<Rightarrow> rc = -1
      | Some (None, _, _) \<Rightarrow> rc = -1
      | Some (Some n, files', flds') \<Rightarrow> rc = 0 \<and> sz = n \<and> files = files' \<and> flds = flds')"

text \<open>A disk on which nothing fails at the paths used.\<close>

definition disk_works :: "disk \<Rightarrow> string \<Rightarrow> bool" where
  "disk_works dk p \<longleftrightarrow> dk_open dk p \<and> (\<forall>n. dk_write dk p n) \<and> dk_close dk p"

section \<open>Saving a rendered body\<close>

lemma boundary_free_data:
  assumes "boundary_free b d" "m = crlf @ ''--'' @ b"
  shows "\<forall>i<length d. \<not> occurs_at m (d @ m @ rest) i"
proof (intro allI impI notI)
  fix i assume i: "i < length d" and "occurs_at m (d @ m @ rest) i"
  then have "occurs_at m (d @ m) i" using occurs_at_append[of i m "d @ m" rest] by simp
  then have "occurs_at m (crlf @ d @ m) (i + 2)" using occurs_at_drop[of 2 "crlf @ d @ m" m i] by (simp add: add.commute)
  then have "match_at (=) m (drop (i + 2) (crlf @ d @ m))" by (auto simp: occurs_at_def match_at_eq_iff)
  moreover have "i + 2 \<in> set [0..<length d + 2]" using i by (simp only: set_upt atLeastLessThan_iff) simp
  ultimately show False using assms(1) unfolding boundary_free_def list_all_iff assms(2) by blast
qed

text \<open>The data of a part, by where it goes.\<close>

lemma part_data_bytes:
  assumes "at_bytes dl r n (d @ m @ rest)" "m = crlf @ ''--'' @ b" "length b < 256" "boundary_free b d"
    "length d + length m \<le> n"
  shows "case field of
      None \<Rightarrow> (case emits dk out None d u of
          None \<Rightarrow> \<not> fst (sw_upload_read_part_data dk m out None r u)
        | Some u' \<Rightarrow> \<exists>r'. sw_upload_read_part_data dk m out None r u = (True, r', u')
            \<and> at_bytes dl r' (n - (length d + length m)) rest)
    | Some i \<Rightarrow>
        if uf_value (uo_fields u ! i) = None \<or> uf_value_len (uo_fields u ! i) = 0
        then \<not> fst (sw_upload_read_part_data dk m out field r u)
        else (case emits dk out (Some i) d (u\<lparr>uo_fields := (uo_fields u)[i := (uo_fields u ! i)\<lparr>uf_value := Some []\<rparr>], uo_field_used := 0\<rparr>) of
          None \<Rightarrow> \<not> fst (sw_upload_read_part_data dk m out field r u)
        | Some u' \<Rightarrow> \<exists>r'. sw_upload_read_part_data dk m out field r u = (True, r', u')
            \<and> at_bytes dl r' (n - (length d + length m)) rest)"
proof -
  have ml: "0 < length m" "length m \<le> 512" using assms(2,3) by auto
  have lp: "case emits dk out f d v of
      None \<Rightarrow> \<not> fst (upload_part_loop dk m out f [] r v)
    | Some u' \<Rightarrow> \<exists>r'. upload_part_loop dk m out f [] r v = (True, r', u')
        \<and> at_bytes dl r' (n - (length d + length m)) rest" for f v
  proof -
    have "length d + length m \<le> length [] + n" "length [] < length m" "[] @ d @ m @ rest = d @ m @ rest"
      using ml(1) assms(5) by simp_all
    from part_loop_bytes[OF assms(1) this(2,3) boundary_free_data[OF assms(4,2)] this(1), of dk out f v] show ?thesis
      by (simp split: option.splits)
  qed
  show ?thesis
  proof (cases field)
    case None
    have eq: "sw_upload_read_part_data dk m out None r u = upload_part_loop dk m out None [] r u"
      using ml by (simp add: sw_upload_read_part_data_def)
    show ?thesis unfolding None option.case eq by (rule lp)
  next
    case (Some i)
    let ?f = "uo_fields u ! i"
    let ?u = "u\<lparr>uo_fields := (uo_fields u)[i := ?f\<lparr>uf_value := Some []\<rparr>], uo_field_used := 0\<rparr>"
    have eq: "sw_upload_read_part_data dk m out (Some i) r u =
        (if uf_value ?f = None \<or> uf_value_len ?f = 0 then (False, r, u) else upload_part_loop dk m out (Some i) [] r ?u)"
      using ml by (simp add: sw_upload_read_part_data_def Let_def)
    show ?thesis unfolding Some option.case eq using lp[of "Some i" ?u] by (simp split del: option.split)
  qed
qed

definition part_stream :: "string \<Rightarrow> part \<Rightarrow> string" where
  "part_stream b p = join_lines (part_lines p) @ crlf @ pt_data p @ crlf @ ''--'' @ b"

fun stream_rest :: "string \<Rightarrow> part list \<Rightarrow> string" where
  "stream_rest b [] = ''--'' @ crlf"
| "stream_rest b (p # ps) = crlf @ part_stream b p @ stream_rest b ps"

lemma render_stream: "render_multipart b ps = ''--'' @ b @ stream_rest b ps"
  by (induction ps) (auto simp: render_multipart_def render_part_def part_stream_def)

definition streamed_part :: "part \<Rightarrow> sw_http_multipart" where
  "streamed_part p = no_part\<lparr>mp_name := Some (pt_name p), mp_filename := pt_filename p, mp_content_type := pt_type p\<rparr>"

lemma fold_streamed: "part_ok b p \<Longrightarrow> fold_part_lines (part_lines p) no_part = Some (streamed_part p)"
  by (auto simp: fold_part_lines_rendered streamed_part_def no_part_def split: option.split)

lemma field_find_less: "sw_http_upload_field_find flds name = Some i \<Longrightarrow> i < length flds"
  by (auto simp: sw_http_upload_field_find_def find_Some_iff split: option.splits)

text \<open>The environment in which nothing outside the upload fails: names for the file parts, a disk.\<close>

definition upload_env_ok :: "upload_env \<Rightarrow> string \<Rightarrow> (part \<Rightarrow> string) \<Rightarrow> part \<Rightarrow> bool" where
  "upload_env_ok en b path p \<longleftrightarrow>
     part_ok b p \<and> (\<forall>l\<in>set (part_lines p). length l \<le> header_len_limit en)
     \<and> en_path_fn en (streamed_part p) = (0, path p) \<and> path p \<noteq> [] \<and> disk_works (en_disk en) (path p)"

definition saved_of :: "nat option \<Rightarrow> nat" where
  "saved_of sv = (case sv of None \<Rightarrow> 0 | Some n \<Rightarrow> n)"

text \<open>One part: its headers and data, and what the reference does with it.\<close>

lemma one_part_bytes:
  fixes sv :: "nat option" and u :: upload_out and en :: upload_env and p :: part and path :: "part \<Rightarrow> string"
  assumes "at_bytes dl r n (part_stream b p @ rest)" "length (part_stream b p) \<le> n"
    "upload_env_ok en b path p" "m = crlf @ ''--'' @ b" "length b < 256"
  defines "target \<equiv> pt_filename p \<noteq> None \<and> sv = None \<and> (en_file_field en = None \<or> cstr (pt_name p) = cstr (the (en_file_field en)))"
  defines "field \<equiv> (if pt_filename p = None then sw_http_upload_field_find (uo_fields u) (Some (pt_name p)) else None)"
  defines "u1 \<equiv> u\<lparr>uo_files := (if target then (uo_files u)(path p \<mapsto> []) else uo_files u), uo_field_used := 0, uo_size := 0\<rparr>"
  shows "\<exists>r1. upload_headers (header_len_limit en) no_part r = (Some (streamed_part p), r1)
    \<and> (\<exists>r2 u2. sw_upload_read_part_data (en_disk en) m (if target then Some (path p) else None) field r1 u1 =
          (case field of None \<Rightarrow> True | Some i \<Rightarrow> uf_value (uo_fields u ! i) \<noteq> None \<and> length (pt_data p) < uf_value_len (uo_fields u ! i), r2, u2)
        \<and> ((case field of None \<Rightarrow> True | Some i \<Rightarrow> uf_value (uo_fields u ! i) \<noteq> None \<and> length (pt_data p) < uf_value_len (uo_fields u ! i)) \<longrightarrow>
             at_bytes dl r2 (n - length (part_stream b p)) rest
             \<and> uo_files u2 = (if target then (uo_files u)(path p \<mapsto> pt_data p) else uo_files u)
             \<and> (target \<longrightarrow> uo_size u2 = length (pt_data p))
             \<and> uo_fields u2 = (case field of None \<Rightarrow> uo_fields u | Some i \<Rightarrow> (uo_fields u)[i := (uo_fields u ! i)\<lparr>uf_value := Some (pt_data p)\<rparr>])))"
proof -
  let ?ls = "part_lines p" and ?d = "pt_data p"
  have ok: "part_ok b p" "\<forall>l\<in>set ?ls. line_ok l \<and> length l \<le> header_len_limit en" "disk_works (en_disk en) (path p)"
    using assms(3) part_lines_ok[of b p] by (auto simp: upload_env_ok_def)
  have st: "part_stream b p @ rest = join_lines ?ls @ crlf @ (?d @ m @ rest)"
    by (simp add: part_stream_def assms(4))
  have len: "length (part_stream b p) = length (join_lines ?ls) + 2 + (length ?d + length m)"
    by (simp add: part_stream_def assms(4))
  have "length (join_lines ?ls) + 2 \<le> n" using assms(2) len by simp
  from headers_bytes[OF ok(2) assms(1)[unfolded st] this fold_streamed[OF ok(1)]] obtain r1 where
    h: "upload_headers (header_len_limit en) no_part r = (Some (streamed_part p), r1)"
      "at_bytes dl r1 (n - length (join_lines ?ls) - 2) (?d @ m @ rest)" by blast
  have bf: "boundary_free b ?d" and nl: "length ?d + length m \<le> n - length (join_lines ?ls) - 2"
    using ok(1) assms(2) len by (simp_all add: part_ok_def)
  have rem: "n - length (join_lines ?ls) - 2 - (length ?d + length m) = n - length (part_stream b p)" using len by simp
  note pd = part_data_bytes[OF h(2) assms(4,5) bf nl, unfolded rem]
  let ?out = "if target then Some (path p) else None"
  show ?thesis
  proof (cases field)
    case None
    have "emits (en_disk en) ?out None ?d u1 = Some (if target then u1\<lparr>uo_files := (uo_files u)(path p \<mapsto> ?d), uo_size := length ?d\<rparr> else u1)"
    proof (cases target)
      case True
      have "emits (en_disk en) (Some (path p)) None ?d u1 =
          Some (u1\<lparr>uo_files := (uo_files u1)(path p \<mapsto> [] @ ?d), uo_size := uo_size u1 + length ?d\<rparr>)"
        by (rule emits_file) (use ok(3) True in \<open>simp_all add: u1_def disk_works_def\<close>)
      with True show ?thesis by (simp add: u1_def)
    qed (simp add: emits_none)
    with pd[where field = None and out = ?out and dk = "en_disk en" and u = u1] h(1) None show ?thesis
      by (auto simp: u1_def)
  next
    case (Some i)
    let ?f = "uo_fields u ! i"
    have nt: "\<not> target" using Some by (auto simp: target_def field_def split: if_splits)
    have i: "i < length (uo_fields u)" using Some field_find_less by (auto simp: field_def split: if_splits)
    have uf: "uo_fields u1 = uo_fields u" "uo_files u1 = uo_files u" using nt by (simp_all add: u1_def)
    show ?thesis
    proof (cases "uf_value ?f = None \<or> uf_value_len ?f = 0")
      case True
      with pd[where field = "Some i" and out = None and dk = "en_disk en" and u = u1] h(1) Some nt uf show ?thesis
        by (cases "sw_upload_read_part_data (en_disk en) m None (Some i) r1 u1") auto
    next
      case False
      let ?u = "u1\<lparr>uo_fields := (uo_fields u1)[i := ?f\<lparr>uf_value := Some []\<rparr>], uo_field_used := 0\<rparr>"
      have "emits (en_disk en) None (Some i) ?d ?u = (if uo_field_used ?u + length ?d < uf_value_len (?f\<lparr>uf_value := Some []\<rparr>)
        then Some (?u\<lparr>uo_fields := (uo_fields ?u)[i := (?f\<lparr>uf_value := Some []\<rparr>)\<lparr>uf_value := Some ([] @ ?d)\<rparr>], uo_field_used := uo_field_used ?u + length ?d\<rparr>)
        else None)"
        by (rule emits_field) (use False i uf in simp_all)
      then have em: "emits (en_disk en) None (Some i) ?d (u1\<lparr>uo_fields := (uo_fields u1)[i := (uo_fields u1 ! i)\<lparr>uf_value := Some []\<rparr>], uo_field_used := 0\<rparr>) =
        (if length ?d < uf_value_len ?f
        then Some (?u\<lparr>uo_fields := (uo_fields u)[i := ?f\<lparr>uf_value := Some ?d\<rparr>], uo_field_used := length ?d\<rparr>) else None)"
        by (simp add: uf)
      show ?thesis
      proof (cases "length ?d < uf_value_len ?f")
        case True
        with pd[where field = "Some i" and out = None and dk = "en_disk en" and u = u1] h(1) Some nt uf em False show ?thesis
          by auto
      next
        case f: False
        with pd[where field = "Some i" and out = None and dk = "en_disk en" and u = u1] h(1) Some nt uf em False show ?thesis
          by (cases "sw_upload_read_part_data (en_disk en) m None (Some i) r1 u1") auto
      qed
    qed
  qed
qed

text \<open>The step of the loop over the parts on a rendered part.\<close>

lemma parts_step:
  assumes "at_bytes dl r n (part_stream b p @ rest)" "length (part_stream b p) \<le> n"
    "upload_env_ok en b path p" "m = crlf @ ''--'' @ b" "length b < 256"
  shows "(\<exists>sz r' u'. upload_parts en m (sv \<noteq> None) (saved_of sv) r u = (-1, sz, r', u')
        \<and> save_parts (en_file_field en) path (p # ps) sv (uo_files u) (uo_fields u) = None)
    \<or> (\<exists>r2 u2 sv'. at_bytes dl r2 (n - length (part_stream b p)) rest
        \<and> save_parts (en_file_field en) path (p # ps) sv (uo_files u) (uo_fields u)
            = save_parts (en_file_field en) path ps sv' (uo_files u2) (uo_fields u2)
        \<and> upload_parts en m (sv \<noteq> None) (saved_of sv) r u =
           (case sw_upload_reader_line 512 r2 of
              (None, r3) \<Rightarrow> (-1, saved_of sv', r3, u2)
            | (Some line, r3) \<Rightarrow>
                if cstr line = ''--'' then
                  (case upload_drain r3 of
                     (False, r4) \<Rightarrow> (-1, saved_of sv', r4, u2)
                   | (True, r4) \<Rightarrow> (if sv' \<noteq> None then 0 else -1, saved_of sv', r4, u2))
                else if length line \<noteq> 0 then (-1, saved_of sv', r3, u2)
                else upload_parts en m (sv' \<noteq> None) (saved_of sv') r3 u2))"
proof -
  define target where "target \<longleftrightarrow> pt_filename p \<noteq> None \<and> sv = None
    \<and> (en_file_field en = None \<or> cstr (pt_name p) = cstr (the (en_file_field en)))"
  define field where "field = (if pt_filename p = None then sw_http_upload_field_find (uo_fields u) (Some (pt_name p)) else None)"
  let ?u1 = "u\<lparr>uo_files := (if target then (uo_files u)(path p \<mapsto> []) else uo_files u), uo_field_used := 0, uo_size := 0\<rparr>"
  let ?fits = "case field of None \<Rightarrow> True
    | Some i \<Rightarrow> uf_value (uo_fields u ! i) \<noteq> None \<and> length (pt_data p) < uf_value_len (uo_fields u ! i)"
  let ?sv' = "if target then Some (length (pt_data p)) else sv"
  obtain r1 r2 u2 where
    hd: "upload_headers (header_len_limit en) no_part r = (Some (streamed_part p), r1)"
    and pd: "sw_upload_read_part_data (en_disk en) m (if target then Some (path p) else None) field r1 ?u1 = (?fits, r2, u2)"
    and fit: "?fits \<longrightarrow> at_bytes dl r2 (n - length (part_stream b p)) rest
      \<and> uo_files u2 = (if target then (uo_files u)(path p \<mapsto> pt_data p) else uo_files u)
      \<and> (target \<longrightarrow> uo_size u2 = length (pt_data p))
      \<and> uo_fields u2 = (case field of None \<Rightarrow> uo_fields u | Some i \<Rightarrow> (uo_fields u)[i := (uo_fields u ! i)\<lparr>uf_value := Some (pt_data p)\<rparr>])"
    using one_part_bytes[OF assms, of sv u] unfolding target_def field_def by blast
  have en: "en_path_fn en (streamed_part p) = (0, path p)" "path p \<noteq> []" "dk_open (en_disk en) (path p)" "dk_close (en_disk en) (path p)"
    using assms(3) by (simp_all add: upload_env_ok_def disk_works_def)
  have ta: "is_target en (sv \<noteq> None) (streamed_part p) = target"
    by (auto simp: is_target_def streamed_part_def target_def no_part_def)
  have fi: "(if mp_filename (streamed_part p) = None then sw_http_upload_field_find (uo_fields u) (mp_name (streamed_part p)) else None) = field"
    by (simp add: streamed_part_def field_def)
  have g: "\<not> (target \<and> ((0::int) \<noteq> 0 \<or> path p = []))" "\<not> (target \<and> \<not> dk_open (en_disk en) (path p))"
    "\<not> (target \<and> \<not> dk_close (en_disk en) (path p))" using en by auto
  note un = upload_parts.simps[of en m "sv \<noteq> None" "saved_of sv" r u, unfolded hd option.case prod.case Let_def ta fi en(1)
      if_not_P[OF g(1)] if_not_P[OF g(2)] pd if_not_P[OF g(3)]]
  have ref: "save_parts (en_file_field en) path (p # ps) sv (uo_files u) (uo_fields u) =
      (if ?fits then save_parts (en_file_field en) path ps ?sv' (if target then (uo_files u)(path p \<mapsto> pt_data p) else uo_files u)
         (case field of None \<Rightarrow> uo_fields u | Some i \<Rightarrow> (uo_fields u)[i := (uo_fields u ! i)\<lparr>uf_value := Some (pt_data p)\<rparr>])
       else None)"
    by (auto simp: target_def field_def split: option.split)
  show ?thesis
  proof (cases ?fits)
    case False
    then show ?thesis by (intro disjI1) (simp only: un ref if_False bool.case, blast)
  next
    case True
    have s: "(sv \<noteq> None \<or> target) = (?sv' \<noteq> None)" "(if target then uo_size u2 else saved_of sv) = saved_of ?sv'"
      using fit True by (auto simp: saved_of_def)
    show ?thesis
    proof (intro disjI2 exI conjI)
      show "at_bytes dl r2 (n - length (part_stream b p)) rest" using fit True by blast
      show "save_parts (en_file_field en) path (p # ps) sv (uo_files u) (uo_fields u)
          = save_parts (en_file_field en) path ps ?sv' (uo_files u2) (uo_fields u2)"
        unfolding ref using fit True by presburger
    qed (simp only: un True bool.case s)
  qed
qed

lemma parts_bytes:
  assumes "at_bytes dl r n (part_stream b p @ stream_rest b ps @ extra)" "length (part_stream b p @ stream_rest b ps) = n"
    "\<forall>q\<in>set (p # ps). upload_env_ok en b path q" "m = crlf @ ''--'' @ b" "length b < 256"
  shows "\<exists>rc sz r' u'. upload_parts en m (sv \<noteq> None) (saved_of sv) r u = (rc, sz, r', u')
    \<and> upload_agrees (save_parts (en_file_field en) path (p # ps) sv (uo_files u) (uo_fields u)) rc sz (uo_files u') (uo_fields u')"
  using assms(1-3)
proof (induction ps arbitrary: p r n sv u)
  case Nil
  have "length (part_stream b p) \<le> n" "upload_env_ok en b path p" using Nil by auto
  from parts_step[OF Nil(1) this assms(4,5), of sv u "[]"] show ?case
  proof (elim disjE exE conjE)
    fix r2 u2 sv'
    assume a: "at_bytes dl r2 (n - length (part_stream b p)) (stream_rest b [] @ extra)"
      and ref: "save_parts (en_file_field en) path [p] sv (uo_files u) (uo_fields u)
            = save_parts (en_file_field en) path [] sv' (uo_files u2) (uo_fields u2)"
      and un: "upload_parts en m (sv \<noteq> None) (saved_of sv) r u =
           (case sw_upload_reader_line 512 r2 of
              (None, r3) \<Rightarrow> (-1, saved_of sv', r3, u2)
            | (Some line, r3) \<Rightarrow>
                if cstr line = ''--'' then
                  (case upload_drain r3 of
                     (False, r4) \<Rightarrow> (-1, saved_of sv', r4, u2)
                   | (True, r4) \<Rightarrow> (if sv' \<noteq> None then 0 else -1, saved_of sv', r4, u2))
                else if length line \<noteq> 0 then (-1, saved_of sv', r3, u2)
                else upload_parts en m (sv' \<noteq> None) (saved_of sv') r3 u2)"
    have "n - length (part_stream b p) = 4" using Nil(2) by auto
    then have "at_bytes dl r2 4 (''--'' @ crlf @ extra)" using a by simp
    from reader_line_bytes[OF this, of 512] obtain r3 where
      r3: "sw_upload_reader_line 512 r2 = (Some ''--'', r3)" "at_bytes dl r3 0 extra" by auto
    obtain r4 where "upload_drain r3 = (True, r4)" using drain_bytes[OF r3(2)] by auto
    with r3 un have "upload_parts en m (sv \<noteq> None) (saved_of sv) r u = (if sv' \<noteq> None then 0 else -1, saved_of sv', r4, u2)"
      by simp
    then show ?case unfolding ref by (cases sv') (simp_all add: upload_agrees_def saved_of_def)
  qed (auto simp: upload_agrees_def)
next
  case (Cons q ps)
  have "length (part_stream b p) \<le> n" "upload_env_ok en b path p" using Cons.prems by auto
  from parts_step[OF Cons.prems(1) this assms(4,5), of sv u "q # ps"] show ?case
  proof (elim disjE exE conjE)
    fix r2 u2 sv'
    assume a: "at_bytes dl r2 (n - length (part_stream b p)) (stream_rest b (q # ps) @ extra)"
      and ref: "save_parts (en_file_field en) path (p # q # ps) sv (uo_files u) (uo_fields u)
            = save_parts (en_file_field en) path (q # ps) sv' (uo_files u2) (uo_fields u2)"
      and un: "upload_parts en m (sv \<noteq> None) (saved_of sv) r u =
           (case sw_upload_reader_line 512 r2 of
              (None, r3) \<Rightarrow> (-1, saved_of sv', r3, u2)
            | (Some line, r3) \<Rightarrow>
                if cstr line = ''--'' then
                  (case upload_drain r3 of
                     (False, r4) \<Rightarrow> (-1, saved_of sv', r4, u2)
                   | (True, r4) \<Rightarrow> (if sv' \<noteq> None then 0 else -1, saved_of sv', r4, u2))
                else if length line \<noteq> 0 then (-1, saved_of sv', r3, u2)
                else upload_parts en m (sv' \<noteq> None) (saved_of sv') r3 u2)"
    let ?n = "length (part_stream b q @ stream_rest b ps)"
    have "n - length (part_stream b p) = ?n + 2" using Cons.prems(2) by auto
    then have "at_bytes dl r2 (?n + 2) ([] @ crlf @ part_stream b q @ stream_rest b ps @ extra)" using a by simp
    from reader_line_bytes[OF this, of 512] obtain r3 where
      r3: "sw_upload_reader_line 512 r2 = (Some [], r3)" "at_bytes dl r3 ?n (part_stream b q @ stream_rest b ps @ extra)" by auto
    have "upload_parts en m (sv \<noteq> None) (saved_of sv) r u = upload_parts en m (sv' \<noteq> None) (saved_of sv') r3 u2"
      using r3(1) un by simp
    with Cons.IH[OF r3(2) refl, of sv' u2] Cons.prems(3) ref show ?case by simp
  qed (auto simp: upload_agrees_def)
qed

text \<open>The whole call on a streamed and on a buffered body.\<close>

lemma streamed_bytes:
  assumes "at_bytes dl r (length (render_multipart b ps)) (render_multipart b ps @ extra)"
    "\<forall>q\<in>set ps. upload_env_ok en b path q" "length b < 256" "CR \<notin> set b" "NUL \<notin> set b"
  shows "\<exists>rc sz r' u'. upload_streamed en b r u = (rc, sz, r', u')
    \<and> upload_agrees (save_parts (en_file_field en) path ps None (uo_files u) (uo_fields u)) rc sz (uo_files u') (uo_fields u')"
proof -
  have tk: "take 259 (''--'' @ b) = ''--'' @ b" "take 261 (crlf @ ''--'' @ b) = crlf @ ''--'' @ b"
    using assms(3) by simp_all
  have cs: "cstr (''--'' @ b) = ''--'' @ b" "cstr (''--'' @ b @ ''--'') \<noteq> ''--'' @ b"
    using assms(5) by (simp_all add: cstr_ident cstr_append)
  show ?thesis
  proof (cases ps)
    case Nil
    then have "at_bytes dl r (length b + 6) ((''--'' @ b @ ''--'') @ crlf @ extra)" using assms(1)
      by (simp add: render_multipart_def eval_nat_numeral)
    from reader_line_bytes[OF this, of 512] assms(3,4) obtain r1 where "sw_upload_reader_line 512 r = (Some (''--'' @ b @ ''--''), r1)"
      by auto
    then have "upload_streamed en b r u = (-1, 0, r1, u)"
      using cs(2) unfolding upload_streamed_def Let_def tk by simp
    then show ?thesis using Nil by (simp add: upload_agrees_def)
  next
    case (Cons p ps')
    let ?n = "length (part_stream b p @ stream_rest b ps')"
    have e: "length (render_multipart b ps) = length b + 4 + ?n"
      "render_multipart b ps @ extra = (''--'' @ b) @ crlf @ part_stream b p @ stream_rest b ps' @ extra"
      by (simp_all add: render_stream Cons)
    have "at_bytes dl r (length b + 4 + ?n) ((''--'' @ b) @ crlf @ part_stream b p @ stream_rest b ps' @ extra)"
      using assms(1) unfolding e .
    from reader_line_bytes[OF this, of 512] assms(3,4) obtain r1 where
      r1: "sw_upload_reader_line 512 r = (Some (''--'' @ b), r1)" "at_bytes dl r1 ?n (part_stream b p @ stream_rest b ps' @ extra)"
      by (auto simp: add_ac)
    have "upload_streamed en b r u = upload_parts en (crlf @ ''--'' @ b) (None \<noteq> (None::nat option)) (saved_of None) r1 u"
      using r1(1) cs(1) unfolding upload_streamed_def Let_def tk by (simp add: saved_of_def)
    with parts_bytes[OF r1(2) refl _ refl assms(3), of en path None u] assms(2) Cons show ?thesis by simp
  qed
qed

lemma buffered_bytes:
  assumes "is_multipart m b body" "body = pre @ render_multipart b ps"
    "\<forall>q\<in>set ps. part_ok b q \<and> en_path_fn en (mk_part b q) = (0, path q) \<and> path q \<noteq> [] \<and> disk_works (en_disk en) (path q)"
    "length body < 2 ^ 31"
  shows "\<exists>rc sz u'. upload_buffered_loop en m (length pre) (sv \<noteq> None) (saved_of sv) u = (rc, sz, u')
    \<and> upload_agrees (save_parts (en_file_field en) path ps sv (uo_files u) (uo_fields u)) rc sz (uo_files u') (uo_fields u')"
  using assms(2,3)
proof (induction ps arbitrary: pre sv u)
  case Nil
  have "sw_http_next_multipart (Some m) (length pre) = None"
    using next_after_last[OF assms(1), of pre] Nil(1) by (simp add: render_multipart_def)
  then show ?case by (subst upload_buffered_loop.simps) (auto simp: upload_agrees_def saved_of_def split: option.split)
next
  case (Cons p ps)
  let ?pre = "pre @ render_part b p" and ?d = "pt_data p"
  have p: "part_ok b p" "en_path_fn en (mk_part b p) = (0, path p)" "path p \<noteq> []" "disk_works (en_disk en) (path p)"
    using Cons.prems(2) by auto
  have bd: "body = ?pre @ render_multipart b ps" using Cons.prems(1) by (simp add: render_multipart_def)
  have dl: "length ?d < 2 ^ 31" using assms(4) Cons.prems(1) by (simp add: render_multipart_def render_part_def)
  obtain rest where "render_multipart b ps = ''--'' @ b @ rest" using render_stream by blast
  then have nx: "sw_http_next_multipart (Some m) (length pre) = Some (mk_part b p, length ?pre)"
    using next_rendered_part[OF assms(1), of pre p rest] bd p(1) by simp
  note ih = Cons.IH[OF bd]
  note un = upload_buffered_loop.simps[of en m "length pre" "sv \<noteq> None" "saved_of sv" u, unfolded nx option.case prod.case]
  have mp: "mp_filename (mk_part b p) = pt_filename p" "mp_name (mk_part b p) = Some (pt_name p)"
    "mp_data (mk_part b p) = Some ?d" "mp_data_len (mk_part b p) = length ?d" by (simp_all add: mk_part_def)
  show ?case
  proof (cases "pt_filename p")
    case None
    show ?thesis
    proof (cases "sw_http_upload_field_find (uo_fields u) (Some (pt_name p))")
      case n: None
      with None ih[of sv u] Cons.prems(2) show ?thesis unfolding un mp by simp
    next
      case (Some i)
      let ?f = "uo_fields u ! i"
      have i32: "i32_of_sz (length ?d) \<ge> 0" using dl by (simp add: i32_of_sz_def)
      show ?thesis
      proof (cases "uf_value ?f = None \<or> length ?d \<ge> uf_value_len ?f")
        case True
        then have "fst (sw_http_upload_field_store (Some ?f) (Some ?d) (length ?d)) < 0"
          by (auto simp: sw_http_upload_field_store_def)
        with None Some True show ?thesis
          unfolding un mp by (auto simp: upload_agrees_def split: prod.split)
      next
        case False
        then have "sw_http_upload_field_store (Some ?f) (Some ?d) (length ?d) = (i32_of_sz (length ?d), Some (?f\<lparr>uf_value := Some ?d\<rparr>))"
          by (auto simp: sw_http_upload_field_store_def)
        with None Some False i32 ih[of sv "u\<lparr>uo_fields := (uo_fields u)[i := ?f\<lparr>uf_value := Some ?d\<rparr>]\<rparr>"] Cons.prems(2)
        show ?thesis unfolding un mp by auto
      qed
    qed
  next
    case (Some fname)
    have ta: "is_target en (sv \<noteq> None) (mk_part b p) = (sv = None \<and> (en_file_field en = None \<or> cstr (pt_name p) = cstr (the (en_file_field en))))"
      using Some by (auto simp: is_target_def mp)
    show ?thesis
    proof (cases "sv = None \<and> (en_file_field en = None \<or> cstr (pt_name p) = cstr (the (en_file_field en)))")
      case True
      have "sw_http_multipart_save (en_disk en) (Some (mk_part b p)) (Some (path p)) (uo_files u) = (0, (uo_files u)(path p \<mapsto> ?d))"
        using p(4) by (simp add: sw_http_multipart_save_def mp disk_works_def Let_def)
      with True Some ta p(2,3) ih[of "Some (length ?d)" "u\<lparr>uo_files := (uo_files u)(path p \<mapsto> ?d)\<rparr>"] Cons.prems(2)
      show ?thesis unfolding un mp by (simp add: saved_of_def fun_upd_def)
    next
      case False
      then have sp: "save_parts (en_file_field en) path (p # ps) sv (uo_files u) (uo_fields u)
          = save_parts (en_file_field en) path ps sv (uo_files u) (uo_fields u)" using Some by auto
      have "upload_buffered_loop en m (length pre) (sv \<noteq> None) (saved_of sv) u = upload_buffered_loop en m (length ?pre) (sv \<noteq> None) (saved_of sv) u"
      proof -
        have "\<not> is_target en (sv \<noteq> None) (mk_part b p)" using False ta by simp
        with Some show ?thesis unfolding un mp by simp
      qed
      with ih[of sv u] Cons.prems(2) show ?thesis unfolding sp by simp
    qed
  qed
qed

section \<open>What an upload saves\<close>

text \<open>
  C11. A streamed upload saves what the form says. The body is a rendered list of parts, arriving in
  any pieces and possibly followed by the next request; file names are given by the callback and
  the disk works. The call succeeds exactly when the reference \<open>save_parts\<close> saves a file; then the
  file holds that part's data, the size is its length, every field has the data of its last part,
  and nothing else changes. A field that does not fit refuses the upload.
\<close>

theorem streamed_upload_saves:
  assumes "hm_body_pending (c_request c)"
    and "sw_http_content_type_boundary (sw_http_header_get (Some (c_request c)) (Some ''Content-Type'')) 256 = Some b"
    and "CR \<notin> set b" "NUL \<notin> set b"
    and "hm_content_length (c_request c) = length (render_multipart b ps)"
    and "c_read_buffer c @ net_bytes (upload_deadline cfg now) net = render_multipart b ps @ extra"
    and "\<forall>p\<in>set ps. upload_env_ok \<lparr>en_disk = dk, en_file_field = ff, en_path_fn = path_fn, en_config = cfg\<rparr> b path p"
    and "r = sw_http_upload_save_fields dk cfg c Own_request ff (Some path_fn) (Some flds) (length flds) now net files"
  shows "upload_agrees (save_parts ff path ps None files (map clear_upload_field flds))
    (up_rc r) (up_size r) (up_files r) (up_fields r)"
proof -
  let ?en = "\<lparr>en_disk = dk, en_file_field = ff, en_path_fn = path_fn, en_config = cfg\<rparr>"
  let ?u = "\<lparr>uo_files = files, uo_fields = map clear_upload_field flds, uo_field_used = 0, uo_size = 0\<rparr>"
  have "length b < 256" using boundary_bounds[OF assms(2)] by simp
  moreover have "at_bytes (upload_deadline cfg now) (upload_reader cfg c (length (render_multipart b ps)) now net)
      (length (render_multipart b ps)) (render_multipart b ps @ extra)"
    using reader_at_bytes[of cfg now c "length (render_multipart b ps)" net] assms(6) by simp
  ultimately obtain rc sz r1 u1 where
    st: "upload_streamed ?en b (upload_reader cfg c (length (render_multipart b ps)) now net) ?u = (rc, sz, r1, u1)"
    and ag: "upload_agrees (save_parts ff path ps None files (map clear_upload_field flds)) rc sz (uo_files u1) (uo_fields u1)"
    using streamed_bytes[of _ _ b ps extra ?en path ?u] assms(3,4,7) by fastforce
  have "up_rc r = rc \<and> (rc = 0 \<longrightarrow> up_size r = sz) \<and> up_files r = uo_files u1 \<and> up_fields r = uo_fields u1"
    unfolding assms(8) sw_http_upload_save_fields_def using assms(1,2,5) st by (simp add: Let_def)
  with ag show ?thesis by (auto simp: upload_agrees_def split: option.splits)
qed

text \<open>
  Buffering or streaming a body makes no difference. For a body of less than 2 GiB that both ways of
  receiving a request can take, the return codes are the same, and after a success the sizes, the
  files and the fields are too.
\<close>

lemma buffered_upload_saves:
  assumes "is_multipart m b (render_multipart b ps)" "\<not> hm_body_pending m" "length (render_multipart b ps) < 2 ^ 31"
    and "\<forall>p\<in>set ps. part_ok b p \<and> path_fn (mk_part b p) = (0, path p) \<and> path p \<noteq> [] \<and> disk_works dk (path p)"
    and "r = sw_http_upload_save_fields dk cfg c (Other_message m) ff (Some path_fn) (Some flds) (length flds) now net files"
  shows "upload_agrees (save_parts ff path ps None files (map clear_upload_field flds))
    (up_rc r) (up_size r) (up_files r) (up_fields r)"
proof -
  let ?en = "\<lparr>en_disk = dk, en_file_field = ff, en_path_fn = path_fn, en_config = cfg\<rparr>"
  let ?u = "\<lparr>uo_files = files, uo_fields = map clear_upload_field flds, uo_field_used = 0, uo_size = 0\<rparr>"
  obtain rc sz u1 where st: "upload_buffered_loop ?en m 0 False 0 ?u = (rc, sz, u1)"
    and ag: "upload_agrees (save_parts ff path ps None files (map clear_upload_field flds)) rc sz (uo_files u1) (uo_fields u1)"
    using buffered_bytes[OF assms(1), of "[]" ps ?en path None ?u] assms(3,4) by (auto simp: saved_of_def)
  have "up_rc r = rc \<and> (rc = 0 \<longrightarrow> up_size r = sz) \<and> up_files r = uo_files u1 \<and> up_fields r = uo_fields u1"
    unfolding assms(5) sw_http_upload_save_fields_def using assms(2) st by (simp add: Let_def)
  with ag show ?thesis by (auto simp: upload_agrees_def split: option.splits)
qed

text \<open>A call whose bytes come in three packets with a pause between them.\<close>

definition example_upload_connection :: sw_connection where
  "example_upload_connection = (new_connection 7 0 True False None 0 True 0)
     \<lparr>c_read_buffer := take 10 (render_multipart ''Q'' example_parts),
      c_request := example_message\<lparr>hm_body := None, hm_body_len := 0, hm_body_pending := True,
        hm_content_length := length (render_multipart ''Q'' example_parts)\<rparr>,
      c_request_ready := True, c_must_close := True\<rparr>"

definition example_upload_net :: "net_event list" where
  "example_upload_net = [Net_data 1 (take 20 (drop 10 (render_multipart ''Q'' example_parts))), Net_again 2,
     Net_data 3 (drop 30 (render_multipart ''Q'' example_parts)), Net_data 4 ''GET''] "

definition example_upload_field :: sw_http_upload_field where
  "example_upload_field = \<lparr>uf_name = Some ''a'', uf_value = Some ''old'', uf_value_len = 8\<rparr>"

definition good_disk :: disk where
  "good_disk = \<lparr>dk_open = (\<lambda>p. True), dk_write = (\<lambda>p n. True), dk_close = (\<lambda>p. True)\<rparr>"

definition example_upload_result :: upload_result where
  "example_upload_result = sw_http_upload_save_fields good_disk None example_upload_connection Own_request None
     (Some (\<lambda>mp. (0, ''up''))) (Some [example_upload_field]) 1 0 example_upload_net Map.empty"

lemma example_upload_bytes:
  "c_read_buffer example_upload_connection @ net_bytes (upload_deadline None 0) example_upload_net
    = render_multipart ''Q'' example_parts @ ''GET''"
proof -
  let ?b = "render_multipart ''Q'' example_parts"
  have "50 < length ?b" by (simp add: render_multipart_def render_part_def example_parts_def part_lines_def)
  moreover have "take 10 ?b @ take 20 (drop 10 ?b) @ drop 30 ?b = ?b"
    using take_add[of 10 20 ?b] append_take_drop_id[of 30 ?b] by simp
  ultimately show ?thesis
    by (simp add: example_upload_connection_def example_upload_net_def upload_deadline_def)
qed

theorem streamed_upload_saves_witness:
  "up_rc example_upload_result = 0 \<and> up_size example_upload_result = 2
   \<and> up_files example_upload_result ''up'' = Some crlf
   \<and> map uf_value (up_fields example_upload_result) = [Some ''1'']"
proof -
  have p: "\<forall>p\<in>set example_parts. upload_env_ok \<lparr>en_disk = good_disk, en_file_field = None, en_path_fn = \<lambda>mp. (0, ''up''), en_config = None\<rparr> ''Q'' (\<lambda>p. ''up'') p"
    using example_parts_ok
    by (auto simp: upload_env_ok_def disk_works_def good_disk_def header_len_limit_def example_parts_def part_lines_def)
  have h: "sw_http_header_get (Some (c_request example_upload_connection)) (Some ''Content-Type'') = Some ''multipart/form-data; boundary=Q''"
    by (simp add: example_upload_connection_def example_message_def sw_http_header_get_def)
  have bd: "sw_http_content_type_boundary (sw_http_header_get (Some (c_request example_upload_connection)) (Some ''Content-Type'')) 256 = Some ''Q''"
    unfolding h by (rule example_boundary)
  have "upload_agrees (save_parts None (\<lambda>p. ''up'') example_parts None Map.empty (map clear_upload_field [example_upload_field]))
      (up_rc example_upload_result) (up_size example_upload_result) (up_files example_upload_result) (up_fields example_upload_result)"
    by (rule streamed_upload_saves[OF _ bd _ _ _ example_upload_bytes p])
      (simp_all add: example_upload_connection_def example_upload_result_def)
  then show ?thesis
    by (simp add: upload_agrees_def example_parts_def example_upload_field_def clear_upload_field_def sw_http_upload_field_find_def)
qed

text \<open>The same bytes in one piece give the same result.\<close>

theorem upload_depends_on_bytes_witness:
  "up_files example_upload_result = up_files (sw_http_upload_save_fields good_disk None
     (example_upload_connection\<lparr>c_read_buffer := []\<rparr>) Own_request None (Some (\<lambda>mp. (0, ''up'')))
     (Some [example_upload_field]) 1 0 [Net_data 9 (render_multipart ''Q'' example_parts @ ''GET'')] Map.empty)"
proof -
  have "hm_body_pending (c_request example_upload_connection)" by (simp add: example_upload_connection_def)
  moreover have "c_read_buffer (example_upload_connection\<lparr>c_read_buffer := []\<rparr>) @ net_bytes (upload_deadline None 0)
      [Net_data 9 (render_multipart ''Q'' example_parts @ ''GET'')] = render_multipart ''Q'' example_parts @ ''GET''"
    by simp
  ultimately show ?thesis
    using upload_depends_on_bytes[OF _ _ example_upload_bytes _ example_upload_result_def refl] by simp
qed

end
