(* ===== verification/Store.thy ===== *)
theory Store
  imports Prelude Complex_Main
begin

text \<open>
  What sessions and tokens have in common in \<^verbatim>\<open>src/sw_server.c\<close>: an array of entries with an expiry
  time and a last-use time, swept, searched and evicted by the same loops, and in every entry a
  small table of items. The loops are modelled once over the accessors of the entry; the locales
  state what their clients rely on.
\<close>

section \<open>The loops over the array\<close>

definition remove_at :: "nat \<Rightarrow> 'a list \<Rightarrow> 'a list" where
  "remove_at i xs = (if i \<ge> length xs then xs else take i xs @ drop (Suc i) xs)"

function cleanup_loop :: "('a \<Rightarrow> real) \<Rightarrow> real \<Rightarrow> nat \<Rightarrow> 'a list \<Rightarrow> 'a list" where
  "cleanup_loop expires now i xs =
     (if \<not> i < length xs then xs
      else if expires (xs ! i) \<le> now then cleanup_loop expires now i (remove_at i xs)
      else cleanup_loop expires now (i + 1) xs)"
  by pat_completeness auto
termination
  by (relation "measure (\<lambda>(expires, now, i, xs). length xs - i)") (auto simp: remove_at_def)

declare cleanup_loop.simps [simp del]

fun oldest_loop :: "('a \<Rightarrow> real) \<Rightarrow> 'a list \<Rightarrow> nat \<Rightarrow> real \<Rightarrow> nat \<Rightarrow> nat" where
  "oldest_loop touched [] i oldest_touched oldest_index = oldest_index"
| "oldest_loop touched (x # xs) i oldest_touched oldest_index =
     (if touched x < oldest_touched then oldest_loop touched xs (i + 1) (touched x) i
      else oldest_loop touched xs (i + 1) oldest_touched oldest_index)"

definition evict_oldest :: "('a \<Rightarrow> real) \<Rightarrow> 'a list \<Rightarrow> 'a list" where
  "evict_oldest touched xs =
     (case xs of [] \<Rightarrow> [] | x # rest \<Rightarrow> remove_at (oldest_loop touched rest 1 (touched x) 0) xs)"

fun index_of :: "('a \<Rightarrow> bool) \<Rightarrow> 'a list \<Rightarrow> nat option" where
  "index_of P [] = None"
| "index_of P (x # xs) = (if P x then Some 0 else map_option Suc (index_of P xs))"

lemma cleanup_loop_eq:
  "cleanup_loop expires now i xs = take i xs @ filter (\<lambda>x. now < expires x) (drop i xs)"
proof (induction expires now i xs rule: cleanup_loop.induct)
  case (1 expires now i xs)
  show ?case
  proof (cases "i < length xs")
    case True
    then have d: "drop i xs = xs ! i # drop (Suc i) xs" by (simp add: Cons_nth_drop_Suc)
    have r: "take i (remove_at i xs) = take i xs" "drop i (remove_at i xs) = drop (Suc i) xs"
      using True by (simp_all add: remove_at_def)
    show ?thesis
    proof (cases "expires (xs ! i) \<le> now")
      case e: True
      with True 1(1) show ?thesis by (subst cleanup_loop.simps) (simp add: d r)
    next
      case e: False
      with True 1(2) show ?thesis by (subst cleanup_loop.simps) (simp add: d take_Suc_conv_app_nth)
    qed
  qed (subst cleanup_loop.simps, simp)
qed

lemma cleanup_filter: "cleanup_loop expires now 0 xs = filter (\<lambda>x. now < expires x) xs"
  by (simp add: cleanup_loop_eq)

lemma oldest_loop_min:
  "ot = touched (xs ! oi) \<Longrightarrow> oi < i \<Longrightarrow> i \<le> length xs \<Longrightarrow> (\<forall>j<i. ot \<le> touched (xs ! j)) \<Longrightarrow>
   let k = oldest_loop touched (drop i xs) i ot oi in
   k < length xs \<and> (\<forall>j<length xs. touched (xs ! k) \<le> touched (xs ! j))"
proof (induction "length xs - i" arbitrary: i ot oi)
  case 0
  then have "i = length xs" by simp
  with 0 show ?case by simp
next
  case (Suc n)
  then have i: "i < length xs" by simp
  then have d: "drop i xs = xs ! i # drop (Suc i) xs" by (simp add: Cons_nth_drop_Suc)
  show ?case
  proof (cases "touched (xs ! i) < ot")
    case True
    have "\<forall>j<i + 1. touched (xs ! i) \<le> touched (xs ! j)"
      using True Suc.prems(4) less_Suc_eq by fastforce
    then show ?thesis using Suc.hyps(1)[of "i + 1" "touched (xs ! i)" i] Suc.hyps(2) True i d by simp
  next
    case False
    have "\<forall>j<i + 1. ot \<le> touched (xs ! j)"
      using False Suc.prems(4) less_Suc_eq by fastforce
    then show ?thesis using Suc.hyps(1)[of "i + 1" ot oi] Suc.hyps(2) Suc.prems False i d by simp
  qed
qed

lemma evict_oldest_min:
  assumes "xs \<noteq> []"
  shows "\<exists>k<length xs. evict_oldest touched xs = remove_at k xs \<and> (\<forall>x\<in>set xs. touched (xs ! k) \<le> touched x)"
proof -
  obtain x rest where xs: "xs = x # rest" using assms by (cases xs) auto
  let ?k = "oldest_loop touched rest 1 (touched x) 0"
  have "?k < length xs \<and> (\<forall>j<length xs. touched (xs ! ?k) \<le> touched (xs ! j))"
    using oldest_loop_min[of "touched x" touched xs 0 1] by (simp add: xs Let_def)
  moreover from this have "\<forall>y\<in>set xs. touched (xs ! ?k) \<le> touched y" by (metis in_set_conv_nth)
  ultimately show ?thesis by (intro exI[of _ ?k]) (simp add: evict_oldest_def xs)
qed

lemma index_of_Some:
  "index_of P xs = Some i \<longleftrightarrow> i < length xs \<and> P (xs ! i) \<and> (\<forall>j<i. \<not> P (xs ! j))"
proof (induction xs arbitrary: i)
  case (Cons x xs)
  show ?case
  proof (cases i)
    case (Suc k)
    with Cons.IH[of k] show ?thesis by (auto simp: less_Suc_eq_0_disj split: option.splits)
  qed auto
qed simp

lemma index_of_None: "index_of P xs = None \<longleftrightarrow> (\<forall>x\<in>set xs. \<not> P x)"
  by (induction xs) auto

lemma length_remove_at: "i < length xs \<Longrightarrow> length (remove_at i xs) = length xs - 1"
  by (simp add: remove_at_def)

lemma set_remove_at: "set (remove_at i xs) \<subseteq> set xs"
  by (auto simp: remove_at_def dest: in_set_takeD in_set_dropD)

lemma distinct_remove_at:
  assumes "distinct (map f xs)"
  shows "distinct (map f (remove_at i xs))"
proof (cases "i < length xs")
  case True
  then have "xs = take i xs @ xs ! i # drop (Suc i) xs" by (rule id_take_nth_drop)
  with assms have "distinct (map f (take i xs @ xs ! i # drop (Suc i) xs))" by metis
  with True show ?thesis by (auto simp: remove_at_def simp del: append_take_drop_id)
qed (use assms in \<open>simp add: remove_at_def\<close>)

text \<open>The loops commute with a change of representation of the entries.\<close>

lemma remove_at_map: "remove_at i (map g xs) = map g (remove_at i xs)"
  by (simp add: remove_at_def take_map drop_map)

lemma cleanup_map: "cleanup_loop expires now 0 (map g xs) = map g (cleanup_loop (\<lambda>x. expires (g x)) now 0 xs)"
  by (simp add: cleanup_filter filter_map comp_def)

lemma oldest_loop_map: "oldest_loop touched (map g xs) i t k = oldest_loop (\<lambda>x. touched (g x)) xs i t k"
  by (induction "\<lambda>x. touched (g x)" xs i t k rule: oldest_loop.induct) simp_all

lemma evict_oldest_map: "evict_oldest touched (map g xs) = map g (evict_oldest (\<lambda>x. touched (g x)) xs)"
  by (simp add: evict_oldest_def remove_at_map[of _ _ "_ # _", simplified] oldest_loop_map split: list.split)

lemma index_of_map: "index_of P (map g xs) = index_of (\<lambda>x. P (g x)) xs"
  by (induction xs) simp_all

section \<open>The contract of a store of expiring entries\<close>

locale expiring_store =
  fixes id_of :: "'s \<Rightarrow> string"
    and expires :: "'s \<Rightarrow> real"
    and touched :: "'s \<Rightarrow> real"
    and sweep :: "real \<Rightarrow> 's list \<Rightarrow> 's list"
    and evict :: "'s list \<Rightarrow> 's list"
    and lookup :: "string \<Rightarrow> 's list \<Rightarrow> nat option"
  assumes sweep_eq: "sweep now xs = filter (\<lambda>s. now < expires s) xs"
    and evict_min: "xs \<noteq> [] \<Longrightarrow> \<exists>k<length xs. evict xs = remove_at k xs \<and> (\<forall>x\<in>set xs. touched (xs ! k) \<le> touched x)"
    and lookup_Some: "lookup i xs = Some k \<Longrightarrow> k < length xs \<and> id_of (xs ! k) = i"
    and lookup_None: "lookup i xs = None \<longleftrightarrow> (\<forall>x\<in>set xs. id_of x \<noteq> i)"
begin

text \<open>\<open>store_ok n P xs\<close>: at most \<open>n\<close> entries, with distinct ids, all of them well formed.\<close>

definition store_ok :: "nat \<Rightarrow> ('s \<Rightarrow> bool) \<Rightarrow> 's list \<Rightarrow> bool" where
  "store_ok n P xs \<longleftrightarrow> length xs \<le> n \<and> distinct (map id_of xs) \<and> (\<forall>x\<in>set xs. P x)"

lemma sweep_ok: "store_ok n P xs \<Longrightarrow> store_ok n P (sweep now xs)"
  by (auto simp: store_ok_def sweep_eq distinct_map_filter intro: order_trans[OF length_filter_le])

lemma sweep_unexpired: "x \<in> set (sweep now xs) \<Longrightarrow> now < expires x"
  by (simp add: sweep_eq)

lemma evict_ok: "store_ok n P xs \<Longrightarrow> xs \<noteq> [] \<Longrightarrow> store_ok (n - 1) P (evict xs)"
proof -
  assume a: "store_ok n P xs" "xs \<noteq> []"
  then obtain k where k: "k < length xs" "evict xs = remove_at k xs" using evict_min by blast
  then show ?thesis using a set_remove_at[of k xs]
    by (auto simp: store_ok_def length_remove_at distinct_remove_at)
qed

lemma store_ok_mono: "store_ok n P xs \<Longrightarrow> n \<le> m \<Longrightarrow> store_ok m P xs"
  by (auto simp: store_ok_def)

lemma remove_ok:
  assumes "store_ok n P xs"
  shows "store_ok n P (remove_at k xs)"
proof (cases "k < length xs")
  case True
  then have "length (remove_at k xs) \<le> n" using assms by (auto simp: store_ok_def length_remove_at)
  with assms set_remove_at[of k xs] show ?thesis by (auto simp: store_ok_def distinct_remove_at)
next
  case False
  with assms show ?thesis by (simp add: remove_at_def)
qed

lemma evict_length: "xs \<noteq> [] \<Longrightarrow> length (evict xs) < length xs"
  using evict_min[of xs] by (auto simp: length_remove_at)

lemma evict_subset: "set (evict xs) \<subseteq> set xs \<or> xs = []"
  using evict_min[of xs] by (cases "xs = []") (auto dest: set_remove_at[THEN subsetD])

lemma add_ok:
  "store_ok n P xs \<Longrightarrow> length xs < n \<Longrightarrow> lookup (id_of x) xs = None \<Longrightarrow> P x \<Longrightarrow> store_ok n P (xs @ [x])"
  by (auto simp: store_ok_def lookup_None)

lemma lookup_distinct:
  assumes "distinct (map id_of xs)" and "k < length xs"
  shows "lookup (id_of (xs ! k)) xs = Some k"
proof (cases "lookup (id_of (xs ! k)) xs")
  case None
  with assms(2) show ?thesis by (auto simp: lookup_None)
next
  case (Some j)
  with lookup_Some[OF Some] assms show ?thesis by (auto simp: distinct_conv_nth)
qed

lemma remove_lookup:
  assumes "distinct (map id_of xs)" and "lookup i xs = Some k"
  shows "remove_at k xs = filter (\<lambda>x. id_of x \<noteq> i) xs"
proof -
  note l = lookup_Some[OF assms(2)]
  then have s: "xs = take k xs @ xs ! k # drop (Suc k) xs" using id_take_nth_drop by blast
  then have "distinct (map id_of (take k xs @ xs ! k # drop (Suc k) xs))" using assms(1) by metis
  then have "i \<notin> id_of ` set (take k xs)" and "i \<notin> id_of ` set (drop (Suc k) xs)"
    using l by (auto simp del: append_take_drop_id)
  then have "filter (\<lambda>x. id_of x \<noteq> i) (take k xs) = take k xs"
    and "filter (\<lambda>x. id_of x \<noteq> i) (drop (Suc k) xs) = drop (Suc k) xs"
    by (metis (mono_tags, lifting) filter_True image_eqI)+
  then have "filter (\<lambda>x. id_of x \<noteq> i) (take k xs @ xs ! k # drop (Suc k) xs) = remove_at k xs"
    using l by (simp add: remove_at_def)
  then show ?thesis using s by metis
qed

lemma remove_lookup_none: "lookup i xs = None \<Longrightarrow> filter (\<lambda>x. id_of x \<noteq> i) xs = xs"
  by (simp add: lookup_None filter_id_conv)

end

section \<open>Tables of items\<close>

type_synonym items = "(string \<times> string) list"

fun items_get :: "items \<Rightarrow> string \<Rightarrow> cptr" where
  "items_get [] key = None"
| "items_get ((k, v) # rest) key = (if k = key then Some v else items_get rest key)"

fun items_replace :: "items \<Rightarrow> string \<Rightarrow> string \<Rightarrow> items option" where
  "items_replace [] key val = None"
| "items_replace ((k, v) # rest) key val =
     (if k = key then Some ((k, val) # rest) else map_option (\<lambda>r. (k, v) # r) (items_replace rest key val))"

definition items_set :: "nat \<Rightarrow> items \<Rightarrow> string \<Rightarrow> string \<Rightarrow> int \<times> items" where
  "items_set max_items its key val =
     (case items_replace its key val of
        Some its' \<Rightarrow> (0, its')
      | None \<Rightarrow> if length its \<ge> max_items then (-1, its) else (0, its @ [(key, val)]))"

definition items_remove :: "items \<Rightarrow> string \<Rightarrow> items" where
  "items_remove its key =
     (case index_of (\<lambda>(k, v). k = key) its of None \<Rightarrow> its | Some i \<Rightarrow> remove_at i its)"

lemma items_replace_None: "items_replace its key val = None \<longleftrightarrow> key \<notin> fst ` set its"
  by (induction its key val rule: items_replace.induct) auto

lemma items_replace_Some:
  "items_replace its key val = Some its' \<Longrightarrow> map fst its' = map fst its \<and> length its' = length its \<and>
     items_get its' k = (if k = key then Some val else items_get its k)"
  by (induction its key val arbitrary: its' rule: items_replace.induct) (auto split: if_splits)

lemma items_get_append: "items_get (xs @ ys) k = (case items_get xs k of None \<Rightarrow> items_get ys k | Some v \<Rightarrow> Some v)"
  by (induction xs k rule: items_get.induct) auto

lemma items_get_None: "items_get its k = None \<longleftrightarrow> k \<notin> fst ` set its"
  by (induction its k rule: items_get.induct) auto

definition items_ok :: "nat \<Rightarrow> items \<Rightarrow> bool" where
  "items_ok n its \<longleftrightarrow> length its \<le> n \<and> distinct (map fst its)"

lemma items_set_ok: "items_ok n its \<Longrightarrow> items_ok n (snd (items_set n its key val))"
proof (cases "items_replace its key val")
  case None
  assume "items_ok n its"
  moreover from None have "key \<notin> set (map fst its)" using items_replace_None[of its key val] by simp
  ultimately show ?thesis by (simp add: items_set_def None items_ok_def)
next
  case (Some r)
  assume "items_ok n its"
  with items_replace_Some[OF Some] show ?thesis by (simp add: items_set_def Some items_ok_def)
qed

lemma items_set_get:
  "fst (items_set n its key val) = 0 \<Longrightarrow>
   items_get (snd (items_set n its key val)) k = (if k = key then Some val else items_get its k)"
proof (cases "items_replace its key val")
  case None
  assume "fst (items_set n its key val) = 0"
  with None have "snd (items_set n its key val) = its @ [(key, val)]" by (simp add: items_set_def split: if_splits)
  moreover from None have "items_get its key = None" by (simp add: items_replace_None items_get_None)
  ultimately show ?thesis by (auto simp: items_get_append split: option.splits)
qed (use items_replace_Some in \<open>auto simp: items_set_def\<close>)

lemma items_set_full:
  "fst (items_set n its key val) = (if key \<in> fst ` set its \<or> length its < n then 0 else -1)"
  by (auto simp: items_set_def items_replace_None split: option.splits) (metis items_replace_None option.distinct(1))+

lemma items_remove_ok: "items_ok n its \<Longrightarrow> items_ok n (items_remove its key)"
  by (auto simp: items_ok_def items_remove_def distinct_remove_at split: option.splits)
    (metis index_of_Some length_remove_at diff_le_self le_trans)

lemma items_get_remove:
  assumes "distinct (map fst its)"
  shows "items_get (items_remove its key) k = (if k = key then None else items_get its k)"
proof (cases "index_of (\<lambda>(k, v). k = key) its")
  case None
  then have "key \<notin> fst ` set its" by (auto simp: index_of_None)
  with None show ?thesis by (auto simp: items_remove_def items_get_None)
next
  case (Some i)
  then obtain v where i: "i < length its" "its ! i = (key, v)" by (auto simp: index_of_Some split: prod.splits)
  then have s: "its = take i its @ (key, v) # drop (Suc i) its" by (metis id_take_nth_drop)
  have r: "items_remove its key = take i its @ drop (Suc i) its" using Some i by (simp add: items_remove_def remove_at_def)
  have "key \<notin> fst ` set (take i its)" "key \<notin> fst ` set (drop (Suc i) its)"
  proof -
    have "distinct (map fst (take i its @ (key, v) # drop (Suc i) its))" using assms s by metis
    then show "key \<notin> fst ` set (take i its)" "key \<notin> fst ` set (drop (Suc i) its)"
      by (auto simp del: append_take_drop_id)
  qed
  moreover have "items_get its k = (case items_get (take i its) k of None \<Rightarrow>
      if key = k then Some v else items_get (drop (Suc i) its) k | Some v \<Rightarrow> Some v)"
    by (subst s) (cases "items_get (take i its) k"; simp add: items_get_append)
  ultimately show ?thesis unfolding r items_get_append
    by (auto simp: items_get_None[symmetric] split: option.splits)
qed

section \<open>The contract of an item table\<close>

locale item_table =
  fixes get :: "'t \<Rightarrow> string \<Rightarrow> cptr"
    and put :: "'t \<Rightarrow> string \<Rightarrow> string \<Rightarrow> int \<times> 't"
    and remove :: "'t \<Rightarrow> string \<Rightarrow> 't"
    and wf :: "'t \<Rightarrow> bool"
  assumes put_wf: "wf t \<Longrightarrow> wf (snd (put t k v))"
    and remove_wf: "wf t \<Longrightarrow> wf (remove t k)"
    and put_get: "fst (put t k v) = 0 \<Longrightarrow> get (snd (put t k v)) k' = (if k' = k then Some v else get t k')"
    and put_fail: "fst (put t k v) \<noteq> 0 \<Longrightarrow> snd (put t k v) = t"
    and remove_get: "wf t \<Longrightarrow> get (remove t k) k' = (if k' = k then None else get t k')"
begin

text \<open>The table refines a finite map: a sequence of updates acts on it as on the map.\<close>

lemma put_map: "fst (put t k v) = 0 \<Longrightarrow> get (snd (put t k v)) = (get t)(k \<mapsto> v)"
  by (rule ext) (simp add: put_get)

lemma remove_map: "wf t \<Longrightarrow> get (remove t k) = (get t)(k := None)"
  by (rule ext) (simp add: remove_get)

lemma put_remove_map:
  "wf t \<Longrightarrow> fst (put t k v) = 0 \<Longrightarrow> get (remove (snd (put t k v)) k) = (get t)(k := None)"
  by (simp add: remove_map put_wf put_map)

end

interpretation items: item_table items_get "items_set n" items_remove "items_ok n" for n
proof
  show "items_ok n t \<Longrightarrow> items_ok n (snd (items_set n t k v))" for t k v by (rule items_set_ok)
  show "items_ok n t \<Longrightarrow> items_ok n (items_remove t k)" for t k by (rule items_remove_ok)
  show "fst (items_set n t k v) = 0 \<Longrightarrow>
      items_get (snd (items_set n t k v)) k' = (if k' = k then Some v else items_get t k')" for t k v k'
    by (rule items_set_get)
  show "fst (items_set n t k v) \<noteq> 0 \<Longrightarrow> snd (items_set n t k v) = t" for t k v
    by (simp add: items_set_def split: option.splits if_splits)
  show "items_ok n t \<Longrightarrow> items_get (items_remove t k) k' = (if k' = k then None else items_get t k')" for t k k'
    by (simp add: items_get_remove items_ok_def)
qed

end
