(* ===== verification/Sessions.thy ===== *)
theory Sessions
  imports Store Query
begin

text \<open>
  Server-side sessions, \<^verbatim>\<open>src/sw_server.c\<close>. A pointer to a session is its index in the array the call
  leaves behind. Readings of the clock and the bytes of \<^verbatim>\<open>/dev/urandom\<close> are arguments:
  \<open>now\<close>, \<open>now2\<close> and \<open>rnd k\<close>, the 32 bytes of the \<open>k\<close>-th attempt or None when reading fails.
\<close>

record sw_session =
  ss_id :: string
  ss_items :: items
  ss_expires_at_ms :: real
  ss_touched_at_ms :: real
  ss_max_items :: nat

record sw_sessions =
  sn_sessions :: "sw_session list"
  sn_cookie_name :: string
  sn_cookie :: sw_http_cookie
  sn_ttl_seconds :: int
  sn_max_sessions :: nat
  sn_max_items :: nat

record sw_session_config =
  sc_cookie_name :: cptr
  sc_ttl_seconds :: int
  sc_max_sessions :: nat
  sc_max_items :: nat
  sc_cookie :: sw_http_cookie

section \<open>Identifiers\<close>

definition sw_session_id_is_valid :: "cptr \<Rightarrow> bool" where
  "sw_session_id_is_valid id' =
     (case id' of None \<Rightarrow> False | Some i \<Rightarrow> length (cstr i) = 64 \<and> list_all isxdigit (take 64 (cstr i)))"

definition hex_lower :: "nat \<Rightarrow> char" where
  "hex_lower n = ''0123456789abcdef'' ! n"

definition sw_session_generate_id :: "nat list option \<Rightarrow> string option" where
  "sw_session_generate_id bytes =
     (case bytes of None \<Rightarrow> None
      | Some bs \<Rightarrow> Some (concat (map (\<lambda>i. [hex_lower (bs ! i div 16 mod 16), hex_lower (bs ! i mod 16)]) [0..<32])))"

section \<open>The array of sessions\<close>

definition sw_sessions_remove_at :: "sw_sessions \<Rightarrow> nat \<Rightarrow> sw_sessions" where
  "sw_sessions_remove_at s index = s\<lparr>sn_sessions := remove_at index (sn_sessions s)\<rparr>"

definition sw_sessions_cleanup_expired :: "sw_sessions \<Rightarrow> real \<Rightarrow> sw_sessions" where
  "sw_sessions_cleanup_expired s now = s\<lparr>sn_sessions := cleanup_loop ss_expires_at_ms now 0 (sn_sessions s)\<rparr>"

definition session_index :: "string \<Rightarrow> sw_session list \<Rightarrow> nat option" where
  "session_index id' xs = index_of (\<lambda>x. ss_id x = id') xs"

definition sw_sessions_find_id :: "sw_sessions \<Rightarrow> cptr \<Rightarrow> real \<Rightarrow> nat option \<times> sw_sessions" where
  "sw_sessions_find_id s id' now =
     (if \<not> sw_session_id_is_valid id' then (None, s)
      else let s' = sw_sessions_cleanup_expired s now in
        (session_index (cstr (the id')) (sn_sessions s'), s'))"

definition sw_sessions_evict_oldest :: "sw_sessions \<Rightarrow> sw_sessions" where
  "sw_sessions_evict_oldest s = s\<lparr>sn_sessions := evict_oldest ss_touched_at_ms (sn_sessions s)\<rparr>"

section \<open>Configuration\<close>

definition sw_session_cookie_has_values :: "sw_http_cookie \<Rightarrow> bool" where
  "sw_session_cookie_has_values c \<longleftrightarrow> ck_path c \<noteq> None \<or> ck_domain c \<noteq> None \<or> ck_expires c \<noteq> None
     \<or> ck_max_age c \<noteq> 0 \<or> ck_http_only c \<or> ck_secure c \<or> ck_secure_auto c
     \<or> ck_same_site c \<noteq> SW_COOKIE_SAMESITE_UNSET"

definition sw_sessions_copy_cookie :: "sw_http_cookie \<Rightarrow> sw_http_cookie" where
  "sw_sessions_copy_cookie source = source\<lparr>ck_path := sw_strdup_cstr (ck_path source),
     ck_domain := sw_strdup_cstr (ck_domain source), ck_expires := sw_strdup_cstr (ck_expires source)\<rparr>"

definition sw_session_config_default :: sw_session_config where
  "sw_session_config_default = \<lparr>sc_cookie_name = Some ''sw_session'', sc_ttl_seconds = 3600,
     sc_max_sessions = 1024, sc_max_items = 32, sc_cookie = sw_http_cookie_default\<lparr>ck_max_age := -1\<rparr>\<rparr>"

definition sw_sessions_create :: "sw_session_config option \<Rightarrow> sw_sessions" where
  "sw_sessions_create config =
     (let d = sw_session_config_default;
          e = (case config of None \<Rightarrow> d
            | Some c \<Rightarrow> \<lparr>
                sc_cookie_name = (if sc_cookie_name c \<noteq> None then sc_cookie_name c else sc_cookie_name d),
                sc_ttl_seconds = (if sc_ttl_seconds c > 0 then sc_ttl_seconds c else sc_ttl_seconds d),
                sc_max_sessions = (if sc_max_sessions c > 0 then sc_max_sessions c else sc_max_sessions d),
                sc_max_items = (if sc_max_items c > 0 then sc_max_items c else sc_max_items d),
                sc_cookie = (if sw_session_cookie_has_values (sc_cookie c) then sc_cookie c else sc_cookie d)\<rparr>);
          explicit_cookie = (case config of None \<Rightarrow> False | Some c \<Rightarrow> sw_session_cookie_has_values (sc_cookie c));
          cookie = (if \<not> explicit_cookie \<or> ck_max_age (sc_cookie e) \<le> 0
            then (sc_cookie e)\<lparr>ck_max_age := sc_ttl_seconds e\<rparr> else sc_cookie e)
      in \<lparr>sn_sessions = [], sn_cookie_name = the (sw_strdup_cstr (sc_cookie_name e)),
          sn_cookie = sw_sessions_copy_cookie cookie, sn_ttl_seconds = sc_ttl_seconds e,
          sn_max_sessions = sc_max_sessions e, sn_max_items = sc_max_items e\<rparr>)"

section \<open>Finding, starting and ending a session\<close>

definition sw_sessions_find :: "real \<Rightarrow> sw_sessions \<Rightarrow> sw_http_message \<Rightarrow> nat option \<times> sw_sessions" where
  "sw_sessions_find now s hm =
     (let (n, id') = sw_http_get_cookie (Some hm) (Some (sn_cookie_name s)) 128 in
      if n \<le> 0 then (None, sw_sessions_cleanup_expired s now)
      else sw_sessions_find_id s (Some id') now)"

lemma evict_oldest_shorter: "xs \<noteq> [] \<Longrightarrow> length (evict_oldest touched xs) < length xs"
  using evict_oldest_min[of xs touched] by (auto simp: length_remove_at)

function make_room :: "sw_sessions \<Rightarrow> sw_sessions" where
  "make_room s =
     (if length (sn_sessions s) \<ge> sn_max_sessions s \<and> length (sn_sessions s) > 0
      then make_room (sw_sessions_evict_oldest s) else s)"
  by pat_completeness auto

termination
  by (relation "measure (\<lambda>s. length (sn_sessions s))") (auto simp: sw_sessions_evict_oldest_def evict_oldest_shorter)

declare make_room.simps [simp del]

text \<open>The attempts to draw an unused identifier; \<open>left\<close> counts them down.\<close>

fun draw_id :: "nat \<Rightarrow> (nat \<Rightarrow> nat list option) \<Rightarrow> nat \<Rightarrow> real \<Rightarrow> sw_sessions \<Rightarrow> string option \<times> sw_sessions" where
  "draw_id 0 rnd attempt now s = (None, s)"
| "draw_id (Suc left) rnd attempt now s =
     (case sw_session_generate_id (rnd attempt) of
        None \<Rightarrow> (None, s)
      | Some i \<Rightarrow>
          (case sw_sessions_find_id s (Some i) now of
             (None, s') \<Rightarrow> (Some i, s')
           | (Some _, s') \<Rightarrow> draw_id left rnd (attempt + 1) now s'))"

definition touch_session :: "sw_sessions \<Rightarrow> nat \<Rightarrow> real \<Rightarrow> sw_sessions" where
  "touch_session s i now = s\<lparr>sn_sessions := (sn_sessions s)[i := (sn_sessions s ! i)\<lparr>
     ss_touched_at_ms := now, ss_expires_at_ms := now + of_int (sn_ttl_seconds s) * 1000\<rparr>]\<rparr>"

definition sw_sessions_start ::
  "real \<Rightarrow> real \<Rightarrow> (nat \<Rightarrow> nat list option) \<Rightarrow> sw_sessions \<Rightarrow> sw_connection \<Rightarrow> sw_http_message \<Rightarrow>
     nat option \<times> sw_sessions \<times> sw_connection" where
  "sw_sessions_start now now2 rnd s connection hm =
     (case sw_sessions_find now2 s hm of
        (Some i, s1) \<Rightarrow>
          let s2 = touch_session s1 i now;
              (rc, c') = sw_http_set_cookie (Some connection) (Some (sn_cookie_name s2))
                (Some (ss_id (sn_sessions s2 ! i))) (Some (sn_cookie s2))
          in (if rc = 0 then Some i else None, s2, the c')
      | (None, s1) \<Rightarrow>
          let s2 = make_room (sw_sessions_cleanup_expired s1 now) in
          case draw_id 16 rnd 0 now s2 of
            (None, s3) \<Rightarrow> (None, s3, connection)
          | (Some i, s3) \<Rightarrow>
              let new_session = \<lparr>ss_id = i, ss_items = [],
                    ss_expires_at_ms = now + of_int (sn_ttl_seconds s3) * 1000,
                    ss_touched_at_ms = now, ss_max_items = sn_max_items s3\<rparr>;
                  index = length (sn_sessions s3);
                  s4 = s3\<lparr>sn_sessions := sn_sessions s3 @ [new_session]\<rparr>;
                  (rc, c') = sw_http_set_cookie (Some connection) (Some (sn_cookie_name s4))
                    (Some i) (Some (sn_cookie s4))
              in if rc \<noteq> 0 then (None, sw_sessions_remove_at s4 index, the c')
                 else (Some index, s4, the c'))"

definition sw_sessions_end ::
  "sw_sessions \<Rightarrow> sw_connection \<Rightarrow> sw_http_message option \<Rightarrow> int \<times> sw_sessions \<times> sw_connection" where
  "sw_sessions_end s connection hm =
     (let s1 = (case hm of None \<Rightarrow> s
            | Some m \<Rightarrow>
                let (n, id') = sw_http_get_cookie (Some m) (Some (sn_cookie_name s)) 128 in
                if n > 0 then
                  (case session_index (cstr id') (sn_sessions s) of
                     None \<Rightarrow> s | Some i \<Rightarrow> sw_sessions_remove_at s i)
                else s);
          (rc, c') = sw_http_clear_cookie (Some connection) (Some (sn_cookie_name s1)) (Some (sn_cookie s1))
      in (rc, s1, the c'))"

section \<open>The items of a session\<close>

definition sw_session_id :: "sw_session option \<Rightarrow> string" where
  "sw_session_id session = (case session of None \<Rightarrow> [] | Some s \<Rightarrow> ss_id s)"

definition sw_session_get :: "sw_session option \<Rightarrow> cptr \<Rightarrow> cptr" where
  "sw_session_get session key =
     (case (session, key) of (Some s, Some k) \<Rightarrow> items_get (ss_items s) (cstr k) | _ \<Rightarrow> None)"

definition sw_session_set :: "sw_session \<Rightarrow> cptr \<Rightarrow> cptr \<Rightarrow> int \<times> sw_session" where
  "sw_session_set s key val =
     (case (key, val) of
        (Some k, Some v) \<Rightarrow>
          (if cstr k = [] then (-1, s)
           else let (rc, its) = items_set (ss_max_items s) (ss_items s) (cstr k) (cstr v) in (rc, s\<lparr>ss_items := its\<rparr>))
      | _ \<Rightarrow> (-1, s))"

definition sw_session_remove :: "sw_session \<Rightarrow> cptr \<Rightarrow> int \<times> sw_session" where
  "sw_session_remove s key =
     (case key of None \<Rightarrow> (-1, s) | Some k \<Rightarrow> (0, s\<lparr>ss_items := items_remove (ss_items s) (cstr k)\<rparr>))"

section \<open>The store contract\<close>

interpretation session_store: expiring_store ss_id ss_expires_at_ms ss_touched_at_ms
  "\<lambda>now. cleanup_loop ss_expires_at_ms now 0" "evict_oldest ss_touched_at_ms" session_index
proof
  show "cleanup_loop ss_expires_at_ms now 0 xs = filter (\<lambda>s. now < ss_expires_at_ms s) xs" for now xs
    by (rule cleanup_filter)
  show "xs \<noteq> [] \<Longrightarrow> \<exists>k<length xs. evict_oldest ss_touched_at_ms xs = remove_at k xs \<and>
      (\<forall>x\<in>set xs. ss_touched_at_ms (xs ! k) \<le> ss_touched_at_ms x)" for xs
    by (rule evict_oldest_min)
  show "session_index i xs = Some k \<Longrightarrow> k < length xs \<and> ss_id (xs ! k) = i" for i xs k
    by (simp add: session_index_def index_of_Some)
  show "session_index i xs = None \<longleftrightarrow> (\<forall>x\<in>set xs. ss_id x \<noteq> i)" for i xs
    by (simp add: session_index_def index_of_None)
qed

text \<open>The invariant of the sessions object.\<close>

definition session_ok :: "real \<Rightarrow> nat \<Rightarrow> sw_session \<Rightarrow> bool" where
  "session_ok ttl n x \<longleftrightarrow> sw_session_id_is_valid (Some (ss_id x)) \<and> NUL \<notin> set (ss_id x) \<and>
     ss_expires_at_ms x = ss_touched_at_ms x + ttl \<and> ss_max_items x = n \<and> items_ok n (ss_items x)"

definition sessions_inv :: "sw_sessions \<Rightarrow> bool" where
  "sessions_inv s \<longleftrightarrow> 0 < sn_max_sessions s \<and>
     session_store.store_ok (sn_max_sessions s) (session_ok (of_int (sn_ttl_seconds s) * 1000) (sn_max_items s)) (sn_sessions s)"

section \<open>Every operation keeps the invariant\<close>

lemma hex_lower_xdigit: "n < 16 \<Longrightarrow> isxdigit (hex_lower n) \<and> hex_lower n \<noteq> NUL"
  by (drule less_16_cases) (auto simp: hex_lower_def isxdigit_def isdigit_def byte_def)

lemma generate_id_valid:
  assumes "sw_session_generate_id r = Some i"
  shows "sw_session_id_is_valid (Some i) \<and> NUL \<notin> set i"
proof -
  obtain bs where i: "i = concat (map (\<lambda>k. [hex_lower (bs ! k div 16 mod 16), hex_lower (bs ! k mod 16)]) [0..<32])"
    using assms by (auto simp: sw_session_generate_id_def split: option.splits)
  have x: "\<forall>c\<in>set i. isxdigit c \<and> c \<noteq> NUL" unfolding i using hex_lower_xdigit by auto
  have l: "length i = 64"
  proof -
    have len: "length (concat (map (\<lambda>k. [f k, g k]) xs)) = 2 * length xs" for f g :: "nat \<Rightarrow> char" and xs
      by (induction xs) auto
    show ?thesis unfolding i len by (simp only: length_upt)
  qed
  have nul: "NUL \<notin> set i" using x by blast
  have "take 64 i = i" using l by (intro take_all) simp
  with x l nul show ?thesis by (simp only: sw_session_id_is_valid_def option.case cstr_ident[OF nul] list_all_iff) simp
qed

lemma cleanup_fields [simp]:
  "sn_max_sessions (sw_sessions_cleanup_expired s now) = sn_max_sessions s"
  "sn_ttl_seconds (sw_sessions_cleanup_expired s now) = sn_ttl_seconds s"
  "sn_max_items (sw_sessions_cleanup_expired s now) = sn_max_items s"
  "sn_cookie_name (sw_sessions_cleanup_expired s now) = sn_cookie_name s"
  "sn_cookie (sw_sessions_cleanup_expired s now) = sn_cookie s"
  by (simp_all add: sw_sessions_cleanup_expired_def)

lemma cleanup_inv: "sessions_inv s \<Longrightarrow> sessions_inv (sw_sessions_cleanup_expired s now)"
  using session_store.sweep_ok by (simp add: sessions_inv_def sw_sessions_cleanup_expired_def)

lemma remove_at_inv: "sessions_inv s \<Longrightarrow> sessions_inv (sw_sessions_remove_at s i)"
  using session_store.remove_ok by (simp add: sessions_inv_def sw_sessions_remove_at_def)

lemma find_id_facts:
  assumes "sw_sessions_find_id s id' now = (r, s')"
  shows "sessions_inv s \<longrightarrow> sessions_inv s'" "sn_max_sessions s' = sn_max_sessions s" "sn_cookie_name s' = sn_cookie_name s"
    "sn_cookie s' = sn_cookie s" "sn_ttl_seconds s' = sn_ttl_seconds s" "sn_max_items s' = sn_max_items s"
    "length (sn_sessions s') \<le> length (sn_sessions s)"
    "\<And>i. r = Some i \<Longrightarrow> i < length (sn_sessions s') \<and> ss_id (sn_sessions s' ! i) = cstr (the id') \<and>
       now < ss_expires_at_ms (sn_sessions s' ! i)"
proof -
  show "sessions_inv s \<longrightarrow> sessions_inv s'" "sn_max_sessions s' = sn_max_sessions s" "sn_cookie_name s' = sn_cookie_name s"
    "sn_cookie s' = sn_cookie s" "sn_ttl_seconds s' = sn_ttl_seconds s" "sn_max_items s' = sn_max_items s"
    using assms cleanup_inv by (auto simp: sw_sessions_find_id_def Let_def split: if_splits)
  show "length (sn_sessions s') \<le> length (sn_sessions s)"
    using assms by (auto simp: sw_sessions_find_id_def Let_def sw_sessions_cleanup_expired_def cleanup_filter split: if_splits)
  fix i assume "r = Some i"
  with assms have i: "session_index (cstr (the id')) (sn_sessions s') = Some i"
    "s' = sw_sessions_cleanup_expired s now"
    by (auto simp: sw_sessions_find_id_def Let_def split: if_splits)
  note l = session_store.lookup_Some[OF i(1)]
  moreover have "sn_sessions s' ! i \<in> set (sn_sessions s')" using l by simp
  then have "now < ss_expires_at_ms (sn_sessions s' ! i)"
    using i(2) session_store.sweep_unexpired[of "sn_sessions s' ! i" now "sn_sessions s"]
    by (simp add: sw_sessions_cleanup_expired_def)
  ultimately show "i < length (sn_sessions s') \<and> ss_id (sn_sessions s' ! i) = cstr (the id') \<and>
       now < ss_expires_at_ms (sn_sessions s' ! i)" by simp
qed

lemma find_facts:
  assumes "sw_sessions_find now s hm = (r, s')" and "sessions_inv s"
  shows "sessions_inv s'" "sn_max_sessions s' = sn_max_sessions s"
    "\<And>i. r = Some i \<Longrightarrow> i < length (sn_sessions s') \<and> now < ss_expires_at_ms (sn_sessions s' ! i)"
proof -
  obtain n id' where g: "sw_http_get_cookie (Some hm) (Some (sn_cookie_name s)) 128 = (n, id')" by fastforce
  show "sessions_inv s'" "sn_max_sessions s' = sn_max_sessions s"
    using assms find_id_facts(1,2) cleanup_inv
    by (auto simp: sw_sessions_find_def g split: if_splits)
  show "i < length (sn_sessions s') \<and> now < ss_expires_at_ms (sn_sessions s' ! i)" if "r = Some i" for i
    using assms(1) that find_id_facts(8) by (auto simp: sw_sessions_find_def g split: if_splits)
qed

lemma evict_inv:
  assumes "sessions_inv s" and "sn_sessions s \<noteq> []"
  shows "sessions_inv (sw_sessions_evict_oldest s)"
  using assms by (auto simp: sessions_inv_def sw_sessions_evict_oldest_def
      intro!: session_store.store_ok_mono[OF session_store.evict_ok])

lemma make_room_facts:
  "sessions_inv s \<Longrightarrow> sessions_inv (make_room s) \<and> length (sn_sessions (make_room s)) < sn_max_sessions s \<and>
     sn_max_sessions (make_room s) = sn_max_sessions s"
proof (induction s rule: make_room.induct)
  case (1 s)
  show ?case
  proof (cases "length (sn_sessions s) \<ge> sn_max_sessions s \<and> length (sn_sessions s) > 0")
    case True
    then have "sessions_inv (sw_sessions_evict_oldest s)" using evict_inv[OF 1(2)] by simp
    with True 1(1) show ?thesis by (subst (1 2 3) make_room.simps) (simp add: sw_sessions_evict_oldest_def)
  next
    case False
    with 1(2) show ?thesis by (subst (1 2 3) make_room.simps) (auto simp: sessions_inv_def)
  qed
qed

lemma draw_id_facts:
  "draw_id n rnd k now s = (r, s') \<Longrightarrow> sessions_inv s \<Longrightarrow>
    sessions_inv s' \<and> sn_max_sessions s' = sn_max_sessions s \<and> length (sn_sessions s') \<le> length (sn_sessions s) \<and>
    (\<forall>i. r = Some i \<longrightarrow> sw_session_id_is_valid (Some i) \<and> NUL \<notin> set i \<and> session_index i (sn_sessions s') = None)"
proof (induction n arbitrary: k s)
  case (Suc n)
  show ?case
  proof (cases "sw_session_generate_id (rnd k)")
    case None
    with Suc.prems show ?thesis by auto
  next
    case (Some i)
    obtain f s1 where f: "sw_sessions_find_id s (Some i) now = (f, s1)" by fastforce
    note ff = find_id_facts[OF f]
    show ?thesis
    proof (cases f)
      case None
      with Suc.prems Some f have "r = Some i" "s' = s1" by simp_all
      moreover have "session_index i (sn_sessions s1) = None"
        using f None generate_id_valid[OF Some] by (auto simp: sw_sessions_find_id_def Let_def cstr_ident split: if_splits)
      ultimately show ?thesis using ff Suc.prems(2) generate_id_valid[OF Some] by auto
    next
      case (Some j)
      with Suc.prems \<open>sw_session_generate_id (rnd k) = Some i\<close> f have "draw_id n rnd (k + 1) now s1 = (r, s')" by simp
      from Suc.IH[OF this] ff Suc.prems(2) show ?thesis by auto
    qed
  qed
qed auto

lemma touch_inv:
  assumes "sessions_inv s" and "i < length (sn_sessions s)"
  shows "sessions_inv (touch_session s i now)"
proof -
  have "map ss_id ((sn_sessions s)[i := (sn_sessions s ! i)\<lparr>ss_touched_at_ms := t, ss_expires_at_ms := e\<rparr>]) = map ss_id (sn_sessions s)" for t e
    by (simp add: map_update) (metis list_update_id map_update)
  then show ?thesis
    using assms set_update_subset_insert[of "sn_sessions s" i]
    by (auto simp: sessions_inv_def touch_session_def session_store.store_ok_def session_ok_def
        dest!: subsetD[OF set_update_subset_insert])
qed

lemma start_inv:
  assumes "sessions_inv s" and "sw_sessions_start now now2 rnd s c hm = (r, s', c')"
  shows "sessions_inv s' \<and> (\<forall>i. r = Some i \<longrightarrow> i < length (sn_sessions s') \<and>
    ss_expires_at_ms (sn_sessions s' ! i) = now + of_int (sn_ttl_seconds s') * 1000)"
proof -
  obtain f s1 where f: "sw_sessions_find now2 s hm = (f, s1)" by fastforce
  note ff = find_facts[OF f assms(1)]
  show ?thesis
  proof (cases f)
    case (Some i)
    with assms(2) f have "s' = touch_session s1 i now" "\<forall>j. r = Some j \<longrightarrow> j = i"
      by (auto simp: sw_sessions_start_def Let_def split: prod.splits if_splits)
    then show ?thesis using touch_inv[OF ff(1)] ff(3)[OF Some] by (auto simp: touch_session_def)
  next
    case None
    let ?s2 = "make_room (sw_sessions_cleanup_expired s1 now)"
    note m = make_room_facts[OF cleanup_inv[OF ff(1), of now]]
    obtain d s3 where d: "draw_id 16 rnd 0 now ?s2 = (d, s3)" by fastforce
    note dd = draw_id_facts[OF d conjunct1[OF m]]
    show ?thesis
    proof (cases d)
      case N: None
      with assms(2) f None d show ?thesis using dd by (auto simp: sw_sessions_start_def)
    next
      case (Some i)
      let ?new = "\<lparr>ss_id = i, ss_items = [], ss_expires_at_ms = now + of_int (sn_ttl_seconds s3) * 1000,
          ss_touched_at_ms = now, ss_max_items = sn_max_items s3\<rparr>"
      let ?s4 = "s3\<lparr>sn_sessions := sn_sessions s3 @ [?new]\<rparr>"
      have "session_store.store_ok (sn_max_sessions s3)
          (session_ok (of_int (sn_ttl_seconds s3) * 1000) (sn_max_items s3)) (sn_sessions s3 @ [?new])"
        by (rule session_store.add_ok) (use dd m Some in \<open>auto simp: sessions_inv_def session_ok_def items_ok_def\<close>)
      then have "sessions_inv ?s4" using dd by (simp add: sessions_inv_def)
      moreover have "s' = ?s4 \<and> r = Some (length (sn_sessions s3)) \<or>
          s' = sw_sessions_remove_at ?s4 (length (sn_sessions s3)) \<and> r = None"
        using assms(2) f None d Some by (auto simp: sw_sessions_start_def Let_def split: prod.splits if_splits)
      ultimately show ?thesis using remove_at_inv[of ?s4] by auto
    qed
  qed
qed

lemma end_inv: "sessions_inv s \<Longrightarrow> sessions_inv (fst (snd (sw_sessions_end s c hm)))"
  using remove_at_inv by (auto simp: sw_sessions_end_def Let_def split: option.splits prod.splits)

lemma update_items_inv:
  assumes "sessions_inv s" and "i < length (sn_sessions s)" and "items_ok (ss_max_items (sn_sessions s ! i)) its"
  shows "sessions_inv (s\<lparr>sn_sessions := (sn_sessions s)[i := (sn_sessions s ! i)\<lparr>ss_items := its\<rparr>]\<rparr>)"
proof -
  let ?x = "(sn_sessions s ! i)\<lparr>ss_items := its\<rparr>"
  have "map ss_id ((sn_sessions s)[i := ?x]) = map ss_id (sn_sessions s)"
    by (simp add: map_update) (metis list_update_id map_update)
  moreover have "set ((sn_sessions s)[i := ?x]) \<subseteq> insert ?x (set (sn_sessions s))" by (rule set_update_subset_insert)
  moreover have "sn_sessions s ! i \<in> set (sn_sessions s)" using assms(2) by simp
  ultimately show ?thesis using assms
    by (auto simp: sessions_inv_def session_store.store_ok_def session_ok_def)
qed

lemma create_inv: "sessions_inv (sw_sessions_create cfg)"
  by (auto simp: sw_sessions_create_def sessions_inv_def session_store.store_ok_def sw_session_config_default_def Let_def
      split: option.splits)

text \<open>The states of a sessions object that its operations can produce, with any arguments.\<close>

inductive sessions_reach :: "sw_sessions \<Rightarrow> bool" where
  create: "sessions_reach (sw_sessions_create cfg)"
| find: "sessions_reach s \<Longrightarrow> sessions_reach (snd (sw_sessions_find now s hm))"
| start: "sessions_reach s \<Longrightarrow> sessions_reach (fst (snd (sw_sessions_start now now2 rnd s c hm)))"
| finish: "sessions_reach s \<Longrightarrow> sessions_reach (fst (snd (sw_sessions_end s c hm')))"
| set_item: "sessions_reach s \<Longrightarrow> i < length (sn_sessions s) \<Longrightarrow>
    sessions_reach (s\<lparr>sn_sessions := (sn_sessions s)[i := snd (sw_session_set (sn_sessions s ! i) key val)]\<rparr>)"
| remove_item: "sessions_reach s \<Longrightarrow> i < length (sn_sessions s) \<Longrightarrow>
    sessions_reach (s\<lparr>sn_sessions := (sn_sessions s)[i := snd (sw_session_remove (sn_sessions s ! i) key)]\<rparr>)"

lemma nth_items_ok: "sessions_inv s \<Longrightarrow> i < length (sn_sessions s) \<Longrightarrow>
    items_ok (ss_max_items (sn_sessions s ! i)) (ss_items (sn_sessions s ! i))"
  by (auto simp: sessions_inv_def session_store.store_ok_def session_ok_def)

lemma session_set_cases:
  "\<exists>its. snd (sw_session_set x key val) = x\<lparr>ss_items := its\<rparr> \<and>
     (items_ok (ss_max_items x) (ss_items x) \<longrightarrow> items_ok (ss_max_items x) its)"
proof -
  have id: "x = x\<lparr>ss_items := ss_items x\<rparr>" by simp
  show ?thesis
  proof (cases "key = None \<or> val = None \<or> cstr (the key) = []")
    case True
    then have "snd (sw_session_set x key val) = x" by (auto simp: sw_session_set_def split: option.splits)
    with id show ?thesis by metis
  next
    case False
    then obtain k v where kv: "key = Some k" "val = Some v" "cstr k \<noteq> []" by auto
    then have "snd (sw_session_set x key val) = x\<lparr>ss_items := snd (items_set (ss_max_items x) (ss_items x) (cstr k) (cstr v))\<rparr>"
      by (simp add: sw_session_set_def split: prod.splits)
    then show ?thesis using items_set_ok by blast
  qed
qed

lemma session_remove_cases:
  "\<exists>its. snd (sw_session_remove x key) = x\<lparr>ss_items := its\<rparr> \<and>
     (items_ok (ss_max_items x) (ss_items x) \<longrightarrow> items_ok (ss_max_items x) its)"
proof (cases key)
  case None
  then show ?thesis by (intro exI[of _ "ss_items x"]) (simp add: sw_session_remove_def)
next
  case (Some k)
  then show ?thesis using items_remove_ok by (intro exI[of _ "items_remove (ss_items x) (cstr k)"]) (simp add: sw_session_remove_def)
qed

lemma sessions_reach_inv: "sessions_reach s \<Longrightarrow> sessions_inv s"
proof (induction rule: sessions_reach.induct)
  case (create cfg)
  then show ?case by (rule create_inv)
next
  case (find s now hm)
  then show ?case using find_facts(1)[OF surjective_pairing] by blast
next
  case (start s now now2 rnd c hm)
  then show ?case using start_inv[OF _ prod_cases3] by (metis prod.exhaust_sel start_inv)
next
  case (finish s c hm')
  then show ?case by (simp add: end_inv)
next
  case (set_item s i key val)
  then show ?case
    using session_set_cases[of "sn_sessions s ! i" key val] update_items_inv nth_items_ok by metis
next
  case (remove_item s i key)
  then show ?case
    using session_remove_cases[of "sn_sessions s ! i" key] update_items_inv nth_items_ok by metis
qed


section \<open>What starting and finding a session return\<close>

lemma find_cookie_name: "sn_cookie_name (snd (sw_sessions_find now s hm)) = sn_cookie_name s"
  using find_id_facts(3)[OF surjective_pairing]
  by (simp add: sw_sessions_find_def split: prod.splits)

lemma make_room_cookie_name: "sn_cookie_name (make_room s) = sn_cookie_name s"
  by (induction s rule: make_room.induct) (subst make_room.simps, simp add: sw_sessions_evict_oldest_def)

lemma draw_id_cookie_name: "sn_cookie_name (snd (draw_id n rnd k now s)) = sn_cookie_name s"
proof (induction n arbitrary: k s)
  case (Suc n)
  have "sn_cookie_name s1 = sn_cookie_name s" if "sw_sessions_find_id s i now = (f, s1)" for f s1 i
    using find_id_facts(3)[OF that] .
  with Suc.IH show ?case by (auto split: option.splits prod.splits)
qed simp

lemma set_cookie_valid_name:
  "sw_http_set_cookie (Some c) (Some name) v opts = (0, c') \<Longrightarrow> sw_cookie_name_is_valid (Some name)"
  by (auto simp: sw_http_set_cookie_def sw_http_set_cookie_with_options_def split: if_splits)

lemma start_cookie:
  assumes "sw_sessions_start now now2 rnd s c hm = (Some i, s', c')"
  shows "sn_cookie_name s' = sn_cookie_name s \<and> cstr (sn_cookie_name s) \<noteq> []"
proof -
  obtain f s1 where f: "sw_sessions_find now2 s hm = (f, s1)" by fastforce
  have n1: "sn_cookie_name s1 = sn_cookie_name s" using find_cookie_name[of now2 s hm] by (simp add: f)
  have v: "cstr (sn_cookie_name s) \<noteq> []" if "sw_cookie_name_is_valid (Some (sn_cookie_name s))"
    using that by (simp add: sw_cookie_name_is_valid_def)
  show ?thesis
  proof (cases f)
    case (Some j)
    with assms f n1 v show ?thesis
      by (auto simp: sw_sessions_start_def Let_def touch_session_def split: prod.splits if_splits
          dest!: set_cookie_valid_name)
  next
    case None
    let ?s2 = "make_room (sw_sessions_cleanup_expired s1 now)"
    obtain d s3 where d: "draw_id 16 rnd 0 now ?s2 = (d, s3)" by fastforce
    have "sn_cookie_name s3 = sn_cookie_name s"
      using draw_id_cookie_name[of 16 rnd 0 now ?s2] by (simp add: d make_room_cookie_name n1)
    with assms f None d v show ?thesis
      by (auto simp: sw_sessions_start_def Let_def split: prod.splits if_splits option.splits
          dest!: set_cookie_valid_name)
  qed
qed

text \<open>A session is found by its identifier until it expires.\<close>

lemma find_id_present:
  assumes "sessions_inv s" and "i < length (sn_sessions s)" and "x = sn_sessions s ! i" and "t < ss_expires_at_ms x"
  shows "\<exists>j s'. sw_sessions_find_id s (Some (ss_id x)) t = (Some j, s') \<and> sn_sessions s' ! j = x \<and> j < length (sn_sessions s')"
proof -
  have x: "x \<in> set (sn_sessions s)" "session_ok (of_int (sn_ttl_seconds s) * 1000) (sn_max_items s) x"
    using assms by (auto simp: sessions_inv_def session_store.store_ok_def)
  then have v: "sw_session_id_is_valid (Some (ss_id x))" "cstr (ss_id x) = ss_id x"
    by (simp_all add: session_ok_def cstr_ident)
  let ?s' = "sw_sessions_cleanup_expired s t"
  have m: "x \<in> set (sn_sessions ?s')"
    using x assms(4) by (simp add: sw_sessions_cleanup_expired_def cleanup_filter)
  then obtain j where j: "j < length (sn_sessions ?s')" "sn_sessions ?s' ! j = x" by (auto simp: in_set_conv_nth)
  have "distinct (map ss_id (sn_sessions ?s'))"
    using cleanup_inv[OF assms(1), of t] by (simp add: sessions_inv_def session_store.store_ok_def)
  from session_store.lookup_distinct[OF this j(1)] j v show ?thesis
    by (intro exI[of _ j] exI[of _ ?s']) (simp add: sw_sessions_find_id_def)
qed

lemma find_present:
  assumes "sessions_inv s" and "i < length (sn_sessions s)" and "x = sn_sessions s ! i" and "t < ss_expires_at_ms x"
    and "\<forall>p\<in>set ps. cookie_pair_ok p" and "map_of ps (cstr (sn_cookie_name s)) = Some (ss_id x)"
    and "cstr (sn_cookie_name s) \<noteq> []"
    and "hm_headers m = [\<lparr>hd_name = Some ''Cookie'', hd_value = Some (render_cookies ps)\<rparr>]"
  shows "\<exists>j s'. sw_sessions_find t s m = (Some j, s') \<and> sn_sessions s' ! j = x \<and> j < length (sn_sessions s')"
proof -
  have x: "session_ok (of_int (sn_ttl_seconds s) * 1000) (sn_max_items s) x"
    using assms(1-3) by (auto simp: sessions_inv_def session_store.store_ok_def)
  then have l: "length (ss_id x) = 64" by (auto simp: session_ok_def sw_session_id_is_valid_def cstr_ident)
  have ne: "ps \<noteq> []" using assms(6) by auto
  have "sw_http_get_cookie (Some m) (Some (sn_cookie_name s)) 128 = (64, ss_id x)"
    using get_cookie_render[OF assms(5) ne _ assms(7,8), of 128]
    by (simp add: lookup_result_def assms(6) l i32_of_sz_def)
  with find_id_present[OF assms(1-4)] show ?thesis by (simp add: sw_sessions_find_def)
qed


section \<open>Who is evicted\<close>

text \<open>\<open>lru_kept xs ys\<close>: of \<open>xs\<close> no entry was dropped that was used after an entry kept in \<open>ys\<close>.\<close>

definition lru_kept :: "sw_session list \<Rightarrow> sw_session list \<Rightarrow> bool" where
  "lru_kept xs ys \<longleftrightarrow> set ys \<subseteq> set xs \<and>
     (\<forall>x\<in>set xs. \<forall>y\<in>set ys. x \<notin> set ys \<longrightarrow> ss_touched_at_ms x \<le> ss_touched_at_ms y)"

lemma lru_kept_evict:
  assumes "xs \<noteq> []"
  shows "lru_kept xs (evict_oldest ss_touched_at_ms xs)"
proof -
  obtain k where k: "k < length xs" "evict_oldest ss_touched_at_ms xs = remove_at k xs"
    "\<forall>x\<in>set xs. ss_touched_at_ms (xs ! k) \<le> ss_touched_at_ms x"
    using session_store.evict_min[OF assms] by blast
  have "xs = take k xs @ xs ! k # drop (Suc k) xs" using k(1) by (rule id_take_nth_drop)
  then have "set xs = insert (xs ! k) (set (remove_at k xs))"
    using k(1) by (metis (no_types) remove_at_def not_le set_append list.simps(15) Un_insert_right)
  with k show ?thesis by (auto simp: lru_kept_def)
qed

lemma lru_kept_trans: "lru_kept xs ys \<Longrightarrow> lru_kept ys zs \<Longrightarrow> lru_kept xs zs"
  unfolding lru_kept_def by blast

lemma make_room_lru: "lru_kept (sn_sessions s) (sn_sessions (make_room s))"
proof (induction s rule: make_room.induct)
  case (1 s)
  show ?case
  proof (cases "length (sn_sessions s) \<ge> sn_max_sessions s \<and> length (sn_sessions s) > 0")
    case True
    then have "lru_kept (sn_sessions s) (sn_sessions (sw_sessions_evict_oldest s))"
      using lru_kept_evict by (simp add: sw_sessions_evict_oldest_def)
    with True 1 show ?thesis using lru_kept_trans by (subst make_room.simps) auto
  next
    case False
    then show ?thesis by (subst make_room.simps) (auto simp: lru_kept_def)
  qed
qed

lemma make_room_free:
  "length (sn_sessions s) < sn_max_sessions s \<Longrightarrow> make_room s = s"
  by (subst make_room.simps) auto

lemma find_id_set:
  "set (sn_sessions (snd (sw_sessions_find_id s i t))) \<subseteq> set (sn_sessions s) \<and>
   {x \<in> set (sn_sessions s). t < ss_expires_at_ms x} \<subseteq> set (sn_sessions (snd (sw_sessions_find_id s i t)))"
  by (auto simp: sw_sessions_find_id_def Let_def sw_sessions_cleanup_expired_def cleanup_filter)

lemma find_set:
  "set (sn_sessions (snd (sw_sessions_find t s hm))) \<subseteq> set (sn_sessions s) \<and>
   {x \<in> set (sn_sessions s). t < ss_expires_at_ms x} \<subseteq> set (sn_sessions (snd (sw_sessions_find t s hm)))"
  using find_id_set[of s _ t]
  by (auto simp: sw_sessions_find_def sw_sessions_cleanup_expired_def cleanup_filter split: prod.splits if_splits)

lemma draw_id_set:
  "set (sn_sessions (snd (draw_id n rnd k t s))) \<subseteq> set (sn_sessions s) \<and>
   {x \<in> set (sn_sessions s). t < ss_expires_at_ms x} \<subseteq> set (sn_sessions (snd (draw_id n rnd k t s)))"
proof (induction n arbitrary: k s)
  case (Suc n)
  have "set (sn_sessions s1) \<subseteq> set (sn_sessions s) \<and> {x \<in> set (sn_sessions s). t < ss_expires_at_ms x} \<subseteq> set (sn_sessions s1)"
    if "sw_sessions_find_id s i t = (f, s1)" for f s1 i
    using find_id_set[of s i t] by (simp add: that)
  with Suc.IH show ?case by (simp split: option.splits prod.splits) blast
qed simp


lemma create_defaults:
  "sw_sessions_create None = \<lparr>sn_sessions = [], sn_cookie_name = ''sw_session'',
     sn_cookie = sw_http_cookie_default\<lparr>ck_max_age := 3600\<rparr>, sn_ttl_seconds = 3600, sn_max_sessions = 1024, sn_max_items = 32\<rparr>"
  by (simp add: sw_sessions_create_def Let_def sw_session_config_default_def sw_sessions_copy_cookie_def
      sw_http_cookie_default_def sw_strdup_cstr_eq cstr_def)

text \<open>A first session, its identifier made of zero bytes.\<close>

definition demo_store :: sw_sessions where
  "demo_store = (sw_sessions_create None)\<lparr>sn_sessions := [\<lparr>ss_id = replicate 64 (CHR ''0''), ss_items = [],
     ss_expires_at_ms = 3600000, ss_touched_at_ms = 0, ss_max_items = 32\<rparr>]\<rparr>"

lemma concat_replicate_pairs: "(\<And>i. i \<in> set xs \<Longrightarrow> f i = [z, z]) \<Longrightarrow> concat (map f xs) = replicate (2 * length xs) z"
  by (induction xs) simp_all

lemma demo_id: "sw_session_generate_id (Some (replicate 32 0)) = Some (replicate 64 (CHR ''0''))"
proof -
  have "concat (map (\<lambda>i. [hex_lower (replicate 32 0 ! i div 16 mod 16), hex_lower (replicate 32 0 ! i mod 16)]) [0..<32]) =
      replicate (2 * length [0..<32]) (CHR ''0'')"
    by (rule concat_replicate_pairs) (simp add: hex_lower_def)
  then show ?thesis by (simp only: sw_session_generate_id_def option.case length_upt) simp
qed

lemma cookie_pair_ok_session: "cookie_pair_ok (''sw_session'', replicate 64 (CHR ''0''))"
proof -
  have "cookie_value_char (CHR ''0'')" by (simp add: cookie_value_char_def byte_def)
  then have "sw_cookie_value_is_valid (Some (replicate 64 (CHR ''0'')))"
    by (auto simp: sw_cookie_value_is_valid_def cstr_ident list_all_iff)
  moreover have "sw_cookie_name_is_valid (Some ''sw_session'')"
    by (simp add: sw_cookie_name_is_valid_def cstr_def cookie_name_char_def isalnum_def islower_def isupper_def isdigit_def byte_def)
  ultimately show ?thesis by (auto simp: cookie_pair_ok_def)
qed

lemma demo_start:
  "\<exists>c'. sw_sessions_start 0 0 (\<lambda>_. Some (replicate 32 0)) (sw_sessions_create None)
     (new_connection 3 0 True False None 0 True 0) empty_message = (Some 0, demo_store, c')"
proof -
  let ?s = "sw_sessions_create None"
  let ?i = "replicate 64 (CHR ''0'')"
  have f: "sw_sessions_find 0 ?s empty_message = (None, ?s)"
    by (simp add: sw_sessions_find_def sw_http_get_cookie_def create_defaults empty_message_def cstr_def
        sw_sessions_cleanup_expired_def cleanup_filter)
  have c: "sw_sessions_cleanup_expired ?s 0 = ?s" "make_room ?s = ?s"
    by (simp_all add: sw_sessions_cleanup_expired_def cleanup_filter create_defaults make_room_free)
  have "sw_sessions_find_id ?s (Some ?i) 0 = (None, ?s)"
    using c(1) by (simp add: sw_sessions_find_id_def create_defaults session_index_def)
  then have "draw_id (Suc 15) (\<lambda>_. Some (replicate 32 0)) 0 0 ?s = (Some ?i, ?s)"
    by (simp only: draw_id.simps demo_id option.case prod.case)
  then have d: "draw_id 16 (\<lambda>_. Some (replicate 32 0)) 0 0 ?s = (Some ?i, ?s)" by simp
  obtain c' where "sw_http_set_cookie (Some (new_connection 3 0 True False None 0 True 0)) (Some ''sw_session'') (Some ?i)
      (Some (sw_http_cookie_default\<lparr>ck_max_age := 3600\<rparr>)) = (0, Some c')"
    using set_cookie_default_ok[of "''sw_session''" ?i "new_connection 3 0 True False None 0 True 0"] cookie_pair_ok_session
    by (auto simp: cookie_pair_ok_def new_connection_def)
  then show ?thesis
    by (intro exI[of _ c']) (simp add: sw_sessions_start_def f c d, simp add: create_defaults demo_store_def)
qed

lemma demo_reach: "sessions_reach demo_store"
proof -
  obtain c' where "sw_sessions_start 0 0 (\<lambda>_. Some (replicate 32 0)) (sw_sessions_create None)
     (new_connection 3 0 True False None 0 True 0) empty_message = (Some 0, demo_store, c')" using demo_start by blast
  then show ?thesis
    using sessions_reach.start[OF sessions_reach.create[of None], of 0 0 "\<lambda>_. Some (replicate 32 0)"
        "new_connection 3 0 True False None 0 True 0" empty_message] by simp
qed

lemma find_length:
  "length (sn_sessions (snd (sw_sessions_find t s hm))) \<le> length (sn_sessions s) \<and>
   sn_max_sessions (snd (sw_sessions_find t s hm)) = sn_max_sessions s"
  using find_id_facts(2,7)[OF surjective_pairing]
  by (auto simp: sw_sessions_find_def sw_sessions_cleanup_expired_def cleanup_filter split: prod.splits)

lemma touch_ids: "map ss_id (sn_sessions (touch_session s i now)) = map ss_id (sn_sessions s)"
proof -
  have "map ss_id (xs[i := (xs ! i)\<lparr>ss_touched_at_ms := t, ss_expires_at_ms := e\<rparr>]) = map ss_id xs" for xs t e
    by (simp add: map_update) (metis list_update_id map_update)
  then show ?thesis by (simp add: touch_session_def)
qed

text \<open>The sessions after starting a new one: those kept, and on success the new one behind them.\<close>

lemma start_new_sessions:
  assumes "sw_sessions_start now now2 rnd s c hm = (r, s', c')" and "sw_sessions_find now2 s hm = (None, s1)"
    and "draw_id 16 rnd 0 now (make_room (sw_sessions_cleanup_expired s1 now)) = (d, s3)"
  shows "(r = None \<and> sn_sessions s' = sn_sessions s3) \<or>
    (r = Some (length (sn_sessions s3)) \<and> (\<exists>new. sn_sessions s' = sn_sessions s3 @ [new]))"
  using assms
  by (auto simp: sw_sessions_start_def Let_def sw_sessions_remove_at_def remove_at_def split: option.splits prod.splits if_splits)

definition demo_session :: "string \<Rightarrow> real \<Rightarrow> sw_session" where
  "demo_session i t = \<lparr>ss_id = i, ss_items = [], ss_expires_at_ms = t + 3600000, ss_touched_at_ms = t, ss_max_items = 32\<rparr>"

section \<open>Properties\<close>

text \<open>
  C20. Session store invariant: in every state that the operations can reach there are at most
  \<open>sn_max_sessions\<close> sessions, with pairwise distinct identifiers of 64 hexadecimal digits, each
  expiring one lifetime after its last use, and each with at most \<open>sn_max_items\<close> items under
  distinct keys.
\<close>

theorem sessions_invariant:
  assumes "sessions_reach s"
  shows "length (sn_sessions s) \<le> sn_max_sessions s \<and> distinct (map ss_id (sn_sessions s)) \<and>
    list_all (\<lambda>x. sw_session_id_is_valid (Some (ss_id x)) \<and>
      ss_expires_at_ms x = ss_touched_at_ms x + of_int (sn_ttl_seconds s) * 1000 \<and>
      length (ss_items x) \<le> sn_max_items s \<and> distinct (map fst (ss_items x))) (sn_sessions s)"
  using sessions_reach_inv[OF assms]
  by (simp add: sessions_inv_def session_store.store_ok_def list_all_iff session_ok_def items_ok_def)

theorem sessions_invariant_witness:
  "length (sn_sessions demo_store) = 1 \<and> sw_session_id_is_valid (Some (ss_id (sn_sessions demo_store ! 0))) \<and>
   ss_expires_at_ms (sn_sessions demo_store ! 0) = 0 + of_int (sn_ttl_seconds demo_store) * 1000"
  using sessions_invariant[OF demo_reach] by (simp add: demo_store_def)

text \<open>
  Session round trip: when starting a session succeeds, any later request whose Cookie header
  carries the session's identifier under the cookie name, among any other cookies, finds that
  very session until its lifetime is over.
\<close>

theorem session_roundtrip:
  assumes "sessions_reach s" and "sw_sessions_start now now2 rnd s c hm = (Some i, s', c')"
    and "t < now + of_int (sn_ttl_seconds s') * 1000"
    and "\<forall>p\<in>set ps. cookie_pair_ok p"
    and "map_of ps (cstr (sn_cookie_name s)) = Some (ss_id (sn_sessions s' ! i))"
    and "hm_headers m = [\<lparr>hd_name = Some ''Cookie'', hd_value = Some (render_cookies ps)\<rparr>]"
  shows "\<exists>j s''. sw_sessions_find t s' m = (Some j, s'') \<and> sn_sessions s'' ! j = sn_sessions s' ! i"
proof -
  note inv = start_inv[OF sessions_reach_inv[OF assms(1)] assms(2)]
  note ck = start_cookie[OF assms(2)]
  show ?thesis using find_present[OF conjunct1[OF inv], of i _ t ps m] inv ck assms(3-6) by auto
qed

theorem session_roundtrip_witness:
  "\<exists>j s''. sw_sessions_find 5 demo_store (empty_message\<lparr>hm_headers := [\<lparr>hd_name = Some ''Cookie'',
      hd_value = Some (render_cookies [(''a'', ''1''), (''sw_session'', replicate 64 (CHR ''0''))])\<rparr>]\<rparr>) = (Some j, s'') \<and>
    sn_sessions s'' ! j = sn_sessions demo_store ! 0"
proof -
  let ?ps = "[(''a'', ''1''), (''sw_session'', replicate 64 (CHR ''0''))]"
  obtain c' where start: "sw_sessions_start 0 0 (\<lambda>_. Some (replicate 32 0)) (sw_sessions_create None)
     (new_connection 3 0 True False None 0 True 0) empty_message = (Some 0, demo_store, c')"
    using demo_start by blast
  have ok: "\<forall>p\<in>set ?ps. cookie_pair_ok p" using cookie_pair_ok_session cookie_pair_ok_ab by simp
  have look: "map_of ?ps (cstr (sn_cookie_name (sw_sessions_create None))) = Some (ss_id (sn_sessions demo_store ! 0))"
    by (simp add: demo_store_def create_defaults cstr_def)
  have time: "5 < 0 + of_int (sn_ttl_seconds demo_store) * (1000 :: real)" by (simp add: demo_store_def create_defaults)
  show ?thesis by (rule session_roundtrip[OF sessions_reach.create start time ok look]) simp
qed

text \<open>
  C21. Least recently used eviction: a live session that starting another one drops was not used after
  any session that is kept, and sessions are only dropped when the store was full.
\<close>

theorem eviction_is_lru:
  assumes "sw_sessions_start now now2 rnd s c hm = (r, s', c')"
    and "x \<in> set (sn_sessions s)" and "now < ss_expires_at_ms x" and "now2 < ss_expires_at_ms x"
    and "ss_id x \<notin> ss_id ` set (sn_sessions s')"
    and "j < length (sn_sessions s')" and "r \<noteq> Some j"
  shows "ss_touched_at_ms x \<le> ss_touched_at_ms (sn_sessions s' ! j) \<and> sn_max_sessions s \<le> length (sn_sessions s)"
proof -
  obtain f s1 where f: "sw_sessions_find now2 s hm = (f, s1)" by fastforce
  have s1: "set (sn_sessions s1) \<subseteq> set (sn_sessions s)" "x \<in> set (sn_sessions s1)"
    "length (sn_sessions s1) \<le> length (sn_sessions s)" "sn_max_sessions s1 = sn_max_sessions s"
    using find_set[of now2 s hm] find_length[of now2 s hm] assms(2,4) by (auto simp: f)
  have None: "f = None"
  proof (rule ccontr)
    assume "f \<noteq> None"
    then obtain i where "f = Some i" by blast
    with assms(1) f have "s' = touch_session s1 i now" by (auto simp: sw_sessions_start_def Let_def split: prod.splits)
    then have "map ss_id (sn_sessions s') = map ss_id (sn_sessions s1)" by (simp add: touch_ids)
    then show False using s1(2) assms(5) by (metis image_eqI image_set)
  qed
  let ?s2 = "sw_sessions_cleanup_expired s1 now"
  have x2: "x \<in> set (sn_sessions ?s2)" "length (sn_sessions ?s2) \<le> length (sn_sessions s1)"
    using s1(2) assms(3) by (simp_all add: sw_sessions_cleanup_expired_def cleanup_filter)
  obtain d s3 where d: "draw_id 16 rnd 0 now (make_room ?s2) = (d, s3)" by fastforce
  note ds = draw_id_set[of 16 rnd 0 now "make_room ?s2", unfolded d snd_conv]
  note s' = start_new_sessions[OF assms(1) f[unfolded None] d]
  have x3: "x \<notin> set (sn_sessions (make_room ?s2))"
    using ds s' assms(3,5) by auto
  then have "sn_max_sessions s \<le> length (sn_sessions s)"
    using make_room_free[of ?s2] x2 s1(3,4) by fastforce
  moreover have "sn_sessions s' ! j \<in> set (sn_sessions s3)"
    using s' assms(6,7) by (auto simp: nth_append split: if_splits)
  then have "ss_touched_at_ms x \<le> ss_touched_at_ms (sn_sessions s' ! j)"
    using make_room_lru[of ?s2] x2(1) x3 ds unfolding lru_kept_def by blast
  ultimately show ?thesis by blast
qed

theorem eviction_is_lru_witness:
  "ss_touched_at_ms (demo_session ''a'' 1) \<le> ss_touched_at_ms (demo_session ''b'' 2)"
proof -
  let ?s = "demo_store\<lparr>sn_sessions := [demo_session ''a'' 1, demo_session ''b'' 2], sn_max_sessions := 2\<rparr>"
  let ?s' = "demo_store\<lparr>sn_sessions := [demo_session ''b'' 2], sn_max_sessions := 2\<rparr>"
  have clean: "sw_sessions_cleanup_expired ?s 3 = ?s"
    by (simp add: sw_sessions_cleanup_expired_def cleanup_filter demo_session_def)
  have find: "sw_sessions_find 3 ?s empty_message = (None, ?s)"
    using clean by (simp add: sw_sessions_find_def sw_http_get_cookie_def empty_message_def demo_store_def create_defaults cstr_def)
  have room: "make_room ?s = ?s'"
    by (subst make_room.simps)
      (simp add: sw_sessions_evict_oldest_def evict_oldest_def remove_at_def demo_session_def make_room_free)
  have "draw_id (Suc 15) (\<lambda>_. None) 0 3 ?s' = (None, ?s')"
    by (simp only: draw_id.simps sw_session_generate_id_def option.case)
  then have draw: "draw_id 16 (\<lambda>_. None) 0 3 ?s' = (None, ?s')" by simp
  have start: "sw_sessions_start 3 3 (\<lambda>_. None) ?s c empty_message = (None, ?s', c)" for c
    by (simp only: sw_sessions_start_def find option.case prod.case clean room draw Let_def)
  from eviction_is_lru[OF start, of "demo_session ''a'' 1" 0] show ?thesis
    by (simp add: demo_session_def)
qed

text \<open>
  Ending a session removes exactly the session named by the request's cookie.
\<close>

theorem session_end_removes:
  assumes "distinct (map ss_id (sn_sessions s))"
    and "sw_http_get_cookie (Some m) (Some (sn_cookie_name s)) 128 = (n, v)" and "0 < n"
  shows "sn_sessions (fst (snd (sw_sessions_end s c (Some m)))) = filter (\<lambda>x. ss_id x \<noteq> cstr v) (sn_sessions s)"
  using session_store.remove_lookup[OF assms(1)] session_store.remove_lookup_none assms(2,3)
  by (auto simp: sw_sessions_end_def Let_def sw_sessions_remove_at_def split: option.split prod.split)

theorem session_end_removes_witness:
  "sn_sessions (fst (snd (sw_sessions_end (demo_store\<lparr>sn_sessions := [demo_session ''1'' 1, demo_session ''2'' 2], sn_cookie_name := ''b''\<rparr>) (new_connection 3 0 True False None 0 True 0)
     (Some (empty_message\<lparr>hm_headers := [\<lparr>hd_name = Some ''Cookie'',
        hd_value = Some (render_cookies [(''a'', ''1''), (''b'', ''2'')])\<rparr>]\<rparr>))))) = [demo_session ''1'' 1]"
proof -
  let ?s = "demo_store\<lparr>sn_sessions := [demo_session ''1'' 1, demo_session ''2'' 2], sn_cookie_name := ''b''\<rparr>"
  let ?m = "empty_message\<lparr>hm_headers := [\<lparr>hd_name = Some ''Cookie'',
        hd_value = Some (render_cookies [(''a'', ''1''), (''b'', ''2'')])\<rparr>]\<rparr>"
  have "sw_http_get_cookie (Some ?m) (Some (sn_cookie_name ?s)) 128 = (1, ''2'')"
    using get_cookie_render[of "[(''a'', ''1''), (''b'', ''2'')]" 128 "''b''" ?m] cookie_pair_ok_ab
    by (simp add: cstr_def lookup_result_def i32_of_sz_def)
  from session_end_removes[OF _ this, of "new_connection 3 0 True False None 0 True 0"] show ?thesis by (simp add: demo_session_def cstr_def)
qed

text \<open>
  The items of a session are a bounded map: setting an item fails exactly when its key is new and
  the table is full, and otherwise updates the map from keys to values; removing an item
  removes its key from the map.
\<close>

theorem session_items_map:
  assumes "distinct (map fst (ss_items x))" and "cstr k \<noteq> []"
  shows "(fst (sw_session_set x (Some k) (Some v)) = 0 \<longleftrightarrow>
      sw_session_get (Some x) (Some k) \<noteq> None \<or> length (ss_items x) < ss_max_items x) \<and>
    (fst (sw_session_set x (Some k) (Some v)) = 0 \<longrightarrow>
      sw_session_get (Some (snd (sw_session_set x (Some k) (Some v)))) (Some k') =
      (if cstr k' = cstr k then Some (cstr v) else sw_session_get (Some x) (Some k'))) \<and>
    sw_session_get (Some (snd (sw_session_remove x (Some k)))) (Some k') =
      (if cstr k' = cstr k then None else sw_session_get (Some x) (Some k'))"
proof -
  have full: "fst (items_set (ss_max_items x) (ss_items x) (cstr k) (cstr v)) = 0 \<longleftrightarrow>
      items_get (ss_items x) (cstr k) \<noteq> None \<or> length (ss_items x) < ss_max_items x"
    by (simp add: items_set_full items_get_None)
  have rem: "items_get (items_remove (ss_items x) (cstr k)) = (items_get (ss_items x))(cstr k := None)"
    using items.remove_map[of "length (ss_items x)"] assms(1) by (simp add: items_ok_def)
  show ?thesis
    using assms(2) full rem items.put_map[of "ss_max_items x" "ss_items x" "cstr k" "cstr v"]
    by (auto simp: sw_session_set_def sw_session_get_def sw_session_remove_def split: prod.splits)
qed



theorem session_items_map_witness:
  "sw_session_get (Some (snd (sw_session_remove (demo_session ''1'' 1) (Some ''k'')))) (Some ''k'') = None"
  using session_items_map[of "demo_session ''1'' 1" "''k''" "''v''" "''k''"] by (simp add: demo_session_def cstr_def)

end
