(* ===== verification/Tokens.thy ===== *)
theory Tokens
  imports Sessions
begin

text \<open>
  Login tokens, \<^verbatim>\<open>src/sw_server.c\<close>: a store of the same shape as the session store whose cookie
  carries the identifier sealed with AES-256-GCM and written in base64url. The block codec
  and the cipher are OpenSSL's; they are the fields of \<open>evp\<close>, with None for a call that reports an
  error. A byte is a \<^typ>\<open>char\<close>.
\<close>

record evp =
  EVP_EncodeBlock :: "string \<Rightarrow> string"
  EVP_DecodeBlock :: "string \<Rightarrow> string option"
  gcm_seal :: "string \<Rightarrow> string \<Rightarrow> string \<Rightarrow> (string \<times> string) option"
  gcm_open :: "string \<Rightarrow> string \<Rightarrow> string \<Rightarrow> string \<Rightarrow> string option"

record sw_token =
  tk_id :: string
  tk_items :: items
  tk_expires_at_ms :: real
  tk_touched_at_ms :: real
  tk_max_items :: nat

record sw_tokens =
  ts_tokens :: "sw_token list"
  ts_cookie_name :: string
  ts_cookie :: sw_http_cookie
  ts_ttl_seconds :: int
  ts_max_tokens :: nat
  ts_max_items :: nat
  ts_secret :: string

record sw_token_config =
  tc_cookie_name :: cptr
  tc_secret :: cptr
  tc_secret_len :: nat
  tc_ttl_seconds :: int
  tc_max_tokens :: nat
  tc_max_items :: nat
  tc_cookie :: sw_http_cookie

section \<open>base64url\<close>

definition url_char :: "char \<Rightarrow> char" where
  "url_char ch = (if ch = CHR ''+'' then CHR ''-'' else if ch = CHR ''/'' then CHR ''_'' else ch)"

definition sw_base64url_encode :: "evp \<Rightarrow> string \<Rightarrow> string option" where
  "sw_base64url_encode E data =
     (if length data > INT_MAX then None
      else let encoded = EVP_EncodeBlock E data in
        if length encoded \<noteq> 4 * ((length data + 2) div 3) then None
        else Some (rev (dropWhile (\<lambda>c. c = CHR ''='') (rev (map url_char encoded)))))"

fun unurl_chars :: "string \<Rightarrow> string option" where
  "unurl_chars [] = Some []"
| "unurl_chars (ch # rest) =
     (if isupper ch \<or> islower ch \<or> isdigit ch then map_option ((#) ch) (unurl_chars rest)
      else if ch = CHR ''-'' then map_option ((#) (CHR ''+'')) (unurl_chars rest)
      else if ch = CHR ''_'' then map_option ((#) (CHR ''/'')) (unurl_chars rest)
      else None)"

definition sw_base64url_decode :: "evp \<Rightarrow> string \<Rightarrow> string option" where
  "sw_base64url_decode E text =
     (let m = length text mod 4;
          pad = (if m = 0 then 0 else 4 - m);
          padded_len = length text + pad
      in if m = 1 \<or> padded_len > INT_MAX then None
      else case unurl_chars text of
        None \<Rightarrow> None
      | Some base64 \<Rightarrow>
          (case EVP_DecodeBlock E (base64 @ replicate pad (CHR ''='')) of
             None \<Rightarrow> None
           | Some decoded \<Rightarrow>
               if length decoded < pad then None else Some (take (length decoded - pad) decoded)))"

section \<open>The cookie of a token\<close>

definition sw_token_encrypt_cookie_value :: "evp \<Rightarrow> string option \<Rightarrow> sw_tokens \<Rightarrow> string \<Rightarrow> string option" where
  "sw_token_encrypt_cookie_value E nonce tokens id' =
     (if \<not> sw_session_id_is_valid (Some id') then None
      else case nonce of
        None \<Rightarrow> None
      | Some n \<Rightarrow>
          (case gcm_seal E (ts_secret tokens) n (take 64 id') of
             None \<Rightarrow> None
           | Some (ciphertext, tag) \<Rightarrow>
               if length ciphertext \<noteq> 64 then None
               else map_option (\<lambda>encoded. ''v1.'' @ encoded) (sw_base64url_encode E (n @ ciphertext @ tag))))"

definition sw_token_decrypt_cookie_value :: "evp \<Rightarrow> sw_tokens \<Rightarrow> string \<Rightarrow> string option" where
  "sw_token_decrypt_cookie_value E tokens v =
     (if take 3 (cstr v) \<noteq> ''v1.'' then None
      else case sw_base64url_decode E (drop 3 (cstr v)) of
        None \<Rightarrow> None
      | Some decoded \<Rightarrow>
          if length decoded \<noteq> 92 then None
          else (case gcm_open E (ts_secret tokens) (take 12 decoded) (take 64 (drop 12 decoded)) (drop 76 decoded) of
             None \<Rightarrow> None
           | Some plaintext \<Rightarrow>
               if length plaintext \<noteq> 64 then None
               else if sw_session_id_is_valid (Some plaintext) then Some plaintext else None))"

section \<open>The array of tokens\<close>

definition sw_tokens_remove_at :: "sw_tokens \<Rightarrow> nat \<Rightarrow> sw_tokens" where
  "sw_tokens_remove_at s index = s\<lparr>ts_tokens := remove_at index (ts_tokens s)\<rparr>"

definition sw_tokens_cleanup_expired :: "sw_tokens \<Rightarrow> real \<Rightarrow> sw_tokens" where
  "sw_tokens_cleanup_expired s now = s\<lparr>ts_tokens := cleanup_loop tk_expires_at_ms now 0 (ts_tokens s)\<rparr>"

definition token_index :: "string \<Rightarrow> sw_token list \<Rightarrow> nat option" where
  "token_index id' xs = index_of (\<lambda>x. tk_id x = id') xs"

definition sw_tokens_find_id :: "sw_tokens \<Rightarrow> cptr \<Rightarrow> real \<Rightarrow> nat option \<times> sw_tokens" where
  "sw_tokens_find_id s id' now =
     (if \<not> sw_session_id_is_valid id' then (None, s)
      else let s' = sw_tokens_cleanup_expired s now in
        (token_index (cstr (the id')) (ts_tokens s'), s'))"

definition sw_tokens_evict_oldest :: "sw_tokens \<Rightarrow> sw_tokens" where
  "sw_tokens_evict_oldest s = s\<lparr>ts_tokens := evict_oldest tk_touched_at_ms (ts_tokens s)\<rparr>"

text \<open>The state of the request's cookie: absent, not one of ours, or a sealed identifier.\<close>

datatype cookie_status = Cookie_absent | Cookie_invalid | Cookie_id string

definition sw_tokens_cookie_id :: "evp \<Rightarrow> sw_tokens \<Rightarrow> sw_http_message option \<Rightarrow> cookie_status" where
  "sw_tokens_cookie_id E tokens hm =
     (case hm of None \<Rightarrow> Cookie_invalid
      | Some m \<Rightarrow>
          let (cookie_len, v) = sw_http_get_cookie (Some m) (Some (ts_cookie_name tokens)) 512 in
          if cookie_len \<le> 0 then Cookie_absent
          else (case sw_token_decrypt_cookie_value E tokens v of
             None \<Rightarrow> Cookie_invalid | Some i \<Rightarrow> Cookie_id i))"

definition sw_tokens_clear_cookie_if_possible :: "sw_tokens \<Rightarrow> sw_connection option \<Rightarrow> sw_connection option" where
  "sw_tokens_clear_cookie_if_possible tokens connection =
     (case connection of None \<Rightarrow> None
      | Some c \<Rightarrow> snd (sw_http_clear_cookie (Some c) (Some (ts_cookie_name tokens)) (Some (ts_cookie tokens))))"

section \<open>Configuration\<close>

definition sw_token_config_default :: sw_token_config where
  "sw_token_config_default = \<lparr>tc_cookie_name = Some ''sw_token'', tc_secret = None, tc_secret_len = 0,
     tc_ttl_seconds = 3600, tc_max_tokens = 1024, tc_max_items = 32, tc_cookie = sw_http_cookie_default\<lparr>ck_max_age := -1\<rparr>\<rparr>"

definition sw_tokens_create :: "string option \<Rightarrow> sw_token_config option \<Rightarrow> sw_tokens option" where
  "sw_tokens_create random_secret config =
     (let d = sw_token_config_default;
          e = (case config of None \<Rightarrow> d
            | Some c \<Rightarrow> \<lparr>
                tc_cookie_name = (if tc_cookie_name c \<noteq> None then tc_cookie_name c else tc_cookie_name d),
                tc_secret = (if tc_secret c \<noteq> None then tc_secret c else tc_secret d),
                tc_secret_len = (if tc_secret c \<noteq> None then tc_secret_len c else tc_secret_len d),
                tc_ttl_seconds = (if tc_ttl_seconds c > 0 then tc_ttl_seconds c else tc_ttl_seconds d),
                tc_max_tokens = (if tc_max_tokens c > 0 then tc_max_tokens c else tc_max_tokens d),
                tc_max_items = (if tc_max_items c > 0 then tc_max_items c else tc_max_items d),
                tc_cookie = (if sw_session_cookie_has_values (tc_cookie c) then tc_cookie c else tc_cookie d)\<rparr>);
          explicit_cookie = (case config of None \<Rightarrow> False | Some c \<Rightarrow> sw_session_cookie_has_values (tc_cookie c))
      in if tc_secret e \<noteq> None \<and> tc_secret_len e \<noteq> 32 then None
      else
        let cookie = (if \<not> explicit_cookie \<or> ck_max_age (tc_cookie e) \<le> 0
              then (tc_cookie e)\<lparr>ck_max_age := tc_ttl_seconds e\<rparr> else tc_cookie e);
            secret = (case tc_secret e of Some x \<Rightarrow> Some (take 32 x) | None \<Rightarrow> random_secret)
        in (case secret of None \<Rightarrow> None
            | Some k \<Rightarrow> Some \<lparr>ts_tokens = [], ts_cookie_name = the (sw_strdup_cstr (tc_cookie_name e)),
                ts_cookie = sw_sessions_copy_cookie cookie, ts_ttl_seconds = tc_ttl_seconds e,
                ts_max_tokens = tc_max_tokens e, ts_max_items = tc_max_items e, ts_secret = k\<rparr>))"

section \<open>The items of a token\<close>

definition sw_token_id :: "sw_token option \<Rightarrow> string" where
  "sw_token_id token = (case token of None \<Rightarrow> [] | Some t \<Rightarrow> tk_id t)"

definition sw_token_get :: "sw_token option \<Rightarrow> cptr \<Rightarrow> cptr" where
  "sw_token_get token key =
     (case (token, key) of (Some t, Some k) \<Rightarrow> items_get (tk_items t) (cstr k) | _ \<Rightarrow> None)"

definition sw_token_set :: "sw_token \<Rightarrow> cptr \<Rightarrow> cptr \<Rightarrow> int \<times> sw_token" where
  "sw_token_set t key val =
     (case (key, val) of
        (Some k, Some v) \<Rightarrow>
          (if cstr k = [] then (-1, t)
           else let (rc, its) = items_set (tk_max_items t) (tk_items t) (cstr k) (cstr v) in (rc, t\<lparr>tk_items := its\<rparr>))
      | _ \<Rightarrow> (-1, t))"

definition sw_token_remove :: "sw_token \<Rightarrow> cptr \<Rightarrow> int \<times> sw_token" where
  "sw_token_remove t key =
     (case key of None \<Rightarrow> (-1, t) | Some k \<Rightarrow> (0, t\<lparr>tk_items := items_remove (tk_items t) (cstr k)\<rparr>))"

section \<open>Login, current and logout\<close>

definition tokens_full :: "sw_tokens \<Rightarrow> bool" where
  "tokens_full s \<longleftrightarrow> length (ts_tokens s) \<ge> ts_max_tokens s \<and> length (ts_tokens s) > 0"

function tokens_make_room :: "sw_tokens \<Rightarrow> sw_tokens" where
  "tokens_make_room s = (if tokens_full s then tokens_make_room (sw_tokens_evict_oldest s) else s)"
  by pat_completeness auto
termination
  by (relation "measure (\<lambda>s. length (ts_tokens s))")
    (auto simp: sw_tokens_evict_oldest_def tokens_full_def evict_oldest_shorter)

declare tokens_make_room.simps [simp del]

fun draw_token_id :: "nat \<Rightarrow> (nat \<Rightarrow> nat list option) \<Rightarrow> nat \<Rightarrow> real \<Rightarrow> sw_tokens \<Rightarrow> string option \<times> sw_tokens" where
  "draw_token_id 0 rnd attempt now s = (None, s)"
| "draw_token_id (Suc left) rnd attempt now s =
     (case sw_session_generate_id (rnd attempt) of
        None \<Rightarrow> (None, s)
      | Some i \<Rightarrow>
          (case sw_tokens_find_id s (Some i) now of
             (None, s') \<Rightarrow> (Some i, s')
           | (Some _, s') \<Rightarrow> draw_token_id left rnd (attempt + 1) now s'))"

definition remove_token_id :: "sw_tokens \<Rightarrow> string \<Rightarrow> sw_tokens" where
  "remove_token_id s i =
     (case token_index i (ts_tokens s) of None \<Rightarrow> s | Some k \<Rightarrow> sw_tokens_remove_at s k)"

text \<open>The cookie of a token is set on the response; the result tells whether both steps succeeded.\<close>

definition set_token_cookie :: "evp \<Rightarrow> string option \<Rightarrow> sw_tokens \<Rightarrow> sw_connection \<Rightarrow> string \<Rightarrow> bool \<times> sw_connection" where
  "set_token_cookie E nonce s c i =
     (case sw_token_encrypt_cookie_value E nonce s i of
        None \<Rightarrow> (False, c)
      | Some v \<Rightarrow>
          let (rc, c') = sw_http_set_cookie (Some c) (Some (ts_cookie_name s)) (Some v) (Some (ts_cookie s))
          in (rc = 0, the c'))"

definition sw_tokens_login ::
  "evp \<Rightarrow> real \<Rightarrow> (nat \<Rightarrow> nat list option) \<Rightarrow> string option \<Rightarrow> sw_tokens \<Rightarrow> sw_connection \<Rightarrow> sw_http_message \<Rightarrow> cptr \<Rightarrow>
     nat option \<times> sw_tokens \<times> sw_connection" where
  "sw_tokens_login E now rnd nonce s c hm user_id =
     (let s1 = (case sw_tokens_cookie_id E s (Some hm) of Cookie_id i \<Rightarrow> remove_token_id s i | _ \<Rightarrow> s);
          s2 = tokens_make_room (sw_tokens_cleanup_expired s1 now)
      in case draw_token_id 16 rnd 0 now s2 of
        (None, s3) \<Rightarrow> (None, s3, c)
      | (Some i, s3) \<Rightarrow>
          let new_token = \<lparr>tk_id = i, tk_items = [], tk_expires_at_ms = now + of_int (ts_ttl_seconds s3) * 1000,
                tk_touched_at_ms = now, tk_max_items = ts_max_items s3\<rparr>;
              index = length (ts_tokens s3);
              (rc, new_token) = (case user_id of None \<Rightarrow> (0, new_token)
                 | Some u \<Rightarrow> sw_token_set new_token (Some ''user_id'') (Some u));
              s4 = s3\<lparr>ts_tokens := ts_tokens s3 @ [new_token]\<rparr>
          in if rc \<noteq> 0 then (None, sw_tokens_remove_at s4 index, c)
             else
               let (ok, c') = set_token_cookie E nonce s4 c i in
               if \<not> ok then (None, sw_tokens_remove_at s4 index, c') else (Some index, s4, c'))"

definition touch_token :: "sw_tokens \<Rightarrow> nat \<Rightarrow> real \<Rightarrow> sw_tokens" where
  "touch_token s i now = s\<lparr>ts_tokens := (ts_tokens s)[i := (ts_tokens s ! i)\<lparr>
     tk_touched_at_ms := now, tk_expires_at_ms := now + of_int (ts_ttl_seconds s) * 1000\<rparr>]\<rparr>"

definition sw_tokens_current ::
  "evp \<Rightarrow> real \<Rightarrow> string option \<Rightarrow> sw_tokens \<Rightarrow> sw_connection option \<Rightarrow> sw_http_message option \<Rightarrow>
     nat option \<times> sw_tokens \<times> sw_connection option" where
  "sw_tokens_current E now nonce s connection hm =
     (case hm of None \<Rightarrow> (None, s, connection)
      | Some m \<Rightarrow>
          (case sw_tokens_cookie_id E s (Some m) of
             Cookie_absent \<Rightarrow> (None, sw_tokens_cleanup_expired s now, connection)
           | Cookie_invalid \<Rightarrow> (None, s, sw_tokens_clear_cookie_if_possible s connection)
           | Cookie_id i \<Rightarrow>
               (case sw_tokens_find_id s (Some i) now of
                  (None, s1) \<Rightarrow> (None, s1, sw_tokens_clear_cookie_if_possible s1 connection)
                | (Some k, s1) \<Rightarrow>
                    let s2 = touch_token s1 k now in
                    (case connection of
                       None \<Rightarrow> (Some k, s2, None)
                     | Some c \<Rightarrow>
                         let (ok, c') = set_token_cookie E nonce s2 c (tk_id (ts_tokens s2 ! k)) in
                         (if ok then Some k else None, s2, Some c')))))"

definition sw_tokens_logout ::
  "evp \<Rightarrow> sw_tokens \<Rightarrow> sw_connection \<Rightarrow> sw_http_message option \<Rightarrow> int \<times> sw_tokens \<times> sw_connection" where
  "sw_tokens_logout E s c hm =
     (let s1 = (case sw_tokens_cookie_id E s hm of Cookie_id i \<Rightarrow> remove_token_id s i | _ \<Rightarrow> s);
          (rc, c') = sw_http_clear_cookie (Some c) (Some (ts_cookie_name s1)) (Some (ts_cookie s1))
      in (rc, s1, the c'))"

section \<open>The token store is a session store\<close>

definition session_of :: "sw_token \<Rightarrow> sw_session" where
  "session_of t = \<lparr>ss_id = tk_id t, ss_items = tk_items t, ss_expires_at_ms = tk_expires_at_ms t,
     ss_touched_at_ms = tk_touched_at_ms t, ss_max_items = tk_max_items t\<rparr>"

definition sessions_of :: "sw_tokens \<Rightarrow> sw_sessions" where
  "sessions_of s = \<lparr>sn_sessions = map session_of (ts_tokens s), sn_cookie_name = ts_cookie_name s,
     sn_cookie = ts_cookie s, sn_ttl_seconds = ts_ttl_seconds s, sn_max_sessions = ts_max_tokens s,
     sn_max_items = ts_max_items s\<rparr>"

lemma session_of_simps [simp]:
  "ss_id (session_of t) = tk_id t" "ss_items (session_of t) = tk_items t"
  "ss_expires_at_ms (session_of t) = tk_expires_at_ms t" "ss_touched_at_ms (session_of t) = tk_touched_at_ms t"
  "ss_max_items (session_of t) = tk_max_items t"
  by (simp_all add: session_of_def)

lemma sessions_of_simps [simp]:
  "sn_sessions (sessions_of s) = map session_of (ts_tokens s)" "sn_cookie_name (sessions_of s) = ts_cookie_name s"
  "sn_cookie (sessions_of s) = ts_cookie s" "sn_ttl_seconds (sessions_of s) = ts_ttl_seconds s"
  "sn_max_sessions (sessions_of s) = ts_max_tokens s" "sn_max_items (sessions_of s) = ts_max_items s"
  by (simp_all add: sessions_of_def)

lemma sessions_of_remove: "sessions_of (sw_tokens_remove_at s i) = sw_sessions_remove_at (sessions_of s) i"
  by (simp add: sessions_of_def sw_tokens_remove_at_def sw_sessions_remove_at_def remove_at_map)

lemma sessions_of_cleanup: "sessions_of (sw_tokens_cleanup_expired s now) = sw_sessions_cleanup_expired (sessions_of s) now"
  by (simp add: sessions_of_def sw_tokens_cleanup_expired_def sw_sessions_cleanup_expired_def cleanup_map)

lemma token_index_eq: "token_index i xs = session_index i (map session_of xs)"
  by (simp add: token_index_def session_index_def index_of_map)

lemma sessions_of_find_id:
  "sw_sessions_find_id (sessions_of s) i now = map_prod id sessions_of (sw_tokens_find_id s i now)"
  by (simp add: sw_sessions_find_id_def sw_tokens_find_id_def Let_def token_index_eq
      flip: sessions_of_cleanup)

lemma sessions_of_evict: "sessions_of (sw_tokens_evict_oldest s) = sw_sessions_evict_oldest (sessions_of s)"
  by (simp add: sessions_of_def sw_tokens_evict_oldest_def sw_sessions_evict_oldest_def evict_oldest_map)

lemma sessions_of_make_room: "sessions_of (tokens_make_room s) = make_room (sessions_of s)"
proof (induction s rule: tokens_make_room.induct)
  case (1 s)
  then show ?case
    by (subst tokens_make_room.simps, subst make_room.simps) (simp add: tokens_full_def sessions_of_evict)
qed

lemma sessions_of_draw:
  "draw_id n rnd k now (sessions_of s) = map_prod id sessions_of (draw_token_id n rnd k now s)"
  by (induction n arbitrary: k s) (simp_all add: sessions_of_find_id split: option.split prod.split)

lemma sessions_of_touch:
  "i < length (ts_tokens s) \<Longrightarrow> sessions_of (touch_token s i now) = touch_session (sessions_of s) i now"
  by (simp add: sessions_of_def touch_token_def touch_session_def map_update session_of_def)

section \<open>Every operation keeps the invariant\<close>

definition tokens_inv :: "sw_tokens \<Rightarrow> bool" where
  "tokens_inv s \<longleftrightarrow> sessions_inv (sessions_of s)"

lemma token_set_session:
  "sw_session_set (session_of t) k v = map_prod id session_of (sw_token_set t k v)"
  by (simp add: sw_session_set_def sw_token_set_def session_of_def split: option.split prod.split)

lemma token_remove_session:
  "sw_session_remove (session_of t) k = map_prod id session_of (sw_token_remove t k)"
  by (simp add: sw_session_remove_def sw_token_remove_def session_of_def split: option.split)

lemma remove_token_inv: "tokens_inv s \<Longrightarrow> tokens_inv (remove_token_id s i)"
  using remove_at_inv by (auto simp: tokens_inv_def remove_token_id_def sessions_of_remove split: option.split)

lemma tokens_cleanup_inv: "tokens_inv s \<Longrightarrow> tokens_inv (sw_tokens_cleanup_expired s now)"
  using cleanup_inv by (simp add: tokens_inv_def sessions_of_cleanup)

lemma tokens_find_id_facts:
  assumes "sw_tokens_find_id s i now = (r, s')" and "tokens_inv s"
  shows "tokens_inv s'" and "\<And>k. r = Some k \<Longrightarrow> k < length (ts_tokens s') \<and> tk_id (ts_tokens s' ! k) = cstr (the i) \<and>
      now < tk_expires_at_ms (ts_tokens s' ! k)"
proof -
  have f: "sw_sessions_find_id (sessions_of s) i now = (r, sessions_of s')"
    by (simp add: sessions_of_find_id assms(1))
  show "tokens_inv s'" using find_id_facts(1)[OF f] assms(2) by (simp add: tokens_inv_def)
  show "k < length (ts_tokens s') \<and> tk_id (ts_tokens s' ! k) = cstr (the i) \<and>
      now < tk_expires_at_ms (ts_tokens s' ! k)" if "r = Some k" for k
    using find_id_facts(8)[OF f that] by auto
qed

lemma touch_token_inv: "tokens_inv s \<Longrightarrow> k < length (ts_tokens s) \<Longrightarrow> tokens_inv (touch_token s k now)"
  using touch_inv by (simp add: tokens_inv_def sessions_of_touch)

text \<open>The store before the new token is added, and the new token.\<close>

lemma login_store:
  assumes "tokens_inv s" and "draw_token_id 16 rnd 0 now (tokens_make_room (sw_tokens_cleanup_expired s now)) = (d, s3)"
  shows "tokens_inv s3 \<and> length (ts_tokens s3) < ts_max_tokens s3 \<and>
    (\<forall>i. d = Some i \<longrightarrow> sw_session_id_is_valid (Some i) \<and> NUL \<notin> set i \<and> token_index i (ts_tokens s3) = None)"
proof -
  let ?s2 = "tokens_make_room (sw_tokens_cleanup_expired s now)"
  have "sessions_inv (sessions_of (sw_tokens_cleanup_expired s now))"
    using assms(1) tokens_cleanup_inv by (simp add: tokens_inv_def)
  from make_room_facts[OF this]
  have m: "sessions_inv (sessions_of ?s2)" "length (ts_tokens ?s2) < ts_max_tokens ?s2"
    by (auto simp flip: sessions_of_make_room)
  have "draw_id 16 rnd 0 now (sessions_of ?s2) = (d, sessions_of s3)" by (simp add: sessions_of_draw assms(2))
  from draw_id_facts[OF this m(1)] m(2) show ?thesis
    by (auto simp: tokens_inv_def token_index_eq)
qed

lemma add_token_inv:
  assumes "tokens_inv s" and "length (ts_tokens s) < ts_max_tokens s" and "token_index (tk_id t) (ts_tokens s) = None"
    and "session_ok (of_int (ts_ttl_seconds s) * 1000) (ts_max_items s) (session_of t)"
  shows "tokens_inv (s\<lparr>ts_tokens := ts_tokens s @ [t]\<rparr>)"
proof -
  have "session_store.store_ok (ts_max_tokens s) (session_ok (of_int (ts_ttl_seconds s) * 1000) (ts_max_items s))
      (map session_of (ts_tokens s) @ [session_of t])"
    by (rule session_store.add_ok) (use assms in \<open>auto simp: tokens_inv_def sessions_inv_def token_index_eq\<close>)
  then show ?thesis using assms(1) by (simp add: tokens_inv_def sessions_inv_def)
qed

definition new_token :: "sw_tokens \<Rightarrow> string \<Rightarrow> real \<Rightarrow> sw_token" where
  "new_token s i now = \<lparr>tk_id = i, tk_items = [], tk_expires_at_ms = now + of_int (ts_ttl_seconds s) * 1000,
     tk_touched_at_ms = now, tk_max_items = ts_max_items s\<rparr>"

lemma new_token_ok:
  assumes "sw_session_id_is_valid (Some i)" and "NUL \<notin> set i"
  shows "session_ok (of_int (ts_ttl_seconds s) * 1000) (ts_max_items s) (session_of (new_token s i now))"
    and "session_ok (of_int (ts_ttl_seconds s) * 1000) (ts_max_items s)
      (session_of (snd (sw_token_set (new_token s i now) k v)))"
proof -
  show n: "session_ok (of_int (ts_ttl_seconds s) * 1000) (ts_max_items s) (session_of (new_token s i now))"
    using assms by (simp add: session_ok_def new_token_def items_ok_def)
  obtain its where "snd (sw_session_set (session_of (new_token s i now)) k v) = session_of (new_token s i now)\<lparr>ss_items := its\<rparr>"
    "items_ok (ts_max_items s) (tk_items (new_token s i now)) \<longrightarrow> items_ok (ts_max_items s) its"
    using session_set_cases[of "session_of (new_token s i now)" k v] by (auto simp: new_token_def)
  then show "session_ok (of_int (ts_ttl_seconds s) * 1000) (ts_max_items s)
      (session_of (snd (sw_token_set (new_token s i now) k v)))"
    using n by (simp add: token_set_session session_ok_def)
qed

lemma token_set_id [simp]: "tk_id (snd (sw_token_set t k v)) = tk_id t" "tk_expires_at_ms (snd (sw_token_set t k v)) = tk_expires_at_ms t"
  by (auto simp: sw_token_set_def split: option.split prod.split)

lemma new_token_fields [simp]:
  "tk_id (new_token s i now) = i" "tk_expires_at_ms (new_token s i now) = now + of_int (ts_ttl_seconds s) * 1000"
  by (simp_all add: new_token_def)

text \<open>What login leaves behind: the old store, or the new token behind it, its cookie set.\<close>

lemma login_cases:
  assumes "tokens_inv s" and "sw_tokens_login E now rnd nonce s c hm user_id = (r, s', c')"
  shows "tokens_inv s' \<and> (\<forall>k. r = Some k \<longrightarrow> k < length (ts_tokens s') \<and>
    tk_expires_at_ms (ts_tokens s' ! k) = now + of_int (ts_ttl_seconds s') * 1000 \<and>
    set_token_cookie E nonce s' c (tk_id (ts_tokens s' ! k)) = (True, c'))"
proof -
  define s1 where "s1 = (case sw_tokens_cookie_id E s (Some hm) of Cookie_id i \<Rightarrow> remove_token_id s i | _ \<Rightarrow> s)"
  have s1: "tokens_inv s1" using assms(1) remove_token_inv by (simp add: s1_def split: cookie_status.split)
  obtain d s3 where d: "draw_token_id 16 rnd 0 now (tokens_make_room (sw_tokens_cleanup_expired s1 now)) = (d, s3)"
    by fastforce
  note st = login_store[OF s1 d]
  note run = assms(2)[unfolded sw_tokens_login_def s1_def[symmetric] Let_def d]
  show ?thesis
  proof (cases d)
    case None
    with run st show ?thesis by simp
  next
    case (Some i)
    define t where "t = (case user_id of None \<Rightarrow> new_token s3 i now
        | Some u \<Rightarrow> snd (sw_token_set (new_token s3 i now) (Some ''user_id'') (Some u)))"
    let ?s4 = "s3\<lparr>ts_tokens := ts_tokens s3 @ [t]\<rparr>"
    have id: "tk_id t = i" "tk_expires_at_ms t = now + of_int (ts_ttl_seconds s3) * 1000"
      by (simp_all add: t_def split: option.split)
    have inv: "tokens_inv ?s4"
      using st Some new_token_ok[of i s3 now] by (intro add_token_inv) (auto simp: id t_def split: option.split)
    have rem: "sw_tokens_remove_at ?s4 (length (ts_tokens s3)) = s3"
      by (simp add: sw_tokens_remove_at_def remove_at_def)
    have "(r, s') = (None, s3) \<or> (r, s') = (Some (length (ts_tokens s3)), ?s4) \<and> set_token_cookie E nonce ?s4 c i = (True, c')"
      using run Some rem
      by (auto simp: t_def new_token_def[symmetric] split: prod.splits if_splits option.splits)
    then show ?thesis using st inv id by auto
  qed
qed

lemma current_inv:
  assumes "tokens_inv s" and "sw_tokens_current E now nonce s c hm = (r, s', c')"
  shows "tokens_inv s'"
proof (cases hm)
  case (Some m)
  show ?thesis
  proof (cases "sw_tokens_cookie_id E s (Some m)")
    case (Cookie_id i)
    obtain f s1 where f: "sw_tokens_find_id s (Some i) now = (f, s1)" by fastforce
    note ff = tokens_find_id_facts[OF f assms(1)]
    show ?thesis
    proof (cases f)
      case None
      with assms(2) Some Cookie_id f ff show ?thesis by (simp add: sw_tokens_current_def)
    next
      case (Some k)
      with assms(2) \<open>hm = Some m\<close> Cookie_id f have "s' = touch_token s1 k now"
        by (auto simp: sw_tokens_current_def Let_def split: option.splits prod.splits if_splits)
      then show ?thesis using touch_token_inv ff Some by simp
    qed
  qed (use assms Some tokens_cleanup_inv in \<open>auto simp: sw_tokens_current_def\<close>)
qed (use assms in \<open>simp add: sw_tokens_current_def\<close>)

lemma logout_inv: "tokens_inv s \<Longrightarrow> tokens_inv (fst (snd (sw_tokens_logout E s c hm)))"
  using remove_token_inv by (auto simp: sw_tokens_logout_def Let_def split: cookie_status.split prod.split)

text \<open>The states of a token store that its operations can produce, with any arguments.\<close>

inductive tokens_reach :: "sw_tokens \<Rightarrow> bool" where
  create: "sw_tokens_create rs cfg = Some s \<Longrightarrow> tokens_reach s"
| login: "tokens_reach s \<Longrightarrow> sw_tokens_login E now rnd nonce s c hm user = (r, s', c') \<Longrightarrow> tokens_reach s'"
| current: "tokens_reach s \<Longrightarrow> sw_tokens_current E now nonce s c' hm' = (r, s', c'') \<Longrightarrow> tokens_reach s'"
| logout: "tokens_reach s \<Longrightarrow> tokens_reach (fst (snd (sw_tokens_logout E s c hm')))"
| set_item: "tokens_reach s \<Longrightarrow> i < length (ts_tokens s) \<Longrightarrow>
    tokens_reach (s\<lparr>ts_tokens := (ts_tokens s)[i := snd (sw_token_set (ts_tokens s ! i) key val)]\<rparr>)"
| remove_item: "tokens_reach s \<Longrightarrow> i < length (ts_tokens s) \<Longrightarrow>
    tokens_reach (s\<lparr>ts_tokens := (ts_tokens s)[i := snd (sw_token_remove (ts_tokens s ! i) key)]\<rparr>)"

lemma tokens_create_inv: "sw_tokens_create rs cfg = Some s \<Longrightarrow> tokens_inv s"
  by (auto simp: sw_tokens_create_def tokens_inv_def sessions_inv_def session_store.store_ok_def
      sw_token_config_default_def Let_def split: option.splits if_splits)

lemma update_token_items_inv:
  assumes "tokens_inv s" and "i < length (ts_tokens s)"
    and "session_of t = (session_of (ts_tokens s ! i))\<lparr>ss_items := its\<rparr>"
    and "items_ok (tk_max_items (ts_tokens s ! i)) (tk_items (ts_tokens s ! i)) \<longrightarrow> items_ok (tk_max_items (ts_tokens s ! i)) its"
  shows "tokens_inv (s\<lparr>ts_tokens := (ts_tokens s)[i := t]\<rparr>)"
proof -
  have "sessions_of (s\<lparr>ts_tokens := (ts_tokens s)[i := t]\<rparr>) =
      sessions_of s\<lparr>sn_sessions := (sn_sessions (sessions_of s))[i := (sn_sessions (sessions_of s) ! i)\<lparr>ss_items := its\<rparr>]\<rparr>"
    using assms(2,3) by (simp add: sessions_of_def map_update)
  then show ?thesis
    using update_items_inv[of "sessions_of s" i its] nth_items_ok[of "sessions_of s" i] assms by (simp add: tokens_inv_def)
qed

lemma tokens_reach_inv: "tokens_reach s \<Longrightarrow> tokens_inv s"
proof (induction rule: tokens_reach.induct)
  case (create rs cfg s)
  then show ?case by (rule tokens_create_inv)
next
  case (login s E now rnd nonce c hm user r s' c')
  then show ?case using login_cases by blast
next
  case (current s E now nonce c' hm' r s' c'')
  then show ?case using current_inv by blast
next
  case (logout s E c hm')
  then show ?case by (simp add: logout_inv)
next
  case (set_item s i key val)
  from session_set_cases[of "session_of (ts_tokens s ! i)" key val] obtain its where
    "snd (sw_session_set (session_of (ts_tokens s ! i)) key val) = session_of (ts_tokens s ! i)\<lparr>ss_items := its\<rparr>"
    "items_ok (tk_max_items (ts_tokens s ! i)) (tk_items (ts_tokens s ! i)) \<longrightarrow> items_ok (tk_max_items (ts_tokens s ! i)) its"
    by auto
  with set_item show ?case by (intro update_token_items_inv[where its = its]) (simp_all add: token_set_session)
next
  case (remove_item s i key)
  from session_remove_cases[of "session_of (ts_tokens s ! i)" key] obtain its where
    "snd (sw_session_remove (session_of (ts_tokens s ! i)) key) = session_of (ts_tokens s ! i)\<lparr>ss_items := its\<rparr>"
    "items_ok (tk_max_items (ts_tokens s ! i)) (tk_items (ts_tokens s ! i)) \<longrightarrow> items_ok (tk_max_items (ts_tokens s ! i)) its"
    by auto
  with remove_item show ?case by (intro update_token_items_inv[where its = its]) (simp_all add: token_remove_session)
qed

section \<open>What the code relies on of OpenSSL\<close>

text \<open>
  The documented behaviour: the block codec writes four characters of the base64 alphabet for every
  three bytes, pads with equals signs, and decoding gives the bytes back with a zero byte for
  every equals sign; opening what was sealed with the same key and nonce gives the plaintext,
  and opening succeeds only on what sealing that plaintext produces.
\<close>

definition base64_char :: "char \<Rightarrow> bool" where
  "base64_char c \<longleftrightarrow> isupper c \<or> islower c \<or> isdigit c \<or> c = CHR ''+'' \<or> c = CHR ''/''"

definition pad_length :: "nat \<Rightarrow> nat" where
  "pad_length n = (3 - n mod 3) mod 3"

definition codec_documented :: "evp \<Rightarrow> bool" where
  "codec_documented E \<longleftrightarrow> (\<forall>s. \<exists>core. EVP_EncodeBlock E s = core @ replicate (pad_length (length s)) (CHR ''='') \<and>
     length core + pad_length (length s) = 4 * ((length s + 2) div 3) \<and> list_all base64_char core \<and>
     EVP_DecodeBlock E (EVP_EncodeBlock E s) = Some (s @ replicate (pad_length (length s)) NUL))"

definition cipher_documented :: "evp \<Rightarrow> bool" where
  "cipher_documented E \<longleftrightarrow> (\<forall>k n p c t. gcm_seal E k n p = Some (c, t) \<longrightarrow>
       length c = length p \<and> length t = 16 \<and> gcm_open E k n c t = Some p) \<and>
     (\<forall>k n p c t. gcm_open E k n c t = Some p \<longrightarrow> gcm_seal E k n p = Some (c, t))"

lemma base64_url_char: "base64_char c \<Longrightarrow> c \<noteq> CHR ''='' \<and> url_char c \<noteq> CHR ''='' \<and> cookie_value_char (url_char c) \<and>
    url_char c \<noteq> NUL"
  by (auto simp: base64_char_def url_char_def cookie_value_char_def isupper_def islower_def isdigit_def byte_def)

lemma unurl_url: "list_all base64_char s \<Longrightarrow> unurl_chars (map url_char s) = Some s"
proof (induction s)
  case (Cons c s)
  then show ?case
    by (cases "c = CHR ''+''"; cases "c = CHR ''/''")
      (auto simp: url_char_def base64_char_def isupper_def islower_def isdigit_def byte_def)
qed simp

lemma base64url_encode_core:
  assumes "codec_documented E" and "length data \<le> INT_MAX"
  shows "\<exists>core. sw_base64url_encode E data = Some (map url_char core) \<and> list_all base64_char core \<and>
    length core + pad_length (length data) = 4 * ((length data + 2) div 3) \<and>
    EVP_DecodeBlock E (core @ replicate (pad_length (length data)) (CHR ''='')) =
      Some (data @ replicate (pad_length (length data)) NUL)"
proof -
  obtain core where core: "EVP_EncodeBlock E data = core @ replicate (pad_length (length data)) (CHR ''='')"
    "length core + pad_length (length data) = 4 * ((length data + 2) div 3)" "list_all base64_char core"
    "EVP_DecodeBlock E (EVP_EncodeBlock E data) = Some (data @ replicate (pad_length (length data)) NUL)"
    using assms(1) unfolding codec_documented_def by blast
  have eq: "url_char (CHR ''='') = CHR ''=''" by (simp add: url_char_def)
  have "dropWhile (\<lambda>c. c = CHR ''='') (replicate n (CHR ''='') @ rev (map url_char core)) = rev (map url_char core)" for n
  proof (induction n)
    case 0
    show ?case using core(3) base64_url_char by (cases core rule: rev_cases) auto
  qed simp
  then have "sw_base64url_encode E data = Some (map url_char core)"
    using assms(2) core(2) by (simp add: sw_base64url_encode_def core(1) eq map_replicate_const)
  then show ?thesis using core by auto
qed

lemma pad_of_core:
  assumes "l + pad_length n = 4 * ((n + 2) div 3)"
  shows "l mod 4 \<noteq> 1" and "(if l mod 4 = 0 then 0 else 4 - l mod 4) = pad_length n"
proof -
  have "n mod 3 = 0 \<or> n mod 3 = 1 \<or> n mod 3 = 2" by presburger
  then have p: "pad_length n = 0 \<or> pad_length n = 1 \<or> pad_length n = 2" by (auto simp: pad_length_def)
  obtain q where q: "l + pad_length n = 4 * q" using assms by blast
  have "l mod 4 \<noteq> 1 \<and> (if l mod 4 = 0 then 0 else 4 - l mod 4) = pad_length n"
    using p
  proof (elim disjE)
    assume z: "pad_length n = 0"
    then have "l mod 4 = 0" using q by presburger
    with z show ?thesis by simp
  next
    assume z: "pad_length n = 1"
    then have "l mod 4 = 3" using q by presburger
    with z show ?thesis by simp
  next
    assume z: "pad_length n = 2"
    then have "l mod 4 = 2" using q by presburger
    with z show ?thesis by simp
  qed
  then show "l mod 4 \<noteq> 1" "(if l mod 4 = 0 then 0 else 4 - l mod 4) = pad_length n" by blast+
qed

lemma base64url_decode_encode:
  assumes "codec_documented E" and "length data \<le> 1000000000"
  shows "\<exists>text. sw_base64url_encode E data = Some text \<and> sw_base64url_decode E text = Some data \<and>
    length text \<le> 4 * ((length data + 2) div 3) \<and> list_all cookie_value_char text \<and> NUL \<notin> set text"
proof -
  have "length data \<le> INT_MAX" using assms(2) by (simp add: INT_MAX_def)
  from base64url_encode_core[OF assms(1) this] obtain core where
    core: "sw_base64url_encode E data = Some (map url_char core)" "list_all base64_char core"
    "length core + pad_length (length data) = 4 * ((length data + 2) div 3)"
    "EVP_DecodeBlock E (core @ replicate (pad_length (length data)) (CHR ''='')) =
      Some (data @ replicate (pad_length (length data)) NUL)" by blast
  have "4 * ((length data + 2) div 3) \<le> INT_MAX" using assms(2) by (simp add: INT_MAX_def)
  then have le: "length core + pad_length (length data) \<le> INT_MAX" using core(3) by simp
  then have fit: "\<not> (length core mod 4 = 1 \<or> length core + pad_length (length data) > INT_MAX)"
    using pad_of_core(1)[OF core(3)] by linarith
  have "sw_base64url_decode E (map url_char core) = Some data"
    unfolding sw_base64url_decode_def Let_def length_map pad_of_core(2)[OF core(3)] unurl_url[OF core(2)] option.case core(4)
      if_not_P[OF fit]
    by simp
  moreover have "list_all cookie_value_char (map url_char core)" "NUL \<notin> set (map url_char core)"
  proof -
    have "cookie_value_char (url_char c) \<and> url_char c \<noteq> NUL" if "c \<in> set core" for c
      using that core(2) base64_url_char[of c] unfolding list_all_iff by blast
    then show "list_all cookie_value_char (map url_char core)" "NUL \<notin> set (map url_char core)"
      unfolding list_all_iff set_map by (fast, metis imageE)
  qed
  moreover have "length (map url_char core) \<le> 4 * ((length data + 2) div 3)"
    unfolding length_map using core(3) by (metis le_add1)
  ultimately show ?thesis using core(1) by blast
qed

lemma encrypt_decrypt:
  assumes "codec_documented E" and "cipher_documented E" and "length n = 12"
    and "sw_token_encrypt_cookie_value E (Some n) s i = Some v" and "NUL \<notin> set i"
  shows "ts_secret s' = ts_secret s \<Longrightarrow> sw_token_decrypt_cookie_value E s' v = Some i"
    and "length v \<le> 127" and "list_all cookie_value_char v" and "NUL \<notin> set v"
proof -
  have i: "sw_session_id_is_valid (Some i)" "length i = 64"
    using assms(4,5) by (auto simp: sw_token_encrypt_cookie_value_def sw_session_id_is_valid_def cstr_ident split: if_splits)
  then obtain ct tag enc where seal: "gcm_seal E (ts_secret s) n i = Some (ct, tag)"
    and enc: "sw_base64url_encode E (n @ ct @ tag) = Some enc" and v: "v = ''v1.'' @ enc"
    using assms(4) by (auto simp: sw_token_encrypt_cookie_value_def split: option.splits if_splits)
  have l: "length ct = 64" "length tag = 16" "gcm_open E (ts_secret s) n ct tag = Some i"
    using assms(2) seal i(2) unfolding cipher_documented_def by metis+
  have size: "length (n @ ct @ tag) = 92" using assms(3) l by simp
  then have le: "length (n @ ct @ tag) \<le> 1000000000" by simp
  have t: "sw_base64url_decode E enc = Some (n @ ct @ tag)" "length enc \<le> 124" "list_all cookie_value_char enc" "NUL \<notin> set enc"
  proof -
    obtain x where x: "sw_base64url_encode E (n @ ct @ tag) = Some x" "sw_base64url_decode E x = Some (n @ ct @ tag)"
      "length x \<le> 4 * ((92 + 2) div 3)" "list_all cookie_value_char x" "NUL \<notin> set x"
      using base64url_decode_encode[OF assms(1) le, unfolded size] by (elim exE conjE)
    from x(1) enc have "x = enc" by simp
    with x show "sw_base64url_decode E enc = Some (n @ ct @ tag)" "length enc \<le> 124" "list_all cookie_value_char enc"
      "NUL \<notin> set enc" by simp_all
  qed
  have c: "cookie_value_char (CHR ''v'')" "cookie_value_char (CHR ''1'')" "cookie_value_char (CHR ''.'')"
    by (simp_all add: cookie_value_char_def byte_def)
  show "length v \<le> 127" "list_all cookie_value_char v" "NUL \<notin> set v" using t c by (auto simp: v)
  then have "cstr v = ''v1.'' @ enc" by (simp add: cstr_ident v)
  then show "sw_token_decrypt_cookie_value E s' v = Some i" if "ts_secret s' = ts_secret s"
    using that t(1) l i assms(3) by (simp add: sw_token_decrypt_cookie_value_def)
qed

lemma set_token_cookie_name:
  "set_token_cookie E nonce s c i = (True, c') \<Longrightarrow> cstr (ts_cookie_name s) \<noteq> []"
  by (auto simp: set_token_cookie_def sw_cookie_name_is_valid_def split: option.splits prod.splits
      dest!: set_cookie_valid_name)

lemma cookie_id_rendered:
  assumes "\<forall>p\<in>set ps. cookie_pair_ok p" and "map_of ps (cstr (ts_cookie_name s)) = Some v"
    and "cstr (ts_cookie_name s) \<noteq> []" and "0 < length v" and "length v < 512"
    and "hm_headers m = [\<lparr>hd_name = Some ''Cookie'', hd_value = Some (render_cookies ps)\<rparr>]"
    and "sw_token_decrypt_cookie_value E s v = Some i"
  shows "sw_tokens_cookie_id E s (Some m) = Cookie_id i"
proof -
  have ne: "ps \<noteq> []" using assms(2) by auto
  have "sw_http_get_cookie (Some m) (Some (ts_cookie_name s)) 512 = (int (length v), v)"
    using get_cookie_render[OF assms(1) ne _ assms(3,6), of 512] assms(5)
    by (simp add: lookup_result_def assms(2) i32_of_sz_small INT_MAX_def)
  then show ?thesis using assms(4,7) by (simp add: sw_tokens_cookie_id_def)
qed

lemma find_token_present:
  assumes "tokens_inv s" and "k < length (ts_tokens s)" and "t < tk_expires_at_ms (ts_tokens s ! k)"
  shows "\<exists>j s'. sw_tokens_find_id s (Some (tk_id (ts_tokens s ! k))) t = (Some j, s') \<and>
    j < length (ts_tokens s') \<and> tk_id (ts_tokens s' ! j) = tk_id (ts_tokens s ! k) \<and>
    tk_items (ts_tokens s' ! j) = tk_items (ts_tokens s ! k)"
proof -
  have "\<exists>j s'. sw_sessions_find_id (sessions_of s) (Some (ss_id (session_of (ts_tokens s ! k)))) t = (Some j, s') \<and>
      sn_sessions s' ! j = session_of (ts_tokens s ! k) \<and> j < length (sn_sessions s')"
    by (rule find_id_present[of "sessions_of s" k]) (use assms in \<open>auto simp: tokens_inv_def\<close>)
  then obtain j s' where f: "sw_tokens_find_id s (Some (tk_id (ts_tokens s ! k))) t = (Some j, s')"
    and n: "map session_of (ts_tokens s') ! j = session_of (ts_tokens s ! k)" "j < length (ts_tokens s')"
    by (auto simp: sessions_of_find_id map_prod_def split: prod.splits)
  from n have "session_of (ts_tokens s' ! j) = session_of (ts_tokens s ! k)" by simp
  then have "tk_id (ts_tokens s' ! j) = tk_id (ts_tokens s ! k)" "tk_items (ts_tokens s' ! j) = tk_items (ts_tokens s ! k)"
    by (simp_all add: session_of_def)
  with f n show ?thesis by blast
qed

section \<open>A reference codec and cipher\<close>

text \<open>The block codec of RFC 4648 and a transparent cipher, instances of the documented behaviour.\<close>

definition b64_alphabet :: string where
  "b64_alphabet = ''ABCDEFGHIJKLMNOPQRSTUVWXYZabcdefghijklmnopqrstuvwxyz0123456789+/''"

definition b64_digit :: "nat \<Rightarrow> char" where
  "b64_digit n = b64_alphabet ! n"

definition b64_value :: "char \<Rightarrow> nat" where
  "b64_value c = length (takeWhile (\<lambda>x. x \<noteq> c) b64_alphabet) mod 64"

fun b64_encode :: "string \<Rightarrow> string" where
  "b64_encode [] = []"
| "b64_encode [a] = [b64_digit (byte a div 4), b64_digit (byte a mod 4 * 16), CHR ''='', CHR ''='']"
| "b64_encode [a, b] = [b64_digit (byte a div 4), b64_digit (byte a mod 4 * 16 + byte b div 16),
     b64_digit (byte b mod 16 * 4), CHR ''='']"
| "b64_encode (a # b # c # s) = b64_digit (byte a div 4) # b64_digit (byte a mod 4 * 16 + byte b div 16) #
     b64_digit (byte b mod 16 * 4 + byte c div 64) # b64_digit (byte c mod 64) # b64_encode s"

fun b64_decode :: "string \<Rightarrow> string option" where
  "b64_decode [] = Some []"
| "b64_decode (p # q # r # t # s) = map_option (\<lambda>rest.
     char_of (b64_value p * 4 + b64_value q div 16) # char_of (b64_value q mod 16 * 16 + b64_value r div 4) #
     char_of (b64_value r mod 4 * 64 + b64_value t) # rest) (b64_decode s)"
| "b64_decode _ = None"

definition demo_evp :: evp where
  "demo_evp = \<lparr>EVP_EncodeBlock = b64_encode, EVP_DecodeBlock = b64_decode,
     gcm_seal = (\<lambda>k n p. Some (p, replicate 16 (CHR ''t''))),
     gcm_open = (\<lambda>k n c t. if t = replicate 16 (CHR ''t'') then Some c else None)\<rparr>"

lemma b64_alphabet_facts: "length b64_alphabet = 64" "distinct b64_alphabet" "list_all base64_char b64_alphabet"
  by (simp_all add: b64_alphabet_def base64_char_def isupper_def islower_def isdigit_def byte_def)

lemma takeWhile_distinct: "distinct xs \<Longrightarrow> n < length xs \<Longrightarrow> length (takeWhile (\<lambda>x. x \<noteq> xs ! n) xs) = n"
proof (induction xs arbitrary: n)
  case (Cons x xs)
  then show ?case by (cases n) auto
qed simp

lemma b64_digit_facts: "n < 64 \<Longrightarrow> base64_char (b64_digit n)" "n < 64 \<Longrightarrow> b64_value (b64_digit n) = n"
  using b64_alphabet_facts takeWhile_distinct[of b64_alphabet n]
  by (auto simp: b64_digit_def b64_value_def list_all_length)

lemma b64_value_pad: "b64_value (CHR ''='') = 0"
  by (simp add: b64_value_def b64_alphabet_def)

lemma sextets:
  assumes "x < 256" and "y < 256" and "z < (256::nat)"
  shows "x div 4 < 64" "x mod 4 * 16 + y div 16 < 64" "y mod 16 * 4 + z div 64 < 64" "z mod 64 < 64"
    "x mod 4 * 16 < 64" "y mod 16 * 4 < 64"
    "x div 4 * 4 + (x mod 4 * 16 + y div 16) div 16 = x"
    "(x mod 4 * 16 + y div 16) mod 16 * 16 + (y mod 16 * 4 + z div 64) div 4 = y"
    "(y mod 16 * 4 + z div 64) mod 4 * 64 + z mod 64 = z"
proof -
  have j: "u < m \<Longrightarrow> (a * m + u) div m = a \<and> (a * m + u) mod m = u" for a u m :: nat by simp
  have lt: "y div 16 < 16" "z div 64 < 4" "x mod 4 < 4" "y mod 16 < 16" using assms by (simp_all add: less_mult_imp_div_less)
  then show "x div 4 < 64" "x mod 4 * 16 + y div 16 < 64" "y mod 16 * 4 + z div 64 < 64" "z mod 64 < 64"
    "x mod 4 * 16 < 64" "y mod 16 * 4 < 64"
    using assms by (simp_all add: less_mult_imp_div_less)
  show "x div 4 * 4 + (x mod 4 * 16 + y div 16) div 16 = x"
    using j[OF lt(1), of "x mod 4"] by simp
  show "(x mod 4 * 16 + y div 16) mod 16 * 16 + (y mod 16 * 4 + z div 64) div 4 = y"
    using j[OF lt(1), of "x mod 4"] j[OF lt(2), of "y mod 16"] by simp
  show "(y mod 16 * 4 + z div 64) mod 4 * 64 + z mod 64 = z"
    using j[OF lt(2), of "y mod 16"] by simp
qed

lemma b64_decode_group:
  "b64_decode (b64_digit (byte a div 4) # b64_digit (byte a mod 4 * 16 + byte b div 16) #
     b64_digit (byte b mod 16 * 4 + byte c div 64) # b64_digit (byte c mod 64) # s) =
   map_option (\<lambda>rest. a # b # c # rest) (b64_decode s)"
  unfolding b64_decode.simps b64_digit_facts(2)[OF sextets(1)[OF byte_less byte_less byte_less]]
    b64_digit_facts(2)[OF sextets(2)[OF byte_less byte_less byte_less]]
    b64_digit_facts(2)[OF sextets(3)[OF byte_less byte_less byte_less]]
    b64_digit_facts(2)[OF sextets(4)[OF byte_less byte_less byte_less]]
    sextets(7-9)[OF byte_less byte_less byte_less] char_of_byte by simp

lemma b64_decode_encode: "b64_decode (b64_encode s) = Some (s @ replicate (pad_length (length s)) NUL)"
proof (induction s rule: b64_encode.induct)
  case (2 a)
  have "char_of 0 = NUL" by (simp add: char_of_eq_iff)
  then show ?case using sextets[of "byte a" 0 0]
    by (simp add: b64_digit_facts b64_value_pad pad_length_def numeral_2_eq_2)
next
  case (3 a b)
  have "char_of 0 = NUL" by (simp add: char_of_eq_iff)
  then show ?case using sextets[of "byte a" "byte b" 0]
    by (simp add: b64_digit_facts b64_value_pad pad_length_def)
next
  case (4 a b c s)
  have "pad_length (length (a # b # c # s)) = pad_length (length s)" by (simp add: pad_length_def numeral_3_eq_3[symmetric])
  then show ?case unfolding b64_encode.simps b64_decode_group 4 by simp
qed (simp add: pad_length_def)

lemma b64_encode_core:
  "\<exists>core. b64_encode s = core @ replicate (pad_length (length s)) (CHR ''='') \<and>
     length core + pad_length (length s) = 4 * ((length s + 2) div 3) \<and> list_all base64_char core"
proof (induction s rule: b64_encode.induct)
  case 1
  show ?case by (simp add: pad_length_def)
next
  case (2 a)
  show ?case using sextets[of "byte a" 0 0]
    by (intro exI[of _ "[b64_digit (byte a div 4), b64_digit (byte a mod 4 * 16)]"])
      (simp add: b64_digit_facts pad_length_def numeral_2_eq_2)
next
  case (3 a b)
  show ?case using sextets[of "byte a" "byte b" 0]
    by (intro exI[of _ "[b64_digit (byte a div 4), b64_digit (byte a mod 4 * 16 + byte b div 16),
        b64_digit (byte b mod 16 * 4)]"]) (simp add: b64_digit_facts pad_length_def)
next
  case (4 a b c s)
  then obtain core where core: "b64_encode s = core @ replicate (pad_length (length s)) (CHR ''='')"
    "length core + pad_length (length s) = 4 * ((length s + 2) div 3)" "list_all base64_char core" by blast
  have "pad_length (length (a # b # c # s)) = pad_length (length s)" by (simp add: pad_length_def numeral_3_eq_3[symmetric])
  moreover have "(length (a # b # c # s) + 2) div 3 = (length s + 2) div 3 + 1" by simp
  ultimately show ?case using core sextets[of "byte a" "byte b" "byte c"]
    by (intro exI[of _ "b64_digit (byte a div 4) # b64_digit (byte a mod 4 * 16 + byte b div 16) #
        b64_digit (byte b mod 16 * 4 + byte c div 64) # b64_digit (byte c mod 64) # core"]) (simp add: b64_digit_facts)
qed

lemma demo_codec: "codec_documented demo_evp"
  unfolding codec_documented_def using b64_encode_core b64_decode_encode by (fastforce simp: demo_evp_def)

lemma demo_cipher: "cipher_documented demo_evp"
  by (simp add: cipher_documented_def demo_evp_def)

lemma encrypt_demo:
  assumes "sw_session_id_is_valid (Some i)" and "NUL \<notin> set i" and "length n = 12"
  shows "\<exists>v. sw_token_encrypt_cookie_value demo_evp (Some n) s i = Some v"
proof -
  have "length (n @ take 64 i @ replicate 16 (CHR ''t'')) \<le> 1000000000" using assms(3) by simp
  from base64url_decode_encode[OF demo_codec this] obtain enc where
    "sw_base64url_encode demo_evp (n @ take 64 i @ replicate 16 (CHR ''t'')) = Some enc" by blast
  moreover have "length i = 64" using assms(1,2) by (simp add: sw_session_id_is_valid_def cstr_ident)
  moreover have "gcm_seal demo_evp k n p = Some (p, replicate 16 (CHR ''t''))" for k p by (simp add: demo_evp_def)
  ultimately show ?thesis using assms(1) by (simp add: sw_token_encrypt_cookie_value_def)
qed

text \<open>A first login, its identifier made of zero bytes, its nonce of \<open>n\<close>s.\<close>

definition demo_tokens :: sw_tokens where
  "demo_tokens = \<lparr>ts_tokens = [], ts_cookie_name = ''sw_token'', ts_cookie = hour_cookie, ts_ttl_seconds = 3600,
     ts_max_tokens = 1024, ts_max_items = 32, ts_secret = replicate 32 (CHR ''k'')\<rparr>"

definition demo_token :: sw_token where
  "demo_token = \<lparr>tk_id = replicate 64 (CHR ''0''), tk_items = [], tk_expires_at_ms = 3600000,
     tk_touched_at_ms = 0, tk_max_items = 32\<rparr>"

abbreviation demo_nonce :: string where "demo_nonce \<equiv> replicate 12 (CHR ''n'')"

abbreviation demo_connection :: sw_connection where
  "demo_connection \<equiv> new_connection 3 0 True False None 0 True 0"

lemma demo_tokens_reach: "tokens_reach demo_tokens"
proof -
  have "sw_tokens_create (Some (replicate 32 (CHR ''k''))) None = Some demo_tokens"
    by (simp add: sw_tokens_create_def Let_def sw_token_config_default_def demo_tokens_def sw_sessions_copy_cookie_def
        sw_http_cookie_default_def sw_strdup_cstr_eq cstr_def)
  then show ?thesis by (rule tokens_reach.create)
qed

lemma demo_id_valid: "sw_session_id_is_valid (Some (replicate 64 (CHR ''0'')))" "NUL \<notin> set (replicate 64 (CHR ''0''))"
  using generate_id_valid[OF demo_id] by simp_all

lemma demo_login:
  "\<exists>v c'. sw_token_encrypt_cookie_value demo_evp (Some demo_nonce) (demo_tokens\<lparr>ts_tokens := [demo_token]\<rparr>) (tk_id demo_token) = Some v \<and>
     sw_tokens_login demo_evp 0 (\<lambda>_. Some (replicate 32 0)) (Some demo_nonce) demo_tokens demo_connection empty_message None =
       (Some 0, demo_tokens\<lparr>ts_tokens := [demo_token]\<rparr>, c')"
proof -
  let ?s4 = "demo_tokens\<lparr>ts_tokens := [demo_token]\<rparr>"
  let ?i = "replicate 64 (CHR ''0'')"
  obtain v where v: "sw_token_encrypt_cookie_value demo_evp (Some demo_nonce) ?s4 ?i = Some v"
    using encrypt_demo[OF demo_id_valid, of demo_nonce] by auto
  have ck: "sw_tokens_cookie_id demo_evp demo_tokens (Some empty_message) = Cookie_absent"
    by (simp add: sw_tokens_cookie_id_def sw_http_get_cookie_def demo_tokens_def empty_message_def cstr_def)
  have c: "sw_tokens_cleanup_expired demo_tokens 0 = demo_tokens" "tokens_make_room demo_tokens = demo_tokens"
    by (simp_all add: sw_tokens_cleanup_expired_def cleanup_filter demo_tokens_def tokens_make_room.simps tokens_full_def)
  have "sw_tokens_find_id demo_tokens (Some ?i) 0 = (None, demo_tokens)"
    using c(1) by (simp add: sw_tokens_find_id_def token_index_def demo_tokens_def)
  then have "draw_token_id (Suc 15) (\<lambda>_. Some (replicate 32 0)) 0 0 demo_tokens = (Some ?i, demo_tokens)"
    by (simp only: draw_token_id.simps demo_id option.case prod.case)
  then have d: "draw_token_id 16 (\<lambda>_. Some (replicate 32 0)) 0 0 demo_tokens = (Some ?i, demo_tokens)" by simp
  have "list_all cookie_value_char v" "NUL \<notin> set v"
    using encrypt_decrypt[OF demo_codec demo_cipher _ v demo_id_valid(2)] by simp_all
  then have "sw_cookie_value_is_valid (Some v)" by (simp add: sw_cookie_value_is_valid_def cstr_ident)
  moreover have "sw_cookie_name_is_valid (Some ''sw_token'')"
    by (simp add: sw_cookie_name_is_valid_def cstr_def cookie_name_char_def isalnum_def islower_def isupper_def isdigit_def byte_def)
  ultimately obtain c' where "sw_http_set_cookie (Some demo_connection) (Some ''sw_token'') (Some v) (Some hour_cookie) = (0, Some c')"
    using set_cookie_default_ok[of "''sw_token''" v demo_connection] by (auto simp: new_connection_def)
  then have "set_token_cookie demo_evp (Some demo_nonce) ?s4 demo_connection ?i = (True, c')"
    using v by (simp add: set_token_cookie_def) (simp add: demo_tokens_def)
  moreover have "tk_id demo_token = ?i" by (simp add: demo_token_def)
  moreover have "\<lparr>tk_id = ?i, tk_items = [], tk_expires_at_ms = 0 + of_int (ts_ttl_seconds demo_tokens) * 1000,
      tk_touched_at_ms = 0, tk_max_items = ts_max_items demo_tokens\<rparr> = demo_token"
    by (simp add: demo_token_def demo_tokens_def)
  moreover have "ts_tokens demo_tokens = []" by (simp add: demo_tokens_def)
  ultimately show ?thesis using v
    by (intro exI[of _ v] exI[of _ c']) (simp add: sw_tokens_login_def ck c d Let_def)
qed

text \<open>The cookie of the first login, and the request that presents it.\<close>

definition demo_cookie :: string where
  "demo_cookie = the (sw_token_encrypt_cookie_value demo_evp (Some demo_nonce) (demo_tokens\<lparr>ts_tokens := [demo_token]\<rparr>) (tk_id demo_token))"

definition demo_request :: sw_http_message where
  "demo_request = empty_message\<lparr>hm_headers := [\<lparr>hd_name = Some ''Cookie'',
     hd_value = Some (render_cookies [(''sw_token'', demo_cookie)])\<rparr>]\<rparr>"

lemma demo_request_headers:
  "hm_headers demo_request = [\<lparr>hd_name = Some ''Cookie'', hd_value = Some (render_cookies [(''sw_token'', demo_cookie)])\<rparr>]"
  by (simp add: demo_request_def del: render_cookies.simps)

lemma demo_cookie_ok:
  "sw_token_encrypt_cookie_value demo_evp (Some demo_nonce) (demo_tokens\<lparr>ts_tokens := [demo_token]\<rparr>) (tk_id demo_token) = Some demo_cookie"
  "\<forall>p\<in>set [(''sw_token'', demo_cookie)]. cookie_pair_ok p" "0 < length demo_cookie" "length demo_cookie < 512"
proof -
  show v: "sw_token_encrypt_cookie_value demo_evp (Some demo_nonce) (demo_tokens\<lparr>ts_tokens := [demo_token]\<rparr>) (tk_id demo_token) = Some demo_cookie"
    using demo_login by (auto simp: demo_cookie_def)
  then show "0 < length demo_cookie" by (auto simp: sw_token_encrypt_cookie_value_def split: if_splits option.splits)
  have "NUL \<notin> set (tk_id demo_token)" using demo_id_valid(2) by (simp add: demo_token_def)
  note ed = encrypt_decrypt[OF demo_codec demo_cipher _ v this]
  then show "length demo_cookie < 512" by simp
  show "\<forall>p\<in>set [(''sw_token'', demo_cookie)]. cookie_pair_ok p" using ed(3,4)
    by (simp add: cookie_pair_ok_def sw_cookie_value_is_valid_def sw_cookie_name_is_valid_def cstr_ident
        cookie_name_char_def isalnum_def islower_def isupper_def isdigit_def byte_def)
qed

lemma demo_current:
  "\<exists>k s'. sw_tokens_current demo_evp 5 None (demo_tokens\<lparr>ts_tokens := [demo_token]\<rparr>) None
     (Some demo_request) =
     (Some k, s', None)"
proof -
  let ?s = "demo_tokens\<lparr>ts_tokens := [demo_token]\<rparr>"
  have nul: "NUL \<notin> set (tk_id demo_token)" using demo_id_valid(2) by (simp add: demo_token_def)
  have "sw_token_decrypt_cookie_value demo_evp ?s demo_cookie = Some (tk_id demo_token)"
    by (rule encrypt_decrypt(1)[OF demo_codec demo_cipher _ demo_cookie_ok(1) nul]) simp_all
  from cookie_id_rendered[OF demo_cookie_ok(2) _ _ demo_cookie_ok(3,4) demo_request_headers this]
  have ck: "sw_tokens_cookie_id demo_evp ?s (Some demo_request) = Cookie_id (tk_id demo_token)"
    by (simp add: demo_tokens_def cstr_def)
  have v: "sw_session_id_is_valid (Some (tk_id demo_token))" using demo_id_valid(1) by (simp add: demo_token_def)
  have "cleanup_loop tk_expires_at_ms 5 0 [demo_token] = [demo_token]" by (simp add: cleanup_filter demo_token_def)
  then have "sw_tokens_find_id ?s (Some (tk_id demo_token)) 5 = (Some 0, ?s)"
    using v nul by (simp add: sw_tokens_find_id_def sw_tokens_cleanup_expired_def token_index_def cstr_ident)
  then show ?thesis by (simp add: sw_tokens_current_def ck)
qed

section \<open>Properties\<close>

text \<open>
  C22. Token store invariant: in every state the operations can reach, whatever the cipher returns,
  there are at most \<open>ts_max_tokens\<close> tokens, with pairwise distinct valid identifiers, each expiring
  one lifetime after its last use, with at most \<open>ts_max_items\<close> items under distinct keys.
\<close>

theorem tokens_invariant:
  assumes "tokens_reach s"
  shows "length (ts_tokens s) \<le> ts_max_tokens s \<and> distinct (map tk_id (ts_tokens s)) \<and>
    list_all (\<lambda>x. sw_session_id_is_valid (Some (tk_id x)) \<and>
      tk_expires_at_ms x = tk_touched_at_ms x + of_int (ts_ttl_seconds s) * 1000 \<and>
      length (tk_items x) \<le> ts_max_items s \<and> distinct (map fst (tk_items x))) (ts_tokens s)"
proof -
  have "ss_id \<circ> session_of = tk_id" by (simp add: fun_eq_iff)
  then show ?thesis using tokens_reach_inv[OF assms]
    by (auto simp: tokens_inv_def sessions_inv_def session_store.store_ok_def list_all_iff session_ok_def items_ok_def)
qed

theorem tokens_invariant_witness:
  "1 \<le> ts_max_tokens demo_tokens \<and> sw_session_id_is_valid (Some (tk_id demo_token)) \<and>
   tk_expires_at_ms demo_token = tk_touched_at_ms demo_token + of_int (ts_ttl_seconds demo_tokens) * 1000"
proof -
  obtain c' where "sw_tokens_login demo_evp 0 (\<lambda>_. Some (replicate 32 0)) (Some demo_nonce) demo_tokens demo_connection empty_message None =
       (Some 0, demo_tokens\<lparr>ts_tokens := [demo_token]\<rparr>, c')" using demo_login by auto
  from tokens_invariant[OF tokens_reach.login[OF demo_tokens_reach this]] show ?thesis by simp
qed

text \<open>
  C23. Login round trip: after a successful login, a later request whose Cookie header carries the value
  login sealed, among any other cookies, is recognised as that token until its lifetime is over,
  with the items the token had.
\<close>

theorem token_roundtrip:
  assumes "codec_documented E" and "cipher_documented E" and "length n = 12" and "tokens_reach s"
    and "sw_tokens_login E now rnd (Some n) s c hm user = (Some k, s', c')"
    and "sw_token_encrypt_cookie_value E (Some n) s' (tk_id (ts_tokens s' ! k)) = Some v"
    and "t < now + of_int (ts_ttl_seconds s') * 1000"
    and "\<forall>p\<in>set ps. cookie_pair_ok p" and "map_of ps (cstr (ts_cookie_name s')) = Some v"
    and "hm_headers m = [\<lparr>hd_name = Some ''Cookie'', hd_value = Some (render_cookies ps)\<rparr>]"
  shows "\<exists>j s''. sw_tokens_current E t nonce s' None (Some m) = (Some j, s'', None) \<and>
    tk_id (ts_tokens s'' ! j) = tk_id (ts_tokens s' ! k) \<and> tk_items (ts_tokens s'' ! j) = tk_items (ts_tokens s' ! k)"
proof -
  note lg = login_cases[OF tokens_reach_inv[OF assms(4)] assms(5)]
  then have k: "tokens_inv s'" "k < length (ts_tokens s')" "t < tk_expires_at_ms (ts_tokens s' ! k)"
    "cstr (ts_cookie_name s') \<noteq> []" using assms(7) set_token_cookie_name by auto
  then have nul: "NUL \<notin> set (tk_id (ts_tokens s' ! k))"
    by (auto simp: tokens_inv_def sessions_inv_def session_store.store_ok_def session_ok_def)
  note ed = encrypt_decrypt[OF assms(1-3,6) nul]
  have "v \<noteq> []" using assms(6) by (auto simp: sw_token_encrypt_cookie_value_def split: if_splits option.splits)
  then have "sw_tokens_cookie_id E s' (Some m) = Cookie_id (tk_id (ts_tokens s' ! k))"
    using cookie_id_rendered[OF assms(8,9) k(4) _ _ assms(10)] ed(1)[OF refl] ed(2) by simp
  moreover obtain j s1 where f: "sw_tokens_find_id s' (Some (tk_id (ts_tokens s' ! k))) t = (Some j, s1)"
    "j < length (ts_tokens s1)" "tk_id (ts_tokens s1 ! j) = tk_id (ts_tokens s' ! k)"
    "tk_items (ts_tokens s1 ! j) = tk_items (ts_tokens s' ! k)"
    using find_token_present[OF k(1-3)] by blast
  ultimately show ?thesis by (simp add: sw_tokens_current_def touch_token_def Let_def)
qed

theorem token_roundtrip_witness:
  "\<exists>j s''. sw_tokens_current demo_evp 5 None (demo_tokens\<lparr>ts_tokens := [demo_token]\<rparr>) None
     (Some demo_request) =
     (Some j, s'', None) \<and> tk_id (ts_tokens s'' ! j) = tk_id demo_token"
proof -
  let ?s' = "demo_tokens\<lparr>ts_tokens := [demo_token]\<rparr>"
  obtain c' where lg: "sw_tokens_login demo_evp 0 (\<lambda>_. Some (replicate 32 0)) (Some demo_nonce) demo_tokens demo_connection empty_message None =
       (Some 0, ?s', c')" using demo_login by auto
  have v: "sw_token_encrypt_cookie_value demo_evp (Some demo_nonce) ?s' (tk_id (ts_tokens ?s' ! 0)) = Some demo_cookie"
    using demo_cookie_ok(1) by simp
  have time: "5 < 0 + of_int (ts_ttl_seconds ?s') * (1000::real)" by (simp add: demo_tokens_def)
  have look: "map_of [(''sw_token'', demo_cookie)] (cstr (ts_cookie_name ?s')) = Some demo_cookie"
    by (simp add: demo_tokens_def cstr_def)
  have n: "length demo_nonce = 12" by simp
  from token_roundtrip[OF demo_codec demo_cipher n demo_tokens_reach lg v time demo_cookie_ok(2) look demo_request_headers, of None]
  show ?thesis by auto
qed

text \<open>
  C24. Authenticity: a request is recognised as a token only when its cookie is the base64url form of a
  nonce, a ciphertext and a tag that sealing the token's identifier under the store's own secret
  produces, and the token is in the store and was not expired.
\<close>

theorem token_authentic:
  assumes "cipher_documented E" and "sw_tokens_current E now nonce s c (Some m) = (Some k, s', c')"
  shows "\<exists>len v n ct tag. sw_http_get_cookie (Some m) (Some (ts_cookie_name s)) 512 = (len, v) \<and>
    sw_base64url_decode E (drop 3 (cstr v)) = Some (n @ ct @ tag) \<and> length n = 12 \<and>
    gcm_seal E (ts_secret s) n (tk_id (ts_tokens s' ! k)) = Some (ct, tag) \<and>
    tk_expires_at_ms (ts_tokens s' ! k) = now + of_int (ts_ttl_seconds s') * 1000 \<and>
    tk_id (ts_tokens s' ! k) \<in> tk_id ` {x \<in> set (ts_tokens s). now < tk_expires_at_ms x}"
proof -
  obtain len v where gc: "sw_http_get_cookie (Some m) (Some (ts_cookie_name s)) 512 = (len, v)" by fastforce
  obtain i s1 where i: "sw_tokens_cookie_id E s (Some m) = Cookie_id i" and f: "sw_tokens_find_id s (Some i) now = (Some k, s1)"
    and s': "s' = touch_token s1 k now"
    using assms(2) by (auto simp: sw_tokens_current_def Let_def split: cookie_status.splits option.splits prod.splits if_splits)
  have dec: "sw_token_decrypt_cookie_value E s v = Some i"
    using i by (auto simp: sw_tokens_cookie_id_def gc split: if_splits option.splits)
  then obtain d where d: "sw_base64url_decode E (drop 3 (cstr v)) = Some d" "length d = 92"
    "gcm_open E (ts_secret s) (take 12 d) (take 64 (drop 12 d)) (drop 76 d) = Some i" "sw_session_id_is_valid (Some i)" "length i = 64"
    by (auto simp: sw_token_decrypt_cookie_value_def split: if_splits option.splits)
  have parts: "d = take 12 d @ take 64 (drop 12 d) @ drop 76 d"
  proof -
    have "drop 76 d = drop 64 (drop 12 d)" by simp
    then show ?thesis by (simp only: append_take_drop_id)
  qed
  have "length (cstr i) = length i" using d(4,5) by (simp add: sw_session_id_is_valid_def)
  then have cs: "cstr i = i" unfolding cstr_def by (metis takeWhile_eq_take take_all order_refl)
  have ix: "token_index i (ts_tokens s1) = Some k" and s1: "s1 = sw_tokens_cleanup_expired s now"
    using f cs by (auto simp: sw_tokens_find_id_def Let_def split: if_splits)
  have k: "k < length (ts_tokens s1)" "tk_id (ts_tokens s1 ! k) = i" using ix by (simp_all add: token_index_def index_of_Some)
  then have "ts_tokens s1 ! k \<in> {x \<in> set (ts_tokens s). now < tk_expires_at_ms x}"
    using nth_mem[OF k(1)] by (simp add: s1 sw_tokens_cleanup_expired_def cleanup_filter)
  then have mem: "i \<in> tk_id ` {x \<in> set (ts_tokens s). now < tk_expires_at_ms x}" using k(2) by blast
  have seal: "gcm_seal E (ts_secret s) (take 12 d) i = Some (take 64 (drop 12 d), drop 76 d)"
    using assms(1) d(3) unfolding cipher_documented_def by blast
  have tok: "tk_id (ts_tokens s' ! k) = i" "tk_expires_at_ms (ts_tokens s' ! k) = now + of_int (ts_ttl_seconds s') * 1000"
    using k by (simp_all add: s' touch_token_def)
  have dd: "sw_base64url_decode E (drop 3 (cstr v)) = Some (take 12 d @ take 64 (drop 12 d) @ drop 76 d)" "length (take 12 d) = 12"
    using d(1,2) parts by simp_all
  show ?thesis unfolding tok using gc mem seal dd by blast
qed

theorem token_authentic_witness:
  "\<exists>k s' n ct tag. sw_tokens_current demo_evp 5 None (demo_tokens\<lparr>ts_tokens := [demo_token]\<rparr>) None
       (Some demo_request) =
       (Some k, s', None) \<and>
     length n = 12 \<and> gcm_seal demo_evp (ts_secret demo_tokens) n (tk_id (ts_tokens s' ! k)) = Some (ct, tag)"
proof -
  obtain k s' where "sw_tokens_current demo_evp 5 None (demo_tokens\<lparr>ts_tokens := [demo_token]\<rparr>) None
       (Some demo_request) =
       (Some k, s', None)" using demo_current by blast
  with token_authentic[OF demo_cipher this] show ?thesis by fastforce
qed

text \<open>
  base64url round trip: whatever is encoded is decoded back, and the encoding consists of characters
  a cookie value may have.
\<close>

theorem base64url_roundtrip:
  assumes "codec_documented E" and "length data \<le> 1000000000"
  shows "\<exists>s. sw_base64url_encode E data = Some s \<and> sw_base64url_decode E s = Some data \<and>
    sw_cookie_value_is_valid (Some s)"
proof -
  obtain s where "sw_base64url_encode E data = Some s" "sw_base64url_decode E s = Some data"
    "list_all cookie_value_char s" "NUL \<notin> set s" using base64url_decode_encode[OF assms] by blast
  then show ?thesis by (auto simp: sw_cookie_value_is_valid_def cstr_ident)
qed

theorem base64url_roundtrip_witness:
  "\<exists>s. sw_base64url_encode demo_evp ''>>>?'' = Some s \<and> sw_base64url_decode demo_evp s = Some ''>>>?''"
  using base64url_roundtrip[OF demo_codec, of "''>>>?''"] by auto

end
