(* ===== verification/Database.thy ===== *)
theory Database
  imports Utility
begin

text \<open>
  What the database drivers share, \<^verbatim>\<open>src/src/sw_db.c\<close> and \<^verbatim>\<open>src/src/sw_db_internal.h\<close>: the
  database object, its error text, and the numbers read back from text. The driver's handle is a
  type parameter; a message is the text \<^verbatim>\<open>vsnprintf\<close> makes of its format and arguments. The
  process-wide error text is passed along where it is written.
\<close>

datatype sw_db_driver = SW_DB_DRIVER_NONE | SW_DB_DRIVER_SQLITE | SW_DB_DRIVER_POSTGRES

datatype sw_db_result = SW_DB_ERROR | SW_DB_DONE | SW_DB_ROW

datatype sw_db_value_type =
  SW_DB_VALUE_NULL | SW_DB_VALUE_INTEGER | SW_DB_VALUE_FLOAT | SW_DB_VALUE_TEXT | SW_DB_VALUE_BLOB

record sw_db_config =
  dc_url :: cptr
  dc_busy_timeout_ms :: int

record 'h sw_db =
  db_driver :: sw_db_driver
  db_handle :: "'h option"
  db_url :: string
  db_error :: string

definition sw_db_vset_error :: "nat \<Rightarrow> cptr \<Rightarrow> string" where
  "sw_db_vset_error buffer_len message =
     (case message of None \<Rightarrow> [] | Some m \<Rightarrow> take (buffer_len - 1) (cstr m))"

text \<open>The error text of an object; with a NULL object the process-wide text is written instead.\<close>

definition set_db_error :: "cptr \<Rightarrow> 'h sw_db \<Rightarrow> 'h sw_db" where
  "set_db_error message db = db\<lparr>db_error := sw_db_vset_error 512 message\<rparr>"

definition sw_db_set_error :: "'h sw_db option \<Rightarrow> cptr \<Rightarrow> string \<Rightarrow> 'h sw_db option \<times> string" where
  "sw_db_set_error db message global_error =
     (case db of
        Some d \<Rightarrow> (Some (set_db_error message d), global_error)
      | None \<Rightarrow> (None, sw_db_vset_error 512 message))"

definition sw_db_set_global_error :: "cptr \<Rightarrow> string" where
  "sw_db_set_global_error message = sw_db_vset_error 512 message"

definition sw_db_alloc :: "sw_db_driver \<Rightarrow> cptr \<Rightarrow> 'h \<Rightarrow> 'h sw_db" where
  "sw_db_alloc driver url handle =
     \<lparr>db_driver = driver, db_handle = Some handle, db_url = (case url of None \<Rightarrow> [] | Some u \<Rightarrow> cstr u), db_error = []\<rparr>"

definition sw_db_config_default :: sw_db_config where
  "sw_db_config_default = \<lparr>dc_url = Some ''sqlite://:memory:'', dc_busy_timeout_ms = 5000\<rparr>"

lemma set_db_error_simps [simp]:
  "db_handle (set_db_error m db) = db_handle db"
  "db_driver (set_db_error m db) = db_driver db"
  "db_url (set_db_error m db) = db_url db"
  by (simp_all add: set_db_error_def)

text \<open>Error texts always fit their buffer with the terminator.\<close>

lemma error_text_fits: "length (db_error (set_db_error m db)) < 512"
  by (auto simp: set_db_error_def sw_db_vset_error_def min_less_iff_disj split: option.split)

section \<open>Numbers in texts\<close>

text \<open>\<^verbatim>\<open>%lld\<close>, and \<^verbatim>\<open>strtoll\<close> with base 10: its value and whether there was a digit.\<close>

definition lld_text :: "int \<Rightarrow> string" where
  "lld_text i = (if i < 0 then CHR ''-'' # dec_of (nat (- i)) else dec_of (nat i))"

definition digits_value :: "string \<Rightarrow> int" where
  "digits_value ds = foldl (\<lambda>n c. 10 * n + (int (byte c) - 48)) 0 ds"

definition clamp64 :: "int \<Rightarrow> int" where
  "clamp64 n = max (- (2 ^ 63)) (min (2 ^ 63 - 1) n)"

definition strtoll10 :: "string \<Rightarrow> int \<times> bool" where
  "strtoll10 s =
     (let t = dropWhile isspace (cstr s);
          negative = (t \<noteq> [] \<and> hd t = CHR ''-'');
          body = (if t \<noteq> [] \<and> (hd t = CHR ''-'' \<or> hd t = CHR ''+'') then tl t else t);
          ds = takeWhile isdigit body;
          n = digits_value ds
      in (clamp64 (if negative then - n else n), ds \<noteq> []))"

lemma digits_value_snoc: "digits_value (ds @ [c]) = 10 * digits_value ds + (int (byte c) - 48)"
  by (simp add: digits_value_def)

lemma digits_value_dec_of: "digits_value (dec_of n) = int n"
proof (induction n rule: dec_of.induct)
  case (1 n)
  have b: "byte (char_of (48 + k)) = 48 + k" if "k < 10" for k
    using that by (simp add: byte_char_of)
  show ?case
  proof (cases "n < 10")
    case True
    then show ?thesis by (subst dec_of.simps) (simp add: digits_value_def b)
  next
    case False
    then have "digits_value (dec_of n) = 10 * int (n div 10) + int (n mod 10)"
      using 1 by (subst dec_of.simps) (simp add: digits_value_snoc b)
    also have "\<dots> = int n" by presburger
    finally show ?thesis .
  qed
qed

text \<open>An integer printed for the server is read back as itself.\<close>

lemma strtoll_lld_text:
  assumes "- (2 ^ 63) \<le> i" "i < 2 ^ 63"
  shows "strtoll10 (lld_text i) = (i, True)"
proof -
  have d: "\<forall>c\<in>set (dec_of n). isdigit c" "dec_of n \<noteq> []" for n
    using dec_of_isdigit dec_of_not_Nil by auto
  have sp: "\<not> isspace c \<and> c \<noteq> NUL \<and> c \<noteq> CHR ''-'' \<and> c \<noteq> CHR ''+''" if "isdigit c" for c
    using that isdigit_not_space by (auto simp: isdigit_def byte_def)
  have tw: "takeWhile isdigit (dec_of n) = dec_of n" for n
    using d(1) by simp
  have nn: "NUL \<notin> set (dec_of n)" for n using d(1) sp by blast
  have hd: "hd (dec_of n) \<noteq> CHR ''-'' \<and> hd (dec_of n) \<noteq> CHR ''+'' \<and> \<not> isspace (hd (dec_of n))" for n
    using d sp by (meson hd_in_set)
  have dw: "dropWhile isspace (dec_of n) = dec_of n" for n
    using hd[of n] d(2)[of n] by (cases "dec_of n") auto
  have m: "\<not> isspace (CHR ''-'')" by (simp add: isspace_def byte_def)
  show ?thesis
  proof (cases "i < 0")
    case True
    have "cstr (CHR ''-'' # dec_of (nat (- i))) = CHR ''-'' # dec_of (nat (- i))" using nn by (simp add: cstr_ident)
    with True assms show ?thesis using m d(2)
      by (simp add: tw strtoll10_def lld_text_def Let_def digits_value_dec_of clamp64_def)
  next
    case False
    with assms show ?thesis using nn hd d(2)
      by (simp add: tw dw strtoll10_def lld_text_def Let_def digits_value_dec_of clamp64_def cstr_ident)
  qed
qed

section \<open>The contract of a statement\<close>

text \<open>
  What the facade relies on in both drivers: only indexes in range are bound, and a value comes only
  from a column there is.
\<close>

locale bounded_statement =
  fixes bind_text :: "'st \<Rightarrow> nat \<Rightarrow> cptr \<Rightarrow> int \<times> 'st"
    and parameter_count :: "'st \<Rightarrow> nat"
    and column_count :: "'st \<Rightarrow> nat"
    and column_text :: "'st \<Rightarrow> nat \<Rightarrow> cptr"
    and column_type :: "'st \<Rightarrow> nat \<Rightarrow> sw_db_value_type"
  assumes bind_range: "fst (bind_text st i v) = 0 \<Longrightarrow> 0 < i \<and> i \<le> parameter_count st"
    and text_range: "column_text st i \<noteq> None \<Longrightarrow> i < column_count st"
    and type_range: "column_type st i \<noteq> SW_DB_VALUE_NULL \<Longrightarrow> i < column_count st"
begin

lemma checked:
  "(i = 0 \<or> parameter_count st < i \<longrightarrow> fst (bind_text st i v) \<noteq> 0)
   \<and> (column_count st \<le> i \<longrightarrow> column_text st i = None \<and> column_type st i = SW_DB_VALUE_NULL)"
  using bind_range[of st i v] text_range[of st i] type_range[of st i] by fastforce

text \<open>Reading more columns than there are gives NULL for the rest.\<close>

lemma read_columns:
  assumes "column_count st \<le> n"
  shows "map (column_text st) [0..<n] =
    map (column_text st) [0..<column_count st] @ replicate (n - column_count st) None"
proof -
  have "[0..<n] = [0..<column_count st] @ [column_count st..<n]"
    using assms by (metis le0 le_Suc_ex upt_add_eq_append)
  moreover have "map (column_text st) [column_count st..<n] = replicate (n - column_count st) None"
    using checked by (intro nth_equalityI) auto
  ultimately show ?thesis by simp
qed

end

end
