(* ===== verification/SqlRewrite.thy ===== *)
theory SqlRewrite
  imports HttpText
begin

text \<open>
  The placeholder rewriting of the PostgreSQL driver, \<^verbatim>\<open>src/src/sw_db_postgres.c\<close>: \<^verbatim>\<open>?\<close> becomes
  \<^verbatim>\<open>$1\<close>, \<^verbatim>\<open>$2\<close>, ... outside string literals, quoted identifiers, comments and dollar quotes. The
  position in the text is the text that remains; the byte behind the last one is the terminator, so
  a look ahead at the end finds nothing. The output buffer is its contents; the buffer itself, with
  its capacity, comes first.
\<close>

section \<open>The output buffer\<close>

record sw_pg_buffer =
  pb_text :: string
  pb_cap :: nat

function grow_cap :: "nat \<Rightarrow> nat \<Rightarrow> nat" where
  "grow_cap next_cap needed =
     (if next_cap < needed then
        if next_cap = 0 \<or> next_cap > SIZE_MAX div 2 then needed else grow_cap (next_cap * 2) needed
      else next_cap)"
  by pat_completeness auto
termination by (relation "measure (\<lambda>(next_cap, needed). needed - next_cap)") auto

declare grow_cap.simps [simp del]

definition sw_pg_buffer_append :: "sw_pg_buffer \<Rightarrow> string \<Rightarrow> bool \<times> sw_pg_buffer" where
  "sw_pg_buffer_append b appended =
     (if appended = [] then (True, b)
      else if length (pb_text b) > sz_sub (sz_sub SIZE_MAX (length appended)) 1 then (False, b)
      else
        let needed = length (pb_text b) + length appended + 1;
            next_cap = (if pb_cap b > 0 then pb_cap b * 2 else 128);
            cap = (if needed > pb_cap b then grow_cap next_cap needed else pb_cap b)
        in (True, \<lparr>pb_text = pb_text b @ appended, pb_cap = cap\<rparr>))"

lemma grow_cap_ge: "needed \<le> grow_cap next_cap needed"
  by (induction next_cap needed rule: grow_cap.induct) (subst grow_cap.simps, auto)

text \<open>Appending keeps room for the text and its terminator.\<close>

lemma buffer_append:
  assumes "length (pb_text b) + length t < SIZE_MAX" "pb_text b = [] \<or> length (pb_text b) < pb_cap b"
  shows "fst (sw_pg_buffer_append b t) \<and> pb_text (snd (sw_pg_buffer_append b t)) = pb_text b @ t
    \<and> (pb_text b @ t = [] \<or> length (pb_text b @ t) < pb_cap (snd (sw_pg_buffer_append b t)))"
proof -
  have "sz_sub (sz_sub SIZE_MAX (length t)) 1 = SIZE_MAX - length t - 1" using assms(1)
    by (simp add: sz_sub_le)
  then show ?thesis
    using assms grow_cap_ge[of "length (pb_text b) + length t + 1" "if pb_cap b > 0 then pb_cap b * 2 else 128"]
    by (auto simp: sw_pg_buffer_append_def Let_def)
qed

section \<open>The scanner\<close>

definition isalpha :: "char \<Rightarrow> bool" where
  "isalpha c \<longleftrightarrow> isupper c \<or> islower c"

definition is_tag_char :: "char \<Rightarrow> bool" where
  "is_tag_char c \<longleftrightarrow> isalnum c \<or> c = CHR ''_''"

definition sw_pg_dollar_quote_len :: "string \<Rightarrow> nat" where
  "sw_pg_dollar_quote_len sql =
     (case sql of
        [] \<Rightarrow> 0
      | c # s \<Rightarrow>
          if c \<noteq> CHR ''$'' \<or> s = [] then 0
          else if hd s = CHR ''$'' then 2
          else if \<not> (isalpha (hd s) \<or> hd s = CHR ''_'') then 0
          else
            let tag = takeWhile is_tag_char s; rest = dropWhile is_tag_char s in
            if rest \<noteq> [] \<and> hd rest = CHR ''$'' then length tag + 2 else 0)"

text \<open>Copying up to and with an end mark: the output and what remains.\<close>

fun sw_pg_copy_until :: "string \<Rightarrow> string \<Rightarrow> string \<Rightarrow> string \<times> string" where
  "sw_pg_copy_until end_mark out [] = (out, [])"
| "sw_pg_copy_until end_mark out (c # s) =
     (if length end_mark > 0 \<and> take (length end_mark) (c # s) = end_mark
      then (out @ end_mark, drop (length end_mark) (c # s))
      else sw_pg_copy_until end_mark (out @ [c]) s)"

text \<open>The inside of a literal or quoted identifier, up to and with its closing quote.\<close>

fun copy_quoted :: "char \<Rightarrow> bool \<Rightarrow> string \<Rightarrow> string \<Rightarrow> string \<times> string" where
  "copy_quoted q escape_string out [] = (out, [])"
| "copy_quoted q escape_string out (c # s) =
     (if escape_string \<and> c = BSL \<and> s \<noteq> [] then copy_quoted q escape_string (out @ [c, hd s]) (tl s)
      else if c = q \<and> s \<noteq> [] \<and> hd s = q then copy_quoted q escape_string (out @ [c, hd s]) (tl s)
      else if c = q then (out @ [c], s)
      else copy_quoted q escape_string (out @ [c]) s)"

fun copy_line :: "string \<Rightarrow> string \<Rightarrow> string \<times> string" where
  "copy_line out [] = (out, [])"
| "copy_line out (c # s) = (if c = LF then (out, c # s) else copy_line (out @ [c]) s)"

lemma copy_until_length: "(out', s') = sw_pg_copy_until m out s \<Longrightarrow> length s' \<le> length s"
  by (induction m out s rule: sw_pg_copy_until.induct) (force split: if_splits)+

lemma copy_quoted_length: "(out', s') = copy_quoted q e out s \<Longrightarrow> length s' \<le> length s"
  by (induction q e out s rule: copy_quoted.induct) (force split: if_splits)+

lemma copy_line_length: "(out', s') = copy_line out s \<Longrightarrow> length s' \<le> length s"
  by (induction out s rule: copy_line.induct) (force split: if_splits)+

lemma dollar_quote_len_bounds:
  assumes "0 < sw_pg_dollar_quote_len s"
  shows "2 \<le> sw_pg_dollar_quote_len s \<and> sw_pg_dollar_quote_len s \<le> length s"
proof -
  from assms obtain c t where s: "s = c # t" by (cases s) (simp_all add: sw_pg_dollar_quote_len_def)
  have t: "t \<noteq> []" using assms by (auto simp: s sw_pg_dollar_quote_len_def)
  have l: "length (takeWhile is_tag_char t) + length (dropWhile is_tag_char t) = length t"
    by (metis length_append takeWhile_dropWhile_id)
  have k: "length (takeWhile is_tag_char t) + 2 \<le> length s" if "dropWhile is_tag_char t \<noteq> []"
    using l that by (cases "dropWhile is_tag_char t") (simp_all add: s)
  have "2 \<le> length s" using t by (cases t) (simp_all add: s)
  with assms k show ?thesis
    unfolding s sw_pg_dollar_quote_len_def list.case Let_def
    by (auto split: if_splits simp del: dropWhile_eq_Nil_conv)
qed

function rewrite_loop :: "string \<Rightarrow> nat \<Rightarrow> string \<Rightarrow> (string \<times> nat) option" where
  "rewrite_loop out params [] = Some (out, params)"
| "rewrite_loop out params (c # s) =
     (if c = SQ \<or> ((c = CHR ''E'' \<or> c = CHR ''e'') \<and> s \<noteq> [] \<and> hd s = SQ) then
        (let escape_string = (c \<noteq> SQ);
             (out1, s1) = (if escape_string then copy_quoted SQ True (out @ [c, hd s]) (tl s)
                           else copy_quoted SQ False (out @ [c]) s)
         in rewrite_loop out1 params s1)
      else if c = DQ then (let (out1, s1) = copy_quoted DQ False (out @ [c]) s in rewrite_loop out1 params s1)
      else if c = CHR ''-'' \<and> s \<noteq> [] \<and> hd s = CHR ''-'' then
        (let (out1, s1) = copy_line (out @ [c, hd s]) (tl s) in rewrite_loop out1 params s1)
      else if c = CHR ''/'' \<and> s \<noteq> [] \<and> hd s = CHR ''*'' then
        (let (out1, s1) = sw_pg_copy_until ''*/'' (out @ [c, hd s]) (tl s) in rewrite_loop out1 params s1)
      else if sw_pg_dollar_quote_len (c # s) > 0 then
        (let n = sw_pg_dollar_quote_len (c # s);
             quote = take n (c # s);
             (out1, s1) = sw_pg_copy_until quote (out @ quote) (drop n (c # s))
         in rewrite_loop out1 params s1)
      else if c = CHR ''?'' then
        if params = INT_MAX then None
        else rewrite_loop (out @ CHR ''$'' # dec_of (params + 1)) (params + 1) s
      else rewrite_loop (out @ [c]) params s)"
  by pat_completeness auto
termination
proof (relation "measure (\<lambda>(out, params, s). length s)", goal_cases)
  case (2 out params c s e x out1 s1)
  then show ?case
    by (cases "c = SQ") (auto dest!: copy_quoted_length simp: neq_Nil_conv)
next
  case (3 out params c s x out1 s1)
  then show ?case by (auto dest!: copy_quoted_length)
next
  case (4 out params c s x out1 s1)
  then show ?case by (auto dest!: copy_line_length simp: neq_Nil_conv)
next
  case (5 out params c s x out1 s1)
  then show ?case by (auto dest!: copy_until_length simp: neq_Nil_conv)
next
  case (6 out params c s n quote x out1 s1)
  then have "length s1 \<le> length (drop n (c # s))"
    using copy_until_length[of out1 s1 quote "out @ quote" "drop n (c # s)"] by simp
  moreover have "2 \<le> n" using 6 dollar_quote_len_bounds[of "c # s"] by simp
  ultimately show ?case by (cases n) auto
qed auto

declare rewrite_loop.simps(2) [simp del]

definition sw_pg_rewrite_sql :: "cptr \<Rightarrow> (string \<times> nat) option" where
  "sw_pg_rewrite_sql sql = (case sql of None \<Rightarrow> None | Some s \<Rightarrow> rewrite_loop [] 0 (cstr s))"

section \<open>The lexical structure of a statement\<close>

text \<open>
  A statement as a list of lexical elements. Bodies are kept as written, so a doubled quote stays
  doubled. A placeholder is an element of its own; whatever stands inside another element is not.
\<close>

datatype sql_piece =
    Plain char
  | Literal string
  | Escape_literal char string
  | Identifier string
  | Line_comment string
  | Block_comment string
  | Dollar_quoted string string
  | Placeholder

fun render_piece :: "sql_piece \<Rightarrow> string" where
  "render_piece (Plain c) = [c]"
| "render_piece (Literal b) = SQ # b @ [SQ]"
| "render_piece (Escape_literal e b) = e # SQ # b @ [SQ]"
| "render_piece (Identifier b) = DQ # b @ [DQ]"
| "render_piece (Line_comment b) = ''--'' @ b"
| "render_piece (Block_comment b) = ''/*'' @ b @ ''*/''"
| "render_piece (Dollar_quoted tag b) = (CHR ''$'' # tag @ [CHR ''$'']) @ b @ (CHR ''$'' # tag @ [CHR ''$''])"
| "render_piece Placeholder = ''?''"

definition render_sql :: "sql_piece list \<Rightarrow> string" where
  "render_sql ps = concat (map render_piece ps)"

text \<open>The same statement with its placeholders numbered from \<open>k + 1\<close> on.\<close>

fun numbered_sql :: "nat \<Rightarrow> sql_piece list \<Rightarrow> string" where
  "numbered_sql k [] = []"
| "numbered_sql k (p # ps) =
     (if p = Placeholder then CHR ''$'' # dec_of (k + 1) @ numbered_sql (k + 1) ps
      else render_piece p @ numbered_sql k ps)"

definition placeholders :: "sql_piece list \<Rightarrow> nat" where
  "placeholders ps = length (filter (\<lambda>p. p = Placeholder) ps)"

fun quotes_doubled :: "char \<Rightarrow> string \<Rightarrow> bool" where
  "quotes_doubled q [] \<longleftrightarrow> True"
| "quotes_doubled q (c # s) \<longleftrightarrow>
     (if c = q then s \<noteq> [] \<and> hd s = q \<and> quotes_doubled q (tl s) else quotes_doubled q s)"

fun escapes_paired :: "string \<Rightarrow> bool" where
  "escapes_paired [] \<longleftrightarrow> True"
| "escapes_paired (c # s) \<longleftrightarrow>
     (if c = BSL then s \<noteq> [] \<and> escapes_paired (tl s)
      else if c = SQ then s \<noteq> [] \<and> hd s = SQ \<and> escapes_paired (tl s)
      else escapes_paired s)"

definition starts_with :: "char \<Rightarrow> string \<Rightarrow> bool" where
  "starts_with c s \<longleftrightarrow> s \<noteq> [] \<and> hd s = c"

definition dollar_tag :: "string \<Rightarrow> bool" where
  "dollar_tag tag \<longleftrightarrow> tag = [] \<or> ((isalpha (hd tag) \<or> hd tag = CHR ''_'') \<and> list_all is_tag_char tag)"

definition opens_dollar_quote :: "string \<Rightarrow> bool" where
  "opens_dollar_quote s \<longleftrightarrow> (\<exists>tag rest. dollar_tag tag \<and> s = CHR ''$'' # tag @ CHR ''$'' # rest)"

definition ends_first :: "string \<Rightarrow> string \<Rightarrow> bool" where
  "ends_first e b \<longleftrightarrow> (\<forall>i<length b. \<not> occurs_at e (b @ e) i)"

text \<open>When an element stands in front of the text \<open>rest\<close>.\<close>

fun piece_ok :: "sql_piece \<Rightarrow> string \<Rightarrow> bool" where
  "piece_ok (Plain c) rest \<longleftrightarrow>
     c \<noteq> SQ \<and> c \<noteq> DQ \<and> c \<noteq> CHR ''?'' \<and> \<not> ((c = CHR ''E'' \<or> c = CHR ''e'') \<and> starts_with SQ rest)
     \<and> \<not> (c = CHR ''-'' \<and> starts_with (CHR ''-'') rest) \<and> \<not> (c = CHR ''/'' \<and> starts_with (CHR ''*'') rest)
     \<and> \<not> opens_dollar_quote (c # rest)"
| "piece_ok (Literal b) rest \<longleftrightarrow> quotes_doubled SQ b \<and> \<not> starts_with SQ rest"
| "piece_ok (Escape_literal e b) rest \<longleftrightarrow>
     (e = CHR ''E'' \<or> e = CHR ''e'') \<and> escapes_paired b \<and> \<not> starts_with SQ rest"
| "piece_ok (Identifier b) rest \<longleftrightarrow> quotes_doubled DQ b \<and> \<not> starts_with DQ rest"
| "piece_ok (Line_comment b) rest \<longleftrightarrow> LF \<notin> set b \<and> (rest = [] \<or> starts_with LF rest)"
| "piece_ok (Block_comment b) rest \<longleftrightarrow> ends_first ''*/'' b"
| "piece_ok (Dollar_quoted tag b) rest \<longleftrightarrow> dollar_tag tag \<and> ends_first (CHR ''$'' # tag @ [CHR ''$'']) b"
| "piece_ok Placeholder rest \<longleftrightarrow> True"

fun sql_ok :: "sql_piece list \<Rightarrow> bool" where
  "sql_ok [] \<longleftrightarrow> True"
| "sql_ok (p # ps) \<longleftrightarrow> piece_ok p (render_sql ps) \<and> sql_ok ps"

lemma render_sql_simps [simp]:
  "render_sql [] = []"
  "render_sql (p # ps) = render_piece p @ render_sql ps"
  by (simp_all add: render_sql_def)

section \<open>The scanner on one element\<close>

lemma copy_doubled:
  "quotes_doubled q b \<Longrightarrow> \<not> starts_with q rest \<Longrightarrow>
   copy_quoted q False out (b @ q # rest) = (out @ b @ [q], rest)"
proof (induction q b arbitrary: out rule: quotes_doubled.induct)
  case (1 q)
  then show ?case by (auto simp: starts_with_def)
next
  case (2 q c s)
  show ?case
  proof (cases "c = q")
    case True
    with 2(3) obtain t where t: "s = q # t" "quotes_doubled q t" by (cases s) auto
    with 2(1)[of "out @ [q, q]"] True 2(4) show ?thesis by simp
  next
    case False
    with 2(2)[of "out @ [c]"] 2(3,4) show ?thesis by simp
  qed
qed

lemma copy_escaped:
  "escapes_paired b \<Longrightarrow> \<not> starts_with SQ rest \<Longrightarrow>
   copy_quoted SQ True out (b @ SQ # rest) = (out @ b @ [SQ], rest)"
proof (induction b arbitrary: out rule: escapes_paired.induct)
  case 1
  then show ?case by (auto simp: starts_with_def)
next
  case (2 c s)
  consider "c = BSL" | "c = SQ" | "c \<noteq> BSL" "c \<noteq> SQ" by blast
  then show ?case
  proof cases
    case 1
    with 2(4) obtain d t where t: "s = d # t" "escapes_paired t" by (cases s) auto
    with 2(1)[of "out @ [c, d]"] 1 2(5) show ?thesis by simp
  next
    case c: 2
    with 2(4) obtain t where t: "s = SQ # t" "escapes_paired t" by (cases s) auto
    with 2(2)[of "out @ [SQ, SQ]"] c 2(5) show ?thesis by simp
  next
    case 3
    with 2(3)[of "out @ [c]"] 2(4,5) show ?thesis by simp
  qed
qed

lemma copy_line_comment:
  "LF \<notin> set b \<Longrightarrow> rest = [] \<or> starts_with LF rest \<Longrightarrow> copy_line out (b @ rest) = (out @ b, rest)"
proof (induction b arbitrary: out)
  case Nil
  then show ?case by (cases rest) (auto simp: starts_with_def)
qed auto

lemma copy_until_end:
  "e \<noteq> [] \<Longrightarrow> ends_first e b \<Longrightarrow> sw_pg_copy_until e out (b @ e @ rest) = (out @ b @ e, rest)"
proof (induction b arbitrary: out)
  case Nil
  then obtain c t where "e = c # t" by (cases e) auto
  then show ?case by simp
next
  case (Cons c b)
  have "\<not> occurs_at e ((c # b) @ e) 0" using Cons.prems(2) by (auto simp: ends_first_def)
  then have "take (length e) (c # b @ e @ rest) \<noteq> e"
    using occurs_at_append[of 0 e "(c # b) @ e" rest] by (auto simp: occurs_at_take)
  moreover have "ends_first e b"
    unfolding ends_first_def
  proof (intro allI impI)
    fix i assume "i < length b"
    then have "\<not> occurs_at e ((c # b) @ e) (Suc i)" using Cons.prems(2) by (simp add: ends_first_def)
    then show "\<not> occurs_at e (b @ e) i" by (auto simp: occurs_at_def)
  qed
  ultimately show ?case using Cons.IH Cons.prems(1) by simp
qed

lemma tag_span:
  assumes "list_all is_tag_char tag"
  shows "takeWhile is_tag_char (tag @ CHR ''$'' # rest) = tag" "dropWhile is_tag_char (tag @ CHR ''$'' # rest) = CHR ''$'' # rest"
proof -
  have "\<not> is_tag_char (CHR ''$'')" by (simp add: is_tag_char_def isalnum_def isupper_def islower_def isdigit_def byte_def)
  then show "takeWhile is_tag_char (tag @ CHR ''$'' # rest) = tag" "dropWhile is_tag_char (tag @ CHR ''$'' # rest) = CHR ''$'' # rest"
    using assms by (simp_all add: list_all_iff takeWhile_append2 dropWhile_append2)
qed

lemma dollar_quote_len_tag:
  assumes "dollar_tag tag"
  shows "sw_pg_dollar_quote_len (CHR ''$'' # tag @ CHR ''$'' # rest) = length tag + 2"
proof (cases tag)
  case Nil
  then show ?thesis by (simp add: sw_pg_dollar_quote_len_def)
next
  case (Cons c t)
  have "\<not> isalpha (CHR ''$'')" by (simp add: isalpha_def isupper_def islower_def byte_def)
  then have "c \<noteq> CHR ''$''" and tg: "list_all is_tag_char tag" "isalpha c \<or> c = CHR ''_''"
    using assms Cons by (auto simp: dollar_tag_def)
  then show ?thesis using tag_span[OF tg(1), of rest] Cons
    by (simp add: sw_pg_dollar_quote_len_def Let_def)
qed

lemma dollar_quote_len_opens: "0 < sw_pg_dollar_quote_len s \<longleftrightarrow> opens_dollar_quote s"
proof
  assume "opens_dollar_quote s"
  then show "0 < sw_pg_dollar_quote_len s" by (auto simp: opens_dollar_quote_def dollar_quote_len_tag)
next
  assume a: "0 < sw_pg_dollar_quote_len s"
  then obtain t where s: "s = CHR ''$'' # t" "t \<noteq> []"
    by (auto simp: sw_pg_dollar_quote_len_def split: list.splits if_splits)
  let ?tag = "takeWhile is_tag_char t" and ?rest = "dropWhile is_tag_char t"
  show "opens_dollar_quote s"
  proof (cases "hd t = CHR ''$''")
    case True
    then have "s = CHR ''$'' # [] @ CHR ''$'' # tl t" using s by (cases t) auto
    then show ?thesis unfolding opens_dollar_quote_def dollar_tag_def by blast
  next
    case False
    with a s have b: "isalpha (hd t) \<or> hd t = CHR ''_''" "?rest \<noteq> [] \<and> hd ?rest = CHR ''$''"
      unfolding s(1) sw_pg_dollar_quote_len_def list.case Let_def by (auto split: if_splits simp del: dropWhile_eq_Nil_conv)
    then have "s = CHR ''$'' # ?tag @ CHR ''$'' # tl ?rest"
      using s(1) takeWhile_dropWhile_id[of is_tag_char t] by (metis list.collapse)
    moreover have "dollar_tag ?tag" using b(1) s(2)
      by (cases t) (auto simp: dollar_tag_def list_all_iff dest: set_takeWhileD)
    ultimately show ?thesis unfolding opens_dollar_quote_def by blast
  qed
qed

text \<open>The loop on one element, and on the whole statement.\<close>

lemma starts_hd: "s \<noteq> [] \<and> hd s = c \<longleftrightarrow> starts_with c s"
  by (simp add: starts_with_def)

lemma rewrite_piece:
  assumes "piece_ok p rest" "p \<noteq> Placeholder"
  shows "rewrite_loop out k (render_piece p @ rest) = rewrite_loop (out @ render_piece p) k rest"
proof (cases p)
  case (Plain c)
  have "\<not> 0 < sw_pg_dollar_quote_len (c # rest)"
    using assms(1) Plain by (simp add: dollar_quote_len_opens)
  with assms(1) Plain show ?thesis by (auto simp: rewrite_loop.simps(2) starts_with_def)
next
  case (Literal b)
  with assms(1) copy_doubled[of SQ b rest "out @ [SQ]"] show ?thesis by (simp add: rewrite_loop.simps(2))
next
  case (Escape_literal e b)
  with assms(1) copy_escaped[of b rest "out @ [e, SQ]"] show ?thesis by (auto simp: rewrite_loop.simps(2))
next
  case (Identifier b)
  with assms(1) copy_doubled[of DQ b rest "out @ [DQ]"] show ?thesis by (simp add: rewrite_loop.simps(2))
next
  case (Line_comment b)
  with assms(1) copy_line_comment[of b rest "out @ ''--''"] show ?thesis by (simp add: rewrite_loop.simps(2))
next
  case (Block_comment b)
  with assms(1) copy_until_end[of "''*/''" b "out @ ''/*''" rest] show ?thesis by (simp add: rewrite_loop.simps(2))
next
  case (Dollar_quoted tag b)
  let ?q = "CHR ''$'' # tag @ [CHR ''$'']" and ?s = "CHR ''$'' # tag @ CHR ''$'' # b @ CHR ''$'' # tag @ CHR ''$'' # rest"
  have l: "sw_pg_dollar_quote_len ?s = length tag + 2"
    using assms(1) Dollar_quoted dollar_quote_len_tag by simp
  have t: "take (length tag + 2) ?s = ?q" "drop (length tag + 2) ?s = b @ ?q @ rest" by simp_all
  have "ends_first ?q b" using assms(1) Dollar_quoted by simp
  from copy_until_end[OF _ this, of "out @ ?q" rest] have
    c: "sw_pg_copy_until ?q (out @ ?q) (b @ ?q @ rest) = ((out @ ?q) @ b @ ?q, rest)" by simp
  have "rewrite_loop out k ?s = rewrite_loop ((out @ ?q) @ b @ ?q) k rest"
    unfolding rewrite_loop.simps(2) l Let_def t c by simp
  then show ?thesis using Dollar_quoted by simp
qed (use assms in auto)

lemma rewrite_placeholder:
  "k \<noteq> INT_MAX \<Longrightarrow> rewrite_loop out k (CHR ''?'' # rest) = rewrite_loop (out @ CHR ''$'' # dec_of (k + 1)) (k + 1) rest"
  by (simp add: rewrite_loop.simps(2) sw_pg_dollar_quote_len_def)

lemma rewrite_pieces:
  "sql_ok ps \<Longrightarrow> k + placeholders ps \<le> INT_MAX \<Longrightarrow>
   rewrite_loop out k (render_sql ps) = Some (out @ numbered_sql k ps, k + placeholders ps)"
proof (induction ps arbitrary: out k)
  case Nil
  then show ?case by (simp add: placeholders_def)
next
  case (Cons p ps)
  show ?case
  proof (cases "p = Placeholder")
    case True
    then have n: "placeholders (p # ps) = Suc (placeholders ps)" by (simp add: placeholders_def)
    have "rewrite_loop out k (render_sql (p # ps)) = rewrite_loop (out @ CHR ''$'' # dec_of (k + 1)) (k + 1) (render_sql ps)"
      using True n Cons.prems(2) rewrite_placeholder[of k out "render_sql ps"] by simp
    with Cons.IH[of "k + 1" "out @ CHR ''$'' # dec_of (k + 1)"] Cons.prems True n show ?thesis by simp
  next
    case False
    then have n: "placeholders (p # ps) = placeholders ps" by (simp add: placeholders_def)
    with False Cons.IH[of k "out @ render_piece p"] Cons.prems rewrite_piece[of p "render_sql ps" out k]
    show ?thesis by simp
  qed
qed

section \<open>How PostgreSQL reads a statement\<close>

text \<open>
  The lexical rules of the PostgreSQL manual (section 4.1), written down without the driver: a word is a
  longest run of letters, digits, underscores and dollar signs that does not begin with a digit or a
  dollar sign; an escape constant is the word \<^verbatim>\<open>E\<close>, and no longer word, directly followed by a quote; a
  backslash is an ordinary character of every other constant; block comments nest. The function counts
  the question marks that stand outside constants, quoted identifiers and comments.
\<close>

definition word_start :: "char \<Rightarrow> bool" where
  "word_start c \<longleftrightarrow> isalpha c \<or> c = CHR ''_''"

definition word_char :: "char \<Rightarrow> bool" where
  "word_char c \<longleftrightarrow> isalnum c \<or> c = CHR ''_'' \<or> c = CHR ''$''"

fun behind_quote :: "char \<Rightarrow> bool \<Rightarrow> string \<Rightarrow> string" where
  "behind_quote q esc [] = []"
| "behind_quote q esc (c # s) =
     (if esc \<and> c = BSL then behind_quote q esc (tl s)
      else if c = q then (if s \<noteq> [] \<and> hd s = q then behind_quote q esc (tl s) else s)
      else behind_quote q esc s)"

fun behind_comment :: "nat \<Rightarrow> string \<Rightarrow> string" where
  "behind_comment depth (c # d # s) =
     (if c = CHR ''/'' \<and> d = CHR ''*'' then behind_comment (depth + 1) s
      else if c = CHR ''*'' \<and> d = CHR ''/'' then (if depth = 0 then s else behind_comment (depth - 1) s)
      else behind_comment depth (d # s))"
| "behind_comment depth _ = []"

fun behind_mark :: "string \<Rightarrow> string \<Rightarrow> string" where
  "behind_mark m [] = []"
| "behind_mark m (c # s) = (if take (length m) (c # s) = m then drop (length m) (c # s) else behind_mark m s)"

lemma behind_quote_length: "length (behind_quote q esc s) \<le> length s"
  by (induction q esc s rule: behind_quote.induct) (auto simp: le_Suc_eq dest: le_trans split: if_splits)

lemma behind_comment_length: "length (behind_comment depth s) \<le> length s"
  by (induction depth s rule: behind_comment.induct) auto

lemma behind_mark_length: "length (behind_mark m s) \<le> length s"
  by (induction m s rule: behind_mark.induct) auto

function pg_placeholders :: "string \<Rightarrow> nat" where
  "pg_placeholders [] = 0"
| "pg_placeholders (c # s) =
     (if c = SQ \<or> c = DQ then pg_placeholders (behind_quote c False s)
      else if word_start c then
        (let word = c # takeWhile word_char s; rest = dropWhile word_char s
         in if (word = ''E'' \<or> word = ''e'') \<and> rest \<noteq> [] \<and> hd rest = SQ
            then pg_placeholders (behind_quote SQ True (tl rest)) else pg_placeholders rest)
      else if c = CHR ''-'' \<and> s \<noteq> [] \<and> hd s = CHR ''-'' then pg_placeholders (dropWhile (\<lambda>c. c \<noteq> LF) s)
      else if c = CHR ''/'' \<and> s \<noteq> [] \<and> hd s = CHR ''*'' then pg_placeholders (behind_comment 0 (tl s))
      else if c = CHR ''$'' then
        (let tag = takeWhile is_tag_char s; rest = dropWhile is_tag_char s
         in if rest \<noteq> [] \<and> hd rest = CHR ''$'' \<and> (tag = [] \<or> word_start (hd tag))
            then pg_placeholders (behind_mark (CHR ''$'' # tag @ [CHR ''$'']) (tl rest))
            else pg_placeholders s)
      else if c = CHR ''?'' then pg_placeholders s + 1
      else pg_placeholders s)"
  by pat_completeness auto
termination
proof (relation "measure length", goal_cases)
  case (2 c s)
  then show ?case using behind_quote_length[of c False s] by simp
next
  case (3 c s word rest)
  then show ?case
    using behind_quote_length[of SQ True "tl rest"] length_dropWhile_le[of word_char s] by simp
next
  case (4 c s word rest)
  then show ?case using length_dropWhile_le[of word_char s] by simp
next
  case (5 c s)
  then show ?case using length_dropWhile_le[of "\<lambda>c. c \<noteq> LF" s] by simp
next
  case (6 c s)
  then show ?case using behind_comment_length[of 0 "tl s"] by simp
next
  case (7 c s tag rest)
  then show ?case
    using behind_mark_length[of "CHR ''$'' # tag @ [CHR ''$'']" "tl rest"] length_dropWhile_le[of is_tag_char s] by simp
qed auto

declare pg_placeholders.simps(2) [simp del]

text \<open>Text without quotes, comments, dollar signs and backslashes: every question mark counts.\<close>

definition unquoted :: "string \<Rightarrow> bool" where
  "unquoted s \<longleftrightarrow> (\<forall>c\<in>set s. c \<notin> {SQ, DQ, BSL, NUL, CHR ''-'', CHR ''/'', CHR ''*'', CHR ''$''})"

definition question_marks :: "string \<Rightarrow> nat" where
  "question_marks s = length (filter (\<lambda>c. c = CHR ''?'') s)"

definition split_placeholders :: "string \<Rightarrow> sql_piece list" where
  "split_placeholders s = map (\<lambda>c. if c = CHR ''?'' then Placeholder else Plain c) s"

lemma word_char_no_mark: "\<not> word_char (CHR ''?'')" "\<not> word_char SQ" "\<not> word_start SQ" "\<not> word_start DQ" "\<not> word_start (CHR ''?'')"
  "\<not> word_start (CHR ''/'')"
  by (simp_all add: word_char_def word_start_def isalpha_def isalnum_def isupper_def islower_def isdigit_def byte_def)

lemma unquoted_simps [simp]: "unquoted []"
  "unquoted (c # s) \<longleftrightarrow> c \<notin> {SQ, DQ, BSL, NUL, CHR ''-'', CHR ''/'', CHR ''*'', CHR ''$''} \<and> unquoted s"
  by (auto simp: unquoted_def)

lemma unquoted_no_NUL: "unquoted s \<Longrightarrow> NUL \<notin> set s"
  by (induction s) auto

lemma pg_word_start:
  assumes "word_start c" "\<not> ((dropWhile word_char s \<noteq> [] \<and> hd (dropWhile word_char s) = SQ) \<and> takeWhile word_char s = [])"
  shows "pg_placeholders (c # s) = pg_placeholders (dropWhile word_char s)"
proof -
  have c: "\<not> (c = SQ \<or> c = DQ)" using assms(1) word_char_no_mark(3,4) by auto
  have w: "\<not> ((c # takeWhile word_char s = ''E'' \<or> c # takeWhile word_char s = ''e'') \<and> dropWhile word_char s \<noteq> []
      \<and> hd (dropWhile word_char s) = SQ)" using assms(2) by blast
  show ?thesis unfolding pg_placeholders.simps(2) Let_def if_not_P[OF c] if_P[OF assms(1)] if_not_P[OF w] ..
qed

lemma pg_unquoted: "unquoted s \<Longrightarrow> pg_placeholders s = question_marks s"
proof (induction s rule: length_induct)
  case (1 s)
  show ?case
  proof (cases s)
    case Nil
    then show ?thesis by (simp add: question_marks_def)
  next
    case (Cons c t)
    then have t: "unquoted t" "pg_placeholders t = question_marks t" using 1 by simp_all
    show ?thesis
    proof (cases "word_start c")
      case True
      let ?r = "dropWhile word_char t"
      have w: "filter (\<lambda>c. c = CHR ''?'') (takeWhile word_char t) = []"
        using word_char_no_mark(1) by (auto simp: filter_empty_conv dest: set_takeWhileD)
      have u: "unquoted ?r" using t(1) by (auto simp: unquoted_def dest: set_dropWhileD)
      then have "\<not> (?r \<noteq> [] \<and> hd ?r = SQ)" by (cases ?r) auto
      then have "pg_placeholders s = pg_placeholders ?r"
        unfolding Cons by (intro pg_word_start[OF True]) blast
      also have "\<dots> = question_marks ?r"
        using 1(1) u Cons length_dropWhile_le[of word_char t] by simp
      also have "\<dots> = question_marks s"
      proof -
        have "question_marks t = question_marks (takeWhile word_char t @ ?r)" by simp
        also have "\<dots> = question_marks ?r" unfolding question_marks_def filter_append w by simp
        finally show ?thesis using True word_char_no_mark(5) Cons by (auto simp: question_marks_def)
      qed
      finally show ?thesis .
    next
      case False
      then show ?thesis using Cons 1(2) t(2) by (simp add: pg_placeholders.simps(2) question_marks_def)
    qed
  qed
qed

lemma behind_quote_unquoted:
  "unquoted a \<Longrightarrow> unquoted b \<Longrightarrow> behind_quote SQ False (a @ BSL # SQ # b) = b"
  by (induction a) (auto simp: neq_Nil_conv)

lemma behind_comment_unquoted: "s \<noteq> [] \<Longrightarrow> unquoted a \<Longrightarrow> behind_comment d (a @ s) = behind_comment d s"
proof (induction a)
  case (Cons c a)
  then obtain x t where "a @ s = x # t" by (cases "a @ s") auto
  with Cons show ?case by simp
qed simp

lemma pg_word:
  assumes "word_start (hd w)" "list_all word_char w" "2 \<le> length w" "rest = [] \<or> \<not> word_char (hd rest)"
  shows "pg_placeholders (w @ rest) = pg_placeholders rest"
proof -
  obtain c d v where w: "w = c # d # v" using assms(3) by (cases w; cases "tl w") auto
  have "takeWhile word_char rest = []" "dropWhile word_char rest = rest" using assms(4) by (cases rest; simp)+
  then have t: "takeWhile word_char (d # v @ rest) = d # v" "dropWhile word_char (d # v @ rest) = rest"
    using assms(2) w by (simp_all add: list_all_iff takeWhile_append2 dropWhile_append2)
  show ?thesis using assms(1) pg_word_start[of c "d # v @ rest"] t unfolding w by simp
qed

text \<open>The driver on the same text.\<close>

lemma rewrite_unquoted_escape: "unquoted b \<Longrightarrow> copy_quoted SQ True out b = (out @ b, [])"
  by (induction b arbitrary: out) auto

lemma copy_quoted_unquoted:
  "unquoted a \<Longrightarrow> unquoted b \<Longrightarrow> copy_quoted SQ True out (a @ BSL # SQ # b) = (out @ a @ BSL # SQ # b, [])"
  by (induction a arbitrary: out) (auto simp: rewrite_unquoted_escape)

section \<open>Properties\<close>

text \<open>
  C32. Placeholders are numbered in order, and nothing else is touched. Take a statement as its lexical
  elements: literals, escape literals, quoted identifiers, line and block comments, dollar quotes,
  placeholders and other characters. The rewritten statement has the same elements with the k-th
  placeholder as \<^verbatim>\<open>$k\<close>; question marks inside any other element stay; the count is the number
  of placeholders.
\<close>

theorem rewrite_numbers_placeholders:
  assumes "sql_ok ps" and "placeholders ps \<le> INT_MAX" and "NUL \<notin> set (render_sql ps)"
  shows "sw_pg_rewrite_sql (Some (render_sql ps)) = Some (numbered_sql 0 ps, placeholders ps)"
  using rewrite_pieces[OF assms(1), of 0 "[]"] assms(2,3) by (simp add: sw_pg_rewrite_sql_def cstr_ident)

definition example_sql :: "sql_piece list" where
  "example_sql = map Plain ''a='' @ [Placeholder, Plain (CHR '' ''), Literal [CHR ''?'', SQ, SQ], Identifier ''b?'',
     Plain (CHR '' ''), Placeholder, Block_comment ''?'', Plain LF, Line_comment ''?'', Plain LF,
     Escape_literal (CHR ''E'') ''?'', Dollar_quoted ''q'' ''?'']"


lemma dec_of_small: "dec_of (Suc 0) = ''1''" "dec_of (Suc (Suc 0)) = ''2''"
  by (simp_all add: dec_of.simps char_of_def bit_Suc_0_iff)

text \<open>The reference counts the two placeholders of the example, and none of its other question marks.\<close>

lemma example_read: "pg_placeholders (render_sql example_sql) = 2"
  by (simp add: example_sql_def pg_placeholders.simps(2) word_start_def word_char_def is_tag_char_def isalpha_def isalnum_def
      isupper_def islower_def isdigit_def byte_def Let_def)

lemma example_sql_ok: "sql_ok example_sql"
proof -
  have "isalpha (CHR ''q'')" "isalnum (CHR ''q'')" by (simp_all add: isalpha_def isalnum_def isupper_def islower_def byte_def)
  then show ?thesis
    by (simp add: example_sql_def starts_with_def opens_dollar_quote_def dollar_tag_def is_tag_char_def ends_first_def
        occurs_at_take)
qed

theorem rewrite_numbers_placeholders_witness:
  "sw_pg_rewrite_sql (Some (render_sql example_sql)) =
     Some (''a=$1 '' @ SQ # ''?'' @ [SQ, SQ, SQ, DQ] @ ''b?'' @ DQ # '' $2/*?*/'' @ LF # ''--?'' @ LF # ''E'' @ SQ # ''?'' @ SQ # ''$q$?$q$'', 2)"
proof -
  have "placeholders example_sql = 2" by (simp add: example_sql_def placeholders_def)
  moreover have "NUL \<notin> set (render_sql example_sql)" by (simp add: example_sql_def)
  ultimately have "sw_pg_rewrite_sql (Some (render_sql example_sql)) = Some (numbered_sql 0 example_sql, 2)"
    using rewrite_numbers_placeholders[OF example_sql_ok] by (simp add: INT_MAX_def)
  then show ?thesis by (simp add: example_sql_def numeral_2_eq_2 dec_of_small)
qed

lemma numbered_append:
  "numbered_sql k (ps @ qs) = numbered_sql k ps @ numbered_sql (k + placeholders ps) qs"
  by (induction k ps rule: numbered_sql.induct) (auto simp: placeholders_def)

lemma split_ok: "unquoted c \<Longrightarrow> sql_ok (split_placeholders c @ map Plain ''*/'')"
proof (induction c)
  case Nil
  show ?case by (simp add: split_placeholders_def starts_with_def opens_dollar_quote_def)
next
  case (Cons x c)
  have r: "render_sql (split_placeholders c @ map Plain ''*/'') = c @ ''*/''" for c
    by (induction c) (auto simp: split_placeholders_def)
  have "\<not> starts_with SQ (c @ ''*/'')" "\<not> starts_with (CHR ''-'') (c @ ''*/'')"
    using Cons.prems by (cases c; auto simp: starts_with_def)+
  moreover have "\<not> opens_dollar_quote (x # c @ ''*/'')" using Cons.prems by (auto simp: opens_dollar_quote_def)
  ultimately show ?case using Cons r[of c] by (auto simp: split_placeholders_def)
qed

lemma copy_until_unquoted: "unquoted a \<Longrightarrow> sw_pg_copy_until ''*/'' out (a @ s) = sw_pg_copy_until ''*/'' (out @ a) s"
  by (induction a arbitrary: out) auto

lemma copy_until_opened:
  "unquoted b \<Longrightarrow> sw_pg_copy_until ''*/'' out (''/*'' @ b @ ''*/'' @ s) = (out @ ''/*'' @ b @ ''*/'', s)"
  using copy_until_unquoted[of b "out @ ''/*''" "''*/'' @ s"] by (cases b) auto

lemma rewrite_nested:
  assumes "unquoted a" "unquoted b" "unquoted c" "question_marks c \<le> INT_MAX"
  shows "sw_pg_rewrite_sql (Some (''/*'' @ a @ ''/*'' @ b @ ''*/'' @ c @ ''*/'')) =
    Some (''/*'' @ a @ ''/*'' @ b @ ''*/'' @ numbered_sql 0 (split_placeholders c) @ ''*/'', question_marks c)"
proof -
  let ?ps = "split_placeholders c @ map Plain ''*/''"
  have r: "render_sql (split_placeholders c @ map Plain ''*/'') = c @ ''*/''"
    by (induction c) (auto simp: split_placeholders_def)
  have n: "placeholders (split_placeholders c) = question_marks c"
    by (induction c) (auto simp: split_placeholders_def placeholders_def question_marks_def)
  let ?s = "''/*'' @ a @ ''/*'' @ b @ ''*/'' @ c @ ''*/''" and ?o = "''/*'' @ a @ ''/*'' @ b @ ''*/''"
  have "sw_pg_copy_until ''*/'' ''/*'' (a @ ''/*'' @ b @ ''*/'' @ c @ ''*/'') = (?o, c @ ''*/'')"
    unfolding copy_until_unquoted[OF assms(1)] copy_until_opened[OF assms(2)] by simp
  then have "rewrite_loop [] 0 ?s = rewrite_loop ?o 0 (render_sql ?ps)"
    unfolding r append_Cons append_Nil by (subst rewrite_loop.simps(2)) simp
  also have "\<dots> = Some (?o @ numbered_sql 0 ?ps, question_marks c)"
    using rewrite_pieces[OF split_ok[OF assms(3)], of 0 ?o] assms(4) n by (simp add: placeholders_def)
  finally have "rewrite_loop [] 0 ?s = Some (?o @ numbered_sql 0 (split_placeholders c) @ ''*/'', question_marks c)"
    by (simp add: numbered_append)
  moreover have "cstr ?s = ?s" using assms(1-3)[THEN unquoted_no_NUL] by (intro cstr_ident) simp
  ultimately show ?thesis by (simp add: sw_pg_rewrite_sql_def)
qed

lemma rewrite_word:
  assumes "list_all isalnum w" "rest = [] \<or> \<not> isalnum (hd rest)" "w \<noteq> []"
  shows "rewrite_loop out k (w @ rest) = rewrite_loop (out @ butlast w) k (last w # rest)"
  using assms(1,3)
proof (induction w arbitrary: out)
  case (Cons c w)
  show ?case
  proof (cases w)
    case (Cons d v)
    have q: "\<not> isalnum SQ" "\<not> isalnum DQ" "\<not> isalnum (CHR ''?'')" "\<not> isalnum (CHR ''-'')" "\<not> isalnum (CHR ''/'')"
      "\<not> isalnum (CHR ''$'')"
      by (simp_all add: isalnum_def isupper_def islower_def isdigit_def byte_def)
    then have "piece_ok (Plain c) (w @ rest)"
      using Cons.prems Cons by (auto simp: starts_with_def opens_dollar_quote_def)
    from rewrite_piece[OF this] Cons.IH[of "out @ [c]"] Cons.prems Cons show ?thesis by simp
  qed simp
qed simp



end
