(* ===== verification/PgDriver.thy ===== *)
theory PgDriver
  imports Database SqlRewrite Complex_Main
begin

text \<open>
  The PostgreSQL driver, \<^verbatim>\<open>src/src/sw_db_postgres.c\<close>. The client library libpq is a parameter: what
  its calls return for a connection, whose type is left open. A \<^verbatim>\<open>PGresult\<close> is the data its accessors
  read (\<^verbatim>\<open>PQntuples\<close>, \<^verbatim>\<open>PQnfields\<close>, \<^verbatim>\<open>PQgetvalue\<close> and so on): a row is the list of its values, a NULL
  value is None. The blob cache is its bytes. Operations on a statement take and return the database
  the statement points to. Printing and reading floating point numbers are parameters.
\<close>

section \<open>The client library and the driver's objects\<close>

datatype exec_status = PGRES_COMMAND_OK | PGRES_TUPLES_OK | PGRES_OTHER

record pg_result =
  rs_status :: exec_status
  rs_names :: "string list"
  rs_oids :: "nat list"
  rs_rows :: "cptr list list"
  rs_cmd_tuples :: string
  rs_error :: string

record sw_pg_param =
  pp_data :: cptr
  pp_len :: int
  pp_format :: int

record 'c libpq =
  PQconnectdb :: "string \<Rightarrow> 'c option"
  PQstatus_ok :: "'c \<Rightarrow> bool"
  PQerrorMessage :: "'c \<Rightarrow> string"
  PQexec :: "'c \<Rightarrow> string \<Rightarrow> pg_result option \<times> 'c"
  PQexecParams :: "'c \<Rightarrow> string \<Rightarrow> sw_pg_param list \<Rightarrow> pg_result option \<times> 'c"
  PQunescapeBytea :: "string \<Rightarrow> string"

record 'c sw_pg_db =
  pd_connection :: "'c option"
  pd_changes :: int

record sw_pg_stmt =
  ps_sql :: string
  ps_params :: "sw_pg_param list"
  ps_result :: "pg_result option"
  ps_row_index :: int
  ps_blob_cache :: cptr

definition sw_pg_clear_result :: "sw_pg_stmt \<Rightarrow> sw_pg_stmt" where
  "sw_pg_clear_result st = st\<lparr>ps_result := None, ps_row_index := -1\<rparr>"

definition sw_pg_clear_blob_cache :: "sw_pg_stmt \<Rightarrow> sw_pg_stmt" where
  "sw_pg_clear_blob_cache st = st\<lparr>ps_blob_cache := None\<rparr>"

definition sw_pg_param_clear :: sw_pg_param where
  "sw_pg_param_clear = \<lparr>pp_data = None, pp_len = 0, pp_format = 0\<rparr>"

definition sw_pg_cmd_tuples :: "pg_result option \<Rightarrow> int" where
  "sw_pg_cmd_tuples result =
     (case result of None \<Rightarrow> 0
      | Some r \<Rightarrow> if rs_cmd_tuples r = [] then 0
                  else if snd (strtoll10 (rs_cmd_tuples r)) then fst (strtoll10 (rs_cmd_tuples r)) else 0)"

definition sw_pg_column_index :: "sw_pg_stmt \<Rightarrow> nat \<Rightarrow> int" where
  "sw_pg_column_index st index =
     (case ps_result st of None \<Rightarrow> -1
      | Some r \<Rightarrow> if index > INT_MAX then -1
                  else if int index < int (length (rs_names r)) then int index else -1)"

definition sw_pg_current_row :: "sw_pg_stmt \<Rightarrow> int" where
  "sw_pg_current_row st =
     (case ps_result st of None \<Rightarrow> -1
      | Some r \<Rightarrow> if ps_row_index st < 0 then -1
                  else if ps_row_index st < int (length (rs_rows r)) then ps_row_index st else -1)"

section \<open>Connections\<close>

definition sw_db_open_postgres :: "'c libpq \<Rightarrow> sw_db_config option \<Rightarrow> string \<Rightarrow> 'c sw_pg_db sw_db option \<times> string" where
  "sw_db_open_postgres pq config global_error =
     (case config of
        None \<Rightarrow> (None, sw_db_set_global_error (Some ''invalid PostgreSQL configuration''))
      | Some cfg \<Rightarrow>
          (case dc_url cfg of
             None \<Rightarrow> (None, sw_db_set_global_error (Some ''invalid PostgreSQL configuration''))
           | Some url \<Rightarrow>
               (case PQconnectdb pq url of
                  None \<Rightarrow> (None, sw_db_set_global_error (Some ''PostgreSQL open failed''))
                | Some connection \<Rightarrow>
                    if \<not> PQstatus_ok pq connection
                    then (None, sw_db_set_global_error (Some (''PostgreSQL open failed: '' @ PQerrorMessage pq connection)))
                    else (Some (sw_db_alloc SW_DB_DRIVER_POSTGRES (Some url)
                            \<lparr>pd_connection = Some connection, pd_changes = 0\<rparr>), global_error))))"

definition sw_pg_close :: "'c sw_pg_db sw_db \<Rightarrow> 'c sw_pg_db sw_db" where
  "sw_pg_close db = db\<lparr>db_handle := None\<rparr>"

definition sw_pg_exec :: "'c libpq \<Rightarrow> 'c sw_pg_db sw_db \<Rightarrow> string \<Rightarrow> int \<times> 'c sw_pg_db sw_db" where
  "sw_pg_exec pq db sql =
     (case Option.bind (db_handle db) pd_connection of
        None \<Rightarrow> (-1, set_db_error (Some ''PostgreSQL connection is not open'') db)
      | Some c \<Rightarrow>
          let pg_db = the (db_handle db);
              (result, c1) = PQexec pq c sql;
              db1 = db\<lparr>db_handle := Some (pg_db\<lparr>pd_connection := Some c1\<rparr>)\<rparr>
          in (case result of
                None \<Rightarrow> (-1, set_db_error (Some (''PostgreSQL exec failed: '' @ PQerrorMessage pq c1)) db1)
              | Some r \<Rightarrow>
                  if rs_status r \<noteq> PGRES_COMMAND_OK \<and> rs_status r \<noteq> PGRES_TUPLES_OK
                  then (-1, set_db_error (Some (''PostgreSQL exec failed: '' @ rs_error r)) db1)
                  else (0, set_db_error None (db\<lparr>db_handle := Some (pg_db\<lparr>pd_connection := Some c1,
                          pd_changes := sw_pg_cmd_tuples (Some r)\<rparr>)\<rparr>))))"

definition sw_pg_changes :: "'c sw_pg_db sw_db option \<Rightarrow> int" where
  "sw_pg_changes db = (case Option.bind db db_handle of None \<Rightarrow> 0 | Some pg_db \<Rightarrow> pd_changes pg_db)"

definition sw_pg_last_insert_id :: "'c sw_pg_db sw_db option \<Rightarrow> int" where
  "sw_pg_last_insert_id db = 0"

section \<open>Statements\<close>

definition sw_pg_prepare :: "'c sw_pg_db sw_db \<Rightarrow> string \<Rightarrow> sw_pg_stmt option \<times> 'c sw_pg_db sw_db" where
  "sw_pg_prepare db sql =
     (case sw_pg_rewrite_sql (Some sql) of
        None \<Rightarrow> (None, set_db_error (Some ''PostgreSQL prepare failed while rewriting placeholders'') db)
      | Some (rewritten, param_count) \<Rightarrow>
          (Some \<lparr>ps_sql = rewritten, ps_params = replicate param_count sw_pg_param_clear, ps_result = None,
                 ps_row_index = -1, ps_blob_cache = None\<rparr>,
           set_db_error None db))"

definition sw_pg_reset :: "sw_pg_stmt \<Rightarrow> int \<times> sw_pg_stmt" where
  "sw_pg_reset st = (0, sw_pg_clear_blob_cache (sw_pg_clear_result st))"

text \<open>\<^verbatim>\<open>sw_pg_param_at\<close>: the position of the parameter, with the error set on a bad index.\<close>

definition sw_pg_param_at :: "'c sw_pg_db sw_db \<Rightarrow> sw_pg_stmt \<Rightarrow> nat \<Rightarrow> nat option \<times> 'c sw_pg_db sw_db" where
  "sw_pg_param_at db st index =
     (if index = 0 \<or> index > length (ps_params st)
      then (None, set_db_error (Some ''bind index out of range'') db)
      else (Some (index - 1), db))"

definition sw_pg_bind_owned :: "'c sw_pg_db sw_db \<Rightarrow> sw_pg_stmt \<Rightarrow> nat \<Rightarrow> cptr \<Rightarrow> int \<Rightarrow> int \<Rightarrow> int \<times> 'c sw_pg_db sw_db \<times> sw_pg_stmt" where
  "sw_pg_bind_owned db st index data len format =
     (case sw_pg_param_at db st index of
        (None, db1) \<Rightarrow> (-1, db1, st)
      | (Some i, db1) \<Rightarrow>
          (0, db1, st\<lparr>ps_params := (ps_params st)[i := \<lparr>pp_data = data, pp_len = len, pp_format = format\<rparr>]\<rparr>))"

definition sw_pg_bind_null :: "'c sw_pg_db sw_db \<Rightarrow> sw_pg_stmt \<Rightarrow> nat \<Rightarrow> int \<times> 'c sw_pg_db sw_db \<times> sw_pg_stmt" where
  "sw_pg_bind_null db st index = sw_pg_bind_owned db st index None 0 0"

definition sw_pg_bind_int :: "'c sw_pg_db sw_db \<Rightarrow> sw_pg_stmt \<Rightarrow> nat \<Rightarrow> int \<Rightarrow> int \<times> 'c sw_pg_db sw_db \<times> sw_pg_stmt" where
  "sw_pg_bind_int db st index v =
     (let buffer = lld_text v in
      if length buffer \<ge> 64 then (-1, db, st)
      else sw_pg_bind_owned db st index (Some buffer) (int (length buffer)) 0)"

definition sw_pg_bind_float :: "(real \<Rightarrow> string) \<Rightarrow> 'c sw_pg_db sw_db \<Rightarrow> sw_pg_stmt \<Rightarrow> nat \<Rightarrow> real \<Rightarrow> int \<times> 'c sw_pg_db sw_db \<times> sw_pg_stmt" where
  "sw_pg_bind_float g17 db st index v =
     (let buffer = g17 v in
      if length buffer \<ge> 128 then (-1, db, st)
      else sw_pg_bind_owned db st index (Some buffer) (int (length buffer)) 0)"

definition sw_pg_bind_text :: "'c sw_pg_db sw_db \<Rightarrow> sw_pg_stmt \<Rightarrow> nat \<Rightarrow> cptr \<Rightarrow> int \<times> 'c sw_pg_db sw_db \<times> sw_pg_stmt" where
  "sw_pg_bind_text db st index v =
     (case v of
        None \<Rightarrow> sw_pg_bind_null db st index
      | Some s \<Rightarrow> sw_pg_bind_owned db st index (Some (cstr s)) (i32_of_sz (length (cstr s))) 0)"

definition sw_pg_bind_blob :: "'c sw_pg_db sw_db \<Rightarrow> sw_pg_stmt \<Rightarrow> nat \<Rightarrow> cptr \<Rightarrow> nat \<Rightarrow> int \<times> 'c sw_pg_db sw_db \<times> sw_pg_stmt" where
  "sw_pg_bind_blob db st index v value_len =
     (case v of
        None \<Rightarrow> sw_pg_bind_null db st index
      | Some bytes \<Rightarrow>
          if value_len > INT_MAX then (-1, set_db_error (Some ''blob value is too large'') db, st)
          else sw_pg_bind_owned db st index (Some (take value_len bytes)) (int value_len) 1)"

definition sw_pg_execute_stmt :: "'c libpq \<Rightarrow> 'c sw_pg_db sw_db \<Rightarrow> sw_pg_stmt \<Rightarrow> bool \<times> 'c sw_pg_db sw_db \<times> sw_pg_stmt" where
  "sw_pg_execute_stmt pq db st =
     (case Option.bind (db_handle db) pd_connection of
        None \<Rightarrow> (False, db, st)
      | Some c \<Rightarrow>
          if length (ps_params st) > INT_MAX then (False, set_db_error (Some ''too many parameters'') db, st)
          else
            let pg_db = the (db_handle db);
                st1 = sw_pg_clear_blob_cache (sw_pg_clear_result st);
                (result, c1) = PQexecParams pq c (ps_sql st) (ps_params st);
                db1 = db\<lparr>db_handle := Some (pg_db\<lparr>pd_connection := Some c1\<rparr>)\<rparr>
            in (case result of
                  None \<Rightarrow> (False, set_db_error (Some (''PostgreSQL step failed: '' @ PQerrorMessage pq c1)) db1, st1)
                | Some r \<Rightarrow>
                    if rs_status r \<noteq> PGRES_COMMAND_OK \<and> rs_status r \<noteq> PGRES_TUPLES_OK
                    then (False, set_db_error (Some (''PostgreSQL step failed: '' @ rs_error r)) db1, sw_pg_clear_result st1)
                    else (True,
                      set_db_error None (db\<lparr>db_handle := Some (pg_db\<lparr>pd_connection := Some c1,
                        pd_changes := sw_pg_cmd_tuples (Some r)\<rparr>)\<rparr>),
                      st1\<lparr>ps_result := Some r, ps_row_index := -1\<rparr>)))"

definition sw_pg_step :: "'c libpq \<Rightarrow> 'c sw_pg_db sw_db \<Rightarrow> sw_pg_stmt \<Rightarrow> sw_db_result \<times> 'c sw_pg_db sw_db \<times> sw_pg_stmt" where
  "sw_pg_step pq db st =
     (let (ready, db1, st1) = (if ps_result st = None then sw_pg_execute_stmt pq db st else (True, db, st)) in
      if \<not> ready then (SW_DB_ERROR, db1, st1)
      else case ps_result st1 of
        None \<Rightarrow> (SW_DB_ERROR, db1, st1)
      | Some r \<Rightarrow>
          if rs_status r \<noteq> PGRES_TUPLES_OK then (SW_DB_DONE, db1, st1)
          else if ps_row_index st1 + 1 < int (length (rs_rows r))
          then (SW_DB_ROW, db1, sw_pg_clear_blob_cache (st1\<lparr>ps_row_index := ps_row_index st1 + 1\<rparr>))
          else (SW_DB_DONE, db1, st1))"

section \<open>Columns\<close>

definition sw_pg_column_count :: "sw_pg_stmt \<Rightarrow> nat" where
  "sw_pg_column_count st = (case ps_result st of None \<Rightarrow> 0 | Some r \<Rightarrow> length (rs_names r))"

definition sw_pg_column_name :: "sw_pg_stmt \<Rightarrow> nat \<Rightarrow> cptr" where
  "sw_pg_column_name st index =
     (let column_index = sw_pg_column_index st index in
      if column_index \<ge> 0 then Some (rs_names (the (ps_result st)) ! nat column_index) else None)"

text \<open>The value at the current row, None for NULL or when there is none: the guard the column functions share.\<close>

definition pg_value :: "sw_pg_stmt \<Rightarrow> nat \<Rightarrow> cptr" where
  "pg_value st index =
     (let row = sw_pg_current_row st; column_index = sw_pg_column_index st index in
      if row < 0 \<or> column_index < 0 then None
      else rs_rows (the (ps_result st)) ! nat row ! nat column_index)"

definition SW_PG_BYTEA_OID :: nat where
  "SW_PG_BYTEA_OID = 17"

definition sw_pg_column_type :: "sw_pg_stmt \<Rightarrow> nat \<Rightarrow> sw_db_value_type" where
  "sw_pg_column_type st index =
     (if pg_value st index = None then SW_DB_VALUE_NULL
      else
        let oid = rs_oids (the (ps_result st)) ! index in
        if oid = 21 \<or> oid = 23 \<or> oid = 20 then SW_DB_VALUE_INTEGER
        else if oid = 700 \<or> oid = 701 \<or> oid = 1700 then SW_DB_VALUE_FLOAT
        else if oid = SW_PG_BYTEA_OID then SW_DB_VALUE_BLOB
        else SW_DB_VALUE_TEXT)"

definition sw_pg_column_text :: "sw_pg_stmt \<Rightarrow> nat \<Rightarrow> cptr" where
  "sw_pg_column_text st index = pg_value st index"

definition sw_pg_column_int :: "sw_pg_stmt \<Rightarrow> nat \<Rightarrow> int" where
  "sw_pg_column_int st index =
     (case sw_pg_column_text st index of None \<Rightarrow> 0 | Some s \<Rightarrow> fst (strtoll10 s))"

definition sw_pg_column_float :: "(string \<Rightarrow> real) \<Rightarrow> sw_pg_stmt \<Rightarrow> nat \<Rightarrow> real" where
  "sw_pg_column_float strtod st index =
     (case sw_pg_column_text st index of None \<Rightarrow> 0 | Some s \<Rightarrow> strtod s)"

text \<open>Length, data and the statement with its cache.\<close>

definition sw_pg_column_blob :: "'c libpq \<Rightarrow> sw_pg_stmt \<Rightarrow> nat \<Rightarrow> nat \<times> cptr \<times> sw_pg_stmt" where
  "sw_pg_column_blob pq st index =
     (case pg_value st index of
        None \<Rightarrow> (0, None, st)
      | Some v \<Rightarrow>
          if rs_oids (the (ps_result st)) ! index = SW_PG_BYTEA_OID then
            (let bytes = PQunescapeBytea pq v
             in (length bytes, Some bytes, st\<lparr>ps_blob_cache := Some bytes\<rparr>))
          else (length v, Some v, sw_pg_clear_blob_cache st))"

section \<open>Statements keep to their indexes\<close>

lemma pg_value_range: "pg_value st i = Some v \<Longrightarrow> i < sw_pg_column_count st"
  by (auto simp: pg_value_def sw_pg_column_index_def sw_pg_column_count_def Let_def split: option.splits if_splits)

interpretation pgs: bounded_statement
  "\<lambda>(db, st) i v. sw_pg_bind_text db st i v" "\<lambda>(db, st). length (ps_params st)"
  "\<lambda>(db, st). sw_pg_column_count st" "\<lambda>(db, st). sw_pg_column_text st" "\<lambda>(db, st). sw_pg_column_type st"
proof (unfold_locales, goal_cases)
  case (1 x i v)
  then show ?case
    by (auto simp: sw_pg_bind_text_def sw_pg_bind_null_def sw_pg_bind_owned_def sw_pg_param_at_def
        split: prod.splits option.splits if_splits)
next
  case (2 x i)
  then show ?case by (auto simp: sw_pg_column_text_def dest: pg_value_range split: prod.splits)
next
  case (3 x i)
  then show ?case
    by (auto simp: sw_pg_column_type_def Let_def dest: pg_value_range split: prod.splits if_splits)
qed

section \<open>Rows\<close>

text \<open>A statement standing on row \<open>k - 1\<close> of a result.\<close>

definition on_row :: "sw_pg_stmt \<Rightarrow> pg_result \<Rightarrow> nat \<Rightarrow> bool" where
  "on_row st r k \<longleftrightarrow> ps_result st = Some r \<and> ps_row_index st = int k - 1 \<and> k \<le> length (rs_rows r)"

definition result_ok :: "pg_result \<Rightarrow> bool" where
  "result_ok r \<longleftrightarrow> rs_status r = PGRES_TUPLES_OK \<and> length (rs_names r) \<le> INT_MAX
     \<and> (\<forall>row\<in>set (rs_rows r). length row = length (rs_names r))"

definition pg_row :: "sw_pg_stmt \<Rightarrow> cptr list" where
  "pg_row st = map (sw_pg_column_text st) [0..<sw_pg_column_count st]"

lemma row_read:
  assumes "on_row st r (Suc k)" "result_ok r"
  shows "pg_row st = rs_rows r ! k"
proof -
  have k: "k < length (rs_rows r)" "ps_result st = Some r" "ps_row_index st = int k"
    using assms(1) by (auto simp: on_row_def)
  have l: "length (rs_rows r ! k) = length (rs_names r)" using assms(2) k(1) by (simp add: result_ok_def)
  show ?thesis
    using k l assms(2)
    by (intro nth_equalityI)
      (auto simp: pg_row_def sw_pg_column_text_def pg_value_def sw_pg_column_count_def sw_pg_current_row_def
        sw_pg_column_index_def result_ok_def Let_def)
qed

lemma step_on_row:
  assumes "on_row st r k" "result_ok r"
  shows "if k < length (rs_rows r)
    then \<exists>st'. sw_pg_step pq db st = (SW_DB_ROW, db, st') \<and> on_row st' r (Suc k)
    else sw_pg_step pq db st = (SW_DB_DONE, db, st)"
  using assms by (auto simp: sw_pg_step_def on_row_def result_ok_def sw_pg_clear_blob_cache_def Let_def)

text \<open>The first step runs the statement.\<close>

lemma step_runs:
  assumes "ps_result st = None" "db_handle db = Some h" "pd_connection h = Some c"
    "length (ps_params st) \<le> INT_MAX" "PQexecParams pq c (ps_sql st) (ps_params st) = (Some r, c1)" "result_ok r"
  shows "\<exists>db1 st1. on_row st1 r 0 \<and> sw_pg_step pq db st = sw_pg_step pq db1 st1"
proof -
  let ?db = "set_db_error None (db\<lparr>db_handle := Some (h\<lparr>pd_connection := Some c1, pd_changes := sw_pg_cmd_tuples (Some r)\<rparr>)\<rparr>)"
  let ?st = "(sw_pg_clear_blob_cache (sw_pg_clear_result st))\<lparr>ps_result := Some r, ps_row_index := -1\<rparr>"
  have "sw_pg_execute_stmt pq db st = (True, ?db, ?st)"
    using assms by (simp add: sw_pg_execute_stmt_def result_ok_def Let_def)
  then have "sw_pg_step pq db st = sw_pg_step pq ?db ?st"
    using assms(1) by (simp add: sw_pg_step_def Let_def)
  then show ?thesis by (intro exI[of _ ?db] exI[of _ ?st]) (simp add: on_row_def)
qed

end
