(* ===== verification/SqliteDriver.thy ===== *)
theory SqliteDriver
  imports Database Complex_Main
begin

text \<open>
  The SQLite driver, \<^verbatim>\<open>src/src/sw_db_sqlite.c\<close>. SQLite is a parameter: the types of its connection
  and its prepared statement are left open, and each call is a function of them. A statement of an
  empty text has no SQLite statement, which SQLite's own calls accept as NULL. A call of SQLite on a
  statement may change the connection too, for its error message.
\<close>

datatype sqlite_rc = SQLITE_OK | SQLITE_ROW | SQLITE_DONE | SQLITE_FAILURE nat

datatype sqlite_type = SQLITE_INTEGER | SQLITE_FLOAT | SQLITE_TEXT | SQLITE_BLOB | SQLITE_NULL

datatype sqlite_value = Sqlite_null | Sqlite_int int | Sqlite_double real | Sqlite_text string | Sqlite_blob string

record ('q, 's) sqlite_lib =
  sqlite3_open_v2 :: "string \<Rightarrow> sqlite_rc \<times> 'q option"
  sqlite3_errmsg :: "'q \<Rightarrow> string"
  sqlite3_busy_timeout :: "'q \<Rightarrow> int \<Rightarrow> 'q"
  sqlite3_exec :: "'q \<Rightarrow> string \<Rightarrow> sqlite_rc \<times> cptr \<times> 'q"
  sqlite3_prepare_v2 :: "'q \<Rightarrow> string \<Rightarrow> sqlite_rc \<times> 's option \<times> 'q"
  sqlite3_reset :: "'q \<Rightarrow> 's \<Rightarrow> sqlite_rc \<times> 'q \<times> 's"
  sqlite3_bind_parameter_count :: "'s \<Rightarrow> nat"
  sqlite3_bind :: "'q \<Rightarrow> 's \<Rightarrow> nat \<Rightarrow> sqlite_value \<Rightarrow> sqlite_rc \<times> 'q \<times> 's"
  sqlite3_step :: "'q \<Rightarrow> 's option \<Rightarrow> sqlite_rc \<times> 'q \<times> 's option"
  sqlite3_column_count :: "'s \<Rightarrow> nat"
  sqlite3_column_name :: "'s \<Rightarrow> nat \<Rightarrow> cptr"
  sqlite3_column_type :: "'s \<Rightarrow> nat \<Rightarrow> sqlite_type"
  sqlite3_column_int64 :: "'s \<Rightarrow> nat \<Rightarrow> int"
  sqlite3_column_double :: "'s \<Rightarrow> nat \<Rightarrow> real"
  sqlite3_column_text :: "'s \<Rightarrow> nat \<Rightarrow> cptr"
  sqlite3_column_blob :: "'s \<Rightarrow> nat \<Rightarrow> cptr"
  sqlite3_column_bytes :: "'s \<Rightarrow> nat \<Rightarrow> int"
  sqlite3_changes :: "'q \<Rightarrow> int"
  sqlite3_last_insert_rowid :: "'q \<Rightarrow> int"

definition sw_sqlite_path_from_url :: "cptr \<Rightarrow> cptr" where
  "sw_sqlite_path_from_url url =
     (case url of None \<Rightarrow> None
      | Some u \<Rightarrow>
          if take 9 (cstr u) \<noteq> ''sqlite://'' then None
          else if drop 9 (cstr u) = [] then None
          else Some (drop 9 (cstr u)))"

section \<open>Indexes and errors\<close>

text \<open>The index of a parameter or column as SQLite takes it, None for -1.\<close>

definition sw_sqlite_bind_index ::
  "('q, 's) sqlite_lib \<Rightarrow> 'q sw_db \<Rightarrow> 's option \<Rightarrow> nat \<Rightarrow> nat option \<times> 'q sw_db" where
  "sw_sqlite_bind_index lib db st index =
     (case st of
        None \<Rightarrow> (None, db)
      | Some s \<Rightarrow>
          if index = 0 \<or> index > INT_MAX then (None, db)
          else if index > sqlite3_bind_parameter_count lib s
          then (None, set_db_error (Some ''bind index out of range'') db)
          else (Some index, db))"

definition sw_sqlite_column_index :: "('q, 's) sqlite_lib \<Rightarrow> 's option \<Rightarrow> nat \<Rightarrow> nat option" where
  "sw_sqlite_column_index lib st index =
     (case st of
        None \<Rightarrow> None
      | Some s \<Rightarrow> if index > INT_MAX then None
                  else if index \<ge> sqlite3_column_count lib s then None else Some index)"

definition sw_sqlite_bind_result :: "('q, 's) sqlite_lib \<Rightarrow> 'q sw_db \<Rightarrow> sqlite_rc \<Rightarrow> string \<Rightarrow> int \<times> 'q sw_db" where
  "sw_sqlite_bind_result lib db rc action =
     (if rc = SQLITE_OK then (0, db)
      else (-1, set_db_error (Some (''SQLite '' @ action @ '' failed: '' @
        (case db_handle db of None \<Rightarrow> ''unknown error'' | Some q \<Rightarrow> sqlite3_errmsg lib q))) db))"

section \<open>Connections\<close>

definition sw_db_open_sqlite ::
  "('q, 's) sqlite_lib \<Rightarrow> sw_db_config option \<Rightarrow> string \<Rightarrow> 'q sw_db option \<times> string" where
  "sw_db_open_sqlite lib config global_error =
     (case config of
        None \<Rightarrow> (None, sw_db_set_global_error (Some ''invalid SQLite configuration''))
      | Some cfg \<Rightarrow>
          (case sw_sqlite_path_from_url (dc_url cfg) of
             None \<Rightarrow> (None, sw_db_set_global_error (Some ''invalid SQLite url''))
           | Some path \<Rightarrow>
               let (rc, sqlite) = sqlite3_open_v2 lib path in
               if rc \<noteq> SQLITE_OK \<or> sqlite = None
               then (None, sw_db_set_global_error (Some (''SQLite open failed: '' @
                       (case sqlite of None \<Rightarrow> ''unknown error'' | Some q \<Rightarrow> sqlite3_errmsg lib q))))
               else
                 let q = (if dc_busy_timeout_ms cfg > 0 then sqlite3_busy_timeout lib (the sqlite) (dc_busy_timeout_ms cfg)
                          else the sqlite)
                 in (Some (sw_db_alloc SW_DB_DRIVER_SQLITE (dc_url cfg) q), global_error)))"

definition sw_sqlite_close :: "'q sw_db \<Rightarrow> 'q sw_db" where
  "sw_sqlite_close db = db\<lparr>db_handle := None\<rparr>"

definition sw_sqlite_exec :: "('q, 's) sqlite_lib \<Rightarrow> 'q sw_db \<Rightarrow> string \<Rightarrow> int \<times> 'q sw_db" where
  "sw_sqlite_exec lib db sql =
     (let (rc, error, q1) = sqlite3_exec lib (the (db_handle db)) sql;
          db1 = db\<lparr>db_handle := Some q1\<rparr>
      in if rc \<noteq> SQLITE_OK
         then (-1, set_db_error (Some (''SQLite exec failed: '' @
                 (case error of Some e \<Rightarrow> e | None \<Rightarrow> sqlite3_errmsg lib q1))) db1)
         else (0, set_db_error None db1))"

definition sw_sqlite_changes :: "('q, 's) sqlite_lib \<Rightarrow> 'q sw_db option \<Rightarrow> int" where
  "sw_sqlite_changes lib db = (case Option.bind db db_handle of None \<Rightarrow> 0 | Some q \<Rightarrow> sqlite3_changes lib q)"

definition sw_sqlite_last_insert_id :: "('q, 's) sqlite_lib \<Rightarrow> 'q sw_db option \<Rightarrow> int" where
  "sw_sqlite_last_insert_id lib db =
     (case Option.bind db db_handle of None \<Rightarrow> 0 | Some q \<Rightarrow> sqlite3_last_insert_rowid lib q)"

section \<open>Statements\<close>

text \<open>The outer option is the statement object, the inner one its SQLite statement.\<close>

definition sw_sqlite_prepare :: "('q, 's) sqlite_lib \<Rightarrow> 'q sw_db \<Rightarrow> string \<Rightarrow> 's option option \<times> 'q sw_db" where
  "sw_sqlite_prepare lib db sql =
     (let (rc, st, q1) = sqlite3_prepare_v2 lib (the (db_handle db)) sql;
          db1 = db\<lparr>db_handle := Some q1\<rparr>
      in if rc \<noteq> SQLITE_OK
         then (None, set_db_error (Some (''SQLite prepare failed: '' @ sqlite3_errmsg lib q1)) db1)
         else (Some st, set_db_error None db1))"

definition sw_sqlite_reset :: "('q, 's) sqlite_lib \<Rightarrow> 'q sw_db \<Rightarrow> 's option \<Rightarrow> int \<times> 'q sw_db \<times> 's option" where
  "sw_sqlite_reset lib db st =
     (case st of
        None \<Rightarrow> (-1, db, st)
      | Some s \<Rightarrow>
          let (rc, q1, s1) = sqlite3_reset lib (the (db_handle db)) s;
              db1 = db\<lparr>db_handle := Some q1\<rparr>
          in if rc \<noteq> SQLITE_OK
             then (-1, set_db_error (Some (''SQLite reset failed: '' @ sqlite3_errmsg lib q1)) db1, Some s1)
             else (0, db1, Some s1))"

text \<open>What the bind functions share: the index, the call, the result.\<close>

definition sqlite_bind_value :: "('q, 's) sqlite_lib \<Rightarrow> 'q sw_db \<Rightarrow> 's option \<Rightarrow> nat \<Rightarrow> sqlite_value \<Rightarrow> string
    \<Rightarrow> int \<times> 'q sw_db \<times> 's option" where
  "sqlite_bind_value lib db st index v action =
     (case sw_sqlite_bind_index lib db st index of
        (None, db1) \<Rightarrow> (-1, db1, st)
      | (Some i, db1) \<Rightarrow>
          let (rc, q1, s1) = sqlite3_bind lib (the (db_handle db1)) (the st) i v;
              (result, db2) = sw_sqlite_bind_result lib (db1\<lparr>db_handle := Some q1\<rparr>) rc action
          in (result, db2, Some s1))"

definition sw_sqlite_bind_null :: "('q, 's) sqlite_lib \<Rightarrow> 'q sw_db \<Rightarrow> 's option \<Rightarrow> nat \<Rightarrow> int \<times> 'q sw_db \<times> 's option" where
  "sw_sqlite_bind_null lib db st index = sqlite_bind_value lib db st index Sqlite_null ''bind null''"

definition sw_sqlite_bind_int :: "('q, 's) sqlite_lib \<Rightarrow> 'q sw_db \<Rightarrow> 's option \<Rightarrow> nat \<Rightarrow> int \<Rightarrow> int \<times> 'q sw_db \<times> 's option" where
  "sw_sqlite_bind_int lib db st index v = sqlite_bind_value lib db st index (Sqlite_int v) ''bind int''"

definition sw_sqlite_bind_float :: "('q, 's) sqlite_lib \<Rightarrow> 'q sw_db \<Rightarrow> 's option \<Rightarrow> nat \<Rightarrow> real \<Rightarrow> int \<times> 'q sw_db \<times> 's option" where
  "sw_sqlite_bind_float lib db st index v = sqlite_bind_value lib db st index (Sqlite_double v) ''bind float''"

definition sw_sqlite_bind_text :: "('q, 's) sqlite_lib \<Rightarrow> 'q sw_db \<Rightarrow> 's option \<Rightarrow> nat \<Rightarrow> cptr \<Rightarrow> int \<times> 'q sw_db \<times> 's option" where
  "sw_sqlite_bind_text lib db st index v =
     (case v of None \<Rightarrow> sw_sqlite_bind_null lib db st index
      | Some s \<Rightarrow> sqlite_bind_value lib db st index (Sqlite_text (cstr s)) ''bind text'')"

definition sw_sqlite_bind_blob :: "('q, 's) sqlite_lib \<Rightarrow> 'q sw_db \<Rightarrow> 's option \<Rightarrow> nat \<Rightarrow> cptr \<Rightarrow> nat \<Rightarrow> int \<times> 'q sw_db \<times> 's option" where
  "sw_sqlite_bind_blob lib db st index v value_len =
     (case sw_sqlite_bind_index lib db st index of
        (None, db1) \<Rightarrow> (-1, db1, st)
      | (Some i, db1) \<Rightarrow>
          (case v of
             None \<Rightarrow> sw_sqlite_bind_null lib db1 st index
           | Some bytes \<Rightarrow>
               if value_len > INT_MAX then (-1, set_db_error (Some ''blob value is too large'') db1, st)
               else sqlite_bind_value lib db1 st index (Sqlite_blob (take value_len bytes)) ''bind blob''))"

definition sw_sqlite_step :: "('q, 's) sqlite_lib \<Rightarrow> 'q sw_db \<Rightarrow> 's option \<Rightarrow> sw_db_result \<times> 'q sw_db \<times> 's option" where
  "sw_sqlite_step lib db st =
     (let (rc, q1, st1) = sqlite3_step lib (the (db_handle db)) st;
          db1 = db\<lparr>db_handle := Some q1\<rparr>
      in if rc = SQLITE_ROW then (SW_DB_ROW, db1, st1)
         else if rc = SQLITE_DONE then (SW_DB_DONE, db1, st1)
         else (SW_DB_ERROR, set_db_error (Some (''SQLite step failed: '' @ sqlite3_errmsg lib q1)) db1, st1))"

section \<open>Columns\<close>

definition sw_sqlite_column_count :: "('q, 's) sqlite_lib \<Rightarrow> 's option \<Rightarrow> nat" where
  "sw_sqlite_column_count lib st = (case st of None \<Rightarrow> 0 | Some s \<Rightarrow> sqlite3_column_count lib s)"

definition sw_sqlite_column_name :: "('q, 's) sqlite_lib \<Rightarrow> 's option \<Rightarrow> nat \<Rightarrow> cptr" where
  "sw_sqlite_column_name lib st index =
     (case sw_sqlite_column_index lib st index of None \<Rightarrow> None | Some i \<Rightarrow> sqlite3_column_name lib (the st) i)"

definition sw_sqlite_column_type :: "('q, 's) sqlite_lib \<Rightarrow> 's option \<Rightarrow> nat \<Rightarrow> sw_db_value_type" where
  "sw_sqlite_column_type lib st index =
     (case sw_sqlite_column_index lib st index of
        None \<Rightarrow> SW_DB_VALUE_NULL
      | Some i \<Rightarrow>
          (case sqlite3_column_type lib (the st) i of
             SQLITE_INTEGER \<Rightarrow> SW_DB_VALUE_INTEGER
           | SQLITE_FLOAT \<Rightarrow> SW_DB_VALUE_FLOAT
           | SQLITE_TEXT \<Rightarrow> SW_DB_VALUE_TEXT
           | SQLITE_BLOB \<Rightarrow> SW_DB_VALUE_BLOB
           | SQLITE_NULL \<Rightarrow> SW_DB_VALUE_NULL))"

definition sw_sqlite_column_int :: "('q, 's) sqlite_lib \<Rightarrow> 's option \<Rightarrow> nat \<Rightarrow> int" where
  "sw_sqlite_column_int lib st index =
     (case sw_sqlite_column_index lib st index of None \<Rightarrow> 0 | Some i \<Rightarrow> sqlite3_column_int64 lib (the st) i)"

definition sw_sqlite_column_float :: "('q, 's) sqlite_lib \<Rightarrow> 's option \<Rightarrow> nat \<Rightarrow> real" where
  "sw_sqlite_column_float lib st index =
     (case sw_sqlite_column_index lib st index of None \<Rightarrow> 0 | Some i \<Rightarrow> sqlite3_column_double lib (the st) i)"

definition sw_sqlite_column_text :: "('q, 's) sqlite_lib \<Rightarrow> 's option \<Rightarrow> nat \<Rightarrow> cptr" where
  "sw_sqlite_column_text lib st index =
     (case sw_sqlite_column_index lib st index of None \<Rightarrow> None | Some i \<Rightarrow> sqlite3_column_text lib (the st) i)"

definition sw_sqlite_column_blob :: "('q, 's) sqlite_lib \<Rightarrow> 's option \<Rightarrow> nat \<Rightarrow> nat \<times> cptr" where
  "sw_sqlite_column_blob lib st index =
     (case sw_sqlite_column_index lib st index of
        None \<Rightarrow> (0, None)
      | Some i \<Rightarrow> (nat (max 0 (sqlite3_column_bytes lib (the st) i)), sqlite3_column_blob lib (the st) i))"

section \<open>Statements keep to their indexes\<close>

interpretation sqs: bounded_statement
  "\<lambda>(lib, db, st) i v. case sw_sqlite_bind_text lib db st i v of (rc, db1, st1) \<Rightarrow> (rc, lib, db1, st1)"
  "\<lambda>(lib, db, st). case st of None \<Rightarrow> 0 | Some s \<Rightarrow> sqlite3_bind_parameter_count lib s"
  "\<lambda>(lib, db, st). sw_sqlite_column_count lib st"
  "\<lambda>(lib, db, st). sw_sqlite_column_text lib st" "\<lambda>(lib, db, st). sw_sqlite_column_type lib st"
proof (unfold_locales, goal_cases)
  case (1 x i v)
  then show ?case
    by (auto simp: sw_sqlite_bind_text_def sw_sqlite_bind_null_def sqlite_bind_value_def sw_sqlite_bind_index_def
        split: prod.splits option.splits if_splits)
next
  case (2 x i)
  then show ?case
    by (auto simp: sw_sqlite_column_text_def sw_sqlite_column_index_def sw_sqlite_column_count_def
        split: prod.splits option.splits if_splits)
next
  case (3 x i)
  then show ?case
    by (auto simp: sw_sqlite_column_type_def sw_sqlite_column_index_def sw_sqlite_column_count_def
        split: prod.splits option.splits if_splits)
qed

end
