(* ===== verification/DbFacade.thy ===== *)
theory DbFacade
  imports PgDriver SqliteDriver
begin

text \<open>
  The database interface of \<^verbatim>\<open>src/src/sw_db.c\<close> over the two drivers. The driver table of an object
  says which driver it belongs to, so an object carries the driver's name as its constructor and a
  call through the table is a case distinction; all entries of both tables are filled. A statement
  is kept together with the database it points to. NULL is None. Closing and finalizing release
  the object.
\<close>

datatype ('c, 'q) any_db = Pg_db "'c sw_pg_db sw_db" | Sq_db "'q sw_db"

datatype ('c, 'q, 's) any_stmt = Pg_stmt "'c sw_pg_db sw_db" sw_pg_stmt | Sq_stmt "'q sw_db" "'s option"

text \<open>The client libraries, which of them are built in, and printing and reading of floating point numbers.\<close>

record ('c, 'q, 's) db_env =
  ev_has_sqlite :: bool
  ev_has_postgres :: bool
  ev_sqlite :: "('q, 's) sqlite_lib"
  ev_pq :: "'c libpq"
  ev_g17 :: "real \<Rightarrow> string"
  ev_strtod :: "string \<Rightarrow> real"

section \<open>Opening and closing\<close>

definition sw_db_url_starts :: "cptr \<Rightarrow> string \<Rightarrow> bool" where
  "sw_db_url_starts url url_prefix =
     (case url of None \<Rightarrow> False | Some u \<Rightarrow> take (length url_prefix) (cstr u) = url_prefix)"

definition effective_config :: "sw_db_config option \<Rightarrow> sw_db_config" where
  "effective_config config =
     (case config of
        None \<Rightarrow> sw_db_config_default
      | Some c \<Rightarrow> \<lparr>dc_url = (if dc_url c \<noteq> None then dc_url c else dc_url sw_db_config_default),
                   dc_busy_timeout_ms = (if dc_busy_timeout_ms c \<ge> 0 then dc_busy_timeout_ms c
                                         else dc_busy_timeout_ms sw_db_config_default)\<rparr>)"

text \<open>The database, or None with the process-wide error text.\<close>

definition sw_db_open :: "('c, 'q, 's) db_env \<Rightarrow> sw_db_config option \<Rightarrow> ('c, 'q) any_db option \<times> string" where
  "sw_db_open env config =
     (let effective = effective_config config;
          url = dc_url effective;
          global_error = sw_db_set_global_error None
      in if url = None \<or> cstr (the url) = [] then (None, sw_db_set_global_error (Some ''database url is empty''))
         else if sw_db_url_starts url ''sqlite://'' then
           if ev_has_sqlite env
           then (let (db, e) = sw_db_open_sqlite (ev_sqlite env) (Some effective) global_error in (map_option Sq_db db, e))
           else (None, sw_db_set_global_error (Some ''SQLite support is not enabled''))
         else if sw_db_url_starts url ''postgres://'' \<or> sw_db_url_starts url ''postgresql://'' then
           if ev_has_postgres env
           then (let (db, e) = sw_db_open_postgres (ev_pq env) (Some effective) global_error in (map_option Pg_db db, e))
           else (None, sw_db_set_global_error (Some ''PostgreSQL support is not enabled''))
         else (None, sw_db_set_global_error (Some (''unsupported database url: '' @ cstr (the url)))))"

definition sw_db_get_driver :: "('c, 'q) any_db option \<Rightarrow> sw_db_driver" where
  "sw_db_get_driver db =
     (case db of None \<Rightarrow> SW_DB_DRIVER_NONE | Some (Pg_db d) \<Rightarrow> db_driver d | Some (Sq_db d) \<Rightarrow> db_driver d)"

definition sw_db_driver_name :: "sw_db_driver \<Rightarrow> string" where
  "sw_db_driver_name driver =
     (case driver of SW_DB_DRIVER_SQLITE \<Rightarrow> ''sqlite'' | SW_DB_DRIVER_POSTGRES \<Rightarrow> ''postgres''
      | SW_DB_DRIVER_NONE \<Rightarrow> ''none'')"

definition sw_db_error :: "('c, 'q) any_db option \<Rightarrow> string \<Rightarrow> string" where
  "sw_db_error db global_error =
     (case db of None \<Rightarrow> global_error | Some (Pg_db d) \<Rightarrow> db_error d | Some (Sq_db d) \<Rightarrow> db_error d)"

definition set_any_error :: "cptr \<Rightarrow> ('c, 'q) any_db \<Rightarrow> ('c, 'q) any_db" where
  "set_any_error message db =
     (case db of Pg_db d \<Rightarrow> Pg_db (set_db_error message d) | Sq_db d \<Rightarrow> Sq_db (set_db_error message d))"

section \<open>Statements without parameters\<close>

definition sw_db_exec :: "('c, 'q, 's) db_env \<Rightarrow> ('c, 'q) any_db option \<Rightarrow> cptr \<Rightarrow> string \<Rightarrow> int \<times> ('c, 'q) any_db option \<times> string" where
  "sw_db_exec env db sql global_error =
     (case db of
        None \<Rightarrow> (-1, None, sw_db_vset_error 512 (Some ''database is not open''))
      | Some d \<Rightarrow>
          (case sql of
             None \<Rightarrow> (-1, Some (set_any_error (Some ''sql is null'') d), global_error)
           | Some s \<Rightarrow>
               (case d of
                  Pg_db p \<Rightarrow> (let (rc, p1) = sw_pg_exec (ev_pq env) p s in (rc, Some (Pg_db p1), global_error))
                | Sq_db q \<Rightarrow> (let (rc, q1) = sw_sqlite_exec (ev_sqlite env) q s in (rc, Some (Sq_db q1), global_error)))))"

definition sw_db_begin :: "('c, 'q, 's) db_env \<Rightarrow> ('c, 'q) any_db option \<Rightarrow> string \<Rightarrow> int \<times> ('c, 'q) any_db option \<times> string" where
  "sw_db_begin env db = sw_db_exec env db (Some ''BEGIN'')"

definition sw_db_commit :: "('c, 'q, 's) db_env \<Rightarrow> ('c, 'q) any_db option \<Rightarrow> string \<Rightarrow> int \<times> ('c, 'q) any_db option \<times> string" where
  "sw_db_commit env db = sw_db_exec env db (Some ''COMMIT'')"

definition sw_db_rollback :: "('c, 'q, 's) db_env \<Rightarrow> ('c, 'q) any_db option \<Rightarrow> string \<Rightarrow> int \<times> ('c, 'q) any_db option \<times> string" where
  "sw_db_rollback env db = sw_db_exec env db (Some ''ROLLBACK'')"

definition sw_db_changes :: "('c, 'q, 's) db_env \<Rightarrow> ('c, 'q) any_db option \<Rightarrow> int" where
  "sw_db_changes env db =
     (case db of None \<Rightarrow> 0 | Some (Pg_db d) \<Rightarrow> sw_pg_changes (Some d) | Some (Sq_db d) \<Rightarrow> sw_sqlite_changes (ev_sqlite env) (Some d))"

definition sw_db_last_insert_id :: "('c, 'q, 's) db_env \<Rightarrow> ('c, 'q) any_db option \<Rightarrow> int" where
  "sw_db_last_insert_id env db =
     (case db of None \<Rightarrow> 0 | Some (Pg_db d) \<Rightarrow> sw_pg_last_insert_id (Some d)
      | Some (Sq_db d) \<Rightarrow> sw_sqlite_last_insert_id (ev_sqlite env) (Some d))"

section \<open>Prepared statements\<close>

definition sw_db_prepare :: "('c, 'q, 's) db_env \<Rightarrow> ('c, 'q) any_db option \<Rightarrow> cptr \<Rightarrow> string
    \<Rightarrow> ('c, 'q, 's) any_stmt option \<times> ('c, 'q) any_db option \<times> string" where
  "sw_db_prepare env db sql global_error =
     (case db of
        None \<Rightarrow> (None, None, sw_db_vset_error 512 (Some ''database is not open''))
      | Some d \<Rightarrow>
          (case sql of
             None \<Rightarrow> (None, Some (set_any_error (Some ''sql is null'') d), global_error)
           | Some s \<Rightarrow>
               (case d of
                  Pg_db p \<Rightarrow> (let (st, p1) = sw_pg_prepare p s in (map_option (Pg_stmt p1) st, Some (Pg_db p1), global_error))
                | Sq_db q \<Rightarrow> (let (st, q1) = sw_sqlite_prepare (ev_sqlite env) q s in (map_option (Sq_stmt q1) st, Some (Sq_db q1), global_error)))))"

text \<open>The result of a driver operation as a statement with its database.\<close>

definition pg_result_of :: "'r \<times> 'c sw_pg_db sw_db \<times> sw_pg_stmt \<Rightarrow> 'r \<times> ('c, 'q, 's) any_stmt option" where
  "pg_result_of x = (fst x, Some (Pg_stmt (fst (snd x)) (snd (snd x))))"

definition sq_result_of :: "'r \<times> 'q sw_db \<times> 's option \<Rightarrow> 'r \<times> ('c, 'q, 's) any_stmt option" where
  "sq_result_of x = (fst x, Some (Sq_stmt (fst (snd x)) (snd (snd x))))"

definition sw_db_reset :: "('c, 'q, 's) db_env \<Rightarrow> ('c, 'q, 's) any_stmt option \<Rightarrow> int \<times> ('c, 'q, 's) any_stmt option" where
  "sw_db_reset env stmt =
     (case stmt of
        None \<Rightarrow> (-1, None)
      | Some (Pg_stmt db st) \<Rightarrow> (fst (sw_pg_reset st), Some (Pg_stmt db (snd (sw_pg_reset st))))
      | Some (Sq_stmt db st) \<Rightarrow> sq_result_of (sw_sqlite_reset (ev_sqlite env) db st))"

definition sw_db_bind_null :: "('c, 'q, 's) db_env \<Rightarrow> ('c, 'q, 's) any_stmt option \<Rightarrow> nat \<Rightarrow> int \<times> ('c, 'q, 's) any_stmt option" where
  "sw_db_bind_null env stmt index =
     (case stmt of
        None \<Rightarrow> (-1, None)
      | Some (Pg_stmt db st) \<Rightarrow> pg_result_of (sw_pg_bind_null db st index)
      | Some (Sq_stmt db st) \<Rightarrow> sq_result_of (sw_sqlite_bind_null (ev_sqlite env) db st index))"

definition sw_db_bind_int :: "('c, 'q, 's) db_env \<Rightarrow> ('c, 'q, 's) any_stmt option \<Rightarrow> nat \<Rightarrow> int \<Rightarrow> int \<times> ('c, 'q, 's) any_stmt option" where
  "sw_db_bind_int env stmt index v =
     (case stmt of
        None \<Rightarrow> (-1, None)
      | Some (Pg_stmt db st) \<Rightarrow> pg_result_of (sw_pg_bind_int db st index v)
      | Some (Sq_stmt db st) \<Rightarrow> sq_result_of (sw_sqlite_bind_int (ev_sqlite env) db st index v))"

definition sw_db_bind_float :: "('c, 'q, 's) db_env \<Rightarrow> ('c, 'q, 's) any_stmt option \<Rightarrow> nat \<Rightarrow> real \<Rightarrow> int \<times> ('c, 'q, 's) any_stmt option" where
  "sw_db_bind_float env stmt index v =
     (case stmt of
        None \<Rightarrow> (-1, None)
      | Some (Pg_stmt db st) \<Rightarrow> pg_result_of (sw_pg_bind_float (ev_g17 env) db st index v)
      | Some (Sq_stmt db st) \<Rightarrow> sq_result_of (sw_sqlite_bind_float (ev_sqlite env) db st index v))"

definition sw_db_bind_text :: "('c, 'q, 's) db_env \<Rightarrow> ('c, 'q, 's) any_stmt option \<Rightarrow> nat \<Rightarrow> cptr \<Rightarrow> int \<times> ('c, 'q, 's) any_stmt option" where
  "sw_db_bind_text env stmt index v =
     (case stmt of
        None \<Rightarrow> (-1, None)
      | Some (Pg_stmt db st) \<Rightarrow> pg_result_of (sw_pg_bind_text db st index v)
      | Some (Sq_stmt db st) \<Rightarrow> sq_result_of (sw_sqlite_bind_text (ev_sqlite env) db st index v))"

definition sw_db_bind_blob :: "('c, 'q, 's) db_env \<Rightarrow> ('c, 'q, 's) any_stmt option \<Rightarrow> nat \<Rightarrow> cptr \<Rightarrow> nat \<Rightarrow> int \<times> ('c, 'q, 's) any_stmt option" where
  "sw_db_bind_blob env stmt index v value_len =
     (case stmt of
        None \<Rightarrow> (-1, None)
      | Some (Pg_stmt db st) \<Rightarrow> pg_result_of (sw_pg_bind_blob db st index v value_len)
      | Some (Sq_stmt db st) \<Rightarrow> sq_result_of (sw_sqlite_bind_blob (ev_sqlite env) db st index v value_len))"

definition sw_db_step :: "('c, 'q, 's) db_env \<Rightarrow> ('c, 'q, 's) any_stmt option \<Rightarrow> sw_db_result \<times> ('c, 'q, 's) any_stmt option" where
  "sw_db_step env stmt =
     (case stmt of
        None \<Rightarrow> (SW_DB_ERROR, None)
      | Some (Pg_stmt db st) \<Rightarrow> pg_result_of (sw_pg_step (ev_pq env) db st)
      | Some (Sq_stmt db st) \<Rightarrow> sq_result_of (sw_sqlite_step (ev_sqlite env) db st))"

section \<open>Columns\<close>

definition sw_db_column_count :: "('c, 'q, 's) db_env \<Rightarrow> ('c, 'q, 's) any_stmt option \<Rightarrow> nat" where
  "sw_db_column_count env stmt =
     (case stmt of None \<Rightarrow> 0 | Some (Pg_stmt db st) \<Rightarrow> sw_pg_column_count st
      | Some (Sq_stmt db st) \<Rightarrow> sw_sqlite_column_count (ev_sqlite env) st)"

definition sw_db_column_name :: "('c, 'q, 's) db_env \<Rightarrow> ('c, 'q, 's) any_stmt option \<Rightarrow> nat \<Rightarrow> cptr" where
  "sw_db_column_name env stmt index =
     (case stmt of None \<Rightarrow> None | Some (Pg_stmt db st) \<Rightarrow> sw_pg_column_name st index
      | Some (Sq_stmt db st) \<Rightarrow> sw_sqlite_column_name (ev_sqlite env) st index)"

definition sw_db_column_type :: "('c, 'q, 's) db_env \<Rightarrow> ('c, 'q, 's) any_stmt option \<Rightarrow> nat \<Rightarrow> sw_db_value_type" where
  "sw_db_column_type env stmt index =
     (case stmt of None \<Rightarrow> SW_DB_VALUE_NULL | Some (Pg_stmt db st) \<Rightarrow> sw_pg_column_type st index
      | Some (Sq_stmt db st) \<Rightarrow> sw_sqlite_column_type (ev_sqlite env) st index)"

definition sw_db_column_int :: "('c, 'q, 's) db_env \<Rightarrow> ('c, 'q, 's) any_stmt option \<Rightarrow> nat \<Rightarrow> int" where
  "sw_db_column_int env stmt index =
     (case stmt of None \<Rightarrow> 0 | Some (Pg_stmt db st) \<Rightarrow> sw_pg_column_int st index
      | Some (Sq_stmt db st) \<Rightarrow> sw_sqlite_column_int (ev_sqlite env) st index)"

definition sw_db_column_float :: "('c, 'q, 's) db_env \<Rightarrow> ('c, 'q, 's) any_stmt option \<Rightarrow> nat \<Rightarrow> real" where
  "sw_db_column_float env stmt index =
     (case stmt of None \<Rightarrow> 0 | Some (Pg_stmt db st) \<Rightarrow> sw_pg_column_float (ev_strtod env) st index
      | Some (Sq_stmt db st) \<Rightarrow> sw_sqlite_column_float (ev_sqlite env) st index)"

definition sw_db_column_text :: "('c, 'q, 's) db_env \<Rightarrow> ('c, 'q, 's) any_stmt option \<Rightarrow> nat \<Rightarrow> cptr" where
  "sw_db_column_text env stmt index =
     (case stmt of None \<Rightarrow> None | Some (Pg_stmt db st) \<Rightarrow> sw_pg_column_text st index
      | Some (Sq_stmt db st) \<Rightarrow> sw_sqlite_column_text (ev_sqlite env) st index)"

definition sw_db_column_blob :: "('c, 'q, 's) db_env \<Rightarrow> ('c, 'q, 's) any_stmt option \<Rightarrow> nat
    \<Rightarrow> nat \<times> cptr \<times> ('c, 'q, 's) any_stmt option" where
  "sw_db_column_blob env stmt index =
     (case stmt of
        None \<Rightarrow> (0, None, None)
      | Some (Pg_stmt db st) \<Rightarrow>
          (let (len, data, st1) = sw_pg_column_blob (ev_pq env) st index in (len, data, Some (Pg_stmt db st1)))
      | Some (Sq_stmt db st) \<Rightarrow>
          (let (len, data) = sw_sqlite_column_blob (ev_sqlite env) st index in (len, data, Some (Sq_stmt db st))))"

section \<open>Running a query\<close>

text \<open>Binding texts to the parameters from \<open>index\<close> on, and stepping \<open>n\<close> times with the row each step gives.\<close>

fun bind_texts :: "('c, 'q, 's) db_env \<Rightarrow> ('c, 'q, 's) any_stmt option \<Rightarrow> nat \<Rightarrow> cptr list \<Rightarrow> bool \<times> ('c, 'q, 's) any_stmt option" where
  "bind_texts env stmt index [] = (True, stmt)"
| "bind_texts env stmt index (v # vs) =
     (let (rc, stmt1) = sw_db_bind_text env stmt index v in
      if rc \<noteq> 0 then (False, stmt1) else bind_texts env stmt1 (index + 1) vs)"

primrec fetch :: "('c, 'q, 's) db_env \<Rightarrow> nat \<Rightarrow> ('c, 'q, 's) any_stmt option \<Rightarrow> (sw_db_result \<times> cptr list) list" where
  "fetch env 0 stmt = []"
| "fetch env (Suc n) stmt =
     (let (result, stmt1) = sw_db_step env stmt in
      (result, if result = SW_DB_ROW then map (sw_db_column_text env stmt1) [0..<sw_db_column_count env stmt1] else [])
        # fetch env n stmt1)"

text \<open>What the server is sent for a text value, and what reading a result means.\<close>

definition text_param :: "cptr \<Rightarrow> sw_pg_param" where
  "text_param v = (case v of None \<Rightarrow> sw_pg_param_clear
     | Some s \<Rightarrow> \<lparr>pp_data = Some (cstr s), pp_len = i32_of_sz (length (cstr s)), pp_format = 0\<rparr>)"

definition result_rows :: "pg_result \<Rightarrow> nat \<Rightarrow> (sw_db_result \<times> cptr list) list" where
  "result_rows r extra = map (Pair SW_DB_ROW) (rs_rows r) @ replicate extra (SW_DB_DONE, [])"

lemma fetch_pg:
  "fetch env (Suc n) (Some (Pg_stmt db st)) =
     (case sw_pg_step (ev_pq env) db st of (result, db1, st1) \<Rightarrow>
        (result, if result = SW_DB_ROW then pg_row st1 else []) # fetch env n (Some (Pg_stmt db1 st1)))"
  by (cases "sw_pg_step (ev_pq env) db st")
    (simp add: sw_db_step_def pg_result_of_def pg_row_def sw_db_column_text_def sw_db_column_count_def)

lemma fetch_done:
  assumes "on_row st r (length (rs_rows r))" "result_ok r"
  shows "fetch env n (Some (Pg_stmt db st)) = replicate n (SW_DB_DONE, [])"
proof (induction n)
  case (Suc n)
  with step_on_row[OF assms, of "ev_pq env" db] show ?case by (simp add: fetch_pg del: fetch.simps(2))
qed simp

lemma fetch_rows:
  assumes "on_row st r k" "result_ok r"
  shows "fetch env (length (rs_rows r) - k + n) (Some (Pg_stmt db st)) =
    map (Pair SW_DB_ROW) (drop k (rs_rows r)) @ replicate n (SW_DB_DONE, [])"
  using assms(1)
proof (induction "length (rs_rows r) - k" arbitrary: k st)
  case 0
  then have "k = length (rs_rows r)" by (simp add: on_row_def)
  with 0 fetch_done[OF _ assms(2)] show ?case by simp
next
  case (Suc m)
  then have k: "k < length (rs_rows r)" by simp
  from step_on_row[OF Suc.prems assms(2), of "ev_pq env" db] k obtain st' where
    st': "sw_pg_step (ev_pq env) db st = (SW_DB_ROW, db, st')" "on_row st' r (Suc k)" by auto
  have "length (rs_rows r) - k + n = Suc (length (rs_rows r) - Suc k + n)" using k by simp
  moreover have "drop k (rs_rows r) = rs_rows r ! k # drop (Suc k) (rs_rows r)" using k by (simp add: Cons_nth_drop_Suc)
  moreover have "m = length (rs_rows r) - Suc k" using Suc.hyps(2) by simp
  ultimately show ?case
    using st' row_read[OF st'(2) assms(2)] Suc.hyps(1)[of "Suc k" st'] by (simp add: fetch_pg del: fetch.simps(2))
qed

lemma fetch_runs:
  assumes "ps_result st = None" "db_handle db = Some h" "pd_connection h = Some c"
    "length (ps_params st) \<le> INT_MAX" "PQexecParams (ev_pq env) c (ps_sql st) (ps_params st) = (Some r, c1)" "result_ok r"
  shows "fetch env (length (rs_rows r) + n) (Some (Pg_stmt db st)) = result_rows r n"
proof -
  obtain db1 st1 where s: "on_row st1 r 0" "sw_pg_step (ev_pq env) db st = sw_pg_step (ev_pq env) db1 st1"
    using step_runs[OF assms] by blast
  have "fetch env m (Some (Pg_stmt db st)) = fetch env m (Some (Pg_stmt db1 st1))" if "m \<noteq> 0" for m
    using that s(2) by (cases m) (simp_all only: fetch_pg)
  with fetch_rows[OF s(1) assms(6), of env n db1] show ?thesis
    by (cases "length (rs_rows r) + n = 0") (auto simp: result_rows_def)
qed

lemma bind_texts_pg:
  assumes "length (ps_params st) = k + length vs" "ps_result st = None"
  shows "\<exists>st'. bind_texts env (Some (Pg_stmt db st)) (k + 1) vs = (True, Some (Pg_stmt db st'))
    \<and> ps_sql st' = ps_sql st \<and> ps_result st' = None \<and> ps_params st' = take k (ps_params st) @ map text_param vs"
  using assms
proof (induction vs arbitrary: st k)
  case Nil
  then show ?case by simp
next
  case (Cons v vs)
  let ?st = "st\<lparr>ps_params := (ps_params st)[k := text_param v]\<rparr>"
  have "sw_db_bind_text env (Some (Pg_stmt db st)) (k + 1) v = (0, Some (Pg_stmt db ?st))"
    using Cons.prems(1)
    by (auto simp: sw_db_bind_text_def pg_result_of_def sw_pg_bind_text_def sw_pg_bind_null_def sw_pg_bind_owned_def
        sw_pg_param_at_def text_param_def sw_pg_param_clear_def split: option.split)
  moreover have "take (Suc k) ((ps_params st)[k := text_param v]) = take k (ps_params st) @ [text_param v]"
    using Cons.prems(1) by (simp add: take_Suc_conv_app_nth)
  ultimately show ?case using Cons.IH[of ?st "Suc k"] Cons.prems by simp
qed

section \<open>Properties\<close>

text \<open>
  C31. A query on PostgreSQL runs as written. Prepare any statement given by its lexical elements,
  bind a text or NULL to each of its placeholders, and step: the server gets the statement with
  the placeholders numbered and exactly these values in this order; the steps then give the rows of
  its answer one by one, each with its column values, and after the last row every further step
  says done.
\<close>

theorem query_runs:
  assumes "sql_ok ps" "placeholders ps \<le> INT_MAX" "NUL \<notin> set (render_sql ps)" "length vs = placeholders ps"
    and "db_handle db = Some h" "pd_connection h = Some c"
    and "PQexecParams (ev_pq env) c (numbered_sql 0 ps) (map text_param vs) = (Some r, c1)" "result_ok r"
  shows "\<exists>stmt db1 bound. sw_db_prepare env (Some (Pg_db db)) (Some (render_sql ps)) e = (Some stmt, Some db1, e)
    \<and> bind_texts env (Some stmt) 1 vs = (True, bound)
    \<and> fetch env (length (rs_rows r) + n) bound = result_rows r n"
proof -
  have rw: "sw_pg_rewrite_sql (Some (render_sql ps)) = Some (numbered_sql 0 ps, placeholders ps)"
    using rewrite_pieces[OF assms(1), of 0 "[]"] assms(2,3) by (simp add: sw_pg_rewrite_sql_def cstr_ident)
  let ?st = "\<lparr>ps_sql = numbered_sql 0 ps, ps_params = replicate (placeholders ps) sw_pg_param_clear, ps_result = None,
    ps_row_index = -1, ps_blob_cache = None\<rparr>" and ?db = "set_db_error None db"
  have "sw_db_prepare env (Some (Pg_db db)) (Some (render_sql ps)) e = (Some (Pg_stmt ?db ?st), Some (Pg_db ?db), e)"
    by (simp add: sw_db_prepare_def sw_pg_prepare_def rw)
  moreover obtain st' where b: "bind_texts env (Some (Pg_stmt ?db ?st)) 1 vs = (True, Some (Pg_stmt ?db st'))"
    "ps_sql st' = numbered_sql 0 ps" "ps_result st' = None" "ps_params st' = map text_param vs"
    using bind_texts_pg[of ?st 0 vs env ?db] assms(4) by auto
  moreover have "fetch env (length (rs_rows r) + n) (Some (Pg_stmt ?db st')) = result_rows r n"
    by (rule fetch_runs[of _ _ h c _ _ c1]) (use b assms in simp_all)
  ultimately show ?thesis by blast
qed

text \<open>A server that answers every statement with the values it was sent.\<close>

definition echo_pq :: "unit libpq" where
  "echo_pq = \<lparr>PQconnectdb = (\<lambda>url. Some ()), PQstatus_ok = (\<lambda>c. True), PQerrorMessage = (\<lambda>c. []),
     PQexec = (\<lambda>c sql. (None, c)),
     PQexecParams = (\<lambda>c sql params. (Some \<lparr>rs_status = PGRES_TUPLES_OK, rs_names = [''v''], rs_oids = [25],
       rs_rows = map (\<lambda>p. [pp_data p]) params, rs_cmd_tuples = [], rs_error = sql\<rparr>, c)),
     PQunescapeBytea = id\<rparr>"

definition no_sqlite :: "(unit, unit) sqlite_lib" where
  "no_sqlite = \<lparr>sqlite3_open_v2 = (\<lambda>path. (SQLITE_FAILURE 14, None)), sqlite3_errmsg = (\<lambda>q. []),
     sqlite3_busy_timeout = (\<lambda>q n. q), sqlite3_exec = (\<lambda>q sql. (SQLITE_FAILURE 1, None, q)),
     sqlite3_prepare_v2 = (\<lambda>q sql. (SQLITE_FAILURE 1, None, q)), sqlite3_reset = (\<lambda>q s. (SQLITE_OK, q, s)),
     sqlite3_bind_parameter_count = (\<lambda>s. 0), sqlite3_bind = (\<lambda>q s i v. (SQLITE_OK, q, s)),
     sqlite3_step = (\<lambda>q s. (SQLITE_DONE, q, s)), sqlite3_column_count = (\<lambda>s. 0),
     sqlite3_column_name = (\<lambda>s i. None), sqlite3_column_type = (\<lambda>s i. SQLITE_NULL),
     sqlite3_column_int64 = (\<lambda>s i. 0), sqlite3_column_double = (\<lambda>s i. 0), sqlite3_column_text = (\<lambda>s i. None),
     sqlite3_column_blob = (\<lambda>s i. None), sqlite3_column_bytes = (\<lambda>s i. 0), sqlite3_changes = (\<lambda>q. 0),
     sqlite3_last_insert_rowid = (\<lambda>q. 0)\<rparr>"

definition example_env :: "(unit, unit, unit) db_env" where
  "example_env = \<lparr>ev_has_sqlite = False, ev_has_postgres = True, ev_sqlite = no_sqlite, ev_pq = echo_pq,
     ev_g17 = (\<lambda>x. []), ev_strtod = (\<lambda>s. 0)\<rparr>"

definition example_db :: "unit sw_pg_db sw_db" where
  "example_db = sw_db_alloc SW_DB_DRIVER_POSTGRES (Some ''postgres://h'') \<lparr>pd_connection = Some (), pd_changes = 0\<rparr>"

theorem query_runs_witness:
  "\<exists>stmt db1 bound. sw_db_prepare example_env (Some (Pg_db example_db)) (Some (render_sql example_sql)) [] = (Some stmt, Some db1, [])
    \<and> bind_texts example_env (Some stmt) 1 [Some ''x'', None] = (True, bound)
    \<and> fetch example_env 3 bound = [(SW_DB_ROW, [Some ''x'']), (SW_DB_ROW, [None]), (SW_DB_DONE, [])]"
proof -
  let ?params = "map text_param [Some ''x'', None]"
  let ?r = "\<lparr>rs_status = PGRES_TUPLES_OK, rs_names = [''v''], rs_oids = [25],
       rs_rows = map (\<lambda>p. [pp_data p]) ?params, rs_cmd_tuples = [], rs_error = numbered_sql 0 example_sql\<rparr>"
  have "placeholders example_sql = 2" by (simp add: example_sql_def placeholders_def)
  moreover have "NUL \<notin> set (render_sql example_sql)" by (simp add: example_sql_def)
  moreover have "result_ok ?r" by (simp add: result_ok_def INT_MAX_def)
  ultimately have "\<exists>stmt db1 bound. sw_db_prepare example_env (Some (Pg_db example_db)) (Some (render_sql example_sql)) [] = (Some stmt, Some db1, [])
    \<and> bind_texts example_env (Some stmt) 1 [Some ''x'', None] = (True, bound)
    \<and> fetch example_env (length (rs_rows ?r) + 1) bound = result_rows ?r 1"
    by (intro query_runs[where h = "\<lparr>pd_connection = Some (), pd_changes = 0\<rparr>" and c = "()" and ?c1.0 = "()"])
      (simp_all add: example_sql_ok INT_MAX_def example_db_def sw_db_alloc_def example_env_def echo_pq_def)
  then show ?thesis by (simp add: result_rows_def text_param_def sw_pg_param_clear_def numeral_3_eq_3)
qed

definition parameter_count :: "('c, 'q, 's) db_env \<Rightarrow> ('c, 'q, 's) any_stmt option \<Rightarrow> nat" where
  "parameter_count env stmt =
     (case stmt of None \<Rightarrow> 0 | Some (Pg_stmt db st) \<Rightarrow> length (ps_params st)
      | Some (Sq_stmt db None) \<Rightarrow> 0 | Some (Sq_stmt db (Some s)) \<Rightarrow> sqlite3_bind_parameter_count (ev_sqlite env) s)"

text \<open>
  Indexes are checked before a driver is asked. Whatever the state of a statement and whatever the
  client libraries do, binding with index 0 or an index above the number of parameters does not
  succeed, and a column that is not there reads as NULL, as text and as type; without a statement
  both hold for every index.
\<close>

theorem indexes_checked:
  "(index = 0 \<or> parameter_count env stmt < index \<longrightarrow> fst (sw_db_bind_text env stmt index v) \<noteq> 0)
   \<and> (sw_db_column_count env stmt \<le> index \<longrightarrow>
        sw_db_column_text env stmt index = None \<and> sw_db_column_type env stmt index = SW_DB_VALUE_NULL)"
proof (cases stmt)
  case None
  then show ?thesis
    by (simp add: sw_db_bind_text_def sw_db_column_text_def sw_db_column_type_def)
next
  case (Some s)
  show ?thesis
  proof (cases s)
    case (Pg_stmt db st)
    then show ?thesis using Some pgs.checked[of index "(db, st)" v]
      by (simp add: parameter_count_def sw_db_bind_text_def pg_result_of_def sw_db_column_text_def sw_db_column_type_def
          sw_db_column_count_def)
  next
    case (Sq_stmt db st)
    then show ?thesis using Some sqs.checked[of index "(ev_sqlite env, db, st)" v]
      by (cases st) (simp_all add: parameter_count_def sw_db_bind_text_def sq_result_of_def sw_db_column_text_def
          sw_db_column_type_def sw_db_column_count_def split: prod.splits)
  qed
qed

theorem indexes_checked_witness:
  "fst (sw_db_bind_text example_env (Some (Sq_stmt (sw_db_alloc SW_DB_DRIVER_SQLITE None ()) (Some ()))) 1 (Some ''x'')) \<noteq> 0"
  using indexes_checked[of 1 example_env "Some (Sq_stmt (sw_db_alloc SW_DB_DRIVER_SQLITE None ()) (Some ()))" "Some ''x''"]
  by (simp add: parameter_count_def example_env_def no_sqlite_def)

text \<open>
  Opening a database gives an object with its own driver and an empty error, or none and a reason in
  the process-wide text; never both.
\<close>

lemma open_reports:
  "case sw_db_open env config of
     (Some db, e) \<Rightarrow> sw_db_get_driver (Some db) \<noteq> SW_DB_DRIVER_NONE \<and> sw_db_error (Some db) e = [] \<and> e = []
   | (None, e) \<Rightarrow> e \<noteq> []"
proof -
  have g: "sw_db_set_global_error None = []" by (simp add: sw_db_set_global_error_def sw_db_vset_error_def)
  have m: "sw_db_set_global_error (Some (c # t)) \<noteq> []" if "c \<noteq> NUL" for c t
    using that by (simp add: sw_db_set_global_error_def sw_db_vset_error_def)
  show ?thesis
    by (auto simp: sw_db_open_def Let_def sw_db_open_sqlite_def sw_db_open_postgres_def sw_db_alloc_def g m
        sw_db_get_driver_def sw_db_error_def split: option.splits prod.splits if_splits)
qed

end
