(* ===== verification/Translator.thy ===== *)
theory Translator
  imports Utility
begin

text \<open>
  The translator of \<^verbatim>\<open>src/sw_translator.c\<close>: the registered languages, one table of source text to
  translated text per language, the loaders that fill the tables from JSON, and the lookup.

  The arrays of the code are lists; languages are never removed, so a handle is the index of
  the element it was made for and \<^verbatim>\<open>S_HANDLE_NULL\<close> is \<^const>\<open>None\<close>. The JSON parser and the file
  reader are not part of the modelled code: they are the parameters \<open>parse\<close> and \<open>read_file\<close>, and
  \<open>s_json\<close> keeps the fields of a parsed node that the loaders read. A loader that builds a
  table in a local variable returns it as an option, None where the code disposes of it and
  returns 0; the operations on a translator return the flag of the code and the translator.
  Allocation is taken to succeed.
\<close>

section \<open>Data\<close>

datatype sw_language_direction = SW_LANGUAGE_DIRECTION_LTR | SW_LANGUAGE_DIRECTION_RTL | SW_LANGUAGE_DIRECTION_TTB

record sw_language =
  lang_code :: cptr
  lang_label :: cptr
  lang_direction :: sw_language_direction

record sw_translation_item =
  item_key :: string
  item_value :: string

record sw_translation_language =
  tl_code :: cptr
  tl_items :: "sw_translation_item list"

record sw_translator =
  tr_languages :: "sw_language list"
  tr_translations :: "sw_translation_language list"
  tr_current_language :: "nat option"

datatype s_json_type = S_JSON_OBJECT | S_JSON_STRING | S_JSON_OTHER

datatype s_json = S_json (js_type: s_json_type) (js_name: cptr) (js_string: cptr) (js_children: "s_json option list")

text \<open>The test \<^verbatim>\<open>strcmp(a, b) == 0\<close>.\<close>

definition strcmp_eq :: "string \<Rightarrow> string \<Rightarrow> bool" where
  "strcmp_eq a b \<longleftrightarrow> cstr a = cstr b"

text \<open>The searches of the code: the index of the first element that fits.\<close>

fun index_where :: "('a \<Rightarrow> bool) \<Rightarrow> 'a list \<Rightarrow> nat option" where
  "index_where P [] = None"
| "index_where P (x # xs) = (if P x then Some 0 else map_option Suc (index_where P xs))"

section \<open>Languages and their tables\<close>

definition sw_registered_language_begin :: "sw_language option \<Rightarrow> sw_language option" where
  "sw_registered_language_begin source =
     (case source of None \<Rightarrow> None
      | Some src \<Rightarrow>
          (case lang_code src of None \<Rightarrow> None
           | Some code \<Rightarrow>
               if cstr code = [] then None
               else
                 let label = (if lang_label src \<noteq> None then lang_label src else lang_code src) in
                 Some \<lparr>lang_code = sw_strdup_cstr (lang_code src), lang_label = sw_strdup_cstr label,
                       lang_direction = lang_direction src\<rparr>))"

definition has_code :: "string \<Rightarrow> cptr \<Rightarrow> bool" where
  "has_code code c = (case c of None \<Rightarrow> False | Some d \<Rightarrow> strcmp_eq d code)"

definition sw_translator_find_registered_language :: "sw_translator \<Rightarrow> cptr \<Rightarrow> nat option" where
  "sw_translator_find_registered_language translator code =
     (case code of None \<Rightarrow> None
      | Some c \<Rightarrow> index_where (\<lambda>l. has_code c (lang_code l)) (tr_languages translator))"

definition sw_translation_languages_find :: "sw_translation_language list \<Rightarrow> cptr \<Rightarrow> nat option" where
  "sw_translation_languages_find languages code =
     (case code of None \<Rightarrow> None
      | Some c \<Rightarrow> index_where (\<lambda>l. has_code c (tl_code l)) languages)"

definition sw_translator_find_translation_language :: "sw_translator \<Rightarrow> cptr \<Rightarrow> nat option" where
  "sw_translator_find_translation_language translator code =
     (case code of None \<Rightarrow> None
      | Some c \<Rightarrow> index_where (\<lambda>l. has_code c (tl_code l)) (tr_translations translator))"

definition sw_translation_items_has_key :: "sw_translation_item list \<Rightarrow> cptr \<Rightarrow> bool" where
  "sw_translation_items_has_key items key =
     (case key of None \<Rightarrow> False | Some k \<Rightarrow> \<exists>item \<in> set items. strcmp_eq (item_key item) k)"

definition sw_translation_items_add ::
  "sw_translation_item list \<Rightarrow> cptr \<Rightarrow> cptr \<Rightarrow> bool \<times> sw_translation_item list" where
  "sw_translation_items_add items key val =
     (case (sw_strdup_cstr key, sw_strdup_cstr val) of
        (Some k, Some v) \<Rightarrow>
          if sw_translation_items_has_key items key then (False, items)
          else (True, items @ [\<lparr>item_key = k, item_value = v\<rparr>])
      | _ \<Rightarrow> (False, items))"

text \<open>\<open>object\<close> is not NULL where the code calls this; \<open>index\<close> is at most the number of children.\<close>

definition sw_json_object_name_seen_before :: "s_json \<Rightarrow> nat \<Rightarrow> cptr \<Rightarrow> bool" where
  "sw_json_object_name_seen_before obj index name =
     (if js_type obj \<noteq> S_JSON_OBJECT then False
      else case name of None \<Rightarrow> False
      | Some n \<Rightarrow> \<exists>child \<in> set (take index (js_children obj)).
          (case child of None \<Rightarrow> False
           | Some ch \<Rightarrow> (case js_name ch of None \<Rightarrow> False | Some m \<Rightarrow> strcmp_eq m n)))"

definition sw_translation_language_code_is_valid :: "cptr \<Rightarrow> bool" where
  "sw_translation_language_code_is_valid code =
     (case code of None \<Rightarrow> False
      | Some s \<Rightarrow>
          (case cstr s of [] \<Rightarrow> False
           | c # cs \<Rightarrow> islower c
               \<and> (\<forall>ch \<in> set cs. islower ch \<or> isupper ch \<or> isdigit ch \<or> ch = CHR ''-'' \<or> ch = CHR ''_'')))"

definition sw_translation_language_begin :: "cptr \<Rightarrow> sw_translation_language option" where
  "sw_translation_language_begin code =
     (case code of None \<Rightarrow> None
      | Some c \<Rightarrow> if cstr c = [] then None
                  else Some \<lparr>tl_code = sw_strdup_cstr code, tl_items = []\<rparr>)"

text \<open>The pointer \<^verbatim>\<open>out_language\<close> is the index of the table in the array.\<close>

definition sw_translation_languages_get_or_add ::
  "sw_translation_language list \<Rightarrow> cptr \<Rightarrow> (nat \<times> sw_translation_language list) option" where
  "sw_translation_languages_get_or_add languages code =
     (if \<not> sw_translation_language_code_is_valid code then None
      else case sw_translation_languages_find languages code of
        Some i \<Rightarrow> Some (i, languages)
      | None \<Rightarrow>
          (case sw_translation_language_begin code of None \<Rightarrow> None
           | Some language \<Rightarrow> Some (length languages, languages @ [language])))"

section \<open>Building tables from JSON\<close>

fun build_flat_loop :: "s_json \<Rightarrow> nat \<Rightarrow> s_json option list \<Rightarrow> sw_translation_item list
    \<Rightarrow> sw_translation_item list option" where
  "build_flat_loop root i [] items = Some items"
| "build_flat_loop root i (None # rest) items = None"
| "build_flat_loop root i (Some child # rest) items =
     (if js_name child = None \<or> js_type child \<noteq> S_JSON_STRING \<or> js_string child = None
         \<or> sw_json_object_name_seen_before root i (js_name child) then None
      else
        let (ok, items') = sw_translation_items_add items (js_name child) (js_string child) in
        if \<not> ok then None else build_flat_loop root (Suc i) rest items')"

definition sw_translator_build_flat_language :: "cptr \<Rightarrow> s_json \<Rightarrow> sw_translation_language option" where
  "sw_translator_build_flat_language code root =
     (if code = None \<or> js_type root \<noteq> S_JSON_OBJECT then None
      else case sw_translation_language_begin code of None \<Rightarrow> None
      | Some language \<Rightarrow>
          map_option (\<lambda>items. language\<lparr>tl_items := items\<rparr>)
            (build_flat_loop root 0 (js_children root) (tl_items language)))"

definition sw_translator_build_language_from_text ::
  "(string \<Rightarrow> s_json option) \<Rightarrow> cptr \<Rightarrow> cptr \<Rightarrow> sw_translation_language option" where
  "sw_translator_build_language_from_text parse code json_text =
     (case (code, json_text) of
        (Some _, Some text_in) \<Rightarrow>
          (case parse text_in of None \<Rightarrow> None
           | Some root \<Rightarrow> sw_translator_build_flat_language code root)
      | _ \<Rightarrow> None)"

text \<open>The inner loop of \<^verbatim>\<open>sw_translator_collect_source_groups\<close>: the translations of one source text.\<close>

fun collect_translations :: "s_json \<Rightarrow> nat \<Rightarrow> s_json option list \<Rightarrow> sw_translation_language list
    \<Rightarrow> sw_translation_language list option" where
  "collect_translations source j [] languages = Some languages"
| "collect_translations source j (None # rest) languages = None"
| "collect_translations source j (Some translation # rest) languages =
     (if js_name translation = None
         \<or> \<not> sw_translation_language_code_is_valid (js_name translation)
         \<or> js_type translation \<noteq> S_JSON_STRING
         \<or> js_string translation = None
         \<or> sw_json_object_name_seen_before source j (js_name translation) then None
      else case sw_translation_languages_get_or_add languages (js_name translation) of
        None \<Rightarrow> None
      | Some (l, languages') \<Rightarrow>
          let (ok, items) = sw_translation_items_add (tl_items (languages' ! l)) (js_name source)
                (js_string translation)
          in if \<not> ok then None
             else collect_translations source (Suc j) rest
                    (languages'[l := (languages' ! l)\<lparr>tl_items := items\<rparr>]))"

fun collect_sources :: "s_json \<Rightarrow> nat \<Rightarrow> s_json option list \<Rightarrow> sw_translation_language list
    \<Rightarrow> sw_translation_language list option" where
  "collect_sources root i [] languages = Some languages"
| "collect_sources root i (None # rest) languages = None"
| "collect_sources root i (Some source # rest) languages =
     (if js_name source = None \<or> js_type source \<noteq> S_JSON_OBJECT
         \<or> sw_json_object_name_seen_before root i (js_name source) then None
      else case collect_translations source 0 (js_children source) languages of
        None \<Rightarrow> None
      | Some languages' \<Rightarrow> collect_sources root (Suc i) rest languages')"

definition sw_translator_collect_source_groups :: "s_json \<Rightarrow> sw_translation_language list option" where
  "sw_translator_collect_source_groups root =
     (if js_type root \<noteq> S_JSON_OBJECT then None else collect_sources root 0 (js_children root) [])"

section \<open>Operations on a translator\<close>

definition sw_translator_upsert_registered_language ::
  "sw_translator \<Rightarrow> sw_language option \<Rightarrow> bool \<times> nat option \<times> sw_translator" where
  "sw_translator_upsert_registered_language translator language =
     (case sw_registered_language_begin language of
        None \<Rightarrow> (False, None, translator)
      | Some owned \<Rightarrow>
          (case sw_translator_find_registered_language translator (lang_code (the language)) of
             Some handle \<Rightarrow>
               (True, Some handle, translator\<lparr>tr_languages := (tr_languages translator)[handle := owned]\<rparr>)
           | None \<Rightarrow>
               let handle = length (tr_languages translator);
                   translator1 = translator\<lparr>tr_languages := tr_languages translator @ [owned]\<rparr>;
                   translator2 = (if tr_current_language translator1 = None
                     then translator1\<lparr>tr_current_language := Some handle\<rparr> else translator1)
               in (True, Some handle, translator2)))"

definition sw_translator_ensure_registered_language :: "sw_translator \<Rightarrow> cptr \<Rightarrow> bool \<times> sw_translator" where
  "sw_translator_ensure_registered_language translator code =
     (case code of None \<Rightarrow> (False, translator)
      | Some c \<Rightarrow>
          if cstr c = [] then (False, translator)
          else if sw_translator_find_registered_language translator code \<noteq> None then (True, translator)
          else
            let (ok, _, translator') = sw_translator_upsert_registered_language translator
                  (Some \<lparr>lang_code = code, lang_label = None, lang_direction = SW_LANGUAGE_DIRECTION_LTR\<rparr>)
            in (ok, translator'))"

definition sw_translator_store_language ::
  "sw_translator \<Rightarrow> sw_translation_language \<Rightarrow> bool \<times> sw_translator" where
  "sw_translator_store_language translator loaded =
     (if tl_code loaded = None then (False, translator)
      else
        let (ok, translator1) = sw_translator_ensure_registered_language translator (tl_code loaded) in
        if \<not> ok then (False, translator1)
        else case sw_translator_find_translation_language translator1 (tl_code loaded) of
          Some i \<Rightarrow>
            (True, translator1\<lparr>tr_translations := (tr_translations translator1)[i := loaded]\<rparr>)
        | None \<Rightarrow>
            (True, translator1\<lparr>tr_translations := tr_translations translator1 @ [loaded]\<rparr>))"

definition sw_translator_load_text ::
  "(string \<Rightarrow> s_json option) \<Rightarrow> sw_translator \<Rightarrow> cptr \<Rightarrow> cptr \<Rightarrow> bool \<times> sw_translator" where
  "sw_translator_load_text parse translator code json_text =
     (case sw_translator_build_language_from_text parse code json_text of
        None \<Rightarrow> (False, translator)
      | Some loaded \<Rightarrow> sw_translator_store_language translator loaded)"

definition sw_translator_load_file :: "(string \<Rightarrow> s_json option) \<Rightarrow> (string \<Rightarrow> cptr)
    \<Rightarrow> sw_translator \<Rightarrow> cptr \<Rightarrow> cptr \<Rightarrow> bool \<times> sw_translator" where
  "sw_translator_load_file parse read_file translator code path =
     (case (code, path) of
        (Some _, Some p) \<Rightarrow>
          (case read_file p of None \<Rightarrow> (False, translator)
           | Some json_text \<Rightarrow> sw_translator_load_text parse translator code (Some json_text))
      | _ \<Rightarrow> (False, translator))"

text \<open>The loop of \<^verbatim>\<open>sw_translator_load_all_text\<close> that stores the collected tables.\<close>

fun store_languages :: "sw_translator \<Rightarrow> sw_translation_language list \<Rightarrow> bool \<times> sw_translator" where
  "store_languages translator [] = (True, translator)"
| "store_languages translator (language # rest) =
     (let (ok, translator') = sw_translator_store_language translator language in
      if \<not> ok then (False, translator') else store_languages translator' rest)"

definition sw_translator_load_all_text ::
  "(string \<Rightarrow> s_json option) \<Rightarrow> sw_translator \<Rightarrow> cptr \<Rightarrow> bool \<times> sw_translator" where
  "sw_translator_load_all_text parse translator json_text =
     (case json_text of None \<Rightarrow> (False, translator)
      | Some text_in \<Rightarrow>
          (case parse text_in of None \<Rightarrow> (False, translator)
           | Some root \<Rightarrow>
               (case sw_translator_collect_source_groups root of
                  None \<Rightarrow> (False, translator)
                | Some languages \<Rightarrow> store_languages translator languages)))"

definition sw_translator_load_all_file :: "(string \<Rightarrow> s_json option) \<Rightarrow> (string \<Rightarrow> cptr)
    \<Rightarrow> sw_translator \<Rightarrow> cptr \<Rightarrow> bool \<times> sw_translator" where
  "sw_translator_load_all_file parse read_file translator path =
     (case path of None \<Rightarrow> (False, translator)
      | Some p \<Rightarrow>
          (case read_file p of None \<Rightarrow> (False, translator)
           | Some json_text \<Rightarrow> sw_translator_load_all_text parse translator (Some json_text)))"

definition sw_translator_create :: "(string \<Rightarrow> s_json option) \<Rightarrow> (string \<Rightarrow> cptr)
    \<Rightarrow> cptr \<Rightarrow> sw_language option \<Rightarrow> sw_translator option" where
  "sw_translator_create parse read_file translations_path default_language =
     (let translator = \<lparr>tr_languages = [], tr_translations = [], tr_current_language = None\<rparr>;
          (ok, handle, translator1) = sw_translator_upsert_registered_language translator default_language
      in if \<not> ok then None
         else
           let translator2 = translator1\<lparr>tr_current_language := handle\<rparr> in
           case translations_path of None \<Rightarrow> Some translator2
           | Some path \<Rightarrow>
               if cstr path = [] then Some translator2
               else
                 let (loaded, translator3) =
                       sw_translator_load_all_file parse read_file translator2 translations_path
                 in if \<not> loaded then None else Some translator3)"

definition sw_translator_add :: "sw_translator \<Rightarrow> sw_language option \<Rightarrow> bool \<times> sw_translator" where
  "sw_translator_add translator language =
     (let (ok, _, translator') = sw_translator_upsert_registered_language translator language in (ok, translator'))"

definition sw_translator_set_language :: "sw_translator \<Rightarrow> cptr \<Rightarrow> bool \<times> sw_translator" where
  "sw_translator_set_language translator code =
     (case sw_translator_find_registered_language translator code of
        None \<Rightarrow> (False, translator)
      | Some handle \<Rightarrow> (True, translator\<lparr>tr_current_language := Some handle\<rparr>))"

text \<open>
  The lookups. The translator is a pointer that may be NULL; \<^verbatim>\<open>s_array_get\<close> gives NULL for a
  handle that refers to no element.
\<close>

definition array_get :: "'a list \<Rightarrow> nat \<Rightarrow> 'a option" where
  "array_get xs i = (if i < length xs then Some (xs ! i) else None)"

definition sw_translator_get_language :: "sw_translator option \<Rightarrow> sw_language option" where
  "sw_translator_get_language translator =
     (case translator of None \<Rightarrow> None
      | Some tr \<Rightarrow>
          (case tr_current_language tr of None \<Rightarrow> None
           | Some handle \<Rightarrow> array_get (tr_languages tr) handle))"

definition sw_translator_get_languages :: "sw_translator option \<Rightarrow> sw_language list option \<times> nat" where
  "sw_translator_get_languages translator =
     (case translator of None \<Rightarrow> (None, 0)
      | Some tr \<Rightarrow> (Some (tr_languages tr), length (tr_languages tr)))"

definition sw_translator_current_translation_language :: "sw_translator option \<Rightarrow> sw_translation_language option" where
  "sw_translator_current_translation_language translator =
     (case (translator, sw_translator_get_language translator) of
        (Some tr, Some language) \<Rightarrow>
          (case sw_translator_find_translation_language tr (lang_code language) of
             None \<Rightarrow> None | Some i \<Rightarrow> Some (tr_translations tr ! i))
      | _ \<Rightarrow> None)"

definition sw_translate :: "sw_translator option \<Rightarrow> cptr \<Rightarrow> cptr" where
  "sw_translate translator str =
     (case str of None \<Rightarrow> None
      | Some s \<Rightarrow>
          (case sw_translator_current_translation_language translator of
             None \<Rightarrow> str
           | Some language \<Rightarrow>
               (case index_where (\<lambda>item. strcmp_eq s (item_key item)) (tl_items language) of
                  None \<Rightarrow> str
                | Some i \<Rightarrow> Some (item_value (tl_items language ! i)))))"

section \<open>Searches and updates\<close>

lemma index_where_Some_iff:
  "index_where P xs = Some i \<longleftrightarrow> i < length xs \<and> P (xs ! i) \<and> (\<forall>j<i. \<not> P (xs ! j))"
proof (induction xs arbitrary: i)
  case (Cons x xs)
  show ?case
  proof (cases i)
    case (Suc k)
    have "(\<forall>j<Suc k. \<not> P ((x # xs) ! j)) \<longleftrightarrow> \<not> P x \<and> (\<forall>j<k. \<not> P (xs ! j))"
      by (auto simp: less_Suc_eq_0_disj)
    then show ?thesis using Suc Cons.IH[of k] by auto
  qed auto
qed simp

lemma index_where_None_iff: "index_where P xs = None \<longleftrightarrow> (\<forall>x\<in>set xs. \<not> P x)"
  by (induction xs) auto

lemma index_where_cong: "(\<And>x. x \<in> set xs \<Longrightarrow> P x \<longleftrightarrow> Q x) \<Longrightarrow> index_where P xs = index_where Q xs"
  by (induction xs) auto

lemma index_where_found: "index_where P xs = Some i \<Longrightarrow> i < length xs \<and> P (xs ! i) \<and> xs ! i \<in> set xs"
  by (simp add: index_where_Some_iff)

text \<open>Replacing the first entry of a key, or adding one, is the update of the map.\<close>

definition put_where :: "('a \<Rightarrow> bool) \<Rightarrow> 'a \<Rightarrow> 'a list \<Rightarrow> 'a list" where
  "put_where P y xs = (case index_where P xs of Some i \<Rightarrow> xs[i := y] | None \<Rightarrow> xs @ [y])"

lemma put_where_Cons: "put_where P y (x # xs) = (if P x then y # xs else x # put_where P y xs)"
  by (auto simp: put_where_def split: option.splits)

lemma put_where_Nil: "put_where P y [] = [y]"
  by (simp add: put_where_def)

lemma put_where_map_of:
  "\<forall>x\<in>set xs. P x \<longleftrightarrow> key x = k \<Longrightarrow> key y = k \<Longrightarrow>
   map_of (map (\<lambda>x. (key x, val x)) (put_where P y xs)) = (map_of (map (\<lambda>x. (key x, val x)) xs))(k \<mapsto> val y)"
  by (induction xs) (auto simp: put_where_Cons put_where_Nil fun_eq_iff)

lemma put_where_keys:
  "\<forall>x\<in>set xs. P x \<longleftrightarrow> key x = k \<Longrightarrow> key y = k \<Longrightarrow>
   map key (put_where P y xs) = (if k \<in> key ` set xs then map key xs else map key xs @ [k])"
  by (induction xs) (auto simp: put_where_Cons put_where_Nil)

lemma set_put_where: "set (put_where P y xs) \<subseteq> insert y (set xs)"
  by (induction xs) (auto simp: put_where_Cons put_where_Nil)

lemma put_where_in: "y \<in> set (put_where P y xs)"
  by (induction xs) (auto simp: put_where_Cons put_where_Nil)

lemma index_where_map_of:
  "\<forall>x\<in>set xs. P x \<longleftrightarrow> key x = k \<Longrightarrow>
   map_option (\<lambda>i. val (xs ! i)) (index_where P xs) = map_of (map (\<lambda>x. (key x, val x)) xs) k"
  by (induction xs) (auto simp: option.map_comp comp_def)

section \<open>Well-formed tables\<close>

text \<open>
  The view of the tables: \<open>texts languages c\<close> is the table of language \<open>c\<close> as a map, \<open>look\<close> the
  translation of one source text. Stored strings hold no NUL, so that \<^verbatim>\<open>strcmp\<close> is equality.
\<close>

definition item_texts :: "sw_translation_item list \<Rightarrow> string \<rightharpoonup> string" where
  "item_texts items = map_of (map (\<lambda>i. (item_key i, item_value i)) items)"

definition texts :: "sw_translation_language list \<Rightarrow> string \<rightharpoonup> (string \<rightharpoonup> string)" where
  "texts languages = map_of (map (\<lambda>t. (the (tl_code t), item_texts (tl_items t))) languages)"

definition look :: "sw_translation_language list \<Rightarrow> string \<Rightarrow> string \<Rightarrow> string option" where
  "look languages c s = (case texts languages c of None \<Rightarrow> None | Some m \<Rightarrow> m s)"

definition wf_items :: "sw_translation_item list \<Rightarrow> bool" where
  "wf_items items \<longleftrightarrow> distinct (map item_key items) \<and> (\<forall>i\<in>set items. NUL \<notin> set (item_key i))"

definition wf_code :: "cptr \<Rightarrow> bool" where
  "wf_code code \<longleftrightarrow> (case code of None \<Rightarrow> False | Some c \<Rightarrow> c \<noteq> [] \<and> NUL \<notin> set c)"

definition wf_language :: "sw_translation_language \<Rightarrow> bool" where
  "wf_language t \<longleftrightarrow> wf_code (tl_code t) \<and> wf_items (tl_items t)"

definition wf_languages :: "sw_translation_language list \<Rightarrow> bool" where
  "wf_languages languages \<longleftrightarrow> (\<forall>t\<in>set languages. wf_language t) \<and> distinct (map tl_code languages)"

lemma wf_code_Some: "wf_code c \<longleftrightarrow> (\<exists>s. c = Some s \<and> s \<noteq> [] \<and> NUL \<notin> set s)"
  by (auto simp: wf_code_def split: option.splits)

lemma has_code_wf: "wf_code c \<Longrightarrow> has_code s c \<longleftrightarrow> c = Some (cstr s)"
  by (auto simp: wf_code_Some has_code_def strcmp_eq_def cstr_ident)

lemma has_code_the: "wf_code c \<Longrightarrow> has_code s c \<longleftrightarrow> the c = cstr s"
  by (auto simp: wf_code_Some has_code_def strcmp_eq_def cstr_ident)

lemma the_code_eq: "wf_code c \<Longrightarrow> wf_code d \<Longrightarrow> the c = the d \<longleftrightarrow> c = d"
  by (auto simp: wf_code_Some)

lemma wf_languagesD:
  assumes "wf_languages languages" "t \<in> set languages"
  shows "wf_language t" "wf_code (tl_code t)" "wf_items (tl_items t)"
  using assms by (auto simp: wf_languages_def wf_language_def)

lemma wf_put_language:
  assumes "wf_languages languages" "wf_language t" "tl_code t = Some (cstr code)"
  shows "wf_languages (put_where (\<lambda>l. has_code code (tl_code l)) t languages)"
proof -
  have keys: "\<forall>x\<in>set languages. has_code code (tl_code x) \<longleftrightarrow> tl_code x = Some (cstr code)"
    using assms(1) by (auto simp: has_code_wf dest: wf_languagesD(2))
  have "distinct (map tl_code (put_where (\<lambda>l. has_code code (tl_code l)) t languages))"
    using put_where_keys[OF keys assms(3)] assms(1) by (auto simp: wf_languages_def)
  moreover have "wf_language x" if "x \<in> set (put_where (\<lambda>l. has_code code (tl_code l)) t languages)" for x
    using subsetD[OF set_put_where that] assms(1,2) by (auto simp: wf_languages_def)
  ultimately show ?thesis by (simp add: wf_languages_def)
qed

lemma texts_put_language:
  assumes "wf_languages languages" "tl_code t = Some (cstr code)"
  shows "texts (put_where (\<lambda>l. has_code code (tl_code l)) t languages) =
    (texts languages)(cstr code \<mapsto> item_texts (tl_items t))"
  unfolding texts_def using assms
  by (intro put_where_map_of) (auto simp: has_code_the dest: wf_languagesD(2))

lemma tl_code_put_language:
  assumes "wf_languages languages" "tl_code t = Some (cstr code)"
  shows "tl_code ` set (put_where (\<lambda>l. has_code code (tl_code l)) t languages) =
    insert (Some (cstr code)) (tl_code ` set languages)"
proof -
  have "\<forall>x\<in>set languages. has_code code (tl_code x) \<longleftrightarrow> tl_code x = Some (cstr code)"
    using assms(1) by (auto simp: has_code_wf dest: wf_languagesD(2))
  from put_where_keys[OF this assms(2)]
  have "set (map tl_code (put_where (\<lambda>l. has_code code (tl_code l)) t languages)) =
      insert (Some (cstr code)) (set (map tl_code languages))"
    by auto
  then show ?thesis by simp
qed

lemma dom_texts: "wf_languages languages \<Longrightarrow> texts languages c \<noteq> None \<longleftrightarrow> Some c \<in> tl_code ` set languages"
proof -
  assume wf: "wf_languages languages"
  have "texts languages c \<noteq> None \<longleftrightarrow> c \<in> (\<lambda>t. the (tl_code t)) ` set languages"
    unfolding texts_def by (simp add: map_of_eq_None_iff image_image)
  also have "\<dots> \<longleftrightarrow> Some c \<in> tl_code ` set languages"
    using wf_languagesD(2)[OF wf] by (force simp: wf_code_Some)
  finally show ?thesis .
qed

lemma item_texts_None_iff: "item_texts items k = None \<longleftrightarrow> k \<notin> item_key ` set items"
  by (simp add: item_texts_def map_of_eq_None_iff image_image)

lemma items_add_eq:
  assumes "wf_items items"
  shows "sw_translation_items_add items (Some k) (Some v) =
    (if item_texts items (cstr k) \<noteq> None then (False, items)
     else (True, items @ [\<lparr>item_key = cstr k, item_value = cstr v\<rparr>]))"
proof -
  have "cstr (item_key i) = item_key i" if "i \<in> set items" for i
    using assms that by (auto simp: wf_items_def intro: cstr_ident)
  then have "sw_translation_items_has_key items (Some k) \<longleftrightarrow> item_texts items (cstr k) \<noteq> None"
    by (force simp: sw_translation_items_has_key_def strcmp_eq_def item_texts_None_iff image_iff)
  then show ?thesis by (simp add: sw_translation_items_add_def sw_strdup_cstr_eq)
qed

lemma items_add_wf:
  "wf_items items \<Longrightarrow> item_texts items (cstr k) = None \<Longrightarrow>
   wf_items (items @ [\<lparr>item_key = cstr k, item_value = v\<rparr>])"
  by (auto simp: wf_items_def item_texts_None_iff)

lemma item_texts_snoc:
  "item_texts items k = None \<Longrightarrow>
   item_texts (items @ [\<lparr>item_key = k, item_value = v\<rparr>]) = (item_texts items)(k \<mapsto> v)"
  by (auto simp: item_texts_def map_add_def fun_eq_iff split: option.splits)

section \<open>What the loaders accept\<close>

text \<open>
  \<open>flat_object\<close>: an object of strings with pairwise different names. \<open>groups_object\<close>: an object
  of such objects, again with different names, whose inner names are valid language codes.
\<close>

definition child_name :: "s_json option \<Rightarrow> string" where
  "child_name ch = cstr (the (js_name (the ch)))"

definition child_text :: "s_json option \<Rightarrow> string" where
  "child_text ch = cstr (the (js_string (the ch)))"

definition named :: "s_json option \<Rightarrow> bool" where
  "named ch \<longleftrightarrow> ch \<noteq> None \<and> js_name (the ch) \<noteq> None"

definition string_member :: "s_json option \<Rightarrow> bool" where
  "string_member ch \<longleftrightarrow> named ch \<and> js_type (the ch) = S_JSON_STRING \<and> js_string (the ch) \<noteq> None"

definition flat_object :: "s_json \<Rightarrow> bool" where
  "flat_object root \<longleftrightarrow> js_type root = S_JSON_OBJECT \<and>
     (\<forall>ch\<in>set (js_children root). string_member ch) \<and> distinct (map child_name (js_children root))"

definition source_object :: "s_json option \<Rightarrow> bool" where
  "source_object ch \<longleftrightarrow> named ch \<and> flat_object (the ch) \<and>
     (\<forall>t\<in>set (js_children (the ch)). sw_translation_language_code_is_valid (js_name (the t)))"

definition groups_object :: "s_json \<Rightarrow> bool" where
  "groups_object root \<longleftrightarrow> js_type root = S_JSON_OBJECT \<and>
     (\<forall>ch\<in>set (js_children root). source_object ch) \<and> distinct (map child_name (js_children root))"

definition member_texts :: "s_json option list \<Rightarrow> string \<rightharpoonup> string" where
  "member_texts chs = map_of (map (\<lambda>ch. (child_name ch, child_text ch)) chs)"

text \<open>The translation of source \<open>s\<close> into language \<open>c\<close>, and the languages that occur.\<close>

definition source_texts :: "s_json option list \<Rightarrow> string \<Rightarrow> string \<Rightarrow> string option" where
  "source_texts sources s c =
     (case map_of (map (\<lambda>ch. (child_name ch, member_texts (js_children (the ch)))) sources) s of
        None \<Rightarrow> None | Some m \<Rightarrow> m c)"

definition source_codes :: "s_json option list \<Rightarrow> string set" where
  "source_codes sources = (\<Union>ch\<in>set sources. child_name ` set (js_children (the ch)))"

lemma seen_before_iff:
  assumes "js_type root = S_JSON_OBJECT" "js_children root = done @ rest" "\<forall>ch\<in>set done. named ch"
  shows "sw_json_object_name_seen_before root (length done) (Some n) \<longleftrightarrow> cstr n \<in> child_name ` set done"
  using assms unfolding sw_json_object_name_seen_before_def
  by (force simp: named_def child_name_def strcmp_eq_def image_iff)

lemma string_member_obtain:
  assumes "string_member ch"
  obtains c n v where "ch = Some c" "js_name c = Some n" "js_type c = S_JSON_STRING" "js_string c = Some v"
    "child_name ch = cstr n" "child_text ch = cstr v"
  using assms by (auto simp: string_member_def named_def child_name_def child_text_def)

lemma child_name_NUL: "NUL \<notin> set (child_name ch)"
  by (simp add: child_name_def)

definition flat_item :: "s_json option \<Rightarrow> sw_translation_item" where
  "flat_item ch = \<lparr>item_key = child_name ch, item_value = child_text ch\<rparr>"

lemma wf_flat_items: "distinct (map child_name chs) \<Longrightarrow> wf_items (map flat_item chs)"
  by (auto simp: wf_items_def flat_item_def comp_def child_name_NUL)

lemma item_texts_flat: "item_texts (map flat_item chs) = member_texts chs"
  by (simp add: item_texts_def member_texts_def flat_item_def comp_def)

lemma member_texts_None_iff: "member_texts chs k = None \<longleftrightarrow> k \<notin> child_name ` set chs"
  by (simp add: member_texts_def map_of_eq_None_iff image_image)

text \<open>A step of the loop over the children fails exactly on a child that is not allowed.\<close>

lemma build_flat_loop_eq:
  assumes "js_type root = S_JSON_OBJECT" "js_children root = done @ rest"
    and "\<forall>ch\<in>set done. string_member ch" "distinct (map child_name done)"
  shows "build_flat_loop root (length done) rest (map flat_item done) =
    (if (\<forall>ch\<in>set rest. string_member ch) \<and> distinct (map child_name (done @ rest))
     then Some (map flat_item (done @ rest)) else None)"
  using assms(2-4)
proof (induction rest arbitrary: "done")
  case (Cons ch rest)
  have named_done: "\<forall>ch\<in>set done. named ch" using Cons.prems(2) by (auto simp: string_member_def)
  show ?case
  proof (cases "string_member ch")
    case False
    then have "build_flat_loop root (length done) (ch # rest) (map flat_item done) = None"
      by (cases ch) (auto simp: string_member_def named_def)
    with False show ?thesis by simp
  next
    case True
    then obtain c n v where c: "ch = Some c" "js_name c = Some n" "js_type c = S_JSON_STRING"
      "js_string c = Some v" "child_name ch = cstr n" "child_text ch = cstr v" by (rule string_member_obtain)
    have seen: "sw_json_object_name_seen_before root (length done) (Some n) \<longleftrightarrow> child_name ch \<in> child_name ` set done"
      using seen_before_iff[OF assms(1) Cons.prems(1) named_done] c(5) by simp
    show ?thesis
    proof (cases "child_name ch \<in> child_name ` set done")
      case True
      then have "build_flat_loop root (length done) (ch # rest) (map flat_item done) = None"
        using seen c by simp
      moreover have "\<not> distinct (map child_name (done @ ch # rest))" using True by auto
      ultimately show ?thesis by simp
    next
      case False
      have add: "sw_translation_items_add (map flat_item done) (Some n) (Some v) = (True, map flat_item (done @ [ch]))"
        using items_add_eq[OF wf_flat_items[OF Cons.prems(3)], of n v] False c
        by (simp add: item_texts_flat member_texts_None_iff flat_item_def)
      have "build_flat_loop root (length done) (ch # rest) (map flat_item done) =
          build_flat_loop root (length (done @ [ch])) rest (map flat_item (done @ [ch]))"
        using c seen False add by simp
      also have "\<dots> = (if (\<forall>ch\<in>set rest. string_member ch) \<and> distinct (map child_name ((done @ [ch]) @ rest))
          then Some (map flat_item ((done @ [ch]) @ rest)) else None)"
        using Cons.prems True False \<open>string_member ch\<close> by (intro Cons.IH) auto
      finally show ?thesis using \<open>string_member ch\<close> by simp
    qed
  qed
qed simp

lemma build_flat_language_eq:
  "sw_translator_build_flat_language (Some code) root =
    (if flat_object root \<and> cstr code \<noteq> []
     then Some \<lparr>tl_code = Some (cstr code), tl_items = map flat_item (js_children root)\<rparr> else None)"
  using build_flat_loop_eq[of root "[]" "js_children root"]
  by (auto simp: sw_translator_build_flat_language_def flat_object_def sw_translation_language_begin_def
      sw_strdup_cstr_eq)

text \<open>\<^verbatim>\<open>sw_translation_languages_get_or_add\<close> with the store of one item is an update of the tables.\<close>

lemma valid_code_wf:
  "sw_translation_language_code_is_valid (Some n) \<Longrightarrow> cstr n \<noteq> []"
  by (cases "cstr n") (auto simp: sw_translation_language_code_is_valid_def)

definition add_translation :: "sw_translation_language list \<Rightarrow> string \<Rightarrow> string \<Rightarrow> string
    \<Rightarrow> sw_translation_language list option" where
  "add_translation languages code src v =
     (case sw_translation_languages_get_or_add languages (Some code) of
        None \<Rightarrow> None
      | Some (l, languages') \<Rightarrow>
          let (ok, items) = sw_translation_items_add (tl_items (languages' ! l)) (Some src) (Some v)
          in if \<not> ok then None else Some (languages'[l := (languages' ! l)\<lparr>tl_items := items\<rparr>]))"

lemma add_translation_spec:
  assumes wf: "wf_languages languages" and valid: "sw_translation_language_code_is_valid (Some code)"
    and fresh: "look languages (cstr code) (cstr src) = None"
  obtains languages' m where "add_translation languages code src v = Some languages'" "wf_languages languages'"
    "texts languages' = (texts languages)(cstr code \<mapsto> m)"
    "m = (case texts languages (cstr code) of None \<Rightarrow> Map.empty | Some t \<Rightarrow> t)(cstr src \<mapsto> cstr v)"
proof -
  let ?P = "\<lambda>l. has_code code (tl_code l)"
  let ?old = "case texts languages (cstr code) of None \<Rightarrow> Map.empty | Some t \<Rightarrow> t"
  have idx: "map_option (\<lambda>i. item_texts (tl_items (languages ! i))) (index_where ?P languages) =
      texts languages (cstr code)"
    unfolding texts_def using wf_languagesD(2)[OF wf]
    by (intro index_where_map_of) (auto simp: has_code_the)
  define t where "t = (case index_where ?P languages of Some i \<Rightarrow> languages ! i
    | None \<Rightarrow> \<lparr>tl_code = Some (cstr code), tl_items = []\<rparr>)"
  have old: "item_texts (tl_items t) = ?old"
    using idx[symmetric] by (cases "index_where ?P languages") (simp_all add: t_def item_texts_def)
  have code_t: "tl_code t = Some (cstr code)" and wf_t: "wf_language t"
  proof -
    have "tl_code t = Some (cstr code) \<and> wf_language t"
    proof (cases "index_where ?P languages")
      case None
      with valid_code_wf[OF valid] show ?thesis by (simp add: t_def wf_language_def wf_code_def wf_items_def)
    next
      case (Some i)
      with index_where_found[OF Some] wf_languagesD[OF wf] show ?thesis by (auto simp: t_def has_code_wf)
    qed
    then show "tl_code t = Some (cstr code)" "wf_language t" by auto
  qed
  define t' where "t' = t\<lparr>tl_items := tl_items t @ [\<lparr>item_key = cstr src, item_value = cstr v\<rparr>]\<rparr>"
  have free: "item_texts (tl_items t) (cstr src) = None"
    using fresh old by (simp add: look_def split: option.splits)
  have add: "sw_translation_items_add (tl_items t) (Some src) (Some v) = (True, tl_items t')"
    using items_add_eq[of "tl_items t" src v] wf_t free by (simp add: wf_language_def t'_def)
  have eq: "add_translation languages code src v = Some (put_where ?P t' languages)"
  proof (cases "index_where ?P languages")
    case None
    with valid add show ?thesis
      by (simp add: add_translation_def sw_translation_languages_get_or_add_def sw_translation_languages_find_def
          sw_translation_language_begin_def valid_code_wf sw_strdup_cstr_eq t_def t'_def put_where_def)
  next
    case (Some i)
    with valid add show ?thesis
      by (simp add: add_translation_def sw_translation_languages_get_or_add_def sw_translation_languages_find_def
          t_def t'_def put_where_def)
  qed
  have code': "tl_code t' = Some (cstr code)" using code_t by (simp add: t'_def)
  have wf': "wf_language t'"
    using wf_t items_add_wf[OF _ free] by (simp add: wf_language_def t'_def)
  have texts': "item_texts (tl_items t') = ?old(cstr src \<mapsto> cstr v)"
    using item_texts_snoc[OF free] old by (simp add: t'_def)
  show ?thesis
    using that[OF eq wf_put_language[OF wf wf' code'] texts_put_language[OF wf code']] texts' by simp
qed

text \<open>
  The inner loop: the source text gets an entry in the table of each of its languages, and every
  other entry stays.
\<close>

definition with_source :: "(string \<rightharpoonup> (string \<rightharpoonup> string)) \<Rightarrow> string \<Rightarrow> s_json option list \<Rightarrow> string
    \<rightharpoonup> (string \<rightharpoonup> string)" where
  "with_source T src chs c =
     (case member_texts chs c of None \<Rightarrow> T c
      | Some v \<Rightarrow> Some ((case T c of None \<Rightarrow> Map.empty | Some t \<Rightarrow> t)(src \<mapsto> v)))"

lemma member_texts_Cons: "member_texts (ch # chs) = (member_texts chs)(child_name ch \<mapsto> child_text ch)"
  by (simp add: member_texts_def)

lemma with_source_Cons:
  assumes "child_name ch \<notin> child_name ` set rest"
  shows "with_source (T(child_name ch \<mapsto>
      (case T (child_name ch) of None \<Rightarrow> Map.empty | Some t \<Rightarrow> t)(src \<mapsto> child_text ch))) src rest =
    with_source T src (ch # rest)"
proof
  fix c
  show "with_source (T(child_name ch \<mapsto>
      (case T (child_name ch) of None \<Rightarrow> Map.empty | Some t \<Rightarrow> t)(src \<mapsto> child_text ch))) src rest c =
    with_source T src (ch # rest) c"
    using assms by (cases "c = child_name ch")
      (simp_all add: with_source_def member_texts_Cons member_texts_None_iff[THEN iffD2] cong: option.case_cong)
qed

lemma collect_translations_step:
  assumes "js_name source = Some src" "js_name c = Some n" "js_type c = S_JSON_STRING" "js_string c = Some v"
  shows "collect_translations source j (Some c # rest) languages =
    (if \<not> sw_translation_language_code_is_valid (Some n) \<or> sw_json_object_name_seen_before source j (Some n) then None
     else case add_translation languages n src v of None \<Rightarrow> None
     | Some languages' \<Rightarrow> collect_translations source (Suc j) rest languages')"
  using assms by (auto simp: add_translation_def Let_def split: option.splits prod.splits)

lemma collect_translations_eq:
  assumes "js_type source = S_JSON_OBJECT" "js_name source = Some src" "js_children source = done @ rest"
    and "\<forall>ch\<in>set done. string_member ch"
    and "wf_languages languages" "\<forall>ch\<in>set rest. child_name ch \<notin> child_name ` set done \<longrightarrow> look languages (child_name ch) (cstr src) = None"
    and "distinct (map child_name done)"
  shows "if (\<forall>ch\<in>set rest. string_member ch \<and> sw_translation_language_code_is_valid (js_name (the ch)))
        \<and> distinct (map child_name (done @ rest))
     then \<exists>languages'. collect_translations source (length done) rest languages = Some languages'
        \<and> wf_languages languages' \<and> texts languages' = with_source (texts languages) (cstr src) rest
     else collect_translations source (length done) rest languages = None"
  using assms(3-7)
proof (induction rest arbitrary: "done" languages)
  case Nil
  then show ?case by (simp add: with_source_def member_texts_def fun_eq_iff)
next
  case (Cons ch rest)
  have named_done: "\<forall>ch\<in>set done. named ch" using Cons.prems(2) by (auto simp: string_member_def)
  show ?case
  proof (cases "string_member ch")
    case False
    then have "collect_translations source (length done) (ch # rest) languages = None"
      by (cases ch) (auto simp: string_member_def named_def)
    with False show ?thesis by simp
  next
    case True
    then obtain c n v where c: "ch = Some c" "js_name c = Some n" "js_type c = S_JSON_STRING"
      "js_string c = Some v" "child_name ch = cstr n" "child_text ch = cstr v" by (rule string_member_obtain)
    have seen: "sw_json_object_name_seen_before source (length done) (Some n) \<longleftrightarrow> child_name ch \<in> child_name ` set done"
      using seen_before_iff[OF assms(1) Cons.prems(1) named_done] c(5) by simp
    note step = collect_translations_step[OF assms(2) c(2-4), of "length done" rest languages]
    show ?thesis
    proof (cases "sw_translation_language_code_is_valid (Some n) \<and> child_name ch \<notin> child_name ` set done")
      case False
      then have "collect_translations source (length done) (ch # rest) languages = None"
        using step seen c(1) by auto
      moreover have "\<not> ((\<forall>x\<in>set (ch # rest). string_member x \<and> sw_translation_language_code_is_valid (js_name (the x)))
          \<and> distinct (map child_name (done @ ch # rest)))"
        using False c by auto
      ultimately show ?thesis by simp
    next
      case ok: True
      have "look languages (cstr n) (cstr src) = None" using Cons.prems(4) ok c(5) by auto
      from add_translation_spec[OF Cons.prems(3) _ this, of v] ok
      obtain languages1 m where l1: "add_translation languages n src v = Some languages1" "wf_languages languages1"
        "texts languages1 = (texts languages)(cstr n \<mapsto> m)"
        "m = (case texts languages (cstr n) of None \<Rightarrow> Map.empty | Some t \<Rightarrow> t)(cstr src \<mapsto> cstr v)" by metis
      have run: "collect_translations source (length done) (ch # rest) languages =
          collect_translations source (length (done @ [ch])) rest languages1"
        using step seen ok l1(1) c(1) by simp
      have fresh: "look languages1 (child_name x) (cstr src) = None"
        if "x \<in> set rest" "child_name x \<notin> child_name ` set (done @ [ch])" for x
        using Cons.prems(4) that c(5) by (auto simp: look_def l1(3))
      have ws: "with_source (texts languages1) (cstr src) rest = with_source (texts languages) (cstr src) (ch # rest)"
        if "child_name ch \<notin> child_name ` set rest"
        unfolding l1(3,4) c(5,6)[symmetric] using that by (rule with_source_Cons)
      have IH: "if (\<forall>ch\<in>set rest. string_member ch \<and> sw_translation_language_code_is_valid (js_name (the ch)))
            \<and> distinct (map child_name ((done @ [ch]) @ rest))
         then \<exists>languages'. collect_translations source (length (done @ [ch])) rest languages1 = Some languages'
            \<and> wf_languages languages' \<and> texts languages' = with_source (texts languages1) (cstr src) rest
         else collect_translations source (length (done @ [ch])) rest languages1 = None"
        using Cons.prems ok True l1(2) fresh by (intro Cons.IH) auto
      have same: "(\<forall>x\<in>set (ch # rest). string_member x \<and> sw_translation_language_code_is_valid (js_name (the x)))
          \<and> distinct (map child_name (done @ ch # rest)) \<longleftrightarrow>
          (\<forall>x\<in>set rest. string_member x \<and> sw_translation_language_code_is_valid (js_name (the x)))
          \<and> distinct (map child_name ((done @ [ch]) @ rest))"
        using True ok c(1,2) by simp
      have "child_name ch \<notin> child_name ` set rest" if "distinct (map child_name ((done @ [ch]) @ rest))"
        using that by auto
      with ws IH show ?thesis unfolding run same by (auto split: if_splits)
    qed
  qed
qed

text \<open>The outer loop: after each source the tables hold the texts of the sources read so far.\<close>

definition holds_sources :: "sw_translation_language list \<Rightarrow> s_json option list \<Rightarrow> bool" where
  "holds_sources languages sources \<longleftrightarrow> wf_languages languages
     \<and> (\<forall>c s. look languages c s = source_texts sources s c)
     \<and> {c. texts languages c \<noteq> None} = source_codes sources"

lemma source_texts_snoc:
  assumes "child_name ch \<notin> child_name ` set done"
  shows "source_texts (done @ [ch]) s c =
    (if s = child_name ch then member_texts (js_children (the ch)) c else source_texts done s c)"
proof -
  have "map_of (map (\<lambda>ch. (child_name ch, member_texts (js_children (the ch)))) done) (child_name ch) = None"
    using assms by (simp add: map_of_eq_None_iff image_image)
  then show ?thesis by (auto simp: source_texts_def map_add_def split: option.splits)
qed

lemma source_texts_None: "s \<notin> child_name ` set sources \<Longrightarrow> source_texts sources s c = None"
  by (simp add: source_texts_def map_of_eq_None_iff[THEN iffD2] image_image)

lemma holds_sources_snoc:
  assumes "holds_sources languages done" "child_name ch \<notin> child_name ` set done" "wf_languages languages'"
    and "texts languages' = with_source (texts languages) (child_name ch) (js_children (the ch))"
  shows "holds_sources languages' (done @ [ch])"
proof -
  have view: "look languages c s = source_texts done s c" "(texts languages c \<noteq> None) = (c \<in> source_codes done)" for c s
    using assms(1) by (auto simp: holds_sources_def)
  have "look languages' c s = source_texts (done @ [ch]) s c" for c s
  proof -
    have "look languages' c s = (if s = child_name ch \<and> member_texts (js_children (the ch)) c \<noteq> None
        then member_texts (js_children (the ch)) c else look languages c s)"
      by (auto simp: look_def assms(4) with_source_def split: option.splits)
    then show ?thesis
      using source_texts_None[OF assms(2)] by (auto simp: source_texts_snoc[OF assms(2)] view(1))
  qed
  moreover have "texts languages' c \<noteq> None \<longleftrightarrow> c \<in> source_codes (done @ [ch])" for c
  proof -
    have "texts languages' c \<noteq> None \<longleftrightarrow> member_texts (js_children (the ch)) c \<noteq> None \<or> texts languages c \<noteq> None"
      by (auto simp: assms(4) with_source_def split: option.splits)
    then show ?thesis using view(2)[of c] by (auto simp: source_codes_def member_texts_None_iff)
  qed
  ultimately show ?thesis using assms(3) by (auto simp: holds_sources_def)
qed

lemma collect_sources_eq:
  assumes "js_type root = S_JSON_OBJECT" "js_children root = done @ rest"
    and "\<forall>ch\<in>set done. source_object ch" "holds_sources languages done" "distinct (map child_name done)"
  shows "if (\<forall>ch\<in>set rest. source_object ch) \<and> distinct (map child_name (done @ rest))
     then \<exists>languages'. collect_sources root (length done) rest languages = Some languages'
        \<and> holds_sources languages' (done @ rest)
     else collect_sources root (length done) rest languages = None"
  using assms(2-5)
proof (induction rest arbitrary: "done" languages)
  case (Cons ch rest)
  have named_done: "\<forall>ch\<in>set done. named ch" using Cons.prems(2) by (auto simp: source_object_def)
  show ?case
  proof (cases "named ch \<and> js_type (the ch) = S_JSON_OBJECT \<and> child_name ch \<notin> child_name ` set done")
    case False
    have "collect_sources root (length done) (ch # rest) languages = None"
    proof (cases ch)
      case (Some c)
      show ?thesis
      proof (cases "js_name c")
        case (Some n)
        with \<open>ch = Some c\<close> False seen_before_iff[OF assms(1) Cons.prems(1) named_done, of n] show ?thesis
          by (auto simp: named_def child_name_def)
      qed (simp add: \<open>ch = Some c\<close>)
    qed simp
    moreover have "\<not> ((\<forall>x\<in>set (ch # rest). source_object x) \<and> distinct (map child_name (done @ ch # rest)))"
      using False by (auto simp: source_object_def flat_object_def)
    ultimately show ?thesis by (simp only: if_False)
  next
    case True
    then obtain c n where c: "ch = Some c" "js_name c = Some n" "js_type c = S_JSON_OBJECT" "child_name ch = cstr n"
      by (auto simp: named_def child_name_def)
    have wf: "wf_languages languages" using Cons.prems(3) by (simp add: holds_sources_def)
    have fresh: "look languages k (cstr n) = None" for k
      using Cons.prems(3) True source_texts_None[of "cstr n" "done" k] c(4) by (simp add: holds_sources_def)
    have seen: "\<not> sw_json_object_name_seen_before root (length done) (Some n)"
      using seen_before_iff[OF assms(1) Cons.prems(1) named_done] c(4) True by simp
    have obj: "source_object ch \<longleftrightarrow>
        (\<forall>x\<in>set (js_children c). string_member x \<and> sw_translation_language_code_is_valid (js_name (the x)))
        \<and> distinct (map child_name ([] @ js_children c))"
      using c True by (auto simp: source_object_def flat_object_def)
    note inner = collect_translations_eq[OF c(3,2), of "[]" "js_children c" languages, simplified length_0_conv list.size(3)]
    have run: "collect_sources root (length done) (ch # rest) languages =
        (case collect_translations c 0 (js_children c) languages of None \<Rightarrow> None
         | Some languages' \<Rightarrow> collect_sources root (length (done @ [ch])) rest languages')"
      using c seen by (simp cong: option.case_cong)
    show ?thesis
    proof (cases "source_object ch")
      case False
      then have "collect_translations c 0 (js_children c) languages = None"
        using inner wf fresh unfolding obj by auto
      with run False show ?thesis by simp
    next
      case src: True
      obtain languages1 where l1: "collect_translations c 0 (js_children c) languages = Some languages1"
        "wf_languages languages1" "texts languages1 = with_source (texts languages) (cstr n) (js_children c)"
        using inner wf fresh src unfolding obj by auto
      have "holds_sources languages1 (done @ [ch])"
        using l1 c True Cons.prems(3) by (intro holds_sources_snoc[of languages]) auto
      then have IH: "if (\<forall>ch\<in>set rest. source_object ch) \<and> distinct (map child_name ((done @ [ch]) @ rest))
         then \<exists>languages'. collect_sources root (length (done @ [ch])) rest languages1 = Some languages'
            \<and> holds_sources languages' ((done @ [ch]) @ rest)
         else collect_sources root (length (done @ [ch])) rest languages1 = None"
        using Cons.prems src True by (intro Cons.IH) auto
      have same: "(\<forall>x\<in>set (ch # rest). source_object x) \<and> distinct (map child_name (done @ ch # rest)) \<longleftrightarrow>
          (\<forall>x\<in>set rest. source_object x) \<and> distinct (map child_name ((done @ [ch]) @ rest))"
        using src by simp
      show ?thesis using IH unfolding run l1(1) same by (auto split: if_splits)
    qed
  qed
qed simp

lemma collect_source_groups_eq:
  "if groups_object root
   then \<exists>languages. sw_translator_collect_source_groups root = Some languages \<and> holds_sources languages (js_children root)
   else sw_translator_collect_source_groups root = None"
proof (cases "js_type root = S_JSON_OBJECT")
  case True
  have "holds_sources [] []"
    by (simp add: holds_sources_def wf_languages_def look_def texts_def source_texts_def source_codes_def)
  with collect_sources_eq[OF True, of "[]" "js_children root" "[]", unfolded list.size append_Nil] show ?thesis
    by (auto simp: sw_translator_collect_source_groups_def groups_object_def True split: if_splits)
qed (simp add: sw_translator_collect_source_groups_def groups_object_def)

section \<open>The translator as maps\<close>

text \<open>
  \<open>tr_wf\<close>: codes are non-empty and pairwise different, every table belongs to a registered
  language, the keys of a table are different, and the current language exists.
\<close>

definition wf_registered :: "sw_language list \<Rightarrow> bool" where
  "wf_registered languages \<longleftrightarrow> (\<forall>l\<in>set languages. wf_code (lang_code l) \<and> lang_label l \<noteq> None)
     \<and> distinct (map lang_code languages)"

definition tr_wf :: "sw_translator \<Rightarrow> bool" where
  "tr_wf tr \<longleftrightarrow> wf_registered (tr_languages tr) \<and> wf_languages (tr_translations tr)
     \<and> tl_code ` set (tr_translations tr) \<subseteq> lang_code ` set (tr_languages tr)
     \<and> (case tr_current_language tr of None \<Rightarrow> tr_languages tr = [] | Some i \<Rightarrow> i < length (tr_languages tr))"

definition current_code :: "sw_translator \<Rightarrow> cptr" where
  "current_code tr = (case sw_translator_get_language (Some tr) of None \<Rightarrow> None | Some l \<Rightarrow> lang_code l)"

definition codes :: "sw_translator \<Rightarrow> string set" where
  "codes tr = {c. Some c \<in> lang_code ` set (tr_languages tr)}"

lemma registered_keys:
  "wf_registered languages \<Longrightarrow> \<forall>x\<in>set languages. has_code code (lang_code x) \<longleftrightarrow> lang_code x = Some (cstr code)"
  by (auto simp: wf_registered_def has_code_wf)

lemma find_registered_eq:
  assumes "wf_registered (tr_languages tr)"
  shows "sw_translator_find_registered_language tr (Some code) =
    index_where (\<lambda>l. lang_code l = Some (cstr code)) (tr_languages tr)"
  unfolding sw_translator_find_registered_language_def option.case
  using registered_keys[OF assms, of code] by (intro index_where_cong) blast

lemma current_code_cong:
  "tr_languages tr' = tr_languages tr \<Longrightarrow> tr_current_language tr' = tr_current_language tr \<Longrightarrow>
   current_code tr' = current_code tr"
  unfolding current_code_def sw_translator_get_language_def option.case by (simp split: option.split)

lemma upsert_refused:
  "sw_registered_language_begin language = None \<Longrightarrow>
   sw_translator_upsert_registered_language tr language = (False, None, tr)"
  by (simp add: sw_translator_upsert_registered_language_def)

lemma begin_Some_iff:
  "sw_registered_language_begin language = Some owned \<longleftrightarrow>
    (\<exists>l c. language = Some l \<and> lang_code l = Some c \<and> cstr c \<noteq> [] \<and>
       owned = \<lparr>lang_code = Some (cstr c),
         lang_label = Some (cstr (if lang_label l \<noteq> None then the (lang_label l) else c)),
         lang_direction = lang_direction l\<rparr>)"
  by (auto simp: sw_registered_language_begin_def sw_strdup_cstr_eq Let_def split: option.splits if_splits)

text \<open>Registering a language: a new code is added, a known one replaced in its place.\<close>

lemma upsert_accepted:
  assumes wf: "tr_wf tr" and owned: "sw_registered_language_begin language = Some owned"
  obtains i tr' c where "sw_translator_upsert_registered_language tr language = (True, Some i, tr')"
    "tr_wf tr'" "i < length (tr_languages tr')" "tr_languages tr' ! i = owned" "lang_code owned = Some c"
    "tr_translations tr' = tr_translations tr" "codes tr' = insert c (codes tr)"
    "tr_current_language tr \<noteq> None \<longrightarrow> current_code tr' = current_code tr"
    "tr_current_language tr' \<noteq> None"
proof -
  from owned obtain l c0 where l: "language = Some l" "lang_code l = Some c0" "cstr c0 \<noteq> []"
    and o: "lang_code owned = Some (cstr c0)" "lang_label owned \<noteq> None" unfolding begin_Some_iff by auto
  have wfr: "wf_registered (tr_languages tr)" and sub: "tl_code ` set (tr_translations tr) \<subseteq> lang_code ` set (tr_languages tr)"
    using wf by (auto simp: tr_wf_def)
  have wfo: "wf_code (lang_code owned)" using l o by (simp add: wf_code_def)
  note find = find_registered_eq[OF wfr, of c0]
  show ?thesis
  proof (cases "index_where (\<lambda>l. lang_code l = Some (cstr c0)) (tr_languages tr)")
    case (Some i)
    note i = index_where_found[OF Some]
    let ?tr = "tr\<lparr>tr_languages := (tr_languages tr)[i := owned]\<rparr>"
    have same: "map lang_code (tr_languages ?tr) = map lang_code (tr_languages tr)"
      using i o(1) by (simp add: map_update list_update_same_conv)
    have "lang_code ` set (tr_languages ?tr) = lang_code ` set (tr_languages tr)"
      using arg_cong[OF same, of set] by simp
    moreover have "\<forall>x\<in>set (tr_languages ?tr). wf_code (lang_code x) \<and> lang_label x \<noteq> None"
      using wfr wfo o set_update_subset_insert[of "tr_languages tr" i owned] by (auto simp: wf_registered_def)
    ultimately have "tr_wf ?tr" "codes ?tr = codes tr"
      using wf same by (auto simp: tr_wf_def wf_registered_def codes_def split: option.splits)
    moreover have "current_code ?tr = current_code tr"
      using i o(1) by (auto simp: current_code_def sw_translator_get_language_def array_get_def nth_list_update split: option.splits)
    moreover have "cstr c0 \<in> codes tr" using i unfolding codes_def by (metis image_eqI mem_Collect_eq)
    moreover have "tr_current_language tr \<noteq> None" using wf i by (auto simp: tr_wf_def split: option.splits)
    moreover have "sw_translator_upsert_registered_language tr language = (True, Some i, ?tr)"
      using owned find Some l by (simp add: sw_translator_upsert_registered_language_def)
    ultimately show ?thesis
      using that[of i ?tr "cstr c0"] i o(1) by (simp add: insert_absorb)
  next
    case None
    let ?tr = "tr\<lparr>tr_languages := tr_languages tr @ [owned],
      tr_current_language := (if tr_current_language tr = None then Some (length (tr_languages tr)) else tr_current_language tr)\<rparr>"
    have new: "Some (cstr c0) \<notin> lang_code ` set (tr_languages tr)"
      using None unfolding index_where_None_iff by auto
    have "tr_wf ?tr"
      using wf new wfo o by (auto simp: tr_wf_def wf_registered_def split: option.splits)
    moreover have "codes ?tr = insert (cstr c0) (codes tr)" using o(1) by (auto simp: codes_def)
    moreover have "current_code ?tr = current_code tr" if "tr_current_language tr \<noteq> None"
      using that wf by (auto simp: current_code_def sw_translator_get_language_def array_get_def nth_append tr_wf_def
          split: option.splits)
    moreover have "sw_translator_upsert_registered_language tr language = (True, Some (length (tr_languages tr)), ?tr)"
      using owned find None l by (simp add: sw_translator_upsert_registered_language_def Let_def)
    ultimately show ?thesis
      using that[of "length (tr_languages tr)" ?tr "cstr c0"] o(1) by simp
  qed
qed

lemma find_registered_None_iff:
  "wf_registered (tr_languages tr) \<Longrightarrow>
   sw_translator_find_registered_language tr (Some code) = None \<longleftrightarrow> cstr code \<notin> codes tr"
  unfolding codes_def by (force simp: find_registered_eq index_where_None_iff)

lemma ensure_accepted:
  assumes wf: "tr_wf tr" and c: "cstr c \<noteq> []"
  obtains tr' where "sw_translator_ensure_registered_language tr (Some c) = (True, tr')"
    "tr_wf tr'" "tr_translations tr' = tr_translations tr" "codes tr' = insert (cstr c) (codes tr)"
    "tr_current_language tr \<noteq> None \<longrightarrow> current_code tr' = current_code tr"
    "tr_current_language tr' \<noteq> None"
proof (cases "cstr c \<in> codes tr")
  case True
  have "tr_current_language tr \<noteq> None" using True wf by (auto simp: codes_def tr_wf_def split: option.splits)
  then show ?thesis
    using that[of tr] True wf c find_registered_None_iff[of tr c]
    by (simp add: sw_translator_ensure_registered_language_def tr_wf_def insert_absorb)
next
  case False
  let ?l = "\<lparr>lang_code = Some c, lang_label = None, lang_direction = SW_LANGUAGE_DIRECTION_LTR\<rparr>"
  obtain owned where owned: "sw_registered_language_begin (Some ?l) = Some owned" "lang_code owned = Some (cstr c)"
    using c by (auto simp: begin_Some_iff)
  from wf owned(1) obtain i tr' d where up: "sw_translator_upsert_registered_language tr (Some ?l) = (True, Some i, tr')"
    "tr_wf tr'" "lang_code owned = Some d" "tr_translations tr' = tr_translations tr" "codes tr' = insert d (codes tr)"
    "tr_current_language tr \<noteq> None \<longrightarrow> current_code tr' = current_code tr"
    "tr_current_language tr' \<noteq> None" by (rule upsert_accepted) blast
  show ?thesis
    using that[of tr'] up owned(2) False wf c find_registered_None_iff[of tr c]
    by (simp add: sw_translator_ensure_registered_language_def tr_wf_def)
qed

text \<open>Storing a table replaces the table of its language and registers the language if needed.\<close>

lemma store_accepted:
  assumes wf: "tr_wf tr" and t: "wf_language t"
  obtains tr' where "sw_translator_store_language tr t = (True, tr')" "tr_wf tr'"
    "texts (tr_translations tr') = (texts (tr_translations tr))(the (tl_code t) \<mapsto> item_texts (tl_items t))"
    "codes tr' = insert (the (tl_code t)) (codes tr)"
    "tr_current_language tr \<noteq> None \<longrightarrow> current_code tr' = current_code tr" "tr_current_language tr' \<noteq> None"
proof -
  from t obtain c where c: "tl_code t = Some c" "c \<noteq> []" "cstr c = c"
    by (auto simp: wf_language_def wf_code_Some cstr_ident)
  from wf c obtain tr1 where e: "sw_translator_ensure_registered_language tr (Some c) = (True, tr1)"
    "tr_wf tr1" "tr_translations tr1 = tr_translations tr" "codes tr1 = insert (cstr c) (codes tr)"
    "tr_current_language tr \<noteq> None \<longrightarrow> current_code tr1 = current_code tr" "tr_current_language tr1 \<noteq> None"
    using ensure_accepted[of tr c] by metis
  let ?ts = "put_where (\<lambda>l. has_code c (tl_code l)) t (tr_translations tr1)"
  let ?tr = "tr1\<lparr>tr_translations := ?ts\<rparr>"
  have wfl: "wf_languages (tr_translations tr1)" using e(2) by (simp add: tr_wf_def)
  have code: "tl_code t = Some (cstr c)" using c by simp
  have reg: "Some c \<in> lang_code ` set (tr_languages tr1)" using e(4) c by (auto simp: codes_def)
  have "tr_wf ?tr"
    using e(2) wf_put_language[OF wfl t code] tl_code_put_language[OF wfl code] reg c
    by (auto simp: tr_wf_def split: option.splits)
  moreover have "sw_translator_store_language tr t = (True, ?tr)"
    using c(1) e(1) by (auto simp: sw_translator_store_language_def put_where_def
        sw_translator_find_translation_language_def split: option.splits)
  moreover have "texts (tr_translations ?tr) = (texts (tr_translations tr))(c \<mapsto> item_texts (tl_items t))"
    using texts_put_language[OF wfl code] e(3) c by simp
  moreover have "codes ?tr = insert c (codes tr)" using e(4) c by (simp add: codes_def)
  moreover have "current_code ?tr = current_code tr1" by (rule current_code_cong) simp_all
  ultimately show ?thesis using that[of ?tr] e c by simp
qed

lemma texts_Cons: "texts (t # ts) = (texts ts)(the (tl_code t) \<mapsto> item_texts (tl_items t))"
  by (simp add: texts_def)

lemma store_languages_accepted:
  assumes "tr_wf tr" "wf_languages ts"
  shows "\<exists>tr'. store_languages tr ts = (True, tr') \<and> tr_wf tr'
    \<and> texts (tr_translations tr') = texts (tr_translations tr) ++ texts ts
    \<and> codes tr' = codes tr \<union> {c. texts ts c \<noteq> None}
    \<and> (tr_current_language tr \<noteq> None \<longrightarrow> current_code tr' = current_code tr \<and> tr_current_language tr' \<noteq> None)"
  using assms
proof (induction ts arbitrary: tr)
  case Nil
  then show ?case by (simp add: texts_def)
next
  case (Cons t ts)
  have t: "wf_language t" and ts: "wf_languages ts" and new: "tl_code t \<notin> tl_code ` set ts"
    using Cons.prems(2) by (auto simp: wf_languages_def)
  from Cons.prems(1) t obtain tr1 where s: "sw_translator_store_language tr t = (True, tr1)" "tr_wf tr1"
    "texts (tr_translations tr1) = (texts (tr_translations tr))(the (tl_code t) \<mapsto> item_texts (tl_items t))"
    "codes tr1 = insert (the (tl_code t)) (codes tr)"
    "tr_current_language tr \<noteq> None \<longrightarrow> current_code tr1 = current_code tr" "tr_current_language tr1 \<noteq> None"
    by (rule store_accepted) auto
  have "Some (the (tl_code t)) = tl_code t" using t by (auto simp: wf_language_def wf_code_Some)
  then have "the (tl_code t) \<notin> dom (texts ts)" using dom_texts[OF ts] new by (metis domD option.distinct(1))
  then have add: "(texts (tr_translations tr))(the (tl_code t) \<mapsto> item_texts (tl_items t)) ++ texts ts =
      texts (tr_translations tr) ++ texts (t # ts)"
    by (simp add: texts_Cons map_add_upd_left)
  from Cons.IH[OF s(2) ts] obtain tr2 where "store_languages tr1 ts = (True, tr2)" "tr_wf tr2"
    "texts (tr_translations tr2) = texts (tr_translations tr1) ++ texts ts"
    "codes tr2 = codes tr1 \<union> {c. texts ts c \<noteq> None}" "current_code tr2 = current_code tr1" "tr_current_language tr2 \<noteq> None"
    using s(6) by auto
  moreover have "{c. texts (t # ts) c \<noteq> None} = insert (the (tl_code t)) {c. texts ts c \<noteq> None}"
    by (auto simp: texts_Cons)
  ultimately show ?case using s(1,4-6) unfolding s(3) add by auto
qed

lemma texts_index:
  assumes "wf_languages languages"
  shows "map_option (\<lambda>i. item_texts (tl_items (languages ! i))) (index_where (\<lambda>l. has_code c (tl_code l)) languages) =
    texts languages (cstr c)"
  unfolding texts_def using wf_languagesD(2)[OF assms]
  by (intro index_where_map_of) (auto simp: has_code_the)

lemma translate_eq:
  assumes "tr_wf tr"
  shows "sw_translate (Some tr) (Some s) = Some (case current_code tr of None \<Rightarrow> s
    | Some c \<Rightarrow> (case look (tr_translations tr) c (cstr s) of None \<Rightarrow> s | Some v \<Rightarrow> v))"
proof (cases "sw_translator_get_language (Some tr)")
  case None
  then show ?thesis
    by (simp add: sw_translate_def current_code_def sw_translator_current_translation_language_def)
next
  case (Some l)
  then have "l \<in> set (tr_languages tr)"
    by (auto simp: sw_translator_get_language_def array_get_def split: option.splits if_splits)
  then obtain c where c: "lang_code l = Some c" "cstr c = c"
    using assms by (auto simp: tr_wf_def wf_registered_def wf_code_Some cstr_ident)
  have wf: "wf_languages (tr_translations tr)" using assms by (simp add: tr_wf_def)
  have table: "sw_translator_current_translation_language (Some tr) =
      map_option (\<lambda>i. tr_translations tr ! i) (index_where (\<lambda>l. has_code c (tl_code l)) (tr_translations tr))"
    using Some c by (simp add: sw_translator_current_translation_language_def
        sw_translator_find_translation_language_def option.case_eq_if map_option_case)
  show ?thesis
  proof (cases "index_where (\<lambda>l. has_code c (tl_code l)) (tr_translations tr)")
    case None
    with texts_index[OF wf, of c] table Some c show ?thesis
      by (simp add: sw_translate_def current_code_def look_def)
  next
    case (Some i)
    let ?t = "tr_translations tr ! i"
    have items: "wf_items (tl_items ?t)" using index_where_found[OF Some] wf_languagesD(3)[OF wf] by auto
    have "map_option (\<lambda>i. item_value (tl_items ?t ! i)) (index_where (\<lambda>item. strcmp_eq s (item_key item)) (tl_items ?t)) =
        item_texts (tl_items ?t) (cstr s)"
      unfolding item_texts_def using items
      by (intro index_where_map_of) (auto simp: wf_items_def strcmp_eq_def cstr_ident)
    then have "(case index_where (\<lambda>item. strcmp_eq s (item_key item)) (tl_items ?t) of
          None \<Rightarrow> Some s | Some i \<Rightarrow> Some (item_value (tl_items ?t ! i))) =
        Some (case item_texts (tl_items ?t) (cstr s) of None \<Rightarrow> s | Some v \<Rightarrow> v)"
      by (cases "index_where (\<lambda>item. strcmp_eq s (item_key item)) (tl_items ?t)")
        (simp_all flip: \<open>map_option _ _ = _\<close>)
    moreover have "texts (tr_translations tr) c = Some (item_texts (tl_items ?t))"
      using texts_index[OF wf, of c] Some c by simp
    ultimately show ?thesis
      using table Some \<open>sw_translator_get_language (Some tr) = Some l\<close> c
      by (simp add: sw_translate_def current_code_def look_def)
  qed
qed

lemma set_language_accepted:
  assumes "tr_wf tr" "cstr c \<in> codes tr"
  obtains tr' where "sw_translator_set_language tr (Some c) = (True, tr')" "tr_wf tr'"
    "current_code tr' = Some (cstr c)" "tr_translations tr' = tr_translations tr" "codes tr' = codes tr"
proof -
  have wfr: "wf_registered (tr_languages tr)" using assms(1) by (simp add: tr_wf_def)
  obtain i where i: "index_where (\<lambda>l. lang_code l = Some (cstr c)) (tr_languages tr) = Some i"
    using find_registered_None_iff[OF wfr, of c] find_registered_eq[OF wfr, of c] assms(2) by force
  note f = index_where_found[OF i]
  let ?tr = "tr\<lparr>tr_current_language := Some i\<rparr>"
  have "sw_translator_set_language tr (Some c) = (True, ?tr)"
    by (simp add: sw_translator_set_language_def find_registered_eq[OF wfr] i)
  moreover have "tr_wf ?tr" using assms(1) f by (simp add: tr_wf_def)
  moreover have "current_code ?tr = Some (cstr c)"
    using f by (simp add: current_code_def sw_translator_get_language_def array_get_def)
  ultimately show ?thesis using that[of ?tr] by (simp add: codes_def)
qed

lemma set_language_refused:
  assumes "tr_wf tr" "cstr c \<notin> codes tr"
  shows "sw_translator_set_language tr (Some c) = (False, tr)"
proof -
  have "wf_registered (tr_languages tr)" using assms(1) by (simp add: tr_wf_def)
  from find_registered_None_iff[OF this, of c] show ?thesis using assms(2) by (simp add: sw_translator_set_language_def)
qed

text \<open>The text shown for \<open>s\<close> once language \<open>c\<close> has been selected.\<close>

definition translate_in :: "sw_translator \<Rightarrow> string \<Rightarrow> string \<Rightarrow> cptr" where
  "translate_in tr c s = sw_translate (Some (snd (sw_translator_set_language tr (Some c)))) (Some s)"

lemma translate_in_eq:
  assumes "tr_wf tr" "cstr c \<in> codes tr"
  shows "translate_in tr c s = Some (case look (tr_translations tr) (cstr c) (cstr s) of None \<Rightarrow> s | Some v \<Rightarrow> v)"
proof -
  from set_language_accepted[OF assms] obtain tr' where "sw_translator_set_language tr (Some c) = (True, tr')"
    "tr_wf tr'" "current_code tr' = Some (cstr c)" "tr_translations tr' = tr_translations tr" by metis
  then show ?thesis by (simp add: translate_in_def translate_eq)
qed

lemma load_text_unfold:
  "sw_translator_load_text parse tr (Some code) (Some json) =
    (case parse json of None \<Rightarrow> (False, tr)
     | Some root \<Rightarrow>
         if flat_object root \<and> cstr code \<noteq> []
         then sw_translator_store_language tr
                \<lparr>tl_code = Some (cstr code), tl_items = map flat_item (js_children root)\<rparr>
         else (False, tr))"
  by (simp add: sw_translator_load_text_def sw_translator_build_language_from_text_def build_flat_language_eq
      split: option.split)

lemma flat_language_wf:
  "flat_object root \<Longrightarrow> cstr code \<noteq> [] \<Longrightarrow>
   wf_language \<lparr>tl_code = Some (cstr code), tl_items = map flat_item (js_children root)\<rparr>"
  by (simp add: wf_language_def wf_code_def flat_object_def wf_flat_items)

lemma load_text_accepted:
  assumes "tr_wf tr" "parse json = Some root" "flat_object root" "cstr code \<noteq> []"
  obtains tr' where "sw_translator_load_text parse tr (Some code) (Some json) = (True, tr')" "tr_wf tr'"
    "texts (tr_translations tr') = (texts (tr_translations tr))(cstr code \<mapsto> member_texts (js_children root))"
    "codes tr' = insert (cstr code) (codes tr)"
    "tr_current_language tr \<noteq> None \<longrightarrow> current_code tr' = current_code tr" "tr_current_language tr' \<noteq> None"
  using store_accepted[OF assms(1) flat_language_wf[OF assms(3,4)]] assms(2-4)
  by (auto simp: load_text_unfold item_texts_flat)

lemma load_all_text_accepted:
  assumes "tr_wf tr" "parse json = Some root" "groups_object root"
  obtains tr' where "sw_translator_load_all_text parse tr (Some json) = (True, tr')" "tr_wf tr'"
    "\<And>c s. look (tr_translations tr') c s = (if c \<in> source_codes (js_children root)
       then source_texts (js_children root) s c else look (tr_translations tr) c s)"
    "codes tr' = codes tr \<union> source_codes (js_children root)"
    "tr_current_language tr \<noteq> None \<longrightarrow> current_code tr' = current_code tr \<and> tr_current_language tr' \<noteq> None"
proof -
  obtain ls where ls: "sw_translator_collect_source_groups root = Some ls" "holds_sources ls (js_children root)"
    using collect_source_groups_eq[of root] assms(3) by auto
  then have wf: "wf_languages ls" and view: "\<And>c s. look ls c s = source_texts (js_children root) s c"
    and dom: "\<And>c. texts ls c \<noteq> None \<longleftrightarrow> c \<in> source_codes (js_children root)"
    by (auto simp: holds_sources_def)
  from store_languages_accepted[OF assms(1) wf] obtain tr' where t: "store_languages tr ls = (True, tr')" "tr_wf tr'"
    "texts (tr_translations tr') = texts (tr_translations tr) ++ texts ls"
    "codes tr' = codes tr \<union> {c. texts ls c \<noteq> None}"
    "tr_current_language tr \<noteq> None \<longrightarrow> current_code tr' = current_code tr \<and> tr_current_language tr' \<noteq> None" by auto
  have "look (tr_translations tr') c s = (if c \<in> source_codes (js_children root)
       then source_texts (js_children root) s c else look (tr_translations tr) c s)" for c s
    unfolding view[symmetric] dom[symmetric] by (auto simp: look_def t(3) map_add_def split: option.splits)
  moreover have "codes tr' = codes tr \<union> source_codes (js_children root)" using t(4) dom by auto
  moreover have "sw_translator_load_all_text parse tr (Some json) = (True, tr')"
    using assms(2) ls(1) t(1) by (simp add: sw_translator_load_all_text_def)
  ultimately show ?thesis using that[of tr'] t(2,5) by blast
qed

lemma load_all_text_refused:
  assumes "\<And>root. parse json = Some root \<Longrightarrow> \<not> groups_object root"
  shows "sw_translator_load_all_text parse tr (Some json) = (False, tr)"
proof (cases "parse json")
  case (Some root)
  with assms[OF Some] collect_source_groups_eq[of root] show ?thesis by (simp add: sw_translator_load_all_text_def)
qed (simp add: sw_translator_load_all_text_def)

section \<open>Any sequence of operations\<close>

datatype tr_op = Op_add "sw_language option" | Op_load_text cptr cptr | Op_load_file cptr cptr
  | Op_load_all_text cptr | Op_load_all_file cptr | Op_set_language cptr

fun tr_step :: "(string \<Rightarrow> s_json option) \<Rightarrow> (string \<Rightarrow> cptr) \<Rightarrow> sw_translator \<Rightarrow> tr_op \<Rightarrow> bool \<times> sw_translator" where
  "tr_step parse read_file tr (Op_add language) = sw_translator_add tr language"
| "tr_step parse read_file tr (Op_load_text code json) = sw_translator_load_text parse tr code json"
| "tr_step parse read_file tr (Op_load_file code path) = sw_translator_load_file parse read_file tr code path"
| "tr_step parse read_file tr (Op_load_all_text json) = sw_translator_load_all_text parse tr json"
| "tr_step parse read_file tr (Op_load_all_file path) = sw_translator_load_all_file parse read_file tr path"
| "tr_step parse read_file tr (Op_set_language code) = sw_translator_set_language tr code"

text \<open>A step either fails and changes nothing, or keeps the translator well-formed and every language.\<close>

definition tr_good :: "sw_translator \<Rightarrow> bool \<times> sw_translator \<Rightarrow> bool" where
  "tr_good tr r \<longleftrightarrow> r = (False, tr) \<or>
     (fst r \<and> tr_wf (snd r) \<and> codes tr \<subseteq> codes (snd r) \<and> tr_current_language (snd r) \<noteq> None)"

lemma load_text_good:
  assumes "tr_wf tr"
  shows "tr_good tr (sw_translator_load_text parse tr code json)"
proof (cases "\<exists>c j root. code = Some c \<and> json = Some j \<and> parse j = Some root \<and> flat_object root \<and> cstr c \<noteq> []")
  case True
  then obtain c j root where "code = Some c" "json = Some j" "parse j = Some root" "flat_object root" "cstr c \<noteq> []" by auto
  with load_text_accepted[OF assms, of parse j root c] show ?thesis by (metis fst_conv snd_conv subset_insertI tr_good_def)
next
  case False
  have "sw_translator_load_text parse tr code json = (False, tr)"
  proof (cases "code = None \<or> json = None")
    case True
    then show ?thesis
      by (auto simp: sw_translator_load_text_def sw_translator_build_language_from_text_def split: option.split)
  next
    case none: False
    then obtain c j where "code = Some c" "json = Some j" by auto
    with False show ?thesis by (auto simp: load_text_unfold split: option.split)
  qed
  then show ?thesis by (simp add: tr_good_def)
qed

lemma load_all_text_good:
  assumes "tr_wf tr" "tr_current_language tr \<noteq> None"
  shows "tr_good tr (sw_translator_load_all_text parse tr json)"
proof (cases "\<exists>j root. json = Some j \<and> parse j = Some root \<and> groups_object root")
  case True
  then obtain j root where "json = Some j" "parse j = Some root" "groups_object root" by auto
  with load_all_text_accepted[OF assms(1), of parse j root] assms(2) show ?thesis
    by (metis fst_conv snd_conv Un_upper1 tr_good_def)
next
  case False
  then have "sw_translator_load_all_text parse tr json = (False, tr)"
    by (cases json) (auto simp: load_all_text_refused, simp add: sw_translator_load_all_text_def)
  then show ?thesis by (simp add: tr_good_def)
qed

lemma tr_step_good:
  assumes "tr_wf tr" "tr_current_language tr \<noteq> None"
  shows "tr_good tr (tr_step parse read_file tr op)"
proof (cases op)
  case (Op_add language)
  show ?thesis
  proof (cases "sw_registered_language_begin language")
    case None
    then show ?thesis by (simp add: Op_add sw_translator_add_def upsert_refused tr_good_def)
  next
    case (Some owned)
    from upsert_accepted[OF assms(1) Some] obtain i tr' c where
      "sw_translator_upsert_registered_language tr language = (True, Some i, tr')" "tr_wf tr'"
      "codes tr' = insert c (codes tr)" "tr_current_language tr' \<noteq> None" by metis
    then show ?thesis by (auto simp: Op_add sw_translator_add_def tr_good_def)
  qed
next
  case (Op_load_file code path)
  then show ?thesis using load_text_good[OF assms(1)]
    by (auto simp: sw_translator_load_file_def tr_good_def split: option.split)
next
  case (Op_load_all_file path)
  then show ?thesis using load_all_text_good[OF assms]
    by (auto simp: sw_translator_load_all_file_def tr_good_def split: option.split)
next
  case (Op_set_language code)
  show ?thesis
  proof (cases "\<exists>c. code = Some c \<and> cstr c \<in> codes tr")
    case True
    then obtain c where "code = Some c" "cstr c \<in> codes tr" by auto
    with set_language_accepted[OF assms(1)] obtain tr' where "sw_translator_set_language tr code = (True, tr')" "tr_wf tr'"
      "current_code tr' = Some (cstr c)" "codes tr' = codes tr" by metis
    moreover have "tr_current_language tr' \<noteq> None" using \<open>current_code tr' = Some (cstr c)\<close>
      by (auto simp: current_code_def sw_translator_get_language_def split: option.splits)
    ultimately show ?thesis by (simp add: Op_set_language tr_good_def)
  next
    case False
    then have "sw_translator_set_language tr code = (False, tr)"
      using set_language_refused[OF assms(1)]
      by (cases code) (auto simp: sw_translator_set_language_def sw_translator_find_registered_language_def)
    then show ?thesis by (simp add: Op_set_language tr_good_def)
  qed
qed (use load_text_good[OF assms(1)] load_all_text_good[OF assms] in simp_all)

lemma create_wf:
  assumes "sw_translator_create parse read_file path language = Some tr"
  shows "tr_wf tr \<and> tr_current_language tr \<noteq> None"
proof -
  let ?tr0 = "\<lparr>tr_languages = [], tr_translations = [], tr_current_language = None\<rparr>"
  have wf0: "tr_wf ?tr0" by (simp add: tr_wf_def wf_registered_def wf_languages_def)
  obtain owned where owned: "sw_registered_language_begin language = Some owned"
    using assms by (cases "sw_registered_language_begin language")
      (auto simp: sw_translator_create_def upsert_refused)
  obtain i tr1 where up: "sw_translator_upsert_registered_language ?tr0 language = (True, Some i, tr1)"
    "tr_wf tr1" "i < length (tr_languages tr1)" using upsert_accepted[OF wf0 owned] by metis
  let ?tr2 = "tr1\<lparr>tr_current_language := Some i\<rparr>"
  have wf2: "tr_wf ?tr2" "tr_current_language ?tr2 \<noteq> None" using up(2,3) by (auto simp: tr_wf_def)
  have "tr = ?tr2 \<or> sw_translator_load_all_file parse read_file ?tr2 path = (True, tr)"
    using assms up(1) by (auto simp: sw_translator_create_def Let_def split: option.splits if_splits prod.splits)
  moreover have "tr_good ?tr2 (sw_translator_load_all_file parse read_file ?tr2 path)"
    using tr_step_good[OF wf2, of parse read_file "Op_load_all_file path"] by simp
  ultimately show ?thesis using wf2 by (auto simp: tr_good_def)
qed

definition tr_run :: "(string \<Rightarrow> s_json option) \<Rightarrow> (string \<Rightarrow> cptr) \<Rightarrow> tr_op list \<Rightarrow> sw_translator \<Rightarrow> sw_translator" where
  "tr_run parse read_file ops tr = foldl (\<lambda>tr op. snd (tr_step parse read_file tr op)) tr ops"

lemma tr_run_good:
  "tr_wf tr \<Longrightarrow> tr_current_language tr \<noteq> None \<Longrightarrow>
   tr_wf (tr_run parse read_file ops tr) \<and> tr_current_language (tr_run parse read_file ops tr) \<noteq> None
   \<and> codes tr \<subseteq> codes (tr_run parse read_file ops tr)"
proof (induction ops arbitrary: tr)
  case (Cons op ops)
  let ?tr = "snd (tr_step parse read_file tr op)"
  have "tr_wf ?tr \<and> tr_current_language ?tr \<noteq> None \<and> codes tr \<subseteq> codes ?tr"
    using tr_step_good[OF Cons.prems, of parse read_file op] Cons.prems by (auto simp: tr_good_def)
  with Cons.IH[of ?tr] show ?case by (auto simp: tr_run_def)
qed (simp add: tr_run_def)

lemma current_language_exists:
  assumes "tr_wf tr" "tr_current_language tr \<noteq> None"
  shows "\<exists>l c. sw_translator_get_language (Some tr) = Some l \<and> lang_code l = Some c \<and> c \<noteq> []"
proof -
  from assms obtain i where i: "tr_current_language tr = Some i" "i < length (tr_languages tr)"
    by (auto simp: tr_wf_def)
  then have "wf_code (lang_code (tr_languages tr ! i))" using assms(1) by (simp add: tr_wf_def wf_registered_def)
  with i show ?thesis by (auto simp: sw_translator_get_language_def array_get_def wf_code_Some)
qed

section \<open>Properties\<close>

text \<open>
  C30. A translator that \<^verbatim>\<open>sw_translator_create\<close> has returned is well formed after any sequence
  of operations, whatever the parser and the files give: language codes are non-empty and
  pairwise different, a language has at most one table, every table belongs to a registered
  language and has pairwise different keys. There is always a current language, no registered
  language is lost, and an operation that reports failure has changed nothing.
\<close>

theorem translator_invariant:
  assumes "sw_translator_create parse read_file path language = Some tr0"
  shows "let tr = tr_run parse read_file ops tr0 in
     tr_wf tr \<and> codes tr0 \<subseteq> codes tr
   \<and> (\<exists>l c. sw_translator_get_language (Some tr) = Some l \<and> lang_code l = Some c \<and> c \<noteq> [])
   \<and> (\<forall>op. fst (tr_step parse read_file tr op) \<or> snd (tr_step parse read_file tr op) = tr)"
proof -
  define tr where "tr = tr_run parse read_file ops tr0"
  have tr: "tr_wf tr" "tr_current_language tr \<noteq> None" "codes tr0 \<subseteq> codes tr"
    using create_wf[OF assms] tr_run_good[of tr0] by (auto simp: tr_def)
  have "fst (tr_step parse read_file tr op) \<or> snd (tr_step parse read_file tr op) = tr" for op
    using tr_step_good[OF tr(1,2), of parse read_file op] by (auto simp: tr_good_def)
  with tr current_language_exists[OF tr(1,2)] show ?thesis unfolding Let_def tr_def[symmetric] by blast
qed

text \<open>
  Loading the table of one language. A text that parses to an object of strings with
  pairwise different names is accepted; then the language can be selected, every name of the
  object is shown as its string and every other text as itself, and what any other language
  shows is unchanged. Any other text is refused and the translator stays as it was.
\<close>

theorem load_text_result:
  assumes "tr_wf tr" and "cstr code \<noteq> []"
  shows "if \<exists>root. parse json = Some root \<and> flat_object root
    then let (ok, tr') = sw_translator_load_text parse tr (Some code) (Some json) in
       ok \<and> fst (sw_translator_set_language tr' (Some code))
       \<and> (\<forall>s. translate_in tr' code s =
            Some (case member_texts (js_children (the (parse json))) (cstr s) of None \<Rightarrow> s | Some v \<Rightarrow> v))
       \<and> (\<forall>c s. cstr c \<in> codes tr \<and> cstr c \<noteq> cstr code \<longrightarrow> translate_in tr' c s = translate_in tr c s)
    else sw_translator_load_text parse tr (Some code) (Some json) = (False, tr)"
proof (cases "\<exists>root. parse json = Some root \<and> flat_object root")
  case True
  then obtain root where root: "parse json = Some root" "flat_object root" by auto
  from load_text_accepted[where parse = parse, OF assms(1) root assms(2)] obtain tr' where t:
    "sw_translator_load_text parse tr (Some code) (Some json) = (True, tr')" "tr_wf tr'"
    "texts (tr_translations tr') = (texts (tr_translations tr))(cstr code \<mapsto> member_texts (js_children root))"
    "codes tr' = insert (cstr code) (codes tr)" by metis
  have "fst (sw_translator_set_language tr' (Some code))"
    using set_language_accepted[OF t(2), of code] t(4) by (metis fst_conv insertI1)
  with True t root assms(1) show ?thesis by (auto simp: translate_in_eq look_def)
next
  case False
  then show ?thesis by (auto simp: load_text_unfold split: option.split)
qed

text \<open>
  C29. Loading all languages. A text that parses to an object of objects of strings, with
  different names at each level and valid language codes inside, is accepted; it is read by
  source text and stored by language: each language that occurs in it can be selected and shows
  a source text as the string given for it, any other text as itself. A language that does not
  occur shows what it showed before. Any other text is refused and the translator stays as it was.
\<close>

theorem load_all_transposes:
  assumes "tr_wf tr"
  shows "if \<exists>root. parse json = Some root \<and> groups_object root
    then let (ok, tr') = sw_translator_load_all_text parse tr (Some json);
             sources = js_children (the (parse json)) in
       ok \<and> (\<forall>c. cstr c \<in> codes tr \<union> source_codes sources \<longrightarrow>
         fst (sw_translator_set_language tr' (Some c))
         \<and> (\<forall>s. translate_in tr' c s =
              (if cstr c \<in> source_codes sources
               then Some (case source_texts sources (cstr s) (cstr c) of None \<Rightarrow> s | Some v \<Rightarrow> v)
               else translate_in tr c s)))
    else sw_translator_load_all_text parse tr (Some json) = (False, tr)"
proof (cases "\<exists>root. parse json = Some root \<and> groups_object root")
  case True
  then obtain root where root: "parse json = Some root" "groups_object root" by auto
  from load_all_text_accepted[of tr parse json root] assms root obtain tr' where t:
    "sw_translator_load_all_text parse tr (Some json) = (True, tr')" "tr_wf tr'"
    "\<And>c s. look (tr_translations tr') c s = (if c \<in> source_codes (js_children root)
       then source_texts (js_children root) s c else look (tr_translations tr) c s)"
    "codes tr' = codes tr \<union> source_codes (js_children root)" by metis
  have "fst (sw_translator_set_language tr' (Some c))" if "cstr c \<in> codes tr'" for c
    using set_language_accepted[OF t(2) that] by (metis fst_conv)
  moreover have "translate_in tr' c s = (if cstr c \<in> source_codes (js_children root)
      then Some (case source_texts (js_children root) (cstr s) (cstr c) of None \<Rightarrow> s | Some v \<Rightarrow> v)
      else translate_in tr c s)" if "cstr c \<in> codes tr \<union> source_codes (js_children root)" for c s
    using that t(2-4) assms by (auto simp: translate_in_eq)
  ultimately show ?thesis using root t(1,4) by auto
next
  case False
  then show ?thesis using load_all_text_refused[of parse json tr] by auto
qed

text \<open>A parser that knows two texts, and a translator for English.\<close>

definition js_text :: "string \<Rightarrow> string \<Rightarrow> s_json option" where
  "js_text name v = Some (S_json S_JSON_STRING (Some name) (Some v) [])"

definition demo_parse :: "string \<Rightarrow> s_json option" where
  "demo_parse json =
     (if json = ''flat'' then Some (S_json S_JSON_OBJECT None None [js_text ''Home'' ''Accueil'', js_text ''Mode'' ''Mode''])
      else if json = ''all'' then Some (S_json S_JSON_OBJECT None None
        [Some (S_json S_JSON_OBJECT (Some ''Search'') None [js_text ''fr'' ''Chercher'', js_text ''de'' ''Suche'']),
         Some (S_json S_JSON_OBJECT (Some ''Home'') None [js_text ''fr'' ''Accueil''])])
      else None)"

definition demo_language :: sw_language where
  "demo_language = \<lparr>lang_code = Some ''en'', lang_label = None, lang_direction = SW_LANGUAGE_DIRECTION_LTR\<rparr>"

definition demo_translator :: sw_translator where
  "demo_translator = the (sw_translator_create demo_parse (\<lambda>_. None) None (Some demo_language))"

lemma demo_created: "sw_translator_create demo_parse (\<lambda>_. None) None (Some demo_language) = Some demo_translator"
  by code_simp

lemma demo_wf: "tr_wf demo_translator"
  using create_wf[OF demo_created] by simp

theorem translator_invariant_witness:
  "tr_wf (tr_run demo_parse (\<lambda>_. None) [Op_load_all_text (Some ''all''), Op_set_language (Some ''fr'')] demo_translator)
   \<and> sw_translate (Some (tr_run demo_parse (\<lambda>_. None)
        [Op_load_all_text (Some ''all''), Op_set_language (Some ''fr'')] demo_translator)) (Some ''Search'') = Some ''Chercher''"
proof
  show "tr_wf (tr_run demo_parse (\<lambda>_. None) [Op_load_all_text (Some ''all''), Op_set_language (Some ''fr'')] demo_translator)"
    using translator_invariant[OF demo_created, of "[Op_load_all_text (Some ''all''), Op_set_language (Some ''fr'')]"]
    by (simp add: Let_def)
qed code_simp

theorem load_text_result_witness:
  "fst (sw_translator_load_text demo_parse demo_translator (Some ''fr'') (Some ''flat''))
   \<and> translate_in (snd (sw_translator_load_text demo_parse demo_translator (Some ''fr'') (Some ''flat'')))
       ''fr'' ''Home'' = Some ''Accueil''"
proof -
  have root: "\<exists>root. demo_parse ''flat'' = Some root \<and> flat_object root"
    by (simp add: demo_parse_def js_text_def flat_object_def string_member_def named_def child_name_def)
  have texts: "member_texts (js_children (the (demo_parse ''flat''))) ''Home'' = Some ''Accueil''"
    by code_simp
  show ?thesis
    using load_text_result[OF demo_wf, of "''fr''" demo_parse "''flat''"] root texts
    by (auto simp: split_beta Let_def)
qed

theorem load_all_transposes_witness:
  "fst (sw_translator_load_all_text demo_parse demo_translator (Some ''all''))
   \<and> translate_in (snd (sw_translator_load_all_text demo_parse demo_translator (Some ''all''))) ''de'' ''Search'' = Some ''Suche''
   \<and> translate_in (snd (sw_translator_load_all_text demo_parse demo_translator (Some ''all''))) ''de'' ''Home'' = Some ''Home''"
proof -
  have root: "\<exists>root. demo_parse ''all'' = Some root \<and> groups_object root"
    by (simp add: demo_parse_def js_text_def groups_object_def source_object_def flat_object_def string_member_def
        named_def child_name_def sw_translation_language_code_is_valid_def islower_def byte_def)
  have texts: "source_texts (js_children (the (demo_parse ''all''))) ''Search'' ''de'' = Some ''Suche''"
    "source_texts (js_children (the (demo_parse ''all''))) ''Home'' ''de'' = None"
    by code_simp+
  have de: "''de'' \<in> source_codes (js_children (the (demo_parse ''all'')))"
    by (simp add: demo_parse_def source_codes_def js_text_def child_name_def)
  show ?thesis
    using load_all_transposes[OF demo_wf, of demo_parse "''all''"] root texts de
    by (simp add: split_beta Let_def)
qed

end
