(* ===== verification/Reader.thy ===== *)
theory Reader
  imports Prelude
begin

text \<open>
  Readers as state machines: a step takes one character and emits tokens. \<open>reads\<close> states what a
  text makes of a state; texts are read piece by piece with \<open>reads_append\<close>. The readers of HTML
  and of script configurations are instances.
\<close>

fun read_all :: "('s \<Rightarrow> char \<Rightarrow> 't list \<times> 's) \<Rightarrow> 's \<Rightarrow> string \<Rightarrow> 't list \<times> 's" where
  "read_all step st [] = ([], st)"
| "read_all step st (c # cs) =
     (let (ts, st') = step st c; (us, st'') = read_all step st' cs in (ts @ us, st''))"

definition reads :: "('s \<Rightarrow> char \<Rightarrow> 't list \<times> 's) \<Rightarrow> 's \<Rightarrow> string \<Rightarrow> 't list \<Rightarrow> 's \<Rightarrow> bool" where
  "reads step st s ts st' \<longleftrightarrow> read_all step st s = (ts, st')"

lemma read_all_append:
  "read_all step a (s @ t) = (fst (read_all step a s) @ fst (read_all step (snd (read_all step a s)) t),
     snd (read_all step (snd (read_all step a s)) t))"
  by (induction s arbitrary: a) (simp_all add: split_beta Let_def)

lemma reads_append: "reads step a s ts b \<Longrightarrow> reads step b t us c \<Longrightarrow> reads step a (s @ t) (ts @ us) c"
  by (simp add: reads_def read_all_append)

lemma reads_silent: "step a c = ([], b) \<Longrightarrow> reads step b s us d \<Longrightarrow> reads step a (c # s) us d"
  by (simp add: reads_def)

lemma reads_Nil: "reads step a [] [] a"
  by (simp add: reads_def)

lemma reads_chars:
  assumes "\<And>c x. c \<in> set s \<Longrightarrow> step (f x) c = ([], f (x @ [c]))"
  shows "reads step (f x) s [] (f (x @ s))"
  using assms by (induction s arbitrary: x) (auto simp: reads_def)

text \<open>A text that is the image of a list, character by character.\<close>

lemma reads_concat:
  assumes "\<And>c x. c \<in> set s \<Longrightarrow> reads step (f x) (g c) [] (f (x @ [c]))"
  shows "reads step (f x) (concat (map g s)) [] (f (x @ s))"
  using assms
proof (induction s arbitrary: x)
  case (Cons c s)
  have "reads step (f x) (g c) [] (f (x @ [c]))" using Cons.prems by simp
  moreover have "reads step (f (x @ [c])) (concat (map g s)) [] (f ((x @ [c]) @ s))"
    by (rule Cons.IH) (use Cons.prems in simp)
  ultimately show ?case using reads_append by fastforce
qed (simp add: reads_Nil)

end
