(* ===== verification/Html.thy ===== *)
theory Html
  imports Translator
begin

text \<open>
  The HTML builder of \<^verbatim>\<open>src/sw_html.c\<close>: an output buffer with a translator, opening and closing
  tags, attributes, escaped text, and the scope stack that restores the translation switch at
  the end of an element.

  The bytes of the buffer are its content without the terminator (see \<open>CharArray\<close>, whose
  operations \<open>sw_char_array_append_byte\<close> and \<open>sw_char_array_append_cstr\<close> always succeed), so the
  operations below return the flag of the code and the buffer. A sequence of
  \<^verbatim>\<open>if (!step) return 0;\<close> lines is \<open>guarded\<close> applied to the list of its steps. The buffer
  pointer is not NULL; names, values and texts may be. A scope stack is a list whose last
  element is the top.
\<close>

section \<open>Buffers and attributes\<close>

record sw_buffer =
  bf_bytes :: string
  bf_translation_stack :: "bool list"
  bf_translator :: "sw_translator option"
  bf_translation_enabled :: bool
  bf_html_doctype_emitted :: bool
  bf_js_runtime_emitted :: bool

record sw_attr_item =
  at_name :: cptr
  at_value :: cptr
  at_enabled :: bool
  at_no_translate :: bool
  at_is_boolean :: bool

definition sw_attr :: "cptr \<Rightarrow> cptr \<Rightarrow> sw_attr_item" where
  "sw_attr name val = \<lparr>at_name = name, at_value = val, at_enabled = True, at_no_translate = False,
     at_is_boolean = False\<rparr>"

definition sw_attr_no_translate :: "cptr \<Rightarrow> cptr \<Rightarrow> sw_attr_item" where
  "sw_attr_no_translate name val = \<lparr>at_name = name, at_value = val, at_enabled = True, at_no_translate = True,
     at_is_boolean = False\<rparr>"

definition sw_attr_bool :: "cptr \<Rightarrow> bool \<Rightarrow> sw_attr_item" where
  "sw_attr_bool name enabled = \<lparr>at_name = name, at_value = None, at_enabled = enabled, at_no_translate = False,
     at_is_boolean = True\<rparr>"

definition sw_direction_value :: "sw_language_direction \<Rightarrow> string" where
  "sw_direction_value direction =
     (if direction = SW_LANGUAGE_DIRECTION_RTL then ''rtl''
      else if direction = SW_LANGUAGE_DIRECTION_TTB then ''ttb'' else ''ltr'')"

definition sw_html_translation_attr_name :: string where
  "sw_html_translation_attr_name = ''__sw_translation__''"

definition sw_html_direction_attr_name :: string where
  "sw_html_direction_attr_name = ''__sw_direction__''"

definition sw_html_direction_data_attr_name :: string where
  "sw_html_direction_data_attr_name = ''data-sw-direction''"

definition sw_attr_translation :: "bool \<Rightarrow> sw_attr_item" where
  "sw_attr_translation enabled = sw_attr (Some ''__sw_translation__'') (Some (if enabled then ''1'' else ''0''))"

definition sw_attr_direction :: "sw_language_direction \<Rightarrow> sw_attr_item" where
  "sw_attr_direction direction = sw_attr (Some ''__sw_direction__'') (Some (sw_direction_value direction))"

text \<open>Appending to the bytes, and a run of guarded steps.\<close>

definition out_byte :: "char \<Rightarrow> sw_buffer \<Rightarrow> bool \<times> sw_buffer" where
  "out_byte c h = (True, h\<lparr>bf_bytes := bf_bytes h @ [c]\<rparr>)"

definition out_cstr :: "cptr \<Rightarrow> sw_buffer \<Rightarrow> bool \<times> sw_buffer" where
  "out_cstr str h = (True, case str of None \<Rightarrow> h | Some s \<Rightarrow> h\<lparr>bf_bytes := bf_bytes h @ cstr s\<rparr>)"

fun guarded :: "('b \<Rightarrow> bool \<times> 'b) list \<Rightarrow> 'b \<Rightarrow> bool \<times> 'b" where
  "guarded [] h = (True, h)"
| "guarded (step # steps) h = (let (ok, h') = step h in if \<not> ok then (False, h') else guarded steps h')"

section \<open>Tests on names and values\<close>

fun root_html_loop :: "string \<Rightarrow> string \<Rightarrow> bool" where
  "root_html_loop html_tag [] = (html_tag = [])"
| "root_html_loop [] (t # ts) = False"
| "root_html_loop (c # cs) (t # ts) = (if tolower t \<noteq> c then False else root_html_loop cs ts)"

definition sw_html_is_root_html :: "cptr \<Rightarrow> bool" where
  "sw_html_is_root_html tag = (case tag of None \<Rightarrow> False | Some t \<Rightarrow> root_html_loop ''html'' (cstr t))"

definition stricmp_is :: "cptr \<Rightarrow> string \<Rightarrow> bool" where
  "stricmp_is name s \<longleftrightarrow> sw_stricmp_ascii name (Some s) = 0"

definition sw_html_translation_active :: "sw_buffer \<Rightarrow> bool" where
  "sw_html_translation_active h \<longleftrightarrow> bf_translation_enabled h \<and> bf_translator h \<noteq> None"

definition sw_html_current_language :: "sw_buffer \<Rightarrow> sw_language option" where
  "sw_html_current_language h =
     (case bf_translator h of None \<Rightarrow> None
      | Some tr \<Rightarrow>
          (case tr_current_language tr of None \<Rightarrow> None
           | Some handle \<Rightarrow> array_get (tr_languages tr) handle))"

definition sw_html_direction_dir_name :: "sw_language_direction \<Rightarrow> string" where
  "sw_html_direction_dir_name direction = (if direction = SW_LANGUAGE_DIRECTION_RTL then ''rtl'' else ''ltr'')"

definition sw_html_direction_style_name :: "sw_language_direction \<Rightarrow> cptr" where
  "sw_html_direction_style_name direction =
     (if direction = SW_LANGUAGE_DIRECTION_TTB then Some ''writing-mode:vertical-rl;text-orientation:mixed;'' else None)"

definition sw_html_translate_if_needed :: "sw_buffer \<Rightarrow> cptr \<Rightarrow> bool \<Rightarrow> cptr" where
  "sw_html_translate_if_needed h str no_translate =
     (if str = None \<or> no_translate \<or> \<not> sw_html_translation_active h then str
      else sw_translate (bf_translator h) str)"

definition sw_html_is_translation_attr :: "cptr \<Rightarrow> bool" where
  "sw_html_is_translation_attr name \<longleftrightarrow> name \<noteq> None \<and> stricmp_is name sw_html_translation_attr_name"

definition sw_html_is_direction_attr :: "cptr \<Rightarrow> bool" where
  "sw_html_is_direction_attr name \<longleftrightarrow> name \<noteq> None \<and> stricmp_is name sw_html_direction_attr_name"

definition sw_html_is_internal_attr :: "cptr \<Rightarrow> bool" where
  "sw_html_is_internal_attr name \<longleftrightarrow> sw_html_is_translation_attr name \<or> sw_html_is_direction_attr name"

text \<open>The test \<^verbatim>\<open>p == NULL || p[0] == '\0'\<close>.\<close>

definition blank :: "cptr \<Rightarrow> bool" where
  "blank p = (case p of None \<Rightarrow> True | Some s \<Rightarrow> cstr s = [])"

definition sw_html_parse_bool :: "cptr \<Rightarrow> bool \<Rightarrow> bool" where
  "sw_html_parse_bool val fallback =
     (if blank val then fallback
      else \<not> (hd (the val) = CHR ''0'' \<or> hd (the val) = CHR ''f'' \<or> hd (the val) = CHR ''F''
              \<or> hd (the val) = CHR ''n'' \<or> hd (the val) = CHR ''N''))"

definition sw_html_parse_direction :: "cptr \<Rightarrow> sw_language_direction \<Rightarrow> sw_language_direction" where
  "sw_html_parse_direction val fallback =
     (if blank val then fallback
      else if stricmp_is val ''rtl'' then SW_LANGUAGE_DIRECTION_RTL
      else if stricmp_is val ''ttb'' \<or> stricmp_is val ''vertical'' \<or> stricmp_is val ''vertical-rl''
      then SW_LANGUAGE_DIRECTION_TTB
      else SW_LANGUAGE_DIRECTION_LTR)"

fun resolve_translation_loop :: "sw_attr_item list \<Rightarrow> bool \<Rightarrow> bool" where
  "resolve_translation_loop [] enabled = enabled"
| "resolve_translation_loop (a # rest) enabled =
     (if \<not> at_enabled a \<or> \<not> sw_html_is_translation_attr (at_name a) then resolve_translation_loop rest enabled
      else resolve_translation_loop rest (sw_html_parse_bool (at_value a) enabled))"

definition sw_html_resolve_translation_enabled :: "sw_buffer \<Rightarrow> sw_attr_item list \<Rightarrow> bool" where
  "sw_html_resolve_translation_enabled h attrs = resolve_translation_loop attrs (bf_translation_enabled h)"

fun resolve_direction_loop :: "sw_attr_item list \<Rightarrow> bool \<Rightarrow> sw_language_direction \<Rightarrow> bool \<times> sw_language_direction" where
  "resolve_direction_loop [] has_direction direction = (has_direction, direction)"
| "resolve_direction_loop (a # rest) has_direction direction =
     (if \<not> at_enabled a \<or> \<not> sw_html_is_direction_attr (at_name a)
      then resolve_direction_loop rest has_direction direction
      else resolve_direction_loop rest True (sw_html_parse_direction (at_value a) direction))"

text \<open>The result is \<^verbatim>\<open>has_direction\<close> with \<^verbatim>\<open>*out_direction\<close>.\<close>

definition sw_html_resolve_direction :: "sw_buffer \<Rightarrow> cptr \<Rightarrow> sw_attr_item list \<Rightarrow> bool \<times> sw_language_direction" where
  "sw_html_resolve_direction h tag attrs =
     (let (has_direction, direction) =
            (if sw_html_is_root_html tag \<and> sw_html_translation_active h then
               (case sw_html_current_language h of None \<Rightarrow> (False, SW_LANGUAGE_DIRECTION_LTR)
                | Some language \<Rightarrow> (True, lang_direction language))
             else (False, SW_LANGUAGE_DIRECTION_LTR))
      in resolve_direction_loop attrs has_direction direction)"

definition sw_html_has_enabled_attr :: "sw_attr_item list \<Rightarrow> string \<Rightarrow> bool" where
  "sw_html_has_enabled_attr attrs name \<longleftrightarrow>
     (\<exists>a \<in> set attrs. at_enabled a \<and> at_name a \<noteq> None \<and> stricmp_is (at_name a) name)"

definition sw_html_has_internal_direction_attr :: "sw_attr_item list \<Rightarrow> bool" where
  "sw_html_has_internal_direction_attr attrs \<longleftrightarrow>
     (\<exists>a \<in> set attrs. at_enabled a \<and> sw_html_is_direction_attr (at_name a))"

definition sw_html_attr_allows_translation :: "cptr \<Rightarrow> bool" where
  "sw_html_attr_allows_translation name \<longleftrightarrow> name \<noteq> None \<and>
     (stricmp_is name ''title'' \<or> stricmp_is name ''placeholder'' \<or> stricmp_is name ''alt''
      \<or> stricmp_is name ''aria-label'' \<or> stricmp_is name ''aria-description''
      \<or> stricmp_is name ''aria-placeholder'' \<or> stricmp_is name ''aria-valuetext'')"

section \<open>Writing\<close>

fun escape_loop :: "bool \<Rightarrow> string \<Rightarrow> sw_buffer \<Rightarrow> bool \<times> sw_buffer" where
  "escape_loop attribute [] h = (True, h)"
| "escape_loop attribute (c # cs) h =
     (let (ok, h') =
        (if c = CHR ''&'' then out_cstr (Some ''&amp;'') h
         else if c = CHR ''<'' then out_cstr (Some ''&lt;'') h
         else if c = CHR ''>'' then out_cstr (Some ''&gt;'') h
         else if c = DQ then (if attribute then out_cstr (Some ''&quot;'') h else out_byte c h)
         else if c = SQ then (if attribute then out_cstr (Some ''&#39;'') h else out_byte c h)
         else out_byte c h)
      in if \<not> ok then (False, h') else escape_loop attribute cs h')"

definition sw_html_append_escaped :: "cptr \<Rightarrow> bool \<Rightarrow> sw_buffer \<Rightarrow> bool \<times> sw_buffer" where
  "sw_html_append_escaped str attribute h =
     (case str of None \<Rightarrow> (True, h) | Some s \<Rightarrow> escape_loop attribute (cstr s) h)"

definition sw_html_append_attr :: "sw_attr_item \<Rightarrow> sw_buffer \<Rightarrow> bool \<times> sw_buffer" where
  "sw_html_append_attr a h =
     (if blank (at_name a) \<or> \<not> at_enabled a \<or> sw_html_is_internal_attr (at_name a) then (True, h)
      else if at_is_boolean a then guarded [out_byte (CHR '' ''), out_cstr (at_name a)] h
      else if blank (at_value a) then (True, h)
      else
        let val = (if \<not> at_no_translate a \<and> sw_html_attr_allows_translation (at_name a)
                   then sw_html_translate_if_needed h (at_value a) False else at_value a)
        in guarded [out_byte (CHR '' ''), out_cstr (at_name a), out_cstr (Some [CHR ''='', DQ]),
             sw_html_append_escaped val True, out_byte DQ] h)"

definition sw_html_style_needs_separator :: "cptr \<Rightarrow> bool" where
  "sw_html_style_needs_separator val =
     (case val of None \<Rightarrow> False
      | Some v \<Rightarrow> (case dropWhile isspace (rev (cstr v)) of [] \<Rightarrow> False | c # _ \<Rightarrow> c \<noteq> CHR '';''))"

definition sw_html_append_style_attr :: "sw_attr_item \<Rightarrow> cptr \<Rightarrow> sw_buffer \<Rightarrow> bool \<times> sw_buffer" where
  "sw_html_append_style_attr a extra_style h =
     (if blank (at_name a) \<or> \<not> at_enabled a then (False, h)
      else if blank (at_value a) \<and> blank extra_style then (True, h)
      else guarded
        [out_byte (CHR '' ''), out_cstr (at_name a), out_cstr (Some [CHR ''='', DQ]),
         (if \<not> blank (at_value a) then
            guarded [sw_html_append_escaped (at_value a) True,
              (if \<not> blank extra_style \<and> sw_html_style_needs_separator (at_value a)
               then out_byte (CHR '';'') else Pair True)]
          else Pair True),
         (if \<not> blank extra_style then sw_html_append_escaped extra_style True else Pair True),
         out_byte DQ] h)"

text \<open>The loop over the attributes; the second result is \<^verbatim>\<open>wrote_style\<close>.\<close>

fun append_attrs_loop :: "cptr \<Rightarrow> sw_attr_item list \<Rightarrow> bool \<Rightarrow> sw_buffer \<Rightarrow> bool \<times> bool \<times> sw_buffer" where
  "append_attrs_loop extra_style [] wrote_style h = (True, wrote_style, h)"
| "append_attrs_loop extra_style (a # rest) wrote_style h =
     (if extra_style \<noteq> None \<and> at_enabled a \<and> at_name a \<noteq> None \<and> stricmp_is (at_name a) ''style'' then
        let (ok, h') = sw_html_append_style_attr a extra_style h in
        if \<not> ok then (False, wrote_style, h') else append_attrs_loop extra_style rest True h'
      else
        let (ok, h') = sw_html_append_attr a h in
        if \<not> ok then (False, wrote_style, h') else append_attrs_loop extra_style rest wrote_style h')"

definition sw_html_append_attrs :: "sw_attr_item list \<Rightarrow> bool \<Rightarrow> sw_language_direction \<Rightarrow> sw_buffer \<Rightarrow> bool \<times> sw_buffer" where
  "sw_html_append_attrs attrs has_direction direction =
     (let has_explicit_dir = sw_html_has_enabled_attr attrs ''dir'';
          has_internal_direction = sw_html_has_internal_direction_attr attrs;
          extra_style = (if has_direction then sw_html_direction_style_name direction else None);
          style = sw_html_append_attr (sw_attr (Some ''style'') extra_style)
      in guarded
        [(if has_direction \<and> \<not> has_explicit_dir
          then sw_html_append_attr (sw_attr (Some ''dir'') (Some (sw_html_direction_dir_name direction))) else Pair True),
         (if has_internal_direction \<and> \<not> sw_html_has_enabled_attr attrs sw_html_direction_data_attr_name
          then sw_html_append_attr (sw_attr (Some sw_html_direction_data_attr_name) (Some (sw_direction_value direction)))
          else Pair True),
         (\<lambda>h. if attrs = [] then (if extra_style \<noteq> None then style h else (True, h))
          else
            let (ok, wrote_style, h') = append_attrs_loop extra_style attrs False h in
            if \<not> ok then (False, h')
            else if extra_style \<noteq> None \<and> \<not> wrote_style then style h' else (True, h'))])"

definition sw_html_maybe_emit_doctype :: "cptr \<Rightarrow> sw_buffer \<Rightarrow> bool \<times> sw_buffer" where
  "sw_html_maybe_emit_doctype tag h =
     (if bf_html_doctype_emitted h \<or> length (bf_bytes h) \<noteq> 0 then (True, h)
      else if \<not> sw_html_is_root_html tag then (True, h)
      else
        let (ok, h') = out_cstr (Some ''<!doctype html>'') h in
        if \<not> ok then (False, h') else (True, h'\<lparr>bf_html_doctype_emitted := True\<rparr>))"

definition sw_html_push_translation_scope :: "bool \<Rightarrow> sw_buffer \<Rightarrow> sw_buffer" where
  "sw_html_push_translation_scope previous h =
     h\<lparr>bf_translation_stack := bf_translation_stack h @ [previous]\<rparr>"

definition sw_html_pop_translation_scope :: "sw_buffer \<Rightarrow> sw_buffer" where
  "sw_html_pop_translation_scope h =
     (if length (bf_translation_stack h) = 0 then h
      else h\<lparr>bf_translation_enabled := last (bf_translation_stack h),
             bf_translation_stack := butlast (bf_translation_stack h)\<rparr>)"

definition sw_html_append_auto_root_attrs :: "cptr \<Rightarrow> sw_attr_item list \<Rightarrow> sw_buffer \<Rightarrow> bool \<times> sw_buffer" where
  "sw_html_append_auto_root_attrs tag attrs h =
     (if \<not> sw_html_is_root_html tag \<or> \<not> sw_html_translation_active h then (True, h)
      else case sw_html_current_language h of None \<Rightarrow> (True, h)
      | Some language \<Rightarrow>
          if \<not> sw_html_has_enabled_attr attrs ''lang''
          then sw_html_append_attr (sw_attr (Some ''lang'') (lang_code language)) h
          else (True, h))"

definition sw_html_open_tag :: "cptr \<Rightarrow> sw_attr_item list \<Rightarrow> bool \<Rightarrow> sw_buffer \<Rightarrow> bool \<times> sw_buffer" where
  "sw_html_open_tag tag attrs push_scope h =
     (let previous = bf_translation_enabled h;
          next_enabled = sw_html_resolve_translation_enabled h attrs;
          (has_direction, direction) = sw_html_resolve_direction h tag attrs
      in if tag = None then (False, h)
         else
           let (ok, h') = guarded
                 [sw_html_maybe_emit_doctype tag,
                  out_byte (CHR ''<''), out_cstr tag,
                  sw_html_append_auto_root_attrs tag attrs,
                  sw_html_append_attrs attrs has_direction direction,
                  out_byte (CHR ''>'')] (h\<lparr>bf_translation_enabled := next_enabled\<rparr>)
           in if \<not> ok then (False, h'\<lparr>bf_translation_enabled := previous\<rparr>)
              else if push_scope then (True, sw_html_push_translation_scope previous h')
              else (True, h'\<lparr>bf_translation_enabled := previous\<rparr>))"

section \<open>The operations of the interface\<close>

definition sw_buffer_new :: sw_buffer where
  "sw_buffer_new = \<lparr>bf_bytes = [], bf_translation_stack = [], bf_translator = None,
     bf_translation_enabled = True, bf_html_doctype_emitted = False, bf_js_runtime_emitted = False\<rparr>"

definition sw_buffer_reset :: "sw_buffer \<Rightarrow> sw_buffer" where
  "sw_buffer_reset h = h\<lparr>bf_bytes := [], bf_translation_stack := [], bf_translation_enabled := True,
     bf_html_doctype_emitted := False, bf_js_runtime_emitted := False\<rparr>"

definition sw_buffer_set_translator :: "sw_translator option \<Rightarrow> sw_buffer \<Rightarrow> sw_buffer" where
  "sw_buffer_set_translator translator h = h\<lparr>bf_translator := translator\<rparr>"

definition sw_buffer_set_translation :: "bool \<Rightarrow> sw_buffer \<Rightarrow> sw_buffer" where
  "sw_buffer_set_translation enabled h = h\<lparr>bf_translation_enabled := enabled\<rparr>"

definition sw_buffer_len :: "sw_buffer \<Rightarrow> nat" where
  "sw_buffer_len h = length (bf_bytes h)"

definition sw_tag :: "cptr \<Rightarrow> sw_attr_item list \<Rightarrow> sw_buffer \<Rightarrow> bool \<times> sw_buffer" where
  "sw_tag tag attrs h = sw_html_open_tag tag attrs True h"

definition sw_end :: "cptr \<Rightarrow> sw_buffer \<Rightarrow> bool \<times> sw_buffer" where
  "sw_end tag h =
     (if tag = None then (False, h)
      else
        let (ok, h') = guarded [out_cstr (Some ''</''), out_cstr tag, out_byte (CHR ''>'')] h
        in (ok, sw_html_pop_translation_scope h'))"

definition sw_void :: "cptr \<Rightarrow> sw_attr_item list \<Rightarrow> sw_buffer \<Rightarrow> bool \<times> sw_buffer" where
  "sw_void tag attrs h = sw_html_open_tag tag attrs False h"

definition sw_text :: "cptr \<Rightarrow> sw_buffer \<Rightarrow> bool \<times> sw_buffer" where
  "sw_text str h = sw_html_append_escaped (sw_html_translate_if_needed h str False) False h"

definition sw_text_no_translate :: "cptr \<Rightarrow> sw_buffer \<Rightarrow> bool \<times> sw_buffer" where
  "sw_text_no_translate str h = sw_html_append_escaped str False h"

definition sw_raw :: "cptr \<Rightarrow> sw_buffer \<Rightarrow> bool \<times> sw_buffer" where
  "sw_raw str h = out_cstr str h"

text \<open>\<open>formatted\<close> is what \<^verbatim>\<open>vsnprintf\<close> writes, None for its negative result.\<close>

definition sw_rawf :: "string option \<Rightarrow> sw_buffer \<Rightarrow> bool \<times> sw_buffer" where
  "sw_rawf formatted h = (case formatted of None \<Rightarrow> (False, h) | Some s \<Rightarrow> (True, h\<lparr>bf_bytes := bf_bytes h @ s\<rparr>))"

definition sw_title :: "cptr \<Rightarrow> sw_buffer \<Rightarrow> bool \<times> sw_buffer" where
  "sw_title str = guarded [sw_tag (Some ''title'') [], sw_text str, sw_end (Some ''title'')]"

definition sw_title_no_translate :: "cptr \<Rightarrow> sw_buffer \<Rightarrow> bool \<times> sw_buffer" where
  "sw_title_no_translate str = guarded [sw_tag (Some ''title'') [], sw_text_no_translate str, sw_end (Some ''title'')]"

definition sw_meta_charset :: "cptr \<Rightarrow> sw_buffer \<Rightarrow> bool \<times> sw_buffer" where
  "sw_meta_charset charset = sw_void (Some ''meta'') [sw_attr (Some ''charset'') charset]"

end
