(* ===== verification/HtmlSpec.thy ===== *)
theory HtmlSpec
  imports Html
begin

text \<open>
  What the HTML builder writes. The first part gives every operation as one append of a text
  computed from the translator, the translation switch and the arguments. The second part builds
  whole documents as the element macros of \<^verbatim>\<open>sw_html.h\<close> do and relates them to a rendering in which the
  translation switch is an argument (lexical scoping) and not a field with a stack. The third
  part reads documents with a reference tokenizer, after the states of the HTML standard.
\<close>

section \<open>Operations as appends\<close>

definition bput :: "string \<Rightarrow> sw_buffer \<Rightarrow> sw_buffer" where
  "bput s h = h\<lparr>bf_bytes := bf_bytes h @ s\<rparr>"

lemma bput_simps [simp]:
  "bput b (bput a h) = bput (a @ b) h" "bput [] h = h"
  "bf_bytes (bput s h) = bf_bytes h @ s" "bf_translator (bput s h) = bf_translator h"
  "bf_translation_enabled (bput s h) = bf_translation_enabled h"
  "bf_translation_stack (bput s h) = bf_translation_stack h"
  "bf_html_doctype_emitted (bput s h) = bf_html_doctype_emitted h"
  by (simp_all add: bput_def)

lemma bput_update [simp]:
  "bput s (h\<lparr>bf_translation_enabled := e\<rparr>) = (bput s h)\<lparr>bf_translation_enabled := e\<rparr>"
  "bput s (h\<lparr>bf_html_doctype_emitted := e\<rparr>) = (bput s h)\<lparr>bf_html_doctype_emitted := e\<rparr>"
  "bput s (h\<lparr>bf_translation_stack := st\<rparr>) = (bput s h)\<lparr>bf_translation_stack := st\<rparr>"
  by (simp_all add: bput_def)

lemma out_byte_eq [simp]: "out_byte c h = (True, bput [c] h)"
  by (simp add: out_byte_def bput_def)

lemma out_cstr_eq [simp]: "out_cstr (Some s) h = (True, bput (cstr s) h)"
  by (simp add: out_cstr_def bput_def)

definition esc_char :: "bool \<Rightarrow> char \<Rightarrow> string" where
  "esc_char attribute c =
     (if c = CHR ''&'' then ''&amp;'' else if c = CHR ''<'' then ''&lt;'' else if c = CHR ''>'' then ''&gt;''
      else if c = DQ \<and> attribute then ''&quot;'' else if c = SQ \<and> attribute then ''&#39;'' else [c])"

definition escape :: "bool \<Rightarrow> string \<Rightarrow> string" where
  "escape attribute s = concat (map (esc_char attribute) s)"

lemma escape_loop_eq: "escape_loop attribute s h = (True, bput (escape attribute s) h)"
proof (induction s arbitrary: h)
  case (Cons c s)
  have "escape_loop attribute (c # s) h = escape_loop attribute s (bput (esc_char attribute c) h)"
    by (simp add: esc_char_def)
  then show ?case by (simp add: Cons.IH escape_def)
qed (simp add: escape_def)

lemma append_escaped_eq [simp]:
  "sw_html_append_escaped str attribute h =
    (True, bput (case str of None \<Rightarrow> '''' | Some s \<Rightarrow> escape attribute (cstr s)) h)"
  by (cases str) (simp_all add: sw_html_append_escaped_def escape_loop_eq)

text \<open>Attributes as pairs of a name and, unless boolean, a value.\<close>

type_synonym attr_shown = "string \<times> string option"

fun show_attr :: "attr_shown \<Rightarrow> string" where
  "show_attr (n, None) = '' '' @ n"
| "show_attr (n, Some v) = '' '' @ n @ [CHR ''='', DQ] @ escape True v @ [DQ]"

definition show_attrs :: "attr_shown list \<Rightarrow> string" where
  "show_attrs vs = concat (map show_attr vs)"

definition shown :: "sw_translator option \<Rightarrow> bool \<Rightarrow> cptr \<Rightarrow> cptr" where
  "shown tr en str = (if str = None \<or> \<not> en \<or> tr = None then str else sw_translate tr str)"

definition skipped :: "sw_attr_item \<Rightarrow> bool" where
  "skipped a \<longleftrightarrow> blank (at_name a) \<or> \<not> at_enabled a \<or> sw_html_is_internal_attr (at_name a)"

definition attr_view :: "sw_translator option \<Rightarrow> bool \<Rightarrow> sw_attr_item \<Rightarrow> attr_shown list" where
  "attr_view tr en a =
     (if skipped a then []
      else if at_is_boolean a then [(cstr (the (at_name a)), None)]
      else if blank (at_value a) then []
      else [(cstr (the (at_name a)), Some (cstr (the
             (if \<not> at_no_translate a \<and> sw_html_attr_allows_translation (at_name a)
              then shown tr en (at_value a) else at_value a))))])"

lemma not_blank: "\<not> blank p \<Longrightarrow> \<exists>s. p = Some s \<and> cstr s \<noteq> []"
  by (auto simp: blank_def split: option.splits)

lemma translate_if_needed_eq:
  "sw_html_translate_if_needed h str no_translate =
    (if no_translate then str else shown (bf_translator h) (bf_translation_enabled h) str)"
  by (auto simp: sw_html_translate_if_needed_def sw_html_translation_active_def shown_def)

lemma shown_Some: "\<exists>t. shown tr en (Some s) = Some t"
  by (auto simp: shown_def sw_translate_def split: option.splits)

lemma append_attr_eq [simp]:
  "sw_html_append_attr a h =
    (True, bput (show_attrs (attr_view (bf_translator h) (bf_translation_enabled h) a)) h)"
proof (cases "skipped a")
  case True
  then show ?thesis
    unfolding sw_html_append_attr_def attr_view_def skipped_def by (simp add: show_attrs_def)
next
  case False
  then obtain n where n: "at_name a = Some n" "cstr n \<noteq> []" using not_blank by (auto simp: skipped_def)
  show ?thesis
  proof (cases "at_is_boolean a \<or> blank (at_value a)")
    case True
    with False n show ?thesis
      by (auto simp: sw_html_append_attr_def attr_view_def skipped_def show_attrs_def)
  next
    case nb: False
    then obtain v where v: "at_value a = Some v" using not_blank by auto
    obtain t where t: "shown (bf_translator h) (bf_translation_enabled h) (Some v) = Some t" using shown_Some by blast
    from nb False n v t show ?thesis
      by (simp add: sw_html_append_attr_def attr_view_def skipped_def show_attrs_def translate_if_needed_eq Let_def
          cstr_ident)
  qed
qed

text \<open>A style attribute takes the extra style behind its own declarations.\<close>

definition is_style :: "sw_attr_item \<Rightarrow> bool" where
  "is_style a \<longleftrightarrow> at_enabled a \<and> at_name a \<noteq> None \<and> stricmp_is (at_name a) ''style''"

definition style_view :: "sw_attr_item \<Rightarrow> string \<Rightarrow> attr_shown list" where
  "style_view a extra =
     [(cstr (the (at_name a)), Some ((if blank (at_value a) then ''''
        else cstr (the (at_value a)) @ (if sw_html_style_needs_separator (at_value a) then '';'' else ''''))
      @ cstr extra))]"

definition attrs_view :: "sw_translator option \<Rightarrow> bool \<Rightarrow> sw_attr_item list \<Rightarrow> bool \<Rightarrow> sw_language_direction
    \<Rightarrow> attr_shown list" where
  "attrs_view tr en attrs has_direction direction =
     (let extra = (if has_direction then sw_html_direction_style_name direction else None) in
      (if has_direction \<and> \<not> sw_html_has_enabled_attr attrs ''dir''
       then [(''dir'', Some (sw_html_direction_dir_name direction))] else [])
      @ (if sw_html_has_internal_direction_attr attrs \<and> \<not> sw_html_has_enabled_attr attrs sw_html_direction_data_attr_name
         then [(sw_html_direction_data_attr_name, Some (sw_direction_value direction))] else [])
      @ concat (map (\<lambda>a. if extra \<noteq> None \<and> is_style a then style_view a (the extra) else attr_view tr en a) attrs)
      @ (if extra \<noteq> None \<and> \<not> (\<exists>a\<in>set attrs. is_style a) then [(''style'', extra)] else []))"

lemma stricmp_is_Some: "stricmp_is (Some a) b \<longleftrightarrow> map tolower (cstr a) = map tolower (cstr b)"
  by (simp add: stricmp_is_def ieq_def)

lemma escape_Nil [simp]: "escape attribute [] = []"
  by (simp add: escape_def)

lemma escape_append: "escape attribute (a @ b) = escape attribute a @ escape attribute b"
  by (simp add: escape_def)

lemma append_style_eq:
  assumes "is_style a" "\<not> blank (Some extra)"
  shows "sw_html_append_style_attr a (Some extra) h = (True, bput (show_attrs (style_view a extra)) h)"
proof -
  from assms(1) obtain n where n: "at_name a = Some n" "at_enabled a" "cstr n \<noteq> []"
    by (cases "at_name a") (auto simp: is_style_def stricmp_is_Some)
  have "\<not> blank (at_name a)" using n by (simp add: blank_def)
  moreover have "escape True '';'' = '';''" by (simp add: escape_def esc_char_def)
  ultimately show ?thesis
    using n assms(2) not_blank[of "at_value a"]
    by (cases "blank (at_value a)")
      (auto simp: sw_html_append_style_attr_def style_view_def show_attrs_def escape_append cstr_append)
qed

lemma show_attrs_append: "show_attrs (a @ b) = show_attrs a @ show_attrs b"
  by (simp add: show_attrs_def)

lemma append_attrs_loop_Cons:
  "append_attrs_loop extra (a # rest) wrote h =
    (if extra \<noteq> None \<and> is_style a then
       (let (ok, h') = sw_html_append_style_attr a extra h in
        if \<not> ok then (False, wrote, h') else append_attrs_loop extra rest True h')
     else append_attrs_loop extra rest wrote
       (bput (show_attrs (attr_view (bf_translator h) (bf_translation_enabled h) a)) h))"
  by (cases extra) (auto simp: is_style_def Let_def)

lemma append_attrs_loop_eq:
  assumes "extra \<noteq> None \<longrightarrow> \<not> blank extra"
  shows "append_attrs_loop extra attrs wrote h = (True, wrote \<or> (extra \<noteq> None \<and> (\<exists>a\<in>set attrs. is_style a)),
     bput (show_attrs (concat (map (\<lambda>a. if extra \<noteq> None \<and> is_style a then style_view a (the extra)
        else attr_view (bf_translator h) (bf_translation_enabled h) a) attrs))) h)"
proof (induction attrs arbitrary: wrote h)
  case Nil
  then show ?case by (simp add: show_attrs_def)
next
  case (Cons a rest)
  show ?case
  proof (cases "extra \<noteq> None \<and> is_style a")
    case True
    then obtain e where "extra = Some e" "is_style a" by auto
    moreover have "\<not> blank (Some e)" using assms \<open>extra = Some e\<close> by simp
    ultimately show ?thesis using append_style_eq[of a e h]
      unfolding \<open>extra = Some e\<close>
      by (simp add: Cons.IH[unfolded \<open>extra = Some e\<close>] show_attrs_append append_attrs_loop_Cons
          del: append_attrs_loop.simps cong: if_cong)
  next
    case False
    then show ?thesis
      by (auto simp: Cons.IH show_attrs_append append_attrs_loop_Cons simp del: append_attrs_loop.simps
          cong: if_cong)
  qed
qed

lemma plain_attr_view:
  assumes "\<not> blank (Some n)" "\<not> sw_html_is_internal_attr (Some n)" "\<not> sw_html_attr_allows_translation (Some n)"
  shows "attr_view tr en (sw_attr (Some n) v) = (if blank v then [] else [(cstr n, Some (cstr (the v)))])"
  using assms by (simp add: attr_view_def skipped_def sw_attr_def)

lemma root_attr_names:
  "n \<in> {''dir'', ''style'', ''lang'', ''data-sw-direction'', ''data-swjs'', ''charset''} \<Longrightarrow>
   \<not> blank (Some n) \<and> \<not> sw_html_is_internal_attr (Some n) \<and> \<not> sw_html_attr_allows_translation (Some n) \<and> cstr n = n"
  by (elim insertE) (simp_all add: blank_def sw_html_is_internal_attr_def sw_html_is_translation_attr_def
      sw_html_is_direction_attr_def sw_html_translation_attr_name_def sw_html_direction_attr_name_def
      sw_html_attr_allows_translation_def stricmp_is_Some ctype_simps)

lemma root_attr_view:
  "n \<in> {''dir'', ''style'', ''lang'', ''data-sw-direction'', ''data-swjs'', ''charset''} \<Longrightarrow>
   attr_view tr en (sw_attr (Some n) v) = (if blank v then [] else [(n, Some (cstr (the v)))])"
  using root_attr_names[of n] by (simp add: plain_attr_view)

lemma dir_names [simp]:
  "blank (Some (sw_html_direction_dir_name d)) = False" "cstr (sw_html_direction_dir_name d) = sw_html_direction_dir_name d"
  "blank (Some (sw_direction_value d)) = False" "cstr (sw_direction_value d) = sw_direction_value d"
  by (auto simp: sw_html_direction_dir_name_def sw_direction_value_def blank_def)

lemma append_attrs_eq [simp]:
  "sw_html_append_attrs attrs has_direction direction h =
    (True, bput (show_attrs (attrs_view (bf_translator h) (bf_translation_enabled h) attrs has_direction direction)) h)"
proof -
  define extra where "extra = (if has_direction then sw_html_direction_style_name direction else None)"
  define c1 where "c1 \<longleftrightarrow> has_direction \<and> \<not> sw_html_has_enabled_attr attrs ''dir''"
  define c2 where "c2 \<longleftrightarrow> sw_html_has_internal_direction_attr attrs \<and>
    \<not> sw_html_has_enabled_attr attrs sw_html_direction_data_attr_name"
  let ?dir = "sw_html_append_attr (sw_attr (Some ''dir'') (Some (sw_html_direction_dir_name direction)))"
  let ?data = "sw_html_append_attr (sw_attr (Some sw_html_direction_data_attr_name) (Some (sw_direction_value direction)))"
  let ?style = "sw_html_append_attr (sw_attr (Some ''style'') extra)"
  let ?v1 = "if c1 then [(''dir'', Some (sw_html_direction_dir_name direction))] else []"
  let ?v2 = "if c2 then [(sw_html_direction_data_attr_name, Some (sw_direction_value direction))] else []"
  let ?v3 = "\<lambda>h. concat (map (\<lambda>a. if extra \<noteq> None \<and> is_style a then style_view a (the extra)
    else attr_view (bf_translator h) (bf_translation_enabled h) a) attrs)"
  let ?v4 = "if extra \<noteq> None \<and> \<not> (\<exists>a\<in>set attrs. is_style a) then [(''style'', extra)] else []"
  have nb: "extra \<noteq> None \<longrightarrow> \<not> blank extra" and same: "\<And>e. extra = Some e \<Longrightarrow> cstr e = e"
    by (auto simp: extra_def sw_html_direction_style_name_def blank_def split: if_splits)
  have s1: "(if c1 then ?dir else Pair True) h = (True, bput (show_attrs ?v1) h)" for h
    by (cases c1) (simp_all add: root_attr_view show_attrs_def)
  have s2: "(if c2 then ?data else Pair True) h = (True, bput (show_attrs ?v2) h)" for h
    by (cases c2) (simp_all add: root_attr_view show_attrs_def sw_html_direction_data_attr_name_def)
  define f3 where "f3 = (\<lambda>h. if attrs = [] then (if extra \<noteq> None then ?style h else (True, h))
      else let (ok, wrote_style, h') = append_attrs_loop extra attrs False h in
        if \<not> ok then (False, h') else if extra \<noteq> None \<and> \<not> wrote_style then ?style h' else (True, h'))"
  have s3: "f3 h = (True, bput (show_attrs (?v3 h @ ?v4)) h)" for h
  proof (cases extra)
    case None
    with append_attrs_loop_eq[OF nb, of attrs False h] show ?thesis
      by (simp add: f3_def append_attrs_loop_eq[OF nb] show_attrs_def)
  next
    case (Some e)
    have style: "?style h = (True, bput (show_attrs [(''style'', extra)]) h)" for h
      using Some nb same[OF Some] by (simp add: root_attr_view)
    have rest: "append_attrs_loop extra attrs False h = (True, (\<exists>a\<in>set attrs. is_style a), bput (show_attrs (?v3 h)) h)"
      using append_attrs_loop_eq[OF nb, of attrs False h] Some by simp
    show ?thesis
    proof (cases "attrs = []")
      case True
      then show ?thesis unfolding f3_def style using Some by (simp add: show_attrs_def)
    next
      case False
      then show ?thesis unfolding f3_def rest style using Some
        by (cases "\<exists>a\<in>set attrs. is_style a") (simp_all add: show_attrs_append)
    qed
  qed
  have "sw_html_append_attrs attrs has_direction direction =
      guarded [if c1 then ?dir else Pair True, if c2 then ?data else Pair True, f3]"
    by (simp only: sw_html_append_attrs_def extra_def c1_def c2_def f3_def Let_def)
  then have "sw_html_append_attrs attrs has_direction direction h =
      (True, bput (show_attrs (?v1 @ ?v2 @ ?v3 h @ ?v4)) h)"
    by (simp only: guarded.simps s1 s2 s3 Let_def prod.case bput_simps show_attrs_append append_assoc) simp
  then show ?thesis unfolding attrs_view_def extra_def[symmetric] c1_def[symmetric] c2_def[symmetric] Let_def .
qed

section \<open>Tags and texts\<close>

definition direction_of :: "sw_translator option \<Rightarrow> bool \<Rightarrow> cptr \<Rightarrow> sw_attr_item list \<Rightarrow> bool \<times> sw_language_direction" where
  "direction_of tr en tag attrs =
     (case (if sw_html_is_root_html tag \<and> en then sw_translator_get_language tr else None) of
        None \<Rightarrow> resolve_direction_loop attrs False SW_LANGUAGE_DIRECTION_LTR
      | Some l \<Rightarrow> resolve_direction_loop attrs True (lang_direction l))"

definition lang_view :: "sw_translator option \<Rightarrow> bool \<Rightarrow> cptr \<Rightarrow> sw_attr_item list \<Rightarrow> attr_shown list" where
  "lang_view tr en tag attrs =
     (case (if sw_html_is_root_html tag \<and> en then sw_translator_get_language tr else None) of
        None \<Rightarrow> []
      | Some l \<Rightarrow> if sw_html_has_enabled_attr attrs ''lang'' \<or> blank (lang_code l) then []
                  else [(''lang'', Some (cstr (the (lang_code l))))])"

text \<open>The attributes of an opening tag: \<open>en\<close> is the translation switch outside the element.\<close>

definition open_view :: "sw_translator option \<Rightarrow> bool \<Rightarrow> cptr \<Rightarrow> sw_attr_item list \<Rightarrow> attr_shown list" where
  "open_view tr en tag attrs =
     (let inner = resolve_translation_loop attrs en; (has_direction, direction) = direction_of tr en tag attrs in
      lang_view tr inner tag attrs @ attrs_view tr inner attrs has_direction direction)"

definition open_text :: "sw_translator option \<Rightarrow> bool \<Rightarrow> string \<Rightarrow> sw_attr_item list \<Rightarrow> string" where
  "open_text tr en tag attrs =
     [CHR ''<''] @ cstr tag @ show_attrs (open_view tr en (Some tag) attrs) @ [CHR ''>'']"

definition needs_doctype :: "string \<Rightarrow> sw_buffer \<Rightarrow> bool" where
  "needs_doctype tag h \<longleftrightarrow> \<not> bf_html_doctype_emitted h \<and> bf_bytes h = [] \<and> sw_html_is_root_html (Some tag)"

definition with_doctype :: "string \<Rightarrow> sw_buffer \<Rightarrow> sw_buffer" where
  "with_doctype tag h =
     (if needs_doctype tag h then (bput ''<!doctype html>'' h)\<lparr>bf_html_doctype_emitted := True\<rparr> else h)"

lemma with_doctype_simps [simp]:
  "bf_translator (with_doctype tag h) = bf_translator h"
  "bf_translation_enabled (with_doctype tag h) = bf_translation_enabled h"
  "bf_translation_stack (with_doctype tag h) = bf_translation_stack h"
  "with_doctype tag (h\<lparr>bf_translation_enabled := e\<rparr>) = (with_doctype tag h)\<lparr>bf_translation_enabled := e\<rparr>"
  by (simp_all add: with_doctype_def needs_doctype_def)

lemma maybe_emit_doctype_eq [simp]: "sw_html_maybe_emit_doctype (Some tag) h = (True, with_doctype tag h)"
  by (simp add: sw_html_maybe_emit_doctype_def with_doctype_def needs_doctype_def)

lemma current_language_eq: "sw_html_current_language h = sw_translator_get_language (bf_translator h)"
  by (simp add: sw_html_current_language_def sw_translator_get_language_def)

lemma get_language_None [simp]: "sw_translator_get_language None = None"
  by (simp add: sw_translator_get_language_def)

lemma resolve_direction_eq:
  "sw_html_resolve_direction h tag attrs = direction_of (bf_translator h) (bf_translation_enabled h) tag attrs"
  by (auto simp: sw_html_resolve_direction_def direction_of_def sw_html_translation_active_def current_language_eq
      split: option.splits)

lemma auto_root_attrs_eq [simp]:
  "sw_html_append_auto_root_attrs tag attrs h =
    (True, bput (show_attrs (lang_view (bf_translator h) (bf_translation_enabled h) tag attrs)) h)"
  by (auto simp: sw_html_append_auto_root_attrs_def lang_view_def sw_html_translation_active_def current_language_eq
      root_attr_view show_attrs_def split: option.split)

lemma open_tag_eq:
  "sw_html_open_tag (Some tag) attrs push h =
    (True, let h1 = bput (open_text (bf_translator h) (bf_translation_enabled h) tag attrs) (with_doctype tag h) in
       if push then h1\<lparr>bf_translation_enabled := resolve_translation_loop attrs (bf_translation_enabled h),
         bf_translation_stack := bf_translation_stack h @ [bf_translation_enabled h]\<rparr> else h1)"
  by (simp add: sw_html_open_tag_def resolve_direction_eq sw_html_resolve_translation_enabled_def open_text_def
      open_view_def sw_html_push_translation_scope_def Let_def split_beta show_attrs_append bput_def)

lemma sw_tag_eq:
  "sw_tag (Some tag) attrs h =
    (True, (bput (open_text (bf_translator h) (bf_translation_enabled h) tag attrs) (with_doctype tag h))
       \<lparr>bf_translation_enabled := resolve_translation_loop attrs (bf_translation_enabled h),
        bf_translation_stack := bf_translation_stack h @ [bf_translation_enabled h]\<rparr>)"
  by (simp add: sw_tag_def open_tag_eq)

lemma sw_void_eq:
  "sw_void (Some tag) attrs h =
    (True, bput (open_text (bf_translator h) (bf_translation_enabled h) tag attrs) (with_doctype tag h))"
  by (simp add: sw_void_def open_tag_eq)

definition close_text :: "string \<Rightarrow> string" where
  "close_text tag = ''</'' @ cstr tag @ ''>''"

lemma sw_end_eq:
  "sw_end (Some tag) h = (True, sw_html_pop_translation_scope (bput (close_text tag) h))"
  by (simp add: sw_end_def close_text_def)

definition text_of :: "cptr \<Rightarrow> string" where
  "text_of p = (case p of None \<Rightarrow> [] | Some s \<Rightarrow> cstr s)"

lemma sw_text_eq:
  "sw_text str h = (True, bput (escape False (text_of (shown (bf_translator h) (bf_translation_enabled h) str))) h)"
  by (simp add: sw_text_def translate_if_needed_eq text_of_def escape_def split: option.split)

lemma sw_text_no_translate_eq: "sw_text_no_translate str h = (True, bput (escape False (text_of str)) h)"
  by (simp add: sw_text_no_translate_def text_of_def escape_def split: option.split)

section \<open>Documents\<close>

text \<open>
  A document as the macros \<^verbatim>\<open>SW_BLOCK_TAG\<close> and \<^verbatim>\<open>SW_VOID_TAG\<close> build it: an element runs its content
  and its end only if its opening tag succeeded.
\<close>

datatype sw_node = Element string "sw_attr_item list" "sw_node list" | Void string "sw_attr_item list"
  | Text cptr | Text_no_translate cptr

fun build :: "sw_node \<Rightarrow> sw_buffer \<Rightarrow> sw_buffer" and builds :: "sw_node list \<Rightarrow> sw_buffer \<Rightarrow> sw_buffer" where
  "build (Element tag attrs content) h =
     (let (ok, h1) = sw_tag (Some tag) attrs h in
      if ok then snd (sw_end (Some tag) (builds content h1)) else h1)"
| "build (Void tag attrs) h = snd (sw_void (Some tag) attrs h)"
| "build (Text str) h = snd (sw_text str h)"
| "build (Text_no_translate str) h = snd (sw_text_no_translate str h)"
| "builds [] h = h"
| "builds (n # ns) h = builds ns (build n h)"

text \<open>The rendering: the switch is passed down, so a scope ends with its element.\<close>

fun render :: "sw_translator option \<Rightarrow> bool \<Rightarrow> sw_node \<Rightarrow> string"
  and renders :: "sw_translator option \<Rightarrow> bool \<Rightarrow> sw_node list \<Rightarrow> string" where
  "render tr en (Element tag attrs content) =
     open_text tr en tag attrs @ renders tr (resolve_translation_loop attrs en) content @ close_text tag"
| "render tr en (Void tag attrs) = open_text tr en tag attrs"
| "render tr en (Text str) = escape False (text_of (shown tr en str))"
| "render tr en (Text_no_translate str) = escape False (text_of str)"
| "renders tr en [] = []"
| "renders tr en (n # ns) = render tr en n @ renders tr en ns"

fun doctype_for :: "sw_node \<Rightarrow> sw_buffer \<Rightarrow> sw_buffer" where
  "doctype_for (Element tag attrs content) h = with_doctype tag h"
| "doctype_for (Void tag attrs) h = with_doctype tag h"
| "doctype_for _ h = h"

lemma with_doctype_started: "bf_bytes h \<noteq> [] \<Longrightarrow> with_doctype tag h = h"
  by (simp add: with_doctype_def needs_doctype_def)

lemma doctype_for_started: "bf_bytes h \<noteq> [] \<Longrightarrow> doctype_for n h = h"
  by (cases n) (simp_all add: with_doctype_started)

lemma open_text_not_Nil: "open_text tr en tag attrs \<noteq> []"
  by (simp add: open_text_def)

lemma build_eq:
  "build n h = bput (render (bf_translator h) (bf_translation_enabled h) n) (doctype_for n h)"
  "bf_bytes h \<noteq> [] \<Longrightarrow> builds ns h = bput (renders (bf_translator h) (bf_translation_enabled h) ns) h"
proof (induction n h and ns h rule: build_builds.induct)
  case (1 tag attrs content h)
  let ?h1 = "snd (sw_tag (Some tag) attrs h)"
  have "bf_bytes ?h1 \<noteq> []" by (simp add: sw_tag_eq open_text_not_Nil)
  moreover have "sw_tag (Some tag) attrs h = (True, ?h1)" by (simp add: sw_tag_eq)
  ultimately have "builds content ?h1 = bput (renders (bf_translator ?h1) (bf_translation_enabled ?h1) content) ?h1"
    using 1 by metis
  then show ?case
    by (simp add: sw_tag_eq sw_end_eq sw_html_pop_translation_scope_def bput_def)
next
  case (2 tag attrs h)
  then show ?case by (simp add: sw_void_eq)
next
  case (3 str h)
  then show ?case by (simp add: sw_text_eq)
next
  case (4 str h)
  then show ?case by (simp add: sw_text_no_translate_eq)
next
  case (5 h)
  then show ?case by simp
next
  case (6 n ns h)
  have b: "build n h = bput (render (bf_translator h) (bf_translation_enabled h) n) h"
    using "6.IH"(1) doctype_for_started[OF "6.prems"] by simp
  then have "bf_bytes (build n h) \<noteq> []" using "6.prems" by simp
  from "6.IH"(2)[OF this] b show ?case by simp
qed

end
