(* ===== verification/HtmlRead.thy ===== *)
theory HtmlRead
  imports HtmlSpec Reader
begin

text \<open>
  Reading documents back. \<open>html_step\<close> is a reference tokenizer with the states of the HTML standard that
  the builder's output can reach: data, tags, attributes with double-quoted values, and the
  character references. It emits a start tag with its attributes, an end tag, a markup
  declaration, or one character of text. Names are kept as written; the content of \<^verbatim>\<open>script\<close> and
  \<^verbatim>\<open>style\<close> elements, which HTML reads without references, is not a special case here.
\<close>

section \<open>A reference tokenizer\<close>

datatype token = Start string "(string \<times> string option) list" | Finish string | Declaration string | Chr char

datatype tstate = Data | Reference string | Tag_open | Declare string | End_name string | Tag_name string
  | Before_name string "(string \<times> string option) list"
  | Attr_name string "(string \<times> string option) list" string
  | Before_value string "(string \<times> string option) list" string
  | Attr_value string "(string \<times> string option) list" string string
  | Value_reference string "(string \<times> string option) list" string string string
  | After_value string "(string \<times> string option) list"
  | Bad

definition reference_char :: "string \<Rightarrow> char option" where
  "reference_char r =
     (if r = ''amp'' then Some (CHR ''&'') else if r = ''lt'' then Some (CHR ''<'')
      else if r = ''gt'' then Some (CHR ''>'') else if r = ''quot'' then Some DQ
      else if r = ''#39'' then Some SQ else None)"

definition isletter :: "char \<Rightarrow> bool" where
  "isletter c \<longleftrightarrow> isupper c \<or> islower c"

fun html_step :: "tstate \<Rightarrow> char \<Rightarrow> token list \<times> tstate" where
  "html_step Data c = (if c = CHR ''&'' then ([], Reference [])
     else if c = CHR ''<'' then ([], Tag_open) else ([Chr c], Data))"
| "html_step (Reference r) c = (if c = CHR '';'' then
       (case reference_char r of Some d \<Rightarrow> ([Chr d], Data) | None \<Rightarrow> ([], Bad))
     else ([], Reference (r @ [c])))"
| "html_step Tag_open c = (if c = CHR ''/'' then ([], End_name []) else if c = CHR ''!'' then ([], Declare [])
     else if isletter c then ([], Tag_name [c]) else ([], Bad))"
| "html_step (Declare d) c = (if c = CHR ''>'' then ([Declaration d], Data) else ([], Declare (d @ [c])))"
| "html_step (End_name n) c = (if c = CHR ''>'' then ([Finish n], Data) else ([], End_name (n @ [c])))"
| "html_step (Tag_name n) c = (if c = CHR '' '' then ([], Before_name n [])
     else if c = CHR ''>'' then ([Start n []], Data) else ([], Tag_name (n @ [c])))"
| "html_step (Before_name n as) c = (if c = CHR '' '' then ([], Before_name n as)
     else if c = CHR ''>'' then ([Start n as], Data) else ([], Attr_name n as [c]))"
| "html_step (Attr_name n as a) c = (if c = CHR ''='' then ([], Before_value n as a)
     else if c = CHR '' '' then ([], Before_name n (as @ [(a, None)]))
     else if c = CHR ''>'' then ([Start n (as @ [(a, None)])], Data) else ([], Attr_name n as (a @ [c])))"
| "html_step (Before_value n as a) c = (if c = DQ then ([], Attr_value n as a []) else ([], Bad))"
| "html_step (Attr_value n as a v) c = (if c = DQ then ([], After_value n (as @ [(a, Some v)]))
     else if c = CHR ''&'' then ([], Value_reference n as a v []) else ([], Attr_value n as a (v @ [c])))"
| "html_step (Value_reference n as a v r) c = (if c = CHR '';'' then
       (case reference_char r of Some d \<Rightarrow> ([], Attr_value n as a (v @ [d])) | None \<Rightarrow> ([], Bad))
     else ([], Value_reference n as a v (r @ [c])))"
| "html_step (After_value n as) c = (if c = CHR '' '' then ([], Before_name n as)
     else if c = CHR ''>'' then ([Start n as], Data) else ([], Bad))"
| "html_step Bad c = ([], Bad)"

section \<open>Names and escaped text\<close>

definition name_char :: "char \<Rightarrow> bool" where
  "name_char c \<longleftrightarrow> isalnum c \<or> c = CHR ''-'' \<or> c = CHR ''_'' \<or> c = CHR '':''"

definition name_ok :: "string \<Rightarrow> bool" where
  "name_ok n \<longleftrightarrow> n \<noteq> [] \<and> (\<forall>c\<in>set n. name_char c)"

definition tag_ok :: "string \<Rightarrow> bool" where
  "tag_ok n \<longleftrightarrow> name_ok n \<and> isletter (hd n)"

lemma name_char_plain:
  "name_char c \<Longrightarrow> c \<noteq> CHR '' '' \<and> c \<noteq> CHR ''>'' \<and> c \<noteq> CHR ''='' \<and> c \<noteq> CHR ''/'' \<and> c \<noteq> CHR ''!'' \<and> c \<noteq> NUL"
  by (auto simp: name_char_def ctype_simps)

lemma name_ok_cstr: "name_ok n \<Longrightarrow> cstr n = n"
  by (rule cstr_ident) (auto simp: name_ok_def dest: name_char_plain)

lemma reads_escaped:
  "reads html_step Data (escape False s) (map Chr s) Data"
  "reads html_step (Attr_value n as a v) (escape True s) [] (Attr_value n as a (v @ s))"
proof -
  have d: "reads html_step Data (esc_char False c) [Chr c] Data" for c
    by (simp add: reads_def esc_char_def reference_char_def)
  show "reads html_step Data (escape False s) (map Chr s) Data"
  proof (induction s)
    case (Cons c s)
    from reads_append[OF d[of c] Cons.IH] show ?case by (simp add: escape_def)
  qed (simp add: reads_Nil)
  show "reads html_step (Attr_value n as a v) (escape True s) [] (Attr_value n as a (v @ s))"
    unfolding escape_def by (rule reads_concat) (simp add: reads_def esc_char_def reference_char_def)
qed

lemma reads_name:
  assumes "name_ok a"
  shows "reads html_step (Before_name n as) a [] (Attr_name n as a)"
proof -
  obtain c cs where a: "a = c # cs" using assms by (cases a) (auto simp: name_ok_def)
  have "reads html_step (Attr_name n as [c]) cs [] (Attr_name n as ([c] @ cs))"
    using assms by (intro reads_chars) (auto simp: a name_ok_def dest!: name_char_plain)
  moreover have "html_step (Before_name n as) c = ([], Attr_name n as [c])"
    using assms by (auto simp: a name_ok_def dest: name_char_plain)
  ultimately show ?thesis unfolding a by (auto intro: reads_silent simp del: html_step.simps)
qed

text \<open>Where the next attribute or the end of the tag is expected.\<close>

definition attr_next :: "tstate \<Rightarrow> string \<Rightarrow> (string \<times> string option) list \<Rightarrow> bool" where
  "attr_next st n as \<longleftrightarrow> html_step st (CHR '' '') = ([], Before_name n as) \<and> html_step st (CHR ''>'') = ([Start n as], Data)"

lemma reads_attr:
  assumes "attr_next st n as" "name_ok (fst v)"
  shows "\<exists>st'. reads html_step st (show_attr v) [] st' \<and> attr_next st' n (as @ [v])"
proof (cases v)
  case (Pair a val)
  have sp: "reads html_step st ('' '' @ a) [] (Attr_name n as a)"
    using reads_silent[where step = html_step and a = st, OF _ reads_name[of a n as]] assms by (simp add: attr_next_def Pair)
  show ?thesis
  proof (cases val)
    case None
    with sp Pair show ?thesis by (auto simp: attr_next_def)
  next
    case (Some w)
    have eq: "reads html_step (Attr_name n as a) [CHR ''='', DQ] [] (Attr_value n as a [])"
      by (simp add: reads_def)
    have en: "reads html_step (Attr_value n as a ([] @ w)) [DQ] [] (After_value n (as @ [(a, Some w)]))"
      by (simp add: reads_def)
    have "reads html_step st (('' '' @ a) @ [CHR ''='', DQ] @ escape True w @ [DQ]) ([] @ [] @ [] @ [])
        (After_value n (as @ [(a, Some w)]))"
      using reads_append[OF sp reads_append[OF eq reads_append[OF reads_escaped(2) en]]] by simp
    then have "reads html_step st (show_attr v) [] (After_value n (as @ [v]))" by (simp add: Pair Some)
    then show ?thesis by (auto simp: attr_next_def)
  qed
qed

lemma reads_attrs:
  assumes "attr_next st n as" "\<forall>v\<in>set vs. name_ok (fst v)"
  shows "\<exists>st'. reads html_step st (show_attrs vs) [] st' \<and> attr_next st' n (as @ vs)"
  using assms
proof (induction vs arbitrary: st as)
  case Nil
  then show ?case using reads_Nil[of html_step st] by (auto simp: show_attrs_def)
next
  case (Cons v vs)
  from reads_attr[OF Cons.prems(1), of v] Cons.prems(2) obtain st1 where
    s1: "reads html_step st (show_attr v) [] st1" "attr_next st1 n (as @ [v])" by auto
  from Cons.IH[OF s1(2)] Cons.prems(2) obtain st2 where
    s2: "reads html_step st1 (show_attrs vs) [] st2" "attr_next st2 n ((as @ [v]) @ vs)" by auto
  from reads_append[OF s1(1) s2(1)] s2(2) show ?case by (auto simp: show_attrs_def)
qed

lemma reads_open:
  assumes "tag_ok t" "\<forall>v\<in>set vs. name_ok (fst v)"
  shows "reads html_step Data ([CHR ''<''] @ t @ show_attrs vs @ [CHR ''>'']) [Start t vs] Data"
proof -
  obtain c cs where t: "t = c # cs" using assms(1) by (cases t) (auto simp: tag_ok_def name_ok_def)
  have "reads html_step (Tag_name [c]) cs [] (Tag_name ([c] @ cs))"
    using assms(1) by (intro reads_chars) (auto simp: t tag_ok_def name_ok_def dest!: name_char_plain)
  moreover have "html_step Tag_open c = ([], Tag_name [c])"
    using assms(1) by (auto simp: t tag_ok_def name_ok_def dest: name_char_plain)
  ultimately have name: "reads html_step Tag_open t [] (Tag_name t)" unfolding t by (auto intro: reads_silent simp del: html_step.simps)
  have "attr_next (Tag_name t) t []" by (simp add: attr_next_def)
  from reads_attrs[OF this assms(2)] obtain st where
    a: "reads html_step (Tag_name t) (show_attrs vs) [] st" "attr_next st t vs" by auto
  have fin: "reads html_step st [CHR ''>''] [Start t vs] Data" using a(2) by (simp add: attr_next_def reads_def)
  have lt: "reads html_step Data [CHR ''<''] [] Tag_open" by (simp add: reads_def)
  from reads_append[OF lt reads_append[OF name reads_append[OF a(1) fin]]] show ?thesis by simp
qed

lemma reads_close: "tag_ok t \<Longrightarrow> reads html_step Data (close_text t) [Finish t] Data"
proof -
  assume t: "tag_ok t"
  have "reads html_step (End_name []) t [] (End_name ([] @ t))"
    using t by (intro reads_chars) (auto simp: tag_ok_def name_ok_def dest!: name_char_plain)
  moreover have "reads html_step Data ''</'' [] (End_name [])" by (simp add: reads_def)
  moreover have "reads html_step (End_name t) ''>'' [Finish t] Data" by (simp add: reads_def)
  ultimately have "reads html_step Data (''</'' @ t @ ''>'') ([] @ [] @ [Finish t]) Data" by (intro reads_append) auto
  moreover have "cstr t = t" using t by (simp add: tag_ok_def name_ok_cstr)
  ultimately show ?thesis by (simp add: close_text_def)
qed

section \<open>Documents\<close>

definition item_ok :: "sw_attr_item \<Rightarrow> bool" where
  "item_ok a \<longleftrightarrow> skipped a \<or> name_ok (cstr (the (at_name a)))"

text \<open>Element names are names that start with a letter, attribute names are names.\<close>

fun node_ok :: "sw_node \<Rightarrow> bool" and nodes_ok :: "sw_node list \<Rightarrow> bool" where
  "node_ok (Element tag attrs content) \<longleftrightarrow> tag_ok tag \<and> (\<forall>a\<in>set attrs. item_ok a) \<and> nodes_ok content"
| "node_ok (Void tag attrs) \<longleftrightarrow> tag_ok tag \<and> (\<forall>a\<in>set attrs. item_ok a)"
| "node_ok (Text str) \<longleftrightarrow> True"
| "node_ok (Text_no_translate str) \<longleftrightarrow> True"
| "nodes_ok [] \<longleftrightarrow> True"
| "nodes_ok (n # ns) \<longleftrightarrow> node_ok n \<and> nodes_ok ns"

text \<open>The tokens of a document: its elements, its attributes and the characters of its texts.\<close>

fun tokens :: "sw_translator option \<Rightarrow> bool \<Rightarrow> sw_node \<Rightarrow> token list"
  and tokens_list :: "sw_translator option \<Rightarrow> bool \<Rightarrow> sw_node list \<Rightarrow> token list" where
  "tokens tr en (Element tag attrs content) =
     [Start tag (open_view tr en (Some tag) attrs)]
     @ tokens_list tr (resolve_translation_loop attrs en) content @ [Finish tag]"
| "tokens tr en (Void tag attrs) = [Start tag (open_view tr en (Some tag) attrs)]"
| "tokens tr en (Text str) = map Chr (text_of (shown tr en str))"
| "tokens tr en (Text_no_translate str) = map Chr (text_of str)"
| "tokens_list tr en [] = []"
| "tokens_list tr en (n # ns) = tokens tr en n @ tokens_list tr en ns"

lemma stricmp_is_length: "stricmp_is p s \<Longrightarrow> p \<noteq> None \<Longrightarrow> length (cstr (the p)) = length (cstr s)"
  by (auto simp: stricmp_is_Some dest: map_eq_imp_length_eq)

lemma is_style_not_skipped: "is_style a \<Longrightarrow> \<not> skipped a"
proof -
  assume a: "is_style a"
  then obtain n where n: "at_name a = Some n" "at_enabled a" "length (cstr n) = 5"
    using stricmp_is_length[of "at_name a" "''style''"] by (auto simp: is_style_def)
  then have "\<not> sw_html_is_internal_attr (at_name a)" "\<not> blank (at_name a)"
    using stricmp_is_length[of "at_name a" "''__sw_translation__''"] stricmp_is_length[of "at_name a" "''__sw_direction__''"]
    by (auto simp: sw_html_is_internal_attr_def sw_html_is_translation_attr_def sw_html_is_direction_attr_def
        sw_html_translation_attr_name_def sw_html_direction_attr_name_def blank_def)
  with n show ?thesis by (simp add: skipped_def)
qed

lemma root_names_ok: "name_ok ''dir'' \<and> name_ok ''style'' \<and> name_ok ''lang'' \<and> name_ok sw_html_direction_data_attr_name"
  by (simp add: name_ok_def name_char_def ctype_simps sw_html_direction_data_attr_name_def)

lemma attr_view_names: "item_ok a \<Longrightarrow> v \<in> set (attr_view tr en a) \<Longrightarrow> name_ok (fst v)"
  by (auto simp: attr_view_def item_ok_def split: if_splits)

lemma style_view_names: "item_ok a \<Longrightarrow> is_style a \<Longrightarrow> v \<in> set (style_view a e) \<Longrightarrow> name_ok (fst v)"
  using is_style_not_skipped[of a] by (auto simp: style_view_def item_ok_def)

lemma attrs_view_names:
  assumes "\<forall>a\<in>set attrs. item_ok a" "v \<in> set (attrs_view tr en attrs has_direction direction)"
  shows "name_ok (fst v)"
proof -
  obtain e where "fst v \<in> {''dir'', sw_html_direction_data_attr_name, ''style''} \<or>
      (\<exists>a\<in>set attrs. v \<in> set (attr_view tr en a) \<or> is_style a \<and> v \<in> set (style_view a e))"
    using assms(2) unfolding attrs_view_def Let_def set_append set_concat Un_iff
    by (elim disjE) (auto split: if_splits)
  then show ?thesis
    using assms(1) root_names_ok attr_view_names[of _ v tr en] style_view_names[of _ v e] by (elim disjE bexE) auto
qed

lemma open_view_names:
  assumes "\<forall>a\<in>set attrs. item_ok a"
  shows "\<forall>v\<in>set (open_view tr en tag attrs). name_ok (fst v)"
proof
  fix v assume "v \<in> set (open_view tr en tag attrs)"
  then have "v \<in> set (lang_view tr (resolve_translation_loop attrs en) tag attrs) \<or>
      v \<in> set (attrs_view tr (resolve_translation_loop attrs en) attrs
        (fst (direction_of tr en tag attrs)) (snd (direction_of tr en tag attrs)))"
    by (auto simp: open_view_def Let_def split_beta)
  then show "name_ok (fst v)"
    using attrs_view_names[OF assms] root_names_ok
    by (auto simp: lang_view_def split: option.splits if_splits)
qed

lemma reads_open_text:
  assumes "tag_ok t" "\<forall>a\<in>set attrs. item_ok a"
  shows "reads html_step Data (open_text tr en t attrs) [Start t (open_view tr en (Some t) attrs)] Data"
proof -
  have "cstr t = t" using assms(1) by (simp add: tag_ok_def name_ok_cstr)
  with reads_open[OF assms(1) open_view_names[OF assms(2)]] show ?thesis by (simp add: open_text_def)
qed

lemma reads_render:
  "node_ok n \<Longrightarrow> reads html_step Data (render tr en n) (tokens tr en n) Data"
  "nodes_ok ns \<Longrightarrow> reads html_step Data (renders tr en ns) (tokens_list tr en ns) Data"
proof (induction tr en n and tr en ns rule: render_renders.induct)
  case (1 tr en tag attrs content)
  then have "reads html_step Data (open_text tr en tag attrs) [Start tag (open_view tr en (Some tag) attrs)] Data"
    "reads html_step Data (renders tr (resolve_translation_loop attrs en) content)
      (tokens_list tr (resolve_translation_loop attrs en) content) Data"
    "reads html_step Data (close_text tag) [Finish tag] Data"
    by (simp_all add: reads_open_text reads_close)
  then show ?case unfolding render.simps tokens.simps by (intro reads_append)
next
  case (2 tr en tag attrs)
  then show ?case by (simp add: reads_open_text)
next
  case (6 tr en n ns)
  then show ?case by (simp add: reads_append)
qed (simp_all add: reads_escaped reads_Nil)

lemma reads_doctype: "reads html_step Data ''<!doctype html>'' [Declaration ''doctype html''] Data"
  by (simp add: reads_def isletter_def ctype_simps)

fun opens_with :: "sw_node \<Rightarrow> string option" where
  "opens_with (Element tag _ _) = Some tag"
| "opens_with (Void tag _) = Some tag"
| "opens_with _ = None"

lemma doctype_for_eq:
  "doctype_for n h = (case opens_with n of None \<Rightarrow> h | Some tag \<Rightarrow> with_doctype tag h)"
  by (cases n) simp_all

section \<open>Properties\<close>

text \<open>
  C26. Whatever a document contains, building it appends its rendering to the buffer (behind the
  doctype, once, when an empty buffer starts with the root element) and leaves the translation
  switch, the scope stack and the translator as they were. In the rendering the switch is passed
  down to the content of an element and ends with it: the stack of the code implements lexical
  scoping, on attributes and texts.
\<close>

theorem build_implements_scopes:
  "bf_bytes (build n h) = bf_bytes h
     @ (case opens_with n of Some tag \<Rightarrow> if needs_doctype tag h then ''<!doctype html>'' else [] | None \<Rightarrow> [])
     @ render (bf_translator h) (bf_translation_enabled h) n
   \<and> bf_translation_enabled (build n h) = bf_translation_enabled h
   \<and> bf_translation_stack (build n h) = bf_translation_stack h
   \<and> bf_translator (build n h) = bf_translator h"
  by (cases n) (simp_all add: build_eq(1) with_doctype_def)

text \<open>
  C25. Markup cannot be injected. If the names of elements and attributes are names, the
  tokenizer reads a built document back as exactly its elements, their attributes with their
  (translated) values, and the characters of its (translated) texts, whatever bytes the values,
  the texts and the translations contain.
\<close>

theorem document_reads_back:
  assumes "node_ok n" and "bf_bytes h = []"
  shows "read_all html_step Data (bf_bytes (build n h)) =
    ((case opens_with n of Some tag \<Rightarrow> if needs_doctype tag h then [Declaration ''doctype html''] else [] | None \<Rightarrow> [])
     @ tokens (bf_translator h) (bf_translation_enabled h) n, Data)"
proof -
  let ?r = "render (bf_translator h) (bf_translation_enabled h) n"
  let ?t = "tokens (bf_translator h) (bf_translation_enabled h) n"
  have r: "reads html_step Data ?r ?t Data" using assms(1) by (rule reads_render(1))
  note d = reads_append[OF reads_doctype r]
  show ?thesis
    using r d assms(2)
    by (auto simp: build_eq(1) doctype_for_eq with_doctype_def reads_def split: option.split)
qed

definition demo_page :: sw_node where
  "demo_page = Element ''html'' []
     [Element ''p'' [sw_attr (Some ''title'') (Some [DQ, CHR ''>''])] [Text (Some ''a<b>'')]]"

theorem document_reads_back_witness:
  "read_all html_step Data (bf_bytes (build demo_page sw_buffer_new)) =
    ([Declaration ''doctype html'', Start ''html'' [], Start ''p'' [(''title'', Some [DQ, CHR ''>''])],
      Chr (CHR ''a''), Chr (CHR ''<''), Chr (CHR ''b''), Chr (CHR ''>''), Finish ''p'', Finish ''html''], Data)"
proof -
  have ok: "node_ok demo_page"
    by (simp add: demo_page_def tag_ok_def name_ok_def name_char_def isletter_def item_ok_def sw_attr_def ctype_simps)
  have e: "bf_bytes sw_buffer_new = []" by (simp add: sw_buffer_new_def)
  have "(case opens_with demo_page of Some tag \<Rightarrow> if needs_doctype tag sw_buffer_new then [Declaration ''doctype html''] else []
      | None \<Rightarrow> []) @ tokens (bf_translator sw_buffer_new) (bf_translation_enabled sw_buffer_new) demo_page =
    [Declaration ''doctype html'', Start ''html'' [], Start ''p'' [(''title'', Some [DQ, CHR ''>''])],
      Chr (CHR ''a''), Chr (CHR ''<''), Chr (CHR ''b''), Chr (CHR ''>''), Finish ''p'', Finish ''html'']"
    by code_simp
  with document_reads_back[OF ok e] show ?thesis by simp
qed

text \<open>
  The language of the root element is announced by two attributes decided at different
  moments: \<^verbatim>\<open>lang\<close> by the translation switch inside the element, \<^verbatim>\<open>dir\<close> by the switch outside it.
  A root element that turns translation on for itself gets \<^verbatim>\<open>lang\<close> without \<^verbatim>\<open>dir\<close>, so a
  right-to-left language is shown left to right; one that turns it off gets \<^verbatim>\<open>dir\<close> without \<^verbatim>\<open>lang\<close>.
\<close>

theorem root_direction_decided_outside:
  assumes "sw_translator_get_language tr = Some l" and "lang_code l = Some code" and "cstr code \<noteq> []"
  shows "open_view tr False (Some ''html'') [sw_attr_translation True] = [(''lang'', Some (cstr code))]
    \<and> map fst (open_view tr True (Some ''html'') [sw_attr_translation False]) =
        (if lang_direction l = SW_LANGUAGE_DIRECTION_TTB then [''dir'', ''style''] else [''dir''])"
proof -
  have root: "sw_html_is_root_html (Some ''html'')"
    by (simp add: sw_html_is_root_html_def ctype_simps)
  have skip: "skipped (sw_attr_translation b)" for b
    by (simp add: skipped_def sw_attr_translation_def sw_attr_def sw_html_is_internal_attr_def
        sw_html_is_translation_attr_def sw_html_translation_attr_name_def stricmp_is_Some)
  have none: "attr_view tr en (sw_attr_translation b) = []" for en b by (simp add: attr_view_def skip)
  have tr: "sw_html_is_translation_attr (at_name (sw_attr_translation b))" for b
    by (simp add: sw_attr_translation_def sw_attr_def sw_html_is_translation_attr_def
        sw_html_translation_attr_name_def stricmp_is_Some)
  have dir: "\<not> sw_html_is_direction_attr (at_name (sw_attr_translation b))" for b
    by (simp add: sw_attr_translation_def sw_attr_def sw_html_is_direction_attr_def
        sw_html_direction_attr_name_def stricmp_is_Some ctype_simps)
  have other: "\<not> sw_html_has_enabled_attr [sw_attr_translation b] m" if "m \<in> {''lang'', ''dir''}" for b m
    using that stricmp_is_length[of "at_name (sw_attr_translation b)" m]
    by (auto simp: sw_html_has_enabled_attr_def sw_attr_translation_def sw_attr_def)
  have style: "\<not> is_style (sw_attr_translation b)" for b using is_style_not_skipped skip by blast
  have switch: "resolve_translation_loop [sw_attr_translation b] en = b" for b en
    using tr[of b] by (simp add: sw_attr_translation_def sw_attr_def sw_html_parse_bool_def blank_def)
  have enabled: "at_enabled (sw_attr_translation b)" for b by (simp add: sw_attr_translation_def sw_attr_def)
  have direction: "resolve_direction_loop [sw_attr_translation b] has d = (has, d)" for b has d by (simp add: dir)
  have outside: "direction_of tr False (Some ''html'') [sw_attr_translation True] = (False, SW_LANGUAGE_DIRECTION_LTR)"
    "direction_of tr True (Some ''html'') [sw_attr_translation False] = (True, lang_direction l)"
    unfolding direction_of_def direction using assms(1) root by simp_all
  have inside: "lang_view tr True (Some ''html'') [sw_attr_translation True] = [(''lang'', Some (cstr code))]"
    "lang_view tr False (Some ''html'') [sw_attr_translation False] = []"
    using assms root other[of "''lang''"] by (simp_all add: lang_view_def blank_def)
  have data: "sw_html_has_internal_direction_attr [sw_attr_translation b] = False" for b
    by (simp add: sw_html_has_internal_direction_attr_def dir)
  have plain: "attrs_view tr True [sw_attr_translation True] False SW_LANGUAGE_DIRECTION_LTR = []"
    "map fst (attrs_view tr False [sw_attr_translation False] True (lang_direction l)) =
      (if lang_direction l = SW_LANGUAGE_DIRECTION_TTB then [''dir'', ''style''] else [''dir''])"
    using other[of "''dir''"]
    by (simp_all add: attrs_view_def data none style sw_html_direction_style_name_def)
  show ?thesis unfolding open_view_def switch outside Let_def prod.case inside using plain by simp
qed

theorem root_direction_decided_outside_witness:
  "open_view (Some (demo_translator\<lparr>tr_languages := [\<lparr>lang_code = Some ''ar'', lang_label = None,
       lang_direction = SW_LANGUAGE_DIRECTION_RTL\<rparr>]\<rparr>)) False (Some ''html'') [sw_attr_translation True] = [(''lang'', Some ''ar'')]"
proof -
  let ?l = "\<lparr>lang_code = Some ''ar'', lang_label = None, lang_direction = SW_LANGUAGE_DIRECTION_RTL\<rparr>"
  have "sw_translator_get_language (Some (demo_translator\<lparr>tr_languages := [?l]\<rparr>)) = Some ?l"
    by code_simp
  from root_direction_decided_outside[OF this, of "''ar''"] show ?thesis by simp
qed

end
