(* ===== verification/JsRuntime.thy ===== *)
theory JsRuntime
  imports Prelude
begin

text \<open>
  The text of the script runtime, the strings of \<^verbatim>\<open>sw_js_runtime_chunks\<close> in \<^verbatim>\<open>src/sw_js.c\<close>. A
  backquote, which the runtime does not use, stands for an apostrophe. \<open>script_safe\<close> is what a text
  needs to stay inside its \<^verbatim>\<open>script\<close> element: no \<^verbatim>\<open><\<close> that a slash or an exclamation mark may follow, and
  no NUL.
\<close>

fun js_quotes :: "string \<Rightarrow> string" where
  "js_quotes [] = []"
| "js_quotes (c # cs) = (if c = CHR 0x60 then SQ else c) # js_quotes cs"

definition runtime_helpers :: "string list" where
  "runtime_helpers = [
    ''(function () {'',
    ''if (window.__swjsRuntime) { return; }'',
    ''function whenDocumentReady(callback) {'' @
    ''if (document.readyState === `loading`) {'' @
    ''document.addEventListener(`DOMContentLoaded`, callback, { once: true });'' @
    ''} else {'' @
    ''callback();'' @
    ''}'' @
    ''}'',
    ''function findElementById(elementId) {'' @
    ''return elementId ? document.getElementById(elementId) : null;'' @
    ''}'',
    ''function getEventName(eventType) {'' @
    ''switch (eventType) {'' @
    ''case 1: return `input`;'' @
    ''case 2: return `change`;'' @
    ''case 3: return `submit`;'' @
    ''default: return `click`;'' @
    ''}'' @
    ''}'',
    ''function setLoadingClass(element, className, isLoading) {'' @
    ''if (element && className) {'' @
    ''element.classList[isLoading ? `add` : `remove`](className);'' @
    ''}'' @
    ''}'',
    ''function emitRequestState(targetElement, stateName, requestError) {'' @
    ''if (!targetElement) { return; }'' @
    ''targetElement.setAttribute(`data-sw-state`, stateName);'' @
    ''if (stateName === `loading`) {'' @
    ''targetElement.setAttribute(`aria-busy`, `true`);'' @
    ''} else {'' @
    ''targetElement.setAttribute(`aria-busy`, `false`);'' @
    ''}'' @
    ''if (stateName === `error`) {'' @
    ''targetElement.setAttribute(`data-sw-error`, `true`);'' @
    ''} else {'' @
    ''targetElement.removeAttribute(`data-sw-error`);'' @
    ''}'' @
    ''if (typeof CustomEvent === `function`) {'' @
    ''targetElement.dispatchEvent(new CustomEvent(`sw:` + stateName, {'' @
    ''detail: requestError ? { error: requestError } : void 0'' @
    ''}));'' @
    ''}'' @
    ''}'',
    ''function serializeForm(formElement) {'' @
    ''var parameters = new URLSearchParams();'' @
    ''if (!formElement) { return parameters; }'' @
    ''new FormData(formElement).forEach(function (value, key) {'' @
    ''parameters.append(key, value);'' @
    ''});'' @
    ''return parameters;'' @
    ''}'',
    ''function appendQueryString(url, queryString) {'' @
    ''if (!queryString) { return url; }'' @
    ''return url + (url.indexOf(`?`) === -1 ? `?` : `&`) + queryString;'' @
    ''}'',
    ''function restoreElementFocus(activeElementId) {'' @
    ''var element;'' @
    ''if (!activeElementId) { return; }'' @
    ''element = findElementById(activeElementId);'' @
    ''if (!element || typeof element.focus !== `function`) { return; }'' @
    ''try {'' @
    ''element.focus({ preventScroll: true });'' @
    ''} catch (_) {'' @
    ''element.focus();'' @
    ''}'' @
    ''}'',
    ''function replaceTargetContent(targetId, htmlContent, swapMode) {'' @
    ''var targetElement = findElementById(targetId);'' @
    ''var activeElement = document.activeElement;'' @
    ''var activeElementId = activeElement && activeElement.id ? activeElement.id : null;'' @
    ''var shouldRestoreFocus = !!(targetElement && activeElement'' @
    '' && (activeElement === targetElement || targetElement.contains(activeElement)));'' @
    ''if (!targetElement) { return; }'' @
    ''if (swapMode === 1) {'' @
    ''targetElement.outerHTML = htmlContent;'' @
    ''} else {'' @
    ''targetElement.innerHTML = htmlContent;'' @
    ''}'' @
    ''if (shouldRestoreFocus) { restoreElementFocus(activeElementId); }'' @
    ''}''
  ]"

definition runtime_requests :: "string list" where
  "runtime_requests = [
    ''function sendRequest(config, requestState) {'' @
    ''var formElement = findElementById(config.formId);'' @
    ''var inputElement = findElementById(config.inputId);'' @
    ''var parameters;'' @
    ''var requestUrl = config.endpoint || ``;'' @
    ''var requestOptions;'' @
    ''var requestMethod;'' @
    ''if (config.serializeForm) {'' @
    ''parameters = serializeForm(formElement);'' @
    ''} else {'' @
    ''parameters = new URLSearchParams();'' @
    ''if (config.valueParam && inputElement) {'' @
    ''parameters.set(config.valueParam, inputElement.value);'' @
    ''}'' @
    ''}'' @
    ''if (config.abortStale && requestState.controller) {'' @
    ''requestState.controller.abort();'' @
    ''}'' @
    ''requestState.requestId += 1;'' @
    ''var currentRequestId = requestState.requestId;'' @
    ''var targetElement = findElementById(config.targetId);'' @
    ''requestState.controller = typeof AbortController === `function`'' @
    '' ? new AbortController() : null;'' @
    ''setLoadingClass(targetElement, config.loadingClass, true);'' @
    ''emitRequestState(targetElement, `loading`);'' @
    ''requestMethod = config.method === 1 ? `POST` : `GET`;'' @
    ''requestOptions = {'' @
    ''method: requestMethod,'' @
    ''signal: requestState.controller ? requestState.controller.signal : void 0'' @
    ''};'' @
    ''if (requestMethod === `GET`) {'' @
    ''requestUrl = appendQueryString(requestUrl, parameters.toString());'' @
    ''} else {'' @
    ''requestOptions.headers = {'' @
    ''`Content-Type`: `application/x-www-form-urlencoded; charset=UTF-8`'' @
    ''};'' @
    ''requestOptions.body = parameters.toString();'' @
    ''}'' @
    ''fetch(requestUrl, requestOptions)'' @
    ''.then(function (response) {'' @
    ''if (!response.ok) { throw new Error(`sw_js request failed`); }'' @
    ''return response.text();'' @
    ''})'' @
    ''.then(function (htmlContent) {'' @
    ''if (currentRequestId !== requestState.requestId) { return; }'' @
    ''replaceTargetContent(config.targetId, htmlContent, config.swapMode);'' @
    ''emitRequestState(findElementById(config.targetId), `success`);'' @
    ''})'' @
    ''.catch(function (requestError) {'' @
    ''if (requestError && requestError.name === `AbortError`) { return; }'' @
    ''console.error(requestError);'' @
    ''emitRequestState(findElementById(config.targetId), `error`, requestError);'' @
    ''})'' @
    ''.finally(function () {'' @
    ''var currentTargetElement;'' @
    ''if (currentRequestId === requestState.requestId) {'' @
    ''currentTargetElement = findElementById(config.targetId);'' @
    ''setLoadingClass(currentTargetElement, config.loadingClass, false);'' @
    ''if (currentTargetElement'' @
    '' && currentTargetElement.getAttribute(`data-sw-state`) === `loading`) {'' @
    ''emitRequestState(currentTargetElement, `idle`);'' @
    ''}'' @
    ''}'' @
    ''});'' @
    ''}'',
    ''function bindConfiguredEvent(element, eventType, handler) {'' @
    ''if (!element) { return; }'' @
    ''element.addEventListener(getEventName(eventType), handler);'' @
    ''}'',
    ''function requestDialogClose(dialogElement, returnValue) {'' @
    ''var cancelEvent;'' @
    ''if (!dialogElement || !dialogElement.open) { return; }'' @
    ''if (typeof dialogElement.requestClose === `function`) {'' @
    ''dialogElement.requestClose(returnValue || ``);'' @
    ''return;'' @
    ''}'' @
    ''if (typeof dialogElement.close !== `function`) { return; }'' @
    ''cancelEvent = new Event(`cancel`, { cancelable: true });'' @
    ''if (dialogElement.dispatchEvent(cancelEvent)) {'' @
    ''dialogElement.close(returnValue || ``);'' @
    ''}'' @
    ''}'',
    ''function isOutsideDialog(dialogElement, event) {'' @
    ''var bounds = dialogElement.getBoundingClientRect();'' @
    ''return event.clientX < bounds.left || event.clientX > bounds.right'' @
    '' || event.clientY < bounds.top || event.clientY > bounds.bottom;'' @
    ''}'',
    ''function enableBackdropClose(dialogElement) {'' @
    ''var pointerDownOutside = false;'' @
    ''if (dialogElement.__swjsBackdropClose) { return; }'' @
    ''dialogElement.__swjsBackdropClose = true;'' @
    ''dialogElement.addEventListener(`pointerdown`, function (event) {'' @
    ''pointerDownOutside = event.target === dialogElement'' @
    '' && isOutsideDialog(dialogElement, event);'' @
    ''});'' @
    ''dialogElement.addEventListener(`click`, function (event) {'' @
    ''var shouldClose = pointerDownOutside && event.target === dialogElement'' @
    '' && isOutsideDialog(dialogElement, event);'' @
    ''pointerDownOutside = false;'' @
    ''if (shouldClose) { requestDialogClose(dialogElement, ``); }'' @
    ''});'' @
    ''}'',
    ''function runModalAction(config) {'' @
    ''var dialogElement = findElementById(config.targetId);'' @
    ''var returnValue = config.returnValue || ``;'' @
    ''if (!dialogElement) { return; }'' @
    ''if (config.closeOnBackdrop) { enableBackdropClose(dialogElement); }'' @
    ''if (config.action === 1) {'' @
    ''if (dialogElement.open && typeof dialogElement.close === `function`) {'' @
    ''dialogElement.close(returnValue);'' @
    ''}'' @
    ''return;'' @
    ''}'' @
    ''if (config.action === 2) {'' @
    ''requestDialogClose(dialogElement, returnValue);'' @
    ''return;'' @
    ''}'' @
    ''if (dialogElement.open || typeof dialogElement.showModal !== `function`) { return; }'' @
    ''dialogElement.returnValue = ``;'' @
    ''dialogElement.showModal();'' @
    ''}''
  ]"

definition runtime_exports :: "string list" where
  "runtime_exports = [
    ''window.__swjsRuntime = {'' @
    ''liveSearch: function (config) {'' @
    ''whenDocumentReady(function () {'' @
    ''var inputElement = findElementById(config.inputId);'' @
    ''var formElement = findElementById(config.formId);'' @
    ''var requestState = { controller: null, requestId: 0, timer: 0 };'' @
    ''function scheduleRequest() {'' @
    ''window.clearTimeout(requestState.timer);'' @
    ''if (config.debounceMs > 0) {'' @
    ''requestState.timer = window.setTimeout(function () {'' @
    ''sendRequest(config, requestState);'' @
    ''}, config.debounceMs);'' @
    ''} else {'' @
    ''sendRequest(config, requestState);'' @
    ''}'' @
    ''}'' @
    ''if (!inputElement || !findElementById(config.targetId)) { return; }'' @
    ''inputElement.addEventListener(`input`, scheduleRequest);'' @
    ''if (formElement && config.preventSubmit) {'' @
    ''formElement.addEventListener(`submit`, function (event) {'' @
    ''event.preventDefault();'' @
    ''window.clearTimeout(requestState.timer);'' @
    ''sendRequest(config, requestState);'' @
    ''});'' @
    ''}'' @
    ''});'' @
    ''},'' @
    ''fetchReplace: function (config) {'' @
    ''whenDocumentReady(function () {'' @
    ''var triggerElement = findElementById(config.triggerId);'' @
    ''var requestState = { controller: null, requestId: 0, timer: 0 };'' @
    ''if (!triggerElement || !findElementById(config.targetId)) { return; }'' @
    ''bindConfiguredEvent(triggerElement, config.eventType, function (event) {'' @
    ''if (config.preventDefault) { event.preventDefault(); }'' @
    ''sendRequest(config, requestState);'' @
    ''});'' @
    ''});'' @
    ''},'' @
    ''toggle: function (config) {'' @
    ''whenDocumentReady(function () {'' @
    ''var triggerElement = findElementById(config.triggerId);'' @
    ''var targetElement = findElementById(config.targetId);'' @
    ''function applyCheckedState() {'' @
    ''var isActive = !!triggerElement.checked;'' @
    ''if (config.invert) { isActive = !isActive; }'' @
    ''targetElement.hidden = !isActive;'' @
    ''}'' @
    ''if (!triggerElement || !targetElement) { return; }'' @
    ''if (config.useTriggerChecked) {'' @
    ''if (config.syncInitialState) { applyCheckedState(); }'' @
    ''bindConfiguredEvent(triggerElement, config.eventType, function (event) {'' @
    ''if (config.preventDefault) { event.preventDefault(); }'' @
    ''applyCheckedState();'' @
    ''});'' @
    ''return;'' @
    ''}'' @
    ''bindConfiguredEvent(triggerElement, config.eventType, function (event) {'' @
    ''if (config.preventDefault) { event.preventDefault(); }'' @
    ''targetElement.hidden = !targetElement.hidden;'' @
    ''});'' @
    ''});'' @
    ''},'' @
    ''classToggle: function (config) {'' @
    ''whenDocumentReady(function () {'' @
    ''var triggerElement = findElementById(config.triggerId);'' @
    ''var targetElement = findElementById(config.targetId);'' @
    ''function applyCheckedState() {'' @
    ''var isActive = !!triggerElement.checked;'' @
    ''if (config.invert) { isActive = !isActive; }'' @
    ''targetElement.classList.toggle(config.className, isActive);'' @
    ''}'' @
    ''if (!triggerElement || !targetElement || !config.className) { return; }'' @
    ''if (config.useTriggerChecked) {'' @
    ''if (config.syncInitialState) { applyCheckedState(); }'' @
    ''bindConfiguredEvent(triggerElement, config.eventType, function (event) {'' @
    ''if (config.preventDefault) { event.preventDefault(); }'' @
    ''applyCheckedState();'' @
    ''});'' @
    ''return;'' @
    ''}'' @
    ''bindConfiguredEvent(triggerElement, config.eventType, function (event) {'' @
    ''if (config.preventDefault) { event.preventDefault(); }'' @
    ''targetElement.classList.toggle(config.className);'' @
    ''});'' @
    ''});'' @
    ''},'' @
    ''modal: function (config) {'' @
    ''whenDocumentReady(function () {'' @
    ''var triggerElement = findElementById(config.triggerId);'' @
    ''if (!triggerElement) { return; }'' @
    ''bindConfiguredEvent(triggerElement, config.eventType, function (event) {'' @
    ''if (config.preventDefault) { event.preventDefault(); }'' @
    ''runModalAction(config);'' @
    ''});'' @
    ''});'' @
    ''}'' @
    ''};'',
    ''})();''
  ]"

definition sw_js_runtime_chunks :: "string list" where
  "sw_js_runtime_chunks = map js_quotes (runtime_helpers @ runtime_requests @ runtime_exports)"

fun script_safe :: "string \<Rightarrow> bool" where
  "script_safe [] = True"
| "script_safe [c] = (c \<noteq> CHR ''<'' \<and> c \<noteq> NUL)"
| "script_safe (c # d # cs) = (c \<noteq> NUL \<and> (c = CHR ''<'' \<longrightarrow> d \<noteq> CHR ''/'' \<and> d \<noteq> CHR ''!'') \<and> script_safe (d # cs))"

lemma script_safe_append: "script_safe a \<Longrightarrow> script_safe b \<Longrightarrow> script_safe (a @ b)"
proof (induction a rule: script_safe.induct)
  case (2 c)
  then show ?case by (cases b) auto
qed auto

lemma script_safe_quotes: "script_safe s \<Longrightarrow> script_safe (js_quotes s)"
  by (induction s rule: script_safe.induct) auto

lemma script_safe_NUL: "script_safe s \<Longrightarrow> NUL \<notin> set s"
  by (induction s rule: script_safe.induct) auto

lemma script_safe_concat: "list_all script_safe ss \<Longrightarrow> script_safe (concat ss)"
  by (induction ss) (auto intro: script_safe_append)

lemma list_all_quotes: "list_all script_safe ss \<Longrightarrow> list_all script_safe (map js_quotes ss)"
  by (induction ss) (auto intro: script_safe_quotes)

lemma list_all_intros: "list_all P []" "P x \<Longrightarrow> list_all P xs \<Longrightarrow> list_all P (x # xs)"
  by simp_all

lemma runtime_parts_safe:
  "list_all script_safe runtime_helpers" "list_all script_safe runtime_requests" "list_all script_safe runtime_exports"
  unfolding runtime_helpers_def runtime_requests_def runtime_exports_def
  by (intro list_all_intros script_safe_append; simp)+

lemma runtime_chunks_safe: "list_all script_safe sw_js_runtime_chunks"
  unfolding sw_js_runtime_chunks_def by (intro list_all_quotes) (simp add: runtime_parts_safe)

end
