(* ===== verification/Js.thy ===== *)
theory Js
  imports HtmlSpec JsRuntime
begin

text \<open>
  The script builder of \<^verbatim>\<open>src/sw_js.c\<close>: string literals, the configuration objects of the five
  helpers, the runtime that is emitted once per buffer, and the initializer script of a helper.

  A configuration is built in a buffer of its own with the flag \<^verbatim>\<open>first\<close> beside it; the steps
  below work on that pair. Appending to a buffer always succeeds (see \<open>CharArray\<close>).
\<close>

section \<open>Options\<close>

datatype sw_js_event = SW_JS_CLICK | SW_JS_INPUT | SW_JS_CHANGE | SW_JS_SUBMIT

datatype sw_js_method = SW_JS_GET | SW_JS_POST

datatype sw_js_swap = SW_JS_INNER | SW_JS_OUTER

datatype sw_js_modal_action = SW_JS_MODAL_OPEN | SW_JS_MODAL_CLOSE | SW_JS_MODAL_REQUEST_CLOSE

fun js_event_num :: "sw_js_event \<Rightarrow> int" where
  "js_event_num SW_JS_CLICK = 0" | "js_event_num SW_JS_INPUT = 1"
| "js_event_num SW_JS_CHANGE = 2" | "js_event_num SW_JS_SUBMIT = 3"

fun js_method_num :: "sw_js_method \<Rightarrow> int" where
  "js_method_num SW_JS_GET = 0" | "js_method_num SW_JS_POST = 1"

fun js_swap_num :: "sw_js_swap \<Rightarrow> int" where
  "js_swap_num SW_JS_INNER = 0" | "js_swap_num SW_JS_OUTER = 1"

fun js_action_num :: "sw_js_modal_action \<Rightarrow> int" where
  "js_action_num SW_JS_MODAL_OPEN = 0" | "js_action_num SW_JS_MODAL_CLOSE = 1"
| "js_action_num SW_JS_MODAL_REQUEST_CLOSE = 2"

record sw_js_live_opts =
  lo_form_id :: cptr
  lo_input_id :: cptr
  lo_target_id :: cptr
  lo_endpoint :: cptr
  lo_value_param :: cptr
  lo_loading_class :: cptr
  lo_debounce_ms :: int
  lo_method :: sw_js_method
  lo_swap_mode :: sw_js_swap
  lo_serialize_form :: bool
  lo_abort_stale :: bool
  lo_prevent_submit :: bool

record sw_js_fetch_opts =
  fo_trigger_id :: cptr
  fo_form_id :: cptr
  fo_target_id :: cptr
  fo_endpoint :: cptr
  fo_loading_class :: cptr
  fo_event_type :: sw_js_event
  fo_method :: sw_js_method
  fo_swap_mode :: sw_js_swap
  fo_serialize_form :: bool
  fo_abort_stale :: bool
  fo_prevent_default :: bool

record sw_js_toggle_opts =
  to_trigger_id :: cptr
  to_target_id :: cptr
  to_event_type :: sw_js_event
  to_prevent_default :: bool
  to_sync_initial_state :: bool
  to_use_trigger_checked :: bool
  to_invert :: bool

record sw_js_class_opts =
  co_trigger_id :: cptr
  co_target_id :: cptr
  co_class_name :: cptr
  co_event_type :: sw_js_event
  co_prevent_default :: bool
  co_sync_initial_state :: bool
  co_use_trigger_checked :: bool
  co_invert :: bool

record sw_js_modal_opts =
  mo_trigger_id :: cptr
  mo_target_id :: cptr
  mo_return_value :: cptr
  mo_event_type :: sw_js_event
  mo_action :: sw_js_modal_action
  mo_prevent_default :: bool
  mo_close_on_backdrop :: bool

section \<open>Configuration objects\<close>

type_synonym js_out = "string \<times> bool"

definition js_byte :: "char \<Rightarrow> js_out \<Rightarrow> bool \<times> js_out" where
  "js_byte c o1 = (True, fst o1 @ [c], snd o1)"

definition js_cstr :: "string \<Rightarrow> js_out \<Rightarrow> bool \<times> js_out" where
  "js_cstr s o1 = (True, fst o1 @ cstr s, snd o1)"

text \<open>The digits of \<^verbatim>\<open>%02X\<close> for a byte.\<close>

definition hex_digit :: "nat \<Rightarrow> char" where
  "hex_digit n = char_of (if n < 10 then 48 + n else 55 + n)"

definition hex_escape :: "char \<Rightarrow> string" where
  "hex_escape c = [BSL, CHR ''x'', hex_digit (byte c div 16), hex_digit (byte c mod 16)]"

fun js_string_loop :: "string \<Rightarrow> js_out \<Rightarrow> bool \<times> js_out" where
  "js_string_loop [] o1 = (True, o1)"
| "js_string_loop (c # cs) o1 =
     (let (ok, o2) =
        (if c = BSL then js_cstr [BSL, BSL] o1
         else if c = DQ then js_cstr [BSL, DQ] o1
         else if c = SQ then js_cstr [BSL, CHR ''x'', CHR ''2'', CHR ''7''] o1
         else if c = LF then js_cstr [BSL, CHR ''n''] o1
         else if c = CR then js_cstr [BSL, CHR ''r''] o1
         else if c = TAB then js_cstr [BSL, CHR ''t''] o1
         else if c = CHR 0x08 then js_cstr [BSL, CHR ''b''] o1
         else if c = CHR 0x0C then js_cstr [BSL, CHR ''f''] o1
         else if c = CHR ''<'' then js_cstr [BSL, CHR ''x'', CHR ''3'', CHR ''C''] o1
         else if byte c < 32 then js_cstr (hex_escape c) o1
         else js_byte c o1)
      in if \<not> ok then (False, o2) else js_string_loop cs o2)"

definition sw_js_append_string :: "cptr \<Rightarrow> js_out \<Rightarrow> bool \<times> js_out" where
  "sw_js_append_string val = guarded
     [js_byte DQ, (case val of None \<Rightarrow> Pair True | Some v \<Rightarrow> js_string_loop (cstr v)), js_byte DQ]"

definition sw_js_append_key :: "string \<Rightarrow> js_out \<Rightarrow> bool \<times> js_out" where
  "sw_js_append_key key = guarded
     [\<lambda>o1. if \<not> snd o1 then js_cstr '', '' o1 else (True, o1),
      \<lambda>o1. (True, fst o1, False),
      sw_js_append_string (Some key), js_cstr '': '']"

definition sw_js_append_string_field :: "string \<Rightarrow> cptr \<Rightarrow> js_out \<Rightarrow> bool \<times> js_out" where
  "sw_js_append_string_field key val = guarded
     [sw_js_append_key key, (if val = None then js_cstr ''null'' else sw_js_append_string val)]"

definition sw_js_append_bool_field :: "string \<Rightarrow> bool \<Rightarrow> js_out \<Rightarrow> bool \<times> js_out" where
  "sw_js_append_bool_field key val = guarded
     [sw_js_append_key key, js_cstr (if val then ''true'' else ''false'')]"

text \<open>\<^verbatim>\<open>%d\<close>.\<close>

definition int_text :: "int \<Rightarrow> string" where
  "int_text i = (if i < 0 then CHR ''-'' # dec_of (nat (- i)) else dec_of (nat i))"

definition sw_js_append_number_field :: "string \<Rightarrow> int \<Rightarrow> js_out \<Rightarrow> bool \<times> js_out" where
  "sw_js_append_number_field key val = guarded [sw_js_append_key key, js_cstr (int_text val)]"

definition sw_js_emit_live_config :: "sw_js_live_opts \<Rightarrow> js_out \<Rightarrow> bool \<times> js_out" where
  "sw_js_emit_live_config opt = guarded
     [js_byte (CHR ''{''),
      sw_js_append_string_field ''formId'' (lo_form_id opt),
      sw_js_append_string_field ''inputId'' (lo_input_id opt),
      sw_js_append_string_field ''targetId'' (lo_target_id opt),
      sw_js_append_string_field ''endpoint'' (lo_endpoint opt),
      sw_js_append_string_field ''valueParam'' (if lo_value_param opt \<noteq> None then lo_value_param opt else Some ''value''),
      sw_js_append_string_field ''loadingClass'' (lo_loading_class opt),
      sw_js_append_number_field ''debounceMs'' (lo_debounce_ms opt),
      sw_js_append_number_field ''method'' (js_method_num (lo_method opt)),
      sw_js_append_number_field ''swapMode'' (js_swap_num (lo_swap_mode opt)),
      sw_js_append_bool_field ''serializeForm'' (lo_serialize_form opt),
      sw_js_append_bool_field ''abortStale'' (lo_abort_stale opt),
      sw_js_append_bool_field ''preventSubmit'' (lo_prevent_submit opt),
      js_byte (CHR ''}'')]"

definition sw_js_emit_fetch_config :: "sw_js_fetch_opts \<Rightarrow> js_out \<Rightarrow> bool \<times> js_out" where
  "sw_js_emit_fetch_config opt = guarded
     [js_byte (CHR ''{''),
      sw_js_append_string_field ''triggerId'' (fo_trigger_id opt),
      sw_js_append_string_field ''formId'' (fo_form_id opt),
      sw_js_append_string_field ''inputId'' None,
      sw_js_append_string_field ''targetId'' (fo_target_id opt),
      sw_js_append_string_field ''endpoint'' (fo_endpoint opt),
      sw_js_append_string_field ''valueParam'' None,
      sw_js_append_string_field ''loadingClass'' (fo_loading_class opt),
      sw_js_append_number_field ''eventType'' (js_event_num (fo_event_type opt)),
      sw_js_append_number_field ''method'' (js_method_num (fo_method opt)),
      sw_js_append_number_field ''swapMode'' (js_swap_num (fo_swap_mode opt)),
      sw_js_append_bool_field ''serializeForm'' (fo_serialize_form opt),
      sw_js_append_bool_field ''abortStale'' (fo_abort_stale opt),
      sw_js_append_bool_field ''preventDefault'' (fo_prevent_default opt),
      js_byte (CHR ''}'')]"

definition sw_js_emit_toggle_config :: "sw_js_toggle_opts \<Rightarrow> js_out \<Rightarrow> bool \<times> js_out" where
  "sw_js_emit_toggle_config opt = guarded
     [js_byte (CHR ''{''),
      sw_js_append_string_field ''triggerId'' (to_trigger_id opt),
      sw_js_append_string_field ''targetId'' (to_target_id opt),
      sw_js_append_number_field ''eventType'' (js_event_num (to_event_type opt)),
      sw_js_append_bool_field ''preventDefault'' (to_prevent_default opt),
      sw_js_append_bool_field ''syncInitialState'' (to_sync_initial_state opt),
      sw_js_append_bool_field ''useTriggerChecked'' (to_use_trigger_checked opt),
      sw_js_append_bool_field ''invert'' (to_invert opt),
      js_byte (CHR ''}'')]"

definition sw_js_emit_class_config :: "sw_js_class_opts \<Rightarrow> js_out \<Rightarrow> bool \<times> js_out" where
  "sw_js_emit_class_config opt = guarded
     [js_byte (CHR ''{''),
      sw_js_append_string_field ''triggerId'' (co_trigger_id opt),
      sw_js_append_string_field ''targetId'' (co_target_id opt),
      sw_js_append_string_field ''className'' (co_class_name opt),
      sw_js_append_number_field ''eventType'' (js_event_num (co_event_type opt)),
      sw_js_append_bool_field ''preventDefault'' (co_prevent_default opt),
      sw_js_append_bool_field ''syncInitialState'' (co_sync_initial_state opt),
      sw_js_append_bool_field ''useTriggerChecked'' (co_use_trigger_checked opt),
      sw_js_append_bool_field ''invert'' (co_invert opt),
      js_byte (CHR ''}'')]"

definition sw_js_emit_modal_config :: "sw_js_modal_opts \<Rightarrow> js_out \<Rightarrow> bool \<times> js_out" where
  "sw_js_emit_modal_config opt = guarded
     [js_byte (CHR ''{''),
      sw_js_append_string_field ''triggerId'' (mo_trigger_id opt),
      sw_js_append_string_field ''targetId'' (mo_target_id opt),
      sw_js_append_string_field ''returnValue'' (mo_return_value opt),
      sw_js_append_number_field ''eventType'' (js_event_num (mo_event_type opt)),
      sw_js_append_number_field ''action'' (js_action_num (mo_action opt)),
      sw_js_append_bool_field ''preventDefault'' (mo_prevent_default opt),
      sw_js_append_bool_field ''closeOnBackdrop'' (mo_close_on_backdrop opt),
      js_byte (CHR ''}'')]"

section \<open>Scripts\<close>

fun raw_chunks :: "string list \<Rightarrow> sw_buffer \<Rightarrow> bool \<times> sw_buffer" where
  "raw_chunks [] h = (True, h)"
| "raw_chunks (chunk # rest) h =
     (let (ok, h') = sw_raw (Some chunk) h in if \<not> ok then (False, h') else raw_chunks rest h')"

definition sw_js_runtime :: "sw_buffer \<Rightarrow> bool \<times> sw_buffer" where
  "sw_js_runtime h =
     (if bf_js_runtime_emitted h then (True, h)
      else guarded
        [sw_tag (Some ''script'') [sw_attr (Some ''data-swjs'') (Some ''runtime'')],
         raw_chunks sw_js_runtime_chunks,
         sw_end (Some ''script''),
         \<lambda>h. (True, h\<lparr>bf_js_runtime_emitted := True\<rparr>)] h)"

definition sw_js_emit_initializer :: "string \<Rightarrow> string \<Rightarrow> string \<Rightarrow> sw_buffer \<Rightarrow> bool \<times> sw_buffer" where
  "sw_js_emit_initializer helper_name method_name config = guarded
     [sw_js_runtime,
      sw_tag (Some ''script'') [sw_attr (Some ''data-swjs'') (Some helper_name)],
      sw_rawf (Some (''window.__swjsRuntime.'' @ cstr method_name @ ''('')),
      sw_raw (Some config),
      sw_raw (Some '');''),
      sw_end (Some ''script'')]"

text \<open>The common end of the five helpers: build the configuration, then emit the initializer.\<close>

definition js_helper :: "(js_out \<Rightarrow> bool \<times> js_out) \<Rightarrow> string \<Rightarrow> string \<Rightarrow> sw_buffer \<Rightarrow> bool \<times> sw_buffer" where
  "js_helper emit helper_name method_name h =
     (let (ok, config, _) = emit ([], True) in
      if \<not> ok then (False, h) else sw_js_emit_initializer helper_name method_name config h)"

definition sw_js_live :: "sw_js_live_opts option \<Rightarrow> sw_buffer \<Rightarrow> bool \<times> sw_buffer" where
  "sw_js_live opt h =
     (case opt of None \<Rightarrow> (False, h)
      | Some o1 \<Rightarrow>
          if lo_input_id o1 = None \<or> lo_target_id o1 = None \<or> lo_endpoint o1 = None then (False, h)
          else js_helper (sw_js_emit_live_config o1) ''live-search'' ''liveSearch'' h)"

definition sw_js_live_search :: "cptr \<Rightarrow> cptr \<Rightarrow> cptr \<Rightarrow> cptr \<Rightarrow> sw_buffer \<Rightarrow> bool \<times> sw_buffer" where
  "sw_js_live_search form_id input_id target_id endpoint h =
     sw_js_live (Some \<lparr>lo_form_id = form_id, lo_input_id = input_id, lo_target_id = target_id,
       lo_endpoint = endpoint, lo_value_param = None, lo_loading_class = Some ''is-loading'',
       lo_debounce_ms = 120, lo_method = SW_JS_GET, lo_swap_mode = SW_JS_INNER, lo_serialize_form = True,
       lo_abort_stale = True, lo_prevent_submit = True\<rparr>) h"

definition sw_js_fetch :: "sw_js_fetch_opts option \<Rightarrow> sw_buffer \<Rightarrow> bool \<times> sw_buffer" where
  "sw_js_fetch opt h =
     (case opt of None \<Rightarrow> (False, h)
      | Some o1 \<Rightarrow>
          if fo_trigger_id o1 = None \<or> fo_target_id o1 = None \<or> fo_endpoint o1 = None then (False, h)
          else js_helper (sw_js_emit_fetch_config o1) ''fetch-replace'' ''fetchReplace'' h)"

definition sw_js_toggle :: "sw_js_toggle_opts option \<Rightarrow> sw_buffer \<Rightarrow> bool \<times> sw_buffer" where
  "sw_js_toggle opt h =
     (case opt of None \<Rightarrow> (False, h)
      | Some o1 \<Rightarrow>
          if to_trigger_id o1 = None \<or> to_target_id o1 = None then (False, h)
          else js_helper (sw_js_emit_toggle_config o1) ''toggle'' ''toggle'' h)"

definition sw_js_class :: "sw_js_class_opts option \<Rightarrow> sw_buffer \<Rightarrow> bool \<times> sw_buffer" where
  "sw_js_class opt h =
     (case opt of None \<Rightarrow> (False, h)
      | Some o1 \<Rightarrow>
          if co_trigger_id o1 = None \<or> co_target_id o1 = None \<or> co_class_name o1 = None then (False, h)
          else js_helper (sw_js_emit_class_config o1) ''class-toggle'' ''classToggle'' h)"

definition sw_js_modal :: "sw_js_modal_opts option \<Rightarrow> sw_buffer \<Rightarrow> bool \<times> sw_buffer" where
  "sw_js_modal opt h =
     (case opt of None \<Rightarrow> (False, h)
      | Some o1 \<Rightarrow>
          if mo_trigger_id o1 = None \<or> mo_target_id o1 = None then (False, h)
          else js_helper (sw_js_emit_modal_config o1) ''modal'' ''modal'' h)"

end
