(* ===== verification/JsRead.thy ===== *)
theory JsRead
  imports Js Reader HttpText
begin

text \<open>
  What the script builder writes: every configuration is the text of a list of fields, and a
  reader of object literals (strings with their escapes, numbers, booleans, null) gives the
  fields back. The scripts are made of texts that cannot leave their element.
\<close>

section \<open>The text of a configuration\<close>

datatype js_value = Js_null | Js_string string | Js_bool bool | Js_number int

definition js_char :: "char \<Rightarrow> string" where
  "js_char c =
     (if c = BSL then [BSL, BSL] else if c = DQ then [BSL, DQ]
      else if c = SQ then [BSL, CHR ''x'', CHR ''2'', CHR ''7'']
      else if c = LF then [BSL, CHR ''n''] else if c = CR then [BSL, CHR ''r''] else if c = TAB then [BSL, CHR ''t'']
      else if c = CHR 0x08 then [BSL, CHR ''b''] else if c = CHR 0x0C then [BSL, CHR ''f'']
      else if c = CHR ''<'' then [BSL, CHR ''x'', CHR ''3'', CHR ''C'']
      else if byte c < 32 then hex_escape c else [c])"

definition literal :: "string \<Rightarrow> string" where
  "literal s = [DQ] @ concat (map js_char s) @ [DQ]"

fun value_text :: "js_value \<Rightarrow> string" where
  "value_text Js_null = ''null''"
| "value_text (Js_string s) = literal s"
| "value_text (Js_bool b) = (if b then ''true'' else ''false'')"
| "value_text (Js_number i) = int_text i"

definition field_text :: "bool \<Rightarrow> string \<times> js_value \<Rightarrow> string" where
  "field_text first f = (if first then [] else '', '') @ literal (fst f) @ '': '' @ value_text (snd f)"

fun fields_text :: "bool \<Rightarrow> (string \<times> js_value) list \<Rightarrow> string" where
  "fields_text first [] = []"
| "fields_text first (f # fs) = field_text first f @ fields_text False fs"

definition config_text :: "(string \<times> js_value) list \<Rightarrow> string" where
  "config_text fs = ''{'' @ fields_text True fs @ ''}''"

lemma hex_digit_char: "n < 16 \<Longrightarrow> byte (hex_digit n) = (if n < 10 then 48 + n else 55 + n)"
  by (simp add: hex_digit_def byte_char_of)

lemma hex_digit_not_NUL: "n < 16 \<Longrightarrow> hex_digit n \<noteq> NUL"
  using hex_digit_char[of n] by (metis byte_eq_0_iff add_is_0 numeral_eq_iff zero_neq_numeral)

lemma byte_digits: "byte c div 16 < 16" "byte c mod 16 < 16"
  using byte_less[of c] by (simp_all add: less_mult_imp_div_less)

lemma cstr_hex_escape: "cstr (hex_escape c) = hex_escape c"
  by (simp add: hex_escape_def hex_digit_not_NUL byte_digits)

lemma js_string_loop_eq: "js_string_loop s (out, first) = (True, out @ concat (map js_char s), first)"
proof (induction s arbitrary: out)
  case (Cons c s)
  have "js_string_loop (c # s) (out, first) = js_string_loop s (out @ js_char c, first)"
    by (simp add: js_char_def js_cstr_def js_byte_def cstr_hex_escape)
  then show ?case by (simp add: Cons.IH)
qed simp

lemma append_string_eq: "sw_js_append_string val (out, first) = (True, out @ literal (text_of val), first)"
  by (cases val) (simp_all add: sw_js_append_string_def js_byte_def js_string_loop_eq literal_def text_of_def)

lemma append_key_eq:
  "cstr key = key \<Longrightarrow>
   sw_js_append_key key (out, first) = (True, out @ (if first then [] else '', '') @ literal key @ '': '', False)"
  by (simp add: sw_js_append_key_def js_cstr_def append_string_eq text_of_def)

definition string_value :: "cptr \<Rightarrow> js_value" where
  "string_value p = (case p of None \<Rightarrow> Js_null | Some s \<Rightarrow> Js_string (cstr s))"

lemma int_text_NUL: "cstr (int_text i) = int_text i"
proof (rule cstr_ident)
  have "NUL \<notin> set (dec_of n)" for n
    using dec_of_isdigit[of NUL n] by (auto simp: isdigit_def byte_def)
  then show "NUL \<notin> set (int_text i)" by (simp add: int_text_def)
qed

lemma field_eqs:
  assumes "cstr key = key"
  shows "sw_js_append_string_field key p (out, first) = (True, out @ field_text first (key, string_value p), False)"
    and "sw_js_append_bool_field key b (out, first) = (True, out @ field_text first (key, Js_bool b), False)"
    and "sw_js_append_number_field key i (out, first) = (True, out @ field_text first (key, Js_number i), False)"
  using assms
  by (auto simp: sw_js_append_string_field_def sw_js_append_bool_field_def sw_js_append_number_field_def
      append_key_eq append_string_eq field_text_def string_value_def js_cstr_def text_of_def int_text_NUL
      split: option.split)

text \<open>The fields of the five configurations.\<close>

definition live_fields :: "sw_js_live_opts \<Rightarrow> (string \<times> js_value) list" where
  "live_fields opt =
     [(''formId'', string_value (lo_form_id opt)), (''inputId'', string_value (lo_input_id opt)),
      (''targetId'', string_value (lo_target_id opt)), (''endpoint'', string_value (lo_endpoint opt)),
      (''valueParam'', string_value (if lo_value_param opt \<noteq> None then lo_value_param opt else Some ''value'')),
      (''loadingClass'', string_value (lo_loading_class opt)), (''debounceMs'', Js_number (lo_debounce_ms opt)),
      (''method'', Js_number (js_method_num (lo_method opt))), (''swapMode'', Js_number (js_swap_num (lo_swap_mode opt))),
      (''serializeForm'', Js_bool (lo_serialize_form opt)), (''abortStale'', Js_bool (lo_abort_stale opt)),
      (''preventSubmit'', Js_bool (lo_prevent_submit opt))]"

definition fetch_fields :: "sw_js_fetch_opts \<Rightarrow> (string \<times> js_value) list" where
  "fetch_fields opt =
     [(''triggerId'', string_value (fo_trigger_id opt)), (''formId'', string_value (fo_form_id opt)),
      (''inputId'', Js_null), (''targetId'', string_value (fo_target_id opt)),
      (''endpoint'', string_value (fo_endpoint opt)), (''valueParam'', Js_null),
      (''loadingClass'', string_value (fo_loading_class opt)),
      (''eventType'', Js_number (js_event_num (fo_event_type opt))),
      (''method'', Js_number (js_method_num (fo_method opt))), (''swapMode'', Js_number (js_swap_num (fo_swap_mode opt))),
      (''serializeForm'', Js_bool (fo_serialize_form opt)), (''abortStale'', Js_bool (fo_abort_stale opt)),
      (''preventDefault'', Js_bool (fo_prevent_default opt))]"

definition toggle_fields :: "sw_js_toggle_opts \<Rightarrow> (string \<times> js_value) list" where
  "toggle_fields opt =
     [(''triggerId'', string_value (to_trigger_id opt)), (''targetId'', string_value (to_target_id opt)),
      (''eventType'', Js_number (js_event_num (to_event_type opt))), (''preventDefault'', Js_bool (to_prevent_default opt)),
      (''syncInitialState'', Js_bool (to_sync_initial_state opt)),
      (''useTriggerChecked'', Js_bool (to_use_trigger_checked opt)), (''invert'', Js_bool (to_invert opt))]"

definition class_fields :: "sw_js_class_opts \<Rightarrow> (string \<times> js_value) list" where
  "class_fields opt =
     [(''triggerId'', string_value (co_trigger_id opt)), (''targetId'', string_value (co_target_id opt)),
      (''className'', string_value (co_class_name opt)),
      (''eventType'', Js_number (js_event_num (co_event_type opt))), (''preventDefault'', Js_bool (co_prevent_default opt)),
      (''syncInitialState'', Js_bool (co_sync_initial_state opt)),
      (''useTriggerChecked'', Js_bool (co_use_trigger_checked opt)), (''invert'', Js_bool (co_invert opt))]"

definition modal_fields :: "sw_js_modal_opts \<Rightarrow> (string \<times> js_value) list" where
  "modal_fields opt =
     [(''triggerId'', string_value (mo_trigger_id opt)), (''targetId'', string_value (mo_target_id opt)),
      (''returnValue'', string_value (mo_return_value opt)),
      (''eventType'', Js_number (js_event_num (mo_event_type opt))), (''action'', Js_number (js_action_num (mo_action opt))),
      (''preventDefault'', Js_bool (mo_prevent_default opt)), (''closeOnBackdrop'', Js_bool (mo_close_on_backdrop opt))]"

lemma emit_configs:
  "sw_js_emit_live_config lo ([], True) = (True, config_text (live_fields lo), False)"
  "sw_js_emit_fetch_config fo ([], True) = (True, config_text (fetch_fields fo), False)"
  "sw_js_emit_toggle_config tg ([], True) = (True, config_text (toggle_fields tg), False)"
  "sw_js_emit_class_config co ([], True) = (True, config_text (class_fields co), False)"
  "sw_js_emit_modal_config mo ([], True) = (True, config_text (modal_fields mo), False)"
  by (simp_all add: sw_js_emit_live_config_def live_fields_def sw_js_emit_fetch_config_def fetch_fields_def
      sw_js_emit_toggle_config_def toggle_fields_def sw_js_emit_class_config_def class_fields_def
      sw_js_emit_modal_config_def modal_fields_def js_byte_def field_eqs config_text_def string_value_def)

section \<open>A reader of object literals\<close>

datatype jstate = Js_start | Js_name | Js_key string | Js_colon string | Js_val string
  | Js_str string string | Js_esc string string | Js_hex string string string | Js_word string string
  | Js_next | Js_done | Js_bad

definition esc_value :: "char \<Rightarrow> char" where
  "esc_value c =
     (if c = CHR ''n'' then LF else if c = CHR ''r'' then CR else if c = CHR ''t'' then TAB
      else if c = CHR ''b'' then CHR 0x08 else if c = CHR ''f'' then CHR 0x0C else c)"

definition hex_nibble :: "char \<Rightarrow> nat" where
  "hex_nibble c = (if byte c < 58 then byte c - 48 else byte c - 55)"

definition word_value :: "string \<Rightarrow> js_value" where
  "word_value w =
     (if w = ''null'' then Js_null else if w = ''true'' then Js_bool True else if w = ''false'' then Js_bool False
      else if take 1 w = ''-'' then Js_number (- int (dec_value 0 (drop 1 w)))
      else Js_number (int (dec_value 0 w)))"

fun js_step :: "jstate \<Rightarrow> char \<Rightarrow> (string \<times> js_value) list \<times> jstate" where
  "js_step Js_start c = (if c = CHR ''{'' then ([], Js_name) else ([], Js_bad))"
| "js_step Js_name c = (if c = DQ then ([], Js_key []) else if c = CHR '' '' then ([], Js_name)
     else if c = CHR ''}'' then ([], Js_done) else ([], Js_bad))"
| "js_step (Js_key k) c = (if c = DQ then ([], Js_colon k) else if c = BSL then ([], Js_bad) else ([], Js_key (k @ [c])))"
| "js_step (Js_colon k) c = (if c = CHR '':'' then ([], Js_val k) else ([], Js_bad))"
| "js_step (Js_val k) c = (if c = CHR '' '' then ([], Js_val k) else if c = DQ then ([], Js_str k [])
     else ([], Js_word k [c]))"
| "js_step (Js_str k v) c = (if c = DQ then ([(k, Js_string v)], Js_next) else if c = BSL then ([], Js_esc k v)
     else if c = LF \<or> c = CR then ([], Js_bad) else ([], Js_str k (v @ [c])))"
| "js_step (Js_esc k v) c = (if c = CHR ''x'' then ([], Js_hex k v []) else ([], Js_str k (v @ [esc_value c])))"
| "js_step (Js_hex k v d) c = (if d = [] then ([], Js_hex k v [c])
     else ([], Js_str k (v @ [char_of (16 * hex_nibble (hd d) + hex_nibble c)])))"
| "js_step (Js_word k w) c = (if c = CHR '','' then ([(k, word_value w)], Js_name)
     else if c = CHR ''}'' then ([(k, word_value w)], Js_done) else ([], Js_word k (w @ [c])))"
| "js_step Js_next c = (if c = CHR '','' then ([], Js_name) else if c = CHR ''}'' then ([], Js_done) else ([], Js_bad))"
| "js_step Js_done c = ([], Js_bad)"
| "js_step Js_bad c = ([], Js_bad)"

lemma hex_nibble_digit: "n < 16 \<Longrightarrow> hex_nibble (hex_digit n) = n"
  by (simp add: hex_nibble_def hex_digit_char)

lemma reads_js_char: "reads js_step (Js_str k v) (js_char c) [] (Js_str k (v @ [c]))"
proof -
  have n: "hex_nibble (CHR ''2'') = 2" "hex_nibble (CHR ''7'') = 7" "hex_nibble (CHR ''3'') = 3" "hex_nibble (CHR ''C'') = 12"
    by (simp_all add: hex_nibble_def byte_def)
  have ch: "char_of (39::nat) = SQ" "char_of (60::nat) = CHR ''<''" by code_simp+
  have h: "reads js_step (Js_str k v) (hex_escape c) [] (Js_str k (v @ [c]))"
    by (simp add: reads_def hex_escape_def hex_nibble_digit byte_digits)
  show ?thesis
  proof (cases "c \<in> {BSL, DQ, LF, CR, TAB, CHR 0x08, CHR 0x0C}")
    case True
    then show ?thesis by (elim insertE emptyE) (simp_all add: reads_def js_char_def esc_value_def)
  next
    case plain: False
    show ?thesis
    proof (cases "c = SQ \<or> c = CHR ''<''")
      case True
      then show ?thesis by (elim disjE) (simp_all add: reads_def js_char_def n ch)
    next
      case False
      then have "js_char c = (if byte c < 32 then hex_escape c else [c])" using plain by (simp add: js_char_def)
      then show ?thesis using h plain by (cases "byte c < 32") (simp_all add: reads_def)
    qed
  qed
qed

lemma reads_string: "reads js_step (Js_val k) (literal s) [(k, Js_string s)] Js_next"
proof -
  have "reads js_step (Js_str k []) (concat (map js_char s)) [] (Js_str k ([] @ s))"
    by (rule reads_concat[where f = "Js_str k"]) (rule reads_js_char)
  moreover have "reads js_step (Js_str k s) [DQ] [(k, Js_string s)] Js_next" by (simp add: reads_def)
  ultimately have "reads js_step (Js_str k []) (concat (map js_char s) @ [DQ]) ([] @ [(k, Js_string s)]) Js_next"
    by (intro reads_append) auto
  then show ?thesis by (simp add: literal_def reads_silent)
qed

definition key_ok :: "string \<Rightarrow> bool" where
  "key_ok k \<longleftrightarrow> (\<forall>c\<in>set k. isalnum c)"

lemma key_char: "isalnum c \<Longrightarrow> js_char c = [c] \<and> c \<noteq> DQ \<and> c \<noteq> BSL"
proof -
  assume a: "isalnum c"
  then have "\<not> byte c < 32" by (auto simp: ctype_simps)
  moreover have "c \<notin> {BSL, DQ, SQ, LF, CR, TAB, CHR 0x08, CHR 0x0C, CHR ''<''}"
    using a by (auto simp: isalnum_def isupper_def islower_def isdigit_def byte_def)
  ultimately show ?thesis by (simp add: js_char_def)
qed

lemma reads_key:
  assumes "key_ok k"
  shows "reads js_step Js_name (literal k @ '': '') [] (Js_val k)"
proof -
  have "concat (map js_char k) = k"
    using assms unfolding key_ok_def by (induction k) (auto dest: key_char)
  then have lit: "literal k = DQ # k @ [DQ]" by (simp add: literal_def)
  have "reads js_step (Js_key []) k [] (Js_key ([] @ k))"
    using assms by (intro reads_chars) (auto simp: key_ok_def dest: key_char)
  moreover have "reads js_step (Js_key k) (DQ # '': '') [] (Js_val k)" by (simp add: reads_def)
  ultimately have "reads js_step (Js_key []) (k @ DQ # '': '') ([] @ []) (Js_val k)"
    by (intro reads_append) auto
  then show ?thesis by (simp add: lit reads_silent)
qed

text \<open>A word is read until the comma or the brace behind it.\<close>

definition plain_word :: "string \<Rightarrow> bool" where
  "plain_word w \<longleftrightarrow> w \<noteq> [] \<and> hd w \<noteq> CHR '' '' \<and> hd w \<noteq> DQ \<and> (\<forall>c\<in>set w. c \<noteq> CHR '','' \<and> c \<noteq> CHR ''}'')"

lemma reads_word:
  assumes "plain_word w"
  shows "reads js_step (Js_val k) w [] (Js_word k w)"
proof -
  obtain c cs where w: "w = c # cs" using assms by (cases w) (auto simp: plain_word_def)
  have "reads js_step (Js_word k [c]) cs [] (Js_word k ([c] @ cs))"
    using assms by (intro reads_chars) (auto simp: w plain_word_def)
  moreover have "js_step (Js_val k) c = ([], Js_word k [c])" using assms by (simp add: w plain_word_def)
  ultimately show ?thesis unfolding w by (auto intro: reads_silent simp del: js_step.simps)
qed

lemma digits_plain: "plain_word (dec_of n)" "take 1 (dec_of n) \<noteq> ''-''"
  "dec_of n \<noteq> ''null''" "dec_of n \<noteq> ''true''" "dec_of n \<noteq> ''false''"
proof -
  have d: "isdigit c" if "c \<in> set (dec_of n)" for c using that by (rule dec_of_isdigit)
  have h: "isdigit (hd (dec_of n))" by (rule d) simp
  have not: "\<not> isdigit (CHR '' '')" "\<not> isdigit DQ" "\<not> isdigit (CHR '','')" "\<not> isdigit (CHR ''}'')" "\<not> isdigit (CHR ''-'')"
    "\<not> isdigit (CHR ''n'')" "\<not> isdigit (CHR ''t'')" "\<not> isdigit (CHR ''f'')"
    by (simp_all add: isdigit_def byte_def)
  show "plain_word (dec_of n)" unfolding plain_word_def using h not by (metis d dec_of_not_Nil)
  show "take 1 (dec_of n) \<noteq> ''-''" using h not by (cases "dec_of n") auto
  show "dec_of n \<noteq> ''null''" "dec_of n \<noteq> ''true''" "dec_of n \<noteq> ''false''" using h not by auto
qed

lemma int_text_plain: "plain_word (int_text i) \<and> word_value (int_text i) = Js_number i"
  using digits_plain by (auto simp: int_text_def plain_word_def word_value_def dec_value_dec_of)

text \<open>Any value is read up to a state in which a comma or a brace completes it.\<close>

definition js_end :: "(string \<times> js_value) list \<Rightarrow> (string \<times> js_value) list \<Rightarrow> jstate \<Rightarrow> bool" where
  "js_end seen f st \<longleftrightarrow> (\<exists>rest. seen @ rest = f \<and> js_step st (CHR '','') = (rest, Js_name)
     \<and> js_step st (CHR ''}'') = (rest, Js_done))"

lemma js_end_word: "js_end [] [(k, word_value w)] (Js_word k w)"
  by (simp add: js_end_def)

lemma js_end_next: "js_end [f] [f] Js_next"
  by (simp add: js_end_def)

lemma reads_value: "\<exists>seen st. reads js_step (Js_val k) (value_text v) seen st \<and> js_end seen [(k, v)] st"
proof -
  have word: "\<exists>seen st. reads js_step (Js_val k) w seen st \<and> js_end seen [(k, v)] st"
    if "plain_word w" "word_value w = v" for w
    using reads_word[OF that(1), of k] js_end_word[of k w] that(2) by blast
  show ?thesis
  proof (cases v)
    case (Js_string s)
    then show ?thesis using reads_string[of k s] js_end_next[of "(k, v)"] by auto
  next
    case (Js_number i)
    then show ?thesis using word[of "int_text i"] int_text_plain[of i] by simp
  next
    case Js_null
    then show ?thesis using word[of "''null''"] by (simp add: plain_word_def word_value_def)
  next
    case (Js_bool b)
    then show ?thesis using word[of "if b then ''true'' else ''false''"]
      by (cases b) (simp_all add: plain_word_def word_value_def)
  qed
qed

lemma reads_field:
  assumes "key_ok k"
  shows "\<exists>seen st. reads js_step Js_name (literal k @ '': '' @ value_text v) seen st \<and> js_end seen [(k, v)] st"
proof -
  from reads_value obtain seen st where "reads js_step (Js_val k) (value_text v) seen st" "js_end seen [(k, v)] st" by blast
  with reads_append[OF reads_key[OF assms] this(1)] show ?thesis by auto
qed

lemma reads_fields:
  assumes "js_end seen done st" "\<forall>f\<in>set fs. key_ok (fst f)"
  shows "\<exists>seen' st'. reads js_step st (fields_text False fs) seen' st' \<and> js_end (seen @ seen') (done @ fs) st'"
  using assms
proof (induction fs arbitrary: seen "done" st)
  case Nil
  then show ?case using reads_Nil[of js_step st] by fastforce
next
  case (Cons f fs)
  from Cons.prems(1) obtain rest where rest: "seen @ rest = done" "js_step st (CHR '','') = (rest, Js_name)"
    by (auto simp: js_end_def)
  then have comma: "reads js_step st '', '' rest Js_name" by (simp add: reads_def)
  from reads_field[of "fst f" "snd f"] Cons.prems(2) obtain s1 st1 where
    f: "reads js_step Js_name (literal (fst f) @ '': '' @ value_text (snd f)) s1 st1" "js_end s1 [f] st1" by auto
  from f(2) have "js_end (seen @ rest @ s1) (done @ [f]) st1" using rest(1) by (auto simp: js_end_def)
  from Cons.IH[OF this] Cons.prems(2) obtain s2 st2 where
    r: "reads js_step st1 (fields_text False fs) s2 st2" "js_end ((seen @ rest @ s1) @ s2) ((done @ [f]) @ fs) st2" by auto
  have "reads js_step st (('', '' @ literal (fst f) @ '': '' @ value_text (snd f)) @ fields_text False fs)
      ((rest @ s1) @ s2) st2"
    by (intro reads_append[OF reads_append[OF comma f(1)] r(1)])
  then show ?case using r(2) by (auto simp: field_text_def)
qed

lemma reads_config:
  assumes "\<forall>f\<in>set fs. key_ok (fst f)" "fs \<noteq> []"
  shows "read_all js_step Js_start (config_text fs) = (fs, Js_done)"
proof -
  obtain f gs where fs: "fs = f # gs" using assms(2) by (cases fs) auto
  from reads_field[of "fst f" "snd f"] assms(1) fs obtain s1 st1 where
    f: "reads js_step Js_name (literal (fst f) @ '': '' @ value_text (snd f)) s1 st1" "js_end s1 [f] st1" by auto
  from reads_fields[OF f(2), of gs] assms(1) fs obtain s2 st2 where
    r: "reads js_step st1 (fields_text False gs) s2 st2" "js_end (s1 @ s2) ([f] @ gs) st2" by auto
  from r(2) obtain rest where rest: "(s1 @ s2) @ rest = fs" "js_step st2 (CHR ''}'') = (rest, Js_done)"
    by (auto simp: js_end_def fs)
  have a: "reads js_step Js_start ''{'' [] Js_name" by (simp add: reads_def)
  have z: "reads js_step st2 ''}'' rest Js_done" using rest(2) by (simp add: reads_def)
  from reads_append[OF a reads_append[OF f(1) reads_append[OF r(1) z]]] rest(1)
  show ?thesis by (simp add: config_text_def fs field_text_def reads_def)
qed

section \<open>Scripts that stay in their element\<close>

lemma script_safe_plain: "CHR ''<'' \<notin> set s \<Longrightarrow> NUL \<notin> set s \<Longrightarrow> script_safe s"
  by (induction s rule: script_safe.induct) auto

definition tame :: "string \<Rightarrow> bool" where
  "tame s \<longleftrightarrow> CHR ''<'' \<notin> set s \<and> NUL \<notin> set s"

lemma tame_append [simp]: "tame (a @ b) \<longleftrightarrow> tame a \<and> tame b"
  by (auto simp: tame_def)

lemma hex_digit_tame: "n < 16 \<Longrightarrow> hex_digit n \<noteq> CHR ''<'' \<and> hex_digit n \<noteq> NUL"
  using hex_digit_char[of n] hex_digit_not_NUL[of n] byte_inject[of "hex_digit n" "CHR ''<''"]
  by (auto simp: byte_def split: if_splits)

lemma js_char_tame: "c \<noteq> NUL \<Longrightarrow> tame (js_char c)"
  using hex_digit_tame[OF byte_digits(1)[of c]] hex_digit_tame[OF byte_digits(2)[of c]]
  by (auto simp: tame_def js_char_def hex_escape_def)

lemma literal_tame: "NUL \<notin> set s \<Longrightarrow> tame (literal s)"
proof -
  assume "NUL \<notin> set s"
  then have "tame (concat (map js_char s))"
    by (induction s) (auto simp: js_char_tame tame_def[of "[]"])
  then show ?thesis by (simp add: literal_def tame_def)
qed

definition field_ok :: "string \<times> js_value \<Rightarrow> bool" where
  "field_ok f \<longleftrightarrow> key_ok (fst f) \<and> (case snd f of Js_string s \<Rightarrow> NUL \<notin> set s | _ \<Rightarrow> True)"

lemma dec_of_tame: "tame (dec_of n)"
  using dec_of_isdigit[of "CHR ''<''" n] dec_of_isdigit[of NUL n] by (auto simp: tame_def isdigit_def byte_def)

lemma field_tame: "field_ok f \<Longrightarrow> tame (field_text first f)"
proof -
  assume f: "field_ok f"
  have "NUL \<notin> set (fst f)"
    using f by (auto simp: field_ok_def key_ok_def isalnum_def isupper_def islower_def isdigit_def byte_def)
  moreover have "tame (value_text (snd f))"
    using f literal_tame dec_of_tame
    by (cases "snd f") (auto simp: field_ok_def int_text_def tame_def)
  ultimately show ?thesis by (auto simp: field_text_def literal_tame) (simp_all add: tame_def)
qed

lemma config_tame: "\<forall>f\<in>set fs. field_ok f \<Longrightarrow> tame (config_text fs)"
proof -
  assume "\<forall>f\<in>set fs. field_ok f"
  then have "tame (fields_text first fs)" for first
    by (induction fs arbitrary: first) (auto simp: field_tame tame_def[of "[]"])
  then show ?thesis by (simp add: config_text_def tame_def)
qed

lemma string_value_ok: "field_ok (k, string_value p) \<longleftrightarrow> key_ok k" "field_ok (k, Js_number i) \<longleftrightarrow> key_ok k"
    "field_ok (k, Js_bool b) \<longleftrightarrow> key_ok k" "field_ok (k, Js_null) \<longleftrightarrow> key_ok k"
  by (auto simp: field_ok_def string_value_def split: option.splits)

lemma fields_ok:
  "\<forall>f\<in>set (live_fields lo). field_ok f" "\<forall>f\<in>set (fetch_fields fo). field_ok f"
  "\<forall>f\<in>set (toggle_fields tg). field_ok f" "\<forall>f\<in>set (class_fields co). field_ok f"
  "\<forall>f\<in>set (modal_fields mo). field_ok f"
  by (simp_all add: live_fields_def fetch_fields_def toggle_fields_def class_fields_def modal_fields_def
      string_value_ok) (simp_all add: key_ok_def ctype_simps byte_def)

lemma fields_not_Nil:
  "live_fields lo \<noteq> []" "fetch_fields fo \<noteq> []" "toggle_fields tg \<noteq> []" "class_fields co \<noteq> []" "modal_fields mo \<noteq> []"
  by (simp_all add: live_fields_def fetch_fields_def toggle_fields_def class_fields_def modal_fields_def)

lemma fields_read:
  "\<forall>f\<in>set fs. field_ok f \<Longrightarrow> fs \<noteq> [] \<Longrightarrow> read_all js_step Js_start (config_text fs) = (fs, Js_done)"
  by (rule reads_config) (auto simp: field_ok_def)

text \<open>The script elements of the helpers.\<close>

definition script_element :: "string \<Rightarrow> string \<Rightarrow> string" where
  "script_element name body =
     ''<script data-swjs='' @ [DQ] @ name @ [DQ] @ ''>'' @ body @ ''</script>''"

definition helper_name_ok :: "string \<Rightarrow> bool" where
  "helper_name_ok name \<longleftrightarrow> name \<noteq> [] \<and> escape True name = name \<and> cstr name = name"

lemma script_open_text:
  assumes "helper_name_ok name"
  shows "open_text tr en ''script'' [sw_attr (Some ''data-swjs'') (Some name)] =
    ''<script data-swjs='' @ [DQ] @ name @ [DQ] @ ''>''"
proof -
  let ?a = "sw_attr (Some ''data-swjs'') (Some name)"
  have root: "\<not> sw_html_is_root_html (Some ''script'')" by (simp add: sw_html_is_root_html_def ctype_simps)
  have names: "\<not> sw_html_is_internal_attr (Some ''data-swjs'')" using root_attr_names[of "''data-swjs''"] by simp
  have dir: "\<not> sw_html_is_direction_attr (at_name ?a)" and tr: "\<not> sw_html_is_translation_attr (at_name ?a)"
    using names by (auto simp: sw_attr_def sw_html_is_internal_attr_def)
  have en: "resolve_translation_loop [?a] e = e" for e using tr by simp
  have d: "direction_of tr en (Some ''script'') [?a] = (False, SW_LANGUAGE_DIRECTION_LTR)"
    using dir root by (simp add: direction_of_def)
  have view: "attr_view tr en ?a = [(''data-swjs'', Some name)]"
    using assms by (simp add: root_attr_view helper_name_ok_def blank_def)
  have "open_view tr en (Some ''script'') [?a] = [(''data-swjs'', Some name)]"
    unfolding open_view_def en d Let_def prod.case using root dir view
    by (simp add: lang_view_def attrs_view_def sw_html_has_internal_direction_attr_def)
  then show ?thesis using assms by (simp add: open_text_def show_attrs_def helper_name_ok_def)
qed

lemma script_with_doctype: "with_doctype ''script'' h = h"
  by (simp add: with_doctype_def needs_doctype_def sw_html_is_root_html_def ctype_simps)

lemma script_switch: "resolve_translation_loop [sw_attr (Some ''data-swjs'') v] en = en"
  using root_attr_names[of "''data-swjs''"] by (simp add: sw_attr_def sw_html_is_internal_attr_def)

lemma raw_chunks_eq: "list_all script_safe ss \<Longrightarrow> raw_chunks ss h = (True, bput (concat ss) h)"
  by (induction ss arbitrary: h) (simp_all add: sw_raw_def cstr_ident script_safe_NUL)

lemma script_scope:
  "sw_html_pop_translation_scope (bput s ((bput a h)\<lparr>bf_translation_enabled := bf_translation_enabled h,
     bf_translation_stack := bf_translation_stack h @ [bf_translation_enabled h]\<rparr>)) = bput (a @ s) h"
  by (simp add: sw_html_pop_translation_scope_def bput_def)

lemma runtime_name_ok: "helper_name_ok ''runtime''"
  by (simp add: helper_name_ok_def escape_def esc_char_def)

definition with_runtime :: "sw_buffer \<Rightarrow> sw_buffer" where
  "with_runtime h = (if bf_js_runtime_emitted h then h
     else (bput (script_element ''runtime'' (concat sw_js_runtime_chunks)) h)\<lparr>bf_js_runtime_emitted := True\<rparr>)"

lemma runtime_eq: "sw_js_runtime h = (True, with_runtime h)"
proof (cases "bf_js_runtime_emitted h")
  case False
  then show ?thesis
    by (simp add: sw_js_runtime_def with_runtime_def sw_tag_eq script_with_doctype script_switch
        script_open_text[OF runtime_name_ok] raw_chunks_eq[OF runtime_chunks_safe] sw_end_eq close_text_def
        script_element_def del: bput_update)
      (simp add: bput_def sw_html_pop_translation_scope_def)
qed (simp add: sw_js_runtime_def with_runtime_def)

lemma initializer_eq:
  assumes "helper_name_ok name" "cstr method_name = method_name" "cstr config = config"
  shows "sw_js_emit_initializer name method_name config h =
    (True, bput (script_element name (''window.__swjsRuntime.'' @ method_name @ ''('' @ config @ '');'')) (with_runtime h))"
  using assms
  by (simp add: sw_js_emit_initializer_def runtime_eq sw_tag_eq script_with_doctype script_switch script_open_text
      sw_rawf_def sw_raw_def sw_end_eq close_text_def script_element_def del: bput_update)
    (simp add: bput_def sw_html_pop_translation_scope_def)

text \<open>
  The result of a helper: the runtime unless it is there, one script element whose body calls
  the helper with the configuration, bodies that cannot end their element, and nothing else
  changed in the buffer.
\<close>

definition emits_script :: "sw_buffer \<Rightarrow> bool \<times> sw_buffer \<Rightarrow> string \<Rightarrow> string \<Rightarrow> (string \<times> js_value) list \<Rightarrow> bool" where
  "emits_script h r name method_name fs \<longleftrightarrow>
     (let runtime = concat sw_js_runtime_chunks;
          body = ''window.__swjsRuntime.'' @ method_name @ ''('' @ config_text fs @ '');''
      in fst r
       \<and> bf_bytes (snd r) = bf_bytes h
           @ (if bf_js_runtime_emitted h then [] else script_element ''runtime'' runtime) @ script_element name body
       \<and> script_safe runtime \<and> script_safe body
       \<and> bf_js_runtime_emitted (snd r)
       \<and> bf_translation_enabled (snd r) = bf_translation_enabled h
       \<and> bf_translation_stack (snd r) = bf_translation_stack h)"

lemma helper_emits:
  assumes "emit ([], True) = (True, config_text fs, False)" "\<forall>f\<in>set fs. field_ok f"
    and "helper_name_ok name" "tame method_name"
  shows "emits_script h (js_helper emit name method_name h) name method_name fs"
proof -
  have config: "tame (config_text fs)" by (rule config_tame[OF assms(2)])
  have body: "script_safe (''window.__swjsRuntime.'' @ method_name @ ''('' @ config_text fs @ '');'')"
    using config assms(4) by (intro script_safe_plain) (auto simp: tame_def)
  have "cstr (config_text fs) = config_text fs" "cstr method_name = method_name"
    using config assms(4) by (auto simp: tame_def intro: cstr_ident)
  with initializer_eq[OF assms(3)] have "js_helper emit name method_name h =
      (True, bput (script_element name (''window.__swjsRuntime.'' @ method_name @ ''('' @ config_text fs @ '');'')) (with_runtime h))"
    by (simp add: js_helper_def assms(1))
  with body script_safe_concat[OF runtime_chunks_safe] show ?thesis
    by (simp add: emits_script_def with_runtime_def Let_def) (simp add: bput_def)
qed

lemma helper_names:
  "helper_name_ok ''live-search''" "helper_name_ok ''fetch-replace''" "helper_name_ok ''toggle''"
  "helper_name_ok ''class-toggle''" "helper_name_ok ''modal''"
  "tame ''liveSearch''" "tame ''fetchReplace''" "tame ''toggle''" "tame ''classToggle''" "tame ''modal''"
  by (simp_all add: helper_name_ok_def escape_def esc_char_def tame_def)

lemmas live_script = helper_emits[where emit = "sw_js_emit_live_config lo" for lo, OF emit_configs(1) fields_ok(1) helper_names(1,6)]
lemmas fetch_script = helper_emits[where emit = "sw_js_emit_fetch_config fo" for fo, OF emit_configs(2) fields_ok(2) helper_names(2,7)]
lemmas toggle_script = helper_emits[where emit = "sw_js_emit_toggle_config tg" for tg, OF emit_configs(3) fields_ok(3) helper_names(3,8)]
lemmas class_script = helper_emits[where emit = "sw_js_emit_class_config co" for co, OF emit_configs(4) fields_ok(4) helper_names(4,9)]
lemmas modal_script = helper_emits[where emit = "sw_js_emit_modal_config mo" for mo, OF emit_configs(5) fields_ok(5) helper_names(5,10)]

section \<open>Properties\<close>

text \<open>
  C27. The configuration that a helper writes is an object literal that reads back as exactly the
  options given to it: every string byte for byte, whatever quotes, backslashes, line breaks or
  control characters it contains, NULL as null, and the numbers and flags.
\<close>

theorem configuration_reads_back:
  "read_all js_step Js_start (fst (snd (sw_js_emit_live_config lo ([], True)))) = (live_fields lo, Js_done)
   \<and> read_all js_step Js_start (fst (snd (sw_js_emit_fetch_config fo ([], True)))) = (fetch_fields fo, Js_done)
   \<and> read_all js_step Js_start (fst (snd (sw_js_emit_toggle_config tg ([], True)))) = (toggle_fields tg, Js_done)
   \<and> read_all js_step Js_start (fst (snd (sw_js_emit_class_config co ([], True)))) = (class_fields co, Js_done)
   \<and> read_all js_step Js_start (fst (snd (sw_js_emit_modal_config mo ([], True)))) = (modal_fields mo, Js_done)"
  by (simp add: emit_configs fields_read fields_ok fields_not_Nil)

text \<open>
  C28. A helper with its required options appends the runtime, unless the buffer has it, and one
  script element that calls the runtime with the configuration; no option value can end the
  element or start a comment in it. Without a required option it fails and the buffer is
  unchanged. The translation switch and its scopes are as before.
\<close>

theorem helpers_emit_scripts:
  "(if lo_input_id lo \<noteq> None \<and> lo_target_id lo \<noteq> None \<and> lo_endpoint lo \<noteq> None
    then emits_script h (sw_js_live (Some lo) h) ''live-search'' ''liveSearch'' (live_fields lo)
    else sw_js_live (Some lo) h = (False, h))
   \<and> (if fo_trigger_id fo \<noteq> None \<and> fo_target_id fo \<noteq> None \<and> fo_endpoint fo \<noteq> None
    then emits_script h (sw_js_fetch (Some fo) h) ''fetch-replace'' ''fetchReplace'' (fetch_fields fo)
    else sw_js_fetch (Some fo) h = (False, h))
   \<and> (if to_trigger_id tg \<noteq> None \<and> to_target_id tg \<noteq> None
    then emits_script h (sw_js_toggle (Some tg) h) ''toggle'' ''toggle'' (toggle_fields tg)
    else sw_js_toggle (Some tg) h = (False, h))
   \<and> (if co_trigger_id co \<noteq> None \<and> co_target_id co \<noteq> None \<and> co_class_name co \<noteq> None
    then emits_script h (sw_js_class (Some co) h) ''class-toggle'' ''classToggle'' (class_fields co)
    else sw_js_class (Some co) h = (False, h))
   \<and> (if mo_trigger_id mo \<noteq> None \<and> mo_target_id mo \<noteq> None
    then emits_script h (sw_js_modal (Some mo) h) ''modal'' ''modal'' (modal_fields mo)
    else sw_js_modal (Some mo) h = (False, h))"
proof (intro conjI)
  show "if lo_input_id lo \<noteq> None \<and> lo_target_id lo \<noteq> None \<and> lo_endpoint lo \<noteq> None
    then emits_script h (sw_js_live (Some lo) h) ''live-search'' ''liveSearch'' (live_fields lo)
    else sw_js_live (Some lo) h = (False, h)"
    unfolding sw_js_live_def option.case using live_script[where lo = lo and h = h] by presburger
  show "if fo_trigger_id fo \<noteq> None \<and> fo_target_id fo \<noteq> None \<and> fo_endpoint fo \<noteq> None
    then emits_script h (sw_js_fetch (Some fo) h) ''fetch-replace'' ''fetchReplace'' (fetch_fields fo)
    else sw_js_fetch (Some fo) h = (False, h)"
    unfolding sw_js_fetch_def option.case using fetch_script[where fo = fo and h = h] by presburger
  show "if to_trigger_id tg \<noteq> None \<and> to_target_id tg \<noteq> None
    then emits_script h (sw_js_toggle (Some tg) h) ''toggle'' ''toggle'' (toggle_fields tg)
    else sw_js_toggle (Some tg) h = (False, h)"
    unfolding sw_js_toggle_def option.case using toggle_script[where tg = tg and h = h] by presburger
  show "if co_trigger_id co \<noteq> None \<and> co_target_id co \<noteq> None \<and> co_class_name co \<noteq> None
    then emits_script h (sw_js_class (Some co) h) ''class-toggle'' ''classToggle'' (class_fields co)
    else sw_js_class (Some co) h = (False, h)"
    unfolding sw_js_class_def option.case using class_script[where co = co and h = h] by presburger
  show "if mo_trigger_id mo \<noteq> None \<and> mo_target_id mo \<noteq> None
    then emits_script h (sw_js_modal (Some mo) h) ''modal'' ''modal'' (modal_fields mo)
    else sw_js_modal (Some mo) h = (False, h)"
    unfolding sw_js_modal_def option.case using modal_script[where mo = mo and h = h] by presburger
qed

end
