(* ===== verification/Manager.thy ===== *)
theory Manager
  imports Timers Response Paths "HOL-Library.Monad_Syntax"
begin

text \<open>
  The connection manager, \<^verbatim>\<open>src/sw_server.c\<close> and the epoll backend \<^verbatim>\<open>src/sw_backend_epoll.c\<close>: what
  happens to a connection between \<^verbatim>\<open>accept\<close> and \<^verbatim>\<open>close\<close>.

  The state \<open>sw_mgr\<close> has the manager's fields and, behind them, the state of what it calls: the
  clock, the kernel's epoll set and sockets, open files, and the state of the application. Answers
  of the kernel that it does not determine itself are queues of the state, consumed in order: what
  \<^verbatim>\<open>recv\<close>, \<^verbatim>\<open>send\<close>, \<^verbatim>\<open>accept\<close>, \<^verbatim>\<open>shutdown\<close> and \<^verbatim>\<open>epoll_ctl\<close> return. An empty queue means "would
  block" for the first three and success for the other two.

  The array of connections is a map from handles, which are never reused. An operation takes
  the handle for the pointer and returns None exactly when the code goes on to use a connection
  that has been freed.

  A manager that belongs to a worker takes over queued sockets at both ends of a round; what its queue
  holds at these two moments is an argument of the round, as the events are. \<open>mg_active_connection_count\<close>
  is the counter of the manager's root, which is the manager itself unless it belongs to a worker.
\<close>

section \<open>State\<close>

datatype recv_answer = Recv_data string | Recv_error

datatype send_answer = Send_count nat | Send_error

datatype accept_answer = Accept_socket int cptr nat | Accept_no_nonblocking int | Accept_error

record 'u sw_mgr =
  mg_config :: sw_server_config
  mg_connections :: "nat \<Rightarrow> sw_connection option"
  mg_next_handle :: nat
  mg_timers :: "sw_timer_entry list"
  mg_stop_requested :: bool
  mg_active_connection_count :: nat
  os_now :: real
  os_ticks :: "real list"
  os_interest :: "int \<Rightarrow> (bool \<times> bool) option"
  os_ctl :: "bool list"
  os_open :: "int \<Rightarrow> bool"
  os_accept :: "nat \<Rightarrow> accept_answer list"
  os_input :: "int \<Rightarrow> recv_answer list"
  os_room :: "int \<Rightarrow> send_answer list"
  os_sent :: "int \<Rightarrow> string"
  os_shutdown :: "bool list"
  os_file :: "nat \<Rightarrow> string option"
  os_next_file :: nat
  mg_user :: 'u

definition put :: "nat \<Rightarrow> sw_connection \<Rightarrow> 'u sw_mgr \<Rightarrow> 'u sw_mgr" where
  "put h c s = s\<lparr>mg_connections := (mg_connections s)(h \<mapsto> c)\<rparr>"

definition sw_now_ms :: "'u sw_mgr \<Rightarrow> real \<times> 'u sw_mgr" where
  "sw_now_ms s = (case os_ticks s of [] \<Rightarrow> (os_now s, s)
     | d # ds \<Rightarrow> (os_now s + d, s\<lparr>os_now := os_now s + d, os_ticks := ds\<rparr>))"

definition fclose :: "nat \<Rightarrow> 'u sw_mgr \<Rightarrow> 'u sw_mgr" where
  "fclose f s = s\<lparr>os_file := (os_file s)(f := None)\<rparr>"

definition sw_socket_close :: "int \<Rightarrow> 'u sw_mgr \<Rightarrow> 'u sw_mgr" where
  "sw_socket_close fd s = s\<lparr>os_open := (os_open s)(fd := False)\<rparr>"

section \<open>The epoll set\<close>

definition sw_backend_connection_events :: "sw_connection \<Rightarrow> bool \<times> bool" where
  "sw_backend_connection_events c = (sw_connection_wants_read c, sw_connection_wants_write c)"

definition epoll_ctl :: "int \<Rightarrow> bool \<times> bool \<Rightarrow> 'u sw_mgr \<Rightarrow> int \<times> 'u sw_mgr" where
  "epoll_ctl fd events s = (case os_ctl s of
       [] \<Rightarrow> (0, s\<lparr>os_interest := (os_interest s)(fd \<mapsto> events)\<rparr>)
     | b # bs \<Rightarrow> if b then (0, s\<lparr>os_interest := (os_interest s)(fd \<mapsto> events), os_ctl := bs\<rparr>)
                 else (-1, s\<lparr>os_ctl := bs\<rparr>))"

definition sw_backend_register_connection :: "sw_connection \<Rightarrow> 'u sw_mgr \<Rightarrow> int \<times> 'u sw_mgr" where
  "sw_backend_register_connection c s = epoll_ctl (c_fd c) (sw_backend_connection_events c) s"

definition sw_backend_update_connection :: "sw_connection \<Rightarrow> 'u sw_mgr \<Rightarrow> int \<times> 'u sw_mgr" where
  "sw_backend_update_connection c s = epoll_ctl (c_fd c) (sw_backend_connection_events c) s"

definition sw_backend_unregister_connection :: "sw_connection \<Rightarrow> 'u sw_mgr \<Rightarrow> 'u sw_mgr" where
  "sw_backend_unregister_connection c s =
     (if c_fd c = -1 then s else s\<lparr>os_interest := (os_interest s)(c_fd c := None)\<rparr>)"

section \<open>Counting connections\<close>

definition sw_mgr_try_reserve_connection :: "'u sw_mgr \<Rightarrow> bool \<times> 'u sw_mgr" where
  "sw_mgr_try_reserve_connection s =
     (let current = mg_active_connection_count s; max_value = max_connections (mg_config s) in
      if max_value > 0 \<and> current \<ge> max_value then (False, s)
      else (True, s\<lparr>mg_active_connection_count := current + 1\<rparr>))"

definition sw_mgr_release_connection :: "'u sw_mgr \<Rightarrow> 'u sw_mgr" where
  "sw_mgr_release_connection s =
     (if mg_active_connection_count s > 0
      then s\<lparr>mg_active_connection_count := mg_active_connection_count s - 1\<rparr> else s)"

section \<open>Timeouts, closing and the registered events\<close>

definition sw_mgr_schedule_connection_timeout :: "nat \<Rightarrow> 'u sw_mgr \<Rightarrow> 'u sw_mgr option" where
  "sw_mgr_schedule_connection_timeout h s = do {
     c \<leftarrow> mg_connections s h;
     case sw_connection_timeout_due_ms (mg_config s) c of
       None \<Rightarrow> Some s
     | Some due \<Rightarrow>
         let c' = c\<lparr>c_timer_generation := c_timer_generation c + 1\<rparr> in
         Some ((put h c' s)\<lparr>mg_timers := sw_timer_heap_push (mg_timers s)
           \<lparr>due_ms = due, connection_handle = h, generation = c_timer_generation c'\<rparr>\<rparr>)
   }"

definition sw_connection_mark_activity :: "nat \<Rightarrow> real \<Rightarrow> 'u sw_mgr \<Rightarrow> 'u sw_mgr option" where
  "sw_connection_mark_activity h now s = do {
     c \<leftarrow> mg_connections s h;
     sw_mgr_schedule_connection_timeout h (put h (c\<lparr>c_last_activity_at_ms := now\<rparr>) s)
   }"

definition sw_connection_reset_request :: "nat \<Rightarrow> 'u sw_mgr \<Rightarrow> 'u sw_mgr option" where
  "sw_connection_reset_request h s = do {
     c \<leftarrow> mg_connections s h;
     let (now, s) = sw_now_ms s;
     sw_mgr_schedule_connection_timeout h (put h (reset_request_fields now c) s)
   }"

definition sw_mgr_close_connection :: "nat \<Rightarrow> 'u sw_mgr \<Rightarrow> 'u sw_mgr option" where
  "sw_mgr_close_connection h s = do {
     c \<leftarrow> mg_connections s h;
     let s = sw_backend_unregister_connection c s;
     let s = (if c_fd c \<noteq> -1 then sw_socket_close (c_fd c) s else s);
     let s = (case c_file_stream c of None \<Rightarrow> s | Some f \<Rightarrow> fclose f s);
     let c = c\<lparr>c_fd := -1, c_file_stream := None\<rparr>;
     s \<leftarrow> sw_connection_reset_request h (put h c s);
     let s = s\<lparr>mg_connections := (mg_connections s)(h := None)\<rparr>;
     Some (if c_counted c then sw_mgr_release_connection s else s)
   }"

definition sw_mgr_sync_connection :: "nat \<Rightarrow> 'u sw_mgr \<Rightarrow> (int \<times> 'u sw_mgr) option" where
  "sw_mgr_sync_connection h s = do {
     let (now, s) = sw_now_ms s;
     s \<leftarrow> sw_mgr_schedule_connection_timeout h s;
     c \<leftarrow> mg_connections s h;
     Some (sw_backend_update_connection c s)
   }"

definition sw_connection_shutdown_send :: "nat \<Rightarrow> 'u sw_mgr \<Rightarrow> (int \<times> 'u sw_mgr) option" where
  "sw_connection_shutdown_send h s = do {
     c \<leftarrow> mg_connections s h;
     if \<not> c_write_shutdown c then
       let (ok, s) = (case os_shutdown s of [] \<Rightarrow> (True, s) | b # bs \<Rightarrow> (b, s\<lparr>os_shutdown := bs\<rparr>)) in
       if \<not> ok then do { s \<leftarrow> sw_mgr_close_connection h s; Some (-1, s) }
       else do {
         let s = put h (c\<lparr>c_write_shutdown := True, c_close_after_write := False\<rparr>) s;
         let (now, s) = sw_now_ms s;
         s \<leftarrow> sw_connection_mark_activity h now s;
         sw_mgr_sync_connection h s
       }
     else sw_mgr_sync_connection h s
   }"

text \<open>What is left of the answers when discarding stops, and whether the connection is lost.\<close>

fun discard_loop :: "recv_answer list \<Rightarrow> bool \<times> recv_answer list" where
  "discard_loop [] = (False, [])"
| "discard_loop (Recv_error # rest) = (True, rest)"
| "discard_loop (Recv_data d # rest) = (if d \<noteq> [] then discard_loop rest else (True, rest))"

definition sw_connection_discard_available_plain_input :: "nat \<Rightarrow> 'u sw_mgr \<Rightarrow> (int \<times> 'u sw_mgr) option" where
  "sw_connection_discard_available_plain_input h s = do {
     c \<leftarrow> mg_connections s h;
     let (lost, rest) = discard_loop (os_input s (c_fd c));
     let s = s\<lparr>os_input := (os_input s)(c_fd c := rest)\<rparr>;
     if lost then do { s \<leftarrow> sw_mgr_close_connection h s; Some (-1, s) } else Some (0, s)
   }"

section \<open>Replies\<close>

definition sw_http_reply :: "nat \<Rightarrow> int \<Rightarrow> cptr \<Rightarrow> string \<Rightarrow> 'u sw_mgr \<Rightarrow> (int \<times> 'u sw_mgr) option" where
  "sw_http_reply h status_code content_type body s = do {
     c \<leftarrow> mg_connections s h;
     let (rc, c) = sw_connection_begin_response (mg_config s) c status_code content_type (length body);
     if rc \<noteq> 0 then Some (-1, put h c s)
     else do {
       let (ok, c) = (if length body > 0 then sw_connection_append_output (mg_config s) c body else (True, c));
       let s = put h c s;
       if \<not> ok then Some (-1, s)
       else do {
         let (now, s) = sw_now_ms s;
         s \<leftarrow> sw_connection_mark_activity h now s;
         sw_mgr_sync_connection h s
       }
     }
   }"

text \<open>\<^verbatim>\<open>sw_http_replyf\<close> with the text its format produces.\<close>

definition sw_http_replyf :: "nat \<Rightarrow> int \<Rightarrow> cptr \<Rightarrow> string \<Rightarrow> 'u sw_mgr \<Rightarrow> (int \<times> 'u sw_mgr) option" where
  "sw_http_replyf h status_code content_type formatted s =
     sw_http_reply h status_code content_type (cstr formatted) s"

definition sw_http_reply_status_text :: "nat \<Rightarrow> int \<Rightarrow> string \<Rightarrow> 'u sw_mgr \<Rightarrow> (int \<times> 'u sw_mgr) option" where
  "sw_http_reply_status_text h status_code body s = do {
     (rc, s) \<leftarrow> sw_http_replyf h status_code (Some ''text/plain; charset=utf-8'') body s;
     if rc \<noteq> 0 then do { s \<leftarrow> sw_mgr_close_connection h s; Some (-1, s) } else Some (0, s)
   }"

text \<open>A call that only queues a header or a cookie.\<close>

definition queue_call ::
  "nat \<Rightarrow> (sw_connection option \<Rightarrow> int \<times> sw_connection option) \<Rightarrow> 'u sw_mgr \<Rightarrow> (int \<times> 'u sw_mgr) option" where
  "queue_call h f s = do {
     c \<leftarrow> mg_connections s h;
     let (rc, c') = f (Some c);
     Some (rc, put h (the c') s)
   }"

definition sw_http_redirect :: "nat \<Rightarrow> cptr \<Rightarrow> 'u sw_mgr \<Rightarrow> (int \<times> 'u sw_mgr) option" where
  "sw_http_redirect h location s =
     (case location of None \<Rightarrow> Some (-1, s)
      | Some l \<Rightarrow>
          if cstr l = [] then Some (-1, s)
          else do {
            (rc, s) \<leftarrow> queue_call h (\<lambda>c. sw_http_set_header c (Some ''Location'') location) s;
            if rc \<noteq> 0 then Some (-1, s)
            else sw_http_reply h 303 (Some ''text/plain; charset=utf-8'') [] s
          })"

definition sw_http_write :: "nat \<Rightarrow> string \<Rightarrow> 'u sw_mgr \<Rightarrow> (int \<times> 'u sw_mgr) option" where
  "sw_http_write h data s = do {
     c \<leftarrow> mg_connections s h;
     let (ok, c) = sw_connection_append_output (mg_config s) (c\<lparr>c_must_close := True, c_close_after_write := True\<rparr>) data;
     let s = put h c s;
     if \<not> ok then Some (-1, s)
     else do {
       let (now, s) = sw_now_ms s;
       s \<leftarrow> sw_connection_mark_activity h now s;
       sw_mgr_sync_connection h s
     }
   }"

definition sw_http_printf :: "nat \<Rightarrow> string \<Rightarrow> 'u sw_mgr \<Rightarrow> (int \<times> 'u sw_mgr) option" where
  "sw_http_printf h formatted s = do {
     c \<leftarrow> mg_connections s h;
     let c = c\<lparr>c_write_buffer := c_write_buffer c @ cstr formatted, c_must_close := True, c_close_after_write := True\<rparr>;
     let s = put h c s;
     if \<not> sw_connection_can_append_output (mg_config s) c 0 then Some (-1, s)
     else do {
       let (now, s) = sw_now_ms s;
       s \<leftarrow> sw_connection_mark_activity h now s;
       sw_mgr_sync_connection h s
     }
   }"

section \<open>Files\<close>

text \<open>
  The file system the code sees: \<^verbatim>\<open>realpath\<close>, \<^verbatim>\<open>stat\<close> (a directory or the size of a file) and the bytes
  \<^verbatim>\<open>fopen\<close> gives to read. An open file is the number of its stream; \<open>os_file\<close> has its unread rest.
\<close>

datatype file_stat = Directory | Regular nat

record file_system =
  fs_realpath :: "string \<Rightarrow> cptr"
  fs_stat :: "string \<Rightarrow> file_stat option"
  fs_open :: "string \<Rightarrow> string option"

definition fread :: "nat \<Rightarrow> nat \<Rightarrow> 'u sw_mgr \<Rightarrow> string \<times> 'u sw_mgr" where
  "fread n f s = (case os_file s f of None \<Rightarrow> ([], s)
     | Some rest \<Rightarrow> (take n rest, s\<lparr>os_file := (os_file s)(f \<mapsto> drop n rest)\<rparr>))"

definition fopen :: "file_system \<Rightarrow> string \<Rightarrow> 'u sw_mgr \<Rightarrow> nat option \<times> 'u sw_mgr" where
  "fopen fs path s = (case fs_open fs path of None \<Rightarrow> (None, s)
     | Some content \<Rightarrow> (Some (os_next_file s),
         s\<lparr>os_file := (os_file s)(os_next_file s \<mapsto> content), os_next_file := os_next_file s + 1\<rparr>))"

text \<open>
  The loop that fills the write buffer from the file runs at most once: it reads only into an empty
  buffer, and what it reads is not empty.
\<close>

definition sw_connection_fill_file_buffer :: "nat \<Rightarrow> 'u sw_mgr \<Rightarrow> (int \<times> 'u sw_mgr) option" where
  "sw_connection_fill_file_buffer h s = do {
     c \<leftarrow> mg_connections s h;
     case c_file_stream c of
       None \<Rightarrow> Some (0, s)
     | Some f \<Rightarrow>
         if length (c_write_buffer c) > 0 then Some (0, s)
         else if c_file_remaining c > 0 then
           let (chunk, s) = fread (if c_file_remaining c < 16384 then c_file_remaining c else 16384) f s in
           if length chunk = 0 then Some (0, put h (c\<lparr>c_file_stream := None, c_file_remaining := 0\<rparr>) (fclose f s))
           else
             let c = c\<lparr>c_file_remaining := c_file_remaining c - length chunk\<rparr>;
                 (ok, c) = sw_connection_append_output (mg_config s) c chunk
             in if \<not> ok then Some (-1, put h (c\<lparr>c_file_stream := None, c_file_remaining := 0\<rparr>) (fclose f s))
                else if c_file_remaining c = 0 then Some (0, put h (c\<lparr>c_file_stream := None\<rparr>) (fclose f s))
                else Some (0, put h c s)
         else Some (0, put h (c\<lparr>c_file_stream := None\<rparr>) (fclose f s))
   }"

definition sw_http_send_file :: "file_system \<Rightarrow> nat \<Rightarrow> string \<Rightarrow> 'u sw_mgr \<Rightarrow> (int \<times> 'u sw_mgr) option" where
  "sw_http_send_file fs h path s =
     (case fs_stat fs path of
        None \<Rightarrow> sw_http_replyf h 404 (Some ''text/plain; charset=utf-8'') ''File not found'' s
      | Some Directory \<Rightarrow> sw_http_replyf h 403 (Some ''text/plain; charset=utf-8'') ''Directory listing not allowed'' s
      | Some (Regular st_size) \<Rightarrow>
          if st_size > SIZE_MAX then sw_http_reply_status_text h 413 ''Payload Too Large'' s
          else (case fopen fs path s of
            (None, s) \<Rightarrow> sw_http_replyf h 403 (Some ''text/plain; charset=utf-8'') ''Cannot open file'' s
          | (Some file, s) \<Rightarrow> do {
              c \<leftarrow> mg_connections s h;
              let (rc, c) = sw_connection_begin_response (mg_config s) c 200 (Some (sw_guess_content_type path)) st_size;
              if rc \<noteq> 0 then Some (-1, fclose file (put h c s))
              else do {
                let s = (case c_file_stream c of None \<Rightarrow> s | Some f \<Rightarrow> fclose f s);
                let s = put h (c\<lparr>c_file_stream := Some file, c_file_remaining := st_size\<rparr>) s;
                (rc, s) \<leftarrow> sw_connection_fill_file_buffer h s;
                if rc < 0 then Some (-1, s)
                else do {
                  let (now, s) = sw_now_ms s;
                  s \<leftarrow> sw_connection_mark_activity h now s;
                  sw_mgr_sync_connection h s
                }
              }
            }))"

definition serve_path :: "file_system \<Rightarrow> nat \<Rightarrow> cptr \<Rightarrow> cptr \<Rightarrow> 'u sw_mgr \<Rightarrow> (int \<times> 'u sw_mgr) option" where
  "serve_path fs h docroot request_path s =
     (case sw_http_serve_path (fs_realpath fs) (\<lambda>p. fs_stat fs p \<noteq> None) docroot request_path of
        Refused \<Rightarrow> Some (-1, s)
      | Reply_status status body \<Rightarrow> sw_http_reply_status_text h status body s
      | Send_file path \<Rightarrow> sw_http_send_file fs h path s)"

section \<open>Handlers\<close>

text \<open>
  A handler is a parameter: the calls of the interface it makes on its connection, each depending
  on the results of those before it.
\<close>

datatype api_call =
    Reply int cptr string
  | Replyf int cptr string
  | Redirect cptr
  | Write string
  | Printf string
  | Serve_path cptr cptr
  | Set_header cptr cptr
  | Set_cookie cptr cptr "sw_http_cookie option"
  | Clear_cookie cptr "sw_http_cookie option"
  | Set_user_data nat

datatype program = Finish | Call api_call "int \<Rightarrow> program"

record 'u application =
  app_files :: file_system
  app_handler :: "nat \<Rightarrow> sw_http_message \<Rightarrow> 'u \<Rightarrow> program \<times> 'u"

definition call_api :: "file_system \<Rightarrow> nat \<Rightarrow> api_call \<Rightarrow> 'u sw_mgr \<Rightarrow> (int \<times> 'u sw_mgr) option" where
  "call_api fs h call s =
     (case call of
        Reply st ct body \<Rightarrow> sw_http_reply h st ct body s
      | Replyf st ct formatted \<Rightarrow> sw_http_replyf h st ct formatted s
      | Redirect l \<Rightarrow> sw_http_redirect h l s
      | Write data \<Rightarrow> sw_http_write h data s
      | Printf formatted \<Rightarrow> sw_http_printf h formatted s
      | Serve_path docroot path \<Rightarrow> serve_path fs h docroot path s
      | Set_header n v \<Rightarrow> queue_call h (\<lambda>c. sw_http_set_header c n v) s
      | Set_cookie n v opts \<Rightarrow> queue_call h (\<lambda>c. sw_http_set_cookie c n v opts) s
      | Clear_cookie n opts \<Rightarrow> queue_call h (\<lambda>c. sw_http_clear_cookie c n opts) s
      | Set_user_data n \<Rightarrow> queue_call h (\<lambda>c. (0, sw_connection_set_user_data c n)) s)"

primrec run_program :: "file_system \<Rightarrow> nat \<Rightarrow> program \<Rightarrow> 'u sw_mgr \<Rightarrow> 'u sw_mgr option" where
  "run_program fs h Finish s = Some s"
| "run_program fs h (Call a k) s = (case call_api fs h a s of None \<Rightarrow> None | Some (rc, s') \<Rightarrow> run_program fs h (k rc) s')"

definition sw_connection_dispatch_request :: "'u application \<Rightarrow> nat \<Rightarrow> 'u sw_mgr \<Rightarrow> (int \<times> 'u sw_mgr) option" where
  "sw_connection_dispatch_request A h s = do {
     c \<leftarrow> mg_connections s h;
     if \<not> c_request_ready c \<or> c_request_dispatched c then Some (0, s)
     else
       let s = put h (c\<lparr>c_request_dispatched := True\<rparr>) s in
       if c_has_handler c then do {
         let (prog, user) = app_handler A (c_listener c) (c_request c) (mg_user s);
         s \<leftarrow> run_program (app_files A) h prog (s\<lparr>mg_user := user\<rparr>);
         sw_mgr_sync_connection h s
       }
       else Some (0, s)
   }"

section \<open>Input\<close>

text \<open>The parser applied to the read buffer, with the phase change when the headers are complete.\<close>

definition headers_just_complete :: "sw_server_config \<Rightarrow> sw_connection \<Rightarrow> bool" where
  "headers_just_complete cfg c \<longleftrightarrow> \<not> c_headers_complete c \<and>
     (case sw_find_bytes (c_read_buffer c) crlf2 of None \<Rightarrow> False | Some header_end \<Rightarrow> header_end + 4 \<le> max_header_bytes cfg)"

definition sw_connection_try_parse_request :: "nat \<Rightarrow> 'u sw_mgr \<Rightarrow> (sw_parse_result \<times> 'u sw_mgr) option" where
  "sw_connection_try_parse_request h s = do {
     c \<leftarrow> mg_connections s h;
     if c_request_ready c then Some (SW_PARSE_READY, s)
     else do {
       s \<leftarrow> (if headers_just_complete (mg_config s) c then
               let (now, s) = sw_now_ms s in
               sw_mgr_schedule_connection_timeout h (put h (c\<lparr>c_headers_complete := True, c_phase_started_at_ms := now\<rparr>) s)
             else Some s);
       c \<leftarrow> mg_connections s h;
       Some (case parse_request (mg_config s) (c_read_buffer c) of
           Stop r \<Rightarrow> (r, s)
         | Parsed m n \<Rightarrow> (SW_PARSE_READY,
             put h (c\<lparr>c_request := m, c_request_ready := True, c_parsed_request_bytes := n\<rparr>) s)
         | Streamed m n \<Rightarrow> (SW_PARSE_READY,
             put h (c\<lparr>c_request := m, c_request_ready := True, c_must_close := True, c_parsed_request_bytes := 0,
               c_read_buffer := drop n (c_read_buffer c)\<rparr>) s))
     }
   }"

definition refuse_request :: "nat \<Rightarrow> int \<Rightarrow> string \<Rightarrow> 'u sw_mgr \<Rightarrow> (int \<times> 'u sw_mgr) option" where
  "refuse_request h status_code body s = do {
     c \<leftarrow> mg_connections s h;
     (rc, s) \<leftarrow> sw_http_reply_status_text h status_code body (put h (c\<lparr>c_must_close := True\<rparr>) s);
     Some (0, s)
   }"

definition sw_connection_process_input :: "'u application \<Rightarrow> nat \<Rightarrow> 'u sw_mgr \<Rightarrow> (int \<times> 'u sw_mgr) option" where
  "sw_connection_process_input A h s = do {
     c \<leftarrow> mg_connections s h;
     if sw_connection_has_pending_output c then Some (0, s)
     else if c_request_ready c then sw_connection_dispatch_request A h s
     else do {
       (r, s) \<leftarrow> sw_connection_try_parse_request h s;
       case r of
         SW_PARSE_READY \<Rightarrow> sw_connection_dispatch_request A h s
       | SW_PARSE_PENDING \<Rightarrow> Some (0, s)
       | SW_PARSE_HEADERS_TOO_LARGE \<Rightarrow> refuse_request h 431 ''Request Header Fields Too Large'' s
       | SW_PARSE_TOO_MANY_HEADERS \<Rightarrow> refuse_request h 431 ''Request Header Fields Too Large'' s
       | SW_PARSE_PAYLOAD_TOO_LARGE \<Rightarrow> refuse_request h 413 ''Payload Too Large'' s
       | SW_PARSE_BAD_REQUEST \<Rightarrow> do {
           c \<leftarrow> mg_connections s h;
           (rc, s) \<leftarrow> sw_http_replyf h 400 (Some ''text/plain; charset=utf-8'') ''Bad Request'' (put h (c\<lparr>c_must_close := True\<rparr>) s);
           (rc, s) \<leftarrow> sw_mgr_sync_connection h s;
           Some (0, s)
         }
     }
   }"

text \<open>The receive loop over the answers \<^verbatim>\<open>recv\<close> gives during the call.\<close>

fun readable_loop ::
  "'u application \<Rightarrow> nat \<Rightarrow> recv_answer list \<Rightarrow> bool \<Rightarrow> 'u sw_mgr \<Rightarrow> (int \<times> 'u sw_mgr) option" where
  "readable_loop A h [] read_any s = do {
     c \<leftarrow> mg_connections s h;
     if \<not> read_any \<and> \<not> c_request_ready c then Some (0, s) else sw_connection_process_input A h s
   }"
| "readable_loop A h (answer # rest) read_any s = do {
     c \<leftarrow> mg_connections s h;
     let s = s\<lparr>os_input := (os_input s)(c_fd c := rest)\<rparr>;
     let chunk = (case answer of Recv_error \<Rightarrow> [] | Recv_data d \<Rightarrow> take 4096 d);
     if chunk = [] then do { s \<leftarrow> sw_mgr_close_connection h s; Some (-1, s) }
     else do {
       let (c, s) = (if c_request_started c then (c, s)
         else let (now, s) = sw_now_ms s in (c\<lparr>c_request_started := True, c_phase_started_at_ms := now\<rparr>, s));
       let s = put h c s;
       if max_read_buffer_bytes (mg_config s) > 0
          \<and> (length chunk > SIZE_MAX - length (c_read_buffer c)
             \<or> length (c_read_buffer c) + length chunk > max_read_buffer_bytes (mg_config s))
       then refuse_request h 413 ''Payload Too Large'' s
       else do {
         let s = put h (c\<lparr>c_read_buffer := c_read_buffer c @ chunk\<rparr>) s;
         let (now, s) = sw_now_ms s;
         s \<leftarrow> sw_connection_mark_activity h now s;
         (rc, s) \<leftarrow> sw_connection_process_input A h s;
         if rc < 0 then Some (-1, s)
         else do {
           c \<leftarrow> mg_connections s h;
           if sw_connection_has_pending_output c \<or> c_request_ready c then Some (0, s)
           else readable_loop A h rest True s
         }
       }
     }
   }"

definition sw_mgr_connection_readable :: "'u application \<Rightarrow> nat \<Rightarrow> 'u sw_mgr \<Rightarrow> (int \<times> 'u sw_mgr) option" where
  "sw_mgr_connection_readable A h s = do {
     c \<leftarrow> mg_connections s h;
     if c_write_shutdown c then sw_connection_discard_available_plain_input h s
     else readable_loop A h (os_input s (c_fd c)) False s
   }"

section \<open>Output\<close>

definition sw_connection_finish_response :: "'u application \<Rightarrow> nat \<Rightarrow> 'u sw_mgr \<Rightarrow> (int \<times> 'u sw_mgr) option" where
  "sw_connection_finish_response A h s = do {
     c \<leftarrow> mg_connections s h;
     if sw_connection_has_pending_output c then Some (0, s)
     else if \<not> c_response_started c then
       (if c_close_after_write c then sw_connection_shutdown_send h s else sw_mgr_sync_connection h s)
     else do {
       let c = c\<lparr>c_handled_requests := c_handled_requests c + 1\<rparr>;
       if c_close_after_write c then sw_connection_shutdown_send h (put h c s)
       else do {
         let c = (if c_parsed_request_bytes c > 0
           then c\<lparr>c_read_buffer := drop (c_parsed_request_bytes c) (c_read_buffer c)\<rparr> else c);
         s \<leftarrow> sw_connection_reset_request h (put h c s);
         c \<leftarrow> mg_connections s h;
         if length (c_read_buffer c) > 0 then do {
           let (now, s) = sw_now_ms s;
           sw_connection_process_input A h (put h (c\<lparr>c_request_started := True, c_phase_started_at_ms := now\<rparr>) s)
         }
         else sw_mgr_sync_connection h s
       }
     }
   }"

definition fill_or_close :: "nat \<Rightarrow> 'u sw_mgr \<Rightarrow> (bool \<times> 'u sw_mgr) option" where
  "fill_or_close h s = do {
     (rc, s) \<leftarrow> sw_connection_fill_file_buffer h s;
     if rc < 0 then do { s \<leftarrow> sw_mgr_close_connection h s; Some (False, s) } else Some (True, s)
   }"

text \<open>
  The send loop over the answers \<^verbatim>\<open>send\<close> gives during the call; the result tells whether the
  connection is still there. \<^verbatim>\<open>send\<close> takes at least one byte when it takes any.
\<close>

fun writable_loop :: "nat \<Rightarrow> send_answer list \<Rightarrow> 'u sw_mgr \<Rightarrow> (bool \<times> 'u sw_mgr) option" where
  "writable_loop h [] s = do { c \<leftarrow> mg_connections s h; Some (True, s) }"
| "writable_loop h (answer # rest) s = do {
     c \<leftarrow> mg_connections s h;
     if length (c_write_buffer c) = 0 then Some (True, s)
     else
       let s = s\<lparr>os_room := (os_room s)(c_fd c := rest)\<rparr> in
       case answer of
         Send_error \<Rightarrow> do { s \<leftarrow> sw_mgr_close_connection h s; Some (False, s) }
       | Send_count k \<Rightarrow> do {
           let data = take INT_MAX (c_write_buffer c);
           let n = min (max 1 k) (length data);
           let s = s\<lparr>os_sent := (os_sent s)(c_fd c := os_sent s (c_fd c) @ take n data)\<rparr>;
           let (now, s) = sw_now_ms s;
           s \<leftarrow> sw_connection_mark_activity h now s;
           c \<leftarrow> mg_connections s h;
           let c = c\<lparr>c_write_buffer := drop n (c_write_buffer c)\<rparr>;
           let s = put h c s;
           (alive, s) \<leftarrow> (if length (c_write_buffer c) = 0 then fill_or_close h s else Some (True, s));
           if alive then writable_loop h rest s else Some (False, s)
         }
   }"

definition sw_mgr_connection_writable :: "'u application \<Rightarrow> nat \<Rightarrow> 'u sw_mgr \<Rightarrow> (int \<times> 'u sw_mgr) option" where
  "sw_mgr_connection_writable A h s = do {
     (alive, s) \<leftarrow> fill_or_close h s;
     if \<not> alive then Some (-1, s)
     else do {
       c \<leftarrow> mg_connections s h;
       (alive, s) \<leftarrow> writable_loop h (os_room s (c_fd c)) s;
       if \<not> alive then Some (-1, s)
       else do {
         c \<leftarrow> mg_connections s h;
         (alive, s) \<leftarrow> (if length (c_write_buffer c) = 0 then fill_or_close h s else Some (True, s));
         if \<not> alive then Some (-1, s)
         else do {
           c \<leftarrow> mg_connections s h;
           if length (c_write_buffer c) = 0 \<and> c_file_stream c = None then sw_connection_finish_response A h s
           else do { (rc, s) \<leftarrow> sw_mgr_sync_connection h s; Some (0, s) }
         }
       }
     }
   }"

section \<open>Accepting connections\<close>

record sw_listener =
  ls_has_handler :: bool
  ls_tls_enabled :: bool

definition sw_connection_create ::
  "sw_listener \<Rightarrow> nat \<Rightarrow> int \<Rightarrow> cptr \<Rightarrow> nat \<Rightarrow> bool \<Rightarrow> 'u sw_mgr \<Rightarrow> nat option \<times> 'u sw_mgr" where
  "sw_connection_create L l fd remote_ip remote_port counted s =
     (let (now, s) = sw_now_ms s;
          c = new_connection fd l (ls_has_handler L) (ls_tls_enabled L) remote_ip remote_port counted now;
          h = mg_next_handle s;
          s = put h c (s\<lparr>mg_next_handle := h + 1\<rparr>);
          (rc, s) = sw_backend_register_connection c s
      in if rc \<noteq> 0 then (None, s\<lparr>mg_connections := (mg_connections s)(h := None)\<rparr>)
         else (case sw_mgr_schedule_connection_timeout h s of None \<Rightarrow> (None, s) | Some s \<Rightarrow> (Some h, s)))"

text \<open>Without worker threads a connection is created by the manager that accepted it.\<close>

definition sw_mgr_dispatch_connection ::
  "sw_listener \<Rightarrow> nat \<Rightarrow> int \<Rightarrow> cptr \<Rightarrow> nat \<Rightarrow> bool \<Rightarrow> 'u sw_mgr \<Rightarrow> int \<times> 'u sw_mgr" where
  "sw_mgr_dispatch_connection L l fd remote_ip remote_port counted s =
     (if fd = -1 then (-1, s)
      else case sw_connection_create L l fd remote_ip remote_port counted s of
        (None, s) \<Rightarrow> (-1, s) | (Some h, s) \<Rightarrow> (0, s))"

fun accept_loop :: "sw_listener \<Rightarrow> nat \<Rightarrow> accept_answer list \<Rightarrow> 'u sw_mgr \<Rightarrow> int \<times> 'u sw_mgr" where
  "accept_loop L l [] s = (0, s)"
| "accept_loop L l (Accept_error # rest) s = (-1, s\<lparr>os_accept := (os_accept s)(l := rest)\<rparr>)"
| "accept_loop L l (Accept_no_nonblocking fd # rest) s =
     accept_loop L l rest (s\<lparr>os_accept := (os_accept s)(l := rest)\<rparr>)"
| "accept_loop L l (Accept_socket fd host port # rest) s =
     (let s = s\<lparr>os_accept := (os_accept s)(l := rest), os_open := (os_open s)(fd := True)\<rparr>;
          (ok, s) = sw_mgr_try_reserve_connection s
      in if \<not> ok then accept_loop L l rest (sw_socket_close fd s)
         else let (rc, s) = sw_mgr_dispatch_connection L l fd host port True s in
           if rc \<noteq> 0 then (-1, sw_socket_close fd (sw_mgr_release_connection s))
           else accept_loop L l rest s)"

definition sw_mgr_accept_ready :: "sw_listener \<Rightarrow> nat \<Rightarrow> 'u sw_mgr \<Rightarrow> int \<times> 'u sw_mgr" where
  "sw_mgr_accept_ready L l s = accept_loop L l (os_accept s l) s"

text \<open>Sockets that the accept thread has queued for the worker the manager belongs to.\<close>

fun drain_loop :: "(nat \<Rightarrow> sw_listener) \<Rightarrow> sw_pending_connection list \<Rightarrow> 'u sw_mgr \<Rightarrow> 'u sw_mgr" where
  "drain_loop Ls [] s = s"
| "drain_loop Ls (p # rest) s =
     (case sw_connection_create (Ls (pc_listener p)) (pc_listener p) (pc_fd p) (Some (pc_remote_ip p))
         (pc_remote_port p) (pc_counted p) s of
        (Some h, s) \<Rightarrow> drain_loop Ls rest s
      | (None, s) \<Rightarrow>
          let s = (if pc_counted p then sw_mgr_release_connection s else s)
          in drain_loop Ls rest (sw_socket_close (pc_fd p) s))"

definition sw_mgr_drain_pending_connections ::
  "(nat \<Rightarrow> sw_listener) \<Rightarrow> sw_pending_connection list option \<Rightarrow> 'u sw_mgr \<Rightarrow> 'u sw_mgr" where
  "sw_mgr_drain_pending_connections Ls worker_queue s =
     (case worker_queue of None \<Rightarrow> s | Some pending \<Rightarrow> drain_loop Ls pending s)"

lemma drain_no_worker [simp]: "sw_mgr_drain_pending_connections Ls None s = s"
  by (simp add: sw_mgr_drain_pending_connections_def)

section \<open>Expired connections\<close>

text \<open>Whether the entry at the root is still the current timer of a live connection.\<close>

definition timer_valid :: "'u sw_mgr \<Rightarrow> sw_timer_entry \<Rightarrow> bool" where
  "timer_valid s e = (case mg_connections s (connection_handle e) of
       None \<Rightarrow> False
     | Some c \<Rightarrow> c_timer_generation c = generation e
         \<and> sw_connection_timeout_due_ms (mg_config s) c = Some (due_ms e))"

definition pop_timer :: "sw_timer_entry list \<Rightarrow> sw_timer_entry list" where
  "pop_timer ts = (case sw_timer_heap_pop ts of None \<Rightarrow> ts | Some (e, ts') \<Rightarrow> ts')"

lemma pop_timer_shorter: "ts \<noteq> [] \<Longrightarrow> length (pop_timer ts) < length ts"
  by (auto simp: pop_timer_def heap_pop_None dest: heap_pop_length split: option.split)

function sw_mgr_peek_timer :: "'u sw_mgr \<Rightarrow> sw_timer_entry option \<times> 'u sw_mgr" where
  "sw_mgr_peek_timer s =
     (if mg_timers s = [] then (None, s)
      else if \<not> timer_valid s (mg_timers s ! 0) then sw_mgr_peek_timer (s\<lparr>mg_timers := pop_timer (mg_timers s)\<rparr>)
      else (Some (mg_timers s ! 0), s))"
  by pat_completeness auto
termination
  by (relation "measure (\<lambda>s. length (mg_timers s))") (auto simp: pop_timer_shorter)

declare sw_mgr_peek_timer.simps [simp del]

text \<open>What happens to one connection whose time is over.\<close>

definition expire_connection :: "'u application \<Rightarrow> nat \<Rightarrow> 'u sw_mgr \<Rightarrow> 'u sw_mgr option" where
  "expire_connection A h s = do {
     c \<leftarrow> mg_connections s h;
     if c_write_shutdown c \<or> sw_connection_has_pending_output c then sw_mgr_close_connection h s
     else if \<not> c_request_started c then sw_mgr_close_connection h s
     else do {
       (rc, s) \<leftarrow> sw_connection_discard_available_plain_input h (put h (c\<lparr>c_must_close := True\<rparr>) s);
       if rc < 0 then Some s
       else do {
         (rc, s) \<leftarrow> sw_http_reply_status_text h 408 ''Request Timeout'' s;
         if rc \<noteq> 0 then Some s
         else do {
           c \<leftarrow> mg_connections s h;
           if sw_connection_has_pending_output c
           then do { (rc, s) \<leftarrow> sw_mgr_connection_writable A h s; Some s }
           else Some s
         }
       }
     }
   }"

text \<open>
  The loop over the due timers; the result tells whether it ended within \<open>fuel\<close> rounds. Twice the
  number of live connections and one more are enough: a round closes a connection or leaves it
  with output pending or half closed, and then the next round closes it.
\<close>

fun expire_loop :: "nat \<Rightarrow> 'u application \<Rightarrow> real \<Rightarrow> 'u sw_mgr \<Rightarrow> (bool \<times> 'u sw_mgr) option" where
  "expire_loop 0 A now s = Some (False, s)"
| "expire_loop (Suc fuel) A now s =
     (case sw_mgr_peek_timer s of
        (None, s) \<Rightarrow> Some (True, s)
      | (Some e, s) \<Rightarrow>
          if due_ms e > now then Some (True, s)
          else do {
            s \<leftarrow> expire_connection A (connection_handle e) (s\<lparr>mg_timers := pop_timer (mg_timers s)\<rparr>);
            expire_loop fuel A now s
          })"

definition live :: "'u sw_mgr \<Rightarrow> nat list" where
  "live s = filter (\<lambda>h. mg_connections s h \<noteq> None) [0..<mg_next_handle s]"

definition sw_mgr_expire_timeouts :: "'u application \<Rightarrow> 'u sw_mgr \<Rightarrow> (bool \<times> 'u sw_mgr) option" where
  "sw_mgr_expire_timeouts A s =
     (let (now, s) = sw_now_ms s in expire_loop (2 * length (live s) + 1) A now s)"

definition sw_mgr_effective_poll_timeout :: "int \<Rightarrow> 'u sw_mgr \<Rightarrow> int \<times> 'u sw_mgr" where
  "sw_mgr_effective_poll_timeout timeout_ms s =
     (let (now, s) = sw_now_ms s in
      case sw_mgr_peek_timer s of
        (None, s) \<Rightarrow> (timeout_ms, s)
      | (Some e, s) \<Rightarrow>
          let remaining = due_ms e - now;
              remaining_ms = (if remaining \<le> 0 then 0
                else if remaining > of_nat INT_MAX then int INT_MAX else \<lfloor>remaining\<rfloor>)
          in (if timeout_ms < 0 \<or> remaining_ms < timeout_ms then remaining_ms else timeout_ms, s))"

section \<open>The event loop\<close>

text \<open>
  An event of epoll: its source, and for a connection whether an error or a hang-up is reported and
  whether it is readable and writable.
\<close>

datatype event = Listener_event nat | Connection_event nat bool bool bool

definition handle_event :: "'u application \<Rightarrow> nat \<Rightarrow> bool \<Rightarrow> bool \<Rightarrow> bool \<Rightarrow> 'u sw_mgr \<Rightarrow> 'u sw_mgr option" where
  "handle_event A h hup readable writable s =
     (if hup then sw_mgr_close_connection h s
      else do {
        (rc, s) \<leftarrow> (if readable then sw_mgr_connection_readable A h s else Some (0, s));
        if rc < 0 then Some s
        else do {
          (rc, s) \<leftarrow> (if writable then sw_mgr_connection_writable A h s else Some (0, s));
          Some s
        }
      })"

fun sw_backend_poll ::
  "'u application \<Rightarrow> (nat \<Rightarrow> sw_listener) \<Rightarrow> event list \<Rightarrow> 'u sw_mgr \<Rightarrow> (bool \<times> 'u sw_mgr) option" where
  "sw_backend_poll A Ls [] s = Some (True, s)"
| "sw_backend_poll A Ls (Listener_event l # events) s =
     (case sw_mgr_accept_ready (Ls l) l s of (rc, s) \<Rightarrow>
        if rc < 0 then Some (False, s) else sw_backend_poll A Ls events s)"
| "sw_backend_poll A Ls (Connection_event h hup r w # events) s = do {
     s \<leftarrow> handle_event A h hup r w s;
     sw_backend_poll A Ls events s
   }"

text \<open>
  One round of the manager. \<open>queues\<close> is None for a manager without a worker; otherwise it is what the
  worker's queue holds at the first and at the second drain. The wait fails when \<open>events\<close> is None.
\<close>

definition sw_mgr_poll ::
  "'u application \<Rightarrow> (nat \<Rightarrow> sw_listener) \<Rightarrow> (sw_pending_connection list \<times> sw_pending_connection list) option \<Rightarrow>
     int \<Rightarrow> event list option \<Rightarrow> 'u sw_mgr \<Rightarrow> (int \<times> 'u sw_mgr) option" where
  "sw_mgr_poll A Ls queues timeout_ms events s =
     (if mg_stop_requested s then Some (0, s)
      else do {
        let s = sw_mgr_drain_pending_connections Ls (map_option fst queues) s;
        (done1, s) \<leftarrow> sw_mgr_expire_timeouts A s;
        let (timeout_ms, s) = sw_mgr_effective_poll_timeout timeout_ms s;
        case events of
          None \<Rightarrow> Some (-1, s)
        | Some es \<Rightarrow> do {
            (ok, s) \<leftarrow> sw_backend_poll A Ls es s;
            if \<not> ok then Some (-1, s)
            else do {
              let s = sw_mgr_drain_pending_connections Ls (map_option snd queues) s;
              (done2, s) \<leftarrow> sw_mgr_expire_timeouts A s;
              Some (int (length es), s)
            }
          }
      })"

fun close_handles :: "nat list \<Rightarrow> 'u sw_mgr \<Rightarrow> 'u sw_mgr option" where
  "close_handles [] s = Some s"
| "close_handles (h # hs) s = do { s \<leftarrow> sw_mgr_close_connection h s; close_handles hs s }"

definition sw_mgr_close_all_connections :: "'u sw_mgr \<Rightarrow> 'u sw_mgr option" where
  "sw_mgr_close_all_connections s = close_handles (live s) s"

end
