(* ===== verification/ManagerFrame.thy ===== *)
theory ManagerFrame
  imports Manager
begin

text \<open>
  What every operation of the manager does to the rest of the state: an operation on a connection
  either keeps it or closes it, and in both cases leaves every other connection, its timers and
  its registered events alone.
\<close>

section \<open>Results of operations\<close>

text \<open>\<open>yields r P\<close>: the result of \<open>r\<close>, if there is one, satisfies \<open>P\<close>.\<close>

definition yields :: "'a option \<Rightarrow> ('a \<Rightarrow> bool) \<Rightarrow> bool" where
  "yields r P \<longleftrightarrow> (case r of None \<Rightarrow> True | Some x \<Rightarrow> P x)"

lemma yields_simps [simp]: "yields None P" "yields (Some x) P \<longleftrightarrow> P x"
  by (simp_all add: yields_def)

lemma yields_bind: "yields m (\<lambda>x. yields (f x) P) \<Longrightarrow> yields (m \<bind> f) P"
  by (cases m) simp_all

lemma yields_weaken: "yields m P \<Longrightarrow> (\<And>x. P x \<Longrightarrow> Q x) \<Longrightarrow> yields m Q"
  by (cases m) simp_all

lemma yields_conj: "yields m P \<Longrightarrow> yields m Q \<Longrightarrow> yields m (\<lambda>x. P x \<and> Q x)"
  by (cases m) simp_all

lemma yields_pair: "(\<And>a b. p = (a, b) \<Longrightarrow> yields (f a b) P) \<Longrightarrow> yields (case p of (a, b) \<Rightarrow> f a b) P"
  by (cases p) simp

lemma yields_if: "(b \<Longrightarrow> yields m P) \<Longrightarrow> (\<not> b \<Longrightarrow> yields n P) \<Longrightarrow> yields (if b then m else n) P"
  by simp

lemma yields_get: "(\<And>c. m = Some c \<Longrightarrow> yields (f c) P) \<Longrightarrow> yields (m \<bind> f) P"
  by (cases m) simp_all

section \<open>Keeping and closing a connection\<close>

definition rb_ok :: "sw_server_config \<Rightarrow> sw_connection \<Rightarrow> bool" where
  "rb_ok cfg c \<longleftrightarrow> max_read_buffer_bytes cfg = 0 \<or> length (c_read_buffer c) \<le> max_read_buffer_bytes cfg"

definition others_kept :: "nat \<Rightarrow> 'u sw_mgr \<Rightarrow> 'u sw_mgr \<Rightarrow> bool" where
  "others_kept h s s' \<longleftrightarrow> mg_config s' = mg_config s \<and> mg_next_handle s' = mg_next_handle s \<and>
     (heap_inv (mg_timers s) \<longrightarrow> heap_inv (mg_timers s')) \<and>
     (\<forall>e\<in>set (mg_timers s). connection_handle e \<noteq> h \<longrightarrow> e \<in> set (mg_timers s')) \<and>
     (\<forall>h'. h' \<noteq> h \<longrightarrow> mg_connections s' h' = mg_connections s h') \<and>
     (os_ctl s = [] \<longrightarrow> os_ctl s' = []) \<and> os_accept s' = os_accept s"

text \<open>What never changes on a connection, and the bound its read buffer keeps.\<close>

definition same_socket :: "sw_server_config \<Rightarrow> sw_connection \<Rightarrow> sw_connection \<Rightarrow> bool" where
  "same_socket cfg c c' \<longleftrightarrow> c_fd c' = c_fd c \<and> c_counted c' = c_counted c \<and> c_has_handler c' = c_has_handler c \<and>
     (rb_ok cfg c \<longrightarrow> rb_ok cfg c')"

definition kept :: "nat \<Rightarrow> 'u sw_mgr \<Rightarrow> 'u sw_mgr \<Rightarrow> bool" where
  "kept h s s' \<longleftrightarrow> others_kept h s s' \<and> os_open s' = os_open s \<and>
     mg_active_connection_count s' = mg_active_connection_count s \<and>
     (\<exists>c c'. mg_connections s h = Some c \<and> mg_connections s' h = Some c' \<and> same_socket (mg_config s) c c' \<and>
        (\<forall>fd. fd \<noteq> c_fd c \<longrightarrow> os_interest s' fd = os_interest s fd) \<and>
        (os_interest s (c_fd c) \<noteq> None \<longrightarrow> os_interest s' (c_fd c) \<noteq> None))"

definition closed :: "nat \<Rightarrow> 'u sw_mgr \<Rightarrow> 'u sw_mgr \<Rightarrow> bool" where
  "closed h s s' \<longleftrightarrow> others_kept h s s' \<and>
     (\<exists>c. mg_connections s h = Some c \<and> mg_connections s' h = None \<and>
        (c_fd c \<noteq> -1 \<longrightarrow> os_open s' = (os_open s)(c_fd c := False) \<and> os_interest s' = (os_interest s)(c_fd c := None)) \<and>
        mg_active_connection_count s' = mg_active_connection_count s - (if c_counted c then 1 else 0))"

definition moved :: "nat \<Rightarrow> 'u sw_mgr \<Rightarrow> 'u sw_mgr \<Rightarrow> bool" where
  "moved h s s' \<longleftrightarrow> kept h s s' \<or> closed h s s'"

lemma same_socket_refl: "same_socket cfg c c"
  by (simp add: same_socket_def)

lemma same_socket_trans: "same_socket cfg c c' \<Longrightarrow> same_socket cfg c' c'' \<Longrightarrow> same_socket cfg c c''"
  by (simp add: same_socket_def)

lemma others_kept_trans: "others_kept h s s' \<Longrightarrow> others_kept h s' s'' \<Longrightarrow> others_kept h s s''"
  unfolding others_kept_def by auto

lemma kept_refl: "mg_connections s h = Some c \<Longrightarrow> kept h s s"
  by (auto simp: kept_def others_kept_def same_socket_refl)

lemma kept_trans:
  assumes "kept h s s'" and "kept h s' s''"
  shows "kept h s s''"
proof -
  obtain c c' where c: "mg_connections s h = Some c" "mg_connections s' h = Some c'" "same_socket (mg_config s) c c'"
    using assms(1) by (auto simp: kept_def)
  obtain c'' where c'': "mg_connections s'' h = Some c''" "same_socket (mg_config s') c' c''"
    using assms(2) c by (auto simp: kept_def)
  have cfg: "mg_config s' = mg_config s" and fd: "c_fd c' = c_fd c" using assms(1) c by (auto simp: kept_def others_kept_def same_socket_def)
  have 1: "others_kept h s s''" using assms by (auto simp: kept_def intro: others_kept_trans)
  have 2: "same_socket (mg_config s) c c''" using c c'' cfg by (metis same_socket_trans)
  have 3: "(\<forall>fd. fd \<noteq> c_fd c \<longrightarrow> os_interest s'' fd = os_interest s fd) \<and>
      (os_interest s (c_fd c) \<noteq> None \<longrightarrow> os_interest s'' (c_fd c) \<noteq> None)"
    using assms c c'' fd by (simp add: kept_def)
  have 4: "os_open s'' = os_open s \<and> mg_active_connection_count s'' = mg_active_connection_count s"
    using assms by (simp add: kept_def)
  from 1 2 3 4 c(1) c''(1) show ?thesis unfolding kept_def by blast
qed

lemma kept_closed:
  assumes "kept h s s'" and "closed h s' s''"
  shows "closed h s s''"
proof -
  obtain c c' where c: "mg_connections s h = Some c" "mg_connections s' h = Some c'" "c_fd c' = c_fd c" "c_counted c' = c_counted c"
    "\<forall>fd. fd \<noteq> c_fd c \<longrightarrow> os_interest s' fd = os_interest s fd" "os_open s' = os_open s"
    "mg_active_connection_count s' = mg_active_connection_count s" "others_kept h s s'"
    using assms(1) by (auto simp: kept_def same_socket_def)
  then have "(os_interest s')(c_fd c := None) = (os_interest s)(c_fd c := None)" by auto
  with c assms(2) show ?thesis by (auto simp: closed_def intro: others_kept_trans)
qed

lemma kept_moved: "kept h s s' \<Longrightarrow> moved h s' s'' \<Longrightarrow> moved h s s''"
  unfolding moved_def using kept_trans kept_closed by blast

lemma kept_some: "kept h s s' \<Longrightarrow> \<exists>c'. mg_connections s' h = Some c'"
  by (auto simp: kept_def)

section \<open>The building blocks keep the connection\<close>

lemma kept_put:
  assumes "kept h s0 s" and "mg_connections s h = Some c" and "same_socket (mg_config s) c c'"
  shows "kept h s0 (put h c' s)"
proof -
  have "mg_config s = mg_config s0" using assms(1) by (simp add: kept_def others_kept_def)
  with assms show ?thesis
    unfolding kept_def others_kept_def put_def by (auto intro: same_socket_trans)
qed

text \<open>Changes of the state that concern no connection.\<close>

lemma kept_frame:
  assumes "kept h s0 s" and "mg_config s' = mg_config s" "mg_next_handle s' = mg_next_handle s"
    "mg_timers s' = mg_timers s" "mg_connections s' = mg_connections s" "os_ctl s' = os_ctl s \<or> os_ctl s' = []"
    "os_accept s' = os_accept s" "os_open s' = os_open s" "mg_active_connection_count s' = mg_active_connection_count s"
    "os_interest s' = os_interest s"
  shows "kept h s0 s'"
  using assms by (auto simp: kept_def others_kept_def)

lemma kept_now:
  assumes "kept h s0 s" and "sw_now_ms s = (t, s')"
  shows "kept h s0 s'"
  by (rule kept_frame[OF assms(1)]) (use assms(2) in \<open>auto simp: sw_now_ms_def split: list.splits\<close>)

lemma now_connections: "sw_now_ms s = (t, s') \<Longrightarrow> mg_connections s' = mg_connections s"
  by (auto simp: sw_now_ms_def split: list.splits)

lemma now_config: "sw_now_ms s = (t, s') \<Longrightarrow> mg_config s' = mg_config s"
  by (auto simp: sw_now_ms_def split: list.splits)

lemma now_interest: "sw_now_ms s = (t, s') \<Longrightarrow> os_interest s' = os_interest s"
  unfolding sw_now_ms_def by (cases "os_ticks s") auto

lemma kept_config: "kept h s0 s \<Longrightarrow> mg_config s = mg_config s0"
  by (simp add: kept_def others_kept_def)

lemma put_simps [simp]:
  "mg_connections (put h c s) = (mg_connections s)(h \<mapsto> c)" "mg_config (put h c s) = mg_config s"
  "os_input (put h c s) = os_input s" "os_room (put h c s) = os_room s" "mg_timers (put h c s) = mg_timers s"
  "os_interest (put h c s) = os_interest s" "os_ctl (put h c s) = os_ctl s" "os_now (put h c s) = os_now s"
  "mg_next_handle (put h c s) = mg_next_handle s" "os_accept (put h c s) = os_accept s" "os_open (put h c s) = os_open s" "os_sent (put h c s) = os_sent s"
  "mg_active_connection_count (put h c s) = mg_active_connection_count s"
  by (simp_all add: put_def)

lemma kept_schedule:
  assumes "kept h s0 s"
  shows "yields (sw_mgr_schedule_connection_timeout h s) (kept h s0)"
proof -
  obtain c where c: "mg_connections s h = Some c" using kept_some[OF assms] by blast
  show ?thesis
  proof (cases "sw_connection_timeout_due_ms (mg_config s) c")
    case None
    with c assms show ?thesis by (simp add: sw_mgr_schedule_connection_timeout_def)
  next
    case (Some due)
    let ?c' = "c\<lparr>c_timer_generation := c_timer_generation c + 1\<rparr>"
    let ?e = "\<lparr>due_ms = due, connection_handle = h, generation = c_timer_generation c + 1\<rparr>"
    have k: "kept h s0 (put h ?c' s)" using assms c by (rule kept_put) (simp add: same_socket_def rb_ok_def)
    have "set (sw_timer_heap_push (mg_timers s) ?e) = insert ?e (set (mg_timers s))"
      by (metis heap_push_mset set_mset_add_mset_insert set_mset_mset)
    then have "kept h s0 ((put h ?c' s)\<lparr>mg_timers := sw_timer_heap_push (mg_timers s) ?e\<rparr>)"
      using k by (auto simp: kept_def others_kept_def intro: heap_push_inv)
    then show ?thesis using c Some by (simp add: sw_mgr_schedule_connection_timeout_def)
  qed
qed

lemma schedule_some: "mg_connections s h = Some c \<Longrightarrow> \<exists>s'. sw_mgr_schedule_connection_timeout h s = Some s'"
  by (auto simp: sw_mgr_schedule_connection_timeout_def Let_def split: option.splits)

lemma kept_mark_activity: "kept h s0 s \<Longrightarrow> yields (sw_connection_mark_activity h t s) (kept h s0)"
  unfolding sw_connection_mark_activity_def
  by (intro yields_get kept_schedule) (auto intro!: kept_put simp: same_socket_def rb_ok_def)

lemma kept_reset_request:
  assumes "kept h s0 s"
  shows "yields (sw_connection_reset_request h s) (kept h s0)"
  unfolding sw_connection_reset_request_def Let_def
proof (intro yields_get yields_pair kept_schedule)
  fix c t s' assume "mg_connections s h = Some c" "sw_now_ms s = (t, s')"
  then show "kept h s0 (put h (reset_request_fields t c) s')"
    using kept_now[OF assms] now_connections[of s t s'] by (intro kept_put[where c = c]) (auto simp: same_socket_def rb_ok_def reset_request_fields_def)
qed

lemma schedule_interest: "yields (sw_mgr_schedule_connection_timeout h s) (\<lambda>s'. os_interest s' = os_interest s)"
  unfolding sw_mgr_schedule_connection_timeout_def Let_def
  by (intro yields_get) (simp split: option.split)

lemma reset_request_interest: "yields (sw_connection_reset_request h s) (\<lambda>s'. os_interest s' = os_interest s)"
  unfolding sw_connection_reset_request_def Let_def
proof (intro yields_get yields_pair)
  fix c t s' assume "sw_now_ms s = (t, s')"
  then have "os_interest s' = os_interest s" by (rule now_interest)
  then show "yields (sw_mgr_schedule_connection_timeout h (put h (reset_request_fields t c) s')) (\<lambda>s'. os_interest s' = os_interest s)"
    using schedule_interest[of h "put h (reset_request_fields t c) s'"] by simp
qed

lemma kept_epoll_ctl:
  assumes "kept h s0 s" and "mg_connections s h = Some c" and "epoll_ctl (c_fd c) ev s = (r, s')"
  shows "kept h s0 s'"
proof -
  obtain c0 where "mg_connections s0 h = Some c0" "c_fd c = c_fd c0"
    using assms(1,2) by (auto simp: kept_def same_socket_def)
  with assms show ?thesis
    by (auto simp: kept_def others_kept_def epoll_ctl_def split: list.splits if_splits)
qed

lemma kept_update: "kept h s0 s \<Longrightarrow> mg_connections s h = Some c \<Longrightarrow> kept h s0 (snd (sw_backend_update_connection c s))"
  unfolding sw_backend_update_connection_def by (rule kept_epoll_ctl[OF _ _ prod.collapse[symmetric]])

lemma kept_sync:
  assumes "kept h s0 s"
  shows "yields (sw_mgr_sync_connection h s) (\<lambda>(r, s'). kept h s0 s')"
  unfolding sw_mgr_sync_connection_def Let_def
proof (intro yields_pair yields_bind)
  fix t s1 assume "sw_now_ms s = (t, s1)"
  then have k: "kept h s0 s1" by (rule kept_now[OF assms])
  show "yields (sw_mgr_schedule_connection_timeout h s1)
      (\<lambda>s. yields (mg_connections s h \<bind> (\<lambda>c. Some (sw_backend_update_connection c s))) (\<lambda>(r, s'). kept h s0 s'))"
  proof (rule yields_weaken[OF kept_schedule[OF k]])
    fix s2 assume k2: "kept h s0 s2"
    show "yields (mg_connections s2 h \<bind> (\<lambda>c. Some (sw_backend_update_connection c s2))) (\<lambda>(r, s'). kept h s0 s')"
      using kept_update[OF k2] by (intro yields_get) (simp add: case_prod_beta)
  qed
qed

section \<open>Closing\<close>

lemma closed_close:
  assumes "kept h s0 s"
  shows "yields (sw_mgr_close_connection h s) (closed h s0)"
proof -
  obtain c where c: "mg_connections s h = Some c" using kept_some[OF assms] by blast
  define s1 where "s1 = sw_backend_unregister_connection c s"
  define s2 where "s2 = (if c_fd c \<noteq> -1 then sw_socket_close (c_fd c) s1 else s1)"
  define s3 where "s3 = (case c_file_stream c of None \<Rightarrow> s2 | Some f \<Rightarrow> fclose f s2)"
  let ?c = "c\<lparr>c_fd := -1, c_file_stream := None\<rparr>"
  have s3: "mg_connections s3 = mg_connections s" "mg_config s3 = mg_config s" "mg_next_handle s3 = mg_next_handle s"
    "mg_timers s3 = mg_timers s" "os_ctl s3 = os_ctl s" "os_accept s3 = os_accept s"
    "mg_active_connection_count s3 = mg_active_connection_count s"
    "c_fd c \<noteq> -1 \<Longrightarrow> os_open s3 = (os_open s)(c_fd c := False) \<and> os_interest s3 = (os_interest s)(c_fd c := None)"
    by (simp_all add: s3_def s2_def s1_def sw_backend_unregister_connection_def sw_socket_close_def fclose_def split: option.split)
  have run: "sw_mgr_close_connection h s = do {
      s \<leftarrow> sw_connection_reset_request h (put h ?c s3);
      Some (if c_counted c then sw_mgr_release_connection (s\<lparr>mg_connections := (mg_connections s)(h := None)\<rparr>)
        else s\<lparr>mg_connections := (mg_connections s)(h := None)\<rparr>) }"
    by (simp only: sw_mgr_close_connection_def c Let_def Option.bind_lunit s1_def s2_def s3_def) (simp split del: if_split)
  have "mg_connections (put h ?c s3) h = Some ?c" by simp
  note k = kept_reset_request[OF kept_refl[OF this]]
  have "yields (sw_mgr_close_connection h s) (closed h s)"
    unfolding run
  proof (rule yields_get)
    fix s4 assume r: "sw_connection_reset_request h (put h ?c s3) = Some s4"
    with k have "kept h (put h ?c s3) s4" by simp
    moreover have "os_interest s4 = os_interest s3" using reset_request_interest[of h "put h ?c s3"] r by simp
    ultimately show "yields (Some (if c_counted c then sw_mgr_release_connection (s4\<lparr>mg_connections := (mg_connections s4)(h := None)\<rparr>)
        else s4\<lparr>mg_connections := (mg_connections s4)(h := None)\<rparr>)) (closed h s)"
      using c s3 by (auto simp: closed_def kept_def others_kept_def sw_mgr_release_connection_def)
  qed
  then show ?thesis using kept_closed[OF assms] by (rule yields_weaken)
qed


section \<open>Every operation on a connection keeps it or closes it\<close>

lemma moved_refl: "mg_connections s h = Some c \<Longrightarrow> moved h s s"
  by (auto simp: moved_def intro: kept_refl)

lemma moved_alive: "moved h s0 s \<Longrightarrow> mg_connections s h = Some c \<Longrightarrow> kept h s0 s"
  by (auto simp: moved_def closed_def)

lemma moved_alive_fd: "moved h s0 s \<Longrightarrow> mg_connections s h = Some c \<Longrightarrow> \<exists>c0. mg_connections s0 h = Some c0 \<and> c_fd c = c_fd c0"
  by (auto dest!: moved_alive simp: kept_def same_socket_def)

lemma moved_put:
  "moved h s0 s \<Longrightarrow> mg_connections s h = Some c \<Longrightarrow> same_socket (mg_config s) c c' \<Longrightarrow> moved h s0 (put h c' s)"
  by (meson moved_alive kept_put moved_def)

lemma moved_frame:
  assumes "moved h s0 s" and "mg_config s' = mg_config s" "mg_next_handle s' = mg_next_handle s"
    "mg_timers s' = mg_timers s" "mg_connections s' = mg_connections s" "os_ctl s' = os_ctl s"
    "os_accept s' = os_accept s" "os_open s' = os_open s" "mg_active_connection_count s' = mg_active_connection_count s"
    "os_interest s' = os_interest s"
  shows "moved h s0 s'"
  using assms(1) unfolding moved_def kept_def closed_def others_kept_def assms(2-) .

lemma now_moved: "moved h s0 s \<Longrightarrow> sw_now_ms s = (t, s') \<Longrightarrow> moved h s0 s'"
  unfolding sw_now_ms_def by (cases "os_ticks s") (auto elim: moved_frame)

definition moves :: "nat \<Rightarrow> ('u sw_mgr \<Rightarrow> 'u sw_mgr option) \<Rightarrow> bool" where
  "moves h op \<longleftrightarrow> (\<forall>s0 s. moved h s0 s \<longrightarrow> yields (op s) (moved h s0))"

definition moves_r :: "nat \<Rightarrow> ('u sw_mgr \<Rightarrow> ('r \<times> 'u sw_mgr) option) \<Rightarrow> bool" where
  "moves_r h op \<longleftrightarrow> (\<forall>s0 s. moved h s0 s \<longrightarrow> yields (op s) (\<lambda>(r, s'). moved h s0 s'))"

text \<open>Steps of a composed operation.\<close>

lemma moves_step:
  assumes "moves h op" and "moved h s0 s" and "\<And>s'. moved h s0 s' \<Longrightarrow> yields (f s') (moved h s0)"
  shows "yields (op s \<bind> f) (moved h s0)"
  by (rule yields_bind, rule yields_weaken[where P = "moved h s0"]) (use assms in \<open>auto simp: moves_def\<close>)

lemma moves_step_r:
  assumes "moves h op" and "moved h s0 s" and "\<And>s'. moved h s0 s' \<Longrightarrow> yields (f s') (\<lambda>(r, s'). moved h s0 s')"
  shows "yields (op s \<bind> f) (\<lambda>(r, s'). moved h s0 s')"
  by (rule yields_bind, rule yields_weaken[where P = "moved h s0"]) (use assms in \<open>auto simp: moves_def\<close>)

lemma moves_r_step:
  assumes "moves_r h op" and "moved h s0 s" and "\<And>r s'. moved h s0 s' \<Longrightarrow> yields (f (r, s')) (moved h s0)"
  shows "yields (op s \<bind> f) (moved h s0)"
  by (rule yields_bind, rule yields_weaken[where P = "\<lambda>(r, s'). moved h s0 s'"]) (use assms in \<open>auto simp: moves_r_def\<close>)

lemma moves_r_step_r:
  assumes "moves_r h op" and "moved h s0 s" and "\<And>r s'. moved h s0 s' \<Longrightarrow> yields (f (r, s')) (\<lambda>(r, s'). moved h s0 s')"
  shows "yields (op s \<bind> f) (\<lambda>(r, s'). moved h s0 s')"
  by (rule yields_bind, rule yields_weaken[where P = "\<lambda>(r, s'). moved h s0 s'"]) (use assms in \<open>auto simp: moves_r_def\<close>)

lemma now_step:
  assumes "moved h s0 s"
    and "\<And>t s'. moved h s0 s' \<Longrightarrow> mg_connections s' = mg_connections s \<Longrightarrow> mg_config s' = mg_config s \<Longrightarrow>
      yields (f t s') (\<lambda>(r, s'). moved h s0 s')"
  shows "yields (case sw_now_ms s of (t, s') \<Rightarrow> f t s') (\<lambda>(r, s'). moved h s0 s')"
  using assms now_moved now_connections now_config by (intro yields_pair) blast

lemma moves_end: "moves h op \<Longrightarrow> moved h s0 s \<Longrightarrow> yields (op s) (moved h s0)"
  by (simp add: moves_def)

lemma moves_r_end: "moves_r h op \<Longrightarrow> moved h s0 s \<Longrightarrow> yields (op s) (\<lambda>(r, s'). moved h s0 s')"
  by (simp add: moves_r_def)

lemma result_end: "moved h s0 s \<Longrightarrow> yields (Some (r, s)) (\<lambda>(r, s'). moved h s0 s')"
  by simp

text \<open>An operation that starts from the connection has only to be considered while it is there.\<close>

lemma moves_from:
  fixes op :: "'a sw_mgr \<Rightarrow> 'a sw_mgr option"
  assumes "\<And>s. mg_connections s h = None \<Longrightarrow> op s = None" and "\<And>s0 s. kept h s0 s \<Longrightarrow> yields (op s) (moved h s0)"
  shows "moves h op"
  unfolding moves_def
proof (intro allI impI)
  fix s0 s :: "'a sw_mgr" assume m: "moved h s0 s"
  show "yields (op s) (moved h s0)"
  proof (cases "mg_connections s h")
    case None with assms(1) show ?thesis by simp
  next
    case (Some c) with m show ?thesis by (intro assms(2) moved_alive)
  qed
qed

lemma moves_r_from:
  fixes op :: "'a sw_mgr \<Rightarrow> ('r \<times> 'a sw_mgr) option"
  assumes "\<And>s. mg_connections s h = None \<Longrightarrow> op s = None"
    and "\<And>s0 s. kept h s0 s \<Longrightarrow> yields (op s) (\<lambda>(r, s'). moved h s0 s')"
  shows "moves_r h op"
  unfolding moves_r_def
proof (intro allI impI)
  fix s0 s :: "'a sw_mgr" assume m: "moved h s0 s"
  show "yields (op s) (\<lambda>(r, s'). moved h s0 s')"
  proof (cases "mg_connections s h")
    case None with assms(1) show ?thesis by simp
  next
    case (Some c) with m show ?thesis by (intro assms(2) moved_alive)
  qed
qed

lemma schedule_moves: "moves h (sw_mgr_schedule_connection_timeout h)"
proof (rule moves_from)
  fix s0 s :: "'a sw_mgr" assume "kept h s0 s"
  from kept_schedule[OF this] show "yields (sw_mgr_schedule_connection_timeout h s) (moved h s0)"
    by (rule yields_weaken) (simp add: moved_def)
qed (simp add: sw_mgr_schedule_connection_timeout_def)

lemma mark_activity_moves: "moves h (sw_connection_mark_activity h t)"
proof (rule moves_from)
  fix s0 s :: "'a sw_mgr" assume "kept h s0 s"
  from kept_mark_activity[OF this] show "yields (sw_connection_mark_activity h t s) (moved h s0)"
    by (rule yields_weaken) (simp add: moved_def)
qed (simp add: sw_connection_mark_activity_def)

lemma reset_request_moves: "moves h (sw_connection_reset_request h)"
proof (rule moves_from)
  fix s0 s :: "'a sw_mgr" assume "kept h s0 s"
  from kept_reset_request[OF this] show "yields (sw_connection_reset_request h s) (moved h s0)"
    by (rule yields_weaken) (simp add: moved_def)
qed (simp add: sw_connection_reset_request_def)

lemma close_moves: "moves h (sw_mgr_close_connection h)"
proof (rule moves_from)
  fix s0 s :: "'a sw_mgr" assume "kept h s0 s"
  from closed_close[OF this] show "yields (sw_mgr_close_connection h s) (moved h s0)"
    by (rule yields_weaken) (simp add: moved_def)
qed (simp add: sw_mgr_close_connection_def)

lemma sync_gone: "mg_connections s h = None \<Longrightarrow> sw_mgr_sync_connection h s = None"
  by (cases "sw_now_ms s") (simp add: sw_mgr_sync_connection_def sw_mgr_schedule_connection_timeout_def now_connections)

lemma sync_moves: "moves_r h (sw_mgr_sync_connection h)"
proof (rule moves_r_from)
  fix s0 s :: "'a sw_mgr" assume "kept h s0 s"
  from kept_sync[OF this] show "yields (sw_mgr_sync_connection h s) (\<lambda>(r, s'). moved h s0 s')"
    by (rule yields_weaken) (auto simp: moved_def)
qed (simp add: sync_gone)

lemmas moves_intros = moves_r_step[OF sync_moves] moves_step[OF close_moves] moves_step[OF reset_request_moves]
  moves_step[OF mark_activity_moves] moves_step[OF schedule_moves]
  moves_r_step_r[OF sync_moves] moves_step_r[OF close_moves] moves_step_r[OF reset_request_moves]
  moves_step_r[OF mark_activity_moves] moves_step_r[OF schedule_moves]
  moves_r_end[OF sync_moves] moves_end[OF close_moves]
  moves_end[OF reset_request_moves] moves_end[OF mark_activity_moves] moves_end[OF schedule_moves]
  now_step yields_get yields_pair yields_if result_end

lemma moved_os [simp]:
  "moved h s0 (s\<lparr>os_input := i\<rparr>) = moved h s0 s" "moved h s0 (s\<lparr>os_room := r\<rparr>) = moved h s0 s"
  "moved h s0 (s\<lparr>os_sent := t\<rparr>) = moved h s0 s" "moved h s0 (s\<lparr>os_shutdown := u\<rparr>) = moved h s0 s"
  "moved h s0 (s\<lparr>os_file := f\<rparr>) = moved h s0 s" "moved h s0 (s\<lparr>os_next_file := n\<rparr>) = moved h s0 s"
  "moved h s0 (s\<lparr>mg_user := v\<rparr>) = moved h s0 s"
  by (simp_all add: moved_def kept_def closed_def others_kept_def)

lemma moved_fclose [simp]: "moved h s0 (fclose f s) = moved h s0 s"
  by (simp add: fclose_def)

lemma os_simps [simp]:
  "mg_connections (fclose f s) = mg_connections s" "mg_config (fclose f s) = mg_config s"
  by (simp_all add: fclose_def)

lemma moved_put':
  "moved h s0 s \<Longrightarrow> mg_connections s h = Some c \<Longrightarrow> c_fd c' = c_fd c \<Longrightarrow> c_counted c' = c_counted c \<Longrightarrow>
   c_has_handler c' = c_has_handler c \<Longrightarrow>
   (rb_ok (mg_config s) c \<Longrightarrow> rb_ok (mg_config s) c') \<Longrightarrow> moved h s0 (put h c' s)"
  by (rule moved_put) (auto simp: same_socket_def)

lemma shutdown_send_moves: "moves_r h (sw_connection_shutdown_send h)"
  unfolding moves_r_def sw_connection_shutdown_send_def Let_def
  by (intro allI impI moves_intros) (auto intro!: moved_put' simp: rb_ok_def split: list.splits)

lemma discard_moves: "moves_r h (sw_connection_discard_available_plain_input h)"
  unfolding moves_r_def sw_connection_discard_available_plain_input_def Let_def
  by (intro allI impI moves_intros) auto

section \<open>What building a response changes\<close>

definition writes_only :: "sw_connection \<Rightarrow> sw_connection \<Rightarrow> bool" where
  "writes_only c c' \<longleftrightarrow> (\<exists>w hs r k. c' = c\<lparr>c_write_buffer := w, c_response_headers := hs, c_response_started := r,
     c_close_after_write := k\<rparr>)"

lemma writes_onlyI:
  "c' = c\<lparr>c_write_buffer := w, c_response_headers := hs, c_response_started := r, c_close_after_write := k\<rparr> \<Longrightarrow> writes_only c c'"
  by (auto simp: writes_only_def)

lemma writes_only_refl: "writes_only c c"
  by (rule writes_onlyI[where w = "c_write_buffer c" and hs = "c_response_headers c" and r = "c_response_started c"
      and k = "c_close_after_write c"]) simp

lemma writes_only_trans: "writes_only c c' \<Longrightarrow> writes_only c' c'' \<Longrightarrow> writes_only c c''"
  unfolding writes_only_def by fastforce

lemma writes_only_same:
  "writes_only c c' \<Longrightarrow> c_fd c' = c_fd c \<and> c_counted c' = c_counted c \<and> c_has_handler c' = c_has_handler c \<and> c_read_buffer c' = c_read_buffer c \<and>
     c_file_stream c' = c_file_stream c \<and> c_file_remaining c' = c_file_remaining c \<and> c_request c' = c_request c \<and>
     c_write_shutdown c' = c_write_shutdown c \<and> c_request_started c' = c_request_started c \<and>
     c_request_ready c' = c_request_ready c \<and> c_headers_complete c' = c_headers_complete c"
  by (auto simp: writes_only_def)

lemma writes_append: "writes_only c0 c \<Longrightarrow> writes_only c0 (snd (sw_connection_append_output cfg c d))"
proof (erule writes_only_trans)
  show "writes_only c (snd (sw_connection_append_output cfg c d))"
    by (auto simp: sw_connection_append_output_def writes_only_refl intro!: writes_onlyI[where w = "c_write_buffer c @ d"
        and hs = "c_response_headers c" and r = "c_response_started c" and k = "c_close_after_write c"])
qed

lemma writes_append_cstr: "writes_only c0 c \<Longrightarrow> writes_only c0 (snd (sw_connection_append_output_cstr cfg c t))"
  by (simp add: sw_connection_append_output_cstr_def writes_append split: option.split)

lemma writes_pair:
  "writes_only c0 (snd p) \<Longrightarrow> (\<And>b c. writes_only c0 c \<Longrightarrow> writes_only c0 (snd (f b c))) \<Longrightarrow> writes_only c0 (snd (case p of (b, c) \<Rightarrow> f b c))"
  by (cases p) simp

lemma writes_bool: "writes_only c0 (snd x) \<Longrightarrow> writes_only c0 (snd y) \<Longrightarrow> writes_only c0 (snd (case b of True \<Rightarrow> x | False \<Rightarrow> y))"
  by (cases b) simp_all

lemma writes_if: "writes_only c0 (snd x) \<Longrightarrow> writes_only c0 (snd y) \<Longrightarrow> writes_only c0 (snd (if b then x else y))"
  by simp

lemma writes_done: "writes_only c0 c \<Longrightarrow> writes_only c0 (snd (b, c))"
  by simp

lemma writes_parts: "writes_only c0 c \<Longrightarrow> writes_only c0 (snd (append_parts cfg c ps))"
proof (induction ps arbitrary: c)
  case (Cons p ps)
  show ?case unfolding append_parts.simps
    by (intro writes_pair writes_bool writes_append writes_done Cons)
qed simp

lemma writes_clear: "writes_only c0 c \<Longrightarrow> writes_only c0 (sw_connection_clear_response_headers c)"
  unfolding sw_connection_clear_response_headers_def
  by (erule writes_only_trans, rule writes_onlyI[where w = "c_write_buffer c" and hs = "[]" and r = "c_response_started c"
      and k = "c_close_after_write c"]) simp

lemma writes_prepare: "writes_only c (sw_connection_prepare_response cfg (c\<lparr>c_write_buffer := w\<rparr>))"
  unfolding sw_connection_prepare_response_def
  by (rule writes_onlyI[where w = w and hs = "c_response_headers c" and r = True]) simp

lemma writes_begin: "writes_only c (snd (sw_connection_begin_response cfg c st ct n))"
  unfolding sw_connection_begin_response_def Let_def
  by (intro writes_if writes_pair writes_bool writes_append writes_append_cstr writes_parts writes_clear writes_done writes_prepare)

lemma moved_writes: "moved h s0 s \<Longrightarrow> mg_connections s h = Some c \<Longrightarrow> writes_only c c' \<Longrightarrow> moved h s0 (put h c' s)"
  by (erule (1) moved_put') (auto dest: writes_only_same simp: rb_ok_def)

lemma append_writes: "sw_connection_append_output cfg c d = (ok, c') \<Longrightarrow> writes_only c c'"
  using writes_append[OF writes_only_refl, of c cfg d] by simp

lemma begin_writes: "sw_connection_begin_response cfg c st ct n = (rc, c') \<Longrightarrow> writes_only c c'"
  using writes_begin[of c cfg st ct n] by simp

lemma reply_moves: "moves_r h (sw_http_reply h st ct body)"
  unfolding moves_r_def sw_http_reply_def Let_def
  by (intro allI impI moves_intros) (auto intro!: moved_writes intro: writes_only_trans dest!: begin_writes append_writes split: if_splits)

lemma replyf_moves: "moves_r h (sw_http_replyf h st ct body)"
  using reply_moves by (simp add: sw_http_replyf_def moves_r_def)

lemmas reply_intros = moves_r_step[OF replyf_moves] moves_r_step_r[OF replyf_moves] moves_r_end[OF replyf_moves]
  moves_r_step[OF reply_moves] moves_r_step_r[OF reply_moves] moves_r_end[OF reply_moves]

lemma status_text_moves: "moves_r h (sw_http_reply_status_text h st body)"
  unfolding moves_r_def sw_http_reply_status_text_def Let_def
  by (intro allI impI moves_intros reply_intros) auto

lemma put_append:
  assumes "moved h s0 s" and "mg_connections s h = Some c" and "sw_connection_append_output cfg c1 d = (ok, c')"
    and "c_fd c1 = c_fd c \<and> c_counted c1 = c_counted c \<and> c_has_handler c1 = c_has_handler c \<and> c_read_buffer c1 = c_read_buffer c"
  shows "moved h s0 (put h c' s)"
  using assms(1,2,4) writes_only_same[OF append_writes[OF assms(3)]] by (intro moved_put'[where c = c]) (simp_all add: rb_ok_def)

lemma write_moves: "moves_r h (sw_http_write h data)"
  unfolding moves_r_def sw_http_write_def Let_def
  by (intro allI impI moves_intros) (rule put_append, simp, assumption, assumption, simp_all)+

lemma printf_moves: "moves_r h (sw_http_printf h formatted)"
  unfolding moves_r_def sw_http_printf_def Let_def
  by (intro allI impI moves_intros) (auto intro!: moved_put' simp: rb_ok_def)

text \<open>The calls that queue something change only what they queue.\<close>

definition queues :: "(sw_connection option \<Rightarrow> int \<times> sw_connection option) \<Rightarrow> bool" where
  "queues f \<longleftrightarrow> (\<forall>c. \<exists>hs u. snd (f (Some c)) = Some (c\<lparr>c_response_headers := hs, c_user_data := u\<rparr>))"

lemma queue_moves: "queues f \<Longrightarrow> moves_r h (queue_call h f)"
  unfolding moves_r_def queue_call_def Let_def
proof (intro allI impI moves_intros)
  fix s0 s :: "'a sw_mgr" and c rc c'
  assume q: "queues f" and m: "moved h s0 s" "mg_connections s h = Some c" and f: "f (Some c) = (rc, c')"
  from q f obtain hs u where "c' = Some (c\<lparr>c_response_headers := hs, c_user_data := u\<rparr>)" by (metis queues_def snd_conv)
  with m show "moved h s0 (put h (the c') s)" by (auto intro!: moved_put' simp: rb_ok_def)
qed

lemma headers_as_updated: "\<exists>hs u. c = c\<lparr>c_response_headers := hs, c_user_data := u\<rparr>"
  by (rule exI[of _ "c_response_headers c"], rule exI[of _ "c_user_data c"]) simp

lemma queue_header_queues: "\<exists>hs u. snd (sw_http_queue_header (Some c) n v) = Some (c\<lparr>c_response_headers := hs, c_user_data := u\<rparr>)"
proof (cases "snd (sw_http_queue_header (Some c) n v) = Some c")
  case True
  then show ?thesis using headers_as_updated[of c] by simp
next
  case False
  then have "snd (sw_http_queue_header (Some c) n v) = Some (c\<lparr>c_response_headers := c_response_headers c @
      [\<lparr>hd_name = sw_strdup_cstr n, hd_value = sw_strdup_cstr v\<rparr>], c_user_data := c_user_data c\<rparr>)"
    by (auto simp: sw_http_queue_header_def split: if_splits)
  then show ?thesis by blast
qed

lemma cookie_with_options_queues:
  "\<exists>hs u. snd (sw_http_set_cookie_with_options (Some c) n v opts) = Some (c\<lparr>c_response_headers := hs, c_user_data := u\<rparr>)"
proof (cases "snd (sw_http_set_cookie_with_options (Some c) n v opts) = Some c")
  case True
  then show ?thesis using headers_as_updated[of c] by simp
next
  case False
  then obtain n' v' where "sw_http_set_cookie_with_options (Some c) n v opts = sw_http_queue_header (Some c) n' v'"
    by (auto simp: sw_http_set_cookie_with_options_def Let_def split: if_splits option.splits)
  then show ?thesis using queue_header_queues by simp
qed

lemma set_header_queues: "queues (\<lambda>c. sw_http_set_header c n v)"
  unfolding queues_def sw_http_set_header_def using queue_header_queues by blast

lemma set_cookie_queues: "queues (\<lambda>c. sw_http_set_cookie c n v opts)"
  unfolding queues_def sw_http_set_cookie_def using cookie_with_options_queues by blast

lemma clear_cookie_queues: "queues (\<lambda>c. sw_http_clear_cookie c n opts)"
  unfolding queues_def sw_http_clear_cookie_def Let_def using cookie_with_options_queues by blast

lemma user_data_queues: "queues (\<lambda>c. (r, sw_connection_set_user_data c u))"
  unfolding queues_def
proof (intro allI exI)
  fix c show "snd (r, sw_connection_set_user_data (Some c) u) = Some (c\<lparr>c_response_headers := c_response_headers c, c_user_data := u\<rparr>)"
    by (simp add: sw_connection_set_user_data_def)
qed

lemmas api_queues = set_header_queues set_cookie_queues clear_cookie_queues user_data_queues

lemmas queue_intros = moves_r_step_r[OF queue_moves] moves_r_end[OF queue_moves]

lemma redirect_moves: "moves_r h (sw_http_redirect h l)"
proof (cases l)
  case (Some t)
  show ?thesis
    unfolding Some moves_r_def sw_http_redirect_def option.case Let_def
    by (intro allI impI moves_intros reply_intros queue_intros api_queues) auto
qed (simp add: sw_http_redirect_def moves_r_def)

section \<open>Files, handlers and input\<close>

lemma fread_step:
  assumes "moved h s0 s"
    and "\<And>t s'. moved h s0 s' \<Longrightarrow> mg_connections s' = mg_connections s \<Longrightarrow> mg_config s' = mg_config s \<Longrightarrow>
      yields (f t s') (\<lambda>(r, s'). moved h s0 s')"
  shows "yields (case fread n i s of (t, s') \<Rightarrow> f t s') (\<lambda>(r, s'). moved h s0 s')"
  using assms by (cases "os_file s i") (auto simp: fread_def)

lemma put_file_moves:
  assumes "moved h s0 s'" and "mg_connections s' = mg_connections s" and "mg_connections s h = Some c"
    and "sw_connection_append_output cfg (c\<lparr>c_file_remaining := n\<rparr>) d = (ok, c1)"
    and "c_fd c' = c_fd c1 \<and> c_counted c' = c_counted c1 \<and> c_has_handler c' = c_has_handler c1 \<and> c_read_buffer c' = c_read_buffer c1"
  shows "moved h s0 (put h c' s')"
  using assms(1,2,3,5) writes_only_same[OF append_writes[OF assms(4)]]
  by (intro moved_put'[where c = c]) (simp_all add: rb_ok_def)

lemma fill_moves: "moves_r h (sw_connection_fill_file_buffer h)"
  unfolding moves_r_def sw_connection_fill_file_buffer_def Let_def
  apply (intro allI impI moves_intros)
  subgoal for s0 s c
    apply (cases "c_file_stream c"; simp only: option.case)
     apply (intro moves_intros, assumption)
    apply (intro fread_step yields_if yields_pair[of "sw_connection_append_output c d t" for c d t] result_end)
    by (assumption | (rule put_file_moves[of _ _ _ s c], simp, simp, assumption, assumption, simp)
        | (rule moved_put'[of _ _ _ c], simp, simp, simp, simp, simp, simp add: rb_ok_def))+
  done

lemmas status_intros = moves_r_step[OF status_text_moves] moves_r_step_r[OF status_text_moves] moves_r_end[OF status_text_moves]
  moves_r_step[OF fill_moves] moves_r_step_r[OF fill_moves] moves_r_end[OF fill_moves]

lemma fopen_step:
  assumes "moved h s0 s"
    and "\<And>t s'. moved h s0 s' \<Longrightarrow> yields (f t s') (\<lambda>(r, s'). moved h s0 s')"
  shows "yields (case fopen fs path s of (t, s') \<Rightarrow> f t s') (\<lambda>(r, s'). moved h s0 s')"
  using assms by (cases "fs_open fs path") (auto simp: fopen_def)

lemma yields_option:
  "(x = None \<Longrightarrow> yields n P) \<Longrightarrow> (\<And>a. x = Some a \<Longrightarrow> yields (f a) P) \<Longrightarrow> yields (case x of None \<Rightarrow> n | Some a \<Rightarrow> f a) P"
  by (cases x) simp_all

lemma yields_stat:
  "yields n P \<Longrightarrow> (\<And>a. yields (f a) P) \<Longrightarrow> yields (case x of Directory \<Rightarrow> n | Regular a \<Rightarrow> f a) P"
  by (cases x) simp_all

lemma put_begin:
  assumes "moved h s0 s" and "mg_connections s h = Some c" and "sw_connection_begin_response cfg c st ct n = (rc, c1)"
  shows "moved h s0 (put h c1 s)" "moved h s0 (put h (c1\<lparr>c_file_stream := f, c_file_remaining := m\<rparr>) s)"
    "moved h s0 (put h (c1\<lparr>c_file_stream := f, c_file_remaining := m\<rparr>) (fclose i s))"
  using assms(1,2) writes_only_same[OF begin_writes[OF assms(3)]]
  by (intro moved_put'[where c = c]; simp add: rb_ok_def)+

lemma send_file_moves: "moves_r h (sw_http_send_file fs h path)"
  unfolding moves_r_def sw_http_send_file_def Let_def
  apply (intro allI impI fopen_step yields_option yields_stat reply_intros status_intros moves_intros)
  by (simp_all add: put_begin split: option.split)

lemma serve_path_moves: "moves_r h (serve_path fs h docroot path)"
  unfolding moves_r_def serve_path_def
  by (auto intro: moves_r_end[OF status_text_moves] moves_r_end[OF send_file_moves] split: serve_decision.split)

lemma call_api_moves: "moves_r h (call_api fs h call)"
  using reply_moves replyf_moves redirect_moves write_moves printf_moves serve_path_moves queue_moves[OF set_header_queues]
    queue_moves[OF set_cookie_queues] queue_moves[OF clear_cookie_queues] queue_moves[OF user_data_queues]
  by (cases call) (simp_all add: call_api_def moves_r_def)

lemma run_program_moves: "moves h (run_program fs h p :: 'b sw_mgr \<Rightarrow> _)"
proof (induction p)
  case Finish
  show ?case by (simp add: moves_def)
next
  case (Call a k)
  show ?case unfolding moves_def
  proof (intro allI impI)
    fix s0 s :: "'b sw_mgr" assume "moved h s0 s"
    then have "yields (call_api fs h a s) (\<lambda>(r, s'). moved h s0 s')" by (rule moves_r_end[OF call_api_moves])
    moreover have "moves h (run_program fs h (k rc) :: 'b sw_mgr \<Rightarrow> _)" for rc using Call[of "k rc"] by simp
    ultimately show "yields (run_program fs h (Call a k) s) (moved h s0)"
      by (auto simp: moves_def split: option.split)
  qed
qed

lemmas program_intros = moves_step[OF run_program_moves] moves_step_r[OF run_program_moves]

lemma dispatch_moves: "moves_r h (sw_connection_dispatch_request A h)"
  unfolding moves_r_def sw_connection_dispatch_request_def Let_def
  by (intro allI impI program_intros moves_intros) (auto intro!: moved_put' simp: rb_ok_def)

text \<open>Parsing consumes input, so that it keeps the bound of the read buffer.\<close>

definition shrinks :: "sw_connection \<Rightarrow> sw_connection \<Rightarrow> bool" where
  "shrinks c c' \<longleftrightarrow> c_fd c' = c_fd c \<and> c_counted c' = c_counted c \<and> c_has_handler c' = c_has_handler c \<and>
     length (c_read_buffer c') \<le> length (c_read_buffer c)"

lemma moved_shrinks: "moved h s0 s \<Longrightarrow> mg_connections s h = Some c \<Longrightarrow> shrinks c c' \<Longrightarrow> moved h s0 (put h c' s)"
  by (erule (1) moved_put') (auto simp: shrinks_def rb_ok_def)

lemma yields_moved:
  "yields m (moved h s0) \<Longrightarrow> (\<And>s'. moved h s0 s' \<Longrightarrow> yields (f s') Q) \<Longrightarrow> yields (m \<bind> f) Q"
  by (cases m) simp_all

lemma yields_moved_r:
  "yields m (\<lambda>(r, s'). moved h s0 s') \<Longrightarrow> (\<And>r s'. moved h s0 s' \<Longrightarrow> yields (f (r, s')) Q) \<Longrightarrow> yields (m \<bind> f) Q"
  by (cases m) auto

lemma parsed_moves:
  assumes "moved h s0 s" and "mg_connections s h = Some c"
  shows "yields (Some (case parse_request (mg_config s) (c_read_buffer c) of
           Stop r \<Rightarrow> (r, s)
         | Parsed m n \<Rightarrow> (SW_PARSE_READY,
             put h (c\<lparr>c_request := m, c_request_ready := True, c_parsed_request_bytes := n\<rparr>) s)
         | Streamed m n \<Rightarrow> (SW_PARSE_READY,
             put h (c\<lparr>c_request := m, c_request_ready := True, c_must_close := True, c_parsed_request_bytes := 0,
               c_read_buffer := drop n (c_read_buffer c)\<rparr>) s))) (\<lambda>(r, s'). moved h s0 s')"
  using assms
  by (cases "parse_request (mg_config s) (c_read_buffer c)") (auto intro!: moved_shrinks simp: shrinks_def)

lemma headers_complete_moves:
  assumes "moved h s0 s" and "mg_connections s h = Some c"
  shows "yields (case sw_now_ms s of (now, s) \<Rightarrow> sw_mgr_schedule_connection_timeout h
    (put h (c\<lparr>c_headers_complete := True, c_phase_started_at_ms := now\<rparr>) s)) (moved h s0)"
proof (intro yields_pair moves_intros)
  fix t s' assume n: "sw_now_ms s = (t, s')"
  show "moved h s0 (put h (c\<lparr>c_headers_complete := True, c_phase_started_at_ms := t\<rparr>) s')"
    by (rule moved_put'[of _ _ _ c]) (use assms now_moved[OF assms(1) n] now_connections[OF n] in \<open>simp_all add: rb_ok_def\<close>)
qed

lemma try_parse_moves: "moves_r h (sw_connection_try_parse_request h)"
  unfolding moves_r_def sw_connection_try_parse_request_def Let_def
  by (intro allI impI yields_get yields_if result_end yields_moved[of _ h] headers_complete_moves parsed_moves) simp_all

lemma refuse_moves: "moves_r h (refuse_request h st body)"
  unfolding moves_r_def refuse_request_def Let_def
  by (intro allI impI status_intros moves_intros) (auto intro!: moved_put' simp: rb_ok_def)

lemmas input_intros = moves_r_end[OF dispatch_moves] moves_r_end[OF refuse_moves] moves_r_step_r[OF try_parse_moves]

lemma yields_parse_result:
  assumes "yields x1 P" "yields x2 P" "yields x3 P" "yields x4 P" "yields x5 P" "yields x6 P"
  shows "yields (case r of SW_PARSE_READY \<Rightarrow> x1 | SW_PARSE_PENDING \<Rightarrow> x2 | SW_PARSE_HEADERS_TOO_LARGE \<Rightarrow> x3
    | SW_PARSE_TOO_MANY_HEADERS \<Rightarrow> x4 | SW_PARSE_PAYLOAD_TOO_LARGE \<Rightarrow> x5 | SW_PARSE_BAD_REQUEST \<Rightarrow> x6) P"
  using assms by (cases r) simp_all

lemma process_input_moves: "moves_r h (sw_connection_process_input A h)"
  unfolding moves_r_def sw_connection_process_input_def Let_def
  by (intro allI impI yields_parse_result reply_intros input_intros moves_intros) (auto intro!: moved_put' simp: rb_ok_def)

lemmas process_intros = moves_r_end[OF process_input_moves] moves_r_step_r[OF process_input_moves]

lemma start_clock:
  assumes "(if c_request_started c then (c, s) else case sw_now_ms s of (now, s) \<Rightarrow>
      (c\<lparr>c_request_started := True, c_phase_started_at_ms := now\<rparr>, s)) = (c', s')"
  shows "mg_connections s' = mg_connections s \<and> mg_config s' = mg_config s \<and> (moved h s0 s \<longrightarrow> moved h s0 s') \<and>
    c_fd c' = c_fd c \<and> c_counted c' = c_counted c \<and> c_has_handler c' = c_has_handler c \<and> c_read_buffer c' = c_read_buffer c"
  using assms now_connections now_config now_moved by (auto split: if_splits prod.splits)

text \<open>The only place where the read buffer grows checks its bound first.\<close>

lemma readable_loop_moves: "moves_r h (readable_loop A h answers read_any)"
proof (induction answers arbitrary: read_any)
  case Nil
  show ?case unfolding moves_r_def readable_loop.simps
    by (intro allI impI process_intros moves_intros)
next
  case (Cons answer rest)
  show ?case unfolding moves_r_def readable_loop.simps Let_def
    by (intro allI impI process_intros moves_r_end[OF Cons] moves_r_end[OF refuse_moves] moves_intros)
      (auto dest!: start_clock intro!: moved_put' simp: rb_ok_def)
qed


lemma readable_moves: "moves_r h (sw_mgr_connection_readable A h)"
  unfolding moves_r_def sw_mgr_connection_readable_def Let_def
  by (intro allI impI moves_r_end[OF discard_moves] moves_r_end[OF readable_loop_moves] moves_intros)

section \<open>Output, time-outs and events\<close>

lemma finish_response_moves: "moves_r h (sw_connection_finish_response A h)"
  unfolding moves_r_def sw_connection_finish_response_def Let_def
  by (intro allI impI process_intros moves_r_end[OF shutdown_send_moves] moves_intros)
    (auto intro!: moved_shrinks simp: shrinks_def)

lemma fill_or_close_moves: "moves_r h (fill_or_close h)"
  unfolding moves_r_def fill_or_close_def Let_def
  by (intro allI impI status_intros moves_intros) auto

lemma yields_send:
  "yields (x k) P \<Longrightarrow> yields y P \<Longrightarrow> (\<And>k. yields (x k) P) \<Longrightarrow> yields (case a of Send_count k \<Rightarrow> x k | Send_error \<Rightarrow> y) P"
  by (cases a) simp_all

lemma fill_if_empty_moves:
  "moved h s0 s \<Longrightarrow> yields (if b then fill_or_close h s else Some (True, s)) (\<lambda>(r, s'). moved h s0 s')"
  using moves_r_end[OF fill_or_close_moves] by auto

lemma writable_loop_moves: "moves_r h (writable_loop h answers)"
proof (induction answers)
  case Nil
  show ?case unfolding moves_r_def writable_loop.simps by (intro allI impI moves_intros)
next
  case (Cons answer rest)
  show ?case
  proof (cases answer)
    case Send_error
    show ?thesis unfolding moves_r_def writable_loop.simps Let_def Send_error send_answer.case
      by (intro allI impI moves_intros) simp_all
  next
    case (Send_count k)
    show ?thesis unfolding moves_r_def writable_loop.simps Let_def Send_count send_answer.case
      apply (intro allI impI moves_r_end[OF Cons] yields_moved_r[OF fill_if_empty_moves] moves_intros)
      apply (auto intro!: moved_put' simp: rb_ok_def)
      done
  qed
qed

lemma writable_moves: "moves_r h (sw_mgr_connection_writable A h)"
  unfolding moves_r_def sw_mgr_connection_writable_def Let_def
  apply (intro allI impI moves_r_step_r[OF fill_or_close_moves] moves_r_step_r[OF writable_loop_moves]
      yields_moved_r[OF fill_if_empty_moves] moves_r_end[OF finish_response_moves] moves_intros)
  apply simp_all
  done


lemma expire_moves: "moves h (expire_connection A h)"
  unfolding moves_def expire_connection_def Let_def
  by (intro allI impI moves_r_step[OF discard_moves] moves_r_step[OF status_text_moves] moves_r_step[OF writable_moves]
      moves_intros) (auto intro!: moved_put' simp: rb_ok_def)

lemma optional_moves:
  "moves_r h op \<Longrightarrow> moved h s0 s \<Longrightarrow> yields (if b then op s else Some (0, s)) (\<lambda>(r, s'). moved h s0 s')"
  by (simp add: moves_r_def)

lemma handle_event_moves: "moves h (handle_event A h hup r w)"
  unfolding moves_def handle_event_def Let_def
  by (intro allI impI yields_if[of hup] moves_end[OF close_moves] yields_moved_r[OF optional_moves[OF readable_moves]]
      yields_moved_r[OF optional_moves[OF writable_moves]] moves_intros) simp_all

end
