(* ===== verification/ManagerInv.thy ===== *)
theory ManagerInv
  imports ManagerFrame
begin

text \<open>
  The resource invariant of the manager: its sockets, its epoll set, its timer heap and its
  connection count agree with its live connections after every operation of the event loop.
\<close>

section \<open>The invariant\<close>

definition counted_handles :: "'u sw_mgr \<Rightarrow> nat set" where
  "counted_handles s = {h. \<exists>c. mg_connections s h = Some c \<and> c_counted c}"

definition connection_ok :: "'u sw_mgr \<Rightarrow> nat \<Rightarrow> sw_connection \<Rightarrow> bool" where
  "connection_ok s h c \<longleftrightarrow> h < mg_next_handle s \<and> c_fd c \<noteq> -1 \<and> os_open s (c_fd c) \<and>
     os_interest s (c_fd c) \<noteq> None \<and> c_has_handler c \<and> rb_ok (mg_config s) c"

definition mgr_inv :: "'u sw_mgr \<Rightarrow> bool" where
  "mgr_inv s \<longleftrightarrow> heap_inv (mg_timers s) \<and>
     (\<forall>h c. mg_connections s h = Some c \<longrightarrow> connection_ok s h c) \<and>
     (\<forall>h h' c c'. mg_connections s h = Some c \<and> mg_connections s h' = Some c' \<and> c_fd c = c_fd c' \<longrightarrow> h = h') \<and>
     (\<forall>fd. os_open s fd \<longrightarrow> (\<exists>h c. mg_connections s h = Some c \<and> c_fd c = fd)) \<and>
     (\<forall>fd. os_interest s fd \<noteq> None \<longrightarrow> os_open s fd) \<and>
     mg_active_connection_count s = card (counted_handles s) \<and>
     (max_connections (mg_config s) > 0 \<longrightarrow> mg_active_connection_count s \<le> max_connections (mg_config s))"

lemma mgr_invI:
  assumes "heap_inv (mg_timers s)" and "\<And>h c. mg_connections s h = Some c \<Longrightarrow> connection_ok s h c"
    and "\<And>h h' c c'. mg_connections s h = Some c \<Longrightarrow> mg_connections s h' = Some c' \<Longrightarrow> c_fd c = c_fd c' \<Longrightarrow> h = h'"
    and "\<And>fd. os_open s fd \<Longrightarrow> \<exists>h c. mg_connections s h = Some c \<and> c_fd c = fd"
    and "\<And>fd. os_interest s fd \<noteq> None \<Longrightarrow> os_open s fd"
    and "mg_active_connection_count s = card (counted_handles s)"
    and "max_connections (mg_config s) > 0 \<Longrightarrow> mg_active_connection_count s \<le> max_connections (mg_config s)"
  shows "mgr_inv s"
  using assms unfolding mgr_inv_def by blast

lemma inv_connection: "mgr_inv s \<Longrightarrow> mg_connections s h = Some c \<Longrightarrow> connection_ok s h c"
  by (simp add: mgr_inv_def)

lemma inv_fd: "mgr_inv s \<Longrightarrow> mg_connections s h = Some c \<Longrightarrow> mg_connections s h' = Some c' \<Longrightarrow> c_fd c = c_fd c' \<Longrightarrow> h = h'"
  unfolding mgr_inv_def by blast

lemma inv_handles: "mgr_inv s \<Longrightarrow> {h. mg_connections s h \<noteq> None} \<subseteq> {..<mg_next_handle s}"
  by (auto simp: mgr_inv_def connection_ok_def)

lemma inv_counted_finite: "mgr_inv s \<Longrightarrow> finite (counted_handles s)"
  by (rule finite_subset[of _ "{..<mg_next_handle s}"]) (auto simp: counted_handles_def mgr_inv_def connection_ok_def)

lemma inv_interest: "mgr_inv s \<Longrightarrow> os_interest s fd \<noteq> None \<longleftrightarrow> os_open s fd"
  unfolding mgr_inv_def connection_ok_def by blast

lemma inv_open: "mgr_inv s \<Longrightarrow> os_open s fd \<longleftrightarrow> (\<exists>h c. mg_connections s h = Some c \<and> c_fd c = fd)"
  unfolding mgr_inv_def connection_ok_def by blast

section \<open>Operations on one connection\<close>

lemma kept_inv:
  assumes "mgr_inv s" and "kept h s s'"
  shows "mgr_inv s'"
proof -
  obtain c c' where c: "mg_connections s h = Some c" and c': "mg_connections s' h = Some c'"
    and same: "same_socket (mg_config s) c c'"
    and int: "\<And>fd. fd \<noteq> c_fd c \<Longrightarrow> os_interest s' fd = os_interest s fd"
    and intc: "os_interest s (c_fd c) \<noteq> None \<Longrightarrow> os_interest s' (c_fd c) \<noteq> None"
    using assms(2) unfolding kept_def by blast
  have o: "others_kept h s s'" and op: "os_open s' = os_open s"
    and cnt: "mg_active_connection_count s' = mg_active_connection_count s"
    using assms(2) by (simp_all add: kept_def)
  have conns: "mg_connections s' = (mg_connections s)(h \<mapsto> c')"
  proof
    fix h' show "mg_connections s' h' = ((mg_connections s)(h \<mapsto> c')) h'"
      using o c' by (cases "h' = h") (auto simp: others_kept_def)
  qed
  have int': "os_interest s' fd \<noteq> None \<longleftrightarrow> os_open s fd" for fd
  proof (cases "fd = c_fd c")
    case True
    have "os_open s fd" using inv_open[OF assms(1)] c True by blast
    then show ?thesis using inv_interest[OF assms(1)] intc True by blast
  qed (use int inv_interest[OF assms(1)] in simp)
  have fd': "\<exists>d. mg_connections s h' = Some d \<and> c_fd e = c_fd d \<and> c_counted e = c_counted d"
    if "mg_connections s' h' = Some e" for h' e
    using that c same by (cases "h' = h") (auto simp: conns same_socket_def)
  have "counted_handles s' = counted_handles s" using c same by (auto simp: counted_handles_def conns same_socket_def)
  moreover have "connection_ok s' h' e" if "mg_connections s' h' = Some e" for h' e
  proof (cases "h' = h")
    case True
    with that c' have "e = c'" by simp
    then show ?thesis using inv_connection[OF assms(1) c] same o int' op True
      by (simp add: connection_ok_def same_socket_def others_kept_def)
  next
    case False
    with that conns have "mg_connections s h' = Some e" by simp
    then show ?thesis using inv_connection[OF assms(1)] o int' op by (auto simp: connection_ok_def others_kept_def)
  qed
  moreover have "h1 = h2" if "mg_connections s' h1 = Some d" "mg_connections s' h2 = Some e" "c_fd d = c_fd e" for h1 h2 d e
    using fd'[OF that(1)] fd'[OF that(2)] that(3) inv_fd[OF assms(1)] by metis
  moreover have "\<exists>h' e. mg_connections s' h' = Some e \<and> c_fd e = fd" if open_fd: "os_open s' fd" for fd
  proof -
    obtain h' e where e: "mg_connections s h' = Some e" "c_fd e = fd" using open_fd op inv_open[OF assms(1)] by auto
    then show ?thesis using c c' same by (cases "h' = h") (auto simp: conns same_socket_def)
  qed
  moreover have "heap_inv (mg_timers s')" "mg_config s' = mg_config s"
    using assms(1) o by (simp_all add: mgr_inv_def others_kept_def)
  moreover have "mg_active_connection_count s = card (counted_handles s)"
    "max_connections (mg_config s) > 0 \<Longrightarrow> mg_active_connection_count s \<le> max_connections (mg_config s)"
    using assms(1) by (simp_all add: mgr_inv_def)
  ultimately show ?thesis using int' op cnt by (intro mgr_invI) simp_all
qed

lemma closed_inv:
  assumes "mgr_inv s" and "closed h s s'"
  shows "mgr_inv s'"
proof -
  obtain c where c: "mg_connections s h = Some c" and c': "mg_connections s' h = None"
    and cl: "c_fd c \<noteq> -1 \<longrightarrow> os_open s' = (os_open s)(c_fd c := False) \<and> os_interest s' = (os_interest s)(c_fd c := None)"
    and cnt: "mg_active_connection_count s' = mg_active_connection_count s - (if c_counted c then 1 else 0)"
    using assms(2) unfolding closed_def by blast
  have o: "others_kept h s s'" using assms(2) by (simp add: closed_def)
  have conns: "mg_connections s' = (mg_connections s)(h := None)"
  proof
    fix h' show "mg_connections s' h' = ((mg_connections s)(h := None)) h'"
      using o c' by (cases "h' = h") (auto simp: others_kept_def)
  qed
  have "c_fd c \<noteq> -1" using inv_connection[OF assms(1) c] by (simp add: connection_ok_def)
  with cl have op: "os_open s' = (os_open s)(c_fd c := False)" and int: "os_interest s' = (os_interest s)(c_fd c := None)" by auto
  have other: "mg_connections s h' = Some e \<and> h' \<noteq> h \<and> c_fd e \<noteq> c_fd c" if "mg_connections s' h' = Some e" for h' e
    using that conns inv_fd[OF assms(1) _ c] by (auto split: if_splits)
  have "counted_handles s' = counted_handles s - (if c_counted c then {h} else {})"
    using c by (auto simp: counted_handles_def conns)
  moreover have "h \<in> counted_handles s \<longleftrightarrow> c_counted c" using c by (simp add: counted_handles_def)
  ultimately have count: "mg_active_connection_count s' = card (counted_handles s')"
    using assms(1) cnt inv_counted_finite[OF assms(1)] by (simp add: mgr_inv_def)
  have ok: "connection_ok s' h' e" if "mg_connections s' h' = Some e" for h' e
    using other[OF that] inv_connection[OF assms(1)] o op int by (auto simp: connection_ok_def others_kept_def)
  have inj: "h1 = h2" if "mg_connections s' h1 = Some d" "mg_connections s' h2 = Some e" "c_fd d = c_fd e" for h1 h2 d e
    using other[OF that(1)] other[OF that(2)] that(3) inv_fd[OF assms(1)] by metis
  have open_live: "\<exists>h' e. mg_connections s' h' = Some e \<and> c_fd e = fd" if "os_open s' fd" for fd
  proof -
    have "os_open s fd" "fd \<noteq> c_fd c" using that op by (auto split: if_splits)
    then obtain h' e where "mg_connections s h' = Some e" "c_fd e = fd" using inv_open[OF assms(1)] by blast
    with \<open>fd \<noteq> c_fd c\<close> c show ?thesis by (intro exI[of _ h'] exI[of _ e]) (auto simp: conns)
  qed
  have "os_interest s' fd \<noteq> None \<Longrightarrow> os_open s' fd" for fd
    using inv_interest[OF assms(1)] op int by (auto split: if_splits)
  moreover have "heap_inv (mg_timers s')" "mg_config s' = mg_config s"
    using assms(1) o by (simp_all add: mgr_inv_def others_kept_def)
  moreover have "max_connections (mg_config s) > 0 \<longrightarrow> mg_active_connection_count s' \<le> max_connections (mg_config s)"
    using assms(1) cnt by (auto simp: mgr_inv_def)
  ultimately show ?thesis using ok inj open_live count by (intro mgr_invI) simp_all
qed

lemma moved_inv: "mgr_inv s \<Longrightarrow> moved h s s' \<Longrightarrow> mgr_inv s'"
  using kept_inv closed_inv by (auto simp: moved_def)

lemma moves_inv:
  assumes "moves h op" and "mgr_inv s" and "mg_connections s h = Some c" and "op s = Some s'"
  shows "mgr_inv s'"
proof -
  have "yields (op s) (moved h s)" using moves_end[OF assms(1) moved_refl[OF assms(3)]] .
  then show ?thesis using assms(2,4) by (auto intro: moved_inv)
qed

section \<open>The timer loop\<close>

lemma timer_valid_timers [simp]: "timer_valid (s\<lparr>mg_timers := ts\<rparr>) e = timer_valid s e"
  unfolding timer_valid_def by (cases "mg_connections s (connection_handle e)") simp_all

lemma inv_same:
  assumes "mgr_inv s" and "heap_inv (mg_timers s')" and "mg_config s' = mg_config s" "mg_next_handle s' = mg_next_handle s"
    "mg_connections s' = mg_connections s" "os_open s' = os_open s"
    "mg_active_connection_count s' = mg_active_connection_count s" "os_interest s' = os_interest s"
  shows "mgr_inv s'"
  using assms(1,2) unfolding mgr_inv_def connection_ok_def counted_handles_def assms(3-) by blast

lemma inv_timers: "mgr_inv s \<Longrightarrow> heap_inv ts \<Longrightarrow> mgr_inv (s\<lparr>mg_timers := ts\<rparr>)"
  by (erule inv_same) simp_all

lemma inv_heap: "mgr_inv s \<Longrightarrow> heap_inv (mg_timers s)"
  by (simp add: mgr_inv_def)

lemma pop_timer_heap: "heap_inv ts \<Longrightarrow> heap_inv (pop_timer ts)"
  by (auto simp: pop_timer_def split: option.split dest: heap_pop_Some)

lemma pop_timer_set: "ts \<noteq> [] \<Longrightarrow> mset ts = add_mset (ts ! 0) (mset (pop_timer ts))"
  by (auto simp: pop_timer_def heap_pop_None dest: heap_pop_entries split: option.split)

text \<open>Looking for the next timer removes stale entries only.\<close>

definition timers_trimmed :: "'u sw_mgr \<Rightarrow> sw_timer_entry list \<Rightarrow> bool" where
  "timers_trimmed s ts \<longleftrightarrow> (heap_inv (mg_timers s) \<longrightarrow> heap_inv ts) \<and> set ts \<subseteq> set (mg_timers s) \<and>
     (\<forall>e\<in>set (mg_timers s). timer_valid s e \<longrightarrow> e \<in> set ts)"

lemma peek_spec:
  "\<exists>ts. sw_mgr_peek_timer s = (if ts = [] then None else Some (ts ! 0), s\<lparr>mg_timers := ts\<rparr>) \<and> timers_trimmed s ts \<and>
     (ts \<noteq> [] \<longrightarrow> timer_valid s (ts ! 0))"
proof (induction s rule: sw_mgr_peek_timer.induct)
  case (1 s)
  show ?case
  proof (cases "mg_timers s = [] \<or> timer_valid s (mg_timers s ! 0)")
    case True
    then have "sw_mgr_peek_timer s = (if mg_timers s = [] then None else Some (mg_timers s ! 0), s\<lparr>mg_timers := mg_timers s\<rparr>)"
      by (subst sw_mgr_peek_timer.simps) auto
    with True show ?thesis by (intro exI[of _ "mg_timers s"]) (auto simp: timers_trimmed_def)
  next
    case False
    let ?s = "s\<lparr>mg_timers := pop_timer (mg_timers s)\<rparr>"
    have eq: "sw_mgr_peek_timer s = sw_mgr_peek_timer ?s" using False by (simp add: sw_mgr_peek_timer.simps[of s])
    from 1 False obtain ts where ts: "sw_mgr_peek_timer ?s = (if ts = [] then None else Some (ts ! 0), ?s\<lparr>mg_timers := ts\<rparr>)"
      "timers_trimmed ?s ts" "ts \<noteq> [] \<longrightarrow> timer_valid ?s (ts ! 0)" by metis
    have "set (mg_timers s) = insert (mg_timers s ! 0) (set (pop_timer (mg_timers s)))"
      using False pop_timer_set[of "mg_timers s"] by (metis set_mset_add_mset_insert set_mset_mset)
    with ts(2) False pop_timer_heap have "timers_trimmed s ts" by (auto simp: timers_trimmed_def)
    with ts eq show ?thesis by (intro exI[of _ ts]) simp
  qed
qed

lemma expire_loop_inv:
  "mgr_inv s \<Longrightarrow> yields (expire_loop fuel A now s) (\<lambda>(d, s'). mgr_inv s')"
proof (induction fuel arbitrary: s)
  case (Suc fuel)
  obtain ts where p: "sw_mgr_peek_timer s = (if ts = [] then None else Some (ts ! 0), s\<lparr>mg_timers := ts\<rparr>)"
    and t: "timers_trimmed s ts" "ts \<noteq> [] \<longrightarrow> timer_valid s (ts ! 0)"
    using peek_spec[of s] by blast
  let ?s = "s\<lparr>mg_timers := ts\<rparr>" and ?p = "s\<lparr>mg_timers := pop_timer ts\<rparr>"
  have heap: "heap_inv ts" using t(1) Suc.prems by (simp add: timers_trimmed_def mgr_inv_def)
  have i: "mgr_inv ?s" "mgr_inv ?p" using Suc.prems heap by (simp_all add: inv_timers pop_timer_heap)
  show ?case
  proof (cases "ts = [] \<or> due_ms (ts ! 0) > now")
    case True
    then show ?thesis using i(1) by (auto simp: p)
  next
    case False
    then obtain c where c: "mg_connections ?p (connection_handle (ts ! 0)) = Some c"
      using t(2) by (auto simp: timer_valid_def split: option.splits)
    have "expire_loop (Suc fuel) A now s = (expire_connection A (connection_handle (ts ! 0)) ?p \<bind> expire_loop fuel A now)"
      using False by (simp add: p)
    then show ?thesis
      using moves_inv[OF expire_moves i(2) c] Suc.IH by (auto intro: yields_get)
  qed
qed simp

lemma now_spec: "sw_now_ms s = (t, s') \<Longrightarrow> \<exists>ds. s' = s\<lparr>os_now := t, os_ticks := ds\<rparr>"
  unfolding sw_now_ms_def by (cases "os_ticks s") (auto intro: exI[of _ "os_ticks s"])

lemma now_inv: "mgr_inv s \<Longrightarrow> sw_now_ms s = (t, s') \<Longrightarrow> mgr_inv s'"
proof -
  assume i: "mgr_inv s" and n: "sw_now_ms s = (t, s')"
  from now_spec[OF n] obtain ds where s': "s' = s\<lparr>os_now := t, os_ticks := ds\<rparr>" ..
  show ?thesis unfolding s' by (rule inv_same[OF i]) (simp_all add: inv_heap[OF i])
qed

lemma expire_timeouts_inv: "mgr_inv s \<Longrightarrow> yields (sw_mgr_expire_timeouts A s) (\<lambda>(d, s'). mgr_inv s')"
  unfolding sw_mgr_expire_timeouts_def Let_def by (rule yields_pair, rule expire_loop_inv, erule (1) now_inv)

lemma effective_timeout_inv: "mgr_inv s \<Longrightarrow> sw_mgr_effective_poll_timeout t s = (r, s') \<Longrightarrow> mgr_inv s'"
proof -
  assume i: "mgr_inv s" and e: "sw_mgr_effective_poll_timeout t s = (r, s')"
  obtain now s1 where n: "sw_now_ms s = (now, s1)" by (cases "sw_now_ms s")
  obtain ts where p: "sw_mgr_peek_timer s1 = (if ts = [] then None else Some (ts ! 0), s1\<lparr>mg_timers := ts\<rparr>)"
    and tt: "timers_trimmed s1 ts" using peek_spec[of s1] by blast
  have "s' = s1\<lparr>mg_timers := ts\<rparr>" using e by (auto simp: sw_mgr_effective_poll_timeout_def n p Let_def split: if_splits)
  moreover have "mgr_inv s1" using now_inv[OF i n] .
  ultimately show ?thesis using tt inv_heap[of s1] by (simp add: inv_timers timers_trimmed_def)
qed

section \<open>Accepting\<close>

text \<open>The kernel's side: the descriptor \<^verbatim>\<open>accept\<close> returns is not open at that moment.\<close>

fun accept_fresh :: "sw_listener \<Rightarrow> nat \<Rightarrow> accept_answer list \<Rightarrow> 'u sw_mgr \<Rightarrow> bool" where
  "accept_fresh L l [] s = True"
| "accept_fresh L l (Accept_error # rest) s = True"
| "accept_fresh L l (Accept_no_nonblocking fd # rest) s =
     accept_fresh L l rest (s\<lparr>os_accept := (os_accept s)(l := rest)\<rparr>)"
| "accept_fresh L l (Accept_socket fd host port # rest) s =
     (fd \<noteq> -1 \<and> \<not> os_open s fd \<and>
      (let s = s\<lparr>os_accept := (os_accept s)(l := rest), os_open := (os_open s)(fd := True)\<rparr>;
           (ok, s) = sw_mgr_try_reserve_connection s
       in if \<not> ok then accept_fresh L l rest (sw_socket_close fd s)
          else let (rc, s) = sw_mgr_dispatch_connection L l fd host port True s in
            if rc \<noteq> 0 then True else accept_fresh L l rest s))"

lemma close_not_open: "\<not> os_open s fd \<Longrightarrow> (os_open s)(fd := False) = os_open s"
  by (simp add: fun_upd_idem)

lemma inv_accept_queue: "mgr_inv s \<Longrightarrow> mgr_inv (s\<lparr>os_accept := q\<rparr>)"
  by (frule inv_heap, erule inv_same) simp_all

text \<open>A connection that cannot be registered leaves nothing behind, and a registered one is in order.\<close>

lemma register_inv:
  assumes "mgr_inv s" and "mg_connections s h = None" and "h = mg_next_handle s" and "c_fd c = fd"
    and "fd \<noteq> -1" "\<not> os_open s fd" "c_has_handler c" "c_counted c" "c_read_buffer c = []"
    and room: "max_connections (mg_config s) > 0 \<Longrightarrow> mg_active_connection_count s < max_connections (mg_config s)"
    and s': "mg_config s' = mg_config s" "mg_next_handle s' = h + 1" "mg_connections s' = (mg_connections s)(h \<mapsto> c)"
      "os_open s' = (os_open s)(fd := True)" "os_interest s' = (os_interest s)(fd \<mapsto> ev)"
      "mg_active_connection_count s' = mg_active_connection_count s + 1" "mg_timers s' = mg_timers s"
  shows "mgr_inv s'"
proof (rule mgr_invI)
  show "heap_inv (mg_timers s')" using assms(1) s' by (simp add: inv_heap)
  show "connection_ok s' h' d" if "mg_connections s' h' = Some d" for h' d
  proof (cases "h' = h")
    case True
    with that show ?thesis using assms(3-9) s' by (simp add: connection_ok_def rb_ok_def)
  next
    case False
    with that show ?thesis using inv_connection[OF assms(1), of h' d] s' assms(3) by (auto simp: connection_ok_def)
  qed
  have fresh: "c_fd d \<noteq> fd" if "mg_connections s h' = Some d" for h' d
    using inv_connection[OF assms(1) that] assms(6) by (auto simp: connection_ok_def)
  show "h1 = h2" if "mg_connections s' h1 = Some d" "mg_connections s' h2 = Some e" "c_fd d = c_fd e" for h1 h2 d e
    using that fresh[of h1 d] fresh[of h2 e] inv_fd[OF assms(1), of h1 d h2 e] assms(4) by (auto simp: s' split: if_splits)
  show "\<exists>h d. mg_connections s' h = Some d \<and> c_fd d = x" if op: "os_open s' x" for x
  proof (cases "x = fd")
    case True
    then show ?thesis using assms(4) s' by auto
  next
    case False
    with op s' obtain h' d where "mg_connections s h' = Some d" "c_fd d = x" using inv_open[OF assms(1)] by auto
    then show ?thesis using assms(2) s' by (intro exI[of _ h'] exI[of _ d]) auto
  qed
  show "os_open s' x" if "os_interest s' x \<noteq> None" for x
    using that inv_interest[OF assms(1), of x] s' by (auto split: if_splits)
  have "counted_handles s' = insert h (counted_handles s)" "h \<notin> counted_handles s"
    using assms(2,8) s' by (auto simp: counted_handles_def)
  then show "mg_active_connection_count s' = card (counted_handles s')"
    using assms(1) s' inv_counted_finite[OF assms(1)] by (simp add: mgr_inv_def)
  show "mg_active_connection_count s' \<le> max_connections (mg_config s')" if "max_connections (mg_config s') > 0"
    using that room s' by simp
qed

lemma inv_next_free: "mgr_inv s \<Longrightarrow> mg_connections s (mg_next_handle s) = None"
  using inv_connection[of s "mg_next_handle s"] by (cases "mg_connections s (mg_next_handle s)") (auto simp: connection_ok_def)

text \<open>Which handles are free, and which timers a new connection has.\<close>

lemma connection_create_inv:
  fixes s :: "'u sw_mgr"
  assumes "mgr_inv s" and "fd \<noteq> -1" and "\<not> os_open s fd" and "ls_has_handler L"
    and room: "max_connections (mg_config s) > 0 \<Longrightarrow> mg_active_connection_count s < max_connections (mg_config s)"
    and created: "sw_connection_create L l fd host port True
      (s\<lparr>os_open := (os_open s)(fd := True), mg_active_connection_count := mg_active_connection_count s + 1\<rparr>) = (r, s')"
  shows "case r of Some h \<Rightarrow> mgr_inv s' | None \<Rightarrow> mgr_inv (sw_socket_close fd (sw_mgr_release_connection s'))"
proof -
  let ?s = "s\<lparr>os_open := (os_open s)(fd := True), mg_active_connection_count := mg_active_connection_count s + 1\<rparr>"
  obtain now s1 where n: "sw_now_ms ?s = (now, s1)" by (cases "sw_now_ms ?s")
  obtain ds where s1: "s1 = ?s\<lparr>os_now := now, os_ticks := ds\<rparr>" using now_spec[OF n] by auto
  let ?h = "mg_next_handle s"
  let ?c = "new_connection fd l True (ls_tls_enabled L) host port True now"
  let ?s2 = "put ?h ?c (s1\<lparr>mg_next_handle := ?h + 1\<rparr>)"
  obtain rc s3 where ctl: "epoll_ctl fd (sw_backend_connection_events ?c) ?s2 = (rc, s3)" by (cases "epoll_ctl fd (sw_backend_connection_events ?c) ?s2")
  have fields: "c_fd ?c = fd" "c_has_handler ?c" "c_counted ?c" "c_read_buffer ?c = []" by (simp_all add: new_connection_def)
  have h1: "mg_next_handle s1 = ?h" by (simp add: s1)
  have run: "(r, s') = (if rc \<noteq> 0 then (None, s3\<lparr>mg_connections := (mg_connections s3)(?h := None)\<rparr>)
      else (case sw_mgr_schedule_connection_timeout ?h s3 of None \<Rightarrow> (None, s3) | Some s \<Rightarrow> (Some ?h, s)))"
    using created[symmetric]
    by (simp only: sw_connection_create_def n Let_def prod.case sw_backend_register_connection_def fields assms(4) h1 ctl simp_thms)
  have free: "mg_connections s ?h = None" by (rule inv_next_free[OF assms(1)])
  have s3: "mg_config s3 = mg_config s" "mg_next_handle s3 = ?h + 1" "mg_connections s3 = (mg_connections s)(?h \<mapsto> ?c)"
    "os_open s3 = (os_open s)(fd := True)" "mg_timers s3 = mg_timers s"
    "mg_active_connection_count s3 = mg_active_connection_count s + 1"
    using ctl by (auto simp: epoll_ctl_def s1 split: list.splits if_splits)
  have int: "if rc = 0 then os_interest s3 = (os_interest s)(fd \<mapsto> sw_backend_connection_events ?c) else os_interest s3 = os_interest s"
    using ctl by (auto simp: epoll_ctl_def s1 split: list.splits if_splits)
  show ?thesis
  proof (cases "rc = 0")
    case True
    have i3: "mgr_inv s3"
      using register_inv[OF assms(1) free refl fields(1) assms(2,3) fields(2-4) room s3(1-4) _ s3(6,5)] int True by simp
    have c3: "mg_connections s3 ?h = Some ?c" using s3(3) by simp
    then obtain s4 where s4: "sw_mgr_schedule_connection_timeout ?h s3 = Some s4" using schedule_some by blast
    have "mgr_inv s4" by (rule moves_inv[OF schedule_moves i3 c3 s4])
    then show ?thesis using run True s4 by simp
  next
    case False
    let ?r = "sw_socket_close fd (sw_mgr_release_connection s')"
    have "s' = s3\<lparr>mg_connections := (mg_connections s3)(?h := None)\<rparr>" "r = None" using run False by simp_all
    moreover have "(os_open s)(fd := False) = os_open s" using assms(3) by (rule close_not_open)
    ultimately have same: "mg_config ?r = mg_config s" "mg_next_handle ?r = ?h + 1" "mg_connections ?r = mg_connections s"
      "os_open ?r = os_open s" "os_interest ?r = os_interest s" "mg_timers ?r = mg_timers s"
      "mg_active_connection_count ?r = mg_active_connection_count s"
      using s3 int False free assms(3) by (auto simp: sw_socket_close_def sw_mgr_release_connection_def)
    have "mgr_inv ?r"
      using assms(1) unfolding mgr_inv_def connection_ok_def counted_handles_def same by (auto intro: less_SucI)
    then show ?thesis using \<open>r = None\<close> by simp
  qed
qed

lemma dispatch_inv:
  assumes "mgr_inv s" and "fd \<noteq> -1" and "\<not> os_open s fd" and "ls_has_handler L"
    and "max_connections (mg_config s) > 0 \<Longrightarrow> mg_active_connection_count s < max_connections (mg_config s)"
    and "sw_mgr_dispatch_connection L l fd host port True
      (s\<lparr>os_open := (os_open s)(fd := True), mg_active_connection_count := mg_active_connection_count s + 1\<rparr>) = (rc, s')"
  shows "if rc \<noteq> 0 then mgr_inv (sw_socket_close fd (sw_mgr_release_connection s')) else mgr_inv s'"
proof -
  let ?s = "s\<lparr>os_open := (os_open s)(fd := True), mg_active_connection_count := mg_active_connection_count s + 1\<rparr>"
  obtain r s1 where c: "sw_connection_create L l fd host port True ?s = (r, s1)" by (cases "sw_connection_create L l fd host port True ?s")
  have "(rc, s') = (case r of None \<Rightarrow> (-1, s1) | Some h \<Rightarrow> (0, s1))"
    using assms(6)[symmetric] assms(2) c[simplified] by (simp add: sw_mgr_dispatch_connection_def split: option.split)
  then show ?thesis using connection_create_inv[OF assms(1-5) c] by (cases r) simp_all
qed

lemma accept_loop_inv:
  "mgr_inv s \<Longrightarrow> ls_has_handler L \<Longrightarrow> accept_fresh L l answers s \<Longrightarrow> mgr_inv (snd (accept_loop L l answers s))"
proof (induction answers arbitrary: s)
  case (Cons a rest)
  let ?q = "(os_accept s)(l := rest)"
  let ?s = "s\<lparr>os_accept := ?q\<rparr>"
  have i: "mgr_inv ?s" by (rule inv_accept_queue[OF Cons.prems(1)])
  show ?case
  proof (cases a)
    case (Accept_socket fd host port)
    let ?o = "s\<lparr>os_accept := ?q, os_open := (os_open s)(fd := True)\<rparr>"
    have fd: "fd \<noteq> -1" "\<not> os_open ?s fd" using Cons.prems(3) Accept_socket by simp_all
    obtain ok s1 where r: "sw_mgr_try_reserve_connection ?o = (ok, s1)" by (cases "sw_mgr_try_reserve_connection ?o")
    show ?thesis
    proof (cases ok)
      case False
      have "(os_open s)(fd := False) = os_open s" using fd(2) by (simp add: close_not_open)
      then have "sw_socket_close fd s1 = ?s"
        using r False by (auto simp: sw_mgr_try_reserve_connection_def sw_socket_close_def Let_def split: if_splits)
      then have "accept_loop L l (a # rest) s = accept_loop L l rest ?s" "accept_fresh L l rest ?s"
        using r False Cons.prems(3) Accept_socket by simp_all
      then show ?thesis using Cons.IH[OF i Cons.prems(2)] by (simp del: accept_loop.simps)
    next
      case True
      have res: "\<not> (max_connections (mg_config s) > 0 \<and> mg_active_connection_count s \<ge> max_connections (mg_config s)) \<and>
          ?o\<lparr>mg_active_connection_count := mg_active_connection_count s + 1\<rparr> = s1"
        using r True unfolding sw_mgr_try_reserve_connection_def Let_def by (simp split: if_splits)
      then have s1: "s1 = ?s\<lparr>os_open := (os_open ?s)(fd := True), mg_active_connection_count := mg_active_connection_count ?s + 1\<rparr>"
        and room: "max_connections (mg_config ?s) > 0 \<Longrightarrow> mg_active_connection_count ?s < max_connections (mg_config ?s)"
        by simp_all
      obtain rc2 s2 where d: "sw_mgr_dispatch_connection L l fd host port True s1 = (rc2, s2)"
        by (cases "sw_mgr_dispatch_connection L l fd host port True s1")
      have inv2: "if rc2 \<noteq> 0 then mgr_inv (sw_socket_close fd (sw_mgr_release_connection s2)) else mgr_inv s2"
        using dispatch_inv[OF i fd Cons.prems(2) room d[unfolded s1]] .
      have "accept_loop L l (a # rest) s = (if rc2 \<noteq> 0 then (-1, sw_socket_close fd (sw_mgr_release_connection s2))
          else accept_loop L l rest s2)" "rc2 = 0 \<Longrightarrow> accept_fresh L l rest s2"
        using r True d Cons.prems(3) Accept_socket by simp_all
      then show ?thesis using inv2 Cons.IH[OF _ Cons.prems(2), of s2] by (simp del: accept_loop.simps split: if_splits)
    qed
  next
    case (Accept_no_nonblocking fd)
    have "accept_loop L l (a # rest) s = accept_loop L l rest ?s" "accept_fresh L l rest ?s"
      using Cons.prems(3) Accept_no_nonblocking by simp_all
    then show ?thesis using Cons.IH[OF i Cons.prems(2)] by (simp del: accept_loop.simps)
  next
    case Accept_error
    then show ?thesis using i by simp
  qed
qed simp

text \<open>Accepting leaves the connections alone that are already there.\<close>

lemma schedule_others:
  "h' \<noteq> h \<Longrightarrow> yields (sw_mgr_schedule_connection_timeout h s)
     (\<lambda>s'. mg_connections s' h' = mg_connections s h' \<and> mg_next_handle s' = mg_next_handle s)"
  unfolding sw_mgr_schedule_connection_timeout_def Let_def by (intro yields_get) (simp split: option.split)

lemma create_others:
  fixes s :: "'u sw_mgr"
  assumes "h' < mg_next_handle s" and "sw_connection_create L l fd host port cnt s = (r, s')"
  shows "mg_connections s' h' = mg_connections s h' \<and> mg_next_handle s' = mg_next_handle s + 1"
proof -
  let ?h = "mg_next_handle s"
  obtain now s1 where n: "sw_now_ms s = (now, s1)" by (cases "sw_now_ms s")
  from now_spec[OF n] obtain ds where s1: "s1 = s\<lparr>os_now := now, os_ticks := ds\<rparr>" ..
  have h1: "mg_next_handle s1 = ?h" by (simp add: s1)
  let ?c = "new_connection fd l (ls_has_handler L) (ls_tls_enabled L) host port cnt now"
  let ?s2 = "put ?h ?c (s1\<lparr>mg_next_handle := ?h + 1\<rparr>)"
  obtain rc s3 where ctl: "sw_backend_register_connection ?c ?s2 = (rc, s3)" by (cases "sw_backend_register_connection ?c ?s2")
  have s3: "mg_connections s3 h' = mg_connections s h'" "mg_next_handle s3 = ?h + 1"
    using ctl assms(1) by (auto simp: sw_backend_register_connection_def epoll_ctl_def s1 split: list.splits if_splits)
  have run: "(r, s') = (if rc \<noteq> 0 then (None, s3\<lparr>mg_connections := (mg_connections s3)(?h := None)\<rparr>)
      else (case sw_mgr_schedule_connection_timeout ?h s3 of None \<Rightarrow> (None, s3) | Some s \<Rightarrow> (Some ?h, s)))"
    using assms(2)[symmetric] by (simp only: sw_connection_create_def n Let_def prod.case h1 ctl)
  have "h' \<noteq> ?h" using assms(1) by simp
  from schedule_others[OF this, of s3] run s3 assms(1) show ?thesis
    by (auto simp: yields_def split: if_splits option.splits)
qed

lemma dispatch_others:
  assumes "h' < mg_next_handle s" and "sw_mgr_dispatch_connection L l fd host port cnt s = (r, s')"
  shows "mg_connections s' h' = mg_connections s h' \<and> mg_next_handle s \<le> mg_next_handle s'"
proof (cases "fd = -1")
  case False
  obtain o' s1 where c: "sw_connection_create L l fd host port cnt s = (o', s1)" by (cases "sw_connection_create L l fd host port cnt s")
  have "s' = s1" using assms(2) False c by (auto simp: sw_mgr_dispatch_connection_def split: option.splits)
  then show ?thesis using create_others[OF assms(1) c] by simp
qed (use assms in \<open>simp add: sw_mgr_dispatch_connection_def\<close>)

lemma release_simps [simp]:
  "mg_connections (sw_mgr_release_connection s) = mg_connections s" "mg_next_handle (sw_mgr_release_connection s) = mg_next_handle s"
  "mg_connections (sw_socket_close fd s) = mg_connections s" "mg_next_handle (sw_socket_close fd s) = mg_next_handle s"
  by (simp_all add: sw_mgr_release_connection_def sw_socket_close_def)

lemma reserve_simps:
  "sw_mgr_try_reserve_connection s = (ok, s') \<Longrightarrow> mg_connections s' = mg_connections s \<and> mg_next_handle s' = mg_next_handle s"
  by (auto simp: sw_mgr_try_reserve_connection_def Let_def split: if_splits)

lemma accept_loop_others:
  "h' < mg_next_handle s \<Longrightarrow> mg_connections (snd (accept_loop L l answers s)) h' = mg_connections s h'"
proof (induction answers arbitrary: s)
  case (Cons a rest)
  show ?case
  proof (cases a)
    case (Accept_socket fd host port)
    let ?o = "s\<lparr>os_accept := (os_accept s)(l := rest), os_open := (os_open s)(fd := True)\<rparr>"
    obtain ok s1 where r: "sw_mgr_try_reserve_connection ?o = (ok, s1)" by (cases "sw_mgr_try_reserve_connection ?o")
    obtain rc s2 where d: "sw_mgr_dispatch_connection L l fd host port True s1 = (rc, s2)"
      by (cases "sw_mgr_dispatch_connection L l fd host port True s1")
    have s1: "mg_connections s1 = mg_connections s" "h' < mg_next_handle s1" using reserve_simps[OF r] Cons.prems by simp_all
    have s2: "mg_connections s2 h' = mg_connections s h'" "h' < mg_next_handle s2"
      using dispatch_others[OF s1(2) d] s1 by simp_all
    have "accept_loop L l (a # rest) s = (if \<not> ok then accept_loop L l rest (sw_socket_close fd s1)
        else if rc \<noteq> 0 then (-1, sw_socket_close fd (sw_mgr_release_connection s2)) else accept_loop L l rest s2)"
      using Accept_socket r d by simp
    then show ?thesis using Cons.IH[of "sw_socket_close fd s1"] Cons.IH[of s2] s1 s2 by (simp del: accept_loop.simps)
  next
    case (Accept_no_nonblocking fd)
    then show ?thesis using Cons.IH[of "s\<lparr>os_accept := (os_accept s)(l := rest)\<rparr>"] Cons.prems by simp
  qed simp
qed simp

section \<open>The event loop\<close>

text \<open>
  The kernel's side during one round. A wait reports each connection at most once and only
  registered, hence live, ones; accepted descriptors are new.
\<close>

fun event_handles :: "event list \<Rightarrow> nat list" where
  "event_handles [] = []"
| "event_handles (Listener_event l # events) = event_handles events"
| "event_handles (Connection_event h hup r w # events) = h # event_handles events"

definition events_ok :: "event list \<Rightarrow> 'u sw_mgr \<Rightarrow> bool" where
  "events_ok events s \<longleftrightarrow> distinct (event_handles events) \<and> (\<forall>h\<in>set (event_handles events). mg_connections s h \<noteq> None)"

fun accepts_fresh :: "'u application \<Rightarrow> (nat \<Rightarrow> sw_listener) \<Rightarrow> event list \<Rightarrow> 'u sw_mgr \<Rightarrow> bool" where
  "accepts_fresh A Ls [] s = True"
| "accepts_fresh A Ls (Listener_event l # events) s =
     (ls_has_handler (Ls l) \<and> accept_fresh (Ls l) l (os_accept s l) s \<and>
      accepts_fresh A Ls events (snd (sw_mgr_accept_ready (Ls l) l s)))"
| "accepts_fresh A Ls (Connection_event h hup r w # events) s =
     (case handle_event A h hup r w s of None \<Rightarrow> True | Some s \<Rightarrow> accepts_fresh A Ls events s)"

lemma events_ok_accept:
  assumes "mgr_inv s" and "events_ok (Listener_event l # events) s"
  shows "events_ok events (snd (sw_mgr_accept_ready L l s))"
  using assms accept_loop_others[of _ s L l "os_accept s l"] inv_connection[OF assms(1)]
  by (fastforce simp: events_ok_def sw_mgr_accept_ready_def connection_ok_def)

lemma events_ok_handle:
  assumes "events_ok (Connection_event h hup r w # events) s" and "handle_event A h hup r w s = Some s'"
  shows "events_ok events s'"
proof -
  obtain c where "mg_connections s h = Some c" using assms(1) by (auto simp: events_ok_def)
  then have "moved h s s'" using moves_end[OF handle_event_moves moved_refl, of s h c A hup r w] assms(2) by simp
  then have "mg_connections s' h' = mg_connections s h'" if "h' \<noteq> h" for h'
    using that by (auto simp: moved_def kept_def closed_def others_kept_def)
  moreover have "h' \<noteq> h" if "h' \<in> set (event_handles events)" for h' using that assms(1) by (auto simp: events_ok_def)
  ultimately show ?thesis using assms(1) by (simp add: events_ok_def)
qed

lemma backend_poll_inv:
  "mgr_inv s \<Longrightarrow> events_ok events s \<Longrightarrow> accepts_fresh A Ls events s \<Longrightarrow>
   yields (sw_backend_poll A Ls events s) (\<lambda>(ok, s'). mgr_inv s')"
proof (induction events arbitrary: s)
  case (Cons e events)
  show ?case
  proof (cases e)
    case (Listener_event l)
    obtain rc s1 where a: "sw_mgr_accept_ready (Ls l) l s = (rc, s1)" by (cases "sw_mgr_accept_ready (Ls l) l s")
    have "mgr_inv s1" using accept_loop_inv[OF Cons.prems(1), of "Ls l" l "os_accept s l"] Cons.prems(3) a Listener_event
      by (simp add: sw_mgr_accept_ready_def)
    moreover have "events_ok events s1"
      using events_ok_accept[OF Cons.prems(1), of l events "Ls l"] Cons.prems(2) a Listener_event by simp
    ultimately show ?thesis using Cons.IH[of s1] Cons.prems(3) a Listener_event by simp
  next
    case (Connection_event h hup r w)
    then obtain c where c: "mg_connections s h = Some c" using Cons.prems(2) by (auto simp: events_ok_def)
    show ?thesis unfolding Connection_event sw_backend_poll.simps
    proof (rule yields_get)
      fix s1 assume s1: "handle_event A h hup r w s = Some s1"
      have "mgr_inv s1" by (rule moves_inv[OF handle_event_moves Cons.prems(1) c s1])
      moreover have "events_ok events s1" using Cons.prems(2) events_ok_handle s1 Connection_event by blast
      ultimately show "yields (sw_backend_poll A Ls events s1) (\<lambda>(ok, s'). mgr_inv s')"
        using Cons.IH[of s1] Cons.prems(3) Connection_event s1 by simp
    qed
  qed
qed simp

text \<open>The state in which the wait happens, after the due connections have been dealt with.\<close>

definition wait_state :: "'u application \<Rightarrow> int \<Rightarrow> 'u sw_mgr \<Rightarrow> 'u sw_mgr option" where
  "wait_state A timeout_ms s = (case sw_mgr_expire_timeouts A s of None \<Rightarrow> None
     | Some (d, s) \<Rightarrow> Some (snd (sw_mgr_effective_poll_timeout timeout_ms s)))"

text \<open>A manager as \<^verbatim>\<open>sw_mgr_create\<close> leaves it, over a kernel that has nothing open for it.\<close>

definition sw_mgr_start :: "sw_server_config \<Rightarrow> real \<Rightarrow> (nat \<Rightarrow> accept_answer list) \<Rightarrow> 'u \<Rightarrow> 'u sw_mgr" where
  "sw_mgr_start cfg now answers user = \<lparr>
     mg_config = cfg, mg_connections = (\<lambda>_. None), mg_next_handle = 0, mg_timers = [], mg_stop_requested = False,
     mg_active_connection_count = 0, os_now = now, os_ticks = [], os_interest = (\<lambda>_. None), os_ctl = [],
     os_open = (\<lambda>_. False), os_accept = answers, os_input = (\<lambda>_. []), os_room = (\<lambda>_. []), os_sent = (\<lambda>_. []),
     os_shutdown = [], os_file = (\<lambda>_. None), os_next_file = 0, mg_user = user\<rparr>"

lemma mgr_start_inv: "mgr_inv (sw_mgr_start cfg now answers user)"
  by (simp add: mgr_inv_def sw_mgr_start_def counted_handles_def heap_Nil)


text \<open>A first connection, accepted on a running manager.\<close>

definition quiet_app :: "'u application" where
  "quiet_app = \<lparr>app_files = \<lparr>fs_realpath = (\<lambda>_. None), fs_stat = (\<lambda>_. None), fs_open = (\<lambda>_. None)\<rparr>,
     app_handler = (\<lambda>l m u. (Finish, u))\<rparr>"

definition first_client :: "unit sw_mgr" where
  "first_client = sw_mgr_start sw_server_config_default 0 (\<lambda>l. [Accept_socket 7 None 4000]) ()"

definition plain_listener :: sw_listener where
  "plain_listener = \<lparr>ls_has_handler = True, ls_tls_enabled = False\<rparr>"

lemma first_accept:
  defines "c \<equiv> (new_connection 7 0 True False None 4000 True 0)\<lparr>c_timer_generation := 1\<rparr>"
  shows "sw_mgr_accept_ready plain_listener 0 first_client =
    (0, first_client\<lparr>os_accept := (os_accept first_client)(0 := []), os_open := (os_open first_client)(7 := True),
      mg_active_connection_count := 1, mg_next_handle := 1, mg_connections := [0 \<mapsto> c], os_interest := [7 \<mapsto> (True, False)],
      mg_timers := [\<lparr>due_ms = 15000, connection_handle = 0, generation = 1\<rparr>]\<rparr>)"
proof -
  let ?o = "first_client\<lparr>os_accept := (os_accept first_client)(0 := []), os_open := (os_open first_client)(7 := True)\<rparr>"
  let ?o1 = "?o\<lparr>mg_active_connection_count := 1\<rparr>"
  let ?n = "new_connection 7 0 True False None 4000 True 0"
  let ?o2 = "?o1\<lparr>mg_next_handle := 1, mg_connections := [0 \<mapsto> ?n], os_interest := [7 \<mapsto> (True, False)]\<rparr>"
  let ?o3 = "?o2\<lparr>mg_connections := [0 \<mapsto> c], mg_timers := [\<lparr>due_ms = 15000, connection_handle = 0, generation = 1\<rparr>]\<rparr>"
  have r: "sw_mgr_try_reserve_connection ?o = (True, ?o1)"
    by (simp add: sw_mgr_try_reserve_connection_def first_client_def sw_mgr_start_def sw_server_config_default_def)
  have n: "sw_now_ms ?o1 = (0, ?o1)" by (simp add: sw_now_ms_def first_client_def sw_mgr_start_def)
  have reg: "sw_backend_register_connection ?n (put 0 ?n (?o1\<lparr>mg_next_handle := 1\<rparr>)) = (0, ?o2)"
    by (simp add: sw_backend_register_connection_def epoll_ctl_def put_def first_client_def sw_mgr_start_def
        sw_backend_connection_events_def sw_connection_wants_read_def sw_connection_wants_write_def
        sw_connection_has_pending_output_def new_connection_def)
  have push: "sw_timer_heap_push [] e = [e]" for e by (simp add: sw_timer_heap_push_def sift_up.simps)
  have sch: "sw_mgr_schedule_connection_timeout 0 ?o2 = Some ?o3"
    by (simp add: sw_mgr_schedule_connection_timeout_def first_client_def sw_mgr_start_def push put_def c_def
        sw_connection_timeout_due_ms_def sw_connection_has_pending_output_def new_connection_def sw_server_config_default_def sooner_def)
  have "sw_connection_create plain_listener 0 7 None 4000 True ?o1 = (Some 0, ?o3)"
    unfolding sw_connection_create_def n Let_def prod.case
    using reg sch by (simp add: plain_listener_def first_client_def sw_mgr_start_def)
  then have d: "sw_mgr_dispatch_connection plain_listener 0 7 None 4000 True ?o1 = (0, ?o3)"
    by (simp add: sw_mgr_dispatch_connection_def)
  have "os_accept first_client 0 = [Accept_socket 7 None 4000]" by (simp add: first_client_def sw_mgr_start_def)
  then show ?thesis using r d by (simp add: sw_mgr_accept_ready_def)
qed

lemma first_expire: "sw_mgr_expire_timeouts quiet_app first_client = Some (True, first_client)"
  by (simp add: first_client_def sw_mgr_start_def sw_mgr_expire_timeouts_def sw_now_ms_def sw_mgr_peek_timer.simps)

lemma first_timeout: "sw_mgr_effective_poll_timeout (-1) first_client = (-1, first_client)"
  by (simp add: first_client_def sw_mgr_start_def sw_mgr_effective_poll_timeout_def sw_now_ms_def sw_mgr_peek_timer.simps)

lemma first_wait:
  assumes "wait_state quiet_app (-1) first_client = Some w" and "Some [Listener_event 0] = Some es"
  shows "events_ok es w \<and> accepts_fresh quiet_app (\<lambda>_. plain_listener) es w"
proof -
  have "w = first_client" "es = [Listener_event 0]" using assms by (simp_all add: wait_state_def first_expire first_timeout)
  moreover have "accept_fresh plain_listener 0 [Accept_socket 7 None 4000] first_client"
    by (simp add: first_client_def sw_mgr_start_def Let_def split: prod.split)
  ultimately show ?thesis
    by (simp add: events_ok_def plain_listener_def) (simp add: first_client_def sw_mgr_start_def)
qed


end
