(* ===== verification/ManagerTotal.thy ===== *)
theory ManagerTotal
  imports ManagerInv
begin

text \<open>
  Totality of the event loop: as long as \<^verbatim>\<open>epoll_ctl\<close> does not fail and the write buffer has room for the
  replies of the server itself, no operation uses a connection after it has been freed. Without
  either assumption the code does. The head and body of such a reply are shorter than 512 bytes,
  headers that the handler has queued come on top: so what handlers queue is bounded by the rest of the
  buffer before they serve a path, and is not left behind when they end.
\<close>

section \<open>Results that exist\<close>

definition gives :: "'a option \<Rightarrow> ('a \<Rightarrow> bool) \<Rightarrow> bool" where
  "gives r P \<longleftrightarrow> (\<exists>x. r = Some x \<and> P x)"

lemma gives_Some [simp]: "gives (Some x) P = P x" "\<not> gives None P"
  by (simp_all add: gives_def)

lemma gives_weaken: "gives m P \<Longrightarrow> (\<And>x. P x \<Longrightarrow> Q x) \<Longrightarrow> gives m Q"
  by (auto simp: gives_def)

lemma gives_bind: "gives m P \<Longrightarrow> (\<And>x. P x \<Longrightarrow> gives (f x) Q) \<Longrightarrow> gives (m \<bind> f) Q"
  by (auto simp: gives_def)

lemma gives_bind_r:
  "gives m (\<lambda>(r, s). P r s) \<Longrightarrow> (\<And>r s. P r s \<Longrightarrow> gives (f (r, s)) Q) \<Longrightarrow> gives (m \<bind> f) Q"
  by (auto simp: gives_def)

lemma gives_pair: "(\<And>a b. p = (a, b) \<Longrightarrow> gives (f a b) P) \<Longrightarrow> gives (case p of (a, b) \<Rightarrow> f a b) P"
  by (cases p) simp

lemma gives_if: "(b \<Longrightarrow> gives m P) \<Longrightarrow> (\<not> b \<Longrightarrow> gives n P) \<Longrightarrow> gives (if b then m else n) P"
  by simp

definition reply_room :: nat where
  "reply_room = 512"

section \<open>What handlers may queue\<close>

text \<open>How much a call can queue, and the queue behind it as far as its result tells.\<close>

definition ptr_len :: "cptr \<Rightarrow> nat" where
  "ptr_len p = length (cstr_of p)"

definition cookie_len :: "cptr \<Rightarrow> cptr \<Rightarrow> sw_http_cookie option \<Rightarrow> nat" where
  "cookie_len name v opts =
     (let c = (case opts of Some c \<Rightarrow> c | None \<Rightarrow> sw_http_cookie_default)
      in ptr_len name + ptr_len v + ptr_len (ck_expires c) + ptr_len (ck_domain c) + ptr_len (ck_path c) + 192)"

definition queued_after :: "nat \<Rightarrow> api_call \<Rightarrow> int \<Rightarrow> nat" where
  "queued_after q a rc =
     (case a of
        Reply st ct body \<Rightarrow> 0
      | Replyf st ct formatted \<Rightarrow> 0
      | Redirect l \<Rightarrow> if rc = 0 then 0 else q
      | Serve_path docroot path \<Rightarrow> if rc = 0 then 0 else q
      | Set_header n v \<Rightarrow> if rc = 0 then q + ptr_len n + ptr_len v + 4 else q
      | Set_cookie n v opts \<Rightarrow> if rc = 0 then q + cookie_len n v opts else q
      | Clear_cookie n opts \<Rightarrow> if rc = 0 then q + cookie_len n None opts else q
      | _ \<Rightarrow> q)"

text \<open>
  A handler is polite when, whatever its calls return, the headers it has queued leave room for a reply
  of the server before it serves a path, and are not left behind when it ends: a handler that queues
  headers goes on to reply.
\<close>

primrec polite :: "nat \<Rightarrow> nat \<Rightarrow> program \<Rightarrow> bool" where
  "polite limit q Finish \<longleftrightarrow> q = 0"
| "polite limit q (Call a k) \<longleftrightarrow>
     (case a of Serve_path docroot path \<Rightarrow> q + reply_room \<le> limit | _ \<Rightarrow> True) \<and> (\<forall>rc. polite limit (queued_after q a rc) (k rc))"

definition polite_app :: "nat \<Rightarrow> 'u application \<Rightarrow> bool" where
  "polite_app limit A \<longleftrightarrow> (\<forall>l m u. polite limit 0 (fst (app_handler A l m u)))"

text \<open>The kernel and the configuration make no reply of the server fail.\<close>

definition calm :: "'u application \<Rightarrow> 'u sw_mgr \<Rightarrow> bool" where
  "calm A s \<longleftrightarrow> os_ctl s = [] \<and> config_ranges (mg_config s)
     \<and> reply_room \<le> max_write_buffer_bytes (mg_config s) \<and> max_write_buffer_bytes (mg_config s) \<le> SIZE_MAX
     \<and> polite_app (max_write_buffer_bytes (mg_config s)) A"

text \<open>What the queued headers take in the head of the next response.\<close>

definition header_bytes :: "sw_http_header list \<Rightarrow> nat" where
  "header_bytes hs = length (concat (header_parts hs))"

lemma header_bytes_simps [simp]: "header_bytes [] = 0"
  "header_bytes (hs @ hs') = header_bytes hs + header_bytes hs'"
  "header_bytes (h # hs) = length (cstr_of (hd_name h)) + length (cstr_of (hd_value h)) + 4 + header_bytes hs"
  by (simp_all add: header_bytes_def header_parts_def)

lemma header_bytes_0 [simp]: "header_bytes hs = 0 \<longleftrightarrow> hs = []"
  by (cases hs) simp_all

abbreviation queued :: "sw_connection \<Rightarrow> nat" where
  "queued c \<equiv> header_bytes (c_response_headers c)"

definition ready :: "'u application \<Rightarrow> nat \<Rightarrow> nat \<Rightarrow> 'u sw_mgr \<Rightarrow> bool" where
  "ready A q h s \<longleftrightarrow> calm A s \<and> (\<exists>c. mg_connections s h = Some c \<and> queued c \<le> q)"

definition gone :: "nat \<Rightarrow> 'u sw_mgr \<Rightarrow> bool" where
  "gone h s \<longleftrightarrow> mg_connections s h = None"

lemma ready_get: "ready A q h s \<Longrightarrow> (\<And>c. mg_connections s h = Some c \<Longrightarrow> queued c \<le> q \<Longrightarrow> gives (f c) Q) \<Longrightarrow> gives (mg_connections s h \<bind> f) Q"
  by (auto simp: ready_def)

lemma calm_moved: "moved h s s' \<Longrightarrow> calm A s \<Longrightarrow> calm A s'"
  by (auto simp: moved_def kept_def closed_def others_kept_def calm_def)

lemma ready_put [simp]: "ready A q h (put h c s) = (calm A s \<and> queued c \<le> q)"
  by (simp add: ready_def calm_def)

lemma ready_calm: "ready A q h s \<Longrightarrow> calm A s"
  by (simp add: ready_def)

lemma calm_os [simp]:
  "calm A (s\<lparr>os_input := i\<rparr>) = calm A s" "calm A (s\<lparr>os_room := r\<rparr>) = calm A s" "calm A (s\<lparr>os_sent := t\<rparr>) = calm A s"
  "calm A (s\<lparr>os_shutdown := u\<rparr>) = calm A s" "calm A (s\<lparr>os_file := f\<rparr>) = calm A s" "calm A (s\<lparr>os_next_file := n\<rparr>) = calm A s"
  "calm A (s\<lparr>mg_user := v\<rparr>) = calm A s" "calm A (s\<lparr>mg_timers := w\<rparr>) = calm A s" "calm A (fclose k s) = calm A s" "calm A (put h c s) = calm A s"
  by (simp_all add: calm_def fclose_def)

lemma ready_os [simp]:
  "ready A q h (s\<lparr>os_input := i\<rparr>) = ready A q h s" "ready A q h (s\<lparr>os_room := r\<rparr>) = ready A q h s" "ready A q h (s\<lparr>os_sent := t\<rparr>) = ready A q h s"
  "ready A q h (s\<lparr>os_shutdown := u\<rparr>) = ready A q h s" "ready A q h (s\<lparr>os_file := f\<rparr>) = ready A q h s" "ready A q h (s\<lparr>os_next_file := n\<rparr>) = ready A q h s"
  "ready A q h (s\<lparr>mg_user := v\<rparr>) = ready A q h s" "ready A q h (s\<lparr>mg_timers := w\<rparr>) = ready A q h s" "ready A q h (fclose k s) = ready A q h s"
  by (simp_all add: ready_def)

lemma now_calm: "sw_now_ms s = (t, s') \<Longrightarrow> calm A s' = calm A s"
  by (drule now_spec) (auto simp: calm_def)

lemma now_ready: "sw_now_ms s = (t, s') \<Longrightarrow> ready A q h s' = ready A q h s"
  using now_calm[of s t s'] now_connections[of s t s'] by (simp add: ready_def)

lemma gives_now:
  assumes "ready A q h s" and "\<And>t s'. ready A q h s' \<Longrightarrow> mg_connections s' = mg_connections s \<Longrightarrow> mg_config s' = mg_config s \<Longrightarrow> gives (f t s') Q"
  shows "gives (case sw_now_ms s of (t, s') \<Rightarrow> f t s') Q"
  using assms now_ready now_connections now_config by (intro gives_pair) blast

section \<open>The building blocks\<close>

text \<open>What an operation leaves: the connection, or the connection unless it reports failure.\<close>

definition fine :: "'u application \<Rightarrow> nat \<Rightarrow> nat \<Rightarrow> int \<times> 'u sw_mgr \<Rightarrow> bool" where
  "fine A q h = (\<lambda>(r, s). ready A q h s \<or> (r < 0 \<and> gone h s))"

definition there :: "'u application \<Rightarrow> nat \<Rightarrow> nat \<Rightarrow> 'r \<times> 'u sw_mgr \<Rightarrow> bool" where
  "there A q h = (\<lambda>(r, s). ready A q h s)"

definition done0 :: "'u application \<Rightarrow> nat \<Rightarrow> nat \<Rightarrow> int \<times> 'u sw_mgr \<Rightarrow> bool" where
  "done0 A q h = (\<lambda>(r, s). r = 0 \<and> ready A q h s)"

definition alive_if :: "'u application \<Rightarrow> nat \<Rightarrow> nat \<Rightarrow> bool \<times> 'u sw_mgr \<Rightarrow> bool" where
  "alive_if A q h = (\<lambda>(b, s). if b then ready A q h s else gone h s)"

lemma outcomes [simp]:
  "fine A q h (r, s) \<longleftrightarrow> ready A q h s \<or> (r < 0 \<and> gone h s)" "there A q h (r', s) \<longleftrightarrow> ready A q h s" "done0 A q h (r, s) \<longleftrightarrow> r = 0 \<and> ready A q h s"
  "alive_if A q h (b, s) \<longleftrightarrow> (if b then ready A q h s else gone h s)"
  by (simp_all add: fine_def there_def done0_def alive_if_def)

lemma schedule_runs: "ready A q h s \<Longrightarrow> gives (sw_mgr_schedule_connection_timeout h s) (ready A q h)"
  unfolding sw_mgr_schedule_connection_timeout_def Let_def
  by (rule ready_get) (auto simp: ready_calm split: option.split)

lemma mark_activity_runs: "ready A q h s \<Longrightarrow> gives (sw_connection_mark_activity h t s) (ready A q h)"
  unfolding sw_connection_mark_activity_def
  by (rule ready_get) (auto intro!: schedule_runs simp: ready_calm)

lemma reset_headers [simp]: "c_response_headers (reset_request_fields t c) = c_response_headers c"
  by (simp add: reset_request_fields_def)

lemma reset_request_runs: "ready A q h s \<Longrightarrow> gives (sw_connection_reset_request h s) (ready A q h)"
  unfolding sw_connection_reset_request_def Let_def
  by (intro ready_get gives_now[where h = h] schedule_runs) (auto simp: ready_calm)

lemma close_runs: "ready A q h s \<Longrightarrow> gives (sw_mgr_close_connection h s) (gone h)"
  unfolding sw_mgr_close_connection_def Let_def
proof (rule ready_get)
  fix c assume r: "ready A q h s" and c: "mg_connections s h = Some c" "queued c \<le> q"
  show "gives (sw_connection_reset_request h
      (put h (c\<lparr>c_fd := - 1, c_file_stream := None\<rparr>)
        (case c_file_stream c of
         None \<Rightarrow> if c_fd c \<noteq> - 1 then sw_socket_close (c_fd c) (sw_backend_unregister_connection c s) else sw_backend_unregister_connection c s
         | Some f \<Rightarrow> fclose f
             (if c_fd c \<noteq> - 1 then sw_socket_close (c_fd c) (sw_backend_unregister_connection c s) else sw_backend_unregister_connection c s))) \<bind>
     (\<lambda>s. Some (if c_counted (c\<lparr>c_fd := - 1, c_file_stream := None\<rparr>)
                 then sw_mgr_release_connection (s\<lparr>mg_connections := (mg_connections s)(h := None)\<rparr>)
                 else s\<lparr>mg_connections := (mg_connections s)(h := None)\<rparr>))) (gone h)"
    by (rule gives_bind, rule reset_request_runs) (use r c in \<open>auto simp: ready_def calm_def fclose_def sw_socket_close_def
      sw_backend_unregister_connection_def gone_def sw_mgr_release_connection_def split: option.split\<close>)
qed

lemma sync_runs: "ready A q h s \<Longrightarrow> gives (sw_mgr_sync_connection h s) (done0 A q h)"
  unfolding sw_mgr_sync_connection_def Let_def
  apply (intro gives_now gives_bind[OF schedule_runs])
  apply assumption
  apply assumption
  apply (rule ready_get, assumption)
  apply (simp add: sw_backend_update_connection_def epoll_ctl_def done0_def ready_def calm_def)
  done

lemmas runs_intros = gives_bind[OF schedule_runs] gives_bind[OF mark_activity_runs] gives_bind[OF reset_request_runs]
  gives_bind[OF close_runs] gives_bind[OF sync_runs] gives_now ready_get gives_pair gives_if

lemma discard_runs: "ready A q h s \<Longrightarrow> gives (sw_connection_discard_available_plain_input h s) (fine A q h)"
  unfolding sw_connection_discard_available_plain_input_def Let_def
  by (intro runs_intros) (auto simp: fine_def ready_def)

lemma shutdown_send_runs: "ready A q h s \<Longrightarrow> gives (sw_connection_shutdown_send h s) (fine A q h)"
  unfolding sw_connection_shutdown_send_def Let_def
  by (intro runs_intros gives_weaken[OF sync_runs]) (auto simp: fine_def ready_def done0_def split: list.splits)


section \<open>Replies\<close>

lemma done0_there: "done0 A q h p \<Longrightarrow> there A q h p"
  by (auto simp: done0_def there_def)

lemma done0_fine: "done0 A q h p \<Longrightarrow> fine A q h p"
  by (auto simp: done0_def fine_def)

lemma sync_there: "ready A q h s \<Longrightarrow> gives (sw_mgr_sync_connection h s) (there A q h)"
  by (rule gives_weaken[OF sync_runs done0_there])

lemma there_end: "ready A q h s \<Longrightarrow> gives (Some (r, s)) (there A q h)"
  by (simp add: there_def)

text \<open>Starting a response takes the queued headers, whether it succeeds or not.\<close>

lemma append_output_headers: "c_response_headers (snd (sw_connection_append_output cfg c d)) = c_response_headers c"
  by (simp add: sw_connection_append_output_def)

lemma append_headers: "sw_connection_append_output cfg c d = (ok, c') \<Longrightarrow> c_response_headers c' = c_response_headers c"
  using append_output_headers[of cfg c d] by simp

lemma begin_response_headers:
  assumes "sw_connection_begin_response cfg c st ct n = (rc, c')"
  shows "c_response_headers c' = []"
proof -
  have "c_response_headers (snd (sw_connection_begin_response cfg c st ct n)) = []"
    unfolding sw_connection_begin_response_def Let_def case_prod_beta bool.case_eq_if
    by (simp add: sw_connection_clear_response_headers_def sw_connection_append_output_cstr_def append_output_headers)
  then show ?thesis by (simp add: assms)
qed

lemma append_if_headers:
  "(if b then sw_connection_append_output cfg c d else (True, c)) = (ok, c') \<Longrightarrow> c_response_headers c' = c_response_headers c"
  using append_output_headers[of cfg c d] by (auto split: if_splits)

lemma reply_there: "ready A q h s \<Longrightarrow> gives (sw_http_reply h st ct body s) (there A 0 h)"
  unfolding sw_http_reply_def Let_def
  by (intro runs_intros there_end sync_there)
    (auto simp: ready_calm dest!: begin_response_headers append_if_headers)

text \<open>The replies of the server itself are short.\<close>

definition own_reply :: "int \<Rightarrow> string \<Rightarrow> bool" where
  "own_reply st body \<longleftrightarrow> - 2147483648 \<le> st \<and> st \<le> 2147483647 \<and> length body \<le> 64"

abbreviation plain_text :: cptr where
  "plain_text \<equiv> Some ''text/plain; charset=utf-8''"

lemma plain_head:
  assumes "own_reply st body" "config_ranges cfg"
  shows "length (join_lines (response_lines cfg c st plain_text (length (cstr body))) @ crlf) + length (cstr body)
    \<le> queued c + reply_room"
proof -
  have "length (sw_http_status_text st) \<le> 31" unfolding sw_http_status_text_def by simp
  then have st: "length (status_line st) \<le> 57"
    using length_int_dec[of st] assms(1) by (simp add: own_reply_def status_line_def)
  have b: "length (cstr body) \<le> 64" using length_cstr_le[of body] assms(1) by (simp add: own_reply_def)
  then have n: "length (dec_of (length (cstr body))) \<le> 20" by (intro length_dec_of_size_max) (simp add: SIZE_MAX_def)
  have k: "length (join_lines (connection_lines cfg c)) \<le> 128"
    using length_keep_alive_lines[of cfg] assms(2)
    by (auto simp: connection_lines_def config_ranges_def keep_alive_lines_def join_lines_def)
  have h: "length (join_lines (map (\<lambda>h. cstr_of (hd_name h) @ '': '' @ cstr_of (hd_value h)) (c_response_headers c))) = queued c"
    by (simp add: header_bytes_def concat_header_parts)
  have "length (cstr ''text/plain; charset=utf-8'') = 25" by (simp add: cstr_def)
  with st n k h b show ?thesis
    by (simp add: response_lines_def join_lines_append reply_room_def status_line_def join_lines_def)
qed

lemma own_reply_begins:
  assumes "calm A s" "own_reply st body" "queued c + reply_room \<le> max_write_buffer_bytes (mg_config s)"
  obtains c' where "sw_connection_begin_response (mg_config s) c st plain_text (length (cstr body)) = (0, c')"
    "\<And>ok d. (if length (cstr body) > 0 then sw_connection_append_output (mg_config s) c' (cstr body) else (True, c')) = (ok, d) \<Longrightarrow> ok"
    "c_response_headers c' = []"
proof -
  let ?cfg = "mg_config s" and ?n = "length (cstr body)"
  let ?out = "join_lines (response_lines ?cfg c st plain_text ?n) @ crlf"
  have k: "config_ranges ?cfg" "max_write_buffer_bytes ?cfg \<le> SIZE_MAX" using assms(1) by (simp_all add: calm_def)
  note len = plain_head[OF assms(2) k(1), of c]
  then have f: "fits ?cfg (length ?out + ?n)" using assms(3) k(2) by (simp add: fits_def)
  have r: "- 2147483648 \<le> st" "st \<le> 2147483647" "?n \<le> SIZE_MAX"
    using assms(2) length_cstr_le[of body] by (simp_all add: own_reply_def SIZE_MAX_def)
  have b: "sw_connection_begin_response ?cfg c st plain_text ?n = (0, response_done ?cfg c ?out)"
    by (rule begin_response_fits[OF fits_mono[OF f] r k(1)]) simp
  have "sw_connection_append_output ?cfg (response_done ?cfg c ?out) (cstr body) =
      (True, (response_done ?cfg c ?out)\<lparr>c_write_buffer := c_write_buffer (response_done ?cfg c ?out) @ cstr body\<rparr>)"
    by (rule append_output_fits) (use f in \<open>simp add: response_done_def\<close>)
  then show ?thesis by (intro that[OF b]) (auto simp: response_done_def split: if_splits)
qed

lemma reply_done:
  assumes "ready A q h s" and "own_reply st body" and "q + reply_room \<le> max_write_buffer_bytes (mg_config s)"
  shows "gives (sw_http_reply h st plain_text (cstr body) s) (done0 A 0 h)"
  unfolding sw_http_reply_def Let_def
proof (rule ready_get[OF assms(1)])
  fix c0 assume c0: "mg_connections s h = Some c0" "queued c0 \<le> q"
  have c: "calm A s" using assms(1) by (rule ready_calm)
  obtain c1 where b: "sw_connection_begin_response (mg_config s) c0 st plain_text (length (cstr body)) = (0, c1)"
    "\<And>ok d. (if length (cstr body) > 0 then sw_connection_append_output (mg_config s) c1 (cstr body) else (True, c1)) = (ok, d) \<Longrightarrow> ok"
    "c_response_headers c1 = []"
    using own_reply_begins[OF c assms(2), of c0] c0(2) assms(3) by auto
  show "gives (case sw_connection_begin_response (mg_config s) c0 st plain_text (length (cstr body)) of (rc, c) \<Rightarrow>
      if rc \<noteq> 0 then Some (-1, put h c s)
      else case if length (cstr body) > 0 then sw_connection_append_output (mg_config s) c (cstr body) else (True, c) of (ok, c) \<Rightarrow>
        if \<not> ok then Some (-1, put h c s)
        else case sw_now_ms (put h c s) of (now, s) \<Rightarrow> sw_connection_mark_activity h now s \<bind> sw_mgr_sync_connection h) (done0 A 0 h)"
    unfolding b(1) prod.case
    by (intro runs_intros sync_runs) (use c b(2,3) in \<open>auto dest: append_if_headers\<close>)
qed

lemma replyf_there: "ready A q h s \<Longrightarrow> gives (sw_http_replyf h st ct body s) (there A 0 h)"
  unfolding sw_http_replyf_def by (rule reply_there)

lemma status_text_done:
  assumes "ready A q h s" and "own_reply st body" and "q + reply_room \<le> max_write_buffer_bytes (mg_config s)"
  shows "gives (sw_http_reply_status_text h st body s) (done0 A 0 h)"
  unfolding sw_http_reply_status_text_def sw_http_replyf_def
  by (rule gives_bind[OF reply_done[OF assms]]) (auto simp: done0_def)

text \<open>Without queued headers the room is there.\<close>

lemma clean_room: "ready A 0 h s \<Longrightarrow> 0 + reply_room \<le> max_write_buffer_bytes (mg_config s)"
  by (simp add: ready_def calm_def)

lemma clean_status_text: "ready A 0 h s \<Longrightarrow> own_reply st body \<Longrightarrow> gives (sw_http_reply_status_text h st body s) (done0 A 0 h)"
  by (rule status_text_done[OF _ _ clean_room])

lemma write_there: "ready A q h s \<Longrightarrow> gives (sw_http_write h data s) (there A q h)"
  unfolding sw_http_write_def Let_def
  by (intro runs_intros there_end sync_there)
    (auto simp: ready_calm dest!: append_headers)

lemma printf_there: "ready A q h s \<Longrightarrow> gives (sw_http_printf h data s) (there A q h)"
  unfolding sw_http_printf_def Let_def
  by (intro runs_intros there_end sync_there) (auto simp: ready_calm)

lemma cstr_of_idem [simp]: "cstr_of (sw_strdup_cstr p) = cstr_of p" "cstr_of (Some (cstr_of p)) = cstr_of p"
  "cstr_of (Some (cstr x)) = cstr x"
  by (auto simp: sw_strdup_cstr_eq cstr_of_def split: option.splits)

lemma queue_header_bytes:
  assumes "sw_http_queue_header (Some c) n v = (rc, c')"
  shows "\<exists>d. c' = Some d \<and> queued d \<le> (if rc = 0 then queued c + ptr_len n + ptr_len v + 4 else queued c)"
  using assms by (auto simp: sw_http_queue_header_def ptr_len_def split: if_splits)

lemma cookie_options_len:
  assumes "sw_cookie_append_options out c opts = Some r"
  shows "length r \<le> length out + ptr_len (ck_expires opts) + ptr_len (ck_domain opts) + ptr_len (ck_path opts) + 140"
proof -
  have m: "length (''Max-Age='' @ int_dec (ck_max_age opts)) \<le> 64" if "ck_max_age opts \<ge> 0"
    using assms that unfolding sw_cookie_append_options_def Let_def by (auto split: if_splits)
  have "length (concat (map (\<lambda>a. ''; '' @ a) (cookie_attrs c opts))) \<le>
      ptr_len (ck_expires opts) + ptr_len (ck_domain opts) + ptr_len (ck_path opts) + 140"
    using m by (auto simp: cookie_attrs_def ptr_len_def cstr_of_def sw_cookie_same_site_name_def
        split: option.splits sw_cookie_same_site.splits)
  then show ?thesis using append_options_eq[OF assms] by simp
qed

lemma cookie_bytes:
  assumes "sw_http_set_cookie_with_options (Some c) n v opts = (rc, c')"
  shows "\<exists>d. c' = Some d \<and> queued d \<le> (if rc = 0 then queued c + cookie_len n v opts - 32 else queued c)"
proof (cases "rc = 0")
  case True
  let ?o = "case opts of Some o' \<Rightarrow> o' | None \<Rightarrow> sw_http_cookie_default"
  from assms True obtain cookie where k: "sw_cookie_append_options (cstr (the n) @ ''='' @ cstr (the v)) c ?o = Some cookie"
    "sw_http_queue_header (Some c) (Some ''Set-Cookie'') (sw_strdup_cstr (Some cookie)) = (rc, c')"
    "n \<noteq> None" "v \<noteq> None"
    by (auto simp: sw_http_set_cookie_with_options_def Let_def sw_cookie_name_is_valid_def sw_cookie_value_is_valid_def
        split: if_splits option.splits)
  have "length (cstr cookie) \<le> ptr_len n + ptr_len v + ptr_len (ck_expires ?o) + ptr_len (ck_domain ?o) + ptr_len (ck_path ?o) + 141"
    using cookie_options_len[OF k(1)] length_cstr_le[of cookie] k(3,4) by (auto simp: ptr_len_def cstr_of_def)
  moreover have "ptr_len (Some ''Set-Cookie'') = 10" "ptr_len (sw_strdup_cstr (Some cookie)) = length (cstr cookie)"
    by (simp_all add: ptr_len_def cstr_of_def sw_strdup_cstr_eq cstr_def)
  moreover obtain d where "c' = Some d" "queued d \<le> queued c + ptr_len (Some ''Set-Cookie'') + ptr_len (sw_strdup_cstr (Some cookie)) + 4"
    using queue_header_bytes[OF k(2)] True by auto
  ultimately show ?thesis using True by (auto simp: cookie_len_def Let_def)
next
  case False
  then show ?thesis using assms
    by (auto simp: sw_http_set_cookie_with_options_def Let_def sw_http_queue_header_def split: if_splits option.splits)
qed

lemma queue_after:
  assumes "ready A q h s" and "\<And>c rc c'. f (Some c) = (rc, c') \<Longrightarrow> queued c \<le> q \<Longrightarrow> \<exists>d. c' = Some d \<and> queued d \<le> n rc"
  shows "gives (queue_call h f s) (\<lambda>(rc, s'). ready A (n rc) h s')"
  unfolding queue_call_def Let_def
proof (intro ready_get[OF assms(1)] gives_pair)
  fix c rc c' assume c: "mg_connections s h = Some c" "queued c \<le> q" "f (Some c) = (rc, c')"
  then show "gives (Some (rc, put h (the c') s)) (\<lambda>(rc, s'). ready A (n rc) h s')"
    using assms(2)[OF c(3,2)] ready_calm[OF assms(1)] by auto
qed

lemma header_call_after:
  assumes "ready A q h s" and "a = Set_header n v \<or> a = Set_cookie n v opts \<or> a = Clear_cookie n opts \<or> a = Set_user_data u"
  shows "gives (call_api fs h a s) (\<lambda>(rc, s'). ready A (queued_after q a rc) h s')"
  using assms(2)
proof (elim disjE)
  assume a: "a = Set_header n v"
  show ?thesis unfolding a call_api_def api_call.case
    by (rule queue_after[OF assms(1)])
      (fastforce simp: sw_http_set_header_def queued_after_def dest!: queue_header_bytes split: if_splits)
next
  assume a: "a = Set_cookie n v opts"
  have e: "cookie_len n (if v \<noteq> None then v else Some '''') opts = cookie_len n v opts"
    by (simp add: cookie_len_def ptr_len_def cstr_of_def cstr_def)
  show ?thesis unfolding a call_api_def api_call.case
  proof (rule queue_after[OF assms(1)])
    fix c rc c' assume c: "sw_http_set_cookie (Some c) n v opts = (rc, c')" "queued c \<le> q"
    show "\<exists>d. c' = Some d \<and> queued d \<le> queued_after q (Set_cookie n v opts) rc"
      using cookie_bytes[OF c(1)[unfolded sw_http_set_cookie_def]] c(2) unfolding e by (auto simp: queued_after_def)
  qed
next
  assume a: "a = Clear_cookie n opts"
  show ?thesis unfolding a call_api_def api_call.case
  proof (rule queue_after[OF assms(1)])
    fix c rc c' assume c: "sw_http_clear_cookie (Some c) n opts = (rc, c')" "queued c \<le> q"
    let ?o = "case opts of Some o' \<Rightarrow> o' | None \<Rightarrow> sw_http_cookie_default"
    let ?e = "(?o\<lparr>ck_max_age := 0\<rparr>)\<lparr>ck_expires := (if ck_expires ?o = None then Some ''Thu, 01 Jan 1970 00:00:00 GMT'' else ck_expires ?o)\<rparr>"
    have x: "sw_http_set_cookie_with_options (Some c) n (Some '''') (Some ?e) = (rc, c')"
      using c(1) by (auto simp: sw_http_clear_cookie_def Let_def split: if_splits)
    have "length (cstr ''Thu, 01 Jan 1970 00:00:00 GMT'') = 29" by (simp add: cstr_def)
    then have "cookie_len n (Some '''') (Some ?e) \<le> cookie_len n None opts + 29"
      by (auto simp: cookie_len_def ptr_len_def cstr_of_def Let_def cstr_def)
    then show "\<exists>d. c' = Some d \<and> queued d \<le> queued_after q (Clear_cookie n opts) rc"
      using cookie_bytes[OF x] c(2) by (auto simp: queued_after_def)
  qed
next
  assume a: "a = Set_user_data u"
  show ?thesis unfolding a call_api_def api_call.case
    by (rule queue_after[OF assms(1)]) (auto simp: queued_after_def sw_connection_set_user_data_def)
qed

lemma redirect_after: "ready A q h s \<Longrightarrow> gives (sw_http_redirect h l s) (\<lambda>(rc, s'). ready A (queued_after q (Redirect l) rc) h s')"
proof (cases l)
  case (Some t)
  assume r: "ready A q h s"
  let ?P = "\<lambda>(rc, s'). ready A (queued_after q (Redirect l) rc) h s'"
  have set: "gives (queue_call h (\<lambda>c. sw_http_set_header c (Some ''Location'') l) s)
      (\<lambda>(rc, s'). ready A (queued_after q (Set_header (Some ''Location'') l) rc) h s')"
    using header_call_after[OF r, of "Set_header (Some ''Location'') l"] by (simp add: call_api_def)
  have rest: "gives (if rc \<noteq> 0 then Some (- 1, s1) else sw_http_reply h 303 plain_text [] s1) ?P"
    if q: "ready A (queued_after q (Set_header (Some ''Location'') l) rc) h s1" for rc and s1 :: "'a sw_mgr"
  proof (rule gives_if)
    show "gives (Some (- 1, s1)) ?P" if "rc \<noteq> 0" using q that by (simp add: queued_after_def)
    show "gives (sw_http_reply h 303 plain_text [] s1) ?P"
      by (rule gives_weaken[OF reply_there[OF q]]) (auto simp: queued_after_def there_def ready_def)
  qed
  have "gives (queue_call h (\<lambda>c. sw_http_set_header c (Some ''Location'') l) s \<bind>
      (\<lambda>(rc, s). if rc \<noteq> 0 then Some (- 1, s) else sw_http_reply h 303 plain_text [] s)) ?P"
    by (rule gives_bind_r[OF set]) (simp only: prod.case, rule rest)
  then show ?thesis using r Some by (simp add: sw_http_redirect_def queued_after_def)
qed (simp add: sw_http_redirect_def queued_after_def)

section \<open>Files and handlers\<close>

lemma calm_fread: "fread n i s = (t, s') \<Longrightarrow> calm A s' = calm A s \<and> mg_config s' = mg_config s"
  by (auto simp: fread_def split: option.splits)

lemma fill_there: "ready A q h s \<Longrightarrow> gives (sw_connection_fill_file_buffer h s) (there A q h)"
  unfolding sw_connection_fill_file_buffer_def Let_def
proof (rule ready_get)
  fix c assume r: "ready A q h s" and c: "mg_connections s h = Some c" "queued c \<le> q"
  note k = ready_calm[OF r]
  show "gives (case c_file_stream c of None \<Rightarrow> Some (0, s)
     | Some f \<Rightarrow>
         if length (c_write_buffer c) > 0 then Some (0, s)
         else if c_file_remaining c > 0 then
           case fread (if c_file_remaining c < 16384 then c_file_remaining c else 16384) f s of (chunk, s) \<Rightarrow>
           if length chunk = 0 then Some (0, put h (c\<lparr>c_file_stream := None, c_file_remaining := 0\<rparr>) (fclose f s))
           else case sw_connection_append_output (mg_config s) (c\<lparr>c_file_remaining := c_file_remaining c - length chunk\<rparr>) chunk of
             (ok, c) \<Rightarrow> if \<not> ok then Some (-1, put h (c\<lparr>c_file_stream := None, c_file_remaining := 0\<rparr>) (fclose f s))
                else if c_file_remaining c = 0 then Some (0, put h (c\<lparr>c_file_stream := None\<rparr>) (fclose f s))
                else Some (0, put h c s)
         else Some (0, put h (c\<lparr>c_file_stream := None\<rparr>) (fclose f s))) (there A q h)"
    using r c k by (auto simp: there_def dest!: calm_fread[where A = A] append_headers split: option.split prod.split)
qed

lemma fopen_ready: "fopen fs path s = (t, s') \<Longrightarrow> ready A q h s' = ready A q h s"
  by (auto simp: fopen_def split: option.splits)

lemma gives_option:
  "(x = None \<Longrightarrow> gives n P) \<Longrightarrow> (\<And>a. x = Some a \<Longrightarrow> gives (f a) P) \<Longrightarrow> gives (case x of None \<Rightarrow> n | Some a \<Rightarrow> f a) P"
  by (cases x) simp_all

lemma gives_stat:
  "gives n P \<Longrightarrow> (\<And>a. gives (f a) P) \<Longrightarrow> gives (case x of Directory \<Rightarrow> n | Regular a \<Rightarrow> f a) P"
  by (cases x) simp_all

lemma status_text_there:
  "ready A q h s \<Longrightarrow> own_reply st body \<Longrightarrow> q + reply_room \<le> max_write_buffer_bytes (mg_config s) \<Longrightarrow>
   gives (sw_http_reply_status_text h st body s) (there A 0 h)"
  by (rule gives_weaken[OF status_text_done done0_there])

lemma send_opened:
  assumes "ready A q h s"
  shows "gives (mg_connections s h \<bind> (\<lambda>c.
      case sw_connection_begin_response (mg_config s) c st ct n of (rc, c) \<Rightarrow>
      if rc \<noteq> 0 then Some (-1, fclose fl (put h c s))
      else sw_connection_fill_file_buffer h (put h (c\<lparr>c_file_stream := Some fl, c_file_remaining := n\<rparr>)
          (case c_file_stream c of None \<Rightarrow> s | Some f \<Rightarrow> fclose f s)) \<bind> (\<lambda>(rc, s).
        if rc < 0 then Some (-1, s)
        else case sw_now_ms s of (now, s) \<Rightarrow> sw_connection_mark_activity h now s \<bind> sw_mgr_sync_connection h))) (there A 0 h)"
proof (rule ready_get[OF assms], rule gives_pair, rule gives_if)
  fix c0 rc c assume b: "sw_connection_begin_response (mg_config s) c0 st ct n = (rc, c)"
  have k: "calm A s" "c_response_headers c = []" using ready_calm[OF assms] begin_response_headers[OF b] by simp_all
  then show "gives (Some (-1, fclose fl (put h c s))) (there A 0 h)" by simp
  let ?s = "put h (c\<lparr>c_file_stream := Some fl, c_file_remaining := n\<rparr>) (case c_file_stream c of None \<Rightarrow> s | Some f \<Rightarrow> fclose f s)"
  have "ready A 0 h ?s" using k by (simp split: option.split)
  from fill_there[OF this] show "gives (sw_connection_fill_file_buffer h ?s \<bind> (\<lambda>(rc, s).
        if rc < 0 then Some (-1, s)
        else case sw_now_ms s of (now, s) \<Rightarrow> sw_connection_mark_activity h now s \<bind> sw_mgr_sync_connection h)) (there A 0 h)"
    by (rule gives_bind) (auto intro!: gives_now[where A = A and q = 0] gives_bind[OF mark_activity_runs[where A = A and q = 0]] sync_there)
qed

lemma send_file_there:
  assumes "ready A q h s" "q + reply_room \<le> max_write_buffer_bytes (mg_config s)"
  shows "gives (sw_http_send_file fs h path s) (there A 0 h)"
  unfolding sw_http_send_file_def Let_def
  apply (intro gives_option gives_stat gives_if replyf_there[OF assms(1)] status_text_there[OF assms(1) _ assms(2)] gives_pair)
    apply (simp add: own_reply_def)
   apply (rule replyf_there[where q = q], metis fopen_ready assms(1))
  apply (rule send_opened[where q = q], metis fopen_ready assms(1))
  done

lemma serve_path_after:
  assumes "ready A q h s" "q + reply_room \<le> max_write_buffer_bytes (mg_config s)"
  shows "gives (serve_path fs h docroot path s) (\<lambda>(rc, s'). ready A (queued_after q (Serve_path docroot path) rc) h s')"
proof -
  have st: "own_reply st b" if "sw_http_serve_path rp ok docroot path = Reply_status st b" for rp ok st b
    using that by (auto simp: sw_http_serve_path_def own_reply_def Let_def split: option.splits if_splits prod.splits)
  have up: "there A 0 h (rc, s') \<Longrightarrow> ready A (queued_after q (Serve_path docroot path) rc) h s'" for rc and s' :: "'a sw_mgr"
    by (auto simp: queued_after_def ready_def)
  show ?thesis
  proof (cases "sw_http_serve_path (fs_realpath fs) (\<lambda>p. fs_stat fs p \<noteq> None) docroot path")
    case (Reply_status st b)
    then show ?thesis
      using gives_weaken[OF status_text_there[OF assms(1) st[OF Reply_status] assms(2)], of "\<lambda>(rc, s'). ready A (queued_after q (Serve_path docroot path) rc) h s'"] up
      by (auto simp: serve_path_def)
  next
    case (Send_file t)
    then show ?thesis
      using gives_weaken[OF send_file_there[OF assms], of "\<lambda>(rc, s'). ready A (queued_after q (Serve_path docroot path) rc) h s'"] up
      by (auto simp: serve_path_def)
  next
    case Refused
    then show ?thesis using assms(1) by (simp add: serve_path_def queued_after_def)
  qed
qed

lemma call_api_after:
  assumes "ready A q h s" "case a of Serve_path docroot path \<Rightarrow> q + reply_room \<le> max_write_buffer_bytes (mg_config s) | _ \<Rightarrow> True"
  shows "gives (call_api fs h a s) (\<lambda>(rc, s'). ready A (queued_after q a rc) h s')"
proof -
  show ?thesis
  proof (cases a)
    case (Reply st ct b)
    show ?thesis unfolding Reply call_api_def api_call.case
      by (rule gives_weaken[OF reply_there[OF assms(1)]]) (auto simp: queued_after_def)
  next
    case (Replyf st ct b)
    show ?thesis unfolding Replyf call_api_def api_call.case
      by (rule gives_weaken[OF replyf_there[OF assms(1)]]) (auto simp: queued_after_def)
  next
    case (Write d)
    show ?thesis unfolding Write call_api_def api_call.case
      by (rule gives_weaken[OF write_there[OF assms(1)]]) (auto simp: queued_after_def)
  next
    case (Printf d)
    show ?thesis unfolding Printf call_api_def api_call.case
      by (rule gives_weaken[OF printf_there[OF assms(1)]]) (auto simp: queued_after_def)
  next
    case (Redirect l)
    show ?thesis using redirect_after[OF assms(1), of l] unfolding Redirect call_api_def api_call.case .
  next
    case (Serve_path d p)
    show ?thesis using serve_path_after[OF assms(1), of fs d p] assms(2) unfolding Serve_path call_api_def api_call.case by simp
  qed (use header_call_after[OF assms(1)] in blast)+
qed

lemma call_api_config: "mg_connections s h = Some c \<Longrightarrow> call_api fs h a s = Some (rc, s') \<Longrightarrow> mg_config s' = mg_config s"
  using moves_r_end[OF call_api_moves moved_refl, of s h c fs a] by (auto simp: moved_def kept_def closed_def others_kept_def)

lemma run_program_ready:
  "ready A q h s \<Longrightarrow> polite (max_write_buffer_bytes (mg_config s)) q p \<Longrightarrow> gives (run_program fs h p s) (ready A 0 h)"
proof (induction p arbitrary: q s)
  case (Call a k)
  from Call.prems call_api_after[of A q h s a fs] obtain r s' where a: "call_api fs h a s = Some (r, s')" "ready A (queued_after q a r) h s'"
    by (auto simp: gives_def)
  moreover have "mg_config s' = mg_config s" using call_api_config a(1) Call.prems(1) by (auto simp: ready_def)
  ultimately show ?case using Call.IH[of "k r" "queued_after q a r" s'] Call.prems(2) by simp
qed simp

lemma polite_handler: "polite_app limit A \<Longrightarrow> app_handler A l m u = (prog, user) \<Longrightarrow> polite limit 0 prog"
  by (metis fst_conv polite_app_def)

lemma dispatch_done: "ready A 0 h s \<Longrightarrow> gives (sw_connection_dispatch_request A h s) (done0 A 0 h)"
  unfolding sw_connection_dispatch_request_def Let_def
  by (intro ready_get gives_if gives_pair gives_bind[OF run_program_ready[where A = A and q = 0]] sync_runs)
    (auto simp: ready_calm done0_def ready_def calm_def intro: polite_handler)

lemma try_parse_there: "ready A 0 h s \<Longrightarrow> gives (sw_connection_try_parse_request h s) (there A 0 h)"
  unfolding sw_connection_try_parse_request_def Let_def
proof (intro ready_get gives_if)
  fix c assume r: "ready A 0 h s" and c: "mg_connections s h = Some c" "queued c \<le> 0"
  have head: "gives (if headers_just_complete (mg_config s) c then case sw_now_ms s of (now, s) \<Rightarrow>
        sw_mgr_schedule_connection_timeout h (put h (c\<lparr>c_headers_complete := True, c_phase_started_at_ms := now\<rparr>) s)
      else Some s) (ready A 0 h)"
    by (intro gives_if gives_now schedule_runs) (use r c in \<open>auto simp: ready_calm\<close>)
  show "gives ((if headers_just_complete (mg_config s) c then case sw_now_ms s of (now, s) \<Rightarrow>
        sw_mgr_schedule_connection_timeout h (put h (c\<lparr>c_headers_complete := True, c_phase_started_at_ms := now\<rparr>) s)
      else Some s) \<bind> (\<lambda>s. mg_connections s h \<bind> (\<lambda>c. Some (case parse_request (mg_config s) (c_read_buffer c) of
           Stop r \<Rightarrow> (r, s)
         | Parsed m n \<Rightarrow> (SW_PARSE_READY,
             put h (c\<lparr>c_request := m, c_request_ready := True, c_parsed_request_bytes := n\<rparr>) s)
         | Streamed m n \<Rightarrow> (SW_PARSE_READY,
             put h (c\<lparr>c_request := m, c_request_ready := True, c_must_close := True, c_parsed_request_bytes := 0,
               c_read_buffer := drop n (c_read_buffer c)\<rparr>) s))))) (there A 0 h)"
    by (intro gives_bind[OF head] ready_get) (auto simp: there_def ready_calm split: parse_outcome.split)
qed auto

lemma refuse_done: "ready A 0 h s \<Longrightarrow> own_reply st body \<Longrightarrow> gives (refuse_request h st body s) (done0 A 0 h)"
  unfolding refuse_request_def Let_def
  by (intro ready_get gives_bind[OF clean_status_text[where A = A]]) (auto simp: done0_def ready_calm)

lemma gives_parse_result:
  assumes "gives x1 P" "gives x2 P" "gives x3 P" "gives x4 P" "gives x5 P" "gives x6 P"
  shows "gives (case r of SW_PARSE_READY \<Rightarrow> x1 | SW_PARSE_PENDING \<Rightarrow> x2 | SW_PARSE_HEADERS_TOO_LARGE \<Rightarrow> x3
    | SW_PARSE_TOO_MANY_HEADERS \<Rightarrow> x4 | SW_PARSE_PAYLOAD_TOO_LARGE \<Rightarrow> x5 | SW_PARSE_BAD_REQUEST \<Rightarrow> x6) P"
  using assms by (cases r) simp_all

lemma process_input_done: "ready A 0 h s \<Longrightarrow> gives (sw_connection_process_input A h s) (done0 A 0 h)"
  unfolding sw_connection_process_input_def Let_def
  by (intro ready_get[where A = A and q = 0] gives_if dispatch_done gives_bind[OF try_parse_there[where A = A]] gives_pair gives_parse_result
      refuse_done gives_bind[OF replyf_there[where A = A and q = 0]] gives_bind[OF sync_runs[where A = A and q = 0]])
    (auto simp: ready_calm own_reply_def)

lemma process_input_fine: "ready A 0 h s \<Longrightarrow> gives (sw_connection_process_input A h s) (fine A 0 h)"
  by (rule gives_weaken[OF process_input_done done0_fine])

lemma readable_loop_fine: "ready A 0 h s \<Longrightarrow> gives (readable_loop A h answers read_any s) (fine A 0 h)"
proof (induction answers arbitrary: read_any s)
  case Nil
  then show ?case unfolding readable_loop.simps
    by (intro ready_get gives_if process_input_fine) auto
next
  case (Cons answer rest)
  note IH = Cons.IH
  have clock: "ready A 0 h s2 \<and> c_response_headers c' = c_response_headers c \<and> mg_connections s2 = mg_connections s1 \<and> mg_config s2 = mg_config s1"
    if "(if c_request_started c then (c, s1) else case sw_now_ms s1 of (now, s) \<Rightarrow>
      (c\<lparr>c_request_started := True, c_phase_started_at_ms := now\<rparr>, s)) = (c', s2)" "ready A 0 h s1" for c c' s1 s2
    using that now_ready[where A = A and q = 0 and h = h] now_connections now_config by (auto split: if_splits prod.splits)
  show ?case using Cons.prems unfolding readable_loop.simps Let_def
    apply (intro ready_get[where A = A and q = 0] gives_if gives_bind[OF close_runs[where A = A and q = 0]] gives_pair
        gives_weaken[OF refuse_done done0_fine] gives_bind[OF process_input_done] gives_bind[OF mark_activity_runs[where A = A and q = 0]] IH)
    apply (auto dest!: clock simp: ready_calm now_ready own_reply_def)
    done
qed

lemma readable_fine: "ready A 0 h s \<Longrightarrow> gives (sw_mgr_connection_readable A h s) (fine A 0 h)"
  unfolding sw_mgr_connection_readable_def
  by (intro ready_get gives_if discard_runs readable_loop_fine)

section \<open>Output, time-outs and events\<close>

lemma finish_response_fine: "ready A 0 h s \<Longrightarrow> gives (sw_connection_finish_response A h s) (fine A 0 h)"
  unfolding sw_connection_finish_response_def Let_def
  by (intro gives_bind[OF reset_request_runs[where A = A and q = 0]] gives_now[where A = A and q = 0] ready_get[where A = A and q = 0]
      gives_pair gives_if shutdown_send_runs process_input_fine gives_weaken[OF sync_runs done0_fine]) (auto simp: ready_calm)

lemma fill_or_close_runs: "ready A 0 h s \<Longrightarrow> gives (fill_or_close h s) (alive_if A 0 h)"
  unfolding fill_or_close_def
  by (intro gives_bind_r[OF fill_there[where A = A and q = 0, unfolded there_def]]) (auto intro!: gives_bind[OF close_runs[where A = A and q = 0]])

lemma writable_loop_runs: "ready A 0 h s \<Longrightarrow> gives (writable_loop h answers s) (alive_if A 0 h)"
proof (induction answers arbitrary: s)
  case Nil
  then show ?case unfolding writable_loop.simps by (intro ready_get) auto
next
  case (Cons answer rest)
  have fill: "gives (if b then fill_or_close h s else Some (True, s)) (alive_if A 0 h)" if "ready A 0 h s" for b s
    using fill_or_close_runs[OF that] that by simp
  show ?case
  proof (cases answer)
    case Send_error
    show ?thesis using Cons.prems unfolding writable_loop.simps Let_def Send_error send_answer.case
      by (intro ready_get[where A = A and q = 0] gives_if gives_bind[OF close_runs[where A = A and q = 0]]) auto
  next
    case (Send_count k)
    show ?thesis using Cons.prems unfolding writable_loop.simps Let_def Send_count send_answer.case
      by (intro gives_bind[OF mark_activity_runs[where A = A and q = 0]] gives_now[where A = A and q = 0] ready_get[where A = A and q = 0]
          gives_pair gives_if gives_bind[OF fill] Cons.IH) (auto simp: ready_calm)
  qed
qed

lemma writable_fine: "ready A 0 h s \<Longrightarrow> gives (sw_mgr_connection_writable A h s) (fine A 0 h)"
proof -
  assume r: "ready A 0 h s"
  have fill: "gives (if b then fill_or_close h s else Some (True, s)) (alive_if A 0 h)" if "ready A 0 h s" for b s
    using fill_or_close_runs[OF that] that by simp
  show ?thesis using r unfolding sw_mgr_connection_writable_def
    by (intro gives_bind[OF fill_or_close_runs[where A = A]] gives_bind[OF writable_loop_runs[where A = A]] gives_bind[OF fill] gives_pair gives_if
        ready_get[where A = A and q = 0] finish_response_fine gives_bind[OF sync_runs[where A = A and q = 0]]) auto
qed

text \<open>An event or an expiry closes its connection or leaves it without queued headers.\<close>

definition settled :: "'u application \<Rightarrow> nat \<Rightarrow> 'u sw_mgr \<Rightarrow> bool" where
  "settled A h s \<longleftrightarrow> gone h s \<or> ready A 0 h s"

lemma settledI: "gone h s \<Longrightarrow> settled A h s" "ready A 0 h s \<Longrightarrow> settled A h s" "fine A 0 h (r, s) \<Longrightarrow> settled A h s"
  by (auto simp: settled_def)

lemma close_settles: "ready A 0 h s \<Longrightarrow> gives (sw_mgr_close_connection h s) (settled A h)"
  by (rule gives_weaken[OF close_runs settledI(1)])

lemma expire_runs: "ready A 0 h s \<Longrightarrow> gives (expire_connection A h s) (settled A h)"
  unfolding expire_connection_def Let_def
  by (intro ready_get[where A = A and q = 0] gives_if close_settles gives_bind[OF discard_runs[where A = A and q = 0]] gives_pair
      gives_bind[OF clean_status_text[where A = A]] gives_bind[OF writable_fine])
    (auto simp: ready_calm own_reply_def intro: settledI)

lemma optional_fine: "(ready A 0 h s \<Longrightarrow> gives (op s) (fine A 0 h)) \<Longrightarrow> ready A 0 h s \<Longrightarrow> gives (if b then op s else Some (0, s)) (fine A 0 h)"
  by simp

lemma handle_event_runs: "ready A 0 h s \<Longrightarrow> gives (handle_event A h hup r w s) (settled A h)"
proof -
  assume ok: "ready A 0 h s"
  have last: "gives (if rc < 0 then Some s else (if w then sw_mgr_connection_writable A h s else Some (0, s)) \<bind> (\<lambda>(rc, s). Some s)) (settled A h)"
    if "fine A 0 h (rc, s)" for rc s
    by (intro gives_if gives_bind[OF optional_fine[OF writable_fine]]) (use that in \<open>auto intro: settledI\<close>)
  show ?thesis unfolding handle_event_def
    by (intro gives_if[of hup] close_settles[OF ok] gives_bind[OF optional_fine[OF readable_fine ok]] gives_pair) (assumption | (rule last, simp))+
qed

section \<open>Rounds\<close>

text \<open>Between the rounds no connection has queued headers.\<close>

definition clean :: "'u sw_mgr \<Rightarrow> bool" where
  "clean s \<longleftrightarrow> (\<forall>h c. mg_connections s h = Some c \<longrightarrow> c_response_headers c = [])"

abbreviation good :: "'u application \<Rightarrow> 'u sw_mgr \<Rightarrow> bool" where
  "good A s \<equiv> calm A s \<and> clean s"

lemma clean_ready: "good A s \<Longrightarrow> mg_connections s h \<noteq> None \<Longrightarrow> ready A 0 h s"
  by (auto simp: clean_def ready_def)

lemma clean_same: "clean s \<Longrightarrow> mg_connections s' = mg_connections s \<Longrightarrow> clean s'"
  by (simp add: clean_def)

lemma moves_good:
  assumes "moves h op" and "good A s" and "mg_connections s h \<noteq> None" and "op s = Some s'" and "settled A h s'"
  shows "good A s'"
proof -
  obtain c where "mg_connections s h = Some c" using assms(3) by auto
  then have "yields (op s) (moved h s)" by (intro moves_end[OF assms(1)] moved_refl)
  then have m: "moved h s s'" using assms(4) by simp
  then have o: "others_kept h s s'" by (auto simp: moved_def kept_def closed_def)
  have "c_response_headers c = []" if "mg_connections s' h' = Some c" for h' c
    using that assms(2,5) o by (cases "h' = h") (auto simp: clean_def settled_def gone_def ready_def others_kept_def)
  then show ?thesis using calm_moved[OF m] assms(2) by (auto simp: clean_def)
qed

lemma expire_loop_runs: "good A s \<Longrightarrow> gives (expire_loop fuel A now s) (\<lambda>(d, s'). good A s')"
proof (induction fuel arbitrary: s)
  case (Suc fuel)
  obtain ts where p: "sw_mgr_peek_timer s = (if ts = [] then None else Some (ts ! 0), s\<lparr>mg_timers := ts\<rparr>)"
    and t: "ts \<noteq> [] \<longrightarrow> timer_valid s (ts ! 0)"
    using peek_spec[of s] by blast
  let ?p = "s\<lparr>mg_timers := pop_timer ts\<rparr>" and ?h = "connection_handle (ts ! 0)"
  have g: "good A (s\<lparr>mg_timers := w\<rparr>)" for w using Suc.prems clean_same[of s "s\<lparr>mg_timers := w\<rparr>"] by simp
  show ?case
  proof (cases "ts = [] \<or> due_ms (ts ! 0) > now")
    case True
    then show ?thesis using g by (auto simp: p)
  next
    case False
    then have live: "mg_connections ?p ?h \<noteq> None" using t by (auto simp: timer_valid_def split: option.splits)
    from expire_runs[OF clean_ready[OF g live]] obtain s1 where s1: "expire_connection A ?h ?p = Some s1" "settled A ?h s1"
      by (auto simp: gives_def)
    have "expire_loop (Suc fuel) A now s = (expire_connection A ?h ?p \<bind> expire_loop fuel A now)" using False by (simp add: p)
    then show ?thesis using Suc.IH[OF moves_good[OF expire_moves g live s1]] s1 by simp
  qed
qed simp

lemma now_good: "sw_now_ms s = (t, s') \<Longrightarrow> good A s' = good A s"
  using now_calm[of s t s' A] now_connections[of s t s'] by (simp add: clean_def)

lemma expire_timeouts_runs: "good A s \<Longrightarrow> gives (sw_mgr_expire_timeouts A s) (\<lambda>(d, s'). good A s')"
  unfolding sw_mgr_expire_timeouts_def Let_def by (rule gives_pair, rule expire_loop_runs) (simp only: now_good)

lemma effective_timeout_good: "good A s \<Longrightarrow> sw_mgr_effective_poll_timeout t s = (r, s') \<Longrightarrow> good A s'"
proof -
  assume i: "good A s" and e: "sw_mgr_effective_poll_timeout t s = (r, s')"
  obtain now s1 where n: "sw_now_ms s = (now, s1)" by (cases "sw_now_ms s")
  obtain ts where p: "sw_mgr_peek_timer s1 = (if ts = [] then None else Some (ts ! 0), s1\<lparr>mg_timers := ts\<rparr>)"
    using peek_spec[of s1] by blast
  have "s' = s1\<lparr>mg_timers := ts\<rparr>" using e by (auto simp: sw_mgr_effective_poll_timeout_def n p Let_def split: if_splits)
  then show ?thesis using i now_good[OF n] by (simp add: clean_def)
qed

lemma dispatch_good:
  assumes "good A s" and "sw_mgr_dispatch_connection L l fd host port cnt s = (rc, s')"
  shows "good A s'"
proof (cases "fd = -1")
  case False
  let ?h = "mg_next_handle s"
  obtain now s1 where n: "sw_now_ms s = (now, s1)" by (cases "sw_now_ms s")
  have c1: "good A s1" "mg_next_handle s1 = ?h" using now_good[OF n] assms(1) now_spec[OF n] by auto
  let ?c = "new_connection fd l (ls_has_handler L) (ls_tls_enabled L) host port cnt now"
  let ?s2 = "put ?h ?c (s1\<lparr>mg_next_handle := ?h + 1\<rparr>)"
  obtain rc3 s3 where reg: "sw_backend_register_connection ?c ?s2 = (rc3, s3)" by (cases "sw_backend_register_connection ?c ?s2")
  have r3: "rc3 = 0" "good A s3" "mg_connections s3 ?h = Some ?c" "queued ?c \<le> 0" using reg c1
    by (auto simp: sw_backend_register_connection_def epoll_ctl_def calm_def clean_def new_connection_def split: list.splits if_splits)
  then have "ready A 0 ?h s3" by (auto simp: ready_def)
  from schedule_runs[OF this] obtain s4 where s4: "sw_mgr_schedule_connection_timeout ?h s3 = Some s4" "ready A 0 ?h s4"
    by (auto simp: gives_def)
  have "sw_connection_create L l fd host port cnt s = (Some ?h, s4)"
    by (simp only: sw_connection_create_def n Let_def prod.case c1(2) reg r3(1) s4(1) simp_thms if_False option.case)
  moreover have "good A s4"
    by (rule moves_good[OF schedule_moves r3(2) _ s4(1) settledI(2)[OF s4(2)]]) (simp add: r3(3))
  ultimately show ?thesis using assms(2) False by (simp add: sw_mgr_dispatch_connection_def)
qed (use assms in \<open>simp add: sw_mgr_dispatch_connection_def\<close>)

lemma good_upd [simp]:
  "good A (s\<lparr>os_accept := x, os_open := y\<rparr>) = good A s" "good A (s\<lparr>os_accept := x\<rparr>) = good A s"
  "good A (sw_socket_close fd s) = good A s" "good A (sw_mgr_release_connection s) = good A s"
  by (simp_all add: calm_def clean_def sw_socket_close_def sw_mgr_release_connection_def)

lemma accept_good: "good A s \<Longrightarrow> good A (snd (accept_loop L l answers s))"
proof (induction answers arbitrary: s)
  case (Cons a rest)
  show ?case
  proof (cases a)
    case (Accept_socket fd host port)
    let ?o = "s\<lparr>os_accept := (os_accept s)(l := rest), os_open := (os_open s)(fd := True)\<rparr>"
    obtain ok s1 where r: "sw_mgr_try_reserve_connection ?o = (ok, s1)" by (cases "sw_mgr_try_reserve_connection ?o")
    obtain rc s2 where d: "sw_mgr_dispatch_connection L l fd host port True s1 = (rc, s2)"
      by (cases "sw_mgr_dispatch_connection L l fd host port True s1")
    have c1: "good A s1" using r Cons.prems
      by (auto simp: sw_mgr_try_reserve_connection_def Let_def calm_def clean_def split: if_splits)
    have c2: "good A s2" using dispatch_good[OF c1 d] .
    have "accept_loop L l (a # rest) s = (if \<not> ok then accept_loop L l rest (sw_socket_close fd s1)
        else if rc \<noteq> 0 then (-1, sw_socket_close fd (sw_mgr_release_connection s2)) else accept_loop L l rest s2)"
      using Accept_socket r d by simp
    then show ?thesis
      using Cons.IH[OF c2] Cons.IH[of "sw_socket_close fd s1"] good_upd(3)[where A = A] good_upd(4)[where A = A] c1 c2
      by (auto simp del: accept_loop.simps good_upd split: if_splits)
  next
    case (Accept_no_nonblocking fd)
    then show ?thesis using Cons.IH[of "s\<lparr>os_accept := (os_accept s)(l := rest)\<rparr>"] Cons.prems good_upd(2)[where A = A and s = s] by simp
  next
    case Accept_error
    then show ?thesis using Cons.prems good_upd(2)[where A = A and s = s] by simp
  qed
qed simp

lemma backend_poll_runs:
  "mgr_inv s \<Longrightarrow> good A s \<Longrightarrow> events_ok events s \<Longrightarrow> accepts_fresh A Ls events s \<Longrightarrow>
   gives (sw_backend_poll A Ls events s) (\<lambda>(ok, s'). good A s')"
proof (induction events arbitrary: s)
  case (Cons e events)
  show ?case
  proof (cases e)
    case (Listener_event l)
    obtain rc s1 where a: "sw_mgr_accept_ready (Ls l) l s = (rc, s1)" by (cases "sw_mgr_accept_ready (Ls l) l s")
    have i: "mgr_inv s1" using accept_loop_inv[OF Cons.prems(1), of "Ls l" l "os_accept s l"] Cons.prems(4) a Listener_event
      by (simp add: sw_mgr_accept_ready_def)
    have g: "good A s1" using accept_good[OF Cons.prems(2), of "Ls l" l "os_accept s l"] a by (simp add: sw_mgr_accept_ready_def)
    have "events_ok events s1"
      using events_ok_accept[OF Cons.prems(1), of l events "Ls l"] Cons.prems(3) a Listener_event by simp
    from Cons.IH[OF i g this] show ?thesis using Cons.prems(4) a Listener_event g by simp
  next
    case (Connection_event h hup r w)
    then obtain c where c: "mg_connections s h = Some c" using Cons.prems(3) by (auto simp: events_ok_def)
    then have live: "mg_connections s h \<noteq> None" by simp
    from handle_event_runs[OF clean_ready[OF Cons.prems(2) live], of hup r w] obtain s1
      where s1: "handle_event A h hup r w s = Some s1" "settled A h s1" by (auto simp: gives_def)
    have i: "mgr_inv s1" by (rule moves_inv[OF handle_event_moves Cons.prems(1) c s1(1)])
    have g: "good A s1" by (rule moves_good[OF handle_event_moves Cons.prems(2) live s1])
    have "events_ok events s1" using Cons.prems(3) events_ok_handle s1(1) Connection_event by blast
    from Cons.IH[OF i g this] show ?thesis using Cons.prems(4) Connection_event s1(1) by simp
  qed
qed simp

text \<open>
  A manager that has just been created for a polite application: a configuration value of 0 is
  replaced by its default, so the limit of the write buffer is never 0.
\<close>

lemma started_calm:
  assumes "config_ranges (merge_config config)" "reply_room \<le> max_write_buffer_bytes (merge_config config)"
    "max_write_buffer_bytes (merge_config config) \<le> SIZE_MAX" "polite_app (max_write_buffer_bytes (merge_config config)) A"
  shows "good A (sw_mgr_start (merge_config config) now answers user)"
  using assms by (simp add: calm_def clean_def sw_mgr_start_def)

text \<open>
  A client of a manager with the default configuration: its connection has been accepted, its request
  waits in the socket, and the handler answers with a header and a text.
\<close>

definition greeting_app :: "'u application" where
  "greeting_app = quiet_app\<lparr>app_handler := (\<lambda>l m u.
     (Call (Set_header (Some ''X-Greeting'') (Some ''1'')) (\<lambda>_. Call (Reply 200 None ''hello'') (\<lambda>_. Finish)), u))\<rparr>"

definition asking_client :: "unit sw_mgr" where
  "asking_client = (snd (sw_mgr_accept_ready plain_listener 0 first_client))
     \<lparr>os_input := (\<lambda>_. [])(7 := [Recv_data (''GET / HTTP/1.1'' @ crlf @ ''Host: a'' @ crlf2)])\<rparr>"

lemma asking_client_ok:
  "mgr_inv asking_client" "calm greeting_app asking_client" "clean asking_client"
  "wait_state greeting_app (-1) asking_client = Some asking_client" "mg_connections asking_client 0 \<noteq> None"
proof -
  let ?s = "snd (sw_mgr_accept_ready plain_listener 0 first_client)"
  have "mgr_inv first_client" unfolding first_client_def by (rule mgr_start_inv)
  then have i: "mgr_inv ?s" unfolding sw_mgr_accept_ready_def
    by (rule accept_loop_inv) (simp_all add: plain_listener_def first_client_def sw_mgr_start_def Let_def split: prod.split)
  show "mgr_inv asking_client" unfolding asking_client_def by (rule inv_same[OF i]) (simp_all add: inv_heap[OF i])
  have polite: "polite_app limit greeting_app" for limit
    by (simp add: polite_app_def greeting_app_def queued_after_def)
  show "calm greeting_app asking_client"
    unfolding asking_client_def first_accept snd_conv
    by (simp add: calm_def polite first_client_def sw_mgr_start_def reply_room_def config_ranges_def sw_server_config_default_def SIZE_MAX_def)
  show "clean asking_client" "mg_connections asking_client 0 \<noteq> None"
    unfolding asking_client_def first_accept snd_conv by (simp_all add: clean_def new_connection_def)
  show "wait_state greeting_app (-1) asking_client = Some asking_client"
    unfolding asking_client_def first_accept snd_conv
    by (simp add: wait_state_def sw_mgr_expire_timeouts_def sw_mgr_effective_poll_timeout_def sw_now_ms_def sw_mgr_peek_timer.simps
        first_client_def sw_mgr_start_def timer_valid_def sw_connection_timeout_due_ms_def sw_server_config_default_def
        new_connection_def sw_connection_has_pending_output_def sooner_def)
qed

text \<open>
  C16. No use after free. While \<^verbatim>\<open>epoll_ctl\<close> succeeds, the write buffer may hold the 512 bytes that a reply of
  the server itself needs at most, and the handlers are polite, a round of the event loop of a manager that accepts its own connections never touches
  a connection it has already freed, whatever the peers send, whenever they disconnect, whatever
  \<^verbatim>\<open>send\<close>, \<^verbatim>\<open>recv\<close> and \<^verbatim>\<open>shutdown\<close> answer, and however large the replies of the handlers are: it always completes,
  and the same holds for the next round.
\<close>

theorem no_use_after_free:
  assumes "mgr_inv s" and "calm A s" and "clean s"
    and "\<And>w es. wait_state A timeout_ms s = Some w \<Longrightarrow> events = Some es \<Longrightarrow> events_ok es w \<and> accepts_fresh A Ls es w"
  shows "\<exists>rc s'. sw_mgr_poll A Ls None timeout_ms events s = Some (rc, s') \<and> calm A s' \<and> clean s'"
proof (cases "mg_stop_requested s")
  case False
  have g: "good A s" using assms(2,3) by simp
  from expire_timeouts_runs[OF g] obtain d1 s1 where e1: "sw_mgr_expire_timeouts A s = Some (d1, s1)" "good A s1"
    by (auto simp: gives_def)
  obtain t s2 where t: "sw_mgr_effective_poll_timeout timeout_ms s1 = (t, s2)" by (cases "sw_mgr_effective_poll_timeout timeout_ms s1")
  have "mgr_inv s1" using expire_timeouts_inv[OF assms(1), of A] e1 by simp
  then have i2: "mgr_inv s2" by (rule effective_timeout_inv[OF _ t])
  have c2: "good A s2" by (rule effective_timeout_good[OF e1(2) t])
  have w: "wait_state A timeout_ms s = Some s2" by (simp add: wait_state_def e1 t)
  show ?thesis
  proof (cases events)
    case None
    then show ?thesis using False e1 t c2 by (simp add: sw_mgr_poll_def)
  next
    case (Some es)
    have "events_ok es s2" "accepts_fresh A Ls es s2" using assms(4)[OF w Some] by simp_all
    from backend_poll_runs[OF i2 c2 this] obtain ok s3 where b: "sw_backend_poll A Ls es s2 = Some (ok, s3)" "good A s3"
      by (auto simp: gives_def)
    from expire_timeouts_runs[OF b(2)] obtain d4 s4 where "sw_mgr_expire_timeouts A s3 = Some (d4, s4)" "good A s4"
      by (auto simp: gives_def)
    then show ?thesis using False e1 t Some b by (cases ok) (simp_all add: sw_mgr_poll_def)
  qed
qed (use assms in \<open>simp add: sw_mgr_poll_def\<close>)

theorem no_use_after_free_witness:
  "\<exists>rc s'. sw_mgr_poll greeting_app (\<lambda>_. plain_listener) None (-1) (Some [Connection_event 0 False True True]) asking_client = Some (rc, s')
     \<and> clean s'"
proof -
  have "events_ok es w \<and> accepts_fresh greeting_app (\<lambda>_. plain_listener) es w"
    if "wait_state greeting_app (-1) asking_client = Some w" "Some [Connection_event 0 False True True] = Some es" for w es
    using that asking_client_ok(4,5) by (auto simp: events_ok_def split: option.split)
  then show ?thesis
    using no_use_after_free[OF asking_client_ok(1-3), of "-1" "Some [Connection_event 0 False True True]" "\<lambda>_. plain_listener"] by blast
qed

end
