(* ===== verification/ManagerTimers.thy ===== *)
theory ManagerTimers
  imports ManagerTotal
begin

text \<open>
  The timer loop: it ends, and it leaves no connection behind whose time is over.
\<close>

section \<open>What scheduling leaves\<close>

text \<open>The queue has the current deadline of the connection.\<close>

definition covered :: "'u sw_mgr \<Rightarrow> nat \<Rightarrow> bool" where
  "covered s h \<longleftrightarrow> (\<forall>c d. mg_connections s h = Some c \<and> sw_connection_timeout_due_ms (mg_config s) c = Some d \<longrightarrow>
     \<lparr>due_ms = d, connection_handle = h, generation = c_timer_generation c\<rparr> \<in> set (mg_timers s))"

lemma due_generation [simp]:
  "sw_connection_timeout_due_ms cfg (c\<lparr>c_timer_generation := g\<rparr>) = sw_connection_timeout_due_ms cfg c"
  by (simp add: sw_connection_timeout_due_ms_def sw_connection_has_pending_output_def Let_def)

lemma push_set: "set (sw_timer_heap_push es e) = insert e (set es)"
  by (metis heap_push_mset set_mset_add_mset_insert set_mset_mset)

lemma schedule_covers:
  assumes "mg_connections s h = Some c"
  shows "gives (sw_mgr_schedule_connection_timeout h s)
    (\<lambda>s'. (\<exists>g. mg_connections s' h = Some (c\<lparr>c_timer_generation := g\<rparr>)) \<and> covered s' h)"
proof (cases "sw_connection_timeout_due_ms (mg_config s) c")
  case None
  then have "sw_mgr_schedule_connection_timeout h s = Some s" using assms by (simp add: sw_mgr_schedule_connection_timeout_def)
  moreover have "\<exists>g. mg_connections s h = Some (c\<lparr>c_timer_generation := g\<rparr>)"
    using assms by (intro exI[of _ "c_timer_generation c"]) simp
  ultimately show ?thesis using None assms by (simp add: covered_def)
next
  case (Some d)
  then show ?thesis using assms by (auto simp: sw_mgr_schedule_connection_timeout_def covered_def push_set)
qed

lemma mark_activity_covers:
  assumes "mg_connections s h = Some c"
  shows "gives (sw_connection_mark_activity h t s)
    (\<lambda>s'. (\<exists>g. mg_connections s' h = Some (c\<lparr>c_last_activity_at_ms := t, c_timer_generation := g\<rparr>)) \<and> covered s' h)"
  using assms schedule_covers[of "put h (c\<lparr>c_last_activity_at_ms := t\<rparr>) s" h "c\<lparr>c_last_activity_at_ms := t\<rparr>"]
  by (simp add: sw_connection_mark_activity_def)

lemma covered_ctl: "covered s h \<Longrightarrow> covered (snd (epoll_ctl fd ev s)) h"
  by (auto simp: epoll_ctl_def covered_def split: list.split)

lemma ctl_connections [simp]: "mg_connections (snd (epoll_ctl fd ev s)) = mg_connections s"
  by (auto simp: epoll_ctl_def split: list.split)

lemma sync_covers:
  assumes "mg_connections s h = Some c"
  shows "gives (sw_mgr_sync_connection h s)
    (\<lambda>(r, s'). (\<exists>g. mg_connections s' h = Some (c\<lparr>c_timer_generation := g\<rparr>)) \<and> covered s' h)"
  unfolding sw_mgr_sync_connection_def Let_def
proof (rule gives_pair)
  fix t s1 assume n: "sw_now_ms s = (t, s1)"
  have c1: "mg_connections s1 h = Some c" using assms now_connections[OF n] by simp
  show "gives (sw_mgr_schedule_connection_timeout h s1 \<bind> (\<lambda>s. mg_connections s h \<bind> (\<lambda>c. Some (sw_backend_update_connection c s))))
      (\<lambda>(r, s'). (\<exists>g. mg_connections s' h = Some (c\<lparr>c_timer_generation := g\<rparr>)) \<and> covered s' h)"
    by (rule gives_bind[OF schedule_covers[OF c1]])
      (auto simp: sw_backend_update_connection_def case_prod_beta intro: covered_ctl)
qed


section \<open>Closing the write side\<close>

text \<open>
  After an expiry the connection is gone, or it will be closed at its next deadline: its write side
  is shut down or a reply is pending. Its deadline is in the queue.
\<close>

definition ending :: "nat \<Rightarrow> 'u sw_mgr \<Rightarrow> bool" where
  "ending h s \<longleftrightarrow> mg_connections s h = None \<or>
     ((\<exists>c. mg_connections s h = Some c \<and> (c_write_shutdown c \<or> sw_connection_has_pending_output c)) \<and> covered s h)"

lemma ending_gone: "mg_connections s h = None \<Longrightarrow> ending h s"
  by (simp add: ending_def)

lemma gives_step: "gives m (\<lambda>x. gives (f x) P) \<Longrightarrow> gives (m \<bind> f) P"
  by (auto simp: gives_def)

lemma gives_get: "m = Some c0 \<Longrightarrow> (\<And>c. m = Some c \<Longrightarrow> gives (f c) P) \<Longrightarrow> gives (m \<bind> f) P"
  by simp

lemma gives_total: "gives m P \<Longrightarrow> yields m Q \<Longrightarrow> gives m Q"
  by (auto simp: gives_def)

lemma gives_yields: "gives m P \<Longrightarrow> (\<And>x. P x \<Longrightarrow> Q x) \<Longrightarrow> yields m Q"
  by (auto simp: gives_def)

text \<open>A live connection can always be closed, whatever \<^verbatim>\<open>epoll_ctl\<close> answers.\<close>

lemma close_gone:
  assumes "mg_connections s h = Some c"
  shows "gives (sw_mgr_close_connection h s) (\<lambda>s'. mg_connections s' h = None)"
proof -
  have "yields (sw_mgr_close_connection h s) (closed h s)" using assms by (intro closed_close kept_refl)
  then have y: "yields (sw_mgr_close_connection h s) (\<lambda>s'. mg_connections s' h = None)"
    by (rule yields_weaken) (auto simp: closed_def)
  have reset: "gives (sw_connection_reset_request h (put h c' s1)) (\<lambda>_. True)" for c' and s1 :: "'a sw_mgr"
    unfolding sw_connection_reset_request_def Let_def
  proof (rule gives_get, simp, rule gives_pair)
    fix c'' t and s2 :: "'a sw_mgr"
    show "gives (sw_mgr_schedule_connection_timeout h (put h (reset_request_fields t c'') s2)) (\<lambda>_. True)"
      by (rule gives_weaken[OF schedule_covers]) simp_all
  qed
  have "gives (sw_mgr_close_connection h s) (\<lambda>_. True)"
    unfolding sw_mgr_close_connection_def Let_def assms Option.bind_lunit by (rule gives_bind[OF reset]) simp
  then show ?thesis using y by (rule gives_total)
qed

lemma close_ends: "mg_connections s h = Some c \<Longrightarrow> gives (sw_mgr_close_connection h s) (ending h)"
  by (rule gives_weaken[OF close_gone ending_gone])

lemma shutdown_sync_ends:
  assumes "mg_connections s h = Some c" and "c_write_shutdown c"
  shows "gives (sw_mgr_sync_connection h s) (\<lambda>(r, s'). ending h s')"
  by (rule gives_weaken[OF sync_covers[OF assms(1)]]) (use assms(2) in \<open>auto simp: ending_def\<close>)

lemma shutdown_send_ends:
  assumes "mg_connections s h = Some c"
  shows "gives (sw_connection_shutdown_send h s) (\<lambda>(r, s'). ending h s')"
  unfolding sw_connection_shutdown_send_def Let_def
proof (rule gives_get[OF assms(1)], rule gives_if)
  fix c' assume c': "mg_connections s h = Some c'" and "\<not> c_write_shutdown c'"
  show "gives (case case os_shutdown s of [] \<Rightarrow> (True, s) | b # bs \<Rightarrow> (b, s\<lparr>os_shutdown := bs\<rparr>) of
      (ok, s) \<Rightarrow> if \<not> ok then sw_mgr_close_connection h s \<bind> (\<lambda>s. Some (- 1, s))
        else case sw_now_ms (put h (c'\<lparr>c_write_shutdown := True, c_close_after_write := False\<rparr>) s) of
          (now, s) \<Rightarrow> sw_connection_mark_activity h now s \<bind> sw_mgr_sync_connection h)
      (\<lambda>(r, s'). ending h s')"
  proof (rule gives_pair, rule gives_if)
    fix ok s1 assume "(case os_shutdown s of [] \<Rightarrow> (True, s) | b # bs \<Rightarrow> (b, s\<lparr>os_shutdown := bs\<rparr>)) = (ok, s1)"
    then have s1: "mg_connections s1 h = Some c'" using c' by (auto split: list.splits)
    show "gives (sw_mgr_close_connection h s1 \<bind> (\<lambda>s. Some (- 1::int, s))) (\<lambda>(r, s'). ending h s')"
      by (rule gives_step, rule gives_weaken[OF close_ends[OF s1]]) simp
    show "gives (case sw_now_ms (put h (c'\<lparr>c_write_shutdown := True, c_close_after_write := False\<rparr>) s1) of
          (now, s) \<Rightarrow> sw_connection_mark_activity h now s \<bind> sw_mgr_sync_connection h) (\<lambda>(r, s'). ending h s')"
    proof (rule gives_pair)
      let ?c = "c'\<lparr>c_write_shutdown := True, c_close_after_write := False\<rparr>"
      fix t s2 assume "sw_now_ms (put h ?c s1) = (t, s2)"
      then have "mg_connections s2 h = Some ?c" using now_connections by fastforce
      from mark_activity_covers[OF this]
      show "gives (sw_connection_mark_activity h t s2 \<bind> sw_mgr_sync_connection h) (\<lambda>(r, s'). ending h s')"
        by (rule gives_bind) (auto intro: shutdown_sync_ends)
    qed
  qed
qed (auto intro: shutdown_sync_ends)

section \<open>Sending the reply of a connection that is being closed\<close>

definition closing :: "sw_connection \<Rightarrow> bool" where
  "closing c \<longleftrightarrow> c_response_started c \<and> c_close_after_write c \<and> c_file_stream c = None"

lemma closing_updates [simp]:
  "closing (c\<lparr>c_timer_generation := g\<rparr>) = closing c" "closing (c\<lparr>c_last_activity_at_ms := t\<rparr>) = closing c"
  "closing (c\<lparr>c_write_buffer := w\<rparr>) = closing c"
  by (simp_all add: closing_def)

lemma fill_closing:
  "mg_connections s h = Some c \<Longrightarrow> closing c \<Longrightarrow> fill_or_close h s = Some (True, s)"
  by (simp add: fill_or_close_def sw_connection_fill_file_buffer_def closing_def)

lemma if_same: "a = b \<Longrightarrow> (if P then a else b) = b"
  by simp

lemma writable_loop_closing:
  fixes s :: "'u sw_mgr"
  assumes "mg_connections s h = Some c" and "closing c"
  shows "gives (writable_loop h answers s)
    (\<lambda>(b, s'). if b then \<exists>c. mg_connections s' h = Some c \<and> closing c else mg_connections s' h = None)"
  using assms
proof (induction answers arbitrary: s c)
  case (Cons answer rest)
  let ?P = "\<lambda>(b, s'). if b then \<exists>c. mg_connections s' h = Some c \<and> closing c else mg_connections s' h = None"
  show ?case
  proof (cases "length (c_write_buffer c) = 0")
    case False
    let ?s = "s\<lparr>os_room := (os_room s)(c_fd c := rest)\<rparr>"
    show ?thesis
    proof (cases answer)
      case Send_error
      have "gives (sw_mgr_close_connection h ?s \<bind> (\<lambda>s. Some (False, s))) ?P"
        by (rule gives_step, rule gives_weaken[OF close_gone[where c = c]]) (use Cons.prems in simp_all)
      then show ?thesis using Cons.prems(1) False Send_error by simp
    next
      case (Send_count k)
      let ?d = "take INT_MAX (c_write_buffer c)"
      define n where "n = min (max 1 k) (length ?d)"
      let ?t = "?s\<lparr>os_sent := (os_sent ?s)(c_fd c := os_sent ?s (c_fd c) @ take n ?d)\<rparr>"
      have step: "gives (sw_connection_mark_activity h t s1 \<bind> (\<lambda>s. mg_connections s h \<bind> (\<lambda>c.
            (if length (c_write_buffer (c\<lparr>c_write_buffer := drop n (c_write_buffer c)\<rparr>)) = 0
               then fill_or_close h (put h (c\<lparr>c_write_buffer := drop n (c_write_buffer c)\<rparr>) s)
               else Some (True, put h (c\<lparr>c_write_buffer := drop n (c_write_buffer c)\<rparr>) s)) \<bind>
            (\<lambda>(alive, s). if alive then writable_loop h rest s else Some (False, s))))) ?P"
        if nw: "sw_now_ms ?t = (t, s1)" for t s1
      proof (rule gives_bind[OF mark_activity_covers])
        show "mg_connections s1 h = Some c" using now_connections[OF nw] Cons.prems(1) by simp
        fix s2 :: "'u sw_mgr" assume "(\<exists>g. mg_connections s2 h = Some (c\<lparr>c_last_activity_at_ms := t, c_timer_generation := g\<rparr>)) \<and> covered s2 h"
        then obtain g where c2: "mg_connections s2 h = Some (c\<lparr>c_last_activity_at_ms := t, c_timer_generation := g\<rparr>)" by blast
        let ?c = "c\<lparr>c_last_activity_at_ms := t, c_timer_generation := g, c_write_buffer := drop n (c_write_buffer c)\<rparr>"
        have p: "mg_connections (put h ?c s2) h = Some ?c" "closing ?c" using Cons.prems(2) by simp_all
        have sel: "c_write_buffer (c\<lparr>c_last_activity_at_ms := t, c_timer_generation := g\<rparr>) = c_write_buffer c" by simp
        have full: "(if length (c_write_buffer ?c) = 0 then fill_or_close h (put h ?c s2) else Some (True, put h ?c s2)) = Some (True, put h ?c s2)"
          by (rule if_same[OF fill_closing[OF p]])
        show "gives (mg_connections s2 h \<bind> (\<lambda>c.
            (if length (c_write_buffer (c\<lparr>c_write_buffer := drop n (c_write_buffer c)\<rparr>)) = 0
               then fill_or_close h (put h (c\<lparr>c_write_buffer := drop n (c_write_buffer c)\<rparr>) s2)
               else Some (True, put h (c\<lparr>c_write_buffer := drop n (c_write_buffer c)\<rparr>) s2)) \<bind>
            (\<lambda>(alive, s). if alive then writable_loop h rest s else Some (False, s)))) ?P"
          unfolding c2 Option.bind_lunit sel full prod.case if_True by (rule Cons.IH[OF p])
      qed
      show ?thesis
        unfolding writable_loop.simps Cons.prems(1) Option.bind_lunit Let_def Send_count send_answer.case n_def[symmetric]
        by (subst if_not_P[OF False], rule gives_pair, erule step)
    qed
  qed (use Cons.prems in simp)
qed auto


lemma sync_pending_ends:
  assumes "mg_connections s h = Some c" and "sw_connection_has_pending_output c"
  shows "gives (sw_mgr_sync_connection h s) (\<lambda>(r, s'). ending h s')"
  by (rule gives_weaken[OF sync_covers[OF assms(1)]])
    (use assms(2) in \<open>auto simp: ending_def sw_connection_has_pending_output_def\<close>)

lemma finish_closing_ends:
  assumes "mg_connections s h = Some c" and "closing c" and "c_write_buffer c = []"
  shows "gives (sw_connection_finish_response A h s) (\<lambda>(r, s'). ending h s')"
proof -
  let ?c = "c\<lparr>c_handled_requests := c_handled_requests c + 1\<rparr>"
  have "sw_connection_finish_response A h s = sw_connection_shutdown_send h (put h ?c s)"
    using assms by (simp add: sw_connection_finish_response_def closing_def sw_connection_has_pending_output_def)
  then show ?thesis using shutdown_send_ends[of "put h ?c s" h ?c] by simp
qed

lemma writable_closing_ends:
  assumes "mg_connections s h = Some c" and "closing c"
  shows "gives (sw_mgr_connection_writable A h s) (\<lambda>(r, s'). ending h s')"
proof -
  have loop: "gives (writable_loop h (os_room s (c_fd c)) s) (\<lambda>(b, s'). if b then \<exists>c. mg_connections s' h = Some c \<and> closing c
      else mg_connections s' h = None)"
    by (rule writable_loop_closing[OF assms])
  have rest: "gives (mg_connections s' h \<bind> (\<lambda>c. (if length (c_write_buffer c) = 0 then fill_or_close h s' else Some (True, s')) \<bind>
        (\<lambda>(alive, s). if \<not> alive then Some (- 1, s) else mg_connections s h \<bind> (\<lambda>c.
          if length (c_write_buffer c) = 0 \<and> c_file_stream c = None then sw_connection_finish_response A h s
          else sw_mgr_sync_connection h s \<bind> (\<lambda>(rc, s). Some (0, s)))))) (\<lambda>(r, s'). ending h s')"
    if c': "mg_connections s' h = Some c'" "closing c'" for s' :: "'a sw_mgr" and c'
  proof -
    have fill: "(if length (c_write_buffer c') = 0 then fill_or_close h s' else Some (True, s')) = Some (True, s')"
      by (rule if_same[OF fill_closing[OF c']])
    show ?thesis
    proof (cases "c_write_buffer c' = []")
      case True
      then show ?thesis unfolding c'(1) Option.bind_lunit fill prod.case
        using c' finish_closing_ends[OF c' True] by (simp add: closing_def)
    next
      case False
      then have "gives (sw_mgr_sync_connection h s' \<bind> (\<lambda>(rc, s). Some (0::int, s))) (\<lambda>(r, s'). ending h s')"
        by (intro gives_step gives_weaken[OF sync_pending_ends[OF c'(1)]]) (auto simp: sw_connection_has_pending_output_def)
      then show ?thesis unfolding c'(1) Option.bind_lunit fill prod.case using False c' by simp
    qed
  qed
  show ?thesis
    unfolding sw_mgr_connection_writable_def fill_closing[OF assms] Option.bind_lunit prod.case assms(1) not_True_eq_False if_False
  proof (rule gives_step, rule gives_weaken[OF loop], clarify)
    fix alive and s' :: "'a sw_mgr"
    assume l: "if alive then \<exists>c. mg_connections s' h = Some c \<and> closing c else mg_connections s' h = None"
    show "gives (if \<not> alive then Some (- 1, s') else mg_connections s' h \<bind> (\<lambda>c.
        (if length (c_write_buffer c) = 0 then fill_or_close h s' else Some (True, s')) \<bind>
        (\<lambda>(alive, s). if \<not> alive then Some (- 1, s) else mg_connections s h \<bind> (\<lambda>c.
          if length (c_write_buffer c) = 0 \<and> c_file_stream c = None then sw_connection_finish_response A h s
          else sw_mgr_sync_connection h s \<bind> (\<lambda>(rc, s). Some (0, s)))))) (\<lambda>(r, s'). ending h s')"
    proof (rule gives_if)
      assume "\<not> \<not> alive"
      with l obtain c' where c': "mg_connections s' h = Some c'" "closing c'" by auto
      show "gives (mg_connections s' h \<bind> (\<lambda>c. (if length (c_write_buffer c) = 0 then fill_or_close h s' else Some (True, s')) \<bind>
        (\<lambda>(alive, s). if \<not> alive then Some (- 1, s) else mg_connections s h \<bind> (\<lambda>c.
          if length (c_write_buffer c) = 0 \<and> c_file_stream c = None then sw_connection_finish_response A h s
          else sw_mgr_sync_connection h s \<bind> (\<lambda>(rc, s). Some (0, s)))))) (\<lambda>(r, s'). ending h s')"
        by (rule rest[OF c'])
    qed (use l in \<open>simp add: ending_gone\<close>)
  qed
qed

lemma begin_closing:
  assumes "sw_connection_begin_response cfg c st ct n = (0, c')" and "c_must_close c" and "c_file_stream c = None"
  shows "closing c' \<and> c_write_buffer c' \<noteq> []"
proof -
  have "\<not> sw_request_allows_keep_alive cfg c" using assms(2) by (simp add: sw_request_allows_keep_alive_def)
  then show ?thesis using begin_response_ok[OF assms(1)] assms(3) by (simp add: response_done_def closing_def)
qed

definition replied :: "nat \<Rightarrow> 'u sw_mgr \<Rightarrow> bool" where
  "replied h s \<longleftrightarrow> (\<exists>c. mg_connections s h = Some c \<and> closing c \<and> c_write_buffer c \<noteq> [])"

lemma reply_closing:
  assumes "mg_connections s h = Some c" and "c_must_close c" and "c_file_stream c = None"
  shows "gives (sw_http_reply h st ct body s) (\<lambda>(r, s'). (r = 0 \<longrightarrow> replied h s') \<and> mg_connections s' h \<noteq> None)"
  unfolding sw_http_reply_def Let_def
proof (rule gives_get[OF assms(1)], rule gives_pair, rule gives_if)
  fix c0 rc c1 assume c0: "mg_connections s h = Some c0" and b: "sw_connection_begin_response (mg_config s) c0 st ct (length body) = (rc, c1)"
    and rc: "\<not> rc \<noteq> 0"
  have cl: "closing c1 \<and> c_write_buffer c1 \<noteq> []" using begin_closing[of "mg_config s" c0 st ct "length body" c1] b rc c0 assms by simp
  show "gives (case if length body > 0 then sw_connection_append_output (mg_config s) c1 body else (True, c1) of
      (ok, c) \<Rightarrow> if \<not> ok then Some (-1, put h c s)
        else case sw_now_ms (put h c s) of (now, s) \<Rightarrow> sw_connection_mark_activity h now s \<bind> sw_mgr_sync_connection h)
      (\<lambda>(r, s'). (r = 0 \<longrightarrow> replied h s') \<and> mg_connections s' h \<noteq> None)"
  proof (rule gives_pair, rule gives_if)
    fix ok c2 assume ap: "(if length body > 0 then sw_connection_append_output (mg_config s) c1 body else (True, c1)) = (ok, c2)"
    then have cl2: "closing c2 \<and> c_write_buffer c2 \<noteq> []"
      using cl by (auto simp: sw_connection_append_output_def split: if_splits)
    show "gives (case sw_now_ms (put h c2 s) of (now, s) \<Rightarrow> sw_connection_mark_activity h now s \<bind> sw_mgr_sync_connection h)
        (\<lambda>(r, s'). (r = 0 \<longrightarrow> replied h s') \<and> mg_connections s' h \<noteq> None)"
    proof (rule gives_pair)
      fix t s1 assume n: "sw_now_ms (put h c2 s) = (t, s1)"
      have "mg_connections s1 h = Some c2" using now_connections[OF n] by simp
      from mark_activity_covers[OF this]
      show "gives (sw_connection_mark_activity h t s1 \<bind> sw_mgr_sync_connection h) (\<lambda>(r, s'). (r = 0 \<longrightarrow> replied h s') \<and> mg_connections s' h \<noteq> None)"
      proof (rule gives_bind, elim conjE exE)
        fix s2 :: "'a sw_mgr" and g assume "mg_connections s2 h = Some (c2\<lparr>c_last_activity_at_ms := t, c_timer_generation := g\<rparr>)"
        from sync_covers[OF this] show "gives (sw_mgr_sync_connection h s2) (\<lambda>(r, s'). (r = 0 \<longrightarrow> replied h s') \<and> mg_connections s' h \<noteq> None)"
          by (rule gives_weaken) (use cl2 in \<open>auto simp: replied_def\<close>)
      qed
    qed
  qed simp
qed simp

lemma status_text_closing:
  assumes "mg_connections s h = Some c" and "c_must_close c" and "c_file_stream c = None"
  shows "gives (sw_http_reply_status_text h st body s) (\<lambda>(r, s'). if r = 0 then replied h s' else ending h s')"
  unfolding sw_http_reply_status_text_def sw_http_replyf_def
proof (rule gives_step, rule gives_weaken[OF reply_closing[OF assms]])
  fix x :: "int \<times> 'a sw_mgr" assume x: "case x of (r, s') \<Rightarrow> (r = 0 \<longrightarrow> replied h s') \<and> mg_connections s' h \<noteq> None"
  obtain r s1 where xs: "x = (r, s1)" by (cases x)
  obtain c1 where c1: "mg_connections s1 h = Some c1" using x xs by auto
  have "gives (sw_mgr_close_connection h s1 \<bind> (\<lambda>s. Some (- 1::int, s))) (\<lambda>(r, s'). if r = 0 then replied h s' else ending h s')"
    by (rule gives_step, rule gives_weaken[OF close_ends[OF c1]]) simp
  then show "gives (case x of (rc, s) \<Rightarrow> if rc \<noteq> 0 then sw_mgr_close_connection h s \<bind> (\<lambda>s. Some (- 1, s)) else Some (0::int, s))
      (\<lambda>(r, s'). if r = 0 then replied h s' else ending h s')"
    using x unfolding xs prod.case by (intro gives_if) simp_all
qed

lemma expire_ends:
  assumes live: "mg_connections s h = Some c0"
  shows "gives (expire_connection A h s) (ending h)"
  unfolding expire_connection_def Let_def
proof (rule gives_get[OF live], intro gives_if close_ends[OF live])
  fix c assume c: "mg_connections s h = Some c" and np: "\<not> (c_write_shutdown c \<or> sw_connection_has_pending_output c)"
  let ?c = "c\<lparr>c_must_close := True\<rparr>"
  have dis: "gives (sw_connection_discard_available_plain_input h (put h ?c s))
      (\<lambda>(r, s'). if r < 0 then ending h s' else mg_connections s' h = Some ?c)"
    unfolding sw_connection_discard_available_plain_input_def Let_def
    by (rule gives_get[of _ ?c], simp, rule gives_pair, rule gives_if, rule gives_step, rule gives_weaken[OF close_ends[of _ _ ?c]]) simp_all
  show "gives (sw_connection_discard_available_plain_input h (put h ?c s) \<bind> (\<lambda>(rc, s). if rc < 0 then Some s
      else sw_http_reply_status_text h 408 ''Request Timeout'' s \<bind> (\<lambda>(rc, s). if rc \<noteq> 0 then Some s
        else mg_connections s h \<bind> (\<lambda>c. if sw_connection_has_pending_output c
          then sw_mgr_connection_writable A h s \<bind> (\<lambda>(rc, s). Some s) else Some s)))) (ending h)"
  proof (rule gives_step, rule gives_weaken[OF dis], clarify)
    fix r :: int and s1 :: "'a sw_mgr" assume d: "if r < 0 then ending h s1 else mg_connections s1 h = Some ?c"
    have rep: "gives (sw_http_reply_status_text h 408 ''Request Timeout'' s1) (\<lambda>(r, s'). if r = 0 then replied h s' else ending h s')"
      if "\<not> r < 0" using status_text_closing[of s1 h ?c] d that np by (simp add: sw_connection_has_pending_output_def)
    have last: "gives (mg_connections s2 h \<bind> (\<lambda>c. if sw_connection_has_pending_output c
          then sw_mgr_connection_writable A h s2 \<bind> (\<lambda>(rc, s). Some s) else Some s2)) (ending h)"
      if r2: "replied h s2" for s2 :: "'a sw_mgr"
    proof -
      obtain c2 where c2: "mg_connections s2 h = Some c2" "closing c2" "c_write_buffer c2 \<noteq> []" using r2 by (auto simp: replied_def)
      have "gives (sw_mgr_connection_writable A h s2 \<bind> (\<lambda>(rc, s). Some s)) (ending h)"
        by (rule gives_step, rule gives_weaken[OF writable_closing_ends[OF c2(1,2)]]) auto
      then show ?thesis using c2 by (simp add: sw_connection_has_pending_output_def)
    qed
    show "gives (if r < 0 then Some s1
      else sw_http_reply_status_text h 408 ''Request Timeout'' s1 \<bind> (\<lambda>(rc, s). if rc \<noteq> 0 then Some s
        else mg_connections s h \<bind> (\<lambda>c. if sw_connection_has_pending_output c
          then sw_mgr_connection_writable A h s \<bind> (\<lambda>(rc, s). Some s) else Some s))) (ending h)"
      by (rule gives_if) (use d in simp, rule gives_step, rule gives_weaken[OF rep], auto intro: last split: if_splits)
  qed
qed


section \<open>The loop ends\<close>

text \<open>
  Every round closes its connection or leaves it so that its next round closes it. So the loop
  runs at most twice for every connection.
\<close>

definition almost_closed :: "'u sw_mgr \<Rightarrow> nat \<Rightarrow> bool" where
  "almost_closed s h \<longleftrightarrow> (\<exists>c. mg_connections s h = Some c \<and> (c_write_shutdown c \<or> sw_connection_has_pending_output c))"

definition rounds :: "'u sw_mgr \<Rightarrow> nat" where
  "rounds s = (\<Sum>h\<leftarrow>live s. if almost_closed s h then 1 else 2)"

lemma rounds_bound: "rounds s \<le> 2 * length (live s)"
proof -
  have "(\<Sum>h\<leftarrow>hs. if almost_closed s h then 1 else 2) \<le> 2 * length hs" for hs by (induction hs) auto
  then show ?thesis by (simp add: rounds_def)
qed

lemma rounds_sum: "rounds s = (\<Sum>h<mg_next_handle s. if mg_connections s h = None then 0 else if almost_closed s h then 1 else 2)"
proof -
  have "(\<Sum>h\<leftarrow>filter (\<lambda>h. mg_connections s h \<noteq> None) hs. if almost_closed s h then 1 else 2) =
      (\<Sum>h\<leftarrow>hs. if mg_connections s h = None then 0 else if almost_closed s h then 1 else (2::nat))" for hs
    by (induction hs) auto
  then show ?thesis by (simp add: rounds_def live_def sum_list_upt atLeast0LessThan interv_sum_list_conv_sum_set_nat)
qed


lemma rounds_timers [simp]: "rounds (s\<lparr>mg_timers := ts\<rparr>) = rounds s"
  by (simp add: rounds_sum almost_closed_def cong: if_cong)

lemma rounds_less:
  fixes s s' :: "'a sw_mgr"
  assumes "h < mg_next_handle s" and "mg_connections s h = Some c" and "mg_next_handle s' = mg_next_handle s"
    and "\<And>h'. h' \<noteq> h \<Longrightarrow> mg_connections s' h' = mg_connections s h'"
    and "mg_connections s' h = None \<or> (\<not> almost_closed s h \<and> almost_closed s' h)"
  shows "rounds s' < rounds s"
proof -
  define f where "f s h = (if mg_connections s h = None then 0 else if almost_closed s h then 1 else (2::nat))" for s :: "'a sw_mgr" and h
  have other: "f s' h' = f s h'" if "h' \<noteq> h" for h'
    using assms(4)[OF that] by (simp add: almost_closed_def f_def)
  have less: "f s' h < f s h" using assms(2,5) by (auto simp: almost_closed_def f_def)
  have "(\<Sum>h<mg_next_handle s. f s' h) < (\<Sum>h<mg_next_handle s. f s h)"
  proof (intro sum_strict_mono_ex1 ballI bexI[of _ h])
    show "f s' h' \<le> f s h'" for h' using other[of h'] less by (cases "h' = h") simp_all
  qed (use assms(1) less in simp_all)
  then show ?thesis using assms(3) by (simp add: rounds_sum f_def)
qed

lemma expire_closes: "almost_closed s h \<Longrightarrow> yields (expire_connection A h s) (\<lambda>s'. mg_connections s' h = None)"
  unfolding expire_connection_def almost_closed_def by (auto intro: gives_yields[OF close_gone])

lemma moved_others: "moved h s s' \<Longrightarrow> others_kept h s s'"
  by (auto simp: moved_def kept_def closed_def)

lemma expire_round:
  assumes "mgr_inv s" and "mg_connections s h = Some c" and "expire_connection A h s = Some s'"
  shows "mgr_inv s'" "others_kept h s s'" "ending h s'" "rounds s' < rounds s"
proof -
  show "mgr_inv s'" by (rule moves_inv[OF expire_moves assms])
  have "moved h s s'" using moves_end[OF expire_moves moved_refl[OF assms(2)], of A] assms(3) by simp
  then show o: "others_kept h s s'" by (rule moved_others)
  show e: "ending h s'" using expire_ends[OF assms(2), of A] assms(3) by simp
  have "mg_connections s' h = None \<or> (\<not> almost_closed s h \<and> almost_closed s' h)"
    using e expire_closes[of s h A] assms(3) by (auto simp: ending_def almost_closed_def)
  then show "rounds s' < rounds s"
    using rounds_less[of h s c s'] inv_connection[OF assms(1,2)] assms(2) o by (simp add: connection_ok_def others_kept_def)
qed

section \<open>No deadline is missed\<close>

lemma covered_entry:
  assumes "covered s h" and "mg_connections s h = Some c" and "sw_connection_timeout_due_ms (mg_config s) c = Some d"
  defines "e \<equiv> \<lparr>due_ms = d, connection_handle = h, generation = c_timer_generation c\<rparr>"
  shows "e \<in> set (mg_timers s) \<and> timer_valid s e"
  using assms by (simp add: covered_def timer_valid_def)

lemma covered_trim:
  assumes "covered s h" and "timers_trimmed s ts"
  shows "covered (s\<lparr>mg_timers := ts\<rparr>) h"
  unfolding covered_def
proof (intro allI impI)
  fix c d assume "mg_connections (s\<lparr>mg_timers := ts\<rparr>) h = Some c \<and>
    sw_connection_timeout_due_ms (mg_config (s\<lparr>mg_timers := ts\<rparr>)) c = Some d"
  then have "mg_connections s h = Some c" "sw_connection_timeout_due_ms (mg_config s) c = Some d" by simp_all
  from covered_entry[OF assms(1) this] assms(2)
  show "\<lparr>due_ms = d, connection_handle = h, generation = c_timer_generation c\<rparr> \<in> set (mg_timers (s\<lparr>mg_timers := ts\<rparr>))"
    by (simp add: timers_trimmed_def)
qed

lemma covered_pop:
  assumes "covered (s\<lparr>mg_timers := ts\<rparr>) h" and "ts \<noteq> []" and "connection_handle (ts ! 0) \<noteq> h"
  shows "covered (s\<lparr>mg_timers := pop_timer ts\<rparr>) h"
proof -
  have "set ts = insert (ts ! 0) (set (pop_timer ts))"
    using pop_timer_set[OF assms(2)] by (metis set_mset_add_mset_insert set_mset_mset)
  then show ?thesis using assms(1,3) by (auto simp: covered_def dest!: arg_cong[where f = connection_handle])
qed

lemma covered_others: "others_kept h s s' \<Longrightarrow> h' \<noteq> h \<Longrightarrow> covered s h' \<Longrightarrow> covered s' h'"
  by (auto simp: others_kept_def covered_def)

lemma covered_due:
  assumes "heap_inv ts" and "ts = [] \<or> due_ms (ts ! 0) > now" and "covered (s\<lparr>mg_timers := ts\<rparr>) h"
    and "mg_connections s h = Some c" and "sw_connection_timeout_due_ms (mg_config s) c = Some d"
  shows "d > now"
proof -
  have "\<lparr>due_ms = d, connection_handle = h, generation = c_timer_generation c\<rparr> \<in> set ts"
    using assms(3-5) by (simp add: covered_def)
  then obtain j where "j < length ts" "ts ! j = \<lparr>due_ms = d, connection_handle = h, generation = c_timer_generation c\<rparr>"
    by (auto simp: in_set_conv_nth)
  with heap_root_min[OF assms(1), of j] assms(2) show ?thesis by auto
qed

definition on_time :: "real \<Rightarrow> 'u sw_mgr \<Rightarrow> bool" where
  "on_time now s \<longleftrightarrow> (\<forall>h c d. mg_connections s h = Some c \<and> sw_connection_timeout_due_ms (mg_config s) c = Some d \<longrightarrow> now < d)"

lemma expire_loop_complete:
  assumes "mgr_inv s" and "rounds s < fuel"
  shows "gives (expire_loop fuel A now s)
    (\<lambda>(d, s'). d \<and> ((\<forall>h. covered s h) \<longrightarrow> (\<forall>h. covered s' h) \<and> on_time now s'))"
  using assms
proof (induction fuel arbitrary: s)
  case (Suc fuel)
  obtain ts where p: "sw_mgr_peek_timer s = (if ts = [] then None else Some (ts ! 0), s\<lparr>mg_timers := ts\<rparr>)"
    and t: "timers_trimmed s ts" "ts \<noteq> [] \<longrightarrow> timer_valid s (ts ! 0)"
    using peek_spec[of s] by blast
  let ?p = "s\<lparr>mg_timers := pop_timer ts\<rparr>" and ?h = "connection_handle (ts ! 0)"
  have heap: "heap_inv ts" using t(1) inv_heap[OF Suc.prems(1)] by (simp add: timers_trimmed_def)
  have cov: "covered (s\<lparr>mg_timers := ts\<rparr>) h" if "\<forall>h. covered s h" for h using covered_trim[OF _ t(1)] that by blast
  show ?case
  proof (cases "ts = [] \<or> due_ms (ts ! 0) > now")
    case True
    have "expire_loop (Suc fuel) A now s = Some (True, s\<lparr>mg_timers := ts\<rparr>)" using True by (auto simp: p)
    moreover have "on_time now (s\<lparr>mg_timers := ts\<rparr>)" if "\<forall>h. covered s h"
      using covered_due[OF heap True cov[OF that]] by (auto simp: on_time_def)
    ultimately show ?thesis using cov by (simp only: gives_Some prod.case) blast
  next
    case False
    then obtain c where c: "mg_connections ?p ?h = Some c" using t(2) by (auto simp: timer_valid_def split: option.splits)
    have i: "mgr_inv ?p" using Suc.prems(1) heap by (simp add: inv_timers pop_timer_heap)
    have run: "expire_loop (Suc fuel) A now s = (expire_connection A ?h ?p \<bind> expire_loop fuel A now)" using False by (simp add: p)
    from expire_ends[OF c, of A] obtain s1 where s1: "expire_connection A ?h ?p = Some s1" by (auto simp: gives_def)
    show ?thesis unfolding run s1 Option.bind_lunit
    proof -
      note r = expire_round[OF i c s1]
      have cov1: "covered s1 h" if all: "\<forall>h. covered s h" for h
      proof (cases "h = ?h")
        case True
        then show ?thesis using r(3) by (auto simp: ending_def covered_def)
      next
        case other: False
        have "covered ?p h" using covered_pop[OF cov[OF all], of h] False other by auto
        then show ?thesis using covered_others[OF r(2) other] by simp
      qed
      have "rounds s1 < fuel" using r(4) Suc.prems(2) by simp
      from Suc.IH[OF r(1) this] cov1
      show "gives (expire_loop fuel A now s1) (\<lambda>(d, s'). d \<and> ((\<forall>h. covered s h) \<longrightarrow> (\<forall>h. covered s' h) \<and> on_time now s'))"
        by (auto elim!: gives_weaken)
    qed
  qed
qed simp

lemma expire_timeouts_complete:
  assumes "mgr_inv s"
  shows "\<exists>s'. sw_mgr_expire_timeouts A s = Some (True, s') \<and>
    ((\<forall>h. covered s h) \<longrightarrow> (\<forall>h. covered s' h) \<and> on_time (fst (sw_now_ms s)) s')"
proof -
  obtain now s1 where n: "sw_now_ms s = (now, s1)" by (cases "sw_now_ms s")
  from now_spec[OF n] obtain ds where s1: "s1 = s\<lparr>os_now := now, os_ticks := ds\<rparr>" ..
  have c: "covered s1 = covered s" by (rule ext) (simp add: s1 covered_def)
  have "rounds s1 < 2 * length (live s1) + 1" using rounds_bound[of s1] by simp
  from expire_loop_complete[OF now_inv[OF assms n] this, of A now] show ?thesis
    by (auto simp: gives_def sw_mgr_expire_timeouts_def n c simp del: expire_loop.simps)
qed

text \<open>
  C19. Expiring ends. The loop over the due timers has no bound of its own in the code; it always ends,
  within two rounds for every live connection, because a round closes its connection or leaves
  it half closed or with a last reply pending, and then the next round for it closes it. This holds for
  every configuration and every answer of the kernel, \<^verbatim>\<open>epoll_ctl\<close> failing included; in particular expiring
  never uses a freed connection.
\<close>

theorem expire_terminates:
  assumes "mgr_inv s"
  shows "\<exists>s'. sw_mgr_expire_timeouts A s = Some (True, s')"
  using expire_timeouts_complete[OF assms] by blast



text \<open>A manager that has just accepted a connection, one second after its idle time is over.\<close>

definition idle_client :: "unit sw_mgr" where
  "idle_client = (snd (sw_mgr_accept_ready plain_listener 0 first_client))\<lparr>os_now := 16000\<rparr>"

lemma idle_client_ok: "mgr_inv idle_client" "\<And>h. covered idle_client h"
    "mg_connections idle_client 0 \<noteq> None" "fst (sw_now_ms idle_client) = 16000"
proof -
  let ?s = "snd (sw_mgr_accept_ready plain_listener 0 first_client)"
  have "mgr_inv first_client" unfolding first_client_def by (rule mgr_start_inv)
  then have i: "mgr_inv ?s" unfolding sw_mgr_accept_ready_def
    by (rule accept_loop_inv) (simp_all add: plain_listener_def first_client_def sw_mgr_start_def Let_def split: prod.split)
  show "mgr_inv idle_client" unfolding idle_client_def by (rule inv_same[OF i]) (simp_all add: inv_heap[OF i])
  show "covered idle_client h" for h
    unfolding idle_client_def first_accept snd_conv by (simp add: covered_def sw_connection_timeout_due_ms_def new_connection_def
        first_client_def sw_mgr_start_def sw_server_config_default_def sw_connection_has_pending_output_def sooner_def Let_def)
  show "mg_connections idle_client 0 \<noteq> None" "fst (sw_now_ms idle_client) = 16000"
    unfolding idle_client_def first_accept snd_conv by (simp_all add: sw_now_ms_def first_client_def sw_mgr_start_def)
qed


theorem expire_terminates_witness:
  "\<exists>s'. sw_mgr_expire_timeouts quiet_app idle_client = Some (True, s')"
  using expire_terminates[OF idle_client_ok(1)] .

end
