(* ===== verification/ManagerFaults.thy ===== *)
theory ManagerFaults
  imports ManagerTimers
begin

text \<open>
  What happens when \<^verbatim>\<open>epoll_ctl\<close> fails: \<^verbatim>\<open>sw_http_reply_status_text\<close> then frees the connection, and its
  callers, which drop its result, go on using it.
\<close>

section \<open>A failing update\<close>

definition next_ctl_fails :: "'u sw_mgr \<Rightarrow> bool" where
  "next_ctl_fails s \<longleftrightarrow> (\<exists>bs. os_ctl s = False # bs)"

lemma fails_put [simp]: "next_ctl_fails (put h c s) = next_ctl_fails s"
  by (simp add: next_ctl_fails_def)

lemma fails_now: "sw_now_ms s = (t, s') \<Longrightarrow> next_ctl_fails s' = next_ctl_fails s"
  by (drule now_spec) (auto simp: next_ctl_fails_def)

lemma fails_schedule: "next_ctl_fails s \<Longrightarrow> yields (sw_mgr_schedule_connection_timeout h s) next_ctl_fails"
  unfolding sw_mgr_schedule_connection_timeout_def Let_def
  by (intro yields_get) (simp add: next_ctl_fails_def split: option.split)

lemma fails_mark: "next_ctl_fails s \<Longrightarrow> yields (sw_connection_mark_activity h t s) next_ctl_fails"
  unfolding sw_connection_mark_activity_def by (intro yields_get fails_schedule) simp

lemma sync_fails: "next_ctl_fails s \<Longrightarrow> yields (sw_mgr_sync_connection h s) (\<lambda>(r, s'). r \<noteq> 0)"
  unfolding sw_mgr_sync_connection_def Let_def
proof (rule yields_pair)
  fix t s1 assume "next_ctl_fails s" and "sw_now_ms s = (t, s1)"
  then have "next_ctl_fails s1" by (simp add: fails_now)
  from fails_schedule[OF this, of h]
  show "yields (sw_mgr_schedule_connection_timeout h s1 \<bind> (\<lambda>s. mg_connections s h \<bind> (\<lambda>c. Some (sw_backend_update_connection c s))))
      (\<lambda>(r, s'). r \<noteq> 0)"
    by (rule yields_bind[OF yields_weaken])
      (auto simp: next_ctl_fails_def sw_backend_update_connection_def epoll_ctl_def intro!: yields_get)
qed

lemma reply_fails:
  assumes "next_ctl_fails s"
  shows "yields (sw_http_reply h st ct body s) (\<lambda>(r, s'). r \<noteq> 0)"
  unfolding sw_http_reply_def Let_def
proof (rule yields_get, rule yields_pair, rule yields_if, simp, rule yields_pair, rule yields_if, simp, rule yields_pair)
  fix c2 t s1 assume "sw_now_ms (put h c2 s) = (t, s1)"
  then have "next_ctl_fails s1" using assms by (simp add: fails_now)
  from fails_mark[OF this, of h t]
  show "yields (sw_connection_mark_activity h t s1 \<bind> sw_mgr_sync_connection h) (\<lambda>(r, s'). r \<noteq> 0)"
    by (rule yields_bind[OF yields_weaken]) (rule sync_fails)
qed

lemma refuse_frees:
  assumes "next_ctl_fails s"
  shows "yields (refuse_request h st body s) (\<lambda>(r, s'). r = 0 \<and> mg_connections s' h = None)"
proof -
  have st: "yields (sw_http_reply_status_text h st body s1) (\<lambda>(r, s'). mg_connections s' h = None)" if f: "next_ctl_fails s1"
    for s1 :: "'a sw_mgr"
    unfolding sw_http_reply_status_text_def sw_http_replyf_def
  proof (rule yields_bind, rule yields_weaken[OF reply_fails[OF f]], clarify)
    fix r :: int and s2 :: "'a sw_mgr" assume "r \<noteq> 0"
    have "yields (sw_mgr_close_connection h s2) (\<lambda>s'. mg_connections s' h = None)"
    proof (cases "mg_connections s2 h")
      case (Some c)
      then show ?thesis by (auto intro: gives_yields[OF close_gone])
    qed (simp add: sw_mgr_close_connection_def)
    then have "yields (sw_mgr_close_connection h s2 \<bind> (\<lambda>s. Some (- 1::int, s))) (\<lambda>(r, s'). mg_connections s' h = None)"
      by (intro yields_bind) (rule yields_weaken, assumption, simp)
    with \<open>r \<noteq> 0\<close> show "yields (if r \<noteq> 0 then sw_mgr_close_connection h s2 \<bind> (\<lambda>s. Some (- 1::int, s)) else Some (0, s2))
        (\<lambda>(r, s'). mg_connections s' h = None)" by simp
  qed
  show ?thesis unfolding refuse_request_def Let_def
  proof (rule yields_get)
    fix c assume "mg_connections s h = Some c"
    have "next_ctl_fails (put h (c\<lparr>c_must_close := True\<rparr>) s)" using assms by simp
    from st[OF this] show "yields (sw_http_reply_status_text h st body (put h (c\<lparr>c_must_close := True\<rparr>) s) \<bind> (\<lambda>(rc, s). Some (0, s)))
        (\<lambda>(r, s'). r = 0 \<and> mg_connections s' h = None)"
      by (rule yields_bind[OF yields_weaken]) auto
  qed
qed


section \<open>The callers go on\<close>

definition refused :: "sw_parse_result \<Rightarrow> bool" where
  "refused r \<longleftrightarrow> r \<in> {SW_PARSE_HEADERS_TOO_LARGE, SW_PARSE_TOO_MANY_HEADERS, SW_PARSE_PAYLOAD_TOO_LARGE}"

lemma try_parse_stop:
  assumes "mg_connections s h = Some c" and "\<not> c_request_ready c" and "parse_request (mg_config s) (c_read_buffer c) = Stop r"
  shows "yields (sw_connection_try_parse_request h s) (\<lambda>(r', s'). r' = r \<and> (next_ctl_fails s \<longrightarrow> next_ctl_fails s'))"
proof -
  let ?m = "if headers_just_complete (mg_config s) c then case sw_now_ms s of (now, s) \<Rightarrow>
        sw_mgr_schedule_connection_timeout h (put h (c\<lparr>c_headers_complete := True, c_phase_started_at_ms := now\<rparr>) s)
      else Some s"
  have m: "yields ?m (\<lambda>s'. (next_ctl_fails s \<longrightarrow> next_ctl_fails s') \<and> mg_config s' = mg_config s \<and>
      (\<exists>c'. mg_connections s' h = Some c' \<and> c_read_buffer c' = c_read_buffer c))"
  proof (rule yields_if, rule yields_pair)
    let ?c = "\<lambda>t. c\<lparr>c_headers_complete := True, c_phase_started_at_ms := t\<rparr>"
    fix t s1 assume n: "sw_now_ms s = (t, s1)"
    let ?s = "put h (?c t) s1"
    have cfg: "mg_config ?s = mg_config s" using now_config[OF n] by simp
    have "yields (sw_mgr_schedule_connection_timeout h ?s) (\<lambda>s'. next_ctl_fails s \<longrightarrow> next_ctl_fails s')"
    proof (cases "next_ctl_fails s")
      case True
      then have "next_ctl_fails ?s" using fails_now[OF n] by simp
      from fails_schedule[OF this] show ?thesis by (rule yields_weaken) simp
    qed (simp add: yields_def split: option.split)
    moreover have "yields (sw_mgr_schedule_connection_timeout h ?s) (\<lambda>s'. \<exists>c'. mg_connections s' h = Some c' \<and> c_read_buffer c' = c_read_buffer c)"
      using schedule_covers[of ?s h "?c t"] by (auto simp: gives_def)
    moreover have "yields (sw_mgr_schedule_connection_timeout h ?s) (\<lambda>s'. mg_config s' = mg_config s)"
      using moves_end[OF schedule_moves moved_refl, of ?s h "?c t"] cfg
      by (auto elim!: yields_weaken dest!: moved_others simp: others_kept_def)
    ultimately show "yields (sw_mgr_schedule_connection_timeout h ?s) (\<lambda>s'. (next_ctl_fails s \<longrightarrow> next_ctl_fails s') \<and> mg_config s' = mg_config s \<and>
      (\<exists>c'. mg_connections s' h = Some c' \<and> c_read_buffer c' = c_read_buffer c))"
      by (auto simp: yields_def split: option.splits)
  qed (use assms(1) in simp)
  have "sw_connection_try_parse_request h s = ?m \<bind> (\<lambda>s. mg_connections s h \<bind> (\<lambda>c. Some (case parse_request (mg_config s) (c_read_buffer c) of
           Stop r \<Rightarrow> (r, s)
         | Parsed m n \<Rightarrow> (SW_PARSE_READY,
             put h (c\<lparr>c_request := m, c_request_ready := True, c_parsed_request_bytes := n\<rparr>) s)
         | Streamed m n \<Rightarrow> (SW_PARSE_READY,
             put h (c\<lparr>c_request := m, c_request_ready := True, c_must_close := True, c_parsed_request_bytes := 0,
               c_read_buffer := drop n (c_read_buffer c)\<rparr>) s))))"
    unfolding sw_connection_try_parse_request_def assms(1) Option.bind_lunit Let_def using assms(2) by (simp only: if_False)
  also have "yields \<dots> (\<lambda>(r', s'). r' = r \<and> (next_ctl_fails s \<longrightarrow> next_ctl_fails s'))"
    by (rule yields_bind[OF yields_weaken[OF m]]) (auto simp: assms(3))
  finally show ?thesis .
qed

lemma process_input_frees:
  assumes "mg_connections s h = Some c" and "\<not> sw_connection_has_pending_output c" and "\<not> c_request_ready c"
    and "parse_request (mg_config s) (c_read_buffer c) = Stop r" and "refused r" and "next_ctl_fails s"
  shows "yields (sw_connection_process_input A h s) (\<lambda>(r, s'). r = 0 \<and> mg_connections s' h = None)"
proof -
  have run: "sw_connection_process_input A h s = (sw_connection_try_parse_request h s \<bind> (\<lambda>(r, s). case r of
         SW_PARSE_READY \<Rightarrow> sw_connection_dispatch_request A h s
       | SW_PARSE_PENDING \<Rightarrow> Some (0, s)
       | SW_PARSE_HEADERS_TOO_LARGE \<Rightarrow> refuse_request h 431 ''Request Header Fields Too Large'' s
       | SW_PARSE_TOO_MANY_HEADERS \<Rightarrow> refuse_request h 431 ''Request Header Fields Too Large'' s
       | SW_PARSE_PAYLOAD_TOO_LARGE \<Rightarrow> refuse_request h 413 ''Payload Too Large'' s
       | SW_PARSE_BAD_REQUEST \<Rightarrow> do {
           c \<leftarrow> mg_connections s h;
           (rc, s) \<leftarrow> sw_http_replyf h 400 (Some ''text/plain; charset=utf-8'') ''Bad Request'' (put h (c\<lparr>c_must_close := True\<rparr>) s);
           (rc, s) \<leftarrow> sw_mgr_sync_connection h s;
           Some (0, s)
         }))"
    unfolding sw_connection_process_input_def using assms(1-3) by (simp only: Option.bind_lunit if_False)
  show ?thesis unfolding run
  proof (rule yields_bind[OF yields_weaken[OF try_parse_stop[OF assms(1,3,4)]]], clarify)
    fix s1 :: "'a sw_mgr" assume "next_ctl_fails s \<longrightarrow> next_ctl_fails s1"
    with assms(6) have f: "next_ctl_fails s1" by simp
    show "yields (case r of
         SW_PARSE_READY \<Rightarrow> sw_connection_dispatch_request A h s1
       | SW_PARSE_PENDING \<Rightarrow> Some (0, s1)
       | SW_PARSE_HEADERS_TOO_LARGE \<Rightarrow> refuse_request h 431 ''Request Header Fields Too Large'' s1
       | SW_PARSE_TOO_MANY_HEADERS \<Rightarrow> refuse_request h 431 ''Request Header Fields Too Large'' s1
       | SW_PARSE_PAYLOAD_TOO_LARGE \<Rightarrow> refuse_request h 413 ''Payload Too Large'' s1
       | SW_PARSE_BAD_REQUEST \<Rightarrow> do {
           c \<leftarrow> mg_connections s1 h;
           (rc, s) \<leftarrow> sw_http_replyf h 400 (Some ''text/plain; charset=utf-8'') ''Bad Request'' (put h (c\<lparr>c_must_close := True\<rparr>) s1);
           (rc, s) \<leftarrow> sw_mgr_sync_connection h s;
           Some (0, s)
         }) (\<lambda>(r, s'). r = 0 \<and> mg_connections s' h = None)"
      using assms(5) refuse_frees[OF f] by (auto simp: refused_def)
  qed
qed

lemma clock_fields:
  assumes "(if c_request_started c then (c, s) else case sw_now_ms s of (now, s) \<Rightarrow>
      (c\<lparr>c_request_started := True, c_phase_started_at_ms := now\<rparr>, s)) = (c1, s1)"
  shows "c_read_buffer c1 = c_read_buffer c" "c_request_ready c1 = c_request_ready c" "c_write_buffer c1 = c_write_buffer c"
    "c_file_stream c1 = c_file_stream c" "next_ctl_fails s1 = next_ctl_fails s" "mg_config s1 = mg_config s"
proof -
  obtain t s2 where n: "sw_now_ms s = (t, s2)" by (rule prod.exhaust)
  have "(c1, s1) = (c, s) \<or> (c1, s1) = (c\<lparr>c_request_started := True, c_phase_started_at_ms := t\<rparr>, s2)"
    using assms by (simp add: n split: if_splits)
  then show "c_read_buffer c1 = c_read_buffer c" "c_request_ready c1 = c_request_ready c" "c_write_buffer c1 = c_write_buffer c"
    "c_file_stream c1 = c_file_stream c" "next_ctl_fails s1 = next_ctl_fails s" "mg_config s1 = mg_config s"
    using fails_now[OF n] now_config[OF n] by auto
qed

text \<open>
  C37. A failing \<^verbatim>\<open>epoll_ctl\<close> makes the server use freed memory. When the bytes received, which the read
  buffer can hold, complete a request that is refused with 413 or 431 and the update of the epoll
  registration fails, the
  reply routine has freed the connection, process-input nevertheless reports success, and the
  receive loop reads the freed connection (the result None).
\<close>

theorem failed_update_uses_freed_connection:
  assumes "mg_connections s h = Some c" and "\<not> c_write_shutdown c" and "\<not> sw_connection_has_pending_output c" and "\<not> c_request_ready c"
    and "os_input s (c_fd c) = Recv_data d # rest" and "d \<noteq> []"
    and "length (c_read_buffer c) + length (take 4096 d) \<le> max_read_buffer_bytes (mg_config s)" and "max_read_buffer_bytes (mg_config s) \<le> SIZE_MAX"
    and "parse_request (mg_config s) (c_read_buffer c @ take 4096 d) = Stop r" and "refused r" and "next_ctl_fails s"
  shows "sw_mgr_connection_readable A h s = None"
proof -
  let ?chunk = "take 4096 d"
  define s0 where "s0 = s\<lparr>os_input := (os_input s)(c_fd c := rest)\<rparr>"
  have f0: "next_ctl_fails s0" "mg_config s0 = mg_config s" "mg_connections s0 = mg_connections s"
    using assms(11) by (simp_all add: s0_def next_ctl_fails_def)
  obtain c1 s1 where st: "(if c_request_started c then (c, s0) else case sw_now_ms s0 of (now, s) \<Rightarrow>
      (c\<lparr>c_request_started := True, c_phase_started_at_ms := now\<rparr>, s)) = (c1, s1)" by (rule prod.exhaust)
  note c1 = clock_fields[OF st]
  have s1: "next_ctl_fails s1" "mg_config s1 = mg_config s" using c1(5,6) f0 by simp_all
  let ?c2 = "c1\<lparr>c_read_buffer := c_read_buffer c1 @ ?chunk\<rparr>"
  let ?s2 = "put h ?c2 (put h c1 s1)"
  obtain t s3 where n: "sw_now_ms ?s2 = (t, s3)" by (cases "sw_now_ms ?s2")
  have s3: "next_ctl_fails s3" "mg_config s3 = mg_config s" "mg_connections s3 h = Some ?c2"
    using fails_now[OF n] now_config[OF n] now_connections[OF n] s1 by simp_all
  from mark_activity_covers[OF s3(3), of t] obtain s4 g where m: "sw_connection_mark_activity h t s3 = Some s4"
    "mg_connections s4 h = Some (?c2\<lparr>c_last_activity_at_ms := t, c_timer_generation := g\<rparr>)" by (auto simp: gives_def)
  have s4: "next_ctl_fails s4" "mg_config s4 = mg_config s"
    using fails_mark[OF s3(1), of h t] moves_end[OF mark_activity_moves moved_refl[OF s3(3)], of t] m(1) s3(2)
    by (auto dest!: moved_others simp: others_kept_def)
  have "yields (sw_connection_process_input A h s4) (\<lambda>(r, s'). r = 0 \<and> mg_connections s' h = None)"
    by (rule process_input_frees[OF m(2) _ _ _ assms(10) s4(1)])
      (use assms(3,4,9) c1 s4(2) in \<open>simp_all add: sw_connection_has_pending_output_def\<close>)
  then have last: "(sw_connection_process_input A h s4 \<bind> (\<lambda>(rc, s). if rc < 0 then Some (- 1, s) else mg_connections s h \<bind> (\<lambda>c.
      if sw_connection_has_pending_output c \<or> c_request_ready c then Some (0, s) else readable_loop A h rest True s))) = None"
    by (auto simp: yields_def split: option.splits)
  have fits: "\<not> (max_read_buffer_bytes (mg_config s1) > 0
      \<and> (length ?chunk > SIZE_MAX - length (c_read_buffer c1)
         \<or> length (c_read_buffer c1) + length ?chunk > max_read_buffer_bytes (mg_config s1)))"
    using assms(7,8) c1(1) s1(2) by (simp only: s1(2) c1(1)) linarith
  have "?chunk \<noteq> []" using assms(6) by simp
  then have "readable_loop A h (Recv_data d # rest) False s = None"
    unfolding readable_loop.simps assms(1) Option.bind_lunit Let_def recv_answer.case s0_def[symmetric] st prod.case put_simps if_not_P[OF fits]
    by (simp only: simp_thms if_False n prod.case m(1) Option.bind_lunit last)
  then show ?thesis using assms(1,2,5) by (simp add: sw_mgr_connection_readable_def)
qed


text \<open>
  A client of a manager with the default configuration that announces a body over the limit of 1 MiB; the
  first update of the epoll set fails.
\<close>

definition large_upload :: string where
  "large_upload = join_lines [''POST / HTTP/1.1'', ''Host: a'', ''Content-Length: 2000000''] @ crlf"

definition broken_client :: "unit sw_mgr" where
  "broken_client = asking_client\<lparr>os_input := (\<lambda>_. [])(7 := [Recv_data large_upload]), os_ctl := [False]\<rparr>"

lemma large_upload_refused: "parse_request sw_server_config_default large_upload = Stop SW_PARSE_PAYLOAD_TOO_LARGE"
proof -
  let ?cfg = sw_server_config_default
  have cfg: "max_header_bytes ?cfg = 16384" "max_header_count ?cfg = 64" "max_body_bytes ?cfg = 1048576"
    by (simp_all add: sw_server_config_default_def)
  have n: "sw_parse_content_length_value (Some (cstr ''2000000'')) = Some 2000000"
    by (simp add: sw_parse_content_length_value_def Let_def cstr_def trim_def ltrim_def rtrim_def isspace_def
        isdigit_def byte_def SIZE_MAX_def)
  have host: "parse_header_line ?cfg ''Host: a'' header_state_init =
      Inr (header_state_init\<lparr>hs_headers := [mk_header (''Host'', ''a'')]\<rparr>)"
    by (simp add: cfg parse_header_line_def split_at_char_def header_state_init_def ieq_def
        rtrim_def trim_def ltrim_def isspace_def byte_def mk_header_def)
  have big: "parse_header_line ?cfg ''Content-Length: 2000000'' st = Inl SW_PARSE_PAYLOAD_TOO_LARGE"
    if "\<not> hs_saw_content_length st" "length (hs_headers st) = 1" for st
    using that n by (simp add: cfg parse_header_line_def split_at_char_def ieq_def
        rtrim_def trim_def ltrim_def isspace_def byte_def)
  have "parse_request_line ''POST / HTTP/1.1'' = Some (''POST'', ''/'', ''HTTP/1.1'')"
    by (simp add: parse_request_line_def split_at_char_def)
  moreover have "fold_lines ?cfg [''Host: a'', ''Content-Length: 2000000''] header_state_init = Inl SW_PARSE_PAYLOAD_TOO_LARGE"
    using host big by (simp add: header_state_init_def)
  ultimately have "parse_lines ?cfg d he ''POST / HTTP/1.1'' [''Host: a'', ''Content-Length: 2000000''] = Stop SW_PARSE_PAYLOAD_TOO_LARGE" for d he
    by (simp only: parse_lines_def option.case prod.case sum.case)
  then show ?thesis
    using parse_request_lines[of "''POST / HTTP/1.1''" "[''Host: a'', ''Content-Length: 2000000'']" ?cfg "[]"]
    by (simp add: large_upload_def line_ok_def cfg)
qed

theorem failed_update_uses_freed_connection_witness:
  "sw_mgr_connection_readable quiet_app 0 broken_client = None"
proof (rule failed_update_uses_freed_connection)
  let ?c = "(new_connection 7 0 True False None 4000 True 0)\<lparr>c_timer_generation := 1\<rparr>"
  have cfg: "mg_config broken_client = sw_server_config_default"
    unfolding broken_client_def asking_client_def first_accept snd_conv by (simp add: first_client_def sw_mgr_start_def)
  have len: "length large_upload = 53" by (simp add: large_upload_def)
  show "mg_connections broken_client 0 = Some ?c"
    unfolding broken_client_def asking_client_def first_accept snd_conv by simp
  show "\<not> c_write_shutdown ?c" "\<not> sw_connection_has_pending_output ?c" "\<not> c_request_ready ?c"
    by (simp_all add: new_connection_def sw_connection_has_pending_output_def)
  show "os_input broken_client (c_fd ?c) = Recv_data large_upload # []" "large_upload \<noteq> []" "next_ctl_fails broken_client"
    by (simp_all add: broken_client_def next_ctl_fails_def new_connection_def large_upload_def)
  show "length (c_read_buffer ?c) + length (take 4096 large_upload) \<le> max_read_buffer_bytes (mg_config broken_client)"
    "max_read_buffer_bytes (mg_config broken_client) \<le> SIZE_MAX"
    by (simp_all add: cfg len new_connection_def sw_server_config_default_def SIZE_MAX_def)
  have "c_read_buffer ?c @ take 4096 large_upload = large_upload" using len by (simp add: new_connection_def)
  then show "parse_request (mg_config broken_client) (c_read_buffer ?c @ take 4096 large_upload) = Stop SW_PARSE_PAYLOAD_TOO_LARGE"
    unfolding cfg using large_upload_refused by (simp only:)
  show "refused SW_PARSE_PAYLOAD_TOO_LARGE" by (simp add: refused_def)
qed


section \<open>A reply that does not fit\<close>

text \<open>
  C39. A reply over the limit of the write buffer leaves a head without its body. When the head of a
  reply fits the write buffer and the body behind it does not, \<^verbatim>\<open>sw_http_reply\<close> fails, but the complete
  head, which announces the length of the body, stays in the write buffer; after the handler
  returns the connection waits to send it, and it is kept alive afterwards exactly as for a
  complete reply. The next response then stands where the client expects the body.
\<close>

theorem reply_over_limit_sends_bare_head:
  assumes "mg_connections s h = Some c" and "c_request_ready c" and "\<not> c_request_dispatched c" and "c_has_handler c"
    and "app_handler A (c_listener c) (c_request c) (mg_user s) = (Call (Reply st ct body) (\<lambda>_. Finish), user)"
    and "- 2147483648 \<le> st" and "st \<le> 2147483647" and "length body \<le> SIZE_MAX" and "config_ranges (mg_config s)"
  defines "head \<equiv> join_lines (response_lines (mg_config s) (c\<lparr>c_request_dispatched := True\<rparr>) st ct (length body)) @ crlf"
  assumes "fits (mg_config s) (length head)" and "\<not> fits (mg_config s) (length head + length body)"
  shows "\<exists>rc s' c'. sw_connection_dispatch_request A h s = Some (rc, s') \<and> mg_connections s' h = Some c' \<and>
    c_write_buffer c' = head \<and> sw_connection_wants_write c' \<and>
    c_close_after_write c' = (\<not> sw_request_allows_keep_alive (mg_config s) (c\<lparr>c_request_dispatched := True\<rparr>))"
proof -
  let ?c = "c\<lparr>c_request_dispatched := True\<rparr>"
  let ?d = "response_done (mg_config s) ?c head"
  let ?s = "(put h ?c s)\<lparr>mg_user := user\<rparr>"
  have b: "sw_connection_begin_response (mg_config s) ?c st ct (length body) = (0, ?d)"
    unfolding head_def by (rule begin_response_fits) (use assms(6-11) in \<open>simp_all add: head_def\<close>)
  have body: "length body > 0" using assms(11,12) by (cases body) simp_all
  have full: "sw_connection_append_output (mg_config s) ?d body = (False, ?d)"
    using assms(11,12) body
    by (auto simp: sw_connection_append_output_def sw_connection_can_append_output_def fits_def response_done_def Let_def)
  have "sw_http_reply h st ct body ?s = Some (-1, put h ?d ?s)"
    using b full body by (simp add: sw_http_reply_def)
  then have prog: "run_program (app_files A) h (Call (Reply st ct body) (\<lambda>_. Finish)) ?s = Some (put h ?d ?s)"
    by (simp add: call_api_def)
  have "mg_connections (put h ?d ?s) h = Some ?d" by simp
  from sync_covers[OF this] obtain r s' g where y: "sw_mgr_sync_connection h (put h ?d ?s) = Some (r, s')"
    "mg_connections s' h = Some (?d\<lparr>c_timer_generation := g\<rparr>)" by (auto simp: gives_def)
  have "mg_user (put h ?c s) = mg_user s" by (simp add: put_def)
  then have "sw_connection_dispatch_request A h s = Some (r, s')"
    using assms(1-5) prog y(1) by (simp add: sw_connection_dispatch_request_def Let_def del: run_program.simps)
  moreover have "head \<noteq> []" by (simp add: head_def)
  ultimately show ?thesis using y(2)
    by (intro exI[of _ r] exI[of _ s'] exI[of _ "?d\<lparr>c_timer_generation := g\<rparr>"])
      (simp add: response_done_def sw_connection_wants_write_def sw_connection_has_pending_output_def)
qed


definition cramped :: sw_server_config where
  "cramped = sw_server_config_default\<lparr>max_write_buffer_bytes := 256\<rparr>"

definition cramped_client :: "unit sw_mgr" where
  "cramped_client = (sw_mgr_start cramped 0 (\<lambda>_. []) ())\<lparr>mg_connections :=
     [0 \<mapsto> (new_connection 7 0 True False None 4000 True 0)\<lparr>c_request_ready := True\<rparr>]\<rparr>"

definition long_reply :: "unit application" where
  "long_reply = \<lparr>app_files = app_files (quiet_app :: unit application),
     app_handler = (\<lambda>l m u. (Call (Reply 200 None (replicate 300 CHR ''x'')) (\<lambda>_. Finish), u))\<rparr>"

theorem reply_over_limit_sends_bare_head_witness:
  "\<exists>rc s' c'. sw_connection_dispatch_request long_reply 0 cramped_client = Some (rc, s') \<and> mg_connections s' 0 = Some c' \<and>
     c_write_buffer c' \<noteq> [] \<and> length (c_write_buffer c') \<le> 256 \<and> \<not> c_close_after_write c'"
proof -
  let ?c = "(new_connection 7 0 True False None 4000 True 0)\<lparr>c_request_ready := True\<rparr>"
  let ?d = "?c\<lparr>c_request_dispatched := True\<rparr>"
  let ?head = "join_lines (response_lines cramped ?d 200 None 300) @ crlf"
  have ka: "sw_request_allows_keep_alive cramped ?d"
    by (simp add: sw_request_allows_keep_alive_def cramped_def sw_server_config_default_def new_connection_def empty_message_def
        sw_http_header_get_def Let_def)
  have "length (dec_of 300) = 3" "length (int_dec 200) = 3" "length (int_dec 15) = 2" "length (dec_of 1000) = 4"
    by (simp_all add: dec_of.simps int_dec_def)
  then have len: "length ?head \<le> 200"
    using ka by (simp add: response_lines_def connection_lines_def new_connection_def sw_http_status_text_def cramped_def
        sw_server_config_default_def)
  have cfg: "mg_config cramped_client = cramped" by (simp add: cramped_client_def sw_mgr_start_def)
  have body: "length (replicate 300 CHR ''x'') = 300" by simp
  have h1: "mg_connections cramped_client 0 = Some ?c" by (simp add: cramped_client_def)
  have h5: "app_handler long_reply (c_listener ?c) (c_request ?c) (mg_user cramped_client) =
      (Call (Reply 200 None (replicate 300 CHR ''x'')) (\<lambda>_. Finish), mg_user cramped_client)" by (simp add: long_reply_def)
  have "c_request_ready ?c" "\<not> c_request_dispatched ?c" "c_has_handler ?c" by (simp_all add: new_connection_def)
  note f = reply_over_limit_sends_bare_head[OF h1 this h5, unfolded cfg body]
  have "\<exists>rc s' c'. sw_connection_dispatch_request long_reply 0 cramped_client = Some (rc, s') \<and> mg_connections s' 0 = Some c' \<and>
      c_write_buffer c' = ?head \<and> sw_connection_wants_write c' \<and> c_close_after_write c' = (\<not> sw_request_allows_keep_alive cramped ?d)"
    by (rule f) (use len in \<open>simp_all add: fits_def cramped_def sw_server_config_default_def config_ranges_def SIZE_MAX_def\<close>)
  then obtain rc s' c' where r: "sw_connection_dispatch_request long_reply 0 cramped_client = Some (rc, s')"
    "mg_connections s' 0 = Some c'" "c_write_buffer c' = ?head" "c_close_after_write c' = (\<not> sw_request_allows_keep_alive cramped ?d)"
    by blast
  moreover have "?head \<noteq> []" by simp
  ultimately show ?thesis using ka len by (intro exI[of _ rc] exI[of _ s'] exI[of _ c']) (simp only: simp_thms)
qed


section \<open>An accept error\<close>

text \<open>Any error of \<^verbatim>\<open>accept\<close> other than "would block" ends the round with a failure.\<close>

lemma accept_error_ends_round:
  "os_accept s l = Accept_error # rest \<Longrightarrow> \<exists>s'. sw_backend_poll A Ls (Listener_event l # events) s = Some (False, s')"
  by (simp add: sw_mgr_accept_ready_def)

end
