(* ===== verification/ListenUrl.thy ===== *)
theory ListenUrl
  imports HttpText
begin

text \<open>
  The listen URL, \<^verbatim>\<open>src/src/sw_server.c\<close>: \<^verbatim>\<open>sw_parse_listen_url_scheme\<close>, and the search for a local
  address to listen on. Pointers into the text are the remaining text: the authority is what stands
  before the first slash. What the system calls give for a resolved address is a parameter.
\<close>

section \<open>The parser\<close>

definition before_char :: "char \<Rightarrow> string \<Rightarrow> string" where
  "before_char c s = takeWhile (\<lambda>d. d \<noteq> c) s"

text \<open>The text before the last colon and the text behind it.\<close>

definition split_last :: "char \<Rightarrow> string \<Rightarrow> (string \<times> string) option" where
  "split_last c s =
     (if c \<in> set s
      then Some (rev (tl (dropWhile (\<lambda>d. d \<noteq> c) (rev s))), rev (takeWhile (\<lambda>d. d \<noteq> c) (rev s)))
      else None)"

definition strip_scheme :: "string \<Rightarrow> bool \<Rightarrow> string \<Rightarrow> string option" where
  "strip_scheme scheme require_scheme cursor =
     (case sw_find_bytes cursor ''://'' of
        Some p \<Rightarrow> if p \<noteq> length scheme \<or> take (length scheme) cursor \<noteq> scheme then None else Some (drop (p + 3) cursor)
      | None \<Rightarrow> if require_scheme then None else Some cursor)"

text \<open>Host and port of an authority; no port is None, an empty one counts as none.\<close>

definition split_authority :: "string \<Rightarrow> string \<Rightarrow> (string \<times> string option) option" where
  "split_authority cursor authority =
     (if cursor \<noteq> [] \<and> hd cursor = CHR ''['' then
        (if CHR '']'' \<notin> set authority then None
         else
           let host = before_char (CHR '']'') (tl authority);
               after = drop (length host + 2) authority
           in Some (host, if after \<noteq> [] \<and> hd after = CHR '':'' \<and> tl after \<noteq> [] then Some (tl after) else None))
      else
        (case split_last (CHR '':'') authority of
           None \<Rightarrow> Some (authority, None)
         | Some (host, port) \<Rightarrow> Some (host, if port \<noteq> [] then Some port else None)))"

definition sw_parse_listen_url_scheme ::
  "cptr \<Rightarrow> cptr \<Rightarrow> bool \<Rightarrow> cptr \<Rightarrow> nat \<Rightarrow> nat \<Rightarrow> (string \<times> string) option" where
  "sw_parse_listen_url_scheme url scheme require_scheme default_port host_cap port_cap =
     (case (url, scheme, default_port) of
        (Some u, Some sch, Some dport) \<Rightarrow>
          if host_cap = 0 \<or> port_cap = 0 then None
          else (case strip_scheme (cstr sch) require_scheme (cstr u) of
              None \<Rightarrow> None
            | Some cursor \<Rightarrow>
                (case split_authority cursor (before_char (CHR ''/'') cursor) of
                   None \<Rightarrow> None
                 | Some (host, port) \<Rightarrow>
                     if length host \<ge> host_cap then None
                     else (case port of
                         None \<Rightarrow> if length (cstr dport) \<ge> port_cap then None else Some (host, cstr dport)
                       | Some p \<Rightarrow> if length p \<ge> port_cap then None else Some (host, p))))
      | _ \<Rightarrow> None)"

definition sw_parse_listen_url :: "cptr \<Rightarrow> nat \<Rightarrow> nat \<Rightarrow> (string \<times> string) option" where
  "sw_parse_listen_url url host_cap port_cap =
     sw_parse_listen_url_scheme url (Some ''http'') False (Some ''80'') host_cap port_cap"

section \<open>The listener socket\<close>

text \<open>
  A resolved address: the socket it gives (None when \<^verbatim>\<open>socket\<close> fails), whether binding, listening with
  a backlog and making it non-blocking succeed, and the port \<^verbatim>\<open>getsockname\<close> reports. The result is
  the listening socket with its port, and the sockets that were closed again.
\<close>

record local_address =
  la_socket :: "int option"
  la_bind_ok :: bool
  la_listen_ok :: "int \<Rightarrow> bool"
  la_nonblocking_ok :: bool
  la_bound_port :: "nat option"

fun try_addresses :: "int \<Rightarrow> local_address list \<Rightarrow> (int \<times> nat) option \<times> int list" where
  "try_addresses listen_backlog [] = (None, [])"
| "try_addresses listen_backlog (a # rest) =
     (case la_socket a of
        None \<Rightarrow> try_addresses listen_backlog rest
      | Some fd \<Rightarrow>
          if la_bind_ok a \<and> la_listen_ok a (if listen_backlog > 0 then listen_backlog else 128) \<and> la_nonblocking_ok a
          then (Some (fd, case la_bound_port a of None \<Rightarrow> 0 | Some p \<Rightarrow> p), [])
          else (let (result, closed) = try_addresses listen_backlog rest in (result, fd # closed)))"

definition sw_create_listener_socket ::
  "(cptr \<Rightarrow> string \<Rightarrow> local_address list option) \<Rightarrow> cptr \<Rightarrow> string \<Rightarrow> int \<Rightarrow> (int \<times> nat) option \<times> int list" where
  "sw_create_listener_socket getaddrinfo host port listen_backlog =
     (case getaddrinfo (case host of Some h \<Rightarrow> if h \<noteq> [] then Some h else None | None \<Rightarrow> None) port of
        None \<Rightarrow> (None, [])
      | Some addresses \<Rightarrow> try_addresses listen_backlog addresses)"

text \<open>Every socket that was opened is the listener or has been closed.\<close>

lemma listener_socket_no_leak:
  "fst (try_addresses backlog as) = Some (fd, port) \<Longrightarrow>
   \<exists>pre a post. as = pre @ a # post \<and> la_socket a = Some fd
     \<and> snd (try_addresses backlog as) = concat (map (\<lambda>b. case la_socket b of None \<Rightarrow> [] | Some f \<Rightarrow> [f]) pre)"
proof (induction "as")
  case (Cons a rest)
  show ?case
  proof (cases "\<exists>f. la_socket a = Some f \<and> la_bind_ok a \<and> la_listen_ok a (if backlog > 0 then backlog else 128) \<and> la_nonblocking_ok a")
    case True
    with Cons.prems show ?thesis by (intro exI[of _ "[]"] exI[of _ a] exI[of _ rest]) auto
  next
    case False
    with Cons.prems have "fst (try_addresses backlog rest) = Some (fd, port)"
      by (auto split: option.splits prod.splits)
    then obtain pre b post where ih: "rest = pre @ b # post" "la_socket b = Some fd"
      "snd (try_addresses backlog rest) = concat (map (\<lambda>b. case la_socket b of None \<Rightarrow> [] | Some f \<Rightarrow> [f]) pre)"
      using Cons.IH by blast
    have "snd (try_addresses backlog (a # rest)) = (case la_socket a of None \<Rightarrow> [] | Some f \<Rightarrow> [f]) @ snd (try_addresses backlog rest)"
    proof (cases "la_socket a")
      case (Some f)
      with False have "\<not> (la_bind_ok a \<and> la_listen_ok a (if backlog > 0 then backlog else 128) \<and> la_nonblocking_ok a)"
        by blast
      with Some show ?thesis
        by (simp only: try_addresses.simps option.case if_False) (simp add: case_prod_beta)
    qed simp
    with ih show ?thesis by (intro exI[of _ "a # pre"] exI[of _ b] exI[of _ post]) simp
  qed
qed simp

section \<open>Properties\<close>

lemma while_stop:
  "c \<notin> set s \<Longrightarrow> takeWhile (\<lambda>d. d \<noteq> c) (s @ c # t) = s"
  "c \<notin> set s \<Longrightarrow> dropWhile (\<lambda>d. d \<noteq> c) (s @ c # t) = c # t"
  by (induction s) auto

lemma split_last_app:
  "c \<notin> set p \<Longrightarrow> split_last c (h @ c # p) = Some (h, p)"
proof -
  assume "c \<notin> set p"
  then have "takeWhile (\<lambda>d. d \<noteq> c) (rev (h @ c # p)) = rev p" "dropWhile (\<lambda>d. d \<noteq> c) (rev (h @ c # p)) = c # rev h"
    using while_stop[of c "rev p" "rev h"] by simp_all
  then show ?thesis by (simp add: split_last_def)
qed

lemma split_last_None: "c \<notin> set s \<Longrightarrow> split_last c s = None"
  by (simp add: split_last_def)

lemma before_char_app: "c \<notin> set s \<Longrightarrow> before_char c (s @ c # t) = s" "c \<notin> set s \<Longrightarrow> before_char c s = s"
proof -
  assume "c \<notin> set s"
  then show "before_char c (s @ c # t) = s" by (simp add: before_char_def while_stop(1))
next
  assume "c \<notin> set s"
  then show "before_char c s = s" unfolding before_char_def by (induction s) auto
qed

lemma scheme_found:
  assumes "CHR '':'' \<notin> set sch"
  shows "sw_find_bytes (sch @ ''://'' @ rest) ''://'' = Some (length sch)"
proof -
  have "occurs_at ''://'' (sch @ ''://'' @ rest) (length sch)" by (auto simp: occurs_at_def)
  moreover have "\<not> occurs_at ''://'' (sch @ ''://'' @ rest) j" if "j < length sch" for j
  proof
    assume "occurs_at ''://'' (sch @ ''://'' @ rest) j"
    then obtain t where "drop j (sch @ ''://'' @ rest) = CHR '':'' # t" by (auto simp: occurs_at_def)
    with that have "sch ! j = CHR '':''" by (metis hd_drop_conv_nth length_append list.sel(1) nth_append trans_less_add1)
    with that assms show False by (metis nth_mem)
  qed
  ultimately show ?thesis by (subst find_bytes_Some_iff) auto
qed

text \<open>A listen URL: an optional scheme, the host, plain or in brackets, an optional port, an optional path.\<close>

record listen_url =
  lu_scheme :: bool
  lu_brackets :: bool
  lu_host :: string
  lu_port :: "string option"
  lu_path :: "string option"

definition render_url :: "string \<Rightarrow> listen_url \<Rightarrow> string" where
  "render_url sch u =
     (if lu_scheme u then sch @ ''://'' else [])
     @ (if lu_brackets u then CHR ''['' # lu_host u @ '']'' else lu_host u)
     @ (case lu_port u of None \<Rightarrow> [] | Some p \<Rightarrow> CHR '':'' # p)
     @ (case lu_path u of None \<Rightarrow> [] | Some p \<Rightarrow> CHR ''/'' # p)"

definition url_ok :: "listen_url \<Rightarrow> bool" where
  "url_ok u \<longleftrightarrow> NUL \<notin> set (lu_host u) \<and> CHR ''/'' \<notin> set (lu_host u)
     \<and> (if lu_brackets u then CHR '']'' \<notin> set (lu_host u)
        else CHR '':'' \<notin> set (lu_host u) \<and> \<not> (lu_host u \<noteq> [] \<and> hd (lu_host u) = CHR ''[''))
     \<and> (\<forall>p. lu_port u = Some p \<longrightarrow> p \<noteq> [] \<and> set p \<inter> {NUL, CHR ''/'', CHR '':''} = {})
     \<and> (\<forall>p. lu_path u = Some p \<longrightarrow> NUL \<notin> set p \<and> (\<not> lu_scheme u \<longrightarrow> sw_find_bytes (CHR ''/'' # p) ''://'' = None))"

definition url_core :: "listen_url \<Rightarrow> string" where
  "url_core u = (if lu_brackets u then CHR ''['' # lu_host u @ '']'' else lu_host u)
     @ (case lu_port u of None \<Rightarrow> [] | Some p \<Rightarrow> CHR '':'' # p)"

definition url_tail :: "listen_url \<Rightarrow> string" where
  "url_tail u = (case lu_path u of None \<Rightarrow> [] | Some p \<Rightarrow> CHR ''/'' # p)"

lemma core_ok:
  assumes "url_ok u"
  shows "CHR ''/'' \<notin> set (url_core u)" "NUL \<notin> set (url_core u)" "url_core u = [] \<or> last (url_core u) \<noteq> CHR '':''"
proof -
  show "CHR ''/'' \<notin> set (url_core u)" "NUL \<notin> set (url_core u)"
    using assms by (auto simp: url_core_def url_ok_def split: option.splits if_splits)
  show "url_core u = [] \<or> last (url_core u) \<noteq> CHR '':''"
  proof (cases "lu_port u")
    case None
    then show ?thesis using assms
      by (auto simp: url_core_def url_ok_def split: if_splits) (metis last_in_set)
  next
    case (Some p)
    then have "p \<noteq> []" "CHR '':'' \<notin> set p" using assms by (auto simp: url_ok_def)
    then have "last p \<noteq> CHR '':''" by (metis last_in_set)
    with Some \<open>p \<noteq> []\<close> show ?thesis by (simp add: url_core_def)
  qed
qed

text \<open>Without a scheme nothing of the URL looks like one.\<close>

lemma no_scheme_found:
  assumes "url_ok u" "\<not> lu_scheme u"
  shows "sw_find_bytes (url_core u @ url_tail u) ''://'' = None"
proof -
  let ?s = "url_core u @ url_tail u"
  have "\<not> occurs_at ''://'' ?s j" for j
  proof
    assume o: "occurs_at ''://'' ?s j"
    show False
    proof (cases "j < length (url_core u)")
      case False
      then have "occurs_at ''://'' (url_tail u) (j - length (url_core u))"
        using o occurs_at_drop[of "length (url_core u)" ?s "''://''" "j - length (url_core u)"] by simp
      moreover have "sw_find_bytes (url_tail u) ''://'' = None"
        using assms by (auto simp: url_tail_def url_ok_def sw_find_bytes_def split: option.splits)
      ultimately show False by (simp add: find_bytes_None_iff)
    next
      case True
      obtain t where t: "drop j ?s = CHR '':'' # CHR ''/'' # t" using o by (auto simp: occurs_at_def)
      have c: "url_core u ! j = CHR '':''"
        using t True by (metis hd_drop_conv_nth length_append list.sel(1) nth_append trans_less_add1)
      show False
      proof (cases "Suc j < length (url_core u)")
        case True
        have "drop (Suc j) ?s = CHR ''/'' # t" using t by (metis drop_Suc list.sel(3) tl_drop)
        with True have "url_core u ! Suc j = CHR ''/''"
          by (metis hd_drop_conv_nth length_append list.sel(1) nth_append trans_less_add1)
        with core_ok(1)[OF assms(1)] True show False by (metis nth_mem)
      next
        case False
        then have "j = length (url_core u) - 1" using True by simp
        with c True have "last (url_core u) = CHR '':''" by (metis last_conv_nth list.size(3) not_less_zero)
        with core_ok(3)[OF assms(1)] True show False by (metis list.size(3) not_less_zero)
      qed
    qed
  qed
  then show ?thesis by (subst find_bytes_None_iff) auto
qed

lemma split_core:
  assumes "url_ok u"
  shows "split_authority (url_core u @ url_tail u) (url_core u) = Some (lu_host u, lu_port u)"
proof (cases "lu_brackets u")
  case True
  let ?r = "case lu_port u of None \<Rightarrow> [] | Some p \<Rightarrow> CHR '':'' # p"
  have c: "url_core u = CHR ''['' # lu_host u @ CHR '']'' # ?r" using True by (simp add: url_core_def)
  have b: "before_char (CHR '']'') (lu_host u @ CHR '']'' # ?r) = lu_host u"
    using assms True by (intro before_char_app) (simp add: url_ok_def)
  have p: "lu_port u \<noteq> Some []" using assms by (auto simp: url_ok_def)
  show ?thesis unfolding split_authority_def c using b p
    by (cases "lu_port u") (simp_all add: Let_def)
next
  case False
  then have h: "CHR '':'' \<notin> set (lu_host u)" "\<not> (lu_host u \<noteq> [] \<and> hd (lu_host u) = CHR ''['')"
    using assms by (auto simp: url_ok_def)
  have nb: "\<not> (url_core u @ url_tail u \<noteq> [] \<and> hd (url_core u @ url_tail u) = CHR ''['')"
    using h(2) False by (cases "lu_host u") (auto simp: url_core_def url_tail_def split: option.splits)
  show ?thesis
  proof (cases "lu_port u")
    case None
    with False h(1) show ?thesis unfolding split_authority_def if_not_P[OF nb]
      by (simp add: url_core_def split_last_None)
  next
    case (Some p)
    then have "p \<noteq> []" "CHR '':'' \<notin> set p" using assms by (auto simp: url_ok_def)
    with Some False show ?thesis unfolding split_authority_def if_not_P[OF nb]
      by (simp add: url_core_def split_last_app)
  qed
qed

text \<open>
  C33. A listen URL is read as it is written. For any host, plain or in brackets, with or without
  scheme, port and path, the parser gives the host and the port, or the default port when there is
  none, as long as both fit their buffers; the path is ignored. A host or port that does not fit
  is refused rather than cut.
\<close>

theorem listen_url_roundtrip:
  assumes "url_ok u" and "CHR '':'' \<notin> set sch" "NUL \<notin> set sch" "NUL \<notin> set dport"
    and "lu_scheme u \<or> \<not> require_scheme" and "0 < host_cap" "0 < port_cap"
  defines "port \<equiv> (case lu_port u of None \<Rightarrow> dport | Some p \<Rightarrow> p)"
  shows "sw_parse_listen_url_scheme (Some (render_url sch u)) (Some sch) require_scheme (Some dport) host_cap port_cap =
    (if length (lu_host u) < host_cap \<and> length port < port_cap then Some (lu_host u, port) else None)"
proof -
  have r: "render_url sch u = (if lu_scheme u then sch @ ''://'' else []) @ url_core u @ url_tail u"
    by (simp add: render_url_def url_core_def url_tail_def)
  have "NUL \<notin> set (url_tail u)" using assms(1) by (auto simp: url_tail_def url_ok_def split: option.splits)
  then have n: "cstr (render_url sch u) = render_url sch u" "cstr sch = sch" "cstr dport = dport"
    using core_ok(2)[OF assms(1)] assms(3,4) by (auto simp: r intro!: cstr_ident)
  have st: "strip_scheme sch require_scheme (render_url sch u) = Some (url_core u @ url_tail u)"
  proof (cases "lu_scheme u")
    case True
    then show ?thesis using scheme_found[OF assms(2), of "url_core u @ url_tail u"]
      by (simp add: strip_scheme_def r)
  next
    case False
    then show ?thesis using no_scheme_found[OF assms(1)] assms(5) by (simp add: strip_scheme_def r)
  qed
  have a: "before_char (CHR ''/'') (url_core u @ url_tail u) = url_core u"
    using core_ok(1)[OF assms(1)] before_char_app by (cases "lu_path u") (simp_all add: url_tail_def)
  show ?thesis
    unfolding sw_parse_listen_url_scheme_def
    using n st a split_core[OF assms(1)] assms(6,7) by (auto simp: port_def split: option.split)
qed

theorem listen_url_roundtrip_witness:
  "sw_parse_listen_url (Some ''http://[::1]:8080/x'') 256 32 = Some (''::1'', ''8080'')"
  using listen_url_roundtrip[of "\<lparr>lu_scheme = True, lu_brackets = True, lu_host = ''::1'', lu_port = Some ''8080'', lu_path = Some ''x''\<rparr>"
      "''http''" "''80''" False 256 32]
  by (simp add: sw_parse_listen_url_def render_url_def url_ok_def)

end
