(* ===== verification/Server.thy ===== *)
theory Server
  imports Connection ListenUrl "HOL-Library.Multiset"
begin

text \<open>
  The server around the event loop of \<open>Manager\<close>, \<^verbatim>\<open>src/src/sw_server.c\<close>: listeners, worker threads, the
  hand-over of accepted sockets, starting, stopping, waiting. The threads share the state below and
  interleave; an operation under a lock or on an atomic counter is one step, the two halves of a
  drain (taking the queue under its lock, then creating the connections one by one) are separate
  steps. A connection is what it was made of; its own life is the subject of \<open>Manager\<close>.

  Thread functions, mutexes and arrays are those of a submodule: creating a thread may fail, as an
  argument says, and joining one blocks until its function has returned. Whether a thread's function
  has returned is the ghost field \<open>running\<close>.
\<close>

section \<open>The state\<close>

record sw_worker =
  wk_mgr :: bool
  wk_mgr_stop_requested :: bool
  wk_connections :: "sw_pending_connection list"
  wk_thread_started :: bool
  wk_running :: bool
  wk_pending :: "sw_pending_connection list"
  wk_taken :: "sw_pending_connection list"
  wk_accepted_count :: nat

record listener =
  li_fd :: int
  li_bound_port :: nat

record sw_server =
  sv_config :: sw_server_config
  sv_stop_requested :: bool
  sv_listeners :: "listener list"
  sv_connections :: "sw_pending_connection list"
  sv_workers :: "sw_worker list"
  sv_next_worker :: nat
  sv_active_connection_count :: nat
  sv_accept_thread_started :: bool
  sv_accept_running :: bool
  sv_server_started :: bool
  sv_running_foreground :: bool
  sv_in_hand :: "sw_pending_connection option"
  sv_open :: "int set"

text \<open>A fresh server; the configuration is merged with the defaults.\<close>

definition sw_server_create :: "sw_server_config option \<Rightarrow> sw_server" where
  "sw_server_create config = \<lparr>sv_config = merge_config config, sv_stop_requested = False, sv_listeners = [],
     sv_connections = [], sv_workers = [], sv_next_worker = 0, sv_active_connection_count = 0,
     sv_accept_thread_started = False, sv_accept_running = False, sv_server_started = False,
     sv_running_foreground = False, sv_in_hand = None, sv_open = {}\<rparr>"

definition update_worker :: "nat \<Rightarrow> (sw_worker \<Rightarrow> sw_worker) \<Rightarrow> sw_server \<Rightarrow> sw_server" where
  "update_worker i f s = s\<lparr>sv_workers := (sv_workers s)[i := f (sv_workers s ! i)]\<rparr>"

section \<open>Counting\<close>

text \<open>
  The compare and exchange loop of \<^verbatim>\<open>sw_atomic_try_increment_size\<close>: \<open>actual\<close> are the values the
  counter has at each attempt, \<open>current\<close> the value last seen. The result is whether the counter
  was incremented and its new value; None while all attempts so far lost the race.
\<close>

fun sw_atomic_try_increment_size :: "nat \<Rightarrow> nat \<Rightarrow> nat list \<Rightarrow> (bool \<times> nat) option" where
  "sw_atomic_try_increment_size max_value current actual =
     (if max_value > 0 \<and> current \<ge> max_value then Some (False, current)
      else case actual of
        [] \<Rightarrow> None
      | v # rest \<Rightarrow> if v = current then Some (True, current + 1)
                    else sw_atomic_try_increment_size max_value v rest)"

declare sw_atomic_try_increment_size.simps [simp del]

text \<open>However many attempts it takes, the effect is that of one atomic step on the value found there.\<close>

lemma try_increment_atomic:
  "sw_atomic_try_increment_size max_value current actual = Some (ok, n) \<Longrightarrow>
   (if ok then n - 1 \<in> set actual \<and> 0 < n \<and> (max_value = 0 \<or> n \<le> max_value)
    else 0 < max_value \<and> max_value \<le> n \<and> n \<in> insert current (set actual))"
proof (induction max_value current actual rule: sw_atomic_try_increment_size.induct)
  case (1 max_value current actual)
  show ?case
  proof (cases actual)
    case Nil
    with 1(2) show ?thesis by (auto simp: sw_atomic_try_increment_size.simps[of _ _ "[]"] split: if_splits)
  next
    case (Cons v rest)
    show ?thesis
    proof (cases "(max_value > 0 \<and> current \<ge> max_value) \<or> v = current")
      case True
      with 1(2) Cons show ?thesis
        by (subst (asm) sw_atomic_try_increment_size.simps) (auto split: if_splits)
    next
      case False
      with 1(2) Cons have "sw_atomic_try_increment_size max_value v rest = Some (ok, n)"
        by (subst (asm) sw_atomic_try_increment_size.simps) auto
      with 1(1)[OF _ Cons] False Cons show ?thesis by auto
    qed
  qed
qed

definition try_reserve :: "sw_server \<Rightarrow> bool \<times> sw_server" where
  "try_reserve s =
     (let current = sv_active_connection_count s; max_value = max_connections (sv_config s) in
      if max_value > 0 \<and> current \<ge> max_value then (False, s)
      else (True, s\<lparr>sv_active_connection_count := current + 1\<rparr>))"

definition release :: "sw_server \<Rightarrow> sw_server" where
  "release s =
     (if sv_active_connection_count s > 0
      then s\<lparr>sv_active_connection_count := sv_active_connection_count s - 1\<rparr> else s)"

text \<open>Giving up a socket: its count, and the socket itself.\<close>

definition drop_connection :: "sw_pending_connection \<Rightarrow> sw_server \<Rightarrow> sw_server" where
  "drop_connection p s =
     (let s1 = (if pc_counted p then release s else s) in s1\<lparr>sv_open := sv_open s1 - {pc_fd p}\<rparr>)"

section \<open>Listening\<close>

text \<open>
  \<^verbatim>\<open>sw_http_listen\<close> on a non-NULL manager and handler: what resolving an address gives and whether
  epoll takes the listener are arguments. A socket epoll refuses is closed again.
\<close>

definition sw_http_listen ::
  "(cptr \<Rightarrow> string \<Rightarrow> local_address list option) \<Rightarrow> bool \<Rightarrow> cptr \<Rightarrow> sw_server \<Rightarrow> int \<times> sw_server" where
  "sw_http_listen getaddrinfo register_ok url s =
     (case sw_parse_listen_url url 256 32 of
        None \<Rightarrow> (-1, s)
      | Some (host, port) \<Rightarrow>
          (case fst (sw_create_listener_socket getaddrinfo (Some host) port (listen_backlog (sv_config s))) of
             None \<Rightarrow> (-1, s)
           | Some (fd, bound_port) \<Rightarrow>
               let s1 = s\<lparr>sv_open := insert fd (sv_open s)\<rparr> in
               if \<not> register_ok then (-1, s1\<lparr>sv_open := sv_open s1 - {fd}\<rparr>)
               else (0, s1\<lparr>sv_listeners := sv_listeners s @ [\<lparr>li_fd = fd, li_bound_port = bound_port\<rparr>]\<rparr>)))"

definition sw_mgr_get_listener_port :: "sw_server option \<Rightarrow> nat \<Rightarrow> nat" where
  "sw_mgr_get_listener_port mgr listener_index =
     (case mgr of None \<Rightarrow> 0
      | Some s \<Rightarrow> if listener_index \<ge> length (sv_listeners s) then 0 else li_bound_port (sv_listeners s ! listener_index))"

section \<open>Handing over sockets\<close>

text \<open>The part of \<^verbatim>\<open>sw_mgr_dispatch_connection\<close> for a manager with workers.\<close>

definition dispatch_to_worker :: "sw_pending_connection \<Rightarrow> sw_server \<Rightarrow> sw_server" where
  "dispatch_to_worker p s =
     (let count = length (sv_workers s);
          i = sv_next_worker s mod count;
          s1 = s\<lparr>sv_next_worker := (sv_next_worker s + 1) mod count\<rparr>
      in update_worker i (\<lambda>w. w\<lparr>wk_pending := wk_pending w @ [p], wk_accepted_count := wk_accepted_count w + 1\<rparr>) s1)"

text \<open>One turn of the loop of \<^verbatim>\<open>sw_mgr_accept_ready\<close>: up to the reservation, and the hand-over behind it.\<close>

definition accept_one :: "int \<Rightarrow> bool \<Rightarrow> nat \<Rightarrow> string \<Rightarrow> nat \<Rightarrow> sw_server \<Rightarrow> sw_server" where
  "accept_one fd nonblocking_ok listener_index host port s =
     (if \<not> nonblocking_ok then s
      else let (reserved, s1) = try_reserve s in
        if \<not> reserved then s
        else s1\<lparr>sv_open := insert fd (sv_open s),
                sv_in_hand := Some \<lparr>pc_fd = fd, pc_listener = listener_index, pc_remote_ip = host,
                  pc_remote_port = port, pc_counted = True\<rparr>\<rparr>)"

definition dispatch_in_hand :: "bool \<Rightarrow> sw_server \<Rightarrow> sw_server" where
  "dispatch_in_hand created s =
     (case sv_in_hand s of
        None \<Rightarrow> s
      | Some p \<Rightarrow>
          let s1 = s\<lparr>sv_in_hand := None\<rparr> in
          if length (sv_workers s) > 0 then dispatch_to_worker p s1
          else if created then s1\<lparr>sv_connections := sv_connections s @ [p]\<rparr>
          else drop_connection p s1)"

text \<open>\<^verbatim>\<open>sw_mgr_drain_pending_connections\<close>: taking the queue, and one turn of the loop behind it.\<close>

definition drain_take :: "nat \<Rightarrow> sw_server \<Rightarrow> sw_server" where
  "drain_take i = update_worker i (\<lambda>w. w\<lparr>wk_taken := wk_pending w, wk_pending := []\<rparr>)"

definition drain_create :: "nat \<Rightarrow> bool \<Rightarrow> sw_server \<Rightarrow> sw_server" where
  "drain_create i created s =
     (case wk_taken (sv_workers s ! i) of
        [] \<Rightarrow> s
      | p # rest \<Rightarrow>
          if created
          then update_worker i (\<lambda>w. w\<lparr>wk_taken := rest, wk_connections := wk_connections w @ [p]\<rparr>) s
          else drop_connection p (update_worker i (\<lambda>w. w\<lparr>wk_taken := rest\<rparr>) s))"

text \<open>What closing a connection means here.\<close>

definition close_worker_connection :: "nat \<Rightarrow> nat \<Rightarrow> sw_server \<Rightarrow> sw_server" where
  "close_worker_connection i k s =
     (let cs = wk_connections (sv_workers s ! i) in
      drop_connection (cs ! k) (update_worker i (\<lambda>w. w\<lparr>wk_connections := take k cs @ drop (Suc k) cs\<rparr>) s))"

definition close_own_connection :: "nat \<Rightarrow> sw_server \<Rightarrow> sw_server" where
  "close_own_connection k s =
     (let cs = sv_connections s in
      drop_connection (cs ! k) (s\<lparr>sv_connections := take k cs @ drop (Suc k) cs\<rparr>))"

section \<open>Stopping and waiting\<close>

definition sw_server_stop :: "sw_server \<Rightarrow> sw_server" where
  "sw_server_stop s =
     s\<lparr>sv_stop_requested := True,
       sv_workers := map (\<lambda>w. if wk_mgr w then w\<lparr>wk_mgr_stop_requested := True\<rparr> else w) (sv_workers s)\<rparr>"

definition sw_server_join_workers :: "sw_server \<Rightarrow> sw_server" where
  "sw_server_join_workers s =
     s\<lparr>sv_workers := map (\<lambda>w. if wk_thread_started w then w\<lparr>wk_thread_started := False\<rparr> else w) (sv_workers s)\<rparr>"

fun drop_all :: "sw_pending_connection list \<Rightarrow> sw_server \<Rightarrow> sw_server" where
  "drop_all [] s = s"
| "drop_all (p # ps) s = drop_all ps (drop_connection p s)"

definition close_all_own :: "sw_server \<Rightarrow> sw_server" where
  "close_all_own s = (drop_all (sv_connections s) s)\<lparr>sv_connections := []\<rparr>"

definition sw_worker_clear_pending :: "nat \<Rightarrow> sw_server \<Rightarrow> sw_server" where
  "sw_worker_clear_pending i s =
     update_worker i (\<lambda>w. w\<lparr>wk_pending := []\<rparr>) (drop_all (wk_pending (sv_workers s ! i)) s)"

definition close_all_of_worker :: "nat \<Rightarrow> sw_server \<Rightarrow> sw_server" where
  "close_all_of_worker i s =
     update_worker i (\<lambda>w. w\<lparr>wk_connections := []\<rparr>) (drop_all (wk_connections (sv_workers s ! i)) s)"

definition sw_server_close_worker_connections :: "sw_server \<Rightarrow> sw_server" where
  "sw_server_close_worker_connections s =
     fold (\<lambda>i s. close_all_of_worker i (sw_worker_clear_pending i s)) [0..<length (sv_workers s)] (close_all_own s)"

text \<open>\<^verbatim>\<open>sw_server_wait\<close> once the threads it joins have returned.\<close>

definition sw_server_wait :: "sw_server option \<Rightarrow> int \<times> sw_server option" where
  "sw_server_wait server =
     (case server of None \<Rightarrow> (-1, None)
      | Some s \<Rightarrow>
          let s1 = (if sv_accept_thread_started s then s\<lparr>sv_accept_thread_started := False\<rparr> else s);
              s2 = sw_server_close_worker_connections (sw_server_join_workers (sw_server_stop s1))
          in (0, Some (s2\<lparr>sv_server_started := False\<rparr>)))"

section \<open>Starting\<close>

definition new_worker :: sw_worker where
  "new_worker = \<lparr>wk_mgr = False, wk_mgr_stop_requested = False, wk_connections = [], wk_thread_started = False,
     wk_running = False, wk_pending = [], wk_taken = [], wk_accepted_count = 0\<rparr>"

text \<open>Whether the mutex, the manager and the thread of each worker can be made.\<close>

fun start_loop :: "(bool \<times> bool \<times> bool) list \<Rightarrow> sw_server \<Rightarrow> int \<times> sw_server" where
  "start_loop [] s = (0, s)"
| "start_loop ((mutex_ok, mgr_ok, thread_ok) # rest) s =
     (if \<not> mutex_ok then (-1, s)
      else if \<not> mgr_ok then (-1, s\<lparr>sv_workers := sv_workers s @ [new_worker]\<rparr>)
      else if \<not> thread_ok then (-1, s\<lparr>sv_workers := sv_workers s @ [new_worker\<lparr>wk_mgr := True\<rparr>]\<rparr>)
      else start_loop rest (s\<lparr>sv_workers := sv_workers s @
             [new_worker\<lparr>wk_mgr := True, wk_thread_started := True, wk_running := True\<rparr>]\<rparr>))"

definition sw_server_start_workers :: "(nat \<Rightarrow> bool \<times> bool \<times> bool) \<Rightarrow> sw_server \<Rightarrow> int \<times> sw_server" where
  "sw_server_start_workers can s =
     (if length (sv_workers s) > 0 then (0, s)
      else start_loop (map can [0..<worker_count (sv_config s)]) s)"

text \<open>
  \<^verbatim>\<open>sw_server_start\<close>; when the accept thread cannot be made, joining the workers waits for their
  functions to return.
\<close>

definition sw_server_start :: "(nat \<Rightarrow> bool \<times> bool \<times> bool) \<Rightarrow> bool \<Rightarrow> sw_server option \<Rightarrow> int \<times> sw_server option" where
  "sw_server_start can accept_thread_ok server =
     (case server of None \<Rightarrow> (-1, None)
      | Some s \<Rightarrow>
          if sv_accept_thread_started s \<or> sv_running_foreground s then (-1, Some s)
          else
            let (rc, s1) = sw_server_start_workers can (s\<lparr>sv_stop_requested := False\<rparr>) in
            if rc \<noteq> 0 then (-1, Some (sw_server_stop s1))
            else if \<not> accept_thread_ok then
              (let s2 = sw_server_stop s1 in
               (-1, Some (sw_server_join_workers (s2\<lparr>sv_workers := map (\<lambda>w. w\<lparr>wk_running := False\<rparr>) (sv_workers s2)\<rparr>))))
            else (0, Some (s1\<lparr>sv_accept_thread_started := True, sv_accept_running := True, sv_server_started := True\<rparr>)))"

text \<open>\<^verbatim>\<open>sw_server_run\<close> up to its loop, and from the loop to joining the workers.\<close>

definition run_begin :: "(nat \<Rightarrow> bool \<times> bool \<times> bool) \<Rightarrow> sw_server \<Rightarrow> int \<times> sw_server" where
  "run_begin can s =
     (if sv_accept_thread_started s \<or> sv_running_foreground s then (-1, s)
      else
        let (rc, s1) = sw_server_start_workers can (s\<lparr>sv_stop_requested := False\<rparr>) in
        if rc \<noteq> 0 then (-1, sw_server_stop s1) else (0, s1\<lparr>sv_running_foreground := True\<rparr>))"

definition run_leave :: "sw_server \<Rightarrow> sw_server" where
  "run_leave s = sw_server_stop (s\<lparr>sv_running_foreground := False\<rparr>)"

definition run_finish :: "sw_server \<Rightarrow> sw_server" where
  "run_finish s = sw_server_close_worker_connections (sw_server_join_workers s)"

section \<open>Destroying\<close>

fun close_listeners :: "listener list \<Rightarrow> sw_server \<Rightarrow> sw_server" where
  "close_listeners [] s = s\<lparr>sv_listeners := []\<rparr>"
| "close_listeners (l # ls) s = close_listeners ls (s\<lparr>sv_open := sv_open s - {li_fd l}, sv_listeners := ls\<rparr>)"

text \<open>
  \<^verbatim>\<open>sw_mgr_destroy_internal\<close> of the server: stop, wait, and closing what is still there; the manager of a
  worker, destroyed in the same loop, has connections and no listeners. The memory is not modelled.
\<close>

definition sw_server_destroy :: "sw_server \<Rightarrow> sw_server" where
  "sw_server_destroy s =
     (let s1 = the (snd (sw_server_wait (Some (sw_server_stop s))));
          s2 = (sw_server_close_worker_connections s1)\<lparr>sv_workers := []\<rparr>
      in close_listeners (sv_listeners s2) s2)"

section \<open>The epoll backend of a manager\<close>

text \<open>
  \<^verbatim>\<open>src/src/sw_backend_epoll.c\<close>, creating and closing the backend, and listeners: the epoll descriptor
  (negative when it cannot be made), the size of the event batch, the listeners registered for input.
  Connections are registered in \<open>Manager\<close>.
\<close>

record sw_backend =
  be_epoll_fd :: int
  be_event_capacity :: nat
  be_listeners :: "int set"

definition sw_backend_init :: "int \<Rightarrow> sw_server_config \<Rightarrow> int \<times> sw_backend option" where
  "sw_backend_init epoll_fd config =
     (if epoll_fd < 0 then (-1, None)
      else (0, Some \<lparr>be_epoll_fd = epoll_fd,
        be_event_capacity = (if event_batch_size config > 0 \<and> event_batch_size config \<le> INT_MAX
          then event_batch_size config else 256),
        be_listeners = {}\<rparr>))"

definition sw_backend_shutdown :: "sw_backend option \<Rightarrow> sw_backend option" where
  "sw_backend_shutdown backend = None"

definition sw_backend_register_listener :: "(int \<Rightarrow> bool) \<Rightarrow> int \<Rightarrow> sw_backend \<Rightarrow> int \<times> sw_backend" where
  "sw_backend_register_listener epoll_ctl_ok fd b =
     (if epoll_ctl_ok fd then (0, b\<lparr>be_listeners := insert fd (be_listeners b)\<rparr>) else (-1, b))"

definition sw_backend_unregister_listener :: "int option \<Rightarrow> sw_backend option \<Rightarrow> sw_backend option" where
  "sw_backend_unregister_listener listener_fd backend =
     (case (listener_fd, backend) of
        (Some fd, Some b) \<Rightarrow> if fd = -1 then backend else Some (b\<lparr>be_listeners := be_listeners b - {fd}\<rparr>)
      | _ \<Rightarrow> backend)"

text \<open>Whatever the configuration says, \<^verbatim>\<open>epoll_wait\<close> gets a size it accepts.\<close>

lemma event_capacity_valid:
  "sw_backend_init epoll_fd config = (rc, Some b) \<Longrightarrow> 0 < be_event_capacity b \<and> be_event_capacity b \<le> INT_MAX"
  by (auto simp: sw_backend_init_def INT_MAX_def split: if_splits)

section \<open>Queries\<close>

definition sw_server_is_running :: "sw_server option \<Rightarrow> bool" where
  "sw_server_is_running server = (case server of None \<Rightarrow> False | Some s \<Rightarrow> \<not> sv_stop_requested s)"

definition sw_server_open_connections :: "sw_server option \<Rightarrow> nat" where
  "sw_server_open_connections server = (case server of None \<Rightarrow> 0 | Some s \<Rightarrow> sv_active_connection_count s)"

definition sw_server_worker_count :: "sw_server option \<Rightarrow> nat" where
  "sw_server_worker_count server = (case server of None \<Rightarrow> 0 | Some s \<Rightarrow> length (sv_workers s))"

definition sw_server_worker_open_connections :: "sw_server option \<Rightarrow> nat \<Rightarrow> nat" where
  "sw_server_worker_open_connections server i =
     (case server of None \<Rightarrow> 0
      | Some s \<Rightarrow> if i \<ge> length (sv_workers s) \<or> \<not> wk_mgr (sv_workers s ! i) then 0
                  else length (wk_connections (sv_workers s ! i)))"

definition sw_server_worker_accepted_connections :: "sw_server option \<Rightarrow> nat \<Rightarrow> nat" where
  "sw_server_worker_accepted_connections server i =
     (case server of None \<Rightarrow> 0
      | Some s \<Rightarrow> if i \<ge> length (sv_workers s) then 0 else wk_accepted_count (sv_workers s ! i))"

end
