(* ===== verification/ServerSteps.thy ===== *)
theory ServerSteps
  imports Server
begin

text \<open>
  The life of a server: the steps its threads and its owner take, in any order, and what holds in
  every state they reach. Every open socket has exactly one owner, the counter counts the connections
  there are, the limit is kept, the workers get equal shares, and waiting leaves nothing behind.
\<close>

section \<open>The steps\<close>

definition no_threads :: "sw_server \<Rightarrow> bool" where
  "no_threads s \<longleftrightarrow> \<not> sv_accept_running s \<and> \<not> sv_running_foreground s \<and> sv_in_hand s = None
     \<and> (\<forall>w \<in> set (sv_workers s). \<not> wk_running w)"

text \<open>
  A new descriptor is not one that is open. Who accepts, the accept thread, \<^verbatim>\<open>sw_server_run\<close> or a caller
  of \<^verbatim>\<open>sw_server_poll\<close>, makes no difference. A thread leaves its loop when it sees the stop flag, a
  worker between two drains. Joining a thread is possible once it has left.
\<close>

inductive server_step :: "sw_server \<Rightarrow> sw_server \<Rightarrow> bool" where
  listened: "(\<And>h p fd port. fst (sw_create_listener_socket g h p (listen_backlog (sv_config s))) = Some (fd, port)
      \<Longrightarrow> fd \<notin> sv_open s)
    \<Longrightarrow> server_step s (snd (sw_http_listen g register_ok url s))"
| accepted: "sv_in_hand s = None \<Longrightarrow> fd \<notin> sv_open s
    \<Longrightarrow> server_step s (accept_one fd nonblocking_ok l host port s)"
| dispatched: "server_step s (dispatch_in_hand created s)"
| taking: "i < length (sv_workers s) \<Longrightarrow> wk_running (sv_workers s ! i) \<Longrightarrow> wk_taken (sv_workers s ! i) = []
    \<Longrightarrow> server_step s (drain_take i s)"
| creating: "i < length (sv_workers s) \<Longrightarrow> wk_running (sv_workers s ! i)
    \<Longrightarrow> server_step s (drain_create i created s)"
| closed_by_worker: "i < length (sv_workers s) \<Longrightarrow> wk_running (sv_workers s ! i)
    \<Longrightarrow> k < length (wk_connections (sv_workers s ! i))
    \<Longrightarrow> server_step s (close_worker_connection i k s)"
| closed_own: "k < length (sv_connections s) \<Longrightarrow> server_step s (close_own_connection k s)"
| stopped: "server_step s (sw_server_stop s)"
| poll_failed: "server_step s (s\<lparr>sv_stop_requested := True\<rparr>)"
| worker_left: "i < length (sv_workers s) \<Longrightarrow> wk_taken (sv_workers s ! i) = [] \<Longrightarrow> sv_stop_requested s
    \<Longrightarrow> server_step s (update_worker i (\<lambda>w. w\<lparr>wk_running := False\<rparr>) s)"
| accept_left: "sv_accept_running s \<Longrightarrow> sv_in_hand s = None \<Longrightarrow> sv_stop_requested s
    \<Longrightarrow> server_step s (sw_server_stop (s\<lparr>sv_accept_running := False\<rparr>))"
| started: "sv_in_hand s = None \<Longrightarrow> accept_thread_ok \<or> (\<forall>w \<in> set (sv_workers s). wk_taken w = [])
    \<Longrightarrow> server_step s (the (snd (sw_server_start can accept_thread_ok (Some s))))"
| run_entered: "sv_in_hand s = None \<Longrightarrow> server_step s (snd (run_begin can s))"
| run_left: "sv_running_foreground s \<Longrightarrow> sv_in_hand s = None \<Longrightarrow> server_step s (run_leave s)"
| run_finished: "no_threads s \<Longrightarrow> server_step s (run_finish s)"
| waited: "no_threads s \<Longrightarrow> server_step s (the (snd (sw_server_wait (Some s))))"

inductive_cases server_stepE: "server_step s s'"

section \<open>Who owns which socket\<close>

definition wk_items :: "sw_worker \<Rightarrow> sw_pending_connection multiset" where
  "wk_items w = mset (wk_pending w) + mset (wk_taken w) + mset (wk_connections w)"

definition items :: "sw_server \<Rightarrow> sw_pending_connection multiset" where
  "items s = (case sv_in_hand s of None \<Rightarrow> {#} | Some p \<Rightarrow> {#p#}) + mset (sv_connections s)
     + sum_list (map wk_items (sv_workers s))"

text \<open>\<open>accounts M s\<close>: the connections \<open>M\<close> and the listeners own the open sockets, one each.\<close>

definition accounts :: "sw_pending_connection multiset \<Rightarrow> sw_server \<Rightarrow> bool" where
  "accounts M s \<longleftrightarrow> finite (sv_open s)
     \<and> image_mset pc_fd M + image_mset li_fd (mset (sv_listeners s)) = mset_set (sv_open s)
     \<and> sv_active_connection_count s = size (filter_mset pc_counted M)"

lemma sum_list_update_comm:
  fixes f :: "'a \<Rightarrow> 'b::comm_monoid_add"
  shows "i < length xs \<Longrightarrow> sum_list (map f (xs[i := y])) + f (xs ! i) = sum_list (map f xs) + f y"
proof (induction xs arbitrary: i)
  case (Cons x xs)
  then show ?case by (cases i) (simp_all add: ac_simps)
qed simp

lemma sum_list_empty: "\<forall>x \<in> set xs. f x = {#} \<Longrightarrow> sum_list (map f xs) = {#}"
  by (induction xs) simp_all

lemma distinct_if_mset_set:
  assumes "mset xs = mset_set A" "finite A"
  shows "distinct xs" "set xs = A"
proof -
  show s: "set xs = A" using assms by (metis finite_set_mset_mset_set set_mset_mset)
  show "distinct xs" unfolding distinct_count_atmost_1 assms(1) s using assms(2) by simp
qed

lemma update_worker_frame [simp]:
  "sv_config (update_worker i f s) = sv_config s" "sv_stop_requested (update_worker i f s) = sv_stop_requested s"
  "sv_listeners (update_worker i f s) = sv_listeners s" "sv_connections (update_worker i f s) = sv_connections s"
  "length (sv_workers (update_worker i f s)) = length (sv_workers s)"
  "sv_next_worker (update_worker i f s) = sv_next_worker s"
  "sv_active_connection_count (update_worker i f s) = sv_active_connection_count s"
  "sv_accept_thread_started (update_worker i f s) = sv_accept_thread_started s"
  "sv_accept_running (update_worker i f s) = sv_accept_running s" "sv_open (update_worker i f s) = sv_open s"
  "sv_running_foreground (update_worker i f s) = sv_running_foreground s"
  "sv_in_hand (update_worker i f s) = sv_in_hand s"
  by (simp_all add: update_worker_def)

lemma drop_connection_frame [simp]:
  "sv_config (drop_connection p s) = sv_config s" "sv_stop_requested (drop_connection p s) = sv_stop_requested s"
  "sv_listeners (drop_connection p s) = sv_listeners s" "sv_connections (drop_connection p s) = sv_connections s"
  "sv_workers (drop_connection p s) = sv_workers s" "sv_next_worker (drop_connection p s) = sv_next_worker s"
  "sv_accept_thread_started (drop_connection p s) = sv_accept_thread_started s"
  "sv_accept_running (drop_connection p s) = sv_accept_running s"
  "sv_running_foreground (drop_connection p s) = sv_running_foreground s"
  "sv_in_hand (drop_connection p s) = sv_in_hand s" "sv_open (drop_connection p s) = sv_open s - {pc_fd p}"
  by (simp_all add: drop_connection_def release_def Let_def)

lemma drop_connection_count: "sv_active_connection_count (drop_connection p s) \<le> sv_active_connection_count s"
  by (simp add: drop_connection_def release_def Let_def)

lemma drop_all_frame [simp]:
  "sv_config (drop_all ps s) = sv_config s" "sv_stop_requested (drop_all ps s) = sv_stop_requested s"
  "sv_listeners (drop_all ps s) = sv_listeners s" "sv_connections (drop_all ps s) = sv_connections s"
  "sv_workers (drop_all ps s) = sv_workers s" "sv_next_worker (drop_all ps s) = sv_next_worker s"
  "sv_accept_thread_started (drop_all ps s) = sv_accept_thread_started s"
  "sv_accept_running (drop_all ps s) = sv_accept_running s"
  "sv_running_foreground (drop_all ps s) = sv_running_foreground s" "sv_in_hand (drop_all ps s) = sv_in_hand s"
  by (induction ps arbitrary: s) simp_all

lemma items_update:
  "i < length (sv_workers s) \<Longrightarrow>
   items (update_worker i f s) + wk_items (sv_workers s ! i) = items s + wk_items (f (sv_workers s ! i))"
  using sum_list_update_comm[of i "sv_workers s" wk_items "f (sv_workers s ! i)"]
  by (simp add: items_def ac_simps) (simp add: update_worker_def ac_simps)

lemma items_same:
  "i < length (sv_workers s) \<Longrightarrow> wk_items (f (sv_workers s ! i)) = wk_items (sv_workers s ! i)
   \<Longrightarrow> items (update_worker i f s) = items s"
  using items_update[of i s f] by simp

lemma items_frame:
  "sv_in_hand t = sv_in_hand s \<Longrightarrow> sv_connections t = sv_connections s \<Longrightarrow> sv_workers t = sv_workers s
   \<Longrightarrow> items t = items s"
  by (simp add: items_def)

lemma accounts_frame:
  "accounts M s \<Longrightarrow> sv_open t = sv_open s \<Longrightarrow> sv_listeners t = sv_listeners s
   \<Longrightarrow> sv_active_connection_count t = sv_active_connection_count s \<Longrightarrow> accounts M t"
  by (simp add: accounts_def)

text \<open>Giving up a connection takes it out of the books.\<close>

lemma accounts_drop:
  assumes "accounts (add_mset p M) s"
  shows "accounts M (drop_connection p s)"
proof -
  let ?rest = "image_mset pc_fd M + image_mset li_fd (mset (sv_listeners s))"
  have fin: "finite (sv_open s)" and eq: "add_mset (pc_fd p) ?rest = mset_set (sv_open s)"
    using assms by (simp_all add: accounts_def)
  then have "pc_fd p \<in># mset_set (sv_open s)" by (metis union_single_eq_member add_mset_add_single union_commute)
  then have "pc_fd p \<in> sv_open s" using fin by simp
  then have "?rest = mset_set (sv_open s - {pc_fd p})"
    using eq mset_set.remove[OF fin, of "pc_fd p"] by simp
  with assms show ?thesis by (auto simp: accounts_def drop_connection_def release_def Let_def)
qed

lemma accounts_drop_all: "accounts (mset ps + M) s \<Longrightarrow> accounts M (drop_all ps s)"
  by (induction ps arbitrary: s) (simp_all add: accounts_drop)

text \<open>A new connection is entered into the books.\<close>

lemma accounts_reserve:
  assumes "accounts M s" "fd \<notin> sv_open s" "pc_fd p = fd" "pc_counted p"
  shows "accounts (add_mset p M) (s\<lparr>sv_open := insert fd (sv_open s),
    sv_active_connection_count := sv_active_connection_count s + 1\<rparr>)"
  using assms by (simp add: accounts_def)

section \<open>What each operation keeps\<close>

text \<open>
  The invariant: the books are right, the limit is kept, only running workers have taken
  connections, and the workers have got equal shares.
\<close>

definition fair_shares :: "nat \<Rightarrow> nat list \<Rightarrow> bool" where
  "fair_shares next_worker accepted \<longleftrightarrow> (let n = length accepted in
     if n = 0 then next_worker = 0
     else \<exists>t. next_worker = t mod n \<and> (\<forall>i < n. accepted ! i = t div n + (if i < t mod n then 1 else 0)))"

definition fair :: "sw_server \<Rightarrow> bool" where
  "fair s \<longleftrightarrow> fair_shares (sv_next_worker s) (map wk_accepted_count (sv_workers s))"

definition limit_kept :: "sw_server \<Rightarrow> bool" where
  "limit_kept s \<longleftrightarrow> (max_connections (sv_config s) > 0 \<longrightarrow>
     sv_active_connection_count s \<le> max_connections (sv_config s))"

definition taken_by_running :: "sw_server \<Rightarrow> bool" where
  "taken_by_running s \<longleftrightarrow> (\<forall>w \<in> set (sv_workers s). wk_taken w \<noteq> [] \<longrightarrow> wk_running w)"

definition server_ok :: "sw_server \<Rightarrow> bool" where
  "server_ok s \<longleftrightarrow> accounts (items s) s \<and> limit_kept s \<and> taken_by_running s \<and> fair s"

lemma fair_frame:
  "fair s \<Longrightarrow> sv_next_worker t = sv_next_worker s
   \<Longrightarrow> map wk_accepted_count (sv_workers t) = map wk_accepted_count (sv_workers s) \<Longrightarrow> fair t"
  by (simp add: fair_def)

lemma accepted_update:
  "(\<And>w. wk_accepted_count (f w) = wk_accepted_count w) \<Longrightarrow>
   map wk_accepted_count (sv_workers (update_worker i f s)) = map wk_accepted_count (sv_workers s)"
  by (cases "i < length (sv_workers s)")
    (simp_all add: update_worker_def map_update list_update_same_conv list_update_beyond)

lemma fair_update: "fair s \<Longrightarrow> (\<And>w. wk_accepted_count (f w) = wk_accepted_count w) \<Longrightarrow> fair (update_worker i f s)"
  by (simp add: fair_def accepted_update)

lemma workers_update: "i < length (sv_workers s) \<Longrightarrow>
   (w \<in> set (sv_workers (update_worker i f s))) \<longleftrightarrow>
   (\<exists>j < length (sv_workers s). w = (if j = i then f (sv_workers s ! i) else sv_workers s ! j))"
  by (auto simp: update_worker_def in_set_conv_nth nth_list_update split: if_splits)

lemma taken_update:
  "taken_by_running s \<Longrightarrow> i < length (sv_workers s)
   \<Longrightarrow> (wk_taken (f (sv_workers s ! i)) \<noteq> [] \<longrightarrow> wk_running (f (sv_workers s ! i)))
   \<Longrightarrow> taken_by_running (update_worker i f s)"
  unfolding taken_by_running_def by (auto simp: workers_update split: if_splits)

text \<open>Taking one connection out of a list of them.\<close>

lemma mset_take_drop: "k < length xs \<Longrightarrow> add_mset (xs ! k) (mset (take k xs) + mset (drop (Suc k) xs)) = mset xs"
  by (metis (no_types, lifting) id_take_nth_drop mset.simps(2) mset_append union_mset_add_mset_right)

lemma ok_drain_take:
  assumes "server_ok s" "i < length (sv_workers s)" "wk_running (sv_workers s ! i)" "wk_taken (sv_workers s ! i) = []"
  shows "server_ok (drain_take i s)"
  using assms unfolding server_ok_def drain_take_def
  by (auto simp: limit_kept_def items_same wk_items_def intro: accounts_frame fair_update taken_update)

text \<open>A connection that goes away: whoever had it, the books lose it and its count.\<close>

lemma ok_drop:
  assumes "accounts (add_mset p (items t)) t" "limit_kept t" "taken_by_running t" "fair t"
  shows "server_ok (drop_connection p t)"
proof -
  have i: "items (drop_connection p t) = items t" by (rule items_frame) simp_all
  show ?thesis using assms drop_connection_count[of p t]
    unfolding server_ok_def i
    by (auto simp: limit_kept_def taken_by_running_def intro: accounts_drop fair_frame)
qed

lemma ok_worker_drop:
  assumes "server_ok s" "i < length (sv_workers s)"
    and "add_mset p (wk_items (f (sv_workers s ! i))) = wk_items (sv_workers s ! i)"
    and "\<And>w. wk_accepted_count (f w) = wk_accepted_count w"
    and "wk_taken (f (sv_workers s ! i)) \<noteq> [] \<longrightarrow> wk_running (f (sv_workers s ! i))"
  shows "server_ok (drop_connection p (update_worker i f s))"
proof (rule ok_drop)
  have "add_mset p (items (update_worker i f s)) + wk_items (f (sv_workers s ! i)) = items s + wk_items (f (sv_workers s ! i))"
    using items_update[OF assms(2), of f] assms(3) by (metis add_mset_add_single union_assoc union_commute)
  then have "add_mset p (items (update_worker i f s)) = items s" by simp
  with assms(1) show "accounts (add_mset p (items (update_worker i f s))) (update_worker i f s)"
    by (auto simp: server_ok_def intro: accounts_frame)
qed (use assms in \<open>auto simp: server_ok_def limit_kept_def intro: taken_update fair_update\<close>)

lemma ok_drain_create:
  assumes "server_ok s" "i < length (sv_workers s)" "wk_running (sv_workers s ! i)"
  shows "server_ok (drain_create i created s)"
proof (cases "wk_taken (sv_workers s ! i)")
  case Nil
  with assms show ?thesis by (simp add: drain_create_def)
next
  case (Cons p rest)
  let ?f = "\<lambda>w. w\<lparr>wk_taken := rest, wk_connections := wk_connections w @ [p]\<rparr>"
  have same: "items (update_worker i ?f s) = items s"
    using assms(2) Cons by (intro items_same) (simp_all add: wk_items_def)
  have "server_ok (update_worker i ?f s)"
    using assms unfolding server_ok_def same
    by (auto simp: limit_kept_def intro: accounts_frame fair_update taken_update)
  moreover have "server_ok (drop_connection p (update_worker i (\<lambda>w. w\<lparr>wk_taken := rest\<rparr>) s))"
    using assms Cons by (intro ok_worker_drop) (simp_all add: wk_items_def)
  ultimately show ?thesis using Cons by (simp add: drain_create_def)
qed

lemma ok_close_worker_connection:
  assumes "server_ok s" "i < length (sv_workers s)" "wk_running (sv_workers s ! i)"
    "k < length (wk_connections (sv_workers s ! i))"
  shows "server_ok (close_worker_connection i k s)"
  unfolding close_worker_connection_def Let_def
  using assms mset_take_drop[OF assms(4)] by (intro ok_worker_drop) (simp_all add: wk_items_def)

lemma ok_close_own_connection:
  assumes "server_ok s" "k < length (sv_connections s)"
  shows "server_ok (close_own_connection k s)"
  unfolding close_own_connection_def Let_def
proof (rule ok_drop)
  let ?t = "s\<lparr>sv_connections := take k (sv_connections s) @ drop (Suc k) (sv_connections s)\<rparr>"
  have "add_mset (sv_connections s ! k) (items ?t) = items s"
    using mset_take_drop[OF assms(2)] by (simp add: items_def)
  then show "accounts (add_mset (sv_connections s ! k) (items ?t)) ?t"
    using assms(1) by (auto simp: server_ok_def intro: accounts_frame)
qed (use assms in \<open>auto simp: server_ok_def limit_kept_def taken_by_running_def intro: fair_frame\<close>)

text \<open>Accepting and handing over. The next worker in turn is the one with the smallest share.\<close>

lemma mod_div_Suc:
  fixes t n :: nat
  assumes "0 < n"
  shows "Suc t mod n = (if Suc (t mod n) = n then 0 else Suc (t mod n))"
    and "Suc t div n = (if Suc (t mod n) = n then Suc (t div n) else t div n)"
  using assms by (simp_all add: mod_Suc div_Suc)

lemma fair_shares_turn:
  assumes "fair_shares k acc" "acc \<noteq> []"
  shows "fair_shares ((k + 1) mod length acc) (acc[k mod length acc := acc ! (k mod length acc) + 1])"
proof -
  let ?n = "length acc"
  obtain t where t: "k = t mod ?n" "\<forall>i < ?n. acc ! i = t div ?n + (if i < t mod ?n then 1 else 0)"
    using assms by (auto simp: fair_shares_def Let_def)
  have n: "0 < ?n" using assms(2) by simp
  have "acc[k mod ?n := acc ! (k mod ?n) + 1] ! i = Suc t div ?n + (if i < Suc t mod ?n then 1 else 0)" if "i < ?n" for i
  proof -
    have "t mod ?n < ?n" using n by simp
    then show ?thesis using that t by (auto simp: nth_list_update mod_div_Suc[OF n])
  qed
  moreover have "(k + 1) mod ?n = Suc t mod ?n" using t(1) by (simp add: mod_Suc_eq)
  ultimately show ?thesis using assms(2) by (auto simp: fair_shares_def Let_def)
qed

lemma ok_dispatch_to_worker:
  assumes "accounts (add_mset p (items s)) s" "limit_kept s" "taken_by_running s" "fair s" "sv_workers s \<noteq> []"
  shows "server_ok (dispatch_to_worker p s)"
proof -
  let ?n = "length (sv_workers s)" and ?f = "\<lambda>w. w\<lparr>wk_pending := wk_pending w @ [p], wk_accepted_count := wk_accepted_count w + 1\<rparr>"
  let ?i = "sv_next_worker s mod ?n" and ?t = "s\<lparr>sv_next_worker := (sv_next_worker s + 1) mod ?n\<rparr>"
  have i: "?i < ?n" using assms(5) by simp
  have d: "dispatch_to_worker p s = update_worker ?i ?f ?t" by (simp add: dispatch_to_worker_def Let_def)
  have "items (update_worker ?i ?f ?t) + wk_items (sv_workers s ! ?i) = items ?t + wk_items (?f (sv_workers s ! ?i))"
    using items_update[of ?i ?t ?f] i by simp
  also have "\<dots> = add_mset p (items s) + wk_items (sv_workers s ! ?i)"
    by (simp add: wk_items_def items_def)
  finally have it: "items (update_worker ?i ?f ?t) = add_mset p (items s)" by simp
  have "map wk_accepted_count (sv_workers (update_worker ?i ?f ?t))
      = (map wk_accepted_count (sv_workers s))[?i := map wk_accepted_count (sv_workers s) ! ?i + 1]"
    using i by (simp add: update_worker_def map_update)
  then have "fair (update_worker ?i ?f ?t)"
    using fair_shares_turn[of "sv_next_worker s" "map wk_accepted_count (sv_workers s)"] assms(4,5)
    by (simp add: fair_def)
  moreover have "taken_by_running (update_worker ?i ?f ?t)"
    using assms(3) i by (intro taken_update) (auto simp: taken_by_running_def)
  moreover have "accounts (items (update_worker ?i ?f ?t)) (update_worker ?i ?f ?t)"
    unfolding it using assms(1) by (rule accounts_frame) simp_all
  ultimately show ?thesis unfolding server_ok_def d using assms(2) by (simp add: limit_kept_def)
qed

lemma ok_dispatch:
  assumes "server_ok s"
  shows "server_ok (dispatch_in_hand created s)"
proof (cases "sv_in_hand s")
  case None
  with assms show ?thesis by (simp add: dispatch_in_hand_def)
next
  case (Some p)
  let ?t = "s\<lparr>sv_in_hand := None\<rparr>" and ?c = "s\<lparr>sv_in_hand := None, sv_connections := sv_connections s @ [p]\<rparr>"
  have it: "items s = add_mset p (items ?t)" "items ?c = items s" using Some by (simp_all add: items_def)
  have t: "accounts (add_mset p (items ?t)) ?t" "limit_kept ?t" "taken_by_running ?t" "fair ?t"
    using assms unfolding server_ok_def it(1)
    by (auto simp: limit_kept_def taken_by_running_def intro: fair_frame accounts_frame)
  moreover have "server_ok ?c"
    using assms unfolding server_ok_def it(2)
    by (auto simp: limit_kept_def taken_by_running_def intro: fair_frame accounts_frame)
  moreover have "sv_workers s \<noteq> [] \<Longrightarrow> server_ok (dispatch_to_worker p ?t)"
    using t by (intro ok_dispatch_to_worker) simp_all
  ultimately show ?thesis
    using Some ok_drop[OF t] by (simp add: dispatch_in_hand_def Let_def)
qed

lemma ok_accept:
  assumes "server_ok s" "sv_in_hand s = None" "fd \<notin> sv_open s"
  shows "server_ok (accept_one fd nonblocking_ok l host port s)"
proof (cases "nonblocking_ok \<and> fst (try_reserve s)")
  case False
  with assms(1) show ?thesis by (auto simp: accept_one_def case_prod_beta)
next
  case True
  let ?p = "\<lparr>pc_fd = fd, pc_listener = l, pc_remote_ip = host, pc_remote_port = port, pc_counted = True\<rparr>"
  let ?t = "s\<lparr>sv_active_connection_count := sv_active_connection_count s + 1, sv_open := insert fd (sv_open s), sv_in_hand := Some ?p\<rparr>"
  have lim: "\<not> (max_connections (sv_config s) > 0 \<and> sv_active_connection_count s \<ge> max_connections (sv_config s))"
    using True by (auto simp: try_reserve_def Let_def split: if_splits)
  then have "try_reserve s = (True, s\<lparr>sv_active_connection_count := sv_active_connection_count s + 1\<rparr>)"
    by (simp only: try_reserve_def Let_def if_False)
  then have e: "accept_one fd nonblocking_ok l host port s = ?t"
    using True by (simp add: accept_one_def)
  have it: "items ?t = add_mset ?p (items s)" using assms(2) by (simp add: items_def)
  have "accounts (add_mset ?p (items s)) ?t"
    using accounts_reserve[of "items s" s fd ?p] assms(1,3) by (auto simp: server_ok_def intro: accounts_frame)
  with assms(1) lim show ?thesis unfolding e server_ok_def it
    by (auto simp: limit_kept_def taken_by_running_def intro: fair_frame)
qed

text \<open>A call of \<^verbatim>\<open>sw_http_listen\<close> changes nothing or adds one listener on a new socket.\<close>

lemma listen_cases:
  assumes "\<And>h p fd port. fst (sw_create_listener_socket g h p (listen_backlog (sv_config s))) = Some (fd, port) \<Longrightarrow> fd \<notin> sv_open s"
  obtains "snd (sw_http_listen g register_ok url s) = s"
  | fd bound where "fd \<notin> sv_open s"
    "snd (sw_http_listen g register_ok url s) = s\<lparr>sv_open := insert fd (sv_open s),
       sv_listeners := sv_listeners s @ [\<lparr>li_fd = fd, li_bound_port = bound\<rparr>]\<rparr>"
proof (cases "sw_parse_listen_url url 256 32")
  case None
  then show ?thesis by (intro that(1)) (simp add: sw_http_listen_def)
next
  case (Some hp)
  obtain h p where hp: "hp = (h, p)" by (cases hp)
  let ?c = "fst (sw_create_listener_socket g (Some h) p (listen_backlog (sv_config s)))"
  show ?thesis
  proof (cases ?c)
    case None
    with Some hp show ?thesis by (intro that(1)) (simp add: sw_http_listen_def)
  next
    case c: (Some fb)
    obtain fd b where fb: "fb = (fd, b)" by (cases fb)
    have fresh: "fd \<notin> sv_open s" using c fb by (intro assms[of "Some h" p fd b]) simp
    show ?thesis
    proof (cases register_ok)
      case True
      with Some hp c fb fresh show ?thesis by (intro that(2)[of fd b]) (simp_all add: sw_http_listen_def Let_def)
    next
      case False
      with Some hp c fb fresh show ?thesis by (intro that(1)) (simp add: sw_http_listen_def Let_def)
    qed
  qed
qed

lemma ok_listen:
  assumes "server_ok s"
    and fresh: "\<And>h p fd port. fst (sw_create_listener_socket g h p (listen_backlog (sv_config s))) = Some (fd, port) \<Longrightarrow> fd \<notin> sv_open s"
  shows "server_ok (snd (sw_http_listen g register_ok url s))"
proof (rule listen_cases[of g s register_ok url, OF fresh])
  assume 1: "snd (sw_http_listen g register_ok url s) = s"
  with assms(1) show ?thesis by (simp only: 1)
next
  fix fd bound
  assume 2: "fd \<notin> sv_open s" "snd (sw_http_listen g register_ok url s) = s\<lparr>sv_open := insert fd (sv_open s),
       sv_listeners := sv_listeners s @ [\<lparr>li_fd = fd, li_bound_port = bound\<rparr>]\<rparr>"
  let ?t = "s\<lparr>sv_open := insert fd (sv_open s), sv_listeners := sv_listeners s @ [\<lparr>li_fd = fd, li_bound_port = bound\<rparr>]\<rparr>"
  have it: "items ?t = items s" by (rule items_frame) simp_all
  have "accounts (items s) ?t" using assms(1) 2(1) by (simp add: server_ok_def accounts_def)
  with assms(1) show ?thesis unfolding 2(2) server_ok_def it
    by (auto simp: limit_kept_def taken_by_running_def intro: fair_frame)
qed

text \<open>Steps that only move threads and flags.\<close>

lemma ok_same:
  assumes "server_ok s" and "sv_config t = sv_config s" "sv_open t = sv_open s" "sv_listeners t = sv_listeners s"
    "sv_active_connection_count t = sv_active_connection_count s" "sv_next_worker t = sv_next_worker s"
    "sv_in_hand t = sv_in_hand s" "sv_connections t = sv_connections s"
    and "map wk_items (sv_workers t) = map wk_items (sv_workers s)"
    and "map wk_accepted_count (sv_workers t) = map wk_accepted_count (sv_workers s)"
    and "taken_by_running t"
  shows "server_ok t"
proof -
  have i: "items t = items s" using assms by (simp only: items_def)
  show ?thesis using assms unfolding server_ok_def i
    by (auto simp: limit_kept_def intro: accounts_frame fair_frame)
qed

lemma ok_stop: "server_ok s \<Longrightarrow> server_ok (sw_server_stop s)"
  by (rule ok_same[of s]) (auto simp: sw_server_stop_def wk_items_def server_ok_def taken_by_running_def)

lemma ok_join: "server_ok s \<Longrightarrow> server_ok (sw_server_join_workers s)"
  by (rule ok_same[of s]) (auto simp: sw_server_join_workers_def wk_items_def server_ok_def taken_by_running_def)

lemma ok_all_left:
  "server_ok s \<Longrightarrow> \<forall>w \<in> set (sv_workers s). wk_taken w = []
   \<Longrightarrow> server_ok (s\<lparr>sv_workers := map (\<lambda>w. w\<lparr>wk_running := False\<rparr>) (sv_workers s)\<rparr>)"
  by (rule ok_same[of s]) (auto simp: wk_items_def taken_by_running_def)

lemma ok_flags:
  "server_ok s \<Longrightarrow> server_ok (s\<lparr>sv_stop_requested := a\<rparr>)"
  "server_ok s \<Longrightarrow> server_ok (s\<lparr>sv_accept_running := a\<rparr>)"
  "server_ok s \<Longrightarrow> server_ok (s\<lparr>sv_accept_thread_started := a\<rparr>)"
  "server_ok s \<Longrightarrow> server_ok (s\<lparr>sv_running_foreground := a\<rparr>)"
  "server_ok s \<Longrightarrow> server_ok (s\<lparr>sv_server_started := a\<rparr>)"
  by (rule ok_same[of s]; simp add: server_ok_def taken_by_running_def)+

lemma ok_worker_left:
  assumes "server_ok s" "i < length (sv_workers s)" "wk_taken (sv_workers s ! i) = []"
  shows "server_ok (update_worker i (\<lambda>w. w\<lparr>wk_running := False\<rparr>) s)"
proof -
  let ?f = "\<lambda>w. w\<lparr>wk_running := False\<rparr>"
  have "items (update_worker i ?f s) = items s" using assms(2) by (intro items_same) (simp_all add: wk_items_def)
  with assms show ?thesis unfolding server_ok_def
    by (auto simp: limit_kept_def intro: accounts_frame fair_update taken_update)
qed

text \<open>Starting adds workers that have nothing yet, and only when there were none.\<close>

definition blank_worker :: "sw_worker \<Rightarrow> bool" where
  "blank_worker w \<longleftrightarrow> wk_items w = {#} \<and> wk_accepted_count w = 0 \<and> wk_taken w = [] \<and> wk_connections w = []"

lemma start_loop_adds:
  "\<exists>ws. snd (start_loop can s) = s\<lparr>sv_workers := sv_workers s @ ws\<rparr> \<and> (\<forall>w \<in> set ws. blank_worker w)"
proof (induction can s rule: start_loop.induct)
  case (1 s)
  show ?case by (intro exI[of _ "[]"]) simp
next
  case (2 mutex_ok mgr_ok thread_ok rest s)
  let ?w = "new_worker\<lparr>wk_mgr := True, wk_thread_started := True, wk_running := True\<rparr>"
  have blank: "blank_worker new_worker" "blank_worker (new_worker\<lparr>wk_mgr := True\<rparr>)" "blank_worker ?w"
    by (simp_all add: blank_worker_def new_worker_def wk_items_def)
  consider "\<not> mutex_ok" | "mutex_ok" "\<not> mgr_ok" | "mutex_ok" "mgr_ok" "\<not> thread_ok" | "mutex_ok" "mgr_ok" "thread_ok"
    by blast
  then show ?case
  proof cases
    case 1
    then show ?thesis by (intro exI[of _ "[]"]) simp
  next
    case 2
    with blank show ?thesis by (intro exI[of _ "[new_worker]"]) simp
  next
    case 3
    with blank show ?thesis by (intro exI[of _ "[new_worker\<lparr>wk_mgr := True\<rparr>]"]) simp
  next
    case 4
    with 2 obtain ws where ih: "snd (start_loop rest (s\<lparr>sv_workers := sv_workers s @ [?w]\<rparr>))
        = s\<lparr>sv_workers := (sv_workers s @ [?w]) @ ws\<rparr>" "\<forall>w \<in> set ws. blank_worker w"
      by auto
    with 4 blank show ?thesis by (intro exI[of _ "?w # ws"]) simp
  qed
qed

lemma start_workers_cases:
  obtains "snd (sw_server_start_workers can s) = s"
  | ws where "sv_workers s = []" "\<forall>w \<in> set ws. blank_worker w" "snd (sw_server_start_workers can s) = s\<lparr>sv_workers := ws\<rparr>"
proof (cases "sv_workers s = []")
  case True
  then obtain ws where "snd (sw_server_start_workers can s) = s\<lparr>sv_workers := ws\<rparr>" "\<forall>w \<in> set ws. blank_worker w"
    using start_loop_adds[of "map can [0..<worker_count (sv_config s)]" s]
    by (auto simp: sw_server_start_workers_def)
  with True that(2) show ?thesis by blast
next
  case False
  then show ?thesis by (intro that(1)) (simp add: sw_server_start_workers_def)
qed

lemma ok_start_workers:
  assumes "server_ok s"
  shows "server_ok (snd (sw_server_start_workers can s))"
proof (rule start_workers_cases[of can s])
  assume "snd (sw_server_start_workers can s) = s"
  with assms show ?thesis by (simp only:)
next
  fix ws
  assume ws: "sv_workers s = []" "\<forall>w \<in> set ws. blank_worker w"
    and e: "snd (sw_server_start_workers can s) = s\<lparr>sv_workers := ws\<rparr>"
  have "sum_list (map wk_items ws) = {#}"
    using ws(2) by (intro sum_list_empty) (simp add: blank_worker_def)
  then have it: "items (s\<lparr>sv_workers := ws\<rparr>) = items s" using ws(1) by (simp add: items_def)
  have "sv_next_worker s = 0" using assms ws(1) by (simp add: server_ok_def fair_def fair_shares_def)
  then have "fair (s\<lparr>sv_workers := ws\<rparr>)"
    using ws(2) by (auto simp: fair_def fair_shares_def blank_worker_def Let_def intro!: exI[of _ 0])
  moreover have "taken_by_running (s\<lparr>sv_workers := ws\<rparr>)"
    using ws(2) by (simp add: taken_by_running_def blank_worker_def)
  ultimately show ?thesis using assms unfolding e server_ok_def it
    by (auto simp: limit_kept_def intro: accounts_frame)
qed

lemma start_workers_taken:
  "\<forall>w \<in> set (sv_workers s). wk_taken w = [] \<Longrightarrow> \<forall>w \<in> set (sv_workers (snd (sw_server_start_workers can s))). wk_taken w = []"
  by (rule start_workers_cases[of can s]) (simp_all add: blank_worker_def)

lemma start_workers_rest:
  "sv_accept_running (snd (sw_server_start_workers can s)) = sv_accept_running s"
  "sv_in_hand (snd (sw_server_start_workers can s)) = sv_in_hand s"
  "sv_workers s \<noteq> [] \<Longrightarrow> sw_server_start_workers can s = (0, s)"
  by (rule start_workers_cases[of can s]; simp)+ (simp add: sw_server_start_workers_def)

lemma ok_start:
  assumes "server_ok s" "accept_thread_ok \<or> (\<forall>w \<in> set (sv_workers s). wk_taken w = [])"
  shows "server_ok (the (snd (sw_server_start can accept_thread_ok (Some s))))"
proof -
  let ?s0 = "s\<lparr>sv_stop_requested := False\<rparr>"
  obtain rc s1 where s1: "sw_server_start_workers can ?s0 = (rc, s1)" by (cases "sw_server_start_workers can ?s0")
  have ok1: "server_ok s1" using ok_start_workers[OF ok_flags(1)[OF assms(1)], of can False] s1 by simp
  have tk: "\<forall>w \<in> set (sv_workers s1). wk_taken w = []" if "\<not> accept_thread_ok"
    using start_workers_taken[of ?s0 can] assms(2) that s1 by simp
  have st: "\<forall>w \<in> set (sv_workers (sw_server_stop s1)). wk_taken w = []" if "\<not> accept_thread_ok"
    using tk[OF that] by (auto simp: sw_server_stop_def)
  have ok3: "server_ok (s1\<lparr>sv_accept_thread_started := True, sv_accept_running := True, sv_server_started := True\<rparr>)"
    using ok1 by (rule ok_same) (use ok1 in \<open>simp_all add: server_ok_def taken_by_running_def\<close>)
  show ?thesis
    using assms(1) ok_stop[OF ok1] ok3 ok_join[OF ok_all_left[OF ok_stop[OF ok1] st]]
    by (simp add: sw_server_start_def Let_def s1)
qed

lemma ok_run_begin:
  assumes "server_ok s"
  shows "server_ok (snd (run_begin can s))"
proof -
  obtain rc s1 where s1: "sw_server_start_workers can (s\<lparr>sv_stop_requested := False\<rparr>) = (rc, s1)"
    by (cases "sw_server_start_workers can (s\<lparr>sv_stop_requested := False\<rparr>)")
  have "server_ok s1" using ok_start_workers[OF ok_flags(1)[OF assms], of can False] s1 by simp
  then show ?thesis using assms ok_stop[of s1] ok_flags(4)[of s1 True]
    by (simp add: run_begin_def Let_def s1)
qed

section \<open>Closing everything\<close>

lemma drop_all_commute:
  "(drop_all ps s)\<lparr>sv_connections := cs\<rparr> = drop_all ps (s\<lparr>sv_connections := cs\<rparr>)"
  "update_worker i f (drop_all ps s) = drop_all ps (update_worker i f s)"
proof -
  have "(drop_connection p s)\<lparr>sv_connections := cs\<rparr> = drop_connection p (s\<lparr>sv_connections := cs\<rparr>)" for p s
    by (simp add: drop_connection_def release_def Let_def)
  then show "(drop_all ps s)\<lparr>sv_connections := cs\<rparr> = drop_all ps (s\<lparr>sv_connections := cs\<rparr>)"
    by (induction ps arbitrary: s) simp_all
  have "update_worker i f (drop_connection p s) = drop_connection p (update_worker i f s)" for p s
    by (simp add: drop_connection_def release_def Let_def update_worker_def)
  then show "update_worker i f (drop_all ps s) = drop_all ps (update_worker i f s)"
    by (induction ps arbitrary: s) simp_all
qed

lemma drop_all_count: "sv_active_connection_count (drop_all ps s) \<le> sv_active_connection_count s"
  by (induction ps arbitrary: s) (simp_all, metis drop_connection_count order.trans)

lemma ok_drop_all:
  assumes "accounts (mset ps + items t) t" "limit_kept t" "taken_by_running t" "fair t"
  shows "server_ok (drop_all ps t)"
proof -
  have i: "items (drop_all ps t) = items t" by (rule items_frame) simp_all
  show ?thesis using assms drop_all_count[of ps t]
    unfolding server_ok_def i
    by (auto simp: limit_kept_def taken_by_running_def intro: accounts_drop_all fair_frame)
qed

lemma ok_close_own:
  assumes "server_ok s"
  shows "server_ok (close_all_own s)" "sv_connections (close_all_own s) = []"
proof -
  let ?t = "s\<lparr>sv_connections := []\<rparr>"
  have "mset (sv_connections s) + items ?t = items s" by (simp add: items_def ac_simps)
  then have "accounts (mset (sv_connections s) + items ?t) ?t" using assms by (simp add: server_ok_def accounts_def)
  then show "server_ok (close_all_own s)" unfolding close_all_own_def drop_all_commute
    using assms by (intro ok_drop_all) (auto simp: server_ok_def limit_kept_def taken_by_running_def intro: fair_frame)
qed (simp add: close_all_own_def)

lemma ok_worker_drop_all:
  assumes "server_ok s" "i < length (sv_workers s)"
    and "mset ps + wk_items (f (sv_workers s ! i)) = wk_items (sv_workers s ! i)"
    and "\<And>w. wk_accepted_count (f w) = wk_accepted_count w"
    and "wk_taken (f (sv_workers s ! i)) = wk_taken (sv_workers s ! i)"
    and "wk_running (f (sv_workers s ! i)) = wk_running (sv_workers s ! i)"
  shows "server_ok (update_worker i f (drop_all ps s))"
  unfolding drop_all_commute
proof (rule ok_drop_all)
  have "mset ps + items (update_worker i f s) + wk_items (f (sv_workers s ! i)) = items s + wk_items (f (sv_workers s ! i))"
    using items_update[OF assms(2), of f] assms(3) by (metis union_assoc union_commute)
  then have "mset ps + items (update_worker i f s) = items s" by simp
  with assms(1) show "accounts (mset ps + items (update_worker i f s)) (update_worker i f s)"
    by (auto simp: server_ok_def intro: accounts_frame)
  have "wk_taken (sv_workers s ! i) \<noteq> [] \<longrightarrow> wk_running (sv_workers s ! i)"
    using assms(1,2) by (simp add: server_ok_def taken_by_running_def)
  then show "taken_by_running (update_worker i f s)"
    using assms by (intro taken_update) (simp_all add: server_ok_def)
qed (use assms in \<open>auto simp: server_ok_def limit_kept_def intro: fair_update\<close>)

text \<open>Both halves of the loop body, and the loop.\<close>

definition close_worker :: "nat \<Rightarrow> sw_server \<Rightarrow> sw_server" where
  "close_worker i s = close_all_of_worker i (sw_worker_clear_pending i s)"

lemma close_worker_workers:
  "sv_workers (close_worker i s) = (sv_workers s)[i := (sv_workers s ! i)\<lparr>wk_pending := [], wk_connections := []\<rparr>]"
  by (cases "i < length (sv_workers s)")
    (simp_all add: close_worker_def close_all_of_worker_def sw_worker_clear_pending_def update_worker_def list_update_beyond)

lemma ok_close_worker:
  assumes "server_ok s" "i < length (sv_workers s)"
  shows "server_ok (close_worker i s)"
proof -
  have 1: "server_ok (sw_worker_clear_pending i s)"
    unfolding sw_worker_clear_pending_def using assms by (intro ok_worker_drop_all) (simp_all add: wk_items_def)
  show ?thesis unfolding close_worker_def close_all_of_worker_def
    using 1 assms(2) by (intro ok_worker_drop_all) (simp_all add: wk_items_def sw_worker_clear_pending_def)
qed

lemma close_workers_loop:
  assumes "server_ok s" "k \<le> length (sv_workers s)"
  shows "server_ok (fold close_worker [0..<k] s)
    \<and> sv_workers (fold close_worker [0..<k] s) =
        map (\<lambda>w. w\<lparr>wk_pending := [], wk_connections := []\<rparr>) (take k (sv_workers s)) @ drop k (sv_workers s)"
  using assms(2)
proof (induction k)
  case (Suc k)
  let ?s = "fold close_worker [0..<k] s" and ?c = "\<lambda>w. w\<lparr>wk_pending := [], wk_connections := []\<rparr>"
  have ih: "server_ok ?s" "sv_workers ?s = map ?c (take k (sv_workers s)) @ drop k (sv_workers s)"
    using Suc by simp_all
  have k: "k < length (sv_workers s)" using Suc.prems by simp
  then have d: "drop k (sv_workers s) = sv_workers s ! k # drop (Suc k) (sv_workers s)" by (simp add: Cons_nth_drop_Suc)
  have "sv_workers (close_worker k ?s) = map ?c (take k (sv_workers s)) @ ?c (sv_workers s ! k) # drop (Suc k) (sv_workers s)"
    using k d by (simp add: close_worker_workers ih(2) nth_append list_update_append)
  moreover have "server_ok (close_worker k ?s)" using ih k by (intro ok_close_worker) simp_all
  ultimately show ?case using k by (simp add: take_Suc_conv_app_nth)
qed (use assms(1) in simp)

lemma close_workers_frame [simp]:
  "sv_config (fold close_worker ks s) = sv_config s" "sv_listeners (fold close_worker ks s) = sv_listeners s"
  "sv_connections (fold close_worker ks s) = sv_connections s" "sv_in_hand (fold close_worker ks s) = sv_in_hand s"
  "sv_stop_requested (fold close_worker ks s) = sv_stop_requested s"
  "sv_accept_thread_started (fold close_worker ks s) = sv_accept_thread_started s"
  "sv_accept_running (fold close_worker ks s) = sv_accept_running s"
  "sv_running_foreground (fold close_worker ks s) = sv_running_foreground s"
  by (induction ks arbitrary: s)
    (simp_all add: close_worker_def close_all_of_worker_def sw_worker_clear_pending_def)

lemma close_all_unfold:
  "sw_server_close_worker_connections s = fold close_worker [0..<length (sv_workers s)] (close_all_own s)"
  unfolding sw_server_close_worker_connections_def close_worker_def ..

lemma ok_close_all:
  assumes "server_ok s"
  shows "server_ok (sw_server_close_worker_connections s)"
    and "sv_connections (sw_server_close_worker_connections s) = []"
    and "sv_workers (sw_server_close_worker_connections s) =
      map (\<lambda>w. w\<lparr>wk_pending := [], wk_connections := []\<rparr>) (sv_workers s)"
  using close_workers_loop[OF ok_close_own(1)[OF assms], of "length (sv_workers s)"]
  unfolding close_all_unfold by (simp_all add: close_all_own_def)

lemma close_all_frame [simp]:
  "sv_config (sw_server_close_worker_connections s) = sv_config s"
  "sv_listeners (sw_server_close_worker_connections s) = sv_listeners s"
  "sv_in_hand (sw_server_close_worker_connections s) = sv_in_hand s"
  "sv_stop_requested (sw_server_close_worker_connections s) = sv_stop_requested s"
  "sv_accept_thread_started (sw_server_close_worker_connections s) = sv_accept_thread_started s"
  "sv_accept_running (sw_server_close_worker_connections s) = sv_accept_running s"
  "sv_running_foreground (sw_server_close_worker_connections s) = sv_running_foreground s"
  by (simp_all add: close_all_unfold close_all_own_def)

lemma stop_join_frame [simp]:
  "sv_listeners (sw_server_stop s) = sv_listeners s" "sv_in_hand (sw_server_stop s) = sv_in_hand s"
  "sv_accept_thread_started (sw_server_stop s) = sv_accept_thread_started s"
  "sv_accept_running (sw_server_stop s) = sv_accept_running s" "sv_config (sw_server_stop s) = sv_config s"
  "sv_running_foreground (sw_server_stop s) = sv_running_foreground s"
  "map wk_running (sv_workers (sw_server_stop s)) = map wk_running (sv_workers s)"
  "map wk_taken (sv_workers (sw_server_stop s)) = map wk_taken (sv_workers s)"
  "sv_listeners (sw_server_join_workers s) = sv_listeners s" "sv_in_hand (sw_server_join_workers s) = sv_in_hand s"
  "sv_accept_thread_started (sw_server_join_workers s) = sv_accept_thread_started s"
  "sv_accept_running (sw_server_join_workers s) = sv_accept_running s"
  "sv_config (sw_server_join_workers s) = sv_config s"
  "sv_running_foreground (sw_server_join_workers s) = sv_running_foreground s"
  "map wk_running (sv_workers (sw_server_join_workers s)) = map wk_running (sv_workers s)"
  "map wk_taken (sv_workers (sw_server_join_workers s)) = map wk_taken (sv_workers s)"
  by (simp_all add: sw_server_stop_def sw_server_join_workers_def)

text \<open>What waiting leaves: nobody has a connection, only the listeners are open.\<close>

definition idle :: "sw_server \<Rightarrow> bool" where
  "idle s \<longleftrightarrow> (\<forall>w \<in> set (sv_workers s). \<not> wk_running w \<and> wk_taken w = [] \<and> wk_connections w = [])"

definition quiet :: "sw_server \<Rightarrow> bool" where
  "quiet s \<longleftrightarrow> sv_in_hand s = None \<and> sv_connections s = [] \<and> idle s \<and> (\<forall>w \<in> set (sv_workers s). wk_pending w = [])"

lemma quiet_items: "quiet s \<Longrightarrow> items s = {#}"
proof -
  assume q: "quiet s"
  then have "\<forall>w \<in> set (sv_workers s). wk_items w = {#}" by (auto simp: quiet_def idle_def wk_items_def)
  then have "sum_list (map wk_items (sv_workers s)) = {#}" by (rule sum_list_empty)
  with q show ?thesis by (simp add: items_def quiet_def)
qed

lemma quiet_open:
  assumes "server_ok s" "quiet s"
  shows "sv_active_connection_count s = 0" "sv_open s = li_fd ` set (sv_listeners s)" "distinct (map li_fd (sv_listeners s))"
proof -
  have a: "accounts {#} s" using assms quiet_items by (simp add: server_ok_def)
  then show "sv_active_connection_count s = 0" by (simp add: accounts_def)
  have m: "mset (map li_fd (sv_listeners s)) = mset_set (sv_open s)" "finite (sv_open s)"
    using a by (simp_all add: accounts_def)
  show "sv_open s = li_fd ` set (sv_listeners s)" "distinct (map li_fd (sv_listeners s))"
    using distinct_if_mset_set[OF m] by simp_all
qed

lemma closing_quiets:
  assumes "server_ok s" "no_threads s"
  shows "server_ok (sw_server_close_worker_connections s)" "quiet (sw_server_close_worker_connections s)"
proof -
  show "server_ok (sw_server_close_worker_connections s)" by (rule ok_close_all(1)[OF assms(1)])
  have "\<forall>w \<in> set (sv_workers s). \<not> wk_running w \<and> wk_taken w = []"
    using assms by (auto simp: no_threads_def server_ok_def taken_by_running_def)
  then show "quiet (sw_server_close_worker_connections s)"
    using assms ok_close_all[OF assms(1)] by (auto simp: quiet_def idle_def no_threads_def)
qed

lemma no_threads_frame:
  "no_threads s \<Longrightarrow> no_threads (sw_server_stop s)" "no_threads s \<Longrightarrow> no_threads (sw_server_join_workers s)"
  by (auto simp: no_threads_def sw_server_stop_def sw_server_join_workers_def)

definition wait_core :: "sw_server \<Rightarrow> sw_server" where
  "wait_core s = sw_server_close_worker_connections (sw_server_join_workers (sw_server_stop
     (if sv_accept_thread_started s then s\<lparr>sv_accept_thread_started := False\<rparr> else s)))"

lemma wait_unfold: "sw_server_wait (Some s) = (0, Some ((wait_core s)\<lparr>sv_server_started := False\<rparr>))"
  by (simp add: sw_server_wait_def wait_core_def Let_def)

lemma ok_wait:
  assumes "server_ok s" "no_threads s"
  shows "server_ok ((wait_core s)\<lparr>sv_server_started := False\<rparr>)" "quiet ((wait_core s)\<lparr>sv_server_started := False\<rparr>)"
    "no_threads ((wait_core s)\<lparr>sv_server_started := False\<rparr>)"
    "sv_listeners ((wait_core s)\<lparr>sv_server_started := False\<rparr>) = sv_listeners s"
proof -
  let ?s = "if sv_accept_thread_started s then s\<lparr>sv_accept_thread_started := False\<rparr> else s"
  have "server_ok ?s" "no_threads ?s" using assms ok_flags(3)[of s False] by (auto simp: no_threads_def)
  then have j: "server_ok (sw_server_join_workers (sw_server_stop ?s))" "no_threads (sw_server_join_workers (sw_server_stop ?s))"
    by (simp_all add: ok_join ok_stop no_threads_frame)
  note c = closing_quiets[OF j]
  show "server_ok ((wait_core s)\<lparr>sv_server_started := False\<rparr>)" using ok_flags(5)[OF c(1)] by (simp add: wait_core_def)
  show "quiet ((wait_core s)\<lparr>sv_server_started := False\<rparr>)" using c(2) by (simp add: wait_core_def quiet_def idle_def)
  show "no_threads ((wait_core s)\<lparr>sv_server_started := False\<rparr>)"
    using c(2) j(2) by (auto simp: wait_core_def no_threads_def quiet_def idle_def)
  show "sv_listeners ((wait_core s)\<lparr>sv_server_started := False\<rparr>) = sv_listeners s" by (simp add: wait_core_def)
qed

section \<open>Reachable states\<close>

lemma ok_create: "server_ok (sw_server_create config)"
  by (simp add: server_ok_def sw_server_create_def accounts_def items_def limit_kept_def taken_by_running_def
      fair_def fair_shares_def)

lemma step_ok: "server_step s s' \<Longrightarrow> server_ok s \<Longrightarrow> server_ok s'"
proof (induction rule: server_step.induct)
  case (waited s)
  then show ?case using ok_wait(1) by (simp add: wait_unfold)
next
  case (run_finished s)
  then show ?case unfolding run_finish_def by (intro closing_quiets(1) ok_join no_threads_frame)
next
  case (run_left s)
  then show ?case unfolding run_leave_def by (intro ok_stop ok_flags)
next
  case (accept_left s)
  then show ?case by (intro ok_stop ok_flags)
next
  case (started s accept_thread_ok can)
  then show ?case by (intro ok_start)
qed (simp_all add: ok_accept ok_dispatch ok_drain_take ok_drain_create ok_close_worker_connection
    ok_close_own_connection ok_stop ok_flags ok_worker_left ok_run_begin ok_listen)

lemma reachable_ok: "server_step\<^sup>*\<^sup>* (sw_server_create config) s \<Longrightarrow> server_ok s"
  by (induction rule: rtranclp_induct) (simp_all add: ok_create step_ok)

lemma start_config: "sv_config (snd (sw_server_start_workers can s)) = sv_config s"
  by (rule start_workers_cases[of can s]) simp_all

lemma step_config: "server_step s s' \<Longrightarrow> sv_config s' = sv_config s"
proof (induction rule: server_step.induct)
  case (listened g s register_ok url)
  then show ?case by (rule listen_cases[of g s register_ok url]) simp_all
next
  case (started s ok can)
  obtain rc s1 where s1: "sw_server_start_workers can (s\<lparr>sv_stop_requested := False\<rparr>) = (rc, s1)"
    by (cases "sw_server_start_workers can (s\<lparr>sv_stop_requested := False\<rparr>)")
  then have "sv_config s1 = sv_config s" using start_config[of can "s\<lparr>sv_stop_requested := False\<rparr>"] by simp
  with s1 show ?case by (simp add: sw_server_start_def Let_def)
next
  case (run_entered s can)
  obtain rc s1 where s1: "sw_server_start_workers can (s\<lparr>sv_stop_requested := False\<rparr>) = (rc, s1)"
    by (cases "sw_server_start_workers can (s\<lparr>sv_stop_requested := False\<rparr>)")
  then have "sv_config s1 = sv_config s" using start_config[of can "s\<lparr>sv_stop_requested := False\<rparr>"] by simp
  with s1 show ?case by (simp add: run_begin_def Let_def)
qed (simp_all add: accept_one_def try_reserve_def dispatch_in_hand_def dispatch_to_worker_def drain_take_def
    drain_create_def close_worker_connection_def close_own_connection_def run_leave_def run_finish_def
    wait_unfold wait_core_def Let_def split: option.split list.split)

lemma reachable_config: "server_step\<^sup>*\<^sup>* (sw_server_create config) s \<Longrightarrow> sv_config s = merge_config config"
  by (induction rule: rtranclp_induct) (simp_all add: sw_server_create_def step_config)

lemma merged_limit: "0 < max_connections (merge_config config)"
  by (simp add: merge_config_def sw_server_config_default_def Let_def split: option.split)

lemma fair_difference:
  assumes "fair_shares k acc" "i < length acc" "j < length acc"
  shows "acc ! i \<le> acc ! j + 1"
proof -
  have "length acc \<noteq> 0" using assms(2) by linarith
  with assms(1) obtain t where "\<forall>i < length acc. acc ! i = t div length acc + (if i < t mod length acc then 1 else 0)"
    unfolding fair_shares_def Let_def by (simp only: if_False) blast
  with assms(2,3) show ?thesis by simp
qed

text \<open>
  C13. In every state a server can reach, whatever order its threads act in, every open socket belongs
  to exactly one listener or connection, accepted, queued, taken or open; the number the server
  reports is the number of connections it counts; the limit on connections is kept; and no worker
  has been handed more than one connection more than another.
\<close>

theorem server_books:
  assumes "server_step\<^sup>*\<^sup>* (sw_server_create config) s"
  shows "image_mset pc_fd (items s) + image_mset li_fd (mset (sv_listeners s)) = mset_set (sv_open s)
    \<and> sw_server_open_connections (Some s) = size (filter_mset pc_counted (items s))
    \<and> sw_server_open_connections (Some s) \<le> max_connections (merge_config config)
    \<and> (\<forall>i < sw_server_worker_count (Some s). \<forall>j < sw_server_worker_count (Some s).
       sw_server_worker_accepted_connections (Some s) i \<le> sw_server_worker_accepted_connections (Some s) j + 1)"
proof -
  have ok: "server_ok s" using assms by (rule reachable_ok)
  then have f: "fair_shares (sv_next_worker s) (map wk_accepted_count (sv_workers s))" by (simp add: server_ok_def fair_def)
  have "wk_accepted_count (sv_workers s ! i) \<le> wk_accepted_count (sv_workers s ! j) + 1"
    if "i < length (sv_workers s)" "j < length (sv_workers s)" for i j
    using fair_difference[OF f, of i j] that by simp
  with ok merged_limit[of config] reachable_config[OF assms] show ?thesis
    by (simp add: server_ok_def accounts_def limit_kept_def sw_server_open_connections_def
        sw_server_worker_count_def sw_server_worker_accepted_connections_def)
qed

text \<open>A server with one worker that has accepted a connection and handed it over.\<close>

definition all_can :: "nat \<Rightarrow> bool \<times> bool \<times> bool" where
  "all_can i = (True, True, True)"

definition running_server :: sw_server where
  "running_server = the (snd (sw_server_start all_can True (Some (sw_server_create None))))"

definition serving_server :: sw_server where
  "serving_server = dispatch_in_hand True (accept_one 7 True 0 ''::1'' 4000 running_server)"

lemma default_counts: "worker_count (merge_config None) = 1" "max_connections (merge_config None) = 16384"
  by (simp_all add: merge_config_def sw_server_config_default_def)

lemma running_server_is:
  "running_server = (sw_server_create None)\<lparr>
     sv_workers := [new_worker\<lparr>wk_mgr := True, wk_thread_started := True, wk_running := True\<rparr>],
     sv_accept_thread_started := True, sv_accept_running := True, sv_server_started := True\<rparr>"
  by (simp add: running_server_def sw_server_start_def sw_server_create_def sw_server_start_workers_def
      default_counts all_can_def)

lemma serving_server_is:
  "serving_server = (sw_server_create None)\<lparr>
     sv_workers := [new_worker\<lparr>wk_mgr := True, wk_thread_started := True, wk_running := True,
       wk_pending := [\<lparr>pc_fd = 7, pc_listener = 0, pc_remote_ip = ''::1'', pc_remote_port = 4000, pc_counted = True\<rparr>],
       wk_accepted_count := 1\<rparr>],
     sv_active_connection_count := 1, sv_open := {7},
     sv_accept_thread_started := True, sv_accept_running := True, sv_server_started := True\<rparr>"
  by (simp add: serving_server_def running_server_is accept_one_def try_reserve_def dispatch_in_hand_def
      dispatch_to_worker_def sw_server_create_def update_worker_def new_worker_def default_counts)

lemma serving_reachable:
  "server_step\<^sup>*\<^sup>* (sw_server_create None) running_server" "server_step\<^sup>*\<^sup>* running_server serving_server"
proof -
  have "server_step (sw_server_create None) running_server" unfolding running_server_def
    by (rule started) (simp_all add: sw_server_create_def)
  then show "server_step\<^sup>*\<^sup>* (sw_server_create None) running_server" by simp
  have "server_step running_server (accept_one 7 True 0 ''::1'' 4000 running_server)"
    by (rule accepted) (simp_all add: running_server_is sw_server_create_def)
  then show "server_step\<^sup>*\<^sup>* running_server serving_server"
    unfolding serving_server_def using dispatched by (meson converse_rtranclp_into_rtranclp r_into_rtranclp)
qed

theorem server_books_witness:
  "sw_server_open_connections (Some serving_server) = 1
   \<and> 1 \<le> max_connections (merge_config None)
   \<and> sw_server_worker_accepted_connections (Some serving_server) 0 \<le> 1 + 1"
  using server_books[of None serving_server] rtranclp_trans[OF serving_reachable]
  by (simp add: sw_server_open_connections_def sw_server_worker_accepted_connections_def serving_server_is)

section \<open>Waiting and destroying\<close>

lemma close_listeners_open:
  "sv_open (close_listeners ls s) = sv_open s - li_fd ` set ls" "sv_listeners (close_listeners ls s) = []"
  by (induction ls arbitrary: s) auto

text \<open>
  C14. Waiting releases everything. Once the threads of a server have returned,
  \<^verbatim>\<open>sw_server_wait\<close> succeeds and leaves no connection: the count is zero, no worker has one, and of all sockets only
  those of the listeners are open, each listed once. Destroying the server closes these too.
\<close>

theorem wait_releases_everything:
  assumes "server_step\<^sup>*\<^sup>* (sw_server_create config) s" "no_threads s" "sw_server_wait (Some s) = (rc, Some t)"
  shows "rc = 0 \<and> sw_server_open_connections (Some t) = 0
    \<and> (\<forall>i. sw_server_worker_open_connections (Some t) i = 0)
    \<and> sv_open t = li_fd ` set (sv_listeners s) \<and> distinct (map li_fd (sv_listeners s))
    \<and> sv_open (sw_server_destroy s) = {}"
proof -
  have ok: "server_ok s" by (rule reachable_ok[OF assms(1)])
  have t: "rc = 0" "t = (wait_core s)\<lparr>sv_server_started := False\<rparr>" using assms(3) by (simp_all add: wait_unfold)
  note w = ok_wait[OF ok assms(2), folded t(2)]
  note o = quiet_open[OF w(1,2)]
  let ?d = "(wait_core (sw_server_stop s))\<lparr>sv_server_started := False\<rparr>"
  let ?c = "(sw_server_close_worker_connections ?d)\<lparr>sv_workers := []\<rparr>"
  note v = ok_wait[OF ok_stop[OF ok] no_threads_frame(1)[OF assms(2)]]
  note c = closing_quiets[OF v(1,3)]
  have "sv_open (sw_server_destroy s) = sv_open ?c - li_fd ` set (sv_listeners ?c)"
    by (simp add: sw_server_destroy_def wait_unfold close_listeners_open Let_def)
  then have "sv_open (sw_server_destroy s) = {}" using quiet_open(2)[OF c] by simp
  moreover have "\<forall>i. sw_server_worker_open_connections (Some t) i = 0"
    using w(2) by (auto simp: quiet_def idle_def sw_server_worker_open_connections_def)
  ultimately show ?thesis using o t(1) w(4) by (simp add: sw_server_open_connections_def)
qed

text \<open>The serving server, asked to stop; its threads have seen it, the connection is still queued.\<close>

definition stopped_server :: sw_server where
  "stopped_server = sw_server_stop ((update_worker 0 (\<lambda>w. w\<lparr>wk_running := False\<rparr>) (sw_server_stop serving_server))\<lparr>sv_accept_running := False\<rparr>)"

lemma stopped_server_is:
  "stopped_server = (sw_server_create None)\<lparr>sv_stop_requested := True,
     sv_workers := [new_worker\<lparr>wk_mgr := True, wk_mgr_stop_requested := True, wk_thread_started := True,
       wk_pending := [\<lparr>pc_fd = 7, pc_listener = 0, pc_remote_ip = ''::1'', pc_remote_port = 4000, pc_counted = True\<rparr>],
       wk_accepted_count := 1\<rparr>],
     sv_active_connection_count := 1, sv_open := {7},
     sv_accept_thread_started := True, sv_server_started := True\<rparr>"
  by (simp add: stopped_server_def sw_server_stop_def update_worker_def serving_server_is sw_server_create_def new_worker_def)

lemma stopped_reachable: "server_step\<^sup>*\<^sup>* (sw_server_create None) stopped_server"
proof -
  let ?a = "sw_server_stop serving_server" and ?b = "update_worker 0 (\<lambda>w. w\<lparr>wk_running := False\<rparr>) (sw_server_stop serving_server)"
  have "server_step serving_server ?a" by (rule stopped)
  moreover have "server_step ?a ?b"
    by (rule worker_left) (simp_all add: sw_server_stop_def serving_server_is new_worker_def)
  moreover have "server_step ?b stopped_server" unfolding stopped_server_def
    by (rule accept_left) (simp_all add: sw_server_stop_def serving_server_is sw_server_create_def)
  ultimately have "server_step\<^sup>*\<^sup>* serving_server stopped_server"
    by (meson converse_rtranclp_into_rtranclp r_into_rtranclp)
  with serving_reachable show ?thesis by (meson rtranclp_trans)
qed

lemma stopped_no_threads: "no_threads stopped_server"
  by (simp add: no_threads_def stopped_server_is sw_server_create_def new_worker_def)

theorem wait_releases_everything_witness:
  "sw_server_open_connections (Some stopped_server) = 1
   \<and> sw_server_open_connections (snd (sw_server_wait (Some stopped_server))) = 0
   \<and> sv_open (sw_server_destroy stopped_server) = {}"
  using wait_releases_everything[OF stopped_reachable stopped_no_threads wait_unfold]
  by (simp add: wait_unfold) (simp add: stopped_server_is sw_server_open_connections_def)

section \<open>A server that is started again\<close>

text \<open>A server with workers none of which runs or has a connection stays that way.\<close>

definition deserted :: "sw_server \<Rightarrow> bool" where
  "deserted s \<longleftrightarrow> sv_workers s \<noteq> [] \<and> idle s \<and> sv_connections s = []"

lemma deserted_frame:
  "deserted s \<Longrightarrow> sv_workers t = sv_workers s \<Longrightarrow> sv_connections t = sv_connections s \<Longrightarrow> deserted t"
  by (auto simp: deserted_def idle_def)

lemma deserted_stop: "deserted s \<Longrightarrow> deserted (sw_server_stop s)"
  by (auto simp: deserted_def idle_def sw_server_stop_def)

lemma deserted_join: "deserted s \<Longrightarrow> deserted (sw_server_join_workers s)"
  by (auto simp: deserted_def idle_def sw_server_join_workers_def)

lemma deserted_all_left: "deserted s \<Longrightarrow> deserted (s\<lparr>sv_workers := map (\<lambda>w. w\<lparr>wk_running := False\<rparr>) (sv_workers s)\<rparr>)"
  by (auto simp: deserted_def idle_def)

lemma deserted_close: "server_ok s \<Longrightarrow> deserted s \<Longrightarrow> deserted (sw_server_close_worker_connections s)"
  using ok_close_all[of s] by (auto simp: deserted_def idle_def)

lemma deserted_running: "deserted s \<Longrightarrow> i < length (sv_workers s) \<Longrightarrow> \<not> wk_running (sv_workers s ! i)"
  by (simp add: deserted_def idle_def)

lemma deserted_update:
  assumes "deserted s" "i < length (sv_workers s)"
    and "\<not> wk_running (f (sv_workers s ! i)) \<and> wk_taken (f (sv_workers s ! i)) = [] \<and> wk_connections (f (sv_workers s ! i)) = []"
  shows "deserted (update_worker i f s)"
  using assms unfolding deserted_def idle_def
  by (auto simp: workers_update update_worker_def in_set_conv_nth nth_list_update split: if_splits)

lemma deserted_dispatch:
  assumes "deserted s"
  shows "deserted (dispatch_in_hand created s)"
proof (cases "sv_in_hand s")
  case None
  with assms show ?thesis by (simp add: dispatch_in_hand_def)
next
  case (Some p)
  let ?n = "length (sv_workers s)"
  let ?f = "\<lambda>w. w\<lparr>wk_pending := wk_pending w @ [p], wk_accepted_count := wk_accepted_count w + 1\<rparr>"
  let ?t = "s\<lparr>sv_in_hand := None, sv_next_worker := (sv_next_worker s + 1) mod ?n\<rparr>"
  have n: "sv_workers s \<noteq> []" using assms by (simp add: deserted_def)
  then have d: "dispatch_in_hand created s = update_worker (sv_next_worker s mod ?n) ?f ?t"
    using Some by (simp add: dispatch_in_hand_def dispatch_to_worker_def Let_def)
  have "\<not> wk_running w \<and> wk_taken w = [] \<and> wk_connections w = []" if "w \<in> set (sv_workers s)" for w
    using assms that by (simp add: deserted_def idle_def)
  then show ?thesis unfolding d using n
    by (intro deserted_update deserted_frame[OF assms]) simp_all
qed

lemma step_deserted: "server_step s s' \<Longrightarrow> server_ok s \<Longrightarrow> deserted s \<Longrightarrow> deserted s'"
proof (induction rule: server_step.induct)
  case (listened g s register_ok url)
  show ?case by (rule listen_cases[where register_ok = register_ok and url = url, OF listened(1)]) (auto intro: deserted_frame[OF listened(3)])
next
  case (accepted s fd ok l host port)
  show ?case by (rule deserted_frame[OF accepted(4)]) (simp_all add: accept_one_def try_reserve_def Let_def)
next
  case (worker_left i s)
  then show ?case using deserted_running[of s i]
    by (intro deserted_update) (simp_all add: deserted_def idle_def)
next
  case (started s ok can)
  then have "sw_server_start_workers can (s\<lparr>sv_stop_requested := False\<rparr>) = (0, s\<lparr>sv_stop_requested := False\<rparr>)"
    by (intro start_workers_rest) (simp add: deserted_def)
  moreover have "deserted (s\<lparr>sv_stop_requested := False\<rparr>)" by (rule deserted_frame[OF started(4)]) simp_all
  then have "deserted (sw_server_join_workers ((sw_server_stop (s\<lparr>sv_stop_requested := False\<rparr>))\<lparr>sv_workers :=
      map (\<lambda>w. w\<lparr>wk_running := False\<rparr>) (sv_workers (sw_server_stop (s\<lparr>sv_stop_requested := False\<rparr>)))\<rparr>))"
    by (intro deserted_join deserted_all_left deserted_stop)
  moreover have "deserted (s\<lparr>sv_stop_requested := False, sv_accept_thread_started := True, sv_accept_running := True, sv_server_started := True\<rparr>)"
    by (rule deserted_frame[OF started(4)]) simp_all
  ultimately show ?case using started(4) by (simp add: sw_server_start_def Let_def)
next
  case (run_entered s can)
  then have "sw_server_start_workers can (s\<lparr>sv_stop_requested := False\<rparr>) = (0, s\<lparr>sv_stop_requested := False\<rparr>)"
    by (intro start_workers_rest) (simp add: deserted_def)
  then show ?case by (intro deserted_frame[OF run_entered(3)]) (simp_all add: run_begin_def)
next
  case (run_left s)
  then show ?case unfolding run_leave_def by (intro deserted_stop deserted_frame[OF run_left(4)]) simp_all
next
  case (accept_left s)
  show ?case by (intro deserted_stop deserted_frame[OF accept_left(5)]) simp_all
next
  case (run_finished s)
  then show ?case unfolding run_finish_def by (intro deserted_close ok_join deserted_join)
next
  case (waited s)
  let ?s = "if sv_accept_thread_started s then s\<lparr>sv_accept_thread_started := False\<rparr> else s"
  have "server_ok ?s" "deserted ?s" using waited ok_flags(3)[of s False] by (auto intro: deserted_frame)
  then have "deserted (wait_core s)" unfolding wait_core_def
    by (intro deserted_close ok_join ok_stop deserted_join deserted_stop)
  then show ?case unfolding wait_unfold by (simp add: deserted_def idle_def)
next
  case (poll_failed s)
  show ?case by (rule deserted_frame[OF poll_failed(2)]) simp_all
next
  case (dispatched s created)
  then show ?case by (intro deserted_dispatch)
next
  case (stopped s)
  then show ?case by (intro deserted_stop)
qed (use deserted_running in \<open>auto simp: deserted_def\<close>)

text \<open>
  C36. A server that was started, stopped and waited for cannot be used again, although
  \<^verbatim>\<open>sw_server_start\<close> says so: it starts the accept thread but no worker, since the workers of the
  first run are still there. Whatever happens from then on, no worker ever runs or serves a
  connection; what is accepted stays in a queue until the server is waited for again.
\<close>

theorem restarted_server_serves_nobody:
  assumes "server_step\<^sup>*\<^sup>* (sw_server_create config) s" "no_threads s" "sv_workers s \<noteq> []"
    and "sw_server_wait (Some s) = (rc, Some t)"
  shows "fst (sw_server_start can True (Some t)) = 0
    \<and> sv_accept_running (the (snd (sw_server_start can True (Some t))))
    \<and> (\<forall>u. server_step\<^sup>*\<^sup>* (the (snd (sw_server_start can True (Some t)))) u \<longrightarrow>
        (\<forall>w \<in> set (sv_workers u). \<not> wk_running w \<and> wk_connections w = []) \<and> sv_connections u = [])"
proof -
  have t: "t = (wait_core s)\<lparr>sv_server_started := False\<rparr>" using assms(4) by (simp add: wait_unfold)
  note w = ok_wait[OF reachable_ok[OF assms(1)] assms(2), folded t]
  have ne: "sv_workers t \<noteq> []"
    using assms(3) ok_close_all(3)[OF ok_join[OF ok_stop[OF ok_flags(3)[OF reachable_ok[OF assms(1)]]]]]
      ok_close_all(3)[OF ok_join[OF ok_stop[OF reachable_ok[OF assms(1)]]]]
    by (simp add: t wait_core_def sw_server_stop_def sw_server_join_workers_def)
  have des: "deserted t" using w(2) ne by (simp add: deserted_def quiet_def)
  have sw: "sw_server_start_workers can (t\<lparr>sv_stop_requested := False\<rparr>) = (0, t\<lparr>sv_stop_requested := False\<rparr>)"
    using ne by (intro start_workers_rest) simp
  have fl: "\<not> sv_accept_thread_started t" "\<not> sv_running_foreground t"
    using assms(2) by (simp_all add: t wait_core_def no_threads_def)
  let ?u = "the (snd (sw_server_start can True (Some t)))"
  have st: "fst (sw_server_start can True (Some t)) = 0" "sv_accept_running ?u"
    using fl by (simp_all add: sw_server_start_def sw)
  have "server_step t ?u" using w(3) by (intro started) (simp_all add: no_threads_def)
  then have u: "server_ok ?u" "deserted ?u" using w(1) des by (auto intro: step_ok step_deserted)
  have "server_ok v \<and> deserted v" if "server_step\<^sup>*\<^sup>* ?u v" for v
    using that by (induction rule: rtranclp_induct) (use u in \<open>auto intro: step_ok step_deserted\<close>)
  then show ?thesis using st by (simp add: deserted_def idle_def)
qed

text \<open>The stopped server, waited for and started again, accepts a connection.\<close>

definition restarted_server :: sw_server where
  "restarted_server = the (snd (sw_server_start all_can True (snd (sw_server_wait (Some stopped_server)))))"

definition deserted_connection :: sw_server where
  "deserted_connection = dispatch_in_hand True (accept_one 8 True 0 ''::1'' 4001 restarted_server)"

lemma waited_server_is:
  "snd (sw_server_wait (Some stopped_server)) = Some ((sw_server_create None)\<lparr>sv_stop_requested := True,
     sv_workers := [new_worker\<lparr>wk_mgr := True, wk_mgr_stop_requested := True, wk_accepted_count := 1\<rparr>]\<rparr>)"
  by (simp add: sw_server_wait_def stopped_server_is sw_server_create_def sw_server_stop_def new_worker_def
      sw_server_join_workers_def sw_server_close_worker_connections_def close_all_own_def close_all_of_worker_def
      sw_worker_clear_pending_def update_worker_def drop_connection_def release_def)

lemma restarted_server_is:
  "restarted_server = (sw_server_create None)\<lparr>
     sv_workers := [new_worker\<lparr>wk_mgr := True, wk_mgr_stop_requested := True, wk_accepted_count := 1\<rparr>],
     sv_accept_thread_started := True, sv_accept_running := True, sv_server_started := True\<rparr>"
  by (simp add: restarted_server_def waited_server_is sw_server_start_def sw_server_create_def sw_server_start_workers_def)

lemma deserted_connection_is:
  "deserted_connection = (sw_server_create None)\<lparr>
     sv_workers := [new_worker\<lparr>wk_mgr := True, wk_mgr_stop_requested := True, wk_accepted_count := 2,
       wk_pending := [\<lparr>pc_fd = 8, pc_listener = 0, pc_remote_ip = ''::1'', pc_remote_port = 4001, pc_counted = True\<rparr>]\<rparr>],
     sv_active_connection_count := 1, sv_open := {8},
     sv_accept_thread_started := True, sv_accept_running := True, sv_server_started := True\<rparr>"
  by (simp add: deserted_connection_def restarted_server_is accept_one_def try_reserve_def dispatch_in_hand_def
      dispatch_to_worker_def sw_server_create_def update_worker_def new_worker_def default_counts)

theorem restarted_server_serves_nobody_witness:
  "fst (sw_server_start all_can True (snd (sw_server_wait (Some stopped_server)))) = 0
   \<and> sw_server_open_connections (Some deserted_connection) = 1
   \<and> \<not> wk_running (sv_workers deserted_connection ! 0) \<and> wk_connections (sv_workers deserted_connection ! 0) = []"
proof -
  let ?t = "the (snd (sw_server_wait (Some stopped_server)))"
  have t: "sw_server_wait (Some stopped_server) = (0, Some ?t)" by (simp add: wait_unfold)
  have ne: "sv_workers stopped_server \<noteq> []" by (simp add: stopped_server_is)
  note r = restarted_server_serves_nobody[OF stopped_reachable stopped_no_threads ne t, of all_can]
  have e: "the (snd (sw_server_start all_can True (Some ?t))) = restarted_server"
    by (simp only: restarted_server_def wait_unfold snd_conv option.sel)
  have "server_step restarted_server (accept_one 8 True 0 ''::1'' 4001 restarted_server)"
    by (rule accepted) (simp_all add: restarted_server_is sw_server_create_def)
  then have "server_step\<^sup>*\<^sup>* restarted_server deserted_connection"
    unfolding deserted_connection_def using dispatched by (meson converse_rtranclp_into_rtranclp r_into_rtranclp)
  then have "\<forall>w \<in> set (sv_workers deserted_connection). \<not> wk_running w \<and> wk_connections w = []"
    using conjunct2[OF conjunct2[OF r]] unfolding e by blast
  then have "\<not> wk_running (sv_workers deserted_connection ! 0) \<and> wk_connections (sv_workers deserted_connection ! 0) = []"
    by (simp add: deserted_connection_is)
  moreover have "sw_server_open_connections (Some deserted_connection) = 1"
    by (simp add: deserted_connection_is sw_server_open_connections_def)
  moreover have "fst (sw_server_start all_can True (snd (sw_server_wait (Some stopped_server)))) = 0"
    using conjunct1[OF r] by (simp only: wait_unfold snd_conv option.sel)
  ultimately show ?thesis by blast
qed

end
