(* ===== verification/Tls.thy ===== *)
theory Tls
  imports Server
begin

text \<open>
  The TLS transport of \<^verbatim>\<open>src/src/sw_server.c\<close>, compiled with \<^verbatim>\<open>SYPHAX_WEB_HAS_TLS\<close>: the context of a
  listener, the handshake, reading and writing through OpenSSL, and the events a connection waits
  for. OpenSSL is a parameter: the answers of its calls are functions of its own state, whose type
  is left open. A connection is the object of \<open>Connection\<close> with its TLS fields beside it.

  Readable and writable are modelled up to the point where the transport hands over to the event loop:
  which loop is taken up, and one round of each loop. What the event loop does with the bytes
  (\<^verbatim>\<open>sw_connection_process_input\<close>, \<^verbatim>\<open>sw_connection_finish_response\<close>, the file buffer, a refusal) is modelled
  in \<open>Manager\<close>, on connections without TLS; here it is any change of the connection between two calls.
\<close>

section \<open>The context\<close>

record sw_tls_config =
  certificate_file :: cptr
  private_key_file :: cptr
  ca_file :: cptr
  ca_path :: cptr
  cipher_list :: cptr
  ciphersuites :: cptr
  verify_client :: bool
  require_client_cert :: bool
  handshake_timeout_ms :: int

definition sw_tls_config_default :: sw_tls_config where
  "sw_tls_config_default = \<lparr>certificate_file = None, private_key_file = None, ca_file = None, ca_path = None,
     cipher_list = None, ciphersuites = None, verify_client = False, require_client_cert = False,
     handshake_timeout_ms = 5 * 1000\<rparr>"

text \<open>
  A context is the list of the calls that configured it, the latest last. Whether a call succeeds
  may depend on those before it; a failure frees the context.
\<close>

datatype tls_version = TLS1_2_VERSION

datatype tls_option = SSL_OP_NO_SSLv2 | SSL_OP_NO_SSLv3 | SSL_OP_NO_TLSv1 | SSL_OP_NO_TLSv1_1
  | SSL_OP_NO_COMPRESSION | SSL_OP_NO_RENEGOTIATION

datatype verify_flag = SSL_VERIFY_PEER | SSL_VERIFY_FAIL_IF_NO_PEER_CERT

datatype ctx_call = Set_min_proto_version tls_version | Set_options "tls_option list"
  | Set_cipher_list string | Set_ciphersuites string
  | Use_certificate_chain_file string | Use_PrivateKey_file string | Check_private_key
  | Load_verify_locations cptr cptr | Set_default_verify_paths
  | Set_verify "verify_flag list" | Set_alpn_select_cb

type_synonym ctx_answers = "ctx_call list \<Rightarrow> ctx_call \<Rightarrow> bool"

definition ctx_try :: "ctx_answers \<Rightarrow> ctx_call \<Rightarrow> ctx_call list option \<Rightarrow> ctx_call list option" where
  "ctx_try succeeds call ctx =
     (case ctx of None \<Rightarrow> None | Some calls \<Rightarrow> if succeeds calls call then Some (calls @ [call]) else None)"

definition ctx_set :: "ctx_call \<Rightarrow> ctx_call list option \<Rightarrow> ctx_call list option" where
  "ctx_set call = map_option (\<lambda>calls. calls @ [call])"

definition ctx_try_given :: "ctx_answers \<Rightarrow> (string \<Rightarrow> ctx_call) \<Rightarrow> cptr \<Rightarrow> ctx_call list option \<Rightarrow> ctx_call list option" where
  "ctx_try_given succeeds call given ctx = (case given of None \<Rightarrow> ctx | Some g \<Rightarrow> ctx_try succeeds (call g) ctx)"

definition sw_tls_context_create ::
  "bool \<Rightarrow> bool \<Rightarrow> ctx_answers \<Rightarrow> sw_tls_config option \<Rightarrow> ctx_call list option" where
  "sw_tls_context_create init_ok new_ok succeeds config =
     (case config of None \<Rightarrow> None
      | Some c \<Rightarrow>
         (case (certificate_file c, private_key_file c) of
            (Some cert, Some key) \<Rightarrow>
              if \<not> init_ok then None
              else
                let ctx = (if new_ok then Some [] else None);
                    ctx = ctx_try succeeds (Set_min_proto_version TLS1_2_VERSION) ctx;
                    ctx = ctx_set (Set_options [SSL_OP_NO_SSLv2, SSL_OP_NO_SSLv3, SSL_OP_NO_TLSv1, SSL_OP_NO_TLSv1_1,
                            SSL_OP_NO_COMPRESSION, SSL_OP_NO_RENEGOTIATION]) ctx;
                    ctx = ctx_try_given succeeds Set_cipher_list (cipher_list c) ctx;
                    ctx = ctx_try_given succeeds Set_ciphersuites (ciphersuites c) ctx;
                    ctx = ctx_try succeeds (Use_certificate_chain_file cert) ctx;
                    ctx = ctx_try succeeds (Use_PrivateKey_file key) ctx;
                    ctx = ctx_try succeeds Check_private_key ctx;
                    verify = verify_client c \<or> require_client_cert c;
                    ctx = (if \<not> verify then ctx
                           else if ca_file c \<noteq> None \<or> ca_path c \<noteq> None
                           then ctx_try succeeds (Load_verify_locations (ca_file c) (ca_path c)) ctx
                           else ctx_try succeeds Set_default_verify_paths ctx);
                    verify_mode = (if verify then SSL_VERIFY_PEER #
                        (if require_client_cert c then [SSL_VERIFY_FAIL_IF_NO_PEER_CERT] else []) else [])
                in ctx_set Set_alpn_select_cb (ctx_set (Set_verify verify_mode) ctx)
          | _ \<Rightarrow> None))"

text \<open>A client that must show a certificate is never served by a context that does not ask for one.\<close>

lemma context_verifies_as_configured:
  "sw_tls_context_create init_ok new_ok succeeds (Some c) = Some calls \<Longrightarrow>
     Set_min_proto_version TLS1_2_VERSION \<in> set calls \<and> Check_private_key \<in> set calls
     \<and> (\<forall>m. Set_verify m \<in> set calls \<longleftrightarrow>
          m = (if verify_client c \<or> require_client_cert c then [SSL_VERIFY_PEER] else [])
              @ (if require_client_cert c then [SSL_VERIFY_FAIL_IF_NO_PEER_CERT] else []))
     \<and> ((verify_client c \<or> require_client_cert c) \<longleftrightarrow>
          Set_default_verify_paths \<in> set calls \<or> (\<exists>f p. Load_verify_locations f p \<in> set calls))"
  by (auto simp: sw_tls_context_create_def ctx_try_def ctx_set_def ctx_try_given_def Let_def
      split: option.splits if_splits)

text \<open>
  The protocol the server speaks, as a list with a length in front; the choice between it and the
  client's list is OpenSSL's.
\<close>

definition http11 :: string where
  "http11 = CHR 0x08 # ''http/1.1''"

definition sw_tls_alpn_select :: "(string \<Rightarrow> string \<Rightarrow> string option) \<Rightarrow> string \<Rightarrow> string option" where
  "sw_tls_alpn_select select_next_proto client = select_next_proto http11 client"

text \<open>\<^verbatim>\<open>sw_http_listen_tls\<close>: the listener's context and handshake timeout come with the result.\<close>

definition sw_http_listen_tls ::
  "(cptr \<Rightarrow> string \<Rightarrow> local_address list option) \<Rightarrow> bool \<Rightarrow> bool \<Rightarrow> bool \<Rightarrow> ctx_answers \<Rightarrow>
   cptr \<Rightarrow> sw_tls_config option \<Rightarrow> sw_server \<Rightarrow> int \<times> sw_server \<times> (ctx_call list \<times> int) option" where
  "sw_http_listen_tls getaddrinfo register_ok init_ok new_ok succeeds url tls s =
     (case (url, tls) of
        (Some _, Some t) \<Rightarrow>
          let tls_config = (if handshake_timeout_ms t \<le> 0
                then t\<lparr>handshake_timeout_ms := handshake_timeout_ms sw_tls_config_default\<rparr> else t) in
          (case sw_parse_listen_url_scheme url (Some ''https'') True (Some ''443'') 256 32 of
             None \<Rightarrow> (-1, s, None)
           | Some (host, port) \<Rightarrow>
               (case sw_tls_context_create init_ok new_ok succeeds (Some tls_config) of
                  None \<Rightarrow> (-1, s, None)
                | Some ctx \<Rightarrow>
                    (case fst (sw_create_listener_socket getaddrinfo (Some host) port (listen_backlog (sv_config s))) of
                       None \<Rightarrow> (-1, s, None)
                     | Some (fd, bound_port) \<Rightarrow>
                         let s1 = s\<lparr>sv_open := insert fd (sv_open s)\<rparr> in
                         if \<not> register_ok then (-1, s1\<lparr>sv_open := sv_open s1 - {fd}\<rparr>, None)
                         else (0, s1\<lparr>sv_listeners := sv_listeners s @ [\<lparr>li_fd = fd, li_bound_port = bound_port\<rparr>]\<rparr>,
                               Some (ctx, handshake_timeout_ms tls_config)))))
      | _ \<Rightarrow> (-1, s, None))"

section \<open>The connection\<close>

record tls_connection =
  tl_active :: bool
  tl_handshake_complete :: bool
  tl_want_read :: bool
  tl_want_write :: bool
  tl_read_wants_write :: bool
  tl_write_wants_read :: bool
  tl_handshake_started_at_ms :: real
  tl_handshake_timeout_ms :: int

record 'ssl tls_state =
  ts_conn :: sw_connection
  ts_tls :: tls_connection
  ts_ssl :: 'ssl
  ts_events :: "bool \<times> bool"

datatype ssl_error = SSL_ERROR_WANT_READ | SSL_ERROR_WANT_WRITE | SSL_ERROR_ZERO_RETURN | SSL_ERROR_SSL

datatype sw_tls_operation = SW_TLS_OP_HANDSHAKE | SW_TLS_OP_READ | SW_TLS_OP_WRITE

text \<open>
  The calls of OpenSSL: \<^verbatim>\<open>SSL_accept\<close> (done, or what \<^verbatim>\<open>SSL_get_error\<close> says), \<^verbatim>\<open>SSL_read\<close> with the size of
  the buffer, \<^verbatim>\<open>SSL_write\<close> (the bytes it took), and the protocol that was selected.
\<close>

record 'ssl ssl_calls =
  ssl_accept :: "'ssl \<Rightarrow> ssl_error option \<times> 'ssl"
  ssl_read :: "nat \<Rightarrow> 'ssl \<Rightarrow> (string + ssl_error) \<times> 'ssl"
  ssl_write :: "string \<Rightarrow> 'ssl \<Rightarrow> (nat + ssl_error) \<times> 'ssl"
  ssl_alpn_selected :: "'ssl \<Rightarrow> cptr"

text \<open>The TLS part of \<^verbatim>\<open>sw_connection_create\<close>.\<close>

definition tls_create :: "int \<Rightarrow> real \<Rightarrow> tls_connection" where
  "tls_create timeout now = \<lparr>tl_active = True, tl_handshake_complete = False, tl_want_read = True,
     tl_want_write = False, tl_read_wants_write = False, tl_write_wants_read = False,
     tl_handshake_started_at_ms = now, tl_handshake_timeout_ms = timeout\<rparr>"

definition sw_connection_tls_handshake_pending :: "tls_connection \<Rightarrow> bool" where
  "sw_connection_tls_handshake_pending t \<longleftrightarrow> tl_active t \<and> \<not> tl_handshake_complete t"

definition tls_wants_read :: "'ssl tls_state \<Rightarrow> bool" where
  "tls_wants_read st =
     (let t = ts_tls st in
      if tl_active t \<and> \<not> tl_handshake_complete t then tl_want_read t \<or> \<not> tl_want_write t
      else if tl_active t \<and> tl_write_wants_read t then True
      else True)"

definition tls_wants_write :: "'ssl tls_state \<Rightarrow> bool" where
  "tls_wants_write st =
     (let t = ts_tls st in
      if tl_active t \<and> \<not> tl_handshake_complete t then tl_want_write t
      else if tl_active t \<and> tl_read_wants_write t then True
      else if tl_active t \<and> tl_write_wants_read t then False
      else if tl_active t \<and> tl_want_write t then True
      else sw_connection_has_pending_output (ts_conn st))"

text \<open>The events registered in epoll; the timer it also schedules is in \<open>Manager\<close>.\<close>

definition tls_sync :: "'ssl tls_state \<Rightarrow> 'ssl tls_state" where
  "tls_sync st = st\<lparr>ts_events := (tls_wants_read st, tls_wants_write st)\<rparr>"

definition tls_mark_activity :: "real \<Rightarrow> 'ssl tls_state \<Rightarrow> 'ssl tls_state" where
  "tls_mark_activity now st = st\<lparr>ts_conn := (ts_conn st)\<lparr>c_last_activity_at_ms := now\<rparr>\<rparr>"

definition tls_close :: "'ssl tls_state \<Rightarrow> 'ssl tls_state" where
  "tls_close st = st\<lparr>ts_tls := (ts_tls st)\<lparr>tl_active := False\<rparr>, ts_events := (False, False)\<rparr>"

text \<open>The due time of a connection: while the handshake runs, its own timeout takes the place of the phase.\<close>

definition tls_timeout_due_ms :: "sw_server_config \<Rightarrow> 'ssl tls_state \<Rightarrow> real option" where
  "tls_timeout_due_ms cfg st =
     (let c = ts_conn st; t = ts_tls st in
      if c_write_shutdown c then
        (if idle_timeout_ms cfg > 0 then Some (c_last_activity_at_ms c + of_int (idle_timeout_ms cfg)) else None)
      else
        let due = (if sw_connection_tls_handshake_pending t \<and> tl_handshake_timeout_ms t > 0
              then Some (tl_handshake_started_at_ms t + of_int (tl_handshake_timeout_ms t)) else None);
            due = (if sw_connection_has_pending_output c \<and> write_timeout_ms cfg > 0
              then sooner due (c_last_activity_at_ms c + of_int (write_timeout_ms cfg)) else due);
            phase_timeout_ms = (if c_headers_complete c then body_timeout_ms cfg else header_timeout_ms cfg);
            due = (if c_request_started c \<and> \<not> c_request_ready c \<and> \<not> sw_connection_tls_handshake_pending t
                \<and> phase_timeout_ms > 0
              then sooner due (c_phase_started_at_ms c + of_int phase_timeout_ms) else due)
        in if idle_timeout_ms cfg > 0
           then sooner due (c_last_activity_at_ms c + of_int (idle_timeout_ms cfg)) else due)"

lemma plain_timeout:
  "\<not> tl_active (ts_tls st) \<Longrightarrow> tls_timeout_due_ms cfg st = sw_connection_timeout_due_ms cfg (ts_conn st)"
  by (simp add: tls_timeout_due_ms_def sw_connection_timeout_due_ms_def sw_connection_tls_handshake_pending_def Let_def)

section \<open>The transport\<close>

text \<open>\<^verbatim>\<open>sw_connection_tls_would_block\<close>: whether the call is to be repeated, and what for.\<close>

definition sw_connection_tls_would_block ::
  "sw_tls_operation \<Rightarrow> ssl_error \<Rightarrow> tls_connection \<Rightarrow> bool \<times> tls_connection" where
  "sw_connection_tls_would_block operation err t =
     (let t = t\<lparr>tl_want_read := False, tl_want_write := False\<rparr>;
          t = (case operation of
                 SW_TLS_OP_READ \<Rightarrow> t\<lparr>tl_read_wants_write := False\<rparr>
               | SW_TLS_OP_WRITE \<Rightarrow> t\<lparr>tl_write_wants_read := False\<rparr>
               | SW_TLS_OP_HANDSHAKE \<Rightarrow> t)
      in if err = SSL_ERROR_WANT_READ
         then (True, if operation = SW_TLS_OP_WRITE
                     then t\<lparr>tl_want_read := True, tl_write_wants_read := True\<rparr> else t\<lparr>tl_want_read := True\<rparr>)
         else if err = SSL_ERROR_WANT_WRITE
         then (True, if operation = SW_TLS_OP_READ
                     then t\<lparr>tl_want_write := True, tl_read_wants_write := True\<rparr> else t\<lparr>tl_want_write := True\<rparr>)
         else (False, t))"

definition sw_connection_tls_store_alpn :: "cptr \<Rightarrow> sw_connection \<Rightarrow> sw_connection" where
  "sw_connection_tls_store_alpn selected c =
     (case selected of
        None \<Rightarrow> c\<lparr>c_alpn := []\<rparr>
      | Some p \<Rightarrow> if p = [] then c\<lparr>c_alpn := []\<rparr> else c\<lparr>c_alpn := cstr (take 15 p)\<rparr>)"

definition sw_connection_tls_handshake ::
  "'ssl ssl_calls \<Rightarrow> real \<Rightarrow> 'ssl tls_state \<Rightarrow> int \<times> 'ssl tls_state" where
  "sw_connection_tls_handshake C now st =
     (if \<not> sw_connection_tls_handshake_pending (ts_tls st) then (1, st)
      else
        let (answer, ssl) = ssl_accept C (ts_ssl st); st = st\<lparr>ts_ssl := ssl\<rparr> in
        case answer of
          None \<Rightarrow>
            let st = st\<lparr>ts_tls := (ts_tls st)\<lparr>tl_handshake_complete := True, tl_want_read := False,
                  tl_want_write := False, tl_read_wants_write := False, tl_write_wants_read := False\<rparr>,
                  ts_conn := sw_connection_tls_store_alpn (ssl_alpn_selected C ssl) (ts_conn st)\<rparr>
            in (1, tls_mark_activity now st)
        | Some err \<Rightarrow>
            let (again, t) = sw_connection_tls_would_block SW_TLS_OP_HANDSHAKE err (ts_tls st);
                st = st\<lparr>ts_tls := t\<rparr>
            in if again then (0, tls_sync st) else (-1, st))"

text \<open>
  \<^verbatim>\<open>sw_connection_transport_recv\<close> and \<^verbatim>\<open>sw_connection_transport_send\<close> on a TLS connection: 1 with what
  was read or the number of bytes sent, 0 to wait, -2 at the end of the stream, -1 for an error. The
  buffers are not empty.
\<close>

definition sw_connection_transport_recv ::
  "'ssl ssl_calls \<Rightarrow> nat \<Rightarrow> 'ssl tls_state \<Rightarrow> int \<times> string \<times> 'ssl tls_state" where
  "sw_connection_transport_recv C data_cap st =
     (let (answer, ssl) = ssl_read C (min data_cap INT_MAX) (ts_ssl st); st = st\<lparr>ts_ssl := ssl\<rparr> in
      case answer of
        Inl data \<Rightarrow>
          (1, data, st\<lparr>ts_tls := (ts_tls st)\<lparr>tl_want_read := False, tl_want_write := False, tl_read_wants_write := False\<rparr>\<rparr>)
      | Inr err \<Rightarrow>
          let (again, t) = sw_connection_tls_would_block SW_TLS_OP_READ err (ts_tls st); st = st\<lparr>ts_tls := t\<rparr>
          in (if again then 0 else if err = SSL_ERROR_ZERO_RETURN then -2 else -1, [], st))"

definition sw_connection_transport_send ::
  "'ssl ssl_calls \<Rightarrow> string \<Rightarrow> 'ssl tls_state \<Rightarrow> int \<times> nat \<times> 'ssl tls_state" where
  "sw_connection_transport_send C data st =
     (let (answer, ssl) = ssl_write C (take INT_MAX data) (ts_ssl st); st = st\<lparr>ts_ssl := ssl\<rparr> in
      case answer of
        Inl n \<Rightarrow>
          (1, n, st\<lparr>ts_tls := (ts_tls st)\<lparr>tl_want_read := False, tl_want_write := False, tl_write_wants_read := False\<rparr>\<rparr>)
      | Inr err \<Rightarrow>
          let (again, t) = sw_connection_tls_would_block SW_TLS_OP_WRITE err (ts_tls st); st = st\<lparr>ts_tls := t\<rparr>
          in (if again then 0 else -1, 0, st))"

section \<open>Readable and writable\<close>

text \<open>
  How a ready connection is taken up: the handshake comes first, and each operation hands over to the
  other when OpenSSL needs the other direction. The outcome says what follows: return with a code, the
  receive loop, the part of \<^verbatim>\<open>sw_mgr_connection_writable\<close> behind its checks, or the other operation. A
  connection with TLS never has its write side shut down; \<open>Discard\<close> is for the plain ones.
\<close>

datatype 'ssl taken_up = Return int "'ssl tls_state" | Receive_loop "'ssl tls_state" | Write_out "'ssl tls_state"
  | To_writable "'ssl tls_state" | To_readable "'ssl tls_state" | Discard "'ssl tls_state"

definition after_handshake ::
  "'ssl ssl_calls \<Rightarrow> real \<Rightarrow> ('ssl tls_state \<Rightarrow> 'ssl taken_up) \<Rightarrow> 'ssl tls_state \<Rightarrow> 'ssl taken_up" where
  "after_handshake C now go st =
     (if sw_connection_tls_handshake_pending (ts_tls st)
      then (case sw_connection_tls_handshake C now st of (tls_rc, st1) \<Rightarrow>
              if tls_rc \<le> 0 then (if tls_rc < 0 then Return (-1) (tls_close st1) else Return 0 st1) else go st1)
      else go st)"

definition readable_entry :: "'ssl ssl_calls \<Rightarrow> real \<Rightarrow> 'ssl tls_state \<Rightarrow> 'ssl taken_up" where
  "readable_entry C now st =
     (if c_write_shutdown (ts_conn st) then Discard st
      else after_handshake C now (\<lambda>st.
        if tl_active (ts_tls st) \<and> tl_write_wants_read (ts_tls st) \<and> sw_connection_has_pending_output (ts_conn st)
        then To_writable st else Receive_loop st) st)"

definition writable_entry :: "'ssl ssl_calls \<Rightarrow> real \<Rightarrow> 'ssl tls_state \<Rightarrow> 'ssl taken_up" where
  "writable_entry C now st =
     after_handshake C now (\<lambda>st.
       if tl_active (ts_tls st) \<and> tl_read_wants_write (ts_tls st) \<and> \<not> sw_connection_has_pending_output (ts_conn st)
       then To_readable st else Write_out st) st"

text \<open>Handing over ends at once: the other operation never hands the connection back.\<close>

lemma to_writable_writes:
  "readable_entry C now st = To_writable st' \<Longrightarrow> writable_entry C now' st' = Write_out st'"
  by (auto simp: readable_entry_def writable_entry_def after_handshake_def sw_connection_tls_handshake_def
      sw_connection_tls_handshake_pending_def tls_mark_activity_def Let_def split: if_splits prod.splits option.splits)

lemma to_readable_reads:
  "writable_entry C now st = To_readable st' \<Longrightarrow> \<not> c_write_shutdown (ts_conn st') \<Longrightarrow>
   readable_entry C now' st' = Receive_loop st'"
  by (auto simp: readable_entry_def writable_entry_def after_handshake_def sw_connection_tls_handshake_def
      sw_connection_tls_handshake_pending_def tls_mark_activity_def Let_def split: if_splits prod.splits option.splits)

text \<open>
  One round of the receive loop, up to the call that takes the chunk: \<open>Chunk\<close> is followed by
  \<^verbatim>\<open>sw_connection_process_input\<close>, \<open>Too_large\<close> by the reply with 413, \<open>Blocked\<close> leaves the loop, \<open>Ended\<close> has
  closed the connection. One round of the loop that sends: \<open>Sent\<close> goes on, after filling from the file
  when the buffer is empty; \<open>Blocked\<close> leaves the loop with output, so the events are synchronised and
  the operation returns.
\<close>

datatype round = Chunk | Too_large | Sent | Blocked | Ended

definition receive_round ::
  "'ssl ssl_calls \<Rightarrow> sw_server_config \<Rightarrow> real \<Rightarrow> 'ssl tls_state \<Rightarrow> round \<times> 'ssl tls_state" where
  "receive_round C cfg now st =
     (case sw_connection_transport_recv C 4096 st of
        (read_rc, chunk, st1) \<Rightarrow>
          if read_rc > 0 then
            (let c = ts_conn st1;
                 c = (if c_request_started c then c else c\<lparr>c_request_started := True, c_phase_started_at_ms := now\<rparr>)
             in if max_read_buffer_bytes cfg > 0
                   \<and> (length chunk > SIZE_MAX - length (c_read_buffer c)
                      \<or> length (c_read_buffer c) + length chunk > max_read_buffer_bytes cfg)
                then (Too_large, st1\<lparr>ts_conn := c\<lparr>c_must_close := True\<rparr>\<rparr>)
                else (Chunk, tls_mark_activity now (st1\<lparr>ts_conn := c\<lparr>c_read_buffer := c_read_buffer c @ chunk\<rparr>\<rparr>)))
          else if read_rc = 0 then (Blocked, tls_sync st1)
          else (Ended, tls_close st1))"

definition send_round :: "'ssl ssl_calls \<Rightarrow> real \<Rightarrow> 'ssl tls_state \<Rightarrow> round \<times> 'ssl tls_state" where
  "send_round C now st =
     (case sw_connection_transport_send C (c_write_buffer (ts_conn st)) st of
        (send_rc, sent, st1) \<Rightarrow>
          if send_rc > 0 then
            (let st2 = tls_mark_activity now st1
             in (Sent, st2\<lparr>ts_conn := (ts_conn st2)\<lparr>c_write_buffer := drop sent (c_write_buffer (ts_conn st2))\<rparr>\<rparr>))
          else if send_rc = 0 then (Blocked, tls_sync st1)
          else (Ended, tls_close st1))"

text \<open>With TLS there is no half-closed connection: shutting down its write side closes it.\<close>

definition tls_shutdown_send :: "'ssl tls_state \<Rightarrow> int \<times> 'ssl tls_state" where
  "tls_shutdown_send st = (-1, tls_close st)"

section \<open>What a connection waits for\<close>

text \<open>
  What OpenSSL said last, of a call of each kind: nothing to wait for, input or output; and whether the
  connection has just been left to epoll, after a call that has to be repeated or a synchronisation. A
  step is the handshake, a round of one of the loops, \<^verbatim>\<open>sw_mgr_sync_connection\<close>, or a change of the connection
  by the event loop or the handler, which may add output but keeps output that OpenSSL has been asked to
  write and could not. A failed call closes the connection and is no step.
\<close>

datatype need = Nothing | Input | Output

fun need_of :: "ssl_error option \<Rightarrow> need" where
  "need_of (Some SSL_ERROR_WANT_READ) = Input"
| "need_of (Some SSL_ERROR_WANT_WRITE) = Output"
| "need_of _ = Nothing"

definition failure :: "'a + ssl_error \<Rightarrow> ssl_error option" where
  "failure answer = (case answer of Inl _ \<Rightarrow> None | Inr e \<Rightarrow> Some e)"

record needs =
  of_accept :: need
  of_read :: need
  of_write :: need
  left :: bool

inductive tls_step :: "'ssl ssl_calls \<Rightarrow> needs \<times> 'ssl tls_state \<Rightarrow> needs \<times> 'ssl tls_state \<Rightarrow> bool" for C where
  handshaking: "sw_connection_tls_handshake_pending (ts_tls st) \<Longrightarrow> sw_connection_tls_handshake C now st = (rc, st') \<Longrightarrow> 0 \<le> rc
    \<Longrightarrow> tls_step C (n, st) (n\<lparr>of_accept := need_of (fst (ssl_accept C (ts_ssl st))), left := (rc = 0)\<rparr>, st')"
| receiving: "tl_handshake_complete (ts_tls st) \<Longrightarrow> receive_round C cfg now st = (r, st') \<Longrightarrow> r \<noteq> Ended
    \<Longrightarrow> tls_step C (n, st) (n\<lparr>of_read := need_of (failure (fst (ssl_read C 4096 (ts_ssl st)))), left := (r = Blocked)\<rparr>, st')"
| sending: "tl_handshake_complete (ts_tls st) \<Longrightarrow> c_write_buffer (ts_conn st) \<noteq> []
    \<Longrightarrow> send_round C now st = (r, st') \<Longrightarrow> r \<noteq> Ended
    \<Longrightarrow> tls_step C (n, st) (n\<lparr>of_write := need_of (failure (fst (ssl_write C (take INT_MAX (c_write_buffer (ts_conn st))) (ts_ssl st)))),
          left := (r = Blocked)\<rparr>, st')"
| syncing: "tls_step C (n, st) (n\<lparr>left := True\<rparr>, tls_sync st)"
| working: "(of_write n \<noteq> Nothing \<Longrightarrow> sw_connection_has_pending_output c)
    \<Longrightarrow> tls_step C (n, st) (n\<lparr>left := False\<rparr>, st\<lparr>ts_conn := c\<rparr>)"

inductive_cases tls_stepE: "tls_step C x y"

definition tls_start :: "int \<Rightarrow> real \<Rightarrow> sw_connection \<Rightarrow> 'ssl \<Rightarrow> needs \<times> 'ssl tls_state" where
  "tls_start timeout now c ssl =
     (\<lparr>of_accept = Input, of_read = Nothing, of_write = Nothing, left = False\<rparr>,
      \<lparr>ts_conn = c, ts_tls = tls_create timeout now, ts_ssl = ssl, ts_events = (True, False)\<rparr>)"

text \<open>What the flags mean.\<close>

definition flags_right :: "needs \<Rightarrow> 'ssl tls_state \<Rightarrow> bool" where
  "flags_right n st \<longleftrightarrow> tl_active (ts_tls st) \<and>
     (left n \<longrightarrow> ts_events st = (tls_wants_read st, tls_wants_write st)) \<and>
     (if tl_handshake_complete (ts_tls st)
      then (tl_read_wants_write (ts_tls st) \<longleftrightarrow> of_read n = Output)
         \<and> (tl_write_wants_read (ts_tls st) \<longleftrightarrow> of_write n = Input)
         \<and> (tl_want_write (ts_tls st) \<longrightarrow> of_read n = Output \<or> of_write n = Output)
         \<and> (of_write n \<noteq> Nothing \<longrightarrow> sw_connection_has_pending_output (ts_conn st))
      else of_read n = Nothing \<and> of_write n = Nothing
         \<and> (tl_want_write (ts_tls st) \<longleftrightarrow> of_accept n = Output)
         \<and> (tl_want_write (ts_tls st) \<longrightarrow> \<not> tl_want_read (ts_tls st)))"

lemma would_block_again:
  "fst (sw_connection_tls_would_block op err t) \<longleftrightarrow> err = SSL_ERROR_WANT_READ \<or> err = SSL_ERROR_WANT_WRITE"
  by (simp add: sw_connection_tls_would_block_def Let_def)

lemma need_cases: "need_of (Some err) = (if err = SSL_ERROR_WANT_READ then Input else if err = SSL_ERROR_WANT_WRITE then Output else Nothing)"
  "need_of None = Nothing"
  by (cases err) simp_all

text \<open>The flags a call that is to be repeated leaves.\<close>

lemma would_block_flags:
  assumes "fst (sw_connection_tls_would_block op err t)"
  defines "u \<equiv> snd (sw_connection_tls_would_block op err t)"
  shows "tl_active u = tl_active t" "tl_handshake_complete u = tl_handshake_complete t"
    "tl_want_read u \<longleftrightarrow> need_of (Some err) = Input" "tl_want_write u \<longleftrightarrow> need_of (Some err) = Output"
    "tl_read_wants_write u \<longleftrightarrow> (if op = SW_TLS_OP_READ then need_of (Some err) = Output else tl_read_wants_write t)"
    "tl_write_wants_read u \<longleftrightarrow> (if op = SW_TLS_OP_WRITE then need_of (Some err) = Input else tl_write_wants_read t)"
  using assms(1) unfolding u_def
  by (cases op; cases err; simp add: sw_connection_tls_would_block_def)+

lemma sync_events: "ts_events (tls_sync st) = (tls_wants_read (tls_sync st), tls_wants_write (tls_sync st))"
  "ts_tls (tls_sync st) = ts_tls st" "ts_conn (tls_sync st) = ts_conn st"
  by (simp_all add: tls_sync_def tls_wants_read_def tls_wants_write_def)

lemma handshake_cases:
  assumes "sw_connection_tls_handshake_pending (ts_tls st)" "sw_connection_tls_handshake C now st = (rc, st')" "0 \<le> rc"
  obtains "fst (ssl_accept C (ts_ssl st)) = None" "rc = 1" "tl_active (ts_tls st') = tl_active (ts_tls st)"
      "tl_handshake_complete (ts_tls st')" "\<not> tl_want_write (ts_tls st')" "\<not> tl_read_wants_write (ts_tls st')"
      "\<not> tl_write_wants_read (ts_tls st')"
  | err where "fst (ssl_accept C (ts_ssl st)) = Some err" "fst (sw_connection_tls_would_block SW_TLS_OP_HANDSHAKE err (ts_tls st))"
      "ts_tls st' = snd (sw_connection_tls_would_block SW_TLS_OP_HANDSHAKE err (ts_tls st))"
      "ts_events st' = (tls_wants_read st', tls_wants_write st')"
proof (cases "fst (ssl_accept C (ts_ssl st))")
  case None
  with assms show ?thesis
    by (intro that(1)) (auto simp: sw_connection_tls_handshake_def Let_def case_prod_beta tls_mark_activity_def)
next
  case (Some err)
  with assms(1,2) have e: "(rc, st') =
    (let (again, t) = sw_connection_tls_would_block SW_TLS_OP_HANDSHAKE err (ts_tls st);
         st2 = st\<lparr>ts_ssl := snd (ssl_accept C (ts_ssl st)), ts_tls := t\<rparr>
     in if again then (0, tls_sync st2) else (-1, st2))"
    by (simp add: sw_connection_tls_handshake_def Let_def case_prod_beta)
  have again: "fst (sw_connection_tls_would_block SW_TLS_OP_HANDSHAKE err (ts_tls st))"
  proof (rule ccontr)
    assume "\<not> fst (sw_connection_tls_would_block SW_TLS_OP_HANDSHAKE err (ts_tls st))"
    with e have "rc = -1" by (simp add: Let_def case_prod_beta)
    with assms(3) show False by simp
  qed
  with e obtain x where "st' = tls_sync x" "ts_tls x = snd (sw_connection_tls_would_block SW_TLS_OP_HANDSHAKE err (ts_tls st))"
    by (simp add: Let_def case_prod_beta)
  with Some again show ?thesis by (intro that(2)) (simp_all add: sync_events)
qed

lemma receive_cases:
  assumes "receive_round C cfg now st = (r, st')" "r \<noteq> Ended"
  obtains d where "fst (ssl_read C 4096 (ts_ssl st)) = Inl d" "r \<noteq> Blocked"
      "sw_connection_has_pending_output (ts_conn st') = sw_connection_has_pending_output (ts_conn st)"
      "ts_tls st' = (ts_tls st)\<lparr>tl_want_read := False, tl_want_write := False, tl_read_wants_write := False\<rparr>"
  | err where "fst (ssl_read C 4096 (ts_ssl st)) = Inr err" "ts_conn st' = ts_conn st"
      "fst (sw_connection_tls_would_block SW_TLS_OP_READ err (ts_tls st))"
      "ts_tls st' = snd (sw_connection_tls_would_block SW_TLS_OP_READ err (ts_tls st))"
      "ts_events st' = (tls_wants_read st', tls_wants_write st')"
proof (cases "fst (ssl_read C 4096 (ts_ssl st))")
  case (Inl d)
  have i: "min 4096 INT_MAX = 4096" by (simp add: INT_MAX_def)
  show ?thesis using assms Inl
    by (intro that(1))
      (auto simp: receive_round_def sw_connection_transport_recv_def i Let_def case_prod_beta tls_mark_activity_def
        sw_connection_has_pending_output_def split: if_splits)
next
  case (Inr err)
  have i: "min 4096 INT_MAX = 4096" by (simp add: INT_MAX_def)
  show ?thesis using assms Inr
    by (intro that(2))
      (auto simp: receive_round_def sw_connection_transport_recv_def i Let_def case_prod_beta sync_events split: if_splits)
qed

lemma send_cases:
  assumes "send_round C now st = (r, st')" "r \<noteq> Ended"
  obtains n where "fst (ssl_write C (take INT_MAX (c_write_buffer (ts_conn st))) (ts_ssl st)) = Inl n" "r \<noteq> Blocked"
      "ts_tls st' = (ts_tls st)\<lparr>tl_want_read := False, tl_want_write := False, tl_write_wants_read := False\<rparr>"
  | err where "fst (ssl_write C (take INT_MAX (c_write_buffer (ts_conn st))) (ts_ssl st)) = Inr err" "ts_conn st' = ts_conn st"
      "fst (sw_connection_tls_would_block SW_TLS_OP_WRITE err (ts_tls st))"
      "ts_tls st' = snd (sw_connection_tls_would_block SW_TLS_OP_WRITE err (ts_tls st))"
      "ts_events st' = (tls_wants_read st', tls_wants_write st')"
proof (cases "fst (ssl_write C (take INT_MAX (c_write_buffer (ts_conn st))) (ts_ssl st))")
  case (Inl d)
  with assms show ?thesis
    by (intro that(1)) (auto simp: send_round_def sw_connection_transport_send_def Let_def case_prod_beta tls_mark_activity_def)
next
  case (Inr err)
  with assms show ?thesis
    by (intro that(2)) (auto simp: send_round_def sw_connection_transport_send_def Let_def case_prod_beta sync_events split: if_splits)
qed

lemma step_flags:
  assumes "tls_step C x y" "flags_right (fst x) (snd x)"
  shows "flags_right (fst y) (snd y)"
  using assms(1)
proof cases
  case (handshaking st now rc st' n)
  have p: "\<not> tl_handshake_complete (ts_tls st)" using handshaking(3) by (simp add: sw_connection_tls_handshake_pending_def)
  show ?thesis using handshaking(3-5)
  proof (cases rule: handshake_cases)
    case 1
    with p handshaking(1,2) assms(2) show ?thesis by (simp add: flags_right_def)
  next
    case (2 err)
    show ?thesis using p handshaking(1,2) assms(2) 2(1,4) would_block_flags[OF 2(2)]
      by (simp add: flags_right_def 2(3) del: need_of.simps)
  qed
next
  case (receiving st cfg now r st' n)
  show ?thesis using receiving(4,5)
  proof (cases rule: receive_cases)
    case (1 d)
    with receiving(1-3) assms(2) show ?thesis by (auto simp: flags_right_def failure_def)
  next
    case (2 err)
    show ?thesis using receiving(1-3) assms(2) 2(1,2,5) would_block_flags[OF 2(3)]
      by (simp add: flags_right_def failure_def 2(4) del: need_of.simps)
  qed
next
  case (sending st now r st' n)
  show ?thesis using sending(5,6)
  proof (cases rule: send_cases)
    case (1 k)
    with sending(1-4) assms(2) show ?thesis by (auto simp: flags_right_def failure_def)
  next
    case (2 err)
    show ?thesis using sending(1-4) assms(2) 2(1,2,5) would_block_flags[OF 2(3)]
      by (simp add: flags_right_def failure_def 2(4) sw_connection_has_pending_output_def del: need_of.simps)
  qed
next
  case (syncing n st)
  then show ?thesis using assms(2) by (simp add: flags_right_def sync_events)
next
  case (working n c st)
  then show ?thesis using assms(2) by (simp add: flags_right_def)
qed

section \<open>Properties\<close>

text \<open>
  C17. What a TLS connection is registered for in epoll when it is left waiting, after any calls in any
  order and with any answers of OpenSSL. During the handshake: the direction the last \<^verbatim>\<open>SSL_accept\<close> asked
  for and no other. Afterwards: always input; and room to write exactly when the last \<^verbatim>\<open>SSL_read\<close> asked
  for it, or output is pending that the last \<^verbatim>\<open>SSL_write\<close> did not make wait for input. So every direction
  that OpenSSL asked for is registered.
\<close>

theorem tls_waits_for_what_openssl_needs:
  assumes "(tls_step C)\<^sup>*\<^sup>* (tls_start timeout now c ssl) (n, st)" "left n"
  shows "ts_events st =
    (if sw_connection_tls_handshake_pending (ts_tls st) then (of_accept n \<noteq> Output, of_accept n = Output)
     else (True, of_read n = Output \<or> (sw_connection_has_pending_output (ts_conn st) \<and> of_write n \<noteq> Input)))"
proof -
  have start: "flags_right (fst (tls_start timeout now c ssl)) (snd (tls_start timeout now c ssl))"
    by (simp add: flags_right_def tls_start_def tls_create_def)
  have "flags_right (fst y) (snd y)" if "(tls_step C)\<^sup>*\<^sup>* (tls_start timeout now c ssl) y" for y
    using that by (induction rule: rtranclp_induct) (rule start, rule step_flags)
  from this[OF assms(1)] assms(2) show ?thesis
    by (auto simp: flags_right_def tls_wants_read_def tls_wants_write_def sw_connection_tls_handshake_pending_def
        Let_def split: if_splits)
qed

text \<open>
  A small engine that decrypts the records of its socket one by one and needs room to write before it
  reads the first, as in a change of keys.
\<close>

definition rekeying_engine :: "(bool \<times> string list) ssl_calls" where
  "rekeying_engine = \<lparr>ssl_accept = (\<lambda>e. (None, e)),
     ssl_read = (\<lambda>cap (rekeyed, k). if \<not> rekeyed then (Inr SSL_ERROR_WANT_WRITE, True, k)
       else case k of [] \<Rightarrow> (Inr SSL_ERROR_WANT_READ, rekeyed, k) | r # k' \<Rightarrow> (Inl (take cap r), rekeyed, k')),
     ssl_write = (\<lambda>data e. (Inl (length data), e)),
     ssl_alpn_selected = (\<lambda>_. Some ''http/1.1'')\<rparr>"

definition tls_client :: sw_connection where
  "tls_client = new_connection 5 0 True True None 4000 True 0"

definition accepted_client :: "(bool \<times> string list) tls_state" where
  "accepted_client = snd (sw_connection_tls_handshake rekeying_engine 1 (snd (tls_start 5000 0 tls_client (False, [''GET'']))))"

definition blocked_client :: "(bool \<times> string list) tls_state" where
  "blocked_client = snd (receive_round rekeying_engine sw_server_config_default 2 accepted_client)"

theorem tls_waits_for_what_openssl_needs_witness:
  "ts_events accepted_client = (True, False) \<and> ts_events blocked_client = (True, True)"
proof -
  let ?s = "tls_start 5000 0 tls_client (False, [''GET''])"
  let ?n = "\<lparr>of_accept = Nothing, of_read = Nothing, of_write = Nothing, left = False\<rparr>"
  have t: "ts_tls accepted_client = (tls_create 5000 0)\<lparr>tl_handshake_complete := True, tl_want_read := False\<rparr>"
    "ts_events accepted_client = (True, False)" "ts_ssl accepted_client = (False, [''GET''])"
    by (simp_all add: accepted_client_def tls_start_def tls_create_def sw_connection_tls_handshake_def rekeying_engine_def
        sw_connection_tls_handshake_pending_def tls_mark_activity_def)
  have b: "receive_round rekeying_engine sw_server_config_default 2 accepted_client = (Blocked, blocked_client)"
    by (simp add: blocked_client_def receive_round_def sw_connection_transport_recv_def t rekeying_engine_def
        sw_connection_tls_would_block_def)
  have "tls_step rekeying_engine ?s (?n, accepted_client)"
    using handshaking[of "snd ?s" rekeying_engine 1 1 accepted_client "fst ?s"]
    by (simp add: tls_start_def tls_create_def sw_connection_tls_handshake_pending_def accepted_client_def
        sw_connection_tls_handshake_def rekeying_engine_def)
  moreover have "tls_step rekeying_engine (?n, accepted_client) (?n\<lparr>of_read := Output, left := True\<rparr>, blocked_client)"
    using receiving[OF _ b, of ?n] by (simp add: t tls_create_def rekeying_engine_def failure_def)
  ultimately have "(tls_step rekeying_engine)\<^sup>*\<^sup>* ?s (?n\<lparr>of_read := Output, left := True\<rparr>, blocked_client)"
    by (meson converse_rtranclp_into_rtranclp rtranclp.rtrancl_refl)
  from tls_waits_for_what_openssl_needs[OF this] t show ?thesis
    by (simp add: blocked_client_def receive_round_def sw_connection_transport_recv_def rekeying_engine_def
        sw_connection_tls_would_block_def tls_sync_def tls_create_def sw_connection_tls_handshake_pending_def)
qed

end
