(* ===== verification/Spec2Isabelle.thy ===== *)
theory Spec2Isabelle
  imports Prelude Utility CharArray HttpText Chunked Message Request RequestSpec Timers
    Connection Response Query Paths Multipart Upload UploadSpec Store Sessions Tokens
    Database SqlRewrite PgDriver SqliteDriver DbFacade
    Translator Reader Html HtmlSpec HtmlRead JsRuntime Js JsRead
    Manager ManagerFrame ManagerInv ManagerTotal ManagerTimers ManagerFaults
    ListenUrl Server ServerSteps Tls
begin

text \<open>
  A verification library for Syphax-Web, a C library for web servers: an event-driven HTTP/1.1 server
  with worker threads, sessions and login tokens, builders for HTML and for the scripts that go with
  it, a translator, and an interface to two databases. The model follows the build on Linux with epoll;
  TLS, an option that is off by default, has a theory of its own. This header says how the program is
  put together, where each part is modelled, what is shown, and what is left out.

  \<^bold>\<open>The program.\<close> A server (\<^verbatim>\<open>sw_server\<close>, the same structure as a manager \<^verbatim>\<open>sw_mgr\<close>) has listeners, a
  thread that accepts, and workers, each with a manager of its own. The accept thread hands sockets to
  the workers in turn through queues. A manager runs a loop: it takes queued sockets, closes what is
  over its time, waits in epoll, and lets the ready sockets receive and send. Received bytes go
  through the request parser into a request, the application's handler answers through the response
  functions, which fill a bounded write buffer, and a kept connection starts over. Handlers read
  variables, forms and uploads, keep sessions and tokens, serve files, and build documents with the
  HTML and script builders, whose texts pass through the translator. The database interface stands
  beside the server.

  \<^bold>\<open>Where each part is modelled.\<close> Paths are below \<^verbatim>\<open>src/src\<close>; headers are below \<^verbatim>\<open>src/include\<close>.

  \<^item> \<open>Prelude\<close>: bytes, C strings, character classes, size limits, facts on lists of bytes.
  \<^item> \<open>Utility\<close>, \<open>CharArray\<close>: \<^verbatim>\<open>sw_utility.c\<close>, the string helpers and the byte buffers. The array
    library of the buffers is a submodule; the locale \<open>s_array\<close> has its laws and \<open>byte_sink\<close> is the
    contract of everything that appends.
  \<^item> \<open>HttpText\<close>, \<open>Chunked\<close>, \<open>Message\<close>, \<open>Request\<close>: \<^verbatim>\<open>sw_server.c\<close>, from \<^verbatim>\<open>sw_find_bytes\<close> to
    \<^verbatim>\<open>sw_connection_try_parse_request\<close>. \<open>RequestSpec\<close> is their specification: a reference that reads
    lines, and the rendering of a request.
  \<^item> \<open>Response\<close>: \<^verbatim>\<open>sw_server.c\<close>, the response functions and cookies. \<open>Query\<close>: query, form and cookie
    variables. \<open>Paths\<close>: request paths and \<^verbatim>\<open>sw_http_serve_path\<close>. \<open>Multipart\<close>: multipart bodies.
    \<open>Upload\<close>, \<open>UploadSpec\<close>: uploads, streamed from the socket or out of a buffered body.
  \<^item> \<open>Store\<close>, \<open>Sessions\<close>, \<open>Tokens\<close>: \<^verbatim>\<open>sw_server.c\<close>, the two stores of entries that expire. The loops they
    share are modelled once; the locales \<open>expiring_store\<close> and \<open>item_table\<close> state what their clients
    use.
  \<^item> \<open>Timers\<close>, \<open>Connection\<close>, \<open>Manager\<close>: \<^verbatim>\<open>sw_server.c\<close> and \<^verbatim>\<open>sw_backend_epoll.c\<close>, a manager's round from
    \<^verbatim>\<open>sw_mgr_poll\<close> on. The heap interprets the locale \<open>priority_queue\<close>. \<open>ManagerFrame\<close> has what
    operations leave alone, \<open>ManagerInv\<close> the resource invariant, \<open>ManagerTotal\<close> that no freed
    connection is used, \<open>ManagerTimers\<close> the timer loop, \<open>ManagerFaults\<close> what goes wrong when the
    kernel refuses.
  \<^item> \<open>ListenUrl\<close>, \<open>Server\<close>, \<open>ServerSteps\<close>: \<^verbatim>\<open>sw_server.c\<close>, the listen URL, listeners, workers, starting,
    stopping, waiting and destroying; the interleavings of the threads as a step relation.
  \<^item> \<open>Tls\<close>: \<^verbatim>\<open>sw_server.c\<close> under \<^verbatim>\<open>SYPHAX_WEB_HAS_TLS\<close>: context, handshake, transport, and one round of
    the receive and of the send loop up to the events that are registered. What the loops do with the
    bytes is modelled in \<open>Manager\<close> for plain connections only.
  \<^item> \<open>Translator\<close>: \<^verbatim>\<open>sw_translator.c\<close>. \<open>Html\<close>, \<open>HtmlSpec\<close>, \<open>HtmlRead\<close>: \<^verbatim>\<open>sw_html.c\<close>. \<open>JsRuntime\<close>, \<open>Js\<close>,
    \<open>JsRead\<close>: \<^verbatim>\<open>sw_js.c\<close>. \<open>Reader\<close>: readers as state machines, for the two reference readers.
  \<^item> \<open>Database\<close>, \<open>SqlRewrite\<close>, \<open>PgDriver\<close>, \<open>SqliteDriver\<close>, \<open>DbFacade\<close>: \<^verbatim>\<open>sw_db_internal.h\<close>, \<^verbatim>\<open>sw_db.c\<close>,
    \<^verbatim>\<open>sw_db_postgres.c\<close>, \<^verbatim>\<open>sw_db_sqlite.c\<close>. The locale \<open>bounded_statement\<close> is the contract of a
    prepared statement; both drivers interpret it.

  \<^bold>\<open>How C is read.\<close> A C string is the list of bytes behind the pointer, cut at its first NUL by
  \<open>cstr\<close>; a pointer that may be NULL is an option. A pair of pointer and length is a list. A
  \<^verbatim>\<open>size_t\<close> is a natural number, with \<^verbatim>\<open>SIZE_MAX\<close> written out where the code checks it; a time is a real
  number of milliseconds. Growing buffers are their contents. Allocation succeeds. What the code gets
  from outside is an argument of the definitions that use it: answers of system calls (as queues of
  events, or as functions such as \<open>realpath\<close>), the clock, random bytes, files, the ciphers and base64
  of OpenSSL, the JSON parser, libpq and SQLite, and the application's handlers. Hypotheses on such
  arguments are named in the theorems that use them, and a witness gives a concrete instance.

  \<^bold>\<open>What is shown.\<close>

  \<^item> Parsing: a rendered request, chunked body, multipart body, query variable, cookie or listen URL
    is read back exactly; the cursor loops equal line-by-line references; an accepted request cannot be
    framed in two ways and lies within the limits.
  \<^item> Responses: the head is the stated list of lines; no header or cookie call can add a line.
  \<^item> Files and uploads: a file that is served lies, name by name, inside the document root whatever the
    symbolic links are, with one exception: a sibling whose name is that of the root continued by a
    backslash. What a streamed upload saves depends on the bytes alone and is what the multipart body says.
  \<^item> Stores: bounds, expiry, eviction of the least recently used, distinct identifiers over every
    sequence of operations; a cookie is recognised exactly when it was sealed for a live token.
  \<^item> The event loop of a manager that accepts its own connections: sockets, epoll set, timers and counts
    agree with the live connections after every round. No freed connection is used while \<^verbatim>\<open>epoll_ctl\<close>
    succeeds, the write buffer has room for 512 bytes and handlers leave no queued headers behind.
    Expiring ends and leaves nobody behind whose time is over, whatever the configuration and the
    answers of the kernel.
  \<^item> The server: in every interleaving each socket has one owner, the limit on connections is kept and
    workers get equal shares; waiting and destroying leave nothing open. A TLS connection is
    registered, in the handshake, for exactly the direction OpenSSL asks for, and afterwards for input
    and for the output that either direction needs.
  \<^item> Builders: a document or script reads back, by a reference reader, as the elements, texts and
    options it was built from, so that no value can turn into markup; the translation switch is
    lexically scoped; the translator stays well formed.
  \<^item> Databases: placeholders are numbered in order and nothing else of a statement changes; a query sends
    exactly the bound values and its rows are read back.
  \<^item> Errors the model shows in the code: a refusal that frees the connection while the loop still uses
    it, a reply over the buffer limit that leaves its bare head, a trailer limit that depends on how the
    input was cut, statements the placeholder rewriting misreads by a reference reading of the lexical
    rules of PostgreSQL, a file outside the document root that is served, and a server that is started
    again without workers.

  \<^bold>\<open>Loops.\<close> Loops over data are recursive functions with termination proofs. The only fuel is that of
  the unbounded loop over due timers (\<^verbatim>\<open>sw_mgr_expire_timeouts\<close>): twice the number of live connections
  and one more, which \<open>ManagerTimers\<close> shows to be enough, since a connection is refused at most once
  before it is closed. The loop that waits for bytes of an upload consumes the list of events that
  arrive and ends with it. The compare-and-exchange loop of the connection counter takes the values it
  finds as a list; its result is that of one atomic step.

  \<^bold>\<open>Not modelled.\<close> Windows (\<^verbatim>\<open>sw_backend_wsapoll.c\<close>, console handlers, the socket runtime) and the
  signal handlers of \<^verbatim>\<open>sw_server_run\<close>, which only set the stop flag; memory and its release (\<^verbatim>\<open>free\<close>,
  the destructors of buffers, stores and translators) except where a freed connection could still be
  used; the bodies of system calls, of the file reader, of the clock and of the source of random
  bytes; the combination of TLS with the resource invariant of the manager, whose connections are
  plain, and with the manager of a worker, whose round also takes over queued sockets (modelled) and
  whose count is that of the whole server (the subject of \<open>ServerSteps\<close>); the attribute setters of \<^verbatim>\<open>sw_html.h\<close> that only call \<^verbatim>\<open>sw_attr\<close>; examples, tests and tools,
  which are programs that use the library.
\<close>

end
